(* ===== verification/Prelude.thy ===== *)
theory Prelude
  imports Main "HOL-Library.Word" "HOL-Library.Char_ord"
begin

section \<open>Shared vocabulary of the development\<close>

text \<open>
  The types and the generic lemmas that every component theory uses: the machine integers of the
  source, the ways a C++ call can fail, the \<open>named_theorems\<close> collections, and lemmas on lists,
  prefixes and sorted lists.

  A \<^verbatim>\<open>uint64_t\<close> is a 64-bit word and a \<^verbatim>\<open>std::string\<close> is a list of bytes (HOL's \<^typ>\<open>char\<close>).
  An \<^verbatim>\<open>int\<close> that only takes part in comparisons, printing and small increments is an \<^typ>\<open>int\<close>;
  where the source narrows a \<^verbatim>\<open>long\<close> to an \<^verbatim>\<open>int\<close> the wrap-around is written out
  (\<open>to_int32\<close>).
\<close>

type_synonym u64 = "64 word"

text \<open>
  How a C++ call can leave the normal path: \<^verbatim>\<open>std::out_of_range\<close> and
  \<^verbatim>\<open>std::invalid_argument\<close> (from \<^verbatim>\<open>std::stoi\<close>, \<^verbatim>\<open>substr\<close>,
  \<^verbatim>\<open>compare\<close>), \<^verbatim>\<open>std::length_error\<close> (from \<^verbatim>\<open>resize\<close>), a failed \<^verbatim>\<open>CHECK\<close> (the process aborts), a \<^verbatim>\<open>CF_EXPECT\<close> error returned
  to the caller, and undefined behaviour (an access through an iterator or an index that is out of
  range). Nothing in the modelled code catches the exceptions, so each of them ends the operation.
\<close>

datatype cpp_error =
    Out_Of_Range
  | Invalid_Argument
  | Check_Failed
  | Cf_Error
  | Length_Error
  | Undefined_Behaviour

type_synonym 'a result = "cpp_error + 'a"

abbreviation Ok :: "'a \<Rightarrow> 'a result" where
  "Ok \<equiv> Inr"

abbreviation Err :: "cpp_error \<Rightarrow> 'a result" where
  "Err \<equiv> Inl"

definition bind_result :: "'a result \<Rightarrow> ('a \<Rightarrow> 'b result) \<Rightarrow> 'b result" where
  "bind_result r f = (case r of Inl e \<Rightarrow> Inl e | Inr x \<Rightarrow> f x)"

lemma bind_result_simps [simp]:
  "bind_result (Inl e) f = Inl e"
  "bind_result (Inr x) f = f x"
  by (simp_all add: bind_result_def)

lemma bind_result_Inr_iff:
  "bind_result r f = Inr y \<longleftrightarrow> (\<exists>x. r = Inr x \<and> f x = Inr y)"
  by (cases r) auto

lemma bind_result_fundef_cong [fundef_cong]:
  "r = r' \<Longrightarrow> (\<And>x. r' = Inr x \<Longrightarrow> f x = g x) \<Longrightarrow> bind_result r f = bind_result r' g"
  by (cases r') simp_all

text \<open>
  The collections: equations of the string and number helpers (\<open>cpp_string\<close>), facts that an
  operation keeps a component's invariant (\<open>inv_intros\<close>).
\<close>

named_theorems cpp_string \<open>equations of the modelled C++ string and number helpers\<close>
named_theorems inv_intros \<open>operations keep their component's invariant\<close>

subsection \<open>Sizes and offsets\<close>

lemma unat_u64 [simp]: "n < 2 ^ 64 \<Longrightarrow> unat (of_nat n :: u64) = n"
  by (simp add: unat_of_nat take_bit_nat_eq_self)

lemma u64_pos_iff: "0 < (w :: u64) \<longleftrightarrow> 0 < unat w"
  by (simp add: word_less_nat_alt)

lemma unat_u64_less: "unat (w :: u64) < 2 ^ 64"
  using unsigned_less [of w, where ?'a = nat] by simp

lemma unat_u64_add: "unat a + unat b < 2 ^ 64 \<Longrightarrow> unat (a + b :: u64) = unat a + unat b"
  by (simp add: unat_word_ariths)

lemma unat_u64_sub: "b \<le> a \<Longrightarrow> unat (a - b :: u64) = unat a - unat b"
  by (simp add: unat_sub)

lemma sint_u64_small: "unat (w :: u64) < 2 ^ 63 \<Longrightarrow> sint w = int (unat w)"
proof -
  assume "unat w < 2 ^ 63"
  then have "int (unat w) < int (2 ^ 63)" by (simp only: of_nat_less_iff)
  then have "signed_take_bit 63 (uint w) = uint w"
    by (intro signed_take_bit_int_eq_self) (simp_all add: order_trans [OF _ uint_ge_0])
  then show ?thesis by (simp add: sint_uint)
qed

lemma sint_u64_bounds: "unat (w :: u64) < 2 ^ 63 \<Longrightarrow> 0 \<le> sint w \<and> sint w < 2 ^ 63 \<and> nat (sint w) = unat w"
proof -
  assume small: "unat w < 2 ^ 63"
  then have "int (unat w) < int (2 ^ 63)" by (simp only: of_nat_less_iff)
  then show ?thesis unfolding sint_u64_small [OF small] by simp
qed

lemma u64_not_max: "unat (w :: u64) < 2 ^ 63 \<Longrightarrow> w \<noteq> - 1"
  by (auto simp: unsigned_minus_1_eq_mask mask_eq_exp_minus_1)

subsection \<open>Lists\<close>

lemma takeWhile_eq_filter_sorted:
  assumes "sorted_wrt R xs" and "\<And>x y. R x y \<Longrightarrow> P y \<Longrightarrow> P x"
  shows "takeWhile P xs = filter P xs"
  using assms(1)
proof (induction xs)
  case Nil
  show ?case by simp
next
  case (Cons x xs)
  show ?case
  proof (cases "P x")
    case True
    then show ?thesis using Cons by simp
  next
    case False
    then have "filter P xs = []"
      using Cons.prems assms(2) by (fastforce simp: filter_empty_conv)
    then show ?thesis using False by simp
  qed
qed

lemma sorted_wrt_snocD: "sorted_wrt R (xs @ [x]) \<Longrightarrow> sorted_wrt R xs \<and> (\<forall>y\<in>set xs. R y x)"
  by (auto simp: sorted_wrt_append)

lemma takeWhile_snoc_last: "takeWhile P xs = ys @ [y] \<Longrightarrow> P y \<and> y \<in> set xs"
  by (metis in_set_conv_decomp set_takeWhileD)

lemma dropWhile_hd_not: "dropWhile P xs = y # ys \<Longrightarrow> \<not> P y \<and> y \<in> set xs"
proof (induction xs)
  case Nil
  then show ?case by simp
next
  case (Cons x xs)
  then show ?case by (cases "P x") auto
qed

lemma last_butlast_or_Nil: "xs = [] \<or> (\<exists>ys y. xs = ys @ [y])"
  by (cases xs rule: rev_cases) auto

end
