(* ===== verification/Cpp_String.thy ===== *)
theory Cpp_String
  imports Prelude
begin

section \<open>Strings and numbers of the C++ library\<close>

text \<open>
  What the modem simulator uses of \<^verbatim>\<open>std::string\<close>, \<^verbatim>\<open>std::string_view\<close>,
  \<^verbatim>\<open>std::stringstream\<close>, \<^verbatim>\<open>strtol\<close> and \<^verbatim>\<open>std::stoi\<close>, with their failures as values. An
  offset \<^verbatim>\<open>npos\<close> is \<^const>\<open>None\<close>.
\<close>

subsection \<open>Searching and cutting\<close>

fun find_char :: "char \<Rightarrow> string \<Rightarrow> nat option" where
  "find_char c [] = None"
| "find_char c (x # xs) = (if x = c then Some 0 else map_option Suc (find_char c xs))"

definition find_last_of :: "char \<Rightarrow> string \<Rightarrow> nat option" where
  "find_last_of c s = map_option (\<lambda>i. length s - 1 - i) (find_char c (rev s))"

definition substr :: "string \<Rightarrow> nat \<Rightarrow> nat \<Rightarrow> string result" where
  "substr s pos n = (if pos \<le> length s then Ok (take n (drop pos s)) else Err Out_Of_Range)"

definition substr_from :: "string \<Rightarrow> nat \<Rightarrow> string result" where
  "substr_from s pos = (if pos \<le> length s then Ok (drop pos s) else Err Out_Of_Range)"

lemma find_char_None [simp]: "find_char c s = None \<longleftrightarrow> c \<notin> set s"
  by (induction s) auto

lemma find_char_Some:
  "find_char c s = Some i \<Longrightarrow> i < length s \<and> s ! i = c \<and> c \<notin> set (take i s)"
proof (induction s arbitrary: i)
  case Nil
  then show ?case by simp
next
  case (Cons x s)
  then show ?case by (cases i) (auto split: if_splits)
qed

lemma find_char_append [simp]: "c \<notin> set s \<Longrightarrow> find_char c (s @ c # r) = Some (length s)"
  by (induction s) auto

lemma find_char_lt: "find_char c s = Some i \<Longrightarrow> i < length s"
  by (simp add: find_char_Some)

subsection \<open>Printing integers\<close>

definition digit_lower :: "nat \<Rightarrow> char" where
  "digit_lower d = char_of (if d < 10 then 48 + d else 87 + d)"

definition digit_upper :: "nat \<Rightarrow> char" where
  "digit_upper d = char_of (if d < 10 then 48 + d else 55 + d)"

function digits_of :: "(nat \<Rightarrow> char) \<Rightarrow> nat \<Rightarrow> nat \<Rightarrow> string" where
  "digits_of f b n = (if n < b \<or> b < 2 then [f n] else digits_of f b (n div b) @ [f (n mod b)])"
  by pat_completeness auto
termination
  by (relation "measure (\<lambda>(f, b, n). n)") (auto intro: div_less_dividend)

declare digits_of.simps [simp del]

definition to_string :: "int \<Rightarrow> string" where
  "to_string i =
     (if i < 0 then CHR ''-'' # digits_of digit_lower 10 (nat (- i))
      else digits_of digit_lower 10 (nat i))"

text \<open>
  \<^verbatim>\<open>ss << std::hex << value\<close> prints an \<^verbatim>\<open>int\<close> as the 32-bit unsigned number with the same bits.
\<close>

definition hex_string :: "(nat \<Rightarrow> char) \<Rightarrow> int \<Rightarrow> string" where
  "hex_string f i = digits_of f 16 (nat (i mod 2 ^ 32))"

definition bool_string :: "bool \<Rightarrow> string" where
  "bool_string b = (if b then ''1'' else ''0'')"

definition setw_0 :: "nat \<Rightarrow> string \<Rightarrow> string" where
  "setw_0 w s = replicate (w - length s) (CHR ''0'') @ s"

subsection \<open>Reading integers\<close>

definition isspace :: "char \<Rightarrow> bool" where
  "isspace c \<longleftrightarrow> of_char c = (32::nat) \<or> (9 \<le> (of_char c::nat) \<and> of_char c \<le> (13::nat))"

definition digit_value :: "char \<Rightarrow> nat option" where
  "digit_value c =
     (let n = of_char c in
      if 48 \<le> n \<and> n \<le> 57 then Some (n - 48)
      else if 65 \<le> n \<and> n \<le> 90 then Some (n - 55)
      else if 97 \<le> n \<and> n \<le> 122 then Some (n - 87)
      else None)"

definition is_digit :: "nat \<Rightarrow> char \<Rightarrow> bool" where
  "is_digit b c \<longleftrightarrow> (case digit_value c of None \<Rightarrow> False | Some d \<Rightarrow> d < b)"

definition digits_value :: "nat \<Rightarrow> string \<Rightarrow> nat" where
  "digits_value b s = foldl (\<lambda>acc c. acc * b + the (digit_value c)) 0 s"

text \<open>
  The subject sequence of \<^verbatim>\<open>strtol\<close>: white space, an optional sign, for base 16 an optional
  \<^verbatim>\<open>0x\<close> that a digit follows, then the longest run of digits. \<^const>\<open>None\<close> is \<^verbatim>\<open>p == p_end\<close>;
  the value is the number before it is clamped to the range of \<^verbatim>\<open>long\<close>.
\<close>

definition sign_split :: "string \<Rightarrow> bool \<times> string" where
  "sign_split s =
     (case s of
        [] \<Rightarrow> (False, [])
      | c # r \<Rightarrow> if c = CHR ''-'' then (True, r) else if c = CHR ''+'' then (False, r) else (False, s))"

definition skip_0x :: "nat \<Rightarrow> string \<Rightarrow> string" where
  "skip_0x b s =
     (if b = 16 \<and> length s \<ge> 3 \<and> s ! 0 = CHR ''0'' \<and> (s ! 1 = CHR ''x'' \<or> s ! 1 = CHR ''X'') \<and>
         is_digit 16 (s ! 2)
      then drop 2 s else s)"

definition strtol_value :: "nat \<Rightarrow> string \<Rightarrow> int option" where
  "strtol_value b s =
     (let (neg, r) = sign_split (dropWhile isspace s);
          ds = takeWhile (is_digit b) (skip_0x b r)
      in if ds = [] then None
         else Some (if neg then - int (digits_value b ds) else int (digits_value b ds)))"

definition in_long :: "int \<Rightarrow> bool" where
  "in_long v \<longleftrightarrow> - (2 ^ 63) \<le> v \<and> v < 2 ^ 63"

definition in_int :: "int \<Rightarrow> bool" where
  "in_int v \<longleftrightarrow> - (2 ^ 31) \<le> v \<and> v < 2 ^ 31"

definition to_int32 :: "int \<Rightarrow> int" where
  "to_int32 v = (v + 2 ^ 31) mod 2 ^ 32 - 2 ^ 31"

text \<open>\<^verbatim>\<open>std::stoi(s, nullptr, base)\<close>.\<close>

definition stoi :: "nat \<Rightarrow> string \<Rightarrow> int result" where
  "stoi b s =
     (case strtol_value b s of
        None \<Rightarrow> Err Invalid_Argument
      | Some v \<Rightarrow> if in_int v then Ok v else Err Out_Of_Range)"

subsection \<open>Printing and reading back\<close>

lemma to_int32_id [simp]: "in_int v \<Longrightarrow> to_int32 v = v"
  by (simp add: to_int32_def in_int_def)

lemma in_int_to_int32: "in_int (to_int32 v)"
proof -
  have "0 \<le> (v + 2 ^ 31) mod 2 ^ 32" "(v + 2 ^ 31) mod 2 ^ 32 < 2 ^ 32" by simp_all
  then show ?thesis unfolding to_int32_def in_int_def by simp
qed

lemma in_int_in_long: "in_int v \<Longrightarrow> in_long v"
  by (auto simp: in_int_def in_long_def)

lemma of_char_digit_lower: "d < 36 \<Longrightarrow> of_char (digit_lower d) = (if d < 10 then 48 + d else 87 + d)"
  by (simp add: digit_lower_def)

lemma of_char_digit_upper: "d < 36 \<Longrightarrow> of_char (digit_upper d) = (if d < 10 then 48 + d else 55 + d)"
  by (simp add: digit_upper_def)

lemma digit_value_lower [simp]: "d < 36 \<Longrightarrow> digit_value (digit_lower d) = Some d"
  by (simp add: digit_value_def of_char_digit_lower)

lemma digit_value_upper [simp]: "d < 36 \<Longrightarrow> digit_value (digit_upper d) = Some d"
  by (simp add: digit_value_def of_char_digit_upper)

lemma digits_of_nonempty [simp]: "digits_of f b n \<noteq> []"
  by (subst digits_of.simps) simp

lemma digits_value_snoc: "digits_value b (s @ [c]) = digits_value b s * b + the (digit_value c)"
  by (simp add: digits_value_def)

text \<open>Any digit function that \<^const>\<open>digit_value\<close> inverts prints numbers that read back.\<close>

lemma digits_of_digits:
  assumes "2 \<le> b"
  shows "\<forall>c\<in>set (digits_of f b n). \<exists>d<b. c = f d"
proof (induction n rule: less_induct)
  case (less n)
  show ?case
  proof (cases "n < b")
    case True
    then show ?thesis by (subst digits_of.simps) auto
  next
    case False
    then have "n div b < n" using assms by (intro div_less_dividend) auto
    then have "\<forall>c\<in>set (digits_of f b (n div b)). \<exists>d<b. c = f d" by (rule less)
    moreover have "\<exists>d<b. f (n mod b) = f d" using assms by (intro exI [of _ "n mod b"]) simp
    ultimately show ?thesis using False assms by (subst digits_of.simps) auto
  qed
qed

lemma digits_value_digits_of:
  assumes "2 \<le> b" and "\<And>d. d < b \<Longrightarrow> digit_value (f d) = Some d"
  shows "digits_value b (digits_of f b n) = n"
proof (induction n rule: less_induct)
  case (less n)
  show ?case
  proof (cases "n < b")
    case True
    then show ?thesis using assms by (subst digits_of.simps) (simp add: digits_value_def)
  next
    case False
    then have "digits_value b (digits_of f b (n div b)) = n div b" using less assms(1) by simp
    then show ?thesis
      using False assms by (subst digits_of.simps) (simp add: digits_value_snoc)
  qed
qed

lemma digit_lower_dec: "d < 10 \<Longrightarrow> of_char (digit_lower d) = 48 + d"
  by (simp add: of_char_digit_lower)

lemma dec_digits_code:
  assumes "c \<in> set (digits_of digit_lower 10 n)"
  shows "48 \<le> (of_char c :: nat) \<and> of_char c \<le> (57 :: nat)"
proof -
  obtain d where "d < 10" "c = digit_lower d"
    using digits_of_digits [of 10 digit_lower n] assms by auto
  then show ?thesis by (simp add: digit_lower_dec)
qed

lemma dec_digits_is_digit: "c \<in> set (digits_of digit_lower 10 n) \<Longrightarrow> is_digit 10 c"
  using dec_digits_code by (fastforce simp: is_digit_def digit_value_def)

text \<open>The characters of a printed number: digits and a leading sign.\<close>

lemma set_to_string: "c \<in> set (to_string i) \<Longrightarrow> c = CHR ''-'' \<or> is_digit 10 c"
  by (auto simp: to_string_def dec_digits_is_digit split: if_splits)

lemma to_string_no [simp]:
  "CHR '','' \<notin> set (to_string i)" "CHR ''\"'' \<notin> set (to_string i)" "CHR ''='' \<notin> set (to_string i)"
  using set_to_string [of _ i] by (fastforce simp: is_digit_def digit_value_def)+

lemma to_string_nonempty [simp]: "to_string i \<noteq> []"
  by (simp add: to_string_def)

lemma strtol_value_digits:
  assumes "\<forall>c\<in>set ds. is_digit 10 c" and "ds \<noteq> []" and "r = [] \<or> \<not> is_digit 10 (hd r)"
  shows "strtol_value 10 (ds @ r) = Some (int (digits_value 10 ds))"
    and "strtol_value 10 (CHR ''-'' # ds @ r) = Some (- int (digits_value 10 ds))"
proof -
  obtain d ds' where d: "ds = d # ds'" using assms(2) by (cases ds) auto
  then have "is_digit 10 d" using assms(1) by simp
  then have nd: "\<not> isspace d" "d \<noteq> CHR ''-''" "d \<noteq> CHR ''+''"
    by (auto simp: is_digit_def digit_value_def isspace_def Let_def split: if_splits)
  have tw: "takeWhile (is_digit 10) (ds @ r) = ds"
    using assms(1,3) by (cases r) (simp_all add: takeWhile_append2 takeWhile_tail)
  then show "strtol_value 10 (ds @ r) = Some (int (digits_value 10 ds))"
    using nd assms(2) by (simp add: strtol_value_def sign_split_def skip_0x_def d)
  show "strtol_value 10 (CHR ''-'' # ds @ r) = Some (- int (digits_value 10 ds))"
    using tw assms(2) by (simp add: strtol_value_def sign_split_def skip_0x_def isspace_def)
qed

lemma strtol_value_to_string:
  assumes "r = [] \<or> \<not> is_digit 10 (hd r)"
  shows "strtol_value 10 (to_string i @ r) = Some i"
proof -
  have digits: "\<forall>c\<in>set (digits_of digit_lower 10 n). is_digit 10 c" for n
    using dec_digits_is_digit by blast
  have val: "digits_value 10 (digits_of digit_lower 10 n) = n" for n
    by (rule digits_value_digits_of) simp_all
  show ?thesis
    using strtol_value_digits [OF digits digits_of_nonempty assms, of "nat i"]
      strtol_value_digits [OF digits digits_of_nonempty assms, of "nat (- i)"]
    by (simp add: to_string_def val)
qed

lemma stoi_to_string: "in_int i \<Longrightarrow> stoi 10 (to_string i) = Ok i"
  using strtol_value_to_string [of "[]" i] by (simp add: stoi_def)

lemma digit_lower_chars [simp]:
  "digit_lower 0 = CHR ''0''"
  "digit_lower (Suc 0) = CHR ''1''"
  "digit_lower 2 = CHR ''2''"
  "digit_lower 3 = CHR ''3''"
  "digit_lower 4 = CHR ''4''"
  "digit_lower 5 = CHR ''5''"
  "digit_lower 6 = CHR ''6''"
  "digit_lower 7 = CHR ''7''"
  "digit_lower 8 = CHR ''8''"
  "digit_lower 9 = CHR ''9''"
  by code_simp+

lemma to_int32_succ_neq: "in_int v \<Longrightarrow> to_int32 (v + 1) \<noteq> v"
proof (cases "v = 2 ^ 31 - 1")
  case False
  assume "in_int v"
  then have "in_int (v + 1)" using False by (simp add: in_int_def)
  then show ?thesis by simp
qed (simp add: to_int32_def)

end
