(* ===== verification/Command_Parser.thy ===== *)
theory Command_Parser
  imports Cpp_String "HOL-Library.Sublist"
begin

section \<open>The AT command parser\<close>

text \<open>
  \<^verbatim>\<open>modem_simulator/command_parser.cpp\<close> and \<^verbatim>\<open>command_parser.h\<close>. The state of a
  \<^verbatim>\<open>CommandParser\<close> is the remaining input \<^verbatim>\<open>command_\<close>; an operation takes it and returns the
  result and the new remaining input.
\<close>

subsection \<open>Skipping\<close>

definition SkipPrefix :: "string \<Rightarrow> string" where
  "SkipPrefix command =
     (case find_char (CHR ''='') command of
        None \<Rightarrow> command
      | Some pos \<Rightarrow> drop (min (pos + 1) (length command)) command)"

definition SkipPrefixAT :: "string \<Rightarrow> string" where
  "SkipPrefixAT command = (if take 2 command = ''AT'' then drop 2 command else command)"

definition SkipComma :: "string \<Rightarrow> string" where
  "SkipComma command =
     (case find_char (CHR '','') command of
        None \<Rightarrow> command
      | Some pos \<Rightarrow> drop (min (pos + 1) (length command)) command)"

definition SkipWhiteSpace :: "string \<Rightarrow> string" where
  "SkipWhiteSpace command =
     (case find_char (CHR '' '') command of
        None \<Rightarrow> command
      | Some pos \<Rightarrow> drop (min (pos + 1) (length command)) command)"

subsection \<open>Reading the next parameter\<close>

text \<open>The string between the next two double quotes.\<close>

definition GetNextStr :: "string \<Rightarrow> string \<times> string" where
  "GetNextStr command =
     (case find_char (CHR ''\"'') command of
        None \<Rightarrow> ([], command)
      | Some fpos \<Rightarrow>
          (let after = drop (fpos + 1) command in
           case find_char (CHR ''\"'') after of
             None \<Rightarrow> ([], after)
           | Some len \<Rightarrow> (take len after, SkipComma (drop (len + 1) after))))"

text \<open>The string before the next \<open>flag\<close> character, or the whole rest.\<close>

definition GetNextStr_flag :: "char \<Rightarrow> string \<Rightarrow> string \<times> string" where
  "GetNextStr_flag flag command =
     (case find_char flag command of
        None \<Rightarrow> (command, [])
      | Some pos \<Rightarrow> (take pos command, drop (min (pos + 1) (length command)) command))"

definition parse_int :: "string \<Rightarrow> nat \<Rightarrow> int" where
  "parse_int snumber base =
     (if snumber = [] then - 1
      else case strtol_value base snumber of
             None \<Rightarrow> - 1
           | Some lval \<Rightarrow> if in_long lval then to_int32 lval else - 1)"

definition GetNextInt :: "string \<Rightarrow> int \<times> string" where
  "GetNextInt command =
     (if command = [] then (- 1, command)
      else let (sub, rest) = GetNextStr_flag (CHR '','') command in (parse_int sub 10, rest))"

definition GetNextHexInt :: "string \<Rightarrow> int \<times> string" where
  "GetNextHexInt command =
     (if command = [] then (- 1, command)
      else let (sub, rest) = GetNextStr_flag (CHR '','') command in (parse_int sub 16, rest))"

definition GetNextStrDeciToHex :: "string \<Rightarrow> string \<times> string" where
  "GetNextStrDeciToHex command =
     (let (value, rest) = GetNextInt command
      in if value = - 1 then ([], rest) else (hex_string digit_upper value, rest))"

subsection \<open>The remaining input never grows\<close>

text \<open>The interface that a handler relies on: an operation consumes a prefix of its input.\<close>

lemma suffix_SkipPrefix [simp]: "suffix (SkipPrefix s) s"
  by (simp add: SkipPrefix_def suffix_drop split: option.split)

lemma suffix_SkipPrefixAT [simp]: "suffix (SkipPrefixAT s) s"
  by (simp add: SkipPrefixAT_def suffix_drop)

lemma suffix_SkipComma [simp]: "suffix (SkipComma s) s"
  by (simp add: SkipComma_def suffix_drop split: option.split)

lemma suffix_SkipWhiteSpace [simp]: "suffix (SkipWhiteSpace s) s"
  by (simp add: SkipWhiteSpace_def suffix_drop split: option.split)

text \<open>
  A parameter reader: every reader of the command parser consumes a prefix of the input, so a fixed
  sequence of readers works on shorter and shorter rests.
\<close>

locale at_reader =
  fixes read :: "string \<Rightarrow> 'a \<times> string"
  assumes consumes: "suffix (snd (read s)) s"
begin

lemma rest_length: "read s = (x, r) \<Longrightarrow> length r \<le> length s"
  using consumes [of s] by (simp add: suffix_length_le)

lemma then_suffix: "suffix s t \<Longrightarrow> suffix (snd (read s)) t"
  by (rule suffix_order.trans [OF consumes])

end

lemma suffix_SkipComma_drop: "suffix (SkipComma (drop n s)) s"
  by (rule suffix_order.trans [OF suffix_SkipComma suffix_drop])

interpretation next_str: at_reader GetNextStr
proof
  fix s
  show "suffix (snd (GetNextStr s)) s"
    using suffix_SkipComma_drop [of _ s]
    by (simp add: GetNextStr_def Let_def suffix_drop split: option.split)
qed

interpretation next_flag: at_reader "GetNextStr_flag c" for c
  by unfold_locales (simp add: GetNextStr_flag_def suffix_drop split: option.split)

interpretation next_int: at_reader GetNextInt
proof
  fix s
  show "suffix (snd (GetNextInt s)) s"
    using next_flag.consumes [of "CHR '',''" s] by (simp add: GetNextInt_def split_beta)
qed

interpretation next_hex_int: at_reader GetNextHexInt
proof
  fix s
  show "suffix (snd (GetNextHexInt s)) s"
    using next_flag.consumes [of "CHR '',''" s] by (simp add: GetNextHexInt_def split_beta)
qed

interpretation next_deci_to_hex: at_reader GetNextStrDeciToHex
proof
  fix s
  show "suffix (snd (GetNextStrDeciToHex s)) s"
    using next_int.consumes [of s] by (simp add: GetNextStrDeciToHex_def Let_def split_beta)
qed

subsection \<open>Reading back what the simulator prints\<close>

lemma parse_int_range: "in_int (parse_int s b)"
proof -
  have "in_int (- 1)" by (simp add: in_int_def)
  then show ?thesis by (simp add: parse_int_def in_int_to_int32 split: option.split)
qed

lemma parse_int_long: "in_long v \<Longrightarrow> parse_int (to_string v) 10 = to_int32 v"
  using strtol_value_to_string [of "[]" v] by (simp add: parse_int_def)

lemma parse_int_to_string [simp]: "in_int i \<Longrightarrow> parse_int (to_string i) 10 = i"
  by (simp add: parse_int_long in_int_in_long)

lemma GetNextStr_flag_append [simp]:
  "c \<notin> set s \<Longrightarrow> GetNextStr_flag c (s @ c # r) = (s, r)"
  by (simp add: GetNextStr_flag_def)

lemma GetNextStr_flag_end [simp]: "c \<notin> set s \<Longrightarrow> GetNextStr_flag c s = (s, [])"
  by (simp add: GetNextStr_flag_def split: option.split) (metis find_char_None option.distinct(1))

lemma GetNextInt_to_string [simp]:
  "in_int i \<Longrightarrow> GetNextInt (to_string i @ CHR '','' # r) = (i, r)"
  "in_int i \<Longrightarrow> GetNextInt (to_string i) = (i, [])"
  by (simp_all add: GetNextInt_def)

lemma GetNextStr_quoted [simp]:
  "CHR ''\"'' \<notin> set s \<Longrightarrow>
     GetNextStr (CHR ''\"'' # s @ CHR ''\"'' # CHR '','' # r) = (s, r)"
  by (simp add: GetNextStr_def SkipComma_def Let_def)

lemma SkipPrefix_append [simp]: "CHR ''='' \<notin> set s \<Longrightarrow> SkipPrefix (s @ CHR ''='' # r) = r"
  by (simp add: SkipPrefix_def)

text \<open>
  The integers of a comma-separated list, as a handler reads them: one \<^const>\<open>GetNextInt\<close> per value.
\<close>

fun print_ints :: "int list \<Rightarrow> string" where
  "print_ints [] = []"
| "print_ints [i] = to_string i"
| "print_ints (i # is) = to_string i @ CHR '','' # print_ints is"

fun read_ints :: "nat \<Rightarrow> string \<Rightarrow> int list" where
  "read_ints 0 s = []"
| "read_ints (Suc n) s = (let (i, r) = GetNextInt s in i # read_ints n r)"

lemma read_print_ints: "\<forall>i\<in>set is. in_int i \<Longrightarrow> read_ints (length is) (print_ints is) = is"
  by (induction "is" rule: print_ints.induct) simp_all

subsection \<open>Properties\<close>

text \<open>
  Any list of \<^verbatim>\<open>int\<close> values printed with commas between them is read back value by value with
  \<^verbatim>\<open>GetNextInt\<close>, negative values included; reading past the end yields \<^verbatim>\<open>-1\<close>. A number that fits
  a \<^verbatim>\<open>long\<close> but not an \<^verbatim>\<open>int\<close> is not rejected: \<^verbatim>\<open>parse_int\<close> returns it reduced modulo
  \<open>2\<^sup>3\<^sup>2\<close>.
\<close>

theorem printed_ints_read_back:
  assumes "\<forall>i\<in>set is. in_int i" and "in_long v"
  shows "read_ints (length is) (print_ints is) = is \<and> GetNextInt [] = (- 1, []) \<and>
    parse_int (to_string v) 10 = to_int32 v"
  using read_print_ints [OF assms(1)] parse_int_long [OF assms(2)] by (simp add: GetNextInt_def)

theorem printed_ints_read_back_witness:
  "read_ints (length [4, 0, - 7, 2147483647 :: int]) (print_ints [4, 0, - 7, 2147483647])
     = [4, 0, - 7, 2147483647] \<and> GetNextInt [] = (- 1, []) \<and>
   parse_int (to_string 4294967298) 10 = 2"
  using printed_ints_read_back [of "[4, 0, - 7, 2147483647]" 4294967298]
  by (simp add: in_int_def in_long_def to_int32_def)

end
