(* ===== verification/Pdu_Parser.thy ===== *)
theory Pdu_Parser
  imports Cpp_String
begin

unbundle bit_operations_syntax

section \<open>The SMS PDU parser\<close>

text \<open>
  \<^verbatim>\<open>modem_simulator/pdu_parser.cpp\<close>: the hexadecimal PDU of an SMS is cut into its fields, and the
  PDUs for delivery, status report and forwarding to another Cuttlefish instance are built from them.
  The position in the PDU is an \<^typ>\<open>int\<close>: the lengths read from the PDU may be \<^verbatim>\<open>-1\<close>, but the
  position never becomes negative. The wall clock is a parameter.
\<close>

subsection \<open>Hexadecimal and BCD\<close>

definition HexCharToInt :: "char \<Rightarrow> int" where
  "HexCharToInt c =
     (let n = of_char c in
      if 48 \<le> n \<and> n \<le> 57 then n - 48
      else if 65 \<le> n \<and> n \<le> 70 then n - 65 + 10
      else if 97 \<le> n \<and> n \<le> 102 then n - 97 + 10
      else - 1)"

definition Hex2ToByte :: "string \<Rightarrow> int" where
  "Hex2ToByte hex =
     (if length hex < 2 then - 1
      else
        let hi = HexCharToInt (hex ! 0);
            lo = HexCharToInt (hex ! 1)
        in if hi < 0 \<or> lo < 0 then - 1 else push_bit 4 hi OR lo)"

text \<open>C++ integer division and remainder truncate towards zero.\<close>

definition int_quot :: "int \<Rightarrow> int \<Rightarrow> int" where
  "int_quot a b = sgn a * sgn b * (\<bar>a\<bar> div \<bar>b\<bar>)"

definition int_rem :: "int \<Rightarrow> int \<Rightarrow> int" where
  "int_rem a b = a - int_quot a b * b"

definition IntToHexString :: "int \<Rightarrow> string" where
  "IntToHexString value =
     (let hi = int_quot value 10; lo = int_rem value 10 in to_string lo @ to_string hi)"

definition IntToHexStringTimeZoneDiff :: "int \<Rightarrow> string" where
  "IntToHexStringTimeZoneDiff tzdiff_hour =
     (let delta = (if tzdiff_hour < 0 then 8 else 0);
          tzdiff_hour' = (if tzdiff_hour < 0 then - tzdiff_hour else tzdiff_hour);
          tzdiff_quarter_hour = 4 * tzdiff_hour';
          hi = int_quot tzdiff_quarter_hour 10 + delta;
          lo = int_rem tzdiff_quarter_hour 10
      in hex_string digit_lower lo @ hex_string digit_lower hi)"

text \<open>The loop of \<^verbatim>\<open>BCDToString\<close> over an even number of characters swaps each pair.\<close>

fun swap_pairs :: "string \<Rightarrow> string" where
  "swap_pairs (a # b # s) = b # a # swap_pairs s"
| "swap_pairs s = []"

definition BCDToString :: "string \<Rightarrow> string" where
  "BCDToString data =
     (if data = [] then []
      else if odd (length data) then []
      else
        let dst = swap_pairs data
        in if dst ! (length data - 1) = CHR ''F'' then take (length data - 1) dst else dst)"

fun StringToBCD :: "string \<Rightarrow> string" where
  "StringToBCD [] = []"
| "StringToBCD [a] = [CHR ''F'', a]"
| "StringToBCD (a # b # s) = b # a # StringToBCD s"

subsection \<open>Decoding\<close>

record pdu =
  is_valid_pdu :: bool
  pdu_type :: string
  message_reference :: string
  originator_address :: string
  protocol_id :: string
  data_code_scheme :: string
  user_data :: string

text \<open>\<^verbatim>\<open>pdu_view.substr(std::min(pos, pdu_total_length), n)\<close>, without a length and with one.\<close>

definition view_from :: "string \<Rightarrow> int \<Rightarrow> string" where
  "view_from pdu pos = drop (nat (min pos (int (length pdu)))) pdu"

definition view :: "string \<Rightarrow> int \<Rightarrow> int \<Rightarrow> string" where
  "view pdu pos n = take (nat n) (view_from pdu pos)"

definition empty_pdu :: pdu where
  "empty_pdu = \<lparr>is_valid_pdu = False, pdu_type = [], message_reference = [], originator_address = [],
     protocol_id = [], data_code_scheme = [], user_data = []\<rparr>"

definition DecodePDU :: "string \<Rightarrow> pdu" where
  "DecodePDU s =
     (if length s < 8 then empty_pdu
      else
        let temp = take 2 s;
            pos0 = (if temp \<noteq> ''00'' then 2 + Hex2ToByte temp * 2 else 2);
            p_type = view s pos0 2;
            pos1 = pos0 + 2;
            mr = view s pos1 2;
            pos2 = pos1 + 2;
            oa0 = Hex2ToByte (view s pos2 2);
            oa_length = (if oa0 AND 1 \<noteq> 0 then oa0 + 1 else oa0);
            oa = view s pos2 (oa_length + 4);
            pos3 = pos2 + (oa_length + 4);
            pid = view s pos3 2;
            pos4 = pos3 + 2;
            dcs = view s pos4 2;
            pos5 = pos4 + 2;
            ud_length = Hex2ToByte (view s pos5 2);
            ud = view_from s pos5;
            pos6 = (if dcs = ''00'' then pos5 + (ud_length * 2 + 2) - int_quot ud_length 8 * 2
                    else pos5 + (ud_length * 2 + 2))
        in \<lparr>is_valid_pdu = (pos6 = int (length s)), pdu_type = p_type, message_reference = mr,
            originator_address = oa, protocol_id = pid, data_code_scheme = dcs, user_data = ud\<rparr>)"

subsection \<open>Building PDUs\<close>

text \<open>
  \<^verbatim>\<open>GetCurrentTimeStamp\<close>: the broken-down local time and the difference in seconds between local
  and universal time, which the C library computes, are parameters.
\<close>

record time_now =
  tm_year :: int
  tm_mon :: int
  tm_mday :: int
  tm_hour :: int
  tm_min :: int
  tm_sec :: int
  tz_seconds :: int

definition GetCurrentTimeStamp :: "time_now \<Rightarrow> string" where
  "GetCurrentTimeStamp now =
     IntToHexString (int_rem (tm_year now) 100) @
     IntToHexString (tm_mon now + 1) @
     IntToHexString (tm_mday now) @
     IntToHexString (tm_hour now) @
     IntToHexString (tm_min now) @
     IntToHexString (tm_sec now) @
     IntToHexStringTimeZoneDiff (int_quot (tz_seconds now) (60 * 60))"

definition CreatePDU :: "time_now \<Rightarrow> pdu \<Rightarrow> string" where
  "CreatePDU now p =
     (if \<not> is_valid_pdu p then []
      else ''00'' @
        (if Hex2ToByte (pdu_type p) AND 64 \<noteq> 0 then ''64'' else ''24'') @
        originator_address p @ protocol_id p @ data_code_scheme p @
        GetCurrentTimeStamp now @ user_data p)"

definition IsNeededStatuReport :: "pdu \<Rightarrow> bool" where
  "IsNeededStatuReport p \<longleftrightarrow> is_valid_pdu p \<and> Hex2ToByte (pdu_type p) AND 32 \<noteq> 0"

text \<open>The two time stamps are taken one second apart.\<close>

definition CreateStatuReport :: "time_now \<Rightarrow> time_now \<Rightarrow> pdu \<Rightarrow> int \<Rightarrow> string" where
  "CreateStatuReport now later p reference =
     (if \<not> is_valid_pdu p then []
      else ''00'' @ ''06'' @ setw_0 2 (hex_string digit_lower reference) @
        originator_address p @ GetCurrentTimeStamp now @ GetCurrentTimeStamp later @ ''00'')"

definition GetPhoneNumberFromAddress :: "pdu \<Rightarrow> string result" where
  "GetPhoneNumberFromAddress p =
     (if \<not> is_valid_pdu p then Ok []
      else bind_result
        (if length (originator_address p) = 18 then substr_from (originator_address p) 6
         else substr_from (originator_address p) 4)
        (\<lambda>address. Ok (BCDToString address)))"

text \<open>
  \<^verbatim>\<open>s.substr(0, n - k)\<close> with \<^verbatim>\<open>size_t\<close> arithmetic: when \<open>k > n\<close> the difference wraps around to a
  length beyond the string and the whole string is taken.
\<close>

definition prefix_but :: "string \<Rightarrow> nat \<Rightarrow> string" where
  "prefix_but s k = (if k \<le> length s then take (length s - k) s else s)"

definition CreateRemotePDU :: "pdu \<Rightarrow> string \<Rightarrow> string result" where
  "CreateRemotePDU p host_port =
     (if length host_port \<noteq> 4 \<or> \<not> is_valid_pdu p then Ok []
      else bind_result (GetPhoneNumberFromAddress p) (\<lambda>number.
        let new_phone_number = prefix_but number 4 @ host_port;
            new_phone_number = (if odd (length new_phone_number)
              then new_phone_number @ ''F'' else new_phone_number)
        in Ok (''00'' @ pdu_type p @ message_reference p @
               prefix_but (originator_address p) (length new_phone_number) @
               BCDToString new_phone_number @ protocol_id p @ data_code_scheme p @ user_data p)))"

subsection \<open>Bytes and lengths\<close>

lemma HexCharToInt_range: "- 1 \<le> HexCharToInt c" "HexCharToInt c < 16"
  by (auto simp: HexCharToInt_def Let_def)

lemma push_bit_or_low:
  assumes "0 \<le> hi" and "0 \<le> lo" and "lo < 16"
  shows "push_bit 4 hi OR lo = 16 * hi + (lo::int)"
proof -
  have lo: "take_bit 4 lo = lo" using assms(2,3) by (simp add: take_bit_int_eq_self)
  have "push_bit 4 hi AND lo = 0"
    by (rule bit_eqI) (metis bit_0_eq bit_and_iff bit_push_bit_iff bit_take_bit_iff bot_apply bot_bool_def lo not_le)
  then have "push_bit 4 hi + lo = push_bit 4 hi OR lo" by (rule disjunctive_add_eq_or)
  then show ?thesis by (simp add: push_bit_eq_mult)
qed

lemma Hex2ToByte_range: "- 1 \<le> Hex2ToByte s" "Hex2ToByte s < 256"
proof -
  have *: "\<not> (HexCharToInt a < 0 \<or> HexCharToInt b < 0) \<Longrightarrow>
      push_bit 4 (HexCharToInt a) OR HexCharToInt b = 16 * HexCharToInt a + HexCharToInt b" for a b
    using HexCharToInt_range [of b] by (intro push_bit_or_low) auto
  show "- 1 \<le> Hex2ToByte s" "Hex2ToByte s < 256"
    using HexCharToInt_range(2) [of "s ! 0"] HexCharToInt_range(2) [of "s ! 1"]
    by (auto simp: Hex2ToByte_def Let_def *)
qed

text \<open>The number of characters of the address field behind its length and type octets.\<close>

definition oa_chars :: "string \<Rightarrow> int" where
  "oa_chars f = (let n = Hex2ToByte (take 2 f) in if n AND 1 \<noteq> 0 then n + 1 else n)"

definition ud_chars :: "string \<Rightarrow> string \<Rightarrow> int" where
  "ud_chars dcs f =
     (let n = Hex2ToByte (take 2 f)
      in n * 2 + 2 - (if dcs = ''00'' then int_quot n 8 * 2 else 0))"

lemma oa_chars_range: "0 \<le> oa_chars f" "even (oa_chars f)"
proof -
  have n: "- 1 \<le> Hex2ToByte (take 2 f)" by (rule Hex2ToByte_range)
  show "even (oa_chars f)" by (auto simp: oa_chars_def Let_def and_one_eq odd_iff_mod_2_eq_one)
  show "0 \<le> oa_chars f"
  proof (cases "Hex2ToByte (take 2 f) = - 1")
    case True
    then show ?thesis by (simp add: oa_chars_def)
  next
    case False
    then show ?thesis using n by (auto simp: oa_chars_def Let_def)
  qed
qed

lemma ud_chars_range: "0 \<le> ud_chars dcs f"
proof -
  have "- 1 \<le> Hex2ToByte (take 2 f)" by (rule Hex2ToByte_range)
  moreover have "int_quot n 8 * 2 \<le> n * 2 + 2" if "- 1 \<le> n" for n
    using that by (cases "n = - 1") (auto simp: int_quot_def sgn_if)
  moreover have "0 \<le> n * 2 + (2::int)" if "- 1 \<le> n" for n using that by simp
  ultimately show ?thesis by (simp add: ud_chars_def Let_def)
qed

subsection \<open>Cutting the PDU into fields\<close>

definition fields :: "pdu \<Rightarrow> string" where
  "fields p = pdu_type p @ message_reference p @ originator_address p @ protocol_id p @
     data_code_scheme p @ user_data p"

definition fields_ok :: "pdu \<Rightarrow> bool" where
  "fields_ok p \<longleftrightarrow>
     length (pdu_type p) = 2 \<and> length (message_reference p) = 2 \<and>
     int (length (originator_address p)) = oa_chars (originator_address p) + 4 \<and>
     length (protocol_id p) = 2 \<and> length (data_code_scheme p) = 2 \<and>
     int (length (user_data p)) = ud_chars (data_code_scheme p) (user_data p)"

lemma view_step:
  assumes "0 \<le> pos" and "0 \<le> n" and "pos + n \<le> int (length s)"
  shows "int (length (view s pos n)) = n" and "view s pos n @ view_from s (pos + n) = view_from s pos"
proof -
  have pos: "nat (min pos (int (length s))) = nat pos"
      "nat (min (pos + n) (int (length s))) = nat n + nat pos"
    using assms by (simp_all add: nat_add_distrib)
  show "int (length (view s pos n)) = n"
    using assms by (simp add: view_def view_from_def pos(1))
  show "view s pos n @ view_from s (pos + n) = view_from s pos"
    by (simp only: view_def view_from_def pos drop_drop [symmetric] append_take_drop_id)
qed

lemma view_append:
  assumes "int (length a) = pos" and "int (length f) = n"
  shows "view (a @ f @ r) pos n = f" and "view_from (a @ f) pos = f"
  using assms by (auto simp: view_def view_from_def)

lemma take_2_view: "2 \<le> n \<Longrightarrow> take 2 (view s pos n) = view s pos 2"
  by (simp add: view_def min_absorb1 nat_le_iff)

lemma take_2_view_from: "take 2 (view_from s pos) = view s pos 2"
  by (simp add: view_def)

lemma start_pos_nonneg: "0 \<le> (if t \<noteq> ''00'' then 2 + Hex2ToByte t * 2 else 2)"
  using Hex2ToByte_range(1) [of t] by simp

text \<open>The decoder with the position arithmetic collected.\<close>

lemma DecodePDU_eq:
  assumes "\<not> length s < 8"
    and "pos = (if take 2 s \<noteq> ''00'' then 2 + Hex2ToByte (take 2 s) * 2 else 2)"
    and "k = oa_chars (view s (pos + 4) 2)"
    and "dcs = view s (pos + 4 + (k + 4) + 2) 2"
    and "u = ud_chars dcs (view s (pos + 4 + (k + 4) + 4) 2)"
  shows "DecodePDU s = \<lparr>is_valid_pdu = (pos + 4 + (k + 4) + 4 + u = int (length s)),
      pdu_type = view s pos 2, message_reference = view s (pos + 2) 2,
      originator_address = view s (pos + 4) (k + 4),
      protocol_id = view s (pos + 4 + (k + 4)) 2, data_code_scheme = dcs,
      user_data = view_from s (pos + 4 + (k + 4) + 4)\<rparr>"
  using assms(1)
  by (simp add: DecodePDU_def Let_def assms(2) [symmetric] assms(3) oa_chars_def assms(4,5)
      ud_chars_def view_def algebra_simps)

text \<open>A PDU that is accepted consists of the skipped part and its six fields, each of full length.\<close>

lemma DecodePDU_valid:
  assumes v: "is_valid_pdu (DecodePDU s)"
  shows "fields_ok (DecodePDU s)" and "\<exists>pre. s = pre @ fields (DecodePDU s)"
proof -
  define pos where "pos = (if take 2 s \<noteq> ''00'' then 2 + Hex2ToByte (take 2 s) * 2 else 2)"
  define k where "k = oa_chars (view s (pos + 4) 2)"
  define dcs where "dcs = view s (pos + 4 + (k + 4) + 2) 2"
  define u where "u = ud_chars dcs (view s (pos + 4 + (k + 4) + 4) 2)"
  have nonneg: "0 \<le> pos" "0 \<le> k" "0 \<le> u"
    unfolding pos_def k_def u_def by (rule start_pos_nonneg oa_chars_range ud_chars_range)+
  have len: "\<not> length s < 8"
    using v by (auto simp: DecodePDU_def empty_pdu_def)
  note p = DecodePDU_eq [OF len pos_def k_def dcs_def u_def]
  have total: "pos + 4 + (k + 4) + 4 + u = int (length s)" using v by (simp add: p)
  note st = view_step [of pos 2 s] view_step [of "pos + 2" 2 s] view_step [of "pos + 4" "k + 4" s]
    view_step [of "pos + 4 + (k + 4)" 2 s] view_step [of "pos + 4 + (k + 4) + 2" 2 s]
    view_step [of "pos + 4 + (k + 4) + 4" u s]
  have lens: "length (view s pos 2) = 2" "length (view s (pos + 2) 2) = 2"
      "int (length (view s (pos + 4) (k + 4))) = k + 4" "length (view s (pos + 4 + (k + 4)) 2) = 2"
      "length dcs = 2" "int (length (view_from s (pos + 4 + (k + 4) + 4))) = u"
    using st nonneg total by (simp_all add: dcs_def view_from_def)
  show "fields_ok (DecodePDU s)"
    using lens nonneg unfolding fields_ok_def p
    by (simp add: k_def u_def oa_chars_def ud_chars_def take_2_view take_2_view_from)
  have "view_from s pos = fields (DecodePDU s)"
    using st nonneg total unfolding fields_def p by (simp add: dcs_def add.commute [of 4 pos])
  then show "\<exists>pre. s = pre @ fields (DecodePDU s)"
    unfolding view_from_def by (metis append_take_drop_id)
qed

text \<open>Conversely, six fields of matching lengths behind an empty service centre address are accepted.\<close>

lemma DecodePDU_fields:
  assumes ok: "fields_ok p" and v: "is_valid_pdu p"
  shows "DecodePDU (''00'' @ fields p) = p"
proof -
  obtain ty mr oa pid dcs ud where p: "p = \<lparr>is_valid_pdu = True, pdu_type = ty,
      message_reference = mr, originator_address = oa, protocol_id = pid, data_code_scheme = dcs,
      user_data = ud\<rparr>"
    using v by (cases p) auto
  define s where "s = ''00'' @ ty @ mr @ oa @ pid @ dcs @ ud"
  have len: "length ty = 2" "length mr = 2" "int (length oa) = oa_chars oa + 4"
      "length pid = 2" "length dcs = 2" "int (length ud) = ud_chars dcs ud"
    using ok by (simp_all add: fields_ok_def p)
  have k: "0 \<le> oa_chars oa" by (rule oa_chars_range)
  have v: "view s 2 2 = ty" "view s (2 + 2) 2 = mr" "view s (2 + 4) (oa_chars oa + 4) = oa"
      "view s (2 + 4 + (oa_chars oa + 4)) 2 = pid"
      "view s (2 + 4 + (oa_chars oa + 4) + 2) 2 = dcs"
      "view_from s (2 + 4 + (oa_chars oa + 4) + 4) = ud"
    using len view_append(1) [of "''00''" 2 ty 2] view_append(1) [of "''00'' @ ty" 4 mr 2]
      view_append(1) [of "''00'' @ ty @ mr" 6 oa "oa_chars oa + 4" "pid @ dcs @ ud"]
      view_append(1) [of "''00'' @ ty @ mr @ oa" _ pid 2 "dcs @ ud"]
      view_append(1) [of "''00'' @ ty @ mr @ oa @ pid" _ dcs 2 ud]
      view_append(2) [of "''00'' @ ty @ mr @ oa @ pid @ dcs" _ ud]
    by (simp_all add: s_def)
  have lengths: "view s (2 + 4) 2 = take 2 oa"
      "view s (2 + 4 + (oa_chars oa + 4) + 4) 2 = take 2 ud"
    using take_2_view [of "oa_chars oa + 4" s "2 + 4"] k v(3)
      take_2_view_from [of s "2 + 4 + (oa_chars oa + 4) + 4"] v(6) by simp_all
  have not_short: "\<not> length s < 8" using len k by (simp add: s_def)
  have start: "2 = (if take 2 s \<noteq> ''00'' then 2 + Hex2ToByte (take 2 s) * 2 else 2)"
    by (simp add: s_def)
  have oa: "oa_chars oa = oa_chars (view s (2 + 4) 2)"
    unfolding lengths by (simp add: oa_chars_def)
  have ud: "ud_chars dcs ud = ud_chars dcs (view s (2 + 4 + (oa_chars oa + 4) + 4) 2)"
    unfolding lengths by (simp add: ud_chars_def)
  have "2 + 4 + (oa_chars oa + 4) + 4 + ud_chars dcs ud = int (length s)"
    using len by (simp add: s_def)
  then have "DecodePDU s = p"
    unfolding DecodePDU_eq [OF not_short start oa v(5) [symmetric] ud] v p by simp
  then show ?thesis by (simp add: s_def p fields_def)
qed

subsection \<open>Phone numbers\<close>

lemma length_swap_pairs: "even (length s) \<Longrightarrow> length (swap_pairs s) = length s"
  by (induction s rule: swap_pairs.induct) auto

lemma swap_pairs_twice: "even (length s) \<Longrightarrow> swap_pairs (swap_pairs s) = s"
  by (induction s rule: swap_pairs.induct) auto

lemma last_swap_pairs: "even (length s) \<Longrightarrow> s \<noteq> [] \<Longrightarrow> last (swap_pairs s) = s ! (length s - 2)"
proof (induction s rule: swap_pairs.induct)
  case (1 a b s)
  show ?case
  proof (cases "s = []")
    case False
    then obtain n where "length s = Suc (Suc n)" using 1 by (cases s; cases "tl s") auto
    moreover from this have "swap_pairs s \<noteq> []" using 1 by (metis length_0_conv length_swap_pairs even_Suc_Suc_iff length_Cons nat.distinct(1))
    ultimately show ?thesis using 1 False by simp
  qed simp
qed auto

text \<open>\<^verbatim>\<open>BCDToString\<close> swaps the pairs and drops a filler \<^verbatim>\<open>F\<close> at the end.\<close>

lemma BCDToString_eq:
  assumes "even (length s)" and "s \<noteq> []"
  shows "BCDToString s = (if s ! (length s - 2) = CHR ''F'' then butlast (swap_pairs s) else swap_pairs s)"
proof -
  have len: "length (swap_pairs s) = length s" using assms(1) by (rule length_swap_pairs)
  then have "swap_pairs s ! (length s - 1) = last (swap_pairs s)"
    using assms(2) by (metis last_conv_nth length_0_conv)
  then show ?thesis
    using assms last_swap_pairs [OF assms] len
    by (simp add: BCDToString_def Let_def butlast_conv_take)
qed

lemma StringToBCD_even: "even (length s) \<Longrightarrow> StringToBCD s = swap_pairs s"
  by (induction s rule: StringToBCD.induct) auto

lemma StringToBCD_odd: "odd (length s) \<Longrightarrow> StringToBCD s = swap_pairs (s @ ''F'')"
  by (induction s rule: StringToBCD.induct) auto

lemma BCDToString_StringToBCD:
  assumes "s \<noteq> []" and "last s \<noteq> CHR ''F''"
  shows "BCDToString (StringToBCD s) = s"
proof -
  define t where "t = (if odd (length s) then s @ ''F'' else s)"
  have t: "even (length t)" "t \<noteq> []" "StringToBCD s = swap_pairs t"
    using assms(1) by (simp_all add: t_def StringToBCD_even StringToBCD_odd)
  have sw: "length (swap_pairs t) = length t" "swap_pairs (swap_pairs t) = t"
    using t(1) by (simp_all add: length_swap_pairs swap_pairs_twice)
  then have ne: "swap_pairs t \<noteq> []" using t(2) by fastforce
  have "last (swap_pairs (swap_pairs t)) = swap_pairs t ! (length t - 2)"
    using last_swap_pairs [of "swap_pairs t"] sw t(1) ne by simp
  then have "BCDToString (swap_pairs t) = (if last t = CHR ''F'' then butlast t else t)"
    using BCDToString_eq [of "swap_pairs t"] sw t(1) ne by simp
  then show ?thesis using assms by (simp add: t(3) t_def)
qed

text \<open>For an accepted PDU the address field is long enough: the phone number is read without a throw.\<close>

definition address_of :: "pdu \<Rightarrow> string" where
  "address_of p = drop (if length (originator_address p) = 18 then 6 else 4) (originator_address p)"

lemma GetPhoneNumber_ok:
  assumes "fields_ok p" and "is_valid_pdu p"
  shows "GetPhoneNumberFromAddress p = Ok (BCDToString (address_of p))" and "even (length (address_of p))"
proof -
  have len: "int (length (originator_address p)) = oa_chars (originator_address p) + 4"
    using assms(1) by (simp add: fields_ok_def)
  then have "4 \<le> length (originator_address p)" using oa_chars_range(1) [of "originator_address p"] by linarith
  then show "GetPhoneNumberFromAddress p = Ok (BCDToString (address_of p))"
    using assms(2) by (simp add: GetPhoneNumberFromAddress_def address_of_def substr_from_def)
  have "even (length (originator_address p))"
    using len oa_chars_range(2) [of "originator_address p"] by (metis even_add even_numeral even_of_nat)
  then show "even (length (address_of p))" by (simp add: address_of_def)
qed

subsection \<open>Forwarding to another instance\<close>

definition remote_number :: "string \<Rightarrow> string \<Rightarrow> string" where
  "remote_number number host_port = prefix_but number 4 @ host_port"

definition padded :: "string \<Rightarrow> string" where
  "padded number = (if odd (length number) then number @ ''F'' else number)"

lemma padded_even: "even (length (padded n))"
  by (simp add: padded_def)

lemma length_remote_number:
  "4 \<le> length number \<Longrightarrow> length host_port = 4 \<Longrightarrow> length (remote_number number host_port) = length number"
  by (simp add: remote_number_def prefix_but_def)

lemma length_BCDToString:
  assumes "even (length a)" and "a \<noteq> []"
  shows "length (padded (BCDToString a)) = length a"
proof -
  have "length (swap_pairs a) = length a" using assms(1) by (rule length_swap_pairs)
  moreover have "2 \<le> length a" using assms by (cases a; cases "tl a") auto
  ultimately show ?thesis using assms by (auto simp: BCDToString_eq padded_def)
qed

lemma BCDToString_padded:
  assumes "n \<noteq> []" and "last n \<noteq> CHR ''F''"
  shows "BCDToString (swap_pairs (padded n)) = n"
  using BCDToString_StringToBCD [OF assms]
  by (cases "odd (length n)") (simp_all add: padded_def StringToBCD_even StringToBCD_odd)

lemma BCDToString_no_filler:
  assumes "host_port = [a, b, c, d]" and "CHR ''F'' \<notin> set host_port"
  shows "BCDToString (padded (pre @ host_port)) = swap_pairs (padded (pre @ host_port))"
proof -
  have "padded (pre @ host_port) ! (length (padded (pre @ host_port)) - 2) \<in> {c, d}"
    by (simp add: padded_def assms(1) nth_append)
  then show ?thesis
    using assms BCDToString_eq [OF padded_even, of "pre @ host_port"] by (auto simp: padded_def)
qed

lemma CreateRemotePDU_alt:
  "CreateRemotePDU p host_port =
     (if length host_port \<noteq> 4 \<or> \<not> is_valid_pdu p then Ok []
      else bind_result (GetPhoneNumberFromAddress p) (\<lambda>number.
        let n = padded (remote_number number host_port)
        in Ok (''00'' @ pdu_type p @ message_reference p @
               prefix_but (originator_address p) (length n) @
               BCDToString n @ protocol_id p @ data_code_scheme p @ user_data p)))"
  unfolding CreateRemotePDU_def padded_def remote_number_def Let_def by (rule refl)

text \<open>
  The forwarded PDU has the fields of the original one but for the address, whose number ends in the
  port of the sending host.
\<close>

lemma CreateRemotePDU_fields:
  assumes ok: "fields_ok p" "is_valid_pdu p"
    and num: "GetPhoneNumberFromAddress p = Ok number" "4 \<le> length number"
    and hp: "length host_port = 4" "CHR ''F'' \<notin> set host_port"
  defines "oa \<equiv> take (length (originator_address p) - length (address_of p)) (originator_address p) @
      swap_pairs (padded (remote_number number host_port))"
  shows "CreateRemotePDU p host_port = Ok (''00'' @ fields (p\<lparr>originator_address := oa\<rparr>))"
    and "fields_ok (p\<lparr>originator_address := oa\<rparr>)"
    and "GetPhoneNumberFromAddress (p\<lparr>originator_address := oa\<rparr>) = Ok (remote_number number host_port)"
proof -
  obtain a b c d where abcd: "host_port = [a, b, c, d]"
    using hp(1) by (auto simp: numeral_eq_Suc length_Suc_conv)
  let ?new = "padded (remote_number number host_port)"
  have number: "number = BCDToString (address_of p)" and even: "even (length (address_of p))"
    using GetPhoneNumber_ok [OF ok] num(1) by simp_all
  have ne: "address_of p \<noteq> []" using num(2) number by (auto simp: BCDToString_def)
  have "length ?new = length (padded number)"
    using length_remote_number [OF num(2) hp(1)] by (simp add: padded_def)
  then have new: "length ?new = length (address_of p)"
    using length_BCDToString [OF even ne] number by simp
  have oa_len: "length (address_of p) \<le> length (originator_address p) - 4"
      "4 \<le> length (originator_address p) - length (address_of p)"
    using ne by (auto simp: address_of_def split: if_splits)
  have swap: "BCDToString ?new = swap_pairs ?new"
    unfolding remote_number_def by (rule BCDToString_no_filler [OF abcd hp(2)])
  have len_oa: "length oa = length (originator_address p)"
    using oa_len new length_swap_pairs [OF padded_even] by (simp add: oa_def)
  have "take 2 oa = take 2 (originator_address p)" using oa_len(2) by (simp add: oa_def)
  then have "oa_chars oa = oa_chars (originator_address p)" by (simp add: oa_chars_def)
  then show "fields_ok (p\<lparr>originator_address := oa\<rparr>)" using ok(1) len_oa by (simp add: fields_ok_def)
  have "prefix_but (originator_address p) (length ?new)
      = take (length (originator_address p) - length (address_of p)) (originator_address p)"
    using order_trans [OF oa_len(1), of "length (originator_address p)"]
    unfolding new by (simp add: prefix_but_def)
  then show "CreateRemotePDU p host_port = Ok (''00'' @ fields (p\<lparr>originator_address := oa\<rparr>))"
    using ok(2) num(1) hp(1) swap by (simp add: CreateRemotePDU_alt fields_def oa_def)
  have drop: "address_of (p\<lparr>originator_address := oa\<rparr>) = swap_pairs ?new"
    using len_oa oa_len ne unfolding address_of_def by (simp add: oa_def) (simp add: address_of_def)
  have "last (remote_number number host_port) \<noteq> CHR ''F''"
    using hp(2) by (auto simp: remote_number_def abcd)
  then have "BCDToString (swap_pairs ?new) = remote_number number host_port"
    by (intro BCDToString_padded) (simp_all add: remote_number_def abcd)
  then show "GetPhoneNumberFromAddress (p\<lparr>originator_address := oa\<rparr>) = Ok (remote_number number host_port)"
    using GetPhoneNumber_ok(1) [OF \<open>fields_ok (p\<lparr>originator_address := oa\<rparr>)\<close>] ok(2) drop by simp
qed

subsection \<open>Time stamps and references\<close>

lemma length_digits_of: "n < 16 \<Longrightarrow> length (digits_of f 16 n) = 1"
    "16 \<le> n \<Longrightarrow> n < 256 \<Longrightarrow> length (digits_of f 16 n) = 2"
    "256 \<le> n \<Longrightarrow> 3 \<le> length (digits_of f 16 n)"
proof -
  show one: "length (digits_of f 16 n) = 1" if "n < 16" for n
    using that by (subst digits_of.simps) simp
  show "length (digits_of f 16 n) = 2" if "16 \<le> n" "n < 256"
    using that one [of "n div 16"] by (subst digits_of.simps) simp
  have two: "2 \<le> length (digits_of f 16 n)" if "16 \<le> n" for n
    using that by (subst digits_of.simps) (simp add: Suc_le_eq)
  show "3 \<le> length (digits_of f 16 n)" if "256 \<le> n"
    using that two [of "n div 16"] by (subst digits_of.simps) simp
qed

text \<open>The message reference of a status report is one octet only for references below 256.\<close>

lemma reference_octet:
  assumes "0 \<le> r" and "r < 2 ^ 31"
  shows "length (setw_0 2 (hex_string digit_lower r)) = 2 \<longleftrightarrow> r < 256"
proof -
  have hex: "hex_string digit_lower r = digits_of digit_lower 16 (nat r)"
    using assms by (simp add: hex_string_def)
  show ?thesis
  proof (cases "r < 256")
    case True
    then show ?thesis
      using length_digits_of(1,2) [of "nat r" digit_lower] assms(1)
      by (cases "nat r < 16") (simp_all add: setw_0_def hex)
  next
    case False
    then have "3 \<le> length (digits_of digit_lower 16 (nat r))" by (intro length_digits_of(3)) simp
    then show ?thesis using False by (simp add: setw_0_def hex)
  qed
qed

text \<open>A concrete instant, for evaluation: 12:00:00 on 1 January 2024, universal time.\<close>

definition noon :: time_now where
  "noon = \<lparr>tm_year = 124, tm_mon = 0, tm_mday = 1, tm_hour = 12, tm_min = 0, tm_sec = 0,
     tz_seconds = 0\<rparr>"

subsection \<open>What the phone reads\<close>

text \<open>
  The layout of a delivered message (3GPP TS 23.040, SMS-DELIVER) as the phone reads it, independently of
  how it was built: the service centre address, the first octet, the sender's address with its length
  and type, two octets for protocol and coding, a time stamp of seven octets, and the user data with
  their length.
\<close>

datatype deliver_pdu =
  Deliver (deliver_type: string) (deliver_address: string) (deliver_coding: string) (deliver_time: string) (deliver_data: string)

definition read_deliver :: "string \<Rightarrow> deliver_pdu" where
  "read_deliver s =
     (let s = drop (2 + 2 * nat (Hex2ToByte (take 2 s))) s;
          body = drop 2 s;
          rest = drop (nat (oa_chars body) + 4) body
      in Deliver (take 2 s) (take (nat (oa_chars body) + 4) body) (take 2 (drop 2 rest)) (take 14 (drop 4 rest)) (drop 18 rest))"

text \<open>The ranges that the C library documents for broken-down times, and offsets of at most 14 hours.\<close>

definition valid_time :: "time_now \<Rightarrow> bool" where
  "valid_time now \<longleftrightarrow> 0 \<le> tm_year now \<and> tm_mon now \<in> {0..11} \<and> tm_mday now \<in> {1..31} \<and> tm_hour now \<in> {0..23} \<and>
     tm_min now \<in> {0..59} \<and> tm_sec now \<in> {0..60} \<and> tz_seconds now \<in> {- 50400..50400}"

lemma int_quot_rem_nonneg: "0 \<le> a \<Longrightarrow> 0 < b \<Longrightarrow> int_quot a b = a div b \<and> int_rem a b = a mod b"
  by (cases "a = 0") (auto simp: int_quot_def int_rem_def sgn_if minus_div_mult_eq_mod)

lemma length_decimal_digit: "0 \<le> d \<Longrightarrow> d < 10 \<Longrightarrow> length (to_string d) = 1"
  by (simp add: to_string_def digits_of.simps)

lemma length_IntToHexString: "0 \<le> v \<Longrightarrow> v < 100 \<Longrightarrow> length (IntToHexString v) = 2"
  by (simp add: IntToHexString_def int_quot_rem_nonneg Let_def length_decimal_digit)

lemma length_TimeZoneDiff:
  assumes "\<bar>h\<bar> \<le> 14"
  shows "length (IntToHexStringTimeZoneDiff h) = 2"
proof -
  have "length (hex_string digit_lower d) = 1" if "0 \<le> d" "d < 16" for d
    using that length_digits_of [of "nat d" digit_lower] by (simp add: hex_string_def)
  moreover have "0 \<le> int_quot (4 * \<bar>h\<bar>) 10" "int_quot (4 * \<bar>h\<bar>) 10 < 8" "0 \<le> int_rem (4 * \<bar>h\<bar>) 10" "int_rem (4 * \<bar>h\<bar>) 10 < 16"
    using int_quot_rem_nonneg [of "4 * \<bar>h\<bar>" 10] assms by auto
  ultimately show ?thesis by (auto simp: IntToHexStringTimeZoneDiff_def Let_def abs_if split: if_splits)
qed

lemma length_GetCurrentTimeStamp:
  assumes "valid_time now"
  shows "length (GetCurrentTimeStamp now) = 14"
proof -
  have "0 \<le> int_rem (tm_year now) 100" "int_rem (tm_year now) 100 < 100"
    using assms int_quot_rem_nonneg [of "tm_year now" 100] by (auto simp: valid_time_def)
  moreover have "\<bar>int_quot (tz_seconds now) 3600\<bar> \<le> 14"
    using assms by (auto simp: valid_time_def int_quot_def abs_mult sgn_if)
  ultimately show ?thesis using assms
    by (simp add: GetCurrentTimeStamp_def valid_time_def length_IntToHexString length_TimeZoneDiff)
qed

lemma read_deliver_CreatePDU:
  assumes "fields_ok p" and "is_valid_pdu p" and "valid_time now"
  shows "read_deliver (CreatePDU now p) =
    Deliver (if Hex2ToByte (pdu_type p) AND 64 \<noteq> 0 then ''64'' else ''24'') (originator_address p) (data_code_scheme p)
      (GetCurrentTimeStamp now) (user_data p)"
proof -
  define ty where "ty = (if Hex2ToByte (pdu_type p) AND 64 \<noteq> 0 then ''64'' else ''24'')"
  define oa where "oa = originator_address p"
  define rest where "rest = protocol_id p @ data_code_scheme p @ GetCurrentTimeStamp now @ user_data p"
  have lens: "length ty = 2" "length (protocol_id p) = 2" "length (data_code_scheme p) = 2" "length (GetCurrentTimeStamp now) = 14"
      and len: "int (length oa) = oa_chars oa + 4"
    using assms(1) length_GetCurrentTimeStamp [OF assms(3)] by (simp_all add: fields_ok_def ty_def oa_def)
  have pdu: "CreatePDU now p = ''00'' @ ty @ oa @ rest" using assms(2) by (simp add: CreatePDU_def ty_def oa_def rest_def)
  have "2 \<le> length oa" using len oa_chars_range(1) [of oa] by linarith
  then have "oa_chars (oa @ rest) = oa_chars oa" by (simp add: oa_chars_def)
  then obtain k where n: "nat (oa_chars (oa @ rest)) = k" "length oa = k + 4" using len oa_chars_range(1) [of oa] by fastforce
  have zero: "Hex2ToByte ''00'' = 0" by code_simp
  have "read_deliver (CreatePDU now p) =
      Deliver ty oa (take 2 (drop 2 rest)) (take 14 (drop 4 rest)) (drop 18 rest)"
    unfolding pdu by (simp add: read_deliver_def zero lens n Let_def)
  then show ?thesis by (simp add: rest_def lens ty_def oa_def)
qed

subsection \<open>Properties\<close>

text \<open>
  C9: the decoder and the field layout are inverse to each other. Every accepted PDU is a skipped
  prefix followed by its six fields, each of the length its own octets announce; and any six fields of
  such lengths behind the service centre octet \<^verbatim>\<open>00\<close> are accepted and returned unchanged.
\<close>

theorem decode_layout_roundtrip:
  "(is_valid_pdu (DecodePDU s) \<longrightarrow>
      fields_ok (DecodePDU s) \<and> (\<exists>pre. s = pre @ fields (DecodePDU s))) \<and>
   (fields_ok p \<and> is_valid_pdu p \<longrightarrow> DecodePDU (''00'' @ fields p) = p)"
  using DecodePDU_valid DecodePDU_fields by blast

theorem decode_layout_roundtrip_witness:
  "fields_ok (DecodePDU ''0021000B915155255155F400000141'') \<and>
   DecodePDU (''00'' @ fields (DecodePDU ''0021000B915155255155F400000141''))
     = DecodePDU ''0021000B915155255155F400000141''"
proof -
  have "is_valid_pdu (DecodePDU ''0021000B915155255155F400000141'')" by code_simp
  then show ?thesis
    using decode_layout_roundtrip [of "''0021000B915155255155F400000141''"
        "DecodePDU ''0021000B915155255155F400000141''"] by blast
qed

text \<open>
  A number stored as BCD digits is read back by \<^verbatim>\<open>BCDToString\<close> exactly, for every non-empty
  number that does not end in the filler character \<^verbatim>\<open>F\<close>.
\<close>

theorem bcd_roundtrip:
  assumes "s \<noteq> []" and "last s \<noteq> CHR ''F''"
  shows "BCDToString (StringToBCD s) = s"
  using assms by (rule BCDToString_StringToBCD)

theorem bcd_roundtrip_witness: "BCDToString (StringToBCD ''15551234567'') = ''15551234567''"
  by (rule bcd_roundtrip) simp_all

lemma CreateRemotePDU_decoded:
  assumes "is_valid_pdu (DecodePDU s)"
    and "GetPhoneNumberFromAddress (DecodePDU s) = Ok number" and "4 \<le> length number"
    and "length host_port = 4" and "CHR ''F'' \<notin> set host_port"
  shows "\<exists>r q oa. CreateRemotePDU (DecodePDU s) host_port = Ok r \<and> q = DecodePDU r \<and>
    is_valid_pdu q \<and> q = (DecodePDU s)\<lparr>originator_address := oa\<rparr> \<and>
    GetPhoneNumberFromAddress q = Ok (take (length number - 4) number @ host_port)"
proof -
  note ok = DecodePDU_valid(1) [OF assms(1)]
  note remote = CreateRemotePDU_fields [OF ok assms]
  have "prefix_but number 4 = take (length number - 4) number" using assms(3) by (simp add: prefix_but_def)
  then show ?thesis
    using remote DecodePDU_fields [OF remote(2)] assms(1) by (auto simp: remote_number_def)
qed

text \<open>
  Forwarding an SMS to another instance is faithful. For every accepted PDU whose number has at
  least four digits, the PDU that \<^verbatim>\<open>CreateRemotePDU\<close> builds is accepted by the receiving instance,
  differs from the original only in its address, and its number is the original one with the last four
  digits replaced by the sender's port; reading the number does not throw.
\<close>

theorem remote_pdu_accepted:
  assumes "is_valid_pdu (DecodePDU s)"
    and "GetPhoneNumberFromAddress (DecodePDU s) = Ok number" and "4 \<le> length number"
    and "length host_port = 4" and "CHR ''F'' \<notin> set host_port"
  shows "\<exists>r q oa. CreateRemotePDU (DecodePDU s) host_port = Ok r \<and> q = DecodePDU r \<and>
    is_valid_pdu q \<and> q = (DecodePDU s)\<lparr>originator_address := oa\<rparr> \<and>
    GetPhoneNumberFromAddress q = Ok (take (length number - 4) number @ host_port)"
  using assms by (rule CreateRemotePDU_decoded)

theorem remote_pdu_accepted_witness:
  "\<exists>r q oa. CreateRemotePDU (DecodePDU ''0021000B915155255155F400000141'') ''6520'' = Ok r \<and>
    q = DecodePDU r \<and> is_valid_pdu q \<and>
    q = (DecodePDU ''0021000B915155255155F400000141'')\<lparr>originator_address := oa\<rparr> \<and>
    GetPhoneNumberFromAddress q = Ok (take (length ''5155255155F4'' - 4 - 1) ''15555215554'' @ ''6520'')"
proof -
  have dec: "DecodePDU ''0021000B915155255155F400000141'' = \<lparr>is_valid_pdu = True, pdu_type = ''21'',
      message_reference = ''00'', originator_address = ''0B915155255155F4'', protocol_id = ''00'',
      data_code_scheme = ''00'', user_data = ''0141''\<rparr>"
    by code_simp
  have num: "GetPhoneNumberFromAddress (DecodePDU ''0021000B915155255155F400000141'') = Ok ''15555215554''"
    unfolding dec by code_simp
  show ?thesis
    using remote_pdu_accepted [OF _ num, of "''6520''"] dec by simp
qed

text \<open>
  The PDU of a status report carries the message reference as one octet exactly for references
  below 256; from 256 on the reference takes more digits and shifts every field behind it.
\<close>

theorem status_report_reference_width:
  assumes "is_valid_pdu p" and "0 \<le> r" and "r < 2 ^ 31"
  shows "\<exists>ref. CreateStatuReport now later p r = ''0006'' @ ref @ originator_address p @
      GetCurrentTimeStamp now @ GetCurrentTimeStamp later @ ''00'' \<and>
    (length ref = 2 \<longleftrightarrow> r < 256)"
  using reference_octet [OF assms(2,3)] assms(1) by (auto simp: CreateStatuReport_def)

theorem status_report_reference_width_witness:
  "\<exists>ref. CreateStatuReport noon noon (empty_pdu\<lparr>is_valid_pdu := True\<rparr>) 300 =
      ''0006'' @ ref @ originator_address (empty_pdu\<lparr>is_valid_pdu := True\<rparr>) @
      GetCurrentTimeStamp noon @ GetCurrentTimeStamp noon @ ''00'' \<and>
    (length ref = 2 \<longleftrightarrow> (300::int) < 256)"
  by (rule status_report_reference_width) simp_all

end
