(* ===== verification/Thread_Looper.thy ===== *)
theory Thread_Looper
  imports Cpp_String "HOL-Library.Multiset"
begin

section \<open>The timer thread\<close>

text \<open>
  \<^verbatim>\<open>modem_simulator/thread_looper.cpp\<close>: callbacks are posted with a delay, kept in a queue ordered by
  their due time and run one after the other. A callback is a value of the type \<open>'cb\<close>; the time of
  \<^verbatim>\<open>steady_clock\<close> is an integer given to each operation. What is done under the mutex is atomic.
\<close>

record 'cb event =
  event_when :: int
  event_cb :: 'cb
  event_serial :: int

record 'cb looper =
  stopped :: bool
  next_serial :: int
  queue :: "'cb event list"

definition new_looper :: "'cb looper" where
  "new_looper = \<lparr>stopped = False, next_serial = 1, queue = []\<rparr>"

definition event_le :: "'cb event \<Rightarrow> 'cb event \<Rightarrow> bool" where
  "event_le e other \<longleftrightarrow> event_when e \<le> event_when other"

fun insert_event :: "'cb event \<Rightarrow> 'cb event list \<Rightarrow> 'cb event list" where
  "insert_event event [] = [event]"
| "insert_event event (it # rest) =
     (if event_le it event then it # insert_event event rest else event # it # rest)"

definition Insert :: "'cb event \<Rightarrow> 'cb looper \<Rightarrow> 'cb looper" where
  "Insert event l = l\<lparr>queue := insert_event event (queue l)\<rparr>"

text \<open>
  \<^verbatim>\<open>Post(cb, delay)\<close>, and \<^verbatim>\<open>Post(cb)\<close> with delay 0. The serial is a 32-bit atomic counter, whose
  increment wraps around.
\<close>

definition Post :: "int \<Rightarrow> 'cb \<Rightarrow> int \<Rightarrow> 'cb looper \<Rightarrow> int \<times> 'cb looper" where
  "Post now cb delay l =
     (let serial = next_serial l;
          l' = l\<lparr>next_serial := to_int32 (next_serial l + 1)\<rparr>
      in (serial, Insert \<lparr>event_when = now + delay, event_cb = cb, event_serial = serial\<rparr> l'))"

fun erase_serial :: "int \<Rightarrow> 'cb event list \<Rightarrow> bool \<times> 'cb event list" where
  "erase_serial serial [] = (False, [])"
| "erase_serial serial (it # rest) =
     (if event_serial it = serial then (True, rest)
      else let (found, rest') = erase_serial serial rest in (found, it # rest'))"

definition CancelSerial :: "int \<Rightarrow> 'cb looper \<Rightarrow> bool \<times> 'cb looper" where
  "CancelSerial serial l =
     (let (found, q) = erase_serial serial (queue l) in (found, l\<lparr>queue := q\<rparr>))"

text \<open>
  One turn of \<^verbatim>\<open>ThreadLoop\<close>: leave when stopped, wait when there is nothing or nothing due yet,
  otherwise take the front event and run its callback outside the lock.
\<close>

datatype 'cb turn = Exit_Loop | Wait_Notify | Wait_For int | Run 'cb

definition ThreadLoop_turn :: "int \<Rightarrow> 'cb looper \<Rightarrow> 'cb turn \<times> 'cb looper" where
  "ThreadLoop_turn now l =
     (if stopped l then (Exit_Loop, l)
      else case queue l of
        [] \<Rightarrow> (Wait_Notify, l)
      | e # rest \<Rightarrow>
          (let time_to_wait = event_when e - now
           in if time_to_wait > 0 then (Wait_For time_to_wait, l)
              else (Run (event_cb e), l\<lparr>queue := rest\<rparr>)))"

definition Stop :: "'cb looper \<Rightarrow> 'cb looper" where
  "Stop l = (if stopped l then l else l\<lparr>stopped := True\<rparr>)"

subsection \<open>The queue as a stable priority queue\<close>

lemma mset_insert_event: "mset (insert_event e q) = add_mset e (mset q)"
  by (induction q) auto

lemma set_insert_event: "set (insert_event e q) = insert e (set q)"
  using mset_insert_event [of e q] by (metis set_mset_add_mset_insert set_mset_mset)

lemma sorted_insert_event:
  "sorted (map event_when q) \<Longrightarrow> sorted (map event_when (insert_event e q))"
  by (induction q) (auto simp: event_le_def set_insert_event)

lemma filter_insert_event:
  "sorted (map event_when q) \<Longrightarrow>
     filter (\<lambda>x. event_when x = t) (insert_event e q) =
     filter (\<lambda>x. event_when x = t) q @ (if event_when e = t then [e] else [])"
proof (induction q)
  case Nil
  then show ?case by simp
next
  case (Cons x q)
  show ?case
  proof (cases "event_le x e")
    case True
    then show ?thesis using Cons by simp
  next
    case False
    then have gt: "\<forall>y\<in>set (x # q). event_when e < event_when y"
      using Cons.prems by (auto simp: event_le_def)
    have "filter (\<lambda>y. event_when y = t) (x # q) = []" if "event_when e = t"
      using gt that by (intro filter_False) auto
    then show ?thesis using False by (cases "event_when e = t") (simp_all del: filter.simps(2) add: filter.simps(2) [of _ e])
  qed
qed

text \<open>
  The contract of an ordered queue of timed events: a new event goes behind all events that are due no
  later. Whatever is posted, the queue is the stable sort of the posts by due time.
\<close>

locale timed_queue =
  fixes key :: "'e \<Rightarrow> int" and put :: "'e \<Rightarrow> 'q \<Rightarrow> 'q" and events :: "'q \<Rightarrow> 'e list"
  assumes put_mset: "mset (events (put e q)) = add_mset e (mset (events q))"
    and put_sorted: "sorted (map key (events q)) \<Longrightarrow> sorted (map key (events (put e q)))"
    and put_stable: "sorted (map key (events q)) \<Longrightarrow>
      filter (\<lambda>x. key x = t) (events (put e q)) =
      filter (\<lambda>x. key x = t) (events q) @ (if key e = t then [e] else [])"
begin

definition put_all :: "'e list \<Rightarrow> 'q \<Rightarrow> 'q" where
  "put_all es q = fold put es q"

lemma put_all_invariants:
  assumes "sorted (map key (events q))"
  shows "sorted (map key (events (put_all es q))) \<and>
    mset (events (put_all es q)) = mset (events q) + mset es \<and>
    filter (\<lambda>x. key x = t) (events (put_all es q)) =
      filter (\<lambda>x. key x = t) (events q) @ filter (\<lambda>x. key x = t) es"
  using assms
proof (induction es arbitrary: q)
  case Nil
  then show ?case by (simp add: put_all_def)
next
  case (Cons e es)
  then show ?case using put_sorted put_mset put_stable by (simp add: put_all_def)
qed

lemma put_all_sort:
  assumes "events q = []"
  shows "events (put_all es q) = sort_key key es"
proof -
  have q: "sorted (map key (events q))" using assms by simp
  note inv = put_all_invariants [OF q, of es]
  have m: "mset (events (put_all es q)) = mset es" using inv assms by simp
  have s: "sorted (map key (events (put_all es q)))" using inv by blast
  have st: "filter (\<lambda>x. key x = t) (events (put_all es q)) = filter (\<lambda>x. key x = t) es" for t
    using put_all_invariants [OF q, of es t] assms by simp
  have st': "filter (\<lambda>x. key k = key x) (events (put_all es q)) = filter (\<lambda>x. key k = key x) es" for k
    using st [of "key k"] by (simp only: eq_commute)
  show ?thesis
    by (rule properties_for_sort_key [symmetric, OF m st' s])
qed

end

interpretation looper_queue: timed_queue event_when insert_event "\<lambda>q. q"
  by unfold_locales (simp_all add: mset_insert_event sorted_insert_event filter_insert_event)

subsection \<open>Posting, waiting and running\<close>

text \<open>A sequence of posts, each with the time it is made at, and a sequence of turns at one time.\<close>

fun post_all :: "(int \<times> 'cb \<times> int) list \<Rightarrow> 'cb looper \<Rightarrow> 'cb looper" where
  "post_all [] l = l"
| "post_all ((now, cb, delay) # posts) l = post_all posts (snd (Post now cb delay l))"

fun turns :: "nat \<Rightarrow> int \<Rightarrow> 'cb looper \<Rightarrow> 'cb list \<times> 'cb looper" where
  "turns 0 now l = ([], l)"
| "turns (Suc n) now l =
     (case ThreadLoop_turn now l of
        (Run cb, l') \<Rightarrow> (let (executed, l'') = turns n now l' in (cb # executed, l''))
      | (_, l') \<Rightarrow> turns n now l')"

fun posted_events :: "int \<Rightarrow> (int \<times> 'cb \<times> int) list \<Rightarrow> 'cb event list" where
  "posted_events serial [] = []"
| "posted_events serial ((now, cb, delay) # posts) =
     \<lparr>event_when = now + delay, event_cb = cb, event_serial = serial\<rparr>
       # posted_events (to_int32 (serial + 1)) posts"

lemma post_all_queue:
  "queue (post_all posts l) = looper_queue.put_all (posted_events (next_serial l) posts) (queue l)"
  "stopped (post_all posts l) = stopped l"
  by (induction posts l rule: post_all.induct)
    (simp_all add: Post_def Insert_def Let_def looper_queue.put_all_def)

lemma turns_drain:
  assumes "\<not> stopped l" and "\<forall>e\<in>set (queue l). event_when e \<le> now"
  shows "turns (length (queue l) + k) now l = (map event_cb (queue l), l\<lparr>queue := []\<rparr>)"
  using assms
proof (induction "queue l" arbitrary: l)
  case Nil
  then have idle: "ThreadLoop_turn now l = (Wait_Notify, l)" and eq: "l\<lparr>queue := []\<rparr> = l"
    by (simp_all add: ThreadLoop_turn_def)
  have "turns k now l = ([], l)" for k
    by (induction k) (simp_all add: idle)
  then show ?case using Nil eq by (metis add_0 list.size(3) list.map(1))
next
  case (Cons e q)
  then have run: "ThreadLoop_turn now l = (Run (event_cb e), l\<lparr>queue := q\<rparr>)"
    by (simp add: ThreadLoop_turn_def Let_def flip: Cons.hyps(2))
  have "turns (length q + k) now (l\<lparr>queue := q\<rparr>) = (map event_cb q, l\<lparr>queue := []\<rparr>)"
    using Cons.hyps(1) [of "l\<lparr>queue := q\<rparr>"] Cons.prems Cons.hyps(2) by (metis (no_types, lifting)
        list.set_intros(2) looper.ext_inject looper.surjective looper.update_convs(3))
  then show ?case using run Cons.hyps(2) [symmetric] by simp
qed

lemma posted_events_cb: "map event_cb (posted_events s posts) = map (\<lambda>(_, cb, _). cb) posts"
  by (induction s posts rule: posted_events.induct) simp_all

lemma posted_events_due:
  "\<forall>(t, cb, delay)\<in>set posts. t + delay \<le> now \<Longrightarrow> e \<in> set (posted_events s posts) \<Longrightarrow> event_when e \<le> now"
  by (induction s posts rule: posted_events.induct) auto

text \<open>
  Whatever callbacks are posted to a running looper with an empty queue, once they are all due the
  thread runs each of them exactly once, ordered by due time and, for equal due times, in the
  order of the posts; then the queue is empty.
\<close>

theorem posts_run_once_in_due_order:
  assumes "\<not> stopped l" and "queue l = []"
    and "\<forall>(t, cb, delay)\<in>set posts. t + delay \<le> now"
    and "n \<ge> length posts"
  shows "fst (turns n now (post_all posts l)) =
           map event_cb (sort_key event_when (posted_events (next_serial l) posts)) \<and>
         queue (snd (turns n now (post_all posts l))) = [] \<and>
         mset (fst (turns n now (post_all posts l))) = mset (map (\<lambda>(_, cb, _). cb) posts)"
proof -
  let ?l = "post_all posts l" and ?es = "posted_events (next_serial l) posts"
  have q: "queue ?l = sort_key event_when ?es"
    using looper_queue.put_all_sort [of "queue l" ?es] assms(2) by (simp add: post_all_queue)
  have len: "length (queue ?l) = length posts"
    using posted_events_cb [of "next_serial l" posts] q by (metis length_map length_sort)
  have due: "\<forall>e\<in>set (queue ?l). event_when e \<le> now"
    using posted_events_due [OF assms(3)] q by simp
  have "turns n now ?l = (map event_cb (queue ?l), ?l\<lparr>queue := []\<rparr>)"
    using turns_drain [of ?l now "n - length posts"] assms(1,4) due len
    by (simp add: post_all_queue)
  then show ?thesis
    using q posted_events_cb [of "next_serial l" posts] by (metis fst_conv snd_conv
        looper.select_convs(3) looper.surjective looper.update_convs(3) mset_map mset_sort)
qed

theorem posts_run_once_in_due_order_witness:
  "fst (turns 3 10 (post_all [(0, ''b'', 5), (1, ''a'', 2), (2, ''c'', 3)] new_looper)) =
     [''a'', ''b'', ''c'']"
proof -
  have "fst (turns 3 10 (post_all [(0, ''b'', 5), (1, ''a'', 2), (2, ''c'', 3)] new_looper)) =
    map event_cb (sort_key event_when (posted_events (next_serial new_looper)
      [(0, ''b'', 5), (1, ''a'', 2), (2, ''c'', 3)]))"
    using posts_run_once_in_due_order [of new_looper "[(0, ''b'', 5), (1, ''a'', 2), (2, ''c'', 3)]" 10 3]
    by (simp add: new_looper_def)
  then show ?thesis by (simp add: new_looper_def)
qed

subsection \<open>All interleavings\<close>

text \<open>
  A post is three steps of the posting thread: it takes a serial from the atomic counter, reads the
  clock, and inserts the event under the lock. Between them other threads go on.
\<close>

definition TakeSerial :: "'cb looper \<Rightarrow> int \<times> 'cb looper" where
  "TakeSerial l = (next_serial l, l\<lparr>next_serial := to_int32 (next_serial l + 1)\<rparr>)"

definition ReadClock :: "int \<Rightarrow> 'cb \<Rightarrow> int \<Rightarrow> int \<Rightarrow> 'cb event" where
  "ReadClock now cb delay serial = \<lparr>event_when = now + delay, event_cb = cb, event_serial = serial\<rparr>"

lemma Post_steps: "Post now cb delay l = (case TakeSerial l of (serial, l') \<Rightarrow> (serial, Insert (ReadClock now cb delay serial) l'))"
  by (simp add: Post_def TakeSerial_def ReadClock_def Let_def)

datatype 'cb posting = Serial_Taken 'cb int int | Clock_Read "'cb event"

primrec posting_serial :: "'cb posting \<Rightarrow> int" where
  "posting_serial (Serial_Taken cb delay serial) = serial"
| "posting_serial (Clock_Read event) = event_serial event"

text \<open>
  The states a looper can be in, for any interleaving of the steps of posts and of cancellations by
  other threads with turns of its own thread, while time does not go back. \<open>n\<close> is the number of serials
  taken, \<open>postings\<close> are the posts under way, \<open>cancelled\<close> the serials for which \<^const>\<open>CancelSerial\<close> returned true,
  \<open>executed\<close> the events run, with the time they were run at.
\<close>

inductive looper_reach ::
  "int \<Rightarrow> nat \<Rightarrow> 'cb looper \<Rightarrow> 'cb posting list \<Rightarrow> int list \<Rightarrow> (int \<times> 'cb event) list \<Rightarrow> bool" where
  reach_new: "looper_reach t 0 new_looper [] [] []"
| reach_time: "looper_reach t n l postings cancelled executed \<Longrightarrow> t \<le> t' \<Longrightarrow> looper_reach t' n l postings cancelled executed"
| reach_serial: "looper_reach t n l postings cancelled executed \<Longrightarrow> TakeSerial l = (serial, l') \<Longrightarrow>
    looper_reach t (n + 1) l' (Serial_Taken cb delay serial # postings) cancelled executed"
| reach_clock: "looper_reach t n l (ps @ Serial_Taken cb delay serial # qs) cancelled executed \<Longrightarrow>
    looper_reach t n l (ps @ Clock_Read (ReadClock t cb delay serial) # qs) cancelled executed"
| reach_insert: "looper_reach t n l (ps @ Clock_Read event # qs) cancelled executed \<Longrightarrow>
    looper_reach t n (Insert event l) (ps @ qs) cancelled executed"
| reach_cancel: "looper_reach t n l postings cancelled executed \<Longrightarrow> CancelSerial s l = (True, l') \<Longrightarrow>
    looper_reach t n l' postings (s # cancelled) executed"
| reach_run: "looper_reach t n l postings cancelled executed \<Longrightarrow> ThreadLoop_turn t l = (Run cb, l') \<Longrightarrow>
    looper_reach t n l' postings cancelled ((t, hd (queue l)) # executed)"
| reach_stop: "looper_reach t n l postings cancelled executed \<Longrightarrow> looper_reach t n (Stop l) postings cancelled executed"

text \<open>All serials in use, as a multiset; the counter runs through all 32-bit numbers before it repeats one.\<close>

definition serials :: "'cb looper \<Rightarrow> 'cb posting list \<Rightarrow> int list \<Rightarrow> (int \<times> 'cb event) list \<Rightarrow> int multiset" where
  "serials l postings cancelled executed =
     mset (map event_serial (queue l)) + mset (map posting_serial postings) + mset cancelled + mset (map (event_serial \<circ> snd) executed)"

definition looper_inv :: "nat \<Rightarrow> 'cb looper \<Rightarrow> 'cb posting list \<Rightarrow> int list \<Rightarrow> (int \<times> 'cb event) list \<Rightarrow> bool" where
  "looper_inv n l postings cancelled executed \<longleftrightarrow>
     sorted (map event_when (queue l)) \<and>
     serials l postings cancelled executed = mset (map (\<lambda>k. to_int32 (int k + 1)) [0..<n]) \<and>
     next_serial l = to_int32 (int n + 1) \<and>
     (\<forall>(u, e)\<in>set executed. event_when e \<le> u)"

lemma to_int32_shift: "to_int32 (to_int32 a + 1) = to_int32 (a + 1)"
  by (simp add: to_int32_def) presburger

lemma to_int32_window:
  assumes "to_int32 a = to_int32 b" and "\<bar>a - b\<bar> < 2 ^ 32"
  shows "a = b"
proof -
  have "(2 :: int) ^ 32 dvd a - b" using assms(1) by (simp add: to_int32_def mod_eq_dvd_iff)
  then show ?thesis using assms(2) zdvd_not_zless [of "\<bar>a - b\<bar>" "2 ^ 32"] by fastforce
qed

lemma serials_distinct:
  assumes "n \<le> 2 ^ 32"
  shows "distinct (map (\<lambda>k. to_int32 (int k + 1)) [0..<n])"
proof -
  have "i = j" if "i < n" "j < n" "to_int32 (int i + 1) = to_int32 (int j + 1)" for i j
  proof -
    have "\<bar>int i + 1 - (int j + 1)\<bar> < 2 ^ 32" using that(1,2) assms by simp
    then show ?thesis using to_int32_window [OF that(3)] by simp
  qed
  then have "inj_on (\<lambda>k. to_int32 (int k + 1)) {0..<n}" by (intro inj_onI) simp
  then show ?thesis by (simp only: distinct_map distinct_upt set_upt simp_thms)
qed

lemma erase_serial_True:
  "erase_serial s q = (True, q') \<Longrightarrow>
     \<exists>xs e ys. q = xs @ e # ys \<and> q' = xs @ ys \<and> event_serial e = s"
proof (induction q arbitrary: q')
  case Nil
  then show ?case by simp
next
  case (Cons x q)
  show ?case
  proof (cases "event_serial x = s")
    case True
    then have "x # q = [] @ x # q \<and> q' = [] @ q \<and> event_serial x = s" using Cons.prems by simp
    then show ?thesis by blast
  next
    case False
    then obtain q'' where "erase_serial s q = (True, q'')" "q' = x # q''"
      using Cons.prems by (auto split: prod.splits)
    then obtain xs e ys where "x # q = (x # xs) @ e # ys \<and> q' = (x # xs) @ ys \<and> event_serial e = s"
      using Cons.IH by fastforce
    then show ?thesis by blast
  qed
qed

lemma looper_inv_run:
  assumes "looper_inv n l ps c r" and "ThreadLoop_turn t l = (Run cb, l')"
  shows "looper_inv n l' ps c ((t, hd (queue l)) # r)"
proof -
  obtain e rest where "queue l = e # rest" "event_when e \<le> t" "l' = l\<lparr>queue := rest\<rparr>"
    using assms(2) by (auto simp: ThreadLoop_turn_def Let_def split: if_splits list.splits)
  then show ?thesis using assms(1) by (auto simp: looper_inv_def serials_def)
qed

lemma looper_inv_cancel:
  assumes "looper_inv n l ps c r" and "CancelSerial s l = (True, l')"
  shows "looper_inv n l' ps (s # c) r"
proof -
  obtain q' where "erase_serial s (queue l) = (True, q')" and l': "l' = l\<lparr>queue := q'\<rparr>"
    using assms(2) by (auto simp: CancelSerial_def Let_def split: prod.splits)
  then obtain xs e ys where "queue l = xs @ e # ys" "q' = xs @ ys" "event_serial e = s"
    using erase_serial_True by blast
  then show ?thesis using assms(1) l' by (auto simp: looper_inv_def serials_def sorted_append)
qed

lemma looper_reach_inv: "looper_reach t n l postings cancelled executed \<Longrightarrow> looper_inv n l postings cancelled executed"
proof (induction rule: looper_reach.induct)
  case (reach_new t)
  then show ?case by (simp add: looper_inv_def serials_def new_looper_def to_int32_def)
next
  case (reach_serial t n l postings cancelled executed serial l' cb delay)
  then show ?case by (auto simp: looper_inv_def serials_def TakeSerial_def to_int32_shift)
next
  case (reach_clock t n l ps cb delay serial qs cancelled executed)
  then show ?case by (simp add: looper_inv_def serials_def ReadClock_def)
next
  case (reach_insert t n l ps event qs cancelled executed)
  then show ?case by (simp add: looper_inv_def serials_def Insert_def sorted_insert_event mset_insert_event)
next
  case (reach_stop t n l postings cancelled executed)
  then show ?case by (simp add: looper_inv_def serials_def Stop_def)
qed (auto intro: looper_inv_cancel looper_inv_run)

text \<open>
  C7: In every interleaving of the steps of posts with cancellations, turns and stops, the queue stays sorted
  by due time and no callback runs before it is due. Until the 32-bit counter of serials has gone
  round once, no callback runs twice, and an event whose cancellation succeeded neither is in the queue nor
  still being posted nor has run, so that it can never run.
\<close>

theorem looper_reach_safe:
  assumes "looper_reach t n l postings cancelled executed"
  shows "sorted (map event_when (queue l)) \<and>
    (\<forall>(u, e)\<in>set executed. event_when e \<le> u) \<and>
    (n \<le> 2 ^ 32 \<longrightarrow>
      distinct (map (event_serial \<circ> snd) executed) \<and>
      set cancelled \<inter> (event_serial ` set (queue l) \<union> posting_serial ` set postings \<union> event_serial ` snd ` set executed) = {})"
proof -
  note inv = looper_reach_inv [OF assms]
  let ?q = "map event_serial (queue l)" and ?p = "map posting_serial postings" and ?e = "map (event_serial \<circ> snd) executed"
  have "distinct ?e \<and> set cancelled \<inter> (set ?q \<union> set ?p \<union> set ?e) = {}" if "n \<le> 2 ^ 32"
  proof -
    have "mset (?q @ ?p @ cancelled @ ?e) = mset (map (\<lambda>k. to_int32 (int k + 1)) [0..<n])"
      using inv by (simp add: looper_inv_def serials_def ac_simps)
    then have "distinct (?q @ ?p @ cancelled @ ?e)" using serials_distinct [OF that] mset_eq_imp_distinct_iff by blast
    then show ?thesis unfolding distinct_append set_append by blast
  qed
  moreover have "sorted (map event_when (queue l))" "\<forall>(u, e)\<in>set executed. event_when e \<le> u"
    using inv by (simp_all add: looper_inv_def)
  ultimately show ?thesis by (simp add: image_image)
qed

text \<open>Two posts that overtake each other, a cancellation, and a run of the other callback.\<close>

theorem looper_reach_safe_witness:
  "\<exists>l executed.
    looper_reach 5 2 l [] [2] executed \<and> l = new_looper\<lparr>next_serial := 3\<rparr> \<and>
    executed = [(5, \<lparr>event_when = 5, event_cb = ''a'', event_serial = 1\<rparr>)] \<and>
    distinct (map (event_serial \<circ> snd) executed) \<and> {2} \<inter> event_serial ` snd ` set executed = {}"
proof -
  let ?a = "\<lparr>event_when = 5, event_cb = ''a'', event_serial = 1\<rparr>" and ?b = "\<lparr>event_when = 9, event_cb = ''b'', event_serial = 2\<rparr>"
  let ?l = "\<lambda>q. \<lparr>stopped = False, next_serial = 3, queue = q\<rparr>"
  have "looper_reach 0 1 \<lparr>stopped = False, next_serial = 2, queue = []\<rparr> [Serial_Taken ''a'' 5 1] [] []"
    using reach_serial [OF reach_new, of 1 _ 0 "''a''" 5] by (simp add: TakeSerial_def new_looper_def to_int32_def)
  from reach_serial [OF this, of 2 "?l []" "''b''" 9]
  have "looper_reach 0 2 (?l []) [Serial_Taken ''b'' 9 2, Serial_Taken ''a'' 5 1] [] []"
    by (simp add: TakeSerial_def to_int32_def numeral_2_eq_2)
  from reach_clock [of 0 2 "?l []" "[]" "''b''" 9 2, simplified, OF this]
  have "looper_reach 0 2 (?l []) [Clock_Read ?b, Serial_Taken ''a'' 5 1] [] []" by (simp add: ReadClock_def)
  from reach_insert [of 0 2 "?l []" "[]", simplified, OF this]
  have "looper_reach 0 2 (?l [?b]) [Serial_Taken ''a'' 5 1] [] []" by (simp add: Insert_def)
  from reach_clock [of 0 2 "?l [?b]" "[]" "''a''" 5 1, simplified, OF this]
  have "looper_reach 0 2 (?l [?b]) [Clock_Read ?a] [] []" by (simp add: ReadClock_def)
  from reach_insert [of 0 2 "?l [?b]" "[]", simplified, OF this]
  have "looper_reach 0 2 (?l [?a, ?b]) [] [] []" by (simp add: Insert_def event_le_def)
  from reach_cancel [OF this, of 2 "?l [?a]"]
  have "looper_reach 0 2 (?l [?a]) [] [2] []" by (simp add: CancelSerial_def)
  from reach_run [OF reach_time [OF this, of 5], of "''a''" "?l []"]
  have "looper_reach 5 2 (?l []) [] [2] [(5, ?a)]" by (simp add: ThreadLoop_turn_def)
  then show ?thesis using looper_reach_safe [of 5 2 "?l []" "[]" "[2]" "[(5, ?a)]"] by (auto simp: new_looper_def)
qed

end
