(* ===== verification/Cpp_Map.thy ===== *)
theory Cpp_Map
  imports Prelude
begin

section \<open>Ordered maps\<close>

text \<open>
  \<^verbatim>\<open>std::map<int, T>\<close> as the list of its entries in key order, which is the order its iterators
  visit: \<^verbatim>\<open>find\<close>, assignment through \<^verbatim>\<open>operator[]\<close>, \<^verbatim>\<open>erase\<close>, an in-place update of every entry and
  a loop that erases some of the entries. The laws a client relies on are the locale
  \<open>keyed_store\<close>; the association lists are its interpretation.
\<close>

type_synonym 'v int_map = "(int \<times> 'v) list"

definition map_wf :: "'v int_map \<Rightarrow> bool" where
  "map_wf m \<longleftrightarrow> sorted_wrt (<) (map fst m)"

definition map_find :: "'v int_map \<Rightarrow> int \<Rightarrow> 'v option" where
  "map_find m k = map_of m k"

fun map_set :: "int \<Rightarrow> 'v \<Rightarrow> 'v int_map \<Rightarrow> 'v int_map" where
  "map_set k v [] = [(k, v)]"
| "map_set k v ((k', v') # m) =
     (if k < k' then (k, v) # (k', v') # m
      else if k = k' then (k, v) # m
      else (k', v') # map_set k v m)"

definition map_erase :: "int \<Rightarrow> 'v int_map \<Rightarrow> 'v int_map" where
  "map_erase k m = filter (\<lambda>e. fst e \<noteq> k) m"

definition map_values :: "('v \<Rightarrow> 'v) \<Rightarrow> 'v int_map \<Rightarrow> 'v int_map" where
  "map_values f m = map (\<lambda>(k, v). (k, f v)) m"

lemma map_wf_Nil [simp]: "map_wf []"
  by (simp add: map_wf_def)

lemma map_wf_Cons [simp]: "map_wf ((k, v) # m) \<longleftrightarrow> (\<forall>e\<in>set m. k < fst e) \<and> map_wf m"
  by (auto simp: map_wf_def)

lemma map_wf_distinct: "map_wf m \<Longrightarrow> distinct (map fst m)"
  by (simp add: map_wf_def strict_sorted_iff)

lemma set_map_set: "set (map_set k v m) \<subseteq> insert (k, v) (set m)"
  by (induction k v m rule: map_set.induct) auto

lemma map_wf_set [inv_intros]: "map_wf m \<Longrightarrow> map_wf (map_set k v m)"
proof (induction k v m rule: map_set.induct)
  case (2 k v k' v' m)
  have "\<forall>e\<in>set (map_set k v m). k' < fst e" if "k' < k"
    using 2(2) that set_map_set [of k v m] by fastforce
  then show ?case using 2 by auto
qed simp

lemma map_wf_filter: "map_wf m \<Longrightarrow> map_wf (filter P m)"
  by (induction m) auto

lemma map_wf_erase [inv_intros]: "map_wf m \<Longrightarrow> map_wf (map_erase k m)"
  unfolding map_erase_def by (rule map_wf_filter)

lemma map_wf_values [inv_intros, simp]: "map_wf (map_values f m) \<longleftrightarrow> map_wf m"
proof -
  have "map fst (map_values f m) = map fst m" by (induction m) (auto simp: map_values_def)
  then show ?thesis by (simp add: map_wf_def)
qed

lemma map_find_set: "map_wf m \<Longrightarrow> map_find (map_set k v m) k' = (if k' = k then Some v else map_find m k')"
  by (induction k v m rule: map_set.induct) (auto simp: map_find_def)

lemma map_find_erase: "map_find (map_erase k m) k' = (if k' = k then None else map_find m k')"
  by (induction m) (auto simp: map_find_def map_erase_def)

lemma map_find_values: "map_find (map_values f m) k = map_option f (map_find m k)"
  by (induction m) (auto simp: map_find_def map_values_def)

lemma map_find_Some_iff: "map_wf m \<Longrightarrow> map_find m k = Some v \<longleftrightarrow> (k, v) \<in> set m"
  unfolding map_find_def using map_wf_distinct by (metis map_of_eq_Some_iff)

lemma map_find_None_iff: "map_find m k = None \<longleftrightarrow> k \<notin> fst ` set m"
  by (simp add: map_find_def map_of_eq_None_iff)

lemma map_find_filter_values:
  "map_wf m \<Longrightarrow> map_find (filter (\<lambda>e. P (snd e)) m) k =
     (case map_find m k of None \<Rightarrow> None | Some v \<Rightarrow> if P v then Some v else None)"
proof (induction m)
  case (Cons e m)
  obtain k' v' where e: "e = (k', v')" by (cases e)
  have "map_find m k' = None" using Cons.prems e by (auto simp: map_find_None_iff)
  then have "map_find (filter (\<lambda>e. P (snd e)) m) k' = None"
    by (auto simp: map_find_None_iff)
  then show ?case using Cons e by (auto simp: map_find_def)
qed (simp add: map_find_def)

text \<open>The contract of a keyed store, as the services use it.\<close>

locale keyed_store =
  fixes find :: "'m \<Rightarrow> int \<Rightarrow> 'v option"
    and put :: "int \<Rightarrow> 'v \<Rightarrow> 'm \<Rightarrow> 'm"
    and erase :: "int \<Rightarrow> 'm \<Rightarrow> 'm"
    and ok :: "'m \<Rightarrow> bool"
  assumes find_put: "ok m \<Longrightarrow> find (put k v m) k' = (if k' = k then Some v else find m k')"
    and find_erase: "ok m \<Longrightarrow> find (erase k m) k' = (if k' = k then None else find m k')"
    and put_ok: "ok m \<Longrightarrow> ok (put k v m)"
    and erase_ok: "ok m \<Longrightarrow> ok (erase k m)"
begin

lemma put_then_erase: "ok m \<Longrightarrow> find m k = None \<Longrightarrow> find (erase k (put k v m)) k' = find m k'"
  by (simp add: find_put find_erase put_ok)

lemma put_fresh_keeps: "ok m \<Longrightarrow> find m k = None \<Longrightarrow> find m k' = Some w \<Longrightarrow> find (put k v m) k' = Some w"
  by (auto simp: find_put)

lemma puts_find_last: "ok m \<Longrightarrow> find (put k w (put k v m)) k' = find (put k w m) k'"
  by (simp add: find_put put_ok)

end

interpretation cpp_map: keyed_store map_find map_set map_erase map_wf
  by unfold_locales (auto simp: map_find_set map_find_erase intro: inv_intros)

end
