(* ===== verification/Modem_Service.thy ===== *)
theory Modem_Service
  imports Command_Parser Pdu_Parser Thread_Looper Cpp_Map
begin

section \<open>What the modem services share\<close>

text \<open>
  \<^verbatim>\<open>client.h\<close>, \<^verbatim>\<open>client.cc\<close>, \<^verbatim>\<open>modem_service.h\<close>, \<^verbatim>\<open>modem_service.cpp\<close>, the sending half of
  \<^verbatim>\<open>channel_monitor.cpp\<close> and \<^verbatim>\<open>nvram_config.cpp\<close>. Every service holds pointers to one channel
  monitor and one thread looper; the record \<open>env\<close> is the state behind them. Client objects are shared
  between the channel monitor's lists and the handlers that are given a reference to one, so they
  live in a store indexed by \<^verbatim>\<open>ClientId\<close> and the lists hold identifiers.
\<close>

subsection \<open>Clients\<close>

datatype ClientType = RIL | REMOTE

text \<open>
  \<open>fd_open\<close> stands for both descriptors of a client, which are opened and closed together.
\<close>

record client =
  client_type :: ClientType
  incomplete_command :: string
  first_read_command :: bool
  is_valid :: bool
  fd_open :: bool

definition new_client :: "ClientType \<Rightarrow> client" where
  "new_client t = \<lparr>client_type = t, incomplete_command = [], first_read_command = False, is_valid = True,
     fd_open = True\<rparr>"

text \<open>
  The callbacks that services post to the looper. A callback made from a member function or a lambda
  is the function with the values it captured; \<open>ReceiveSMS_dangling\<close> captured a reference to a local
  variable.
\<close>

datatype callback =
    SimulatePendingCallsAnswered_cb
  | TimerWaitingRemoteCallResponse_cb int string
  | CallStateUpdate_cb
  | UpdateRegisterState_cb int
  | UpdateSignalStrengthCallback_cb
  | UpdatePhysicalChannelconfigs_cb int int int int
  | HandleReceiveSMS_cb pdu
  | ReceiveSMS_dangling
  | HandleSMSStatuReport_cb pdu int

text \<open>
  The values of one modem instance in \<^verbatim>\<open>modem_nvram.json\<close>, in memory and as last written to the
  file by \<^verbatim>\<open>NvramConfig::SaveToFile\<close>.
\<close>

record nvram =
  network_selection_mode :: int
  operator_numeric :: string
  modem_technoloy :: int
  preferred_network_mode :: int
  emergency_mode :: bool

text \<open>
  Besides the channel monitor and the looper, the environment has what a handler reads from outside:
  the clocks, this instance's host id, the instances that accept a connection, the RIL addresses of
  the configuration. \<open>wire\<close> is everything written to a client, \<open>socket_wire\<close> what is written to a
  connection that is not a client, both oldest first.
\<close>

record env =
  objs :: "nat \<Rightarrow> client option"
  clients :: "nat list"
  remote_clients :: "nat list"
  next_id :: nat
  pipe :: string
  wire :: "(nat \<times> string) list"
  socket_wire :: "(string \<times> string) list"
  looper :: "callback looper"
  steady_now :: int
  time_0 :: int
  wall :: time_now
  wall_later :: time_now
  gm_wall :: time_now
  tm_isdst :: int
  host_id :: int
  accepts_connection :: "string \<Rightarrow> bool"
  ril_address_and_prefix :: string
  ril_dns :: string
  ril_gateway :: string
  nvram_config :: nvram
  nvram_file :: nvram

subsection \<open>Sending\<close>

definition is_open :: "nat \<Rightarrow> env \<Rightarrow> bool" where
  "is_open c e \<longleftrightarrow> (case objs e c of None \<Rightarrow> False | Some cl \<Rightarrow> fd_open cl)"

definition WriteAll :: "nat \<Rightarrow> string \<Rightarrow> env \<Rightarrow> env" where
  "WriteAll c s e = (if is_open c e then e\<lparr>wire := wire e @ [(c, s)]\<rparr> else e)"

definition SendCommandResponse :: "nat \<Rightarrow> string \<Rightarrow> env \<Rightarrow> env" where
  "SendCommandResponse c response e =
     (if response = [] then e
      else WriteAll c (if last response \<noteq> CHR 0x0D then response @ [CHR 0x0D] else response) e)"

fun SendCommandResponses :: "nat \<Rightarrow> string list \<Rightarrow> env \<Rightarrow> env" where
  "SendCommandResponses c [] e = e"
| "SendCommandResponses c (response # responses) e =
     SendCommandResponses c responses (SendCommandResponse c response e)"

definition SendUnsolicitedCommand :: "string \<Rightarrow> env \<Rightarrow> env" where
  "SendUnsolicitedCommand response e =
     (case clients e of [] \<Rightarrow> e | c # _ \<Rightarrow> SendCommandResponse c response e)"

definition SendRemoteCommand :: "nat \<Rightarrow> string \<Rightarrow> env \<Rightarrow> env" where
  "SendRemoteCommand c response e =
     (if c \<in> set (remote_clients e) then SendCommandResponse c response e else e)"

text \<open>\<^verbatim>\<open>write_pipe_->Write("OK", sizeof("OK"))\<close> also writes the terminating NUL.\<close>

definition trigger :: "env \<Rightarrow> env" where
  "trigger e = e\<lparr>pipe := pipe e @ ''OK'' @ [CHR 0x00]\<rparr>"

definition CloseRemoteConnection :: "nat \<Rightarrow> env \<Rightarrow> env" where
  "CloseRemoteConnection c e =
     (if c \<in> set (remote_clients e)
      then trigger (e\<lparr>objs := (objs e)(c := map_option (\<lambda>cl. cl\<lparr>fd_open := False, is_valid := False\<rparr>)
             (objs e c))\<rparr>)
      else e)"

text \<open>\<^verbatim>\<open>SetRemoteClient(fd, false)\<close> with an open connection.\<close>

definition SetRemoteClient_dialed :: "env \<Rightarrow> nat \<times> env" where
  "SetRemoteClient_dialed e =
     (let c = next_id e
      in (c, trigger (e\<lparr>next_id := next_id e + 1, objs := (objs e)(c \<mapsto> new_client REMOTE),
               remote_clients := remote_clients e @ [c]\<rparr>)))"

definition GetHostId :: "env \<Rightarrow> string" where
  "GetHostId e = to_string (host_id e)"

text \<open>\<^verbatim>\<open>thread_looper_->Post\<close>; delays are in milliseconds.\<close>

definition post :: "callback \<Rightarrow> int \<Rightarrow> env \<Rightarrow> int \<times> env" where
  "post cb delay e =
     (let (serial, l) = Post (steady_now e) cb delay (looper e) in (serial, e\<lparr>looper := l\<rparr>))"

definition post_cb :: "callback \<Rightarrow> int \<Rightarrow> env \<Rightarrow> env" where
  "post_cb cb delay e = snd (post cb delay e)"

definition cancel_serial :: "int option \<Rightarrow> env \<Rightarrow> env" where
  "cancel_serial serial e =
     (case serial of None \<Rightarrow> e | Some s \<Rightarrow> e\<lparr>looper := snd (CancelSerial s (looper e))\<rparr>)"

text \<open>The setters of \<^verbatim>\<open>NvramConfig::InstanceSpecific\<close> and \<^verbatim>\<open>NvramConfig::SaveToFile\<close>.\<close>

definition set_nvram :: "(nvram \<Rightarrow> nvram) \<Rightarrow> env \<Rightarrow> env" where
  "set_nvram f e = e\<lparr>nvram_config := f (nvram_config e)\<rparr>"

definition SaveToFile :: "env \<Rightarrow> env" where
  "SaveToFile e = e\<lparr>nvram_file := nvram_config e\<rparr>"

definition InitDefaultNvramConfig :: nvram where
  "InitDefaultNvramConfig = \<lparr>network_selection_mode = 0, operator_numeric = [], modem_technoloy = 32,
     preferred_network_mode = 35, emergency_mode = False\<rparr>"

subsection \<open>Responses and error codes\<close>

abbreviation kCmeErrorOperationNotAllowed :: string where
  "kCmeErrorOperationNotAllowed \<equiv> ''+CME ERROR: 3''"
abbreviation kCmeErrorOperationNotSupported :: string where
  "kCmeErrorOperationNotSupported \<equiv> ''+CME ERROR: 4''"
abbreviation kCmeErrorSimNotInserted :: string where
  "kCmeErrorSimNotInserted \<equiv> ''+CME ERROR: 10''"
abbreviation kCmeErrorSimPinRequired :: string where
  "kCmeErrorSimPinRequired \<equiv> ''+CME ERROR: 11''"
abbreviation kCmeErrorSimPukRequired :: string where
  "kCmeErrorSimPukRequired \<equiv> ''+CME ERROR: 12''"
abbreviation kCmeErrorSimBusy :: string where
  "kCmeErrorSimBusy \<equiv> ''+CME ERROR: 14''"
abbreviation kCmeErrorIncorrectPassword :: string where
  "kCmeErrorIncorrectPassword \<equiv> ''+CME ERROR: 16''"
abbreviation kCmeErrorMemoryFull :: string where
  "kCmeErrorMemoryFull \<equiv> ''+CME ERROR: 20''"
abbreviation kCmeErrorInvalidIndex :: string where
  "kCmeErrorInvalidIndex \<equiv> ''+CME ERROR: 21''"
abbreviation kCmeErrorNotFound :: string where
  "kCmeErrorNotFound \<equiv> ''+CME ERROR: 22''"
abbreviation kCmeErrorNoNetworkService :: string where
  "kCmeErrorNoNetworkService \<equiv> ''+CME ERROR: 30''"
abbreviation kCmeErrorNetworkNotAllowedEmergencyCallsOnly :: string where
  "kCmeErrorNetworkNotAllowedEmergencyCallsOnly \<equiv> ''+CME ERROR: 32''"
abbreviation kCmeErrorInCorrectParameters :: string where
  "kCmeErrorInCorrectParameters \<equiv> ''+CME ERROR: 50''"
abbreviation kCmeErrorFixedDialNumberOnlyAllowed :: string where
  "kCmeErrorFixedDialNumberOnlyAllowed \<equiv> ''+CME ERROR: 56''"
abbreviation kCmsErrorInvalidPDUModeParam :: string where
  "kCmsErrorInvalidPDUModeParam \<equiv> ''+CMS ERROR: 304''"
abbreviation kCmsErrorSCAddressUnknown :: string where
  "kCmsErrorSCAddressUnknown \<equiv> ''+CMS ERROR: 304''"

definition kRemotePortRange :: "int \<times> int" where
  "kRemotePortRange = (6520, 6527)"

definition HandleCommandDefaultSupported :: "nat \<Rightarrow> env \<Rightarrow> env" where
  "HandleCommandDefaultSupported c e = SendCommandResponse c (''OK'' @ [CHR 0x0D]) e"

subsection \<open>Command tables\<close>

text \<open>
  A \<^verbatim>\<open>CommandHandler\<close> is constructed from a handler of one of two types, which fixes its match mode.
  \<^verbatim>\<open>Compare\<close> skips two characters without looking at them; \<^verbatim>\<open>std::string::compare\<close> throws when the
  command is shorter.
\<close>

datatype 'h CommandHandler = Full_Match string 'h | Partial_Match string 'h

fun handler_of :: "'h CommandHandler \<Rightarrow> 'h" where
  "handler_of (Full_Match p h) = h"
| "handler_of (Partial_Match p h) = h"

fun Compare_eq :: "'h CommandHandler \<Rightarrow> string \<Rightarrow> bool result" where
  "Compare_eq (Partial_Match p h) command =
     (if length command < 2 then Err Out_Of_Range else Ok (take (length p) (drop 2 command) = p))"
| "Compare_eq (Full_Match p h) command =
     (if length command < 2 then Err Out_Of_Range else Ok (drop 2 command = p))"

fun find_handler :: "'h CommandHandler list \<Rightarrow> string \<Rightarrow> 'h option result" where
  "find_handler [] command = Ok None"
| "find_handler (handler # rest) command =
     bind_result (Compare_eq handler command) (\<lambda>eq.
       if eq then Ok (Some (handler_of handler)) else find_handler rest command)"

definition HandleModemCommand ::
  "('h \<Rightarrow> string \<Rightarrow> 's \<Rightarrow> 's result) \<Rightarrow> 'h CommandHandler list \<Rightarrow> string \<Rightarrow> 's \<Rightarrow> (bool \<times> 's) result"
where
  "HandleModemCommand run command_handlers command s =
     bind_result (find_handler command_handlers command) (\<lambda>found.
       case found of
         None \<Rightarrow> Ok (False, s)
       | Some h \<Rightarrow> bind_result (run h command s) (\<lambda>s'. Ok (True, s')))"

subsection \<open>What sending leaves alone\<close>

text \<open>The line a response is written as; an empty response is not written.\<close>

definition line_of :: "string \<Rightarrow> string" where
  "line_of r = (if last r \<noteq> CHR 0x0D then r @ [CHR 0x0D] else r)"

definition written :: "nat \<Rightarrow> string list \<Rightarrow> (nat \<times> string) list" where
  "written c rs = map (\<lambda>r. (c, line_of r)) (filter (\<lambda>r. r \<noteq> []) rs)"

text \<open>Sending only appends to \<open>wire\<close>.\<close>

definition only_wire :: "env \<Rightarrow> env \<Rightarrow> bool" where
  "only_wire e e' \<longleftrightarrow> (\<exists>w. e' = e\<lparr>wire := wire e @ w\<rparr>)"

lemma only_wire_refl [simp]: "only_wire e e"
proof -
  have "e = e\<lparr>wire := wire e @ []\<rparr>" by simp
  then show ?thesis unfolding only_wire_def by blast
qed

lemma only_wire_trans: "only_wire e e' \<Longrightarrow> only_wire e' e'' \<Longrightarrow> only_wire e e''"
  unfolding only_wire_def by force

lemma only_wire_WriteAll [simp]: "only_wire e (WriteAll c s e)"
  unfolding WriteAll_def only_wire_def by (metis only_wire_def only_wire_refl)

lemma only_wire_SendCommandResponse [simp]: "only_wire e (SendCommandResponse c s e)"
  by (simp add: SendCommandResponse_def)

lemma only_wire_SendCommandResponses [simp]: "only_wire e (SendCommandResponses c rs e)"
  by (induction c rs e rule: SendCommandResponses.induct)
    (auto intro: only_wire_trans [OF only_wire_SendCommandResponse])

lemma only_wire_SendUnsolicitedCommand [simp]: "only_wire e (SendUnsolicitedCommand s e)"
  by (simp add: SendUnsolicitedCommand_def split: list.split)

lemma only_wire_SendRemoteCommand [simp]: "only_wire e (SendRemoteCommand c s e)"
  by (simp add: SendRemoteCommand_def)

lemma only_wire_selectors:
  assumes "only_wire e e'"
  shows "objs e' = objs e" "clients e' = clients e" "remote_clients e' = remote_clients e"
    "next_id e' = next_id e" "pipe e' = pipe e" "socket_wire e' = socket_wire e" "looper e' = looper e"
    "steady_now e' = steady_now e" "time_0 e' = time_0 e" "wall e' = wall e" "wall_later e' = wall_later e"
    "gm_wall e' = gm_wall e" "tm_isdst e' = tm_isdst e" "host_id e' = host_id e"
    "accepts_connection e' = accepts_connection e" "nvram_config e' = nvram_config e"
    "nvram_file e' = nvram_file e"
  using assms by (auto simp: only_wire_def)

lemmas sending_frame [simp] =
  only_wire_selectors [OF only_wire_SendCommandResponse]
  only_wire_selectors [OF only_wire_SendCommandResponses]
  only_wire_selectors [OF only_wire_SendUnsolicitedCommand]
  only_wire_selectors [OF only_wire_SendRemoteCommand]

lemma CloseRemoteConnection_frame [simp]:
  "clients (CloseRemoteConnection c e) = clients e"
  "remote_clients (CloseRemoteConnection c e) = remote_clients e"
  "looper (CloseRemoteConnection c e) = looper e"
  "wire (CloseRemoteConnection c e) = wire e"
  "next_id (CloseRemoteConnection c e) = next_id e"
  "steady_now (CloseRemoteConnection c e) = steady_now e"
  "host_id (CloseRemoteConnection c e) = host_id e"
  "nvram_config (CloseRemoteConnection c e) = nvram_config e"
  "nvram_file (CloseRemoteConnection c e) = nvram_file e"
  by (simp_all add: CloseRemoteConnection_def trigger_def)

lemma post_cb_frame [simp]:
  "objs (post_cb cb d e) = objs e" "clients (post_cb cb d e) = clients e"
  "remote_clients (post_cb cb d e) = remote_clients e" "wire (post_cb cb d e) = wire e"
  "nvram_config (post_cb cb d e) = nvram_config e" "nvram_file (post_cb cb d e) = nvram_file e"
  "steady_now (post_cb cb d e) = steady_now e" "host_id (post_cb cb d e) = host_id e"
  "is_open c (post_cb cb d e) = is_open c e"
  by (simp_all add: post_cb_def post_def is_open_def Let_def split: prod.split)

lemma cancel_serial_frame [simp]:
  "objs (cancel_serial s e) = objs e" "clients (cancel_serial s e) = clients e"
  "remote_clients (cancel_serial s e) = remote_clients e" "wire (cancel_serial s e) = wire e"
  "nvram_config (cancel_serial s e) = nvram_config e" "nvram_file (cancel_serial s e) = nvram_file e"
  "steady_now (cancel_serial s e) = steady_now e" "host_id (cancel_serial s e) = host_id e"
  by (simp_all add: cancel_serial_def split: option.split)

lemma is_open_sending [simp]:
  "is_open d (SendCommandResponse c s e) = is_open d e"
  "is_open d (SendCommandResponses c rs e) = is_open d e"
  "is_open d (SendUnsolicitedCommand s e) = is_open d e"
  "is_open d (SendRemoteCommand c s e) = is_open d e"
  by (simp_all add: is_open_def)

lemma is_open_CloseRemoteConnection:
  "is_open d (CloseRemoteConnection c e) \<longleftrightarrow> is_open d e \<and> \<not> (d = c \<and> c \<in> set (remote_clients e))"
  by (auto simp: is_open_def CloseRemoteConnection_def trigger_def split: option.splits)

lemma written_simps [simp]:
  "written c [] = []"
  "written c (r # rs) = (if r = [] then [] else [(c, line_of r)]) @ written c rs"
  by (simp_all add: written_def)

lemma wire_SendCommandResponse:
  "wire (SendCommandResponse c r e) = wire e @ (if is_open c e then written c [r] else [])"
  by (simp add: SendCommandResponse_def WriteAll_def line_of_def)

lemma wire_SendCommandResponses:
  "wire (SendCommandResponses c rs e) = wire e @ (if is_open c e then written c rs else [])"
  by (induction c rs e rule: SendCommandResponses.induct) (simp_all add: wire_SendCommandResponse)

lemma wire_SendUnsolicitedCommand:
  "wire (SendUnsolicitedCommand r e) =
     wire e @ (case clients e of [] \<Rightarrow> [] | c # _ \<Rightarrow> if is_open c e then written c [r] else [])"
  by (simp add: SendUnsolicitedCommand_def wire_SendCommandResponse split: list.split)

lemmas wire_sending = wire_SendCommandResponse wire_SendCommandResponses wire_SendUnsolicitedCommand

lemma SendUnsolicited_then_wire:
  "clients e = c # cs \<Longrightarrow> is_open c e \<Longrightarrow> r \<noteq> [] \<Longrightarrow>
     wire (SendUnsolicitedCommand r e) = wire e @ [(c, line_of r)]"
  by (simp add: wire_SendUnsolicitedCommand)

text \<open>The effects of two operations that touch different parts commute with a response.\<close>

lemma looper_post_cb: "looper (post_cb cb d e) = snd (Post (steady_now e) cb d (looper e))"
  by (simp add: post_cb_def post_def Let_def split: prod.split)

subsection \<open>The first matching handler\<close>

definition matches :: "'h CommandHandler \<Rightarrow> string \<Rightarrow> bool" where
  "matches h command \<longleftrightarrow>
     (case h of
        Full_Match p _ \<Rightarrow> drop 2 command = p
      | Partial_Match p _ \<Rightarrow> take (length p) (drop 2 command) = p)"

lemma Compare_eq_matches: "2 \<le> length command \<Longrightarrow> Compare_eq h command = Ok (matches h command)"
  by (cases h) (auto simp: matches_def)

lemma find_handler_short: "length command < 2 \<Longrightarrow> hs \<noteq> [] \<Longrightarrow> find_handler hs command = Err Out_Of_Range"
  by (cases hs) (cases "hd hs"; auto)+

lemma find_handler_find:
  "2 \<le> length command \<Longrightarrow>
     find_handler hs command = Ok (map_option handler_of (find (\<lambda>h. matches h command) hs))"
  by (induction hs) (simp_all add: Compare_eq_matches)

lemma find_append: "find P (xs @ ys) = (case find P xs of None \<Rightarrow> find P ys | Some x \<Rightarrow> Some x)"
  by (induction xs) auto

subsection \<open>A concrete environment\<close>

text \<open>
  An instance with host id 6520, one RIL client (0) and one remote client (1), that can connect to
  every other instance.
\<close>

definition sample_env :: env where
  "sample_env = \<lparr>objs = [0 \<mapsto> new_client RIL, 1 \<mapsto> new_client REMOTE], clients = [0], remote_clients = [1],
     next_id = 2, pipe = [], wire = [], socket_wire = [], looper = new_looper, steady_now = 0, time_0 = 1000,
     wall = noon, wall_later = noon, gm_wall = noon, tm_isdst = 0, host_id = 6520,
     accepts_connection = (\<lambda>_. True), ril_address_and_prefix = ''192.168.97.2/30'', ril_dns = ''8.8.8.8'',
     ril_gateway = ''192.168.97.1'', nvram_config = InitDefaultNvramConfig,
     nvram_file = InitDefaultNvramConfig\<rparr>"

end
