(* ===== verification/Channel_Monitor.thy ===== *)
theory Channel_Monitor
  imports Modem_Service
begin

section \<open>The channel monitor\<close>

text \<open>
  \<^verbatim>\<open>channel_monitor.cpp\<close>: accepting clients, reading from them, splitting what was read into commands,
  and the loop that waits for events. (Its sending half is in \<open>Modem_Service\<close>.) The monitor calls the
  modem through the abstract class \<^verbatim>\<open>VirtualModemSimulator\<close>; a \<open>virtual_modem\<close> holds the functions of
  that class, and access to the environment that is part of the modem's state.
\<close>

record 'm virtual_modem =
  vm_env :: "'m \<Rightarrow> env"
  vm_put_env :: "env \<Rightarrow> 'm \<Rightarrow> 'm"
  IsWaitingSmsPdu :: "'m \<Rightarrow> bool"
  DispatchCommand :: "nat \<Rightarrow> string \<Rightarrow> 'm \<Rightarrow> 'm result"
  OnFirstClientConnected :: "'m \<Rightarrow> 'm"

definition on_env :: "'m virtual_modem \<Rightarrow> (env \<Rightarrow> env) \<Rightarrow> 'm \<Rightarrow> 'm" where
  "on_env vm f m = vm_put_env vm (f (vm_env vm m)) m"

subsection \<open>Splitting into commands\<close>

definition kMaxCommandLength :: nat where "kMaxCommandLength = 4096"

text \<open>\<^verbatim>\<open>StrReplaceAll({{"\\n", "\\r"}})\<close>.\<close>

definition newlines_to_cr :: "string \<Rightarrow> string" where
  "newlines_to_cr = map (\<lambda>c. if c = CHR 0x0A then CHR 0x0D else c)"

text \<open>
  The loop of \<^verbatim>\<open>ReadCommand\<close>: commands end with a carriage return, or with control-Z while the modem
  waits for a message. The result is the incomplete command at the end and the new state.
\<close>

function dispatch_lines ::
  "('m \<Rightarrow> bool) \<Rightarrow> (string \<Rightarrow> 'm \<Rightarrow> 'm result) \<Rightarrow> string \<Rightarrow> 'm \<Rightarrow> (string \<times> 'm) result"
where
  "dispatch_lines waiting dispatch commands m =
     (case find_char (if waiting m then CHR 0x1A else CHR 0x0D) commands of
        None \<Rightarrow> Ok (commands, m)
      | Some r_pos \<Rightarrow>
          bind_result (if take r_pos commands = [] then Ok m else dispatch (take r_pos commands) m)
            (dispatch_lines waiting dispatch (drop (r_pos + 1) commands)))"
  by pat_completeness auto
termination
proof (relation "measure (\<lambda>(_, _, commands, _). length commands)")
  fix waiting :: "'m \<Rightarrow> bool" and dispatch :: "string \<Rightarrow> 'm \<Rightarrow> 'm result" and commands m r_pos x
  assume "find_char (if waiting m then CHR 0x1A else CHR 0x0D) commands = Some r_pos"
  then have "r_pos < length commands" by (rule find_char_lt)
  then show "((waiting, dispatch, drop (r_pos + 1) commands, x), waiting, dispatch, commands, m)
      \<in> measure (\<lambda>(_, _, commands, _). length commands)"
    by simp
qed simp

declare dispatch_lines.simps [simp del]

subsection \<open>Reading from a client\<close>

text \<open>
  What \<^verbatim>\<open>Read\<close> gives: at least one byte, or an error or the end of the stream, with the value of
  \<^verbatim>\<open>errno == EAGAIN\<close>.
\<close>

datatype read_result = Read_Bytes string | Read_Failed bool

definition update_client :: "nat \<Rightarrow> (client \<Rightarrow> client) \<Rightarrow> env \<Rightarrow> env" where
  "update_client c f e = e\<lparr>objs := (objs e)(c := map_option f (objs e c))\<rparr>"

definition set_incomplete :: "nat \<Rightarrow> string \<Rightarrow> env \<Rightarrow> env" where
  "set_incomplete c s = update_client c (\<lambda>cl. cl\<lparr>incomplete_command := s\<rparr>)"

text \<open>Closing the descriptors of a client and erasing it from the vector of its type.\<close>

definition drop_client :: "nat \<Rightarrow> ClientType \<Rightarrow> env \<Rightarrow> env" where
  "drop_client c t e =
     (let e = update_client c (\<lambda>cl. cl\<lparr>fd_open := False\<rparr>) e
      in case t of REMOTE \<Rightarrow> e\<lparr>remote_clients := remove1 c (remote_clients e)\<rparr>
                 | RIL \<Rightarrow> e\<lparr>clients := remove1 c (clients e)\<rparr>)"

text \<open>
  The buffer is appended as a C string: up to a NUL byte, and beyond its end when it is full and has
  none.
\<close>

definition ReadCommand :: "'m virtual_modem \<Rightarrow> nat \<Rightarrow> read_result \<Rightarrow> 'm \<Rightarrow> 'm result" where
  "ReadCommand vm c r m =
     (case objs (vm_env vm m) c of
        None \<Rightarrow> Ok m
      | Some cl \<Rightarrow>
          (case r of
             Read_Failed again \<Rightarrow>
               if again \<and> client_type cl = REMOTE \<and> first_read_command cl then Ok m
               else Ok (on_env vm (drop_client c (client_type cl)) m)
           | Read_Bytes buffer \<Rightarrow>
               if kMaxCommandLength \<le> length buffer \<and> CHR 0x00 \<notin> set buffer then Err Undefined_Behaviour
               else
                 let commands = newlines_to_cr (takeWhile (\<lambda>x. x \<noteq> CHR 0x00) (incomplete_command cl) @
                                                takeWhile (\<lambda>x. x \<noteq> CHR 0x00) buffer)
                 in bind_result (dispatch_lines (IsWaitingSmsPdu vm) (DispatchCommand vm c) commands
                                   (on_env vm (set_incomplete c []) m))
                      (\<lambda>(rest, m). Ok (on_env vm (set_incomplete c rest) m))))"

subsection \<open>Accepting clients\<close>

definition AcceptIncomingConnection :: "'m virtual_modem \<Rightarrow> 'm \<Rightarrow> 'm" where
  "AcceptIncomingConnection vm m =
     (let m = on_env vm (\<lambda>e. e\<lparr>next_id := next_id e + 1, objs := (objs e)(next_id e \<mapsto> new_client RIL),
                clients := clients e @ [next_id e]\<rparr>) m
      in if length (clients (vm_env vm m)) = 1 then OnFirstClientConnected vm m else m)"

text \<open>\<^verbatim>\<open>SetRemoteClient(fd, true)\<close>: the first command is read before the client is in the vector.\<close>

definition SetRemoteClient_accepted :: "'m virtual_modem \<Rightarrow> read_result \<Rightarrow> 'm \<Rightarrow> (nat \<times> 'm) result" where
  "SetRemoteClient_accepted vm r m =
     (let c = next_id (vm_env vm m);
          m = on_env vm (\<lambda>e. e\<lparr>next_id := next_id e + 1,
                objs := (objs e)(c \<mapsto> (new_client REMOTE)\<lparr>first_read_command := True\<rparr>)\<rparr>) m
      in bind_result (ReadCommand vm c r m) (\<lambda>m.
           let m = (if is_open c (vm_env vm m)
                    then on_env vm (\<lambda>e. (update_client c (\<lambda>cl. cl\<lparr>first_read_command := False\<rparr>) e)
                           \<lparr>remote_clients := remote_clients e @ [c]\<rparr>) m
                    else m)
           in Ok (c, on_env vm trigger m)))"

definition removeInvalidClients :: "env \<Rightarrow> nat list \<Rightarrow> nat list" where
  "removeInvalidClients e cs = filter (\<lambda>c. case objs e c of None \<Rightarrow> False | Some cl \<Rightarrow> is_valid cl) cs"

subsection \<open>The event loop\<close>

text \<open>
  What \<^verbatim>\<open>Select\<close> reports: whether a connection is waiting (and is open once accepted), whether the pipe
  can be read, and what a read from each ready client will give.
\<close>

record select_result =
  server_ready :: "bool option"
  pipe_ready :: bool
  readable :: "nat \<Rightarrow> read_result option"

text \<open>Two characters are read over a buffer of two spaces.\<close>

definition read_pipe :: "env \<Rightarrow> string \<times> env" where
  "read_pipe e = (take 2 (take 2 (pipe e) @ ''  ''), e\<lparr>pipe := drop 2 (pipe e)\<rparr>)"

text \<open>
  A range-based \<^verbatim>\<open>for\<close> over a vector of clients whose body reads from the ready ones. When the body
  erases from the vector or appends to it, the iterators of the loop are invalid and going on is
  undefined.
\<close>

fun read_clients ::
  "'m virtual_modem \<Rightarrow> select_result \<Rightarrow> (env \<Rightarrow> nat list) \<Rightarrow> nat list \<Rightarrow> 'm \<Rightarrow> 'm result"
where
  "read_clients vm sel vector [] m = Ok m"
| "read_clients vm sel vector (c # cs) m =
     (case readable sel c of
        None \<Rightarrow> read_clients vm sel vector cs m
      | Some r \<Rightarrow>
          bind_result (ReadCommand vm c r m) (\<lambda>m'.
            if vector (vm_env vm m') = vector (vm_env vm m) then read_clients vm sel vector cs m'
            else Err Undefined_Behaviour))"

definition ready_clients :: "'m virtual_modem \<Rightarrow> select_result \<Rightarrow> 'm \<Rightarrow> 'm result" where
  "ready_clients vm sel m =
     bind_result (read_clients vm sel clients (clients (vm_env vm m)) m) (\<lambda>m.
       read_clients vm sel remote_clients (remote_clients (vm_env vm m)) m)"

text \<open>One iteration; the flag says whether the loop is left.\<close>

definition monitor_iteration :: "'m virtual_modem \<Rightarrow> select_result \<Rightarrow> 'm \<Rightarrow> (bool \<times> 'm) result" where
  "monitor_iteration vm sel m =
     (let m = (if server_ready sel = Some True then AcceptIncomingConnection vm m else m);
          continue = (\<lambda>m. bind_result (ready_clients vm sel m) (\<lambda>m. Ok (False, m)))
      in if pipe_ready sel
         then let (buf, e) = read_pipe (vm_env vm m); m = vm_put_env vm e m
              in if buf = ''KO'' then Ok (True, m)
                 else continue (on_env vm (\<lambda>e. e\<lparr>clients := removeInvalidClients e (clients e),
                                                 remote_clients := removeInvalidClients e (remote_clients e)\<rparr>) m)
         else continue m)"

text \<open>The loop over the results of \<^verbatim>\<open>Select\<close>; a failed \<^verbatim>\<open>Select\<close> (\<^const>\<open>None\<close>) leaves it.\<close>

fun MonitorLoop :: "'m virtual_modem \<Rightarrow> select_result option list \<Rightarrow> 'm \<Rightarrow> (bool \<times> 'm) result" where
  "MonitorLoop vm [] m = Ok (False, m)"
| "MonitorLoop vm (None # sels) m = Ok (True, m)"
| "MonitorLoop vm (Some sel # sels) m =
     bind_result (monitor_iteration vm sel m) (\<lambda>(leave, m). if leave then Ok (True, m) else MonitorLoop vm sels m)"

text \<open>The destructor asks the loop to stop; \<^verbatim>\<open>sizeof("KO")\<close> counts the terminating NUL.\<close>

definition request_exit :: "env \<Rightarrow> env" where
  "request_exit e = e\<lparr>pipe := pipe e @ ''KO'' @ [CHR 0x00]\<rparr>"

subsection \<open>Commands do not depend on how the input is cut\<close>

lemma find_char_append_left: "find_char c a = Some i \<Longrightarrow> find_char c (a @ b) = Some i"
  by (induction a arbitrary: i) auto

lemma bind_result_assoc: "bind_result (bind_result r f) g = bind_result r (\<lambda>x. bind_result (f x) g)"
  by (cases r) simp_all

lemma bind_result_cong: "(\<And>x. r = Inr x \<Longrightarrow> f x = g x) \<Longrightarrow> bind_result r f = bind_result r g"
  by (cases r) simp_all

lemma dispatch_lines_append:
  "dispatch_lines w d (a @ b) m = bind_result (dispatch_lines w d a m) (\<lambda>(rest, m). dispatch_lines w d (rest @ b) m)"
proof (induction w d a m rule: dispatch_lines.induct)
  case (1 w d a m)
  show ?case
  proof (cases "find_char (if w m then CHR 0x1A else CHR 0x0D) a")
    case None
    then show ?thesis by (simp add: dispatch_lines.simps [of w d a] del: find_char_None)
  next
    case (Some r)
    then have r: "r < length a" by (rule find_char_lt)
    have "dispatch_lines w d (a @ b) m =
        bind_result (if take r a = [] then Ok m else d (take r a) m) (dispatch_lines w d (drop (r + 1) a @ b))"
      using Some r by (subst dispatch_lines.simps) (simp add: find_char_append_left)
    also have "\<dots> = bind_result (if take r a = [] then Ok m else d (take r a) m)
        (\<lambda>m. bind_result (dispatch_lines w d (drop (r + 1) a) m) (\<lambda>(rest, m). dispatch_lines w d (rest @ b) m))"
      using 1 [OF Some] by (intro bind_result_cong) simp
    finally show ?thesis using Some by (subst dispatch_lines.simps) (simp add: bind_result_assoc)
  qed
qed

text \<open>What is left over has no complete command.\<close>

lemma dispatch_lines_rest:
  "dispatch_lines w d a m = Ok (rest, m') \<Longrightarrow> dispatch_lines w d rest m' = Ok (rest, m') \<and> set rest \<subseteq> set a"
proof (induction w d a m arbitrary: rest m' rule: dispatch_lines.induct)
  case (1 w d a m)
  show ?case
  proof (cases "find_char (if w m then CHR 0x1A else CHR 0x0D) a")
    case None
    then have "rest = a" "m' = m" using 1(2) by (simp_all add: dispatch_lines.simps [of w d a] del: find_char_None)
    then show ?thesis using None by (simp add: dispatch_lines.simps [of w d a] del: find_char_None)
  next
    case (Some r)
    then obtain m1 where "(if take r a = [] then Ok m else d (take r a) m) = Ok m1"
        "dispatch_lines w d (drop (r + 1) a) m1 = Ok (rest, m')"
      using 1(2) by (auto simp: dispatch_lines.simps [of w d a] bind_result_Inr_iff)
    then show ?thesis using 1(1) [OF Some, of m1 rest m'] set_drop_subset [of "r + 1" a] by blast
  qed
qed

definition incomplete_of :: "nat \<Rightarrow> env \<Rightarrow> string option" where
  "incomplete_of c e = map_option incomplete_command (objs e c)"

lemma incomplete_of_set [simp]:
  "incomplete_of c (set_incomplete c s e) = map_option (\<lambda>_. s) (incomplete_of c e)"
  by (cases "objs e c") (simp_all add: incomplete_of_def set_incomplete_def update_client_def)

lemma set_incomplete_twice [simp]: "set_incomplete c s (set_incomplete c r e) = set_incomplete c s e"
  by (cases "objs e c") (simp_all add: set_incomplete_def update_client_def)

lemma set_incomplete_same: "incomplete_of c e = Some s \<Longrightarrow> set_incomplete c s e = e"
  by (cases "objs e c") (auto simp: incomplete_of_def set_incomplete_def update_client_def intro!: env.equality)

lemma newlines_to_cr_append [simp]: "newlines_to_cr (a @ b) = newlines_to_cr a @ newlines_to_cr b"
  by (simp add: newlines_to_cr_def)

lemma newlines_to_cr_id: "CHR 0x0A \<notin> set s \<Longrightarrow> newlines_to_cr s = s"
  unfolding newlines_to_cr_def by (rule map_idI) auto

lemma no_newline_left: "CHR 0x0A \<notin> set (newlines_to_cr s)"
  by (auto simp: newlines_to_cr_def)

lemma takeWhile_no_nul: "CHR 0x00 \<notin> set s \<Longrightarrow> takeWhile (\<lambda>x. x \<noteq> CHR 0x00) s = s"
  by (induction s) auto

text \<open>Reading the given pieces one after the other.\<close>

fun read_chunks :: "'m virtual_modem \<Rightarrow> nat \<Rightarrow> string list \<Rightarrow> 'm \<Rightarrow> 'm result" where
  "read_chunks vm c [] m = Ok m"
| "read_chunks vm c (b # bs) m = bind_result (ReadCommand vm c (Read_Bytes b) m) (read_chunks vm c bs)"

text \<open>An event of the pipe only, and what the pipe holds after \<open>k\<close> triggers.\<close>

definition pipe_event :: "select_result option" where
  "pipe_event = Some \<lparr>server_ready = None, pipe_ready = True, readable = (\<lambda>_. None)\<rparr>"

definition triggers :: "nat \<Rightarrow> string" where
  "triggers k = concat (replicate k (''OK'' @ [CHR 0x00]))"

lemma pipe_after_triggers: "pipe ((trigger ^^ k) e) = pipe e @ triggers k"
  by (induction k) (simp_all add: triggers_def trigger_def flip: replicate_append_same)

lemma read_clients_none [simp]: "(\<And>c. readable sel c = None) \<Longrightarrow> read_clients vm sel v cs m = Ok m"
  by (induction cs) simp_all

text \<open>
  The interface of the monitor to the modem: the environment is a component of the modem's state, and
  dispatching a command for a client keeps the incomplete command of the client.
\<close>

locale modem_client =
  fixes vm :: "'m virtual_modem"
  assumes env_put [simp]: "vm_env vm (vm_put_env vm e m) = e"
    and put_put [simp]: "vm_put_env vm e (vm_put_env vm e' m) = vm_put_env vm e m"
    and put_env [simp]: "vm_put_env vm (vm_env vm m) m = m"
    and dispatch_keeps: "DispatchCommand vm c s m = Ok m' \<Longrightarrow> c < next_id (vm_env vm m) \<Longrightarrow>
      c < next_id (vm_env vm m') \<and> incomplete_of c (vm_env vm m') = incomplete_of c (vm_env vm m)"
begin

abbreviation lines_of :: "nat \<Rightarrow> string \<Rightarrow> 'm \<Rightarrow> (string \<times> 'm) result" where
  "lines_of c \<equiv> dispatch_lines (IsWaitingSmsPdu vm) (DispatchCommand vm c)"

lemma lines_of_keeps:
  "lines_of c s m = Ok (rest, m') \<Longrightarrow> c < next_id (vm_env vm m) \<Longrightarrow>
     c < next_id (vm_env vm m') \<and> incomplete_of c (vm_env vm m') = incomplete_of c (vm_env vm m)"
proof (induction "IsWaitingSmsPdu vm" "DispatchCommand vm c" s m rule: dispatch_lines.induct)
  case (1 s m)
  show ?case
  proof (cases "find_char (if IsWaitingSmsPdu vm m then CHR 0x1A else CHR 0x0D) s")
    case None
    then show ?thesis using 1(2,3) by (simp add: dispatch_lines.simps [of _ _ s] del: find_char_None)
  next
    case (Some r)
    then obtain m1 where m1: "(if take r s = [] then Ok m else DispatchCommand vm c (take r s) m) = Ok m1"
        "lines_of c (drop (r + 1) s) m1 = Ok (rest, m')"
      using 1(2) by (auto simp: dispatch_lines.simps [of _ _ s] bind_result_Inr_iff)
    then have "c < next_id (vm_env vm m1) \<and> incomplete_of c (vm_env vm m1) = incomplete_of c (vm_env vm m)"
      using 1(3) dispatch_keeps by (auto split: if_splits)
    then show ?thesis using 1(1) [OF Some m1] by simp
  qed
qed

definition clear :: "nat \<Rightarrow> 'm \<Rightarrow> 'm" where
  "clear c = on_env vm (set_incomplete c [])"

lemma ReadCommand_bytes:
  assumes "incomplete_of c (vm_env vm m) = Some i" and "CHR 0x00 \<notin> set i" and "CHR 0x00 \<notin> set b"
    and "length b < kMaxCommandLength"
  shows "ReadCommand vm c (Read_Bytes b) m =
    bind_result (lines_of c (newlines_to_cr (i @ b)) (clear c m)) (\<lambda>(rest, m). Ok (on_env vm (set_incomplete c rest) m))"
  using assms by (auto simp: ReadCommand_def incomplete_of_def clear_def takeWhile_no_nul)

lemma read_chunks_lines:
  assumes "incomplete_of c (vm_env vm m) = Some i" and "c < next_id (vm_env vm m)"
    and "lines_of c i (clear c m) = Ok (i, clear c m)" and "CHR 0x0A \<notin> set i" and "CHR 0x00 \<notin> set i"
    and "\<forall>b\<in>set bs. CHR 0x00 \<notin> set b \<and> length b < kMaxCommandLength"
  shows "read_chunks vm c bs m =
    bind_result (lines_of c (newlines_to_cr (i @ concat bs)) (clear c m)) (\<lambda>(rest, m). Ok (on_env vm (set_incomplete c rest) m))"
  using assms
proof (induction bs arbitrary: m i)
  case Nil
  then have "on_env vm (set_incomplete c i) (clear c m) = m"
    by (simp add: clear_def on_env_def set_incomplete_same)
  then show ?case using Nil by (simp add: newlines_to_cr_id)
next
  case (Cons b bs)
  let ?n = "newlines_to_cr (i @ b)"
  have all: "lines_of c (newlines_to_cr (i @ concat (b # bs))) (clear c m) =
      bind_result (lines_of c ?n (clear c m)) (\<lambda>(rest, m). lines_of c (rest @ newlines_to_cr (concat bs)) m)"
    using dispatch_lines_append [of _ _ ?n "newlines_to_cr (concat bs)" "clear c m"] by simp
  have first: "ReadCommand vm c (Read_Bytes b) m =
      bind_result (lines_of c ?n (clear c m)) (\<lambda>(rest, m). Ok (on_env vm (set_incomplete c rest) m))"
    using Cons.prems ReadCommand_bytes [of c m i b] by simp
  show ?case
  proof (cases "lines_of c ?n (clear c m)")
    case (Inl err)
    then show ?thesis unfolding all read_chunks.simps first by simp
  next
    case (Inr p)
    obtain rest m1 where p: "lines_of c ?n (clear c m) = Ok (rest, m1)" using Inr by (cases p) simp
    let ?m = "on_env vm (set_incomplete c rest) m1"
    have "c < next_id (vm_env vm (clear c m))" "incomplete_of c (vm_env vm (clear c m)) = Some []"
      using Cons.prems(1,2) by (simp_all add: clear_def on_env_def set_incomplete_def update_client_def incomplete_of_def)
        (auto simp: fun_upd_def)
    then have m1: "c < next_id (vm_env vm m1)" "incomplete_of c (vm_env vm m1) = Some []"
      using lines_of_keeps [OF p] by simp_all
    then have "clear c ?m = m1" by (simp add: clear_def on_env_def set_incomplete_same)
    moreover have "lines_of c rest m1 = Ok (rest, m1)" "set rest \<subseteq> set ?n"
      using dispatch_lines_rest [OF p] by simp_all
    moreover have "CHR 0x0A \<notin> set ?n" "CHR 0x00 \<notin> set ?n"
      using no_newline_left [of "i @ b"] Cons.prems(5,6) by (auto simp: newlines_to_cr_def)
    moreover have "incomplete_of c (vm_env vm ?m) = Some rest" "c < next_id (vm_env vm ?m)"
      using m1 by (simp_all add: on_env_def) (simp add: set_incomplete_def update_client_def)
    ultimately have "read_chunks vm c bs ?m =
        bind_result (lines_of c (newlines_to_cr (rest @ concat bs)) m1) (\<lambda>(rest, m). Ok (on_env vm (set_incomplete c rest) m))"
      using Cons.IH [of ?m rest] Cons.prems(6) by auto
    moreover have "newlines_to_cr rest = rest"
      using \<open>set rest \<subseteq> set ?n\<close> \<open>CHR 0x0A \<notin> set ?n\<close> by (intro newlines_to_cr_id) blast
    ultimately show ?thesis unfolding all read_chunks.simps first p by simp
  qed
qed

lemma pipe_iteration:
  assumes "pipe (vm_env vm m) = p"
  shows "\<exists>m'. monitor_iteration vm (the pipe_event) m = Ok (take 2 (take 2 p @ ''  '') = ''KO'', m') \<and>
    pipe (vm_env vm m') = drop 2 p"
  using assms
  by (simp add: monitor_iteration_def pipe_event_def read_pipe_def ready_clients_def on_env_def Let_def)

lemma MonitorLoop_Suc:
  assumes "pipe (vm_env vm m) = p"
  shows "\<exists>m'. pipe (vm_env vm m') = drop 2 p \<and>
    (\<forall>n. MonitorLoop vm (replicate (Suc n) pipe_event) m =
      (if take 2 (take 2 p @ ''  '') = ''KO'' then Ok (True, m') else MonitorLoop vm (replicate n pipe_event) m'))"
proof -
  obtain sel where sel: "pipe_event = Some sel" by (simp add: pipe_event_def)
  show ?thesis using pipe_iteration [OF assms] by (auto simp: sel)
qed

lemma MonitorLoop_empty_pipe:
  "pipe (vm_env vm m) = [] \<Longrightarrow> \<exists>m'. MonitorLoop vm (replicate n pipe_event) m = Ok (False, m')"
proof (induction n arbitrary: m)
  case (Suc n)
  obtain m1 where "pipe (vm_env vm m1) = []"
      "MonitorLoop vm (replicate (Suc n) pipe_event) m = MonitorLoop vm (replicate n pipe_event) m1"
    using MonitorLoop_Suc [OF Suc.prems] by auto
  then show ?case using Suc.IH by metis
qed simp

text \<open>Reads of two characters other than the request.\<close>

lemma MonitorLoop_skips:
  assumes "pipe (vm_env vm m) = concat bs @ q" and "\<forall>b\<in>set bs. length b = 2 \<and> b \<noteq> ''KO''"
  shows "\<exists>m'. pipe (vm_env vm m') = q \<and>
    (\<forall>n. (\<exists>m''. n \<le> length bs \<longrightarrow> MonitorLoop vm (replicate n pipe_event) m = Ok (False, m'')) \<and>
      MonitorLoop vm (replicate (length bs + n) pipe_event) m = MonitorLoop vm (replicate n pipe_event) m')"
  using assms
proof (induction bs arbitrary: m)
  case (Cons b bs)
  then have "take 2 (take 2 (concat (b # bs) @ q) @ ''  '') = b" "drop 2 (concat (b # bs) @ q) = concat bs @ q" by simp_all
  then obtain m1 where m1: "pipe (vm_env vm m1) = concat bs @ q"
      "\<And>n. MonitorLoop vm (replicate (Suc n) pipe_event) m = MonitorLoop vm (replicate n pipe_event) m1"
    using MonitorLoop_Suc [OF Cons.prems(1)] Cons.prems(2) by auto
  then obtain m' where m': "pipe (vm_env vm m') = q"
      "\<And>n. (\<exists>m''. n \<le> length bs \<longrightarrow> MonitorLoop vm (replicate n pipe_event) m1 = Ok (False, m''))"
      "\<And>n. MonitorLoop vm (replicate (length bs + n) pipe_event) m1 = MonitorLoop vm (replicate n pipe_event) m'"
    using Cons.IH [OF m1(1)] Cons.prems(2) by (auto simp del: replicate.simps)
  have "\<exists>m''. n \<le> length (b # bs) \<longrightarrow> MonitorLoop vm (replicate n pipe_event) m = Ok (False, m'')" for n
    using m1(2) m'(2) [of "n - 1"] by (cases n) (auto simp del: replicate.simps simp: replicate_0)
  then show ?case using m'(1,3) m1(2) by (intro exI [of _ m']) (simp del: replicate.simps)
qed auto

lemma exit_seen:
  "pipe (vm_env vm m) = triggers k @ ''KO'' @ [CHR 0x00] \<Longrightarrow>
     \<exists>m'. MonitorLoop vm (replicate n pipe_event) m = Ok (even k \<and> 3 * k div 2 < n, m')"
proof (induction k arbitrary: m n rule: nat_less_induct)
  case (1 k)
  consider "k = 0" | "k = 1" | j where "k = j + 2" by (metis One_nat_def add_2_eq_Suc' not0_implies_Suc)
  then show ?case
  proof cases
    assume "k = 0"
    then show ?thesis using MonitorLoop_Suc [OF 1(2)] by (cases n) (auto simp: triggers_def simp del: replicate.simps simp: replicate_0)
  next
    assume k: "k = 1"
    let ?bs = "[''OK'', [CHR 0x00, CHR ''K''], [CHR ''O'', CHR 0x00]]"
    have "pipe (vm_env vm m) = concat ?bs @ []" using 1(2) k by (simp add: triggers_def)
    then obtain m' where m': "pipe (vm_env vm m') = []"
        "\<And>n. (\<exists>m''. n \<le> length ?bs \<longrightarrow> MonitorLoop vm (replicate n pipe_event) m = Ok (False, m''))"
        "\<And>n. MonitorLoop vm (replicate (length ?bs + n) pipe_event) m = MonitorLoop vm (replicate n pipe_event) m'"
      using MonitorLoop_skips [of m ?bs "[]"] by (auto simp del: replicate.simps)
    show ?thesis
    proof (cases "n \<le> 3")
      case True
      then show ?thesis using m'(2) [of n] k by auto
    next
      case False
      then obtain n' where "n = length ?bs + n'" using le_Suc_ex [of 3 n] by auto
      then show ?thesis using m'(3) [of n'] MonitorLoop_empty_pipe [OF m'(1), of n'] k by (simp del: replicate.simps)
    qed
  next
    fix j assume k: "k = j + 2"
    let ?bs = "[''OK'', [CHR 0x00, CHR ''O''], [CHR ''K'', CHR 0x00]]"
    have "pipe (vm_env vm m) = concat ?bs @ triggers j @ ''KO'' @ [CHR 0x00]" using 1(2) k by (simp add: triggers_def)
    then obtain m' where m': "pipe (vm_env vm m') = triggers j @ ''KO'' @ [CHR 0x00]"
        "\<And>n. (\<exists>m''. n \<le> length ?bs \<longrightarrow> MonitorLoop vm (replicate n pipe_event) m = Ok (False, m''))"
        "\<And>n. MonitorLoop vm (replicate (length ?bs + n) pipe_event) m = MonitorLoop vm (replicate n pipe_event) m'"
      using MonitorLoop_skips [of m ?bs] by (auto simp del: replicate.simps)
    show ?thesis
    proof (cases "n \<le> 3")
      case True
      then show ?thesis using m'(2) [of n] k by auto
    next
      case False
      then obtain n' where "n = length ?bs + n'" using le_Suc_ex [of 3 n] by auto
      moreover have "(6 + 3 * j) div 2 < Suc (Suc (Suc n')) \<longleftrightarrow> 3 * j div 2 < n'" by linarith
      ultimately show ?thesis using m'(3) [of n'] 1(1) [rule_format, OF _ m'(1), of n'] k by (simp del: replicate.simps)
    qed
  qed
qed

end

end
