(* ===== verification/Call_Service.thy ===== *)
theory Call_Service
  imports Modem_Service
begin

section \<open>Calls\<close>

text \<open>
  \<^verbatim>\<open>call_service.h\<close> and \<^verbatim>\<open>call_service.cpp\<close>: the table of current calls, the commands of the RIL
  (\<^verbatim>\<open>ATD\<close>, \<^verbatim>\<open>ATA\<close>, \<^verbatim>\<open>ATH\<close>, \<^verbatim>\<open>AT+CLCC\<close>, \<^verbatim>\<open>AT+CHLD\<close>, \<^verbatim>\<open>AT+CMUT\<close>, ...) and the messages
  \<^verbatim>\<open>AT+REMOTECALL\<close> that two simulators exchange. What a handler asks the network and the SIM service
  (registration state, radio state, fixed dialling) is an argument.
\<close>

subsection \<open>The state of a call\<close>

datatype CallState =
    CALL_STATE_ACTIVE
  | CALL_STATE_HELD
  | CALL_STATE_DIALING
  | CALL_STATE_ALERTING
  | CALL_STATE_INCOMING
  | CALL_STATE_WAITING
  | CALL_STATE_HANGUP

primrec call_state_int :: "CallState \<Rightarrow> int" where
  "call_state_int CALL_STATE_ACTIVE = 0"
| "call_state_int CALL_STATE_HELD = 1"
| "call_state_int CALL_STATE_DIALING = 2"
| "call_state_int CALL_STATE_ALERTING = 3"
| "call_state_int CALL_STATE_INCOMING = 4"
| "call_state_int CALL_STATE_WAITING = 5"
| "call_state_int CALL_STATE_HANGUP = 6"

text \<open>
  The constructor leaves \<^verbatim>\<open>is_remote_call\<close> uninitialised: \<^const>\<open>None\<close> is the indeterminate value.
\<close>

record CallStatus =
  call_state :: CallState
  is_mobile_terminated :: bool
  is_international :: bool
  is_voice_mode :: bool
  is_multi_party :: bool
  is_remote_call :: "bool option"
  remote_client :: "nat option"
  timeout_serial :: "int option"
  number :: string
  can_present_number :: bool

definition new_call :: "string \<Rightarrow> CallStatus" where
  "new_call n = \<lparr>call_state = CALL_STATE_INCOMING, is_mobile_terminated = True, is_international = False,
     is_voice_mode = True, is_multi_party = False, is_remote_call = None, remote_client = None,
     timeout_serial = None, number = n, can_present_number = True\<rparr>"

definition isCallBackground :: "CallStatus \<Rightarrow> bool" where
  "isCallBackground call \<longleftrightarrow> call_state call = CALL_STATE_HELD"

definition isCallActive :: "CallStatus \<Rightarrow> bool" where
  "isCallActive call \<longleftrightarrow> call_state call = CALL_STATE_ACTIVE"

definition isCallDialing :: "CallStatus \<Rightarrow> bool" where
  "isCallDialing call \<longleftrightarrow> call_state call = CALL_STATE_DIALING"

definition isCallIncoming :: "CallStatus \<Rightarrow> bool" where
  "isCallIncoming call \<longleftrightarrow> call_state call = CALL_STATE_INCOMING"

definition isCallWaiting :: "CallStatus \<Rightarrow> bool" where
  "isCallWaiting call \<longleftrightarrow> call_state call = CALL_STATE_WAITING"

definition SetCallBackground :: "CallStatus \<Rightarrow> CallStatus" where
  "SetCallBackground call =
     (if call_state call = CALL_STATE_ACTIVE then call\<lparr>call_state := CALL_STATE_HELD\<rparr> else call)"

definition SetCallActive :: "CallStatus \<Rightarrow> CallStatus" where
  "SetCallActive call =
     (if call_state call = CALL_STATE_INCOMING \<or> call_state call = CALL_STATE_WAITING \<or>
         call_state call = CALL_STATE_DIALING \<or> call_state call = CALL_STATE_HELD
      then call\<lparr>call_state := CALL_STATE_ACTIVE\<rparr> else call)"

record call_service =
  active_calls :: "CallStatus int_map"
  in_emergency_mode :: bool
  mute_on :: bool

definition init_call_service :: "env \<Rightarrow> call_service" where
  "init_call_service e = \<lparr>active_calls = [], in_emergency_mode = emergency_mode (nvram_config e),
     mute_on = False\<rparr>"

subsection \<open>Free call indices\<close>

function free_index_from :: "'v int_map \<Rightarrow> int \<Rightarrow> int" where
  "free_index_from m index = (if map_find m index = None then index else free_index_from m (index + 1))"
  by pat_completeness auto
termination
proof (relation "measure (\<lambda>(m, i). card {k \<in> fst ` set m. i \<le> k})")
  fix m :: "'v int_map" and i :: int
  assume "map_find m i \<noteq> None"
  then have "i \<in> {k \<in> fst ` set m. i \<le> k}" by (simp add: map_find_None_iff)
  moreover have "i \<notin> {k \<in> fst ` set m. i + 1 \<le> k}" by simp
  ultimately have "{k \<in> fst ` set m. i + 1 \<le> k} \<subset> {k \<in> fst ` set m. i \<le> k}" by force
  then have "card {k \<in> fst ` set m. i + 1 \<le> k} < card {k \<in> fst ` set m. i \<le> k}"
    by (intro psubset_card_mono) auto
  then show "((m, i + 1), m, i) \<in> measure (\<lambda>(m, i). card {k \<in> fst ` set m. i \<le> k})" by simp
qed simp

declare free_index_from.simps [simp del]

definition FindFreeCallIndex :: "call_service \<Rightarrow> int" where
  "FindFreeCallIndex s = free_index_from (active_calls s) 1"

subsection \<open>Loops over the calls\<close>

text \<open>
  A loop over \<^verbatim>\<open>active_calls_\<close> in key order, whose body updates the call it visits or erases it
  (\<^const>\<open>None\<close>) and may send.
\<close>

fun for_calls ::
  "(CallStatus \<Rightarrow> env \<Rightarrow> CallStatus option \<times> env) \<Rightarrow> CallStatus int_map \<Rightarrow> env \<Rightarrow> CallStatus int_map \<times> env"
where
  "for_calls body [] e = ([], e)"
| "for_calls body ((index, call) # calls) e =
     (let (call', e') = body call e;
          (calls', e'') = for_calls body calls e'
      in (case call' of None \<Rightarrow> calls' | Some c \<Rightarrow> (index, c) # calls', e''))"

definition loop_calls ::
  "(CallStatus \<Rightarrow> env \<Rightarrow> CallStatus option \<times> env) \<Rightarrow> call_service \<times> env \<Rightarrow> call_service \<times> env"
where
  "loop_calls body se =
     (let (s, e) = se; (calls, e') = for_calls body (active_calls s) e
      in (s\<lparr>active_calls := calls\<rparr>, e'))"

subsection \<open>Timers\<close>

definition SimulatePendingCallsAnswered :: "call_service \<Rightarrow> call_service" where
  "SimulatePendingCallsAnswered s =
     s\<lparr>active_calls := map_values (\<lambda>call. if isCallDialing call then SetCallActive call else call)
        (active_calls s)\<rparr>"

definition CallStateUpdate :: "env \<Rightarrow> env" where
  "CallStateUpdate e = SendUnsolicitedCommand ''RING'' e"

definition TimerWaitingRemoteCallResponse ::
  "int \<Rightarrow> string \<Rightarrow> call_service \<times> env \<Rightarrow> call_service \<times> env" where
  "TimerWaitingRemoteCallResponse index num se =
     (let (s, e) = se in
      case map_find (active_calls s) index of
        None \<Rightarrow> (s, e)
      | Some call \<Rightarrow>
          if number call = num
          then (s\<lparr>active_calls := map_erase index (active_calls s)\<rparr>,
                CallStateUpdate (case remote_client call of None \<Rightarrow> e | Some c \<Rightarrow> CloseRemoteConnection c e))
          else (s, e))"

subsection \<open>Dialling\<close>

text \<open>\<^verbatim>\<open>cmd->substr(1, pos - 1)\<close>; for \<open>pos = 0\<close> the length wraps around to the maximum.\<close>

definition dial_digits :: "string \<Rightarrow> nat \<Rightarrow> string result" where
  "dial_digits cmd pos = (if pos = 0 then substr_from cmd 1 else substr cmd 1 (pos - 1))"

definition dialled_number :: "string \<Rightarrow> (bool \<times> string) result" where
  "dialled_number cmd =
     (case find_last_of (CHR ''@'') cmd of
        Some pos \<Rightarrow> bind_result (dial_digits cmd pos) (\<lambda>n. Ok (True, n))
      | None \<Rightarrow>
          bind_result
            (case find_last_of (CHR ''i'') cmd of
               Some pos \<Rightarrow> dial_digits cmd pos
             | None \<Rightarrow>
                 (case find_last_of (CHR ''I'') cmd of
                    Some pos \<Rightarrow> dial_digits cmd pos
                  | None \<Rightarrow>
                      (case find_last_of (CHR '';'') cmd of
                         Some pos \<Rightarrow> dial_digits cmd pos
                       | None \<Rightarrow> substr_from cmd 1)))
            (\<lambda>n. Ok (False, n)))"

definition port_of_number :: "string \<Rightarrow> int result" where
  "port_of_number n =
     (if length n = 11 then bind_result (substr_from n 7) (stoi 10)
      else if length n = 4 then stoi 10 n
      else Ok 0)"

definition in_remote_range :: "int \<Rightarrow> bool" where
  "in_remote_range port \<longleftrightarrow> fst kRemotePortRange \<le> port \<and> port \<le> snd kRemotePortRange"

definition remote_dial_message :: "string \<Rightarrow> string" where
  "remote_dial_message local_host_port =
     ''AT+REMOTECALL=4,0,0,'' @ ''\"'' @ local_host_port @ ''\"'' @ '',129''"

definition dial_remote :: "nat \<Rightarrow> int \<Rightarrow> call_service \<times> env \<Rightarrow> (call_service \<times> env) \<times> bool" where
  "dial_remote c port se =
     (let (s, e) = se;
          remote_port = to_string port;
          e = e\<lparr>next_id := next_id e + 1\<rparr>;
          local_host_port = GetHostId e
      in if \<not> accepts_connection e remote_port
         then ((s, SendCommandResponse c kCmeErrorNoNetworkService e), False)
         else if local_host_port = remote_port
         then ((s, SendCommandResponse c kCmeErrorOperationNotAllowed e), False)
         else
           let (client_id, e) = SetRemoteClient_dialed e;
               e = SendRemoteCommand client_id ''REM0'' e;
               e = SendRemoteCommand client_id (remote_dial_message local_host_port) e;
               call_status = (new_call remote_port)\<lparr>is_remote_call := Some True,
                 is_mobile_terminated := False, call_state := CALL_STATE_DIALING,
                 remote_client := Some client_id\<rparr>;
               index = FindFreeCallIndex s;
               (serial, e) = post (TimerWaitingRemoteCallResponse_cb index (number call_status)) 60000 e;
               call_status = call_status\<lparr>timeout_serial := Some serial\<rparr>
           in ((s\<lparr>active_calls := map_set index call_status (active_calls s)\<rparr>, e), True))"

definition dial_local :: "bool \<Rightarrow> string \<Rightarrow> call_service \<times> env \<Rightarrow> call_service \<times> env" where
  "dial_local emergency_number n se =
     (let (s, e) = se;
          call_status = (new_call n)\<lparr>is_mobile_terminated := False, call_state := CALL_STATE_DIALING\<rparr>;
          index = FindFreeCallIndex s;
          s = s\<lparr>active_calls := map_set index call_status (active_calls s)\<rparr>;
          (s, e) = (if emergency_number
                    then (s\<lparr>in_emergency_mode := True\<rparr>, SendUnsolicitedCommand ''+WSOS: 1'' e)
                    else (s, e))
      in (s, post_cb SimulatePendingCallsAnswered_cb 1000 e))"

text \<open>The registration states that \<^verbatim>\<open>HandleDial\<close> tells apart.\<close>

abbreviation (input) NET_REGISTRATION_UNREGISTERED :: int where "NET_REGISTRATION_UNREGISTERED \<equiv> 0"
abbreviation (input) NET_REGISTRATION_HOME :: int where "NET_REGISTRATION_HOME \<equiv> 1"
abbreviation (input) NET_REGISTRATION_DENIED :: int where "NET_REGISTRATION_DENIED \<equiv> 3"
abbreviation (input) NET_REGISTRATION_UNKNOWN :: int where "NET_REGISTRATION_UNKNOWN \<equiv> 4"
abbreviation (input) NET_REGISTRATION_ROAMING :: int where "NET_REGISTRATION_ROAMING \<equiv> 5"
abbreviation (input) NET_REGISTRATION_EMERGENCY :: int where "NET_REGISTRATION_EMERGENCY \<equiv> 8"

definition place_call :: "nat \<Rightarrow> bool \<Rightarrow> string \<Rightarrow> int \<Rightarrow> call_service \<times> env \<Rightarrow> call_service \<times> env" where
  "place_call c emergency_number n port se =
     (let (se', go_on) = (if in_remote_range port then dial_remote c port se
                          else (dial_local emergency_number n se, True))
      in if go_on
         then let (s', e') = se'; e' = SendCommandResponse c ''OK'' e'
              in (s', e'\<lparr>steady_now := steady_now e' + 2000\<rparr>)
         else se')"

definition HandleDial ::
  "int \<Rightarrow> bool \<Rightarrow> (string \<Rightarrow> bool result) \<Rightarrow> nat \<Rightarrow> string \<Rightarrow> call_service \<times> env \<Rightarrow> (call_service \<times> env) result" where
  "HandleDial registration_state fdn_enabled is_fixed_dial c command se =
     (let (s, e) = se;
          emergency_only = (registration_state = NET_REGISTRATION_EMERGENCY)
      in if registration_state \<notin> {NET_REGISTRATION_HOME, NET_REGISTRATION_ROAMING, NET_REGISTRATION_EMERGENCY}
         then Ok (s, SendCommandResponse c kCmeErrorNoNetworkService e)
         else
           bind_result (dialled_number (SkipPrefixAT command)) (\<lambda>(emergency_number, n).
             if \<not> list_all (\<lambda>d. d \<in> set ''1234567890'') n
             then Ok (s, SendCommandResponse c kCmeErrorInCorrectParameters e)
             else if emergency_only \<and> \<not> emergency_number
             then Ok (s, SendCommandResponse c kCmeErrorNetworkNotAllowedEmergencyCallsOnly e)
             else
               bind_result (if \<not> emergency_number \<and> fdn_enabled then is_fixed_dial n else Ok True) (\<lambda>allowed.
                 if \<not> allowed then Ok (s, SendCommandResponse c kCmeErrorFixedDialNumberOnlyAllowed e)
                 else bind_result (port_of_number n) (\<lambda>port. Ok (place_call c emergency_number n port (s, e))))))"

subsection \<open>Telling the other instance\<close>

definition status_message :: "string \<Rightarrow> CallStatus \<Rightarrow> CallState \<Rightarrow> string" where
  "status_message host call state =
     ''AT+REMOTECALL='' @ to_string (call_state_int state) @ '','' @ bool_string (is_voice_mode call) @ '','' @
     bool_string (is_multi_party call) @ '','' @ ''\"'' @ host @ ''\"'' @ '','' @ bool_string (is_international call)"

text \<open>
  The condition reads \<^verbatim>\<open>is_remote_call\<close> first; where that is indeterminate there is no remote
  client (\<open>call_ok\<close> below), so its value does not matter.
\<close>

definition SendCallStatusToRemote :: "CallStatus \<Rightarrow> CallState \<Rightarrow> env \<Rightarrow> env" where
  "SendCallStatusToRemote call state e =
     (case remote_client call of
        None \<Rightarrow> e
      | Some rc \<Rightarrow>
          if is_remote_call call = Some False then e
          else let e = SendRemoteCommand rc (status_message (GetHostId e) call state) e
               in if state = CALL_STATE_HANGUP then CloseRemoteConnection rc e else e)"

definition finish :: "nat \<Rightarrow> string list \<Rightarrow> call_service \<times> env \<Rightarrow> call_service \<times> env" where
  "finish c responses se = (fst se, SendCommandResponses c responses (snd se))"

text \<open>The three things a loop body does to a call.\<close>

definition hang_up :: "CallStatus \<Rightarrow> env \<Rightarrow> CallStatus option \<times> env" where
  "hang_up call e = (None, SendCallStatusToRemote call CALL_STATE_HANGUP e)"

definition activate :: "CallStatus \<Rightarrow> env \<Rightarrow> CallStatus option \<times> env" where
  "activate call e =
     (Some (SetCallActive call), SendCallStatusToRemote (SetCallActive call) CALL_STATE_ACTIVE e)"

definition put_on_hold :: "CallStatus \<Rightarrow> env \<Rightarrow> CallStatus option \<times> env" where
  "put_on_hold call e =
     (Some (SetCallBackground call), SendCallStatusToRemote (SetCallBackground call) CALL_STATE_HELD e)"

definition HandleAcceptCall :: "nat \<Rightarrow> call_service \<times> env \<Rightarrow> call_service \<times> env" where
  "HandleAcceptCall c se =
     finish c [''OK''] (loop_calls (\<lambda>call e.
       if isCallIncoming call then activate call e
       else if isCallActive call then put_on_hold call e
       else (Some call, e)) se)"

definition HandleRejectCall :: "nat \<Rightarrow> call_service \<times> env \<Rightarrow> call_service \<times> env" where
  "HandleRejectCall c se =
     finish c [''OK''] (loop_calls (\<lambda>call e.
       if isCallIncoming call then hang_up call e else (Some call, e)) se)"

subsection \<open>Listing and controlling calls\<close>

definition clcc_line :: "int \<Rightarrow> CallStatus \<Rightarrow> string" where
  "clcc_line index call =
     ''+CLCC: '' @ to_string index @ '','' @ bool_string (is_mobile_terminated call) @ '','' @
     to_string (call_state_int (call_state call)) @ '','' @ bool_string (is_voice_mode call) @ '','' @
     bool_string (is_multi_party call) @ '','' @ number call @ '','' @
     to_string (if is_international call then 145 else 129)"

definition HandleCurrentCalls :: "nat \<Rightarrow> call_service \<times> env \<Rightarrow> call_service \<times> env" where
  "HandleCurrentCalls c se =
     finish c (map (\<lambda>(index, call). clcc_line index call) (active_calls (fst se)) @ [''OK'']) se"

text \<open>Releasing one call by its index.\<close>

definition release_one :: "int \<Rightarrow> call_service \<times> env \<Rightarrow> call_service \<times> env" where
  "release_one index se =
     (let (s, e) = se in
      case map_find (active_calls s) index of
        None \<Rightarrow> (s, e)
      | Some call \<Rightarrow> (s\<lparr>active_calls := map_erase index (active_calls s)\<rparr>,
                     SendCallStatusToRemote call CALL_STATE_HANGUP e))"

definition chld_body :: "int \<Rightarrow> CallStatus \<Rightarrow> env \<Rightarrow> CallStatus option \<times> env" where
  "chld_body n call e =
     (if n = 0 then
        (if isCallIncoming call \<or> isCallBackground call \<or> isCallWaiting call then hang_up call e
         else (Some call, e))
      else if n = 1 then
        (if isCallActive call then hang_up call e
         else if isCallBackground call \<or> isCallWaiting call then activate call e
         else (Some call, e))
      else if n = 2 then
        (if isCallActive call \<or> isCallWaiting call then put_on_hold call e
         else if isCallBackground call then activate call e
         else (Some call, e))
      else
        (if isCallBackground call then activate call e else (Some call, e)))"

definition HandleHangup :: "nat \<Rightarrow> string \<Rightarrow> call_service \<times> env \<Rightarrow> (call_service \<times> env) result" where
  "HandleHangup c command se =
     (let action = SkipPrefix command in
      bind_result (bind_result (substr action 0 1) (stoi 10)) (\<lambda>n.
      bind_result (if length action > 1 then bind_result (substr_from action 1) (stoi 10) else Ok (- 1))
        (\<lambda>index.
        if n < 0 \<or> n > 4 then Ok (finish c [kCmeErrorOperationNotAllowed] se)
        else if (n = 1 \<or> n = 2) \<and> index \<noteq> - 1 then Ok (finish c [''OK''] (release_one index se))
        else Ok (finish c [''OK''] (loop_calls (chld_body n) se)))))"

definition HandleMute :: "nat \<Rightarrow> string \<Rightarrow> call_service \<times> env \<Rightarrow> call_service \<times> env" where
  "HandleMute c command se =
     (let (s, e) = se; cmd = SkipPrefix command in
      if cmd = ''AT+CMUT?''
      then finish c [''+CMUT: '' @ bool_string (mute_on s), ''OK''] (s, e)
      else let (n, _) = GetNextInt cmd in
           if n = 0 then finish c [''OK''] (s\<lparr>mute_on := False\<rparr>, e)
           else if n = 1 then finish c [''OK''] (s\<lparr>mute_on := True\<rparr>, e)
           else finish c [kCmeErrorInCorrectParameters] (s, e))"

definition HandleSendDtmf :: "nat \<Rightarrow> string \<Rightarrow> call_service \<times> env \<Rightarrow> call_service \<times> env" where
  "HandleSendDtmf c command se = finish c [''OK''] se"

definition HandleCancelUssd :: "nat \<Rightarrow> string \<Rightarrow> call_service \<times> env \<Rightarrow> call_service \<times> env" where
  "HandleCancelUssd c command se = finish c [''OK''] se"

text \<open>The line that a query builds is not sent.\<close>

definition HandleEmergencyMode :: "nat \<Rightarrow> string \<Rightarrow> call_service \<times> env \<Rightarrow> call_service \<times> env" where
  "HandleEmergencyMode c command se =
     (let (s, e) = se; cmd = SkipPrefix command;
          save = (\<lambda>on. finish c [''OK'']
            (s\<lparr>in_emergency_mode := on\<rparr>, SaveToFile (set_nvram (\<lambda>v. v\<lparr>emergency_mode := on\<rparr>) e)))
      in if cmd = ''AT+WSOS?'' then finish c [''OK''] (s, e)
         else let (n, _) = GetNextInt cmd in
              if n = 0 then save False
              else if n = 1 then save True
              else finish c [kCmeErrorInCorrectParameters] (s, e))"

subsection \<open>Messages from the other instance\<close>

fun find_number :: "string \<Rightarrow> CallStatus int_map \<Rightarrow> (int \<times> CallStatus) option" where
  "find_number n [] = None"
| "find_number n ((index, call) # calls) =
     (if number call = n then Some (index, call) else find_number n calls)"

definition announce :: "call_service \<times> env \<Rightarrow> call_service \<times> env" where
  "announce se = (fst se, post_cb CallStateUpdate_cb 0 (snd se))"

definition update_call :: "(CallStatus \<Rightarrow> CallStatus) \<Rightarrow> (int \<times> CallStatus) option \<Rightarrow> call_service \<times> env \<Rightarrow> call_service \<times> env"
where
  "update_call f found se =
     (case found of
        None \<Rightarrow> se
      | Some (index, call) \<Rightarrow>
          ((fst se)\<lparr>active_calls := map_set index (f call) (active_calls (fst se))\<rparr>,
           cancel_serial (timeout_serial call) (snd se)))"

definition remote_hangup :: "(int \<times> CallStatus) option \<Rightarrow> call_service \<times> env \<Rightarrow> call_service \<times> env" where
  "remote_hangup found se =
     (case found of
        None \<Rightarrow> se
      | Some (index, call) \<Rightarrow>
          ((fst se)\<lparr>active_calls := map_erase index (active_calls (fst se))\<rparr>,
           cancel_serial (timeout_serial call)
             (case remote_client call of None \<Rightarrow> snd se | Some rc \<Rightarrow> CloseRemoteConnection rc (snd se))))"

definition HandleRemoteCall :: "bool \<Rightarrow> nat \<Rightarrow> string \<Rightarrow> call_service \<times> env \<Rightarrow> call_service \<times> env" where
  "HandleRemoteCall radio_off c command se =
     (let (s, e) = se;
          cmd = SkipPrefix command;
          (state, cmd) = GetNextInt cmd;
          (mode, cmd) = GetNextInt cmd;
          (mpty, cmd) = GetNextInt cmd;
          (n, cmd) = GetNextStr cmd;
          (num_type, cmd) = GetNextInt cmd;
          found = find_number n (active_calls s)
      in if state = call_state_int CALL_STATE_ACTIVE then announce (update_call SetCallActive found (s, e))
         else if state = call_state_int CALL_STATE_HELD then announce (update_call SetCallBackground found (s, e))
         else if state = call_state_int CALL_STATE_HANGUP then announce (remote_hangup found (s, e))
         else if state = call_state_int CALL_STATE_INCOMING then
           (if radio_off then (s, CloseRemoteConnection c e)
            else
              let call_status = (new_call n)\<lparr>is_remote_call := Some True, is_voice_mode := (mode \<noteq> 0),
                    is_multi_party := (mpty \<noteq> 0), is_mobile_terminated := True,
                    is_international := (num_type = 145), remote_client := Some c,
                    call_state := CALL_STATE_INCOMING\<rparr>
              in announce (s\<lparr>active_calls := map_set (FindFreeCallIndex s) call_status (active_calls s)\<rparr>, e))
         else (s, e))"

subsection \<open>The command table\<close>

datatype call_command =
    Cmd_Dial | Cmd_Accept | Cmd_Reject | Cmd_CurrentCalls | Cmd_Hangup | Cmd_Mute | Cmd_SendDtmf
  | Cmd_CancelUssd | Cmd_EmergencyMode | Cmd_RemoteCall

definition call_handlers :: "call_command CommandHandler list" where
  "call_handlers =
     [Partial_Match ''D'' Cmd_Dial,
      Full_Match ''A'' Cmd_Accept,
      Full_Match ''H'' Cmd_Reject,
      Full_Match ''+CLCC'' Cmd_CurrentCalls,
      Partial_Match ''+CHLD='' Cmd_Hangup,
      Partial_Match ''+CMUT'' Cmd_Mute,
      Partial_Match ''+VTS='' Cmd_SendDtmf,
      Partial_Match ''+CUSD='' Cmd_CancelUssd,
      Partial_Match ''+WSOS=0'' Cmd_EmergencyMode,
      Partial_Match ''+REMOTECALL'' Cmd_RemoteCall]"

text \<open>
  Running a command, with what it asks of the network and the SIM service: registration state, radio
  state, whether fixed dialling is on and which numbers it allows.
\<close>

record call_context =
  cc_registration :: int
  cc_radio_off :: bool
  cc_fdn_enabled :: bool
  cc_fixed_dial :: "string \<Rightarrow> bool result"

primrec run_call_command ::
  "call_context \<Rightarrow> nat \<Rightarrow> call_command \<Rightarrow> string \<Rightarrow> call_service \<times> env \<Rightarrow> (call_service \<times> env) result" where
  "run_call_command ctx c Cmd_Dial command se =
     HandleDial (cc_registration ctx) (cc_fdn_enabled ctx) (cc_fixed_dial ctx) c command se"
| "run_call_command ctx c Cmd_Accept command se = Ok (HandleAcceptCall c se)"
| "run_call_command ctx c Cmd_Reject command se = Ok (HandleRejectCall c se)"
| "run_call_command ctx c Cmd_CurrentCalls command se = Ok (HandleCurrentCalls c se)"
| "run_call_command ctx c Cmd_Hangup command se = HandleHangup c command se"
| "run_call_command ctx c Cmd_Mute command se = Ok (HandleMute c command se)"
| "run_call_command ctx c Cmd_SendDtmf command se = Ok (HandleSendDtmf c command se)"
| "run_call_command ctx c Cmd_CancelUssd command se = Ok (HandleCancelUssd c command se)"
| "run_call_command ctx c Cmd_EmergencyMode command se = Ok (HandleEmergencyMode c command se)"
| "run_call_command ctx c Cmd_RemoteCall command se = Ok (HandleRemoteCall (cc_radio_off ctx) c command se)"

end
