(* ===== verification/Sms_Service.thy ===== *)
theory Sms_Service
  imports Call_Service
begin

section \<open>Short messages\<close>

text \<open>
  \<^verbatim>\<open>sms_service.h\<close> and \<^verbatim>\<open>sms_service.cpp\<close>: sending a message in two steps (the command, then the PDU),
  delivery to this or another instance, status reports, messages stored on the SIM, and the
  configuration commands. The phone number of the SIM service is an argument. Members that the
  constructor leaves uninitialised are \<^const>\<open>None\<close>; printing one is undefined behaviour.
\<close>

record SmsMessage =
  sms_message :: string
  sms_status :: "int option"

record BroadcastConfig =
  bc_mode :: int
  mids :: string
  dcss :: string

record SmsServiceCenterAddress =
  sca :: string
  tosca :: "int option"

record sms_service =
  is_waiting_sms_pdu :: bool
  is_waiting_sms_to_sim :: bool
  message_id :: int
  sms_reference :: int
  sms_status_on_sim :: "int option"
  broadcast_config :: BroadcastConfig
  sms_service_center_address :: SmsServiceCenterAddress
  messages_on_sim_card :: "SmsMessage int_map"

definition init_sms_service :: sms_service where
  "init_sms_service = \<lparr>is_waiting_sms_pdu = False, is_waiting_sms_to_sim = False, message_id = 1, sms_reference = 1,
     sms_status_on_sim = None, broadcast_config = \<lparr>bc_mode = 0, mids = [], dcss = []\<rparr>,
     sms_service_center_address = \<lparr>sca = [], tosca = None\<rparr>, messages_on_sim_card = []\<rparr>"

definition reply_sms :: "nat \<Rightarrow> string list \<Rightarrow> sms_service \<times> env \<Rightarrow> sms_service \<times> env" where
  "reply_sms c responses se = (fst se, SendCommandResponses c responses (snd se))"

definition HandleSendSMS :: "nat \<Rightarrow> string \<Rightarrow> sms_service \<times> env \<Rightarrow> sms_service \<times> env" where
  "HandleSendSMS c command se = reply_sms c [''> ''] ((fst se)\<lparr>is_waiting_sms_pdu := True\<rparr>, snd se)"

definition HandleSMSAcknowledge :: "nat \<Rightarrow> string \<Rightarrow> sms_service \<times> env \<Rightarrow> sms_service \<times> env" where
  "HandleSMSAcknowledge c command se = reply_sms c [''OK''] se"

definition HandleWriteSMSToSim :: "nat \<Rightarrow> string \<Rightarrow> sms_service \<times> env \<Rightarrow> sms_service \<times> env" where
  "HandleWriteSMSToSim c command se =
     (let (status, _) = GetNextInt (SkipComma (SkipPrefix command))
      in reply_sms c [''> ''] ((fst se)\<lparr>is_waiting_sms_to_sim := True, sms_status_on_sim := Some status\<rparr>, snd se))"

definition HandleDeleteSmsOnSim :: "nat \<Rightarrow> string \<Rightarrow> sms_service \<times> env \<Rightarrow> sms_service \<times> env" where
  "HandleDeleteSmsOnSim c command se =
     (let (s, e) = se; (index, _) = GetNextInt (SkipPrefix command) in
      case map_find (messages_on_sim_card s) index of
        None \<Rightarrow> reply_sms c [kCmeErrorInvalidIndex] (s, e)
      | Some _ \<Rightarrow> reply_sms c [''OK''] (s\<lparr>messages_on_sim_card := map_erase index (messages_on_sim_card s)\<rparr>, e))"

definition HandleBroadcastConfig :: "nat \<Rightarrow> string \<Rightarrow> sms_service \<times> env \<Rightarrow> sms_service \<times> env" where
  "HandleBroadcastConfig c command se =
     (let (s, e) = se; cmd = SkipPrefix command; b = broadcast_config s in
      if cmd = ''AT+CSCB?''
      then reply_sms c [''+CSCB: '' @ to_string (bc_mode b) @ '','' @ mids b @ '','' @ dcss b, ''OK''] (s, e)
      else
        let (mode, cmd) = GetNextInt cmd; (ms, cmd) = GetNextStr cmd; (ds, cmd) = GetNextStr cmd
        in reply_sms c [''OK''] (s\<lparr>broadcast_config := \<lparr>bc_mode = mode, mids = ms, dcss = ds\<rparr>\<rparr>, e))"

definition HandleGetSmscAddress :: "nat \<Rightarrow> sms_service \<times> env \<Rightarrow> (sms_service \<times> env) result" where
  "HandleGetSmscAddress c se =
     (let a = sms_service_center_address (fst se) in
      case tosca a of
        None \<Rightarrow> Err Undefined_Behaviour
      | Some t \<Rightarrow> Ok (reply_sms c [''+CSCA: '' @ sca a @ '','' @ to_string t, ''OK''] se))"

definition HandleSetSmscAddress :: "nat \<Rightarrow> string \<Rightarrow> sms_service \<times> env \<Rightarrow> sms_service \<times> env" where
  "HandleSetSmscAddress c command se =
     (let (a, cmd) = GetNextStr (SkipPrefix command); (t, cmd) = GetNextInt cmd
      in reply_sms c [''OK''] ((fst se)\<lparr>sms_service_center_address := \<lparr>sca = a, tosca = Some t\<rparr>\<rparr>, snd se))"

subsection \<open>Sending\<close>

definition SendSmsToRemote :: "string \<Rightarrow> pdu \<Rightarrow> env \<Rightarrow> env result" where
  "SendSmsToRemote remote_port sms_pdu e =
     (if \<not> accepts_connection e remote_port then Ok e
      else bind_result (CreateRemotePDU sms_pdu (GetHostId e)) (\<lambda>pdu.
        Ok (e\<lparr>socket_wire := socket_wire e @
              [(remote_port, ''REM0''), (remote_port, ''AT+REMOTESMS='' @ pdu @ [CHR 0x0D])]\<rparr>)))"

text \<open>Where the message goes; every other number is accepted and dropped.\<close>

definition deliver :: "string result \<Rightarrow> string \<Rightarrow> int \<Rightarrow> pdu \<Rightarrow> env \<Rightarrow> env result" where
  "deliver sim_number phone_number port sms_pdu e =
     (if in_remote_range port
      then (if GetHostId e = to_string port then Ok (post_cb ReceiveSMS_dangling 1000 e)
            else SendSmsToRemote (to_string port) sms_pdu e)
      else bind_result sim_number (\<lambda>own.
        if phone_number = own then Ok (post_cb (HandleReceiveSMS_cb sms_pdu) 1000 e) else Ok e))"

definition HandleSendSMSPDU :: "string result \<Rightarrow> nat \<Rightarrow> string \<Rightarrow> sms_service \<times> env \<Rightarrow> (sms_service \<times> env) result" where
  "HandleSendSMSPDU sim_number c command se =
     (let (s, e) = se;
          s = s\<lparr>is_waiting_sms_pdu := False\<rparr>;
          sms_pdu = DecodePDU command
      in if \<not> is_valid_pdu sms_pdu then Ok (reply_sms c [kCmsErrorInvalidPDUModeParam] (s, e))
         else bind_result (GetPhoneNumberFromAddress sms_pdu) (\<lambda>phone_number.
              bind_result (port_of_number phone_number) (\<lambda>port.
                if phone_number = [] then Ok (reply_sms c [kCmsErrorSCAddressUnknown] (s, e))
                else bind_result (deliver sim_number phone_number port sms_pdu e) (\<lambda>e.
                  let s = s\<lparr>sms_reference := sms_reference s + 1\<rparr>;
                      (s, e) = reply_sms c [''+CMGS: '' @ to_string (sms_reference s), ''OK''] (s, e)
                  in Ok (s, if IsNeededStatuReport sms_pdu
                            then post_cb (HandleSMSStatuReport_cb sms_pdu (sms_reference s)) 1000 e else e)))))"

definition announce_sms :: "string \<Rightarrow> env \<Rightarrow> env" where
  "announce_sms pdu e =
     (if pdu = [] then e else SendUnsolicitedCommand pdu (SendUnsolicitedCommand ''+CMT: 0'' e))"

definition HandleReceiveSMS :: "pdu \<Rightarrow> env \<Rightarrow> env" where
  "HandleReceiveSMS sms_pdu e = announce_sms (CreatePDU (wall e) sms_pdu) e"

definition HandleSMSStatuReport :: "pdu \<Rightarrow> int \<Rightarrow> env \<Rightarrow> env" where
  "HandleSMSStatuReport sms_pdu reference e =
     (let pdu = CreateStatuReport (wall e) (wall_later e) sms_pdu reference;
          pdu_length = (length pdu - 2) div 2
      in if pdu \<noteq> [] \<and> pdu_length > 0
         then SendUnsolicitedCommand pdu (SendUnsolicitedCommand (''+CDS: '' @ to_string (int pdu_length)) e)
         else e)"

definition HandleReceiveRemoteSMS :: "string \<Rightarrow> sms_service \<times> env \<Rightarrow> sms_service \<times> env" where
  "HandleReceiveRemoteSMS command se =
     (let sms_pdu = DecodePDU (SkipPrefix command) in
      if \<not> is_valid_pdu sms_pdu then se
      else (fst se, announce_sms (CreatePDU (wall (snd se)) sms_pdu) (snd se)))"

definition HandleWriteSMSPduToSim :: "nat \<Rightarrow> string \<Rightarrow> sms_service \<times> env \<Rightarrow> sms_service \<times> env" where
  "HandleWriteSMSPduToSim c command se =
     (let (s, e) = se;
          message = \<lparr>sms_message = command, sms_status = sms_status_on_sim s\<rparr>;
          index = message_id s
      in reply_sms c [''+CMGW: '' @ to_string index, ''OK'']
           (s\<lparr>is_waiting_sms_to_sim := False, message_id := message_id s + 1,
              messages_on_sim_card := map_set index message (messages_on_sim_card s)\<rparr>, e))"

datatype sms_command =
    Cmd_SendSMS | Cmd_SMSAcknowledge | Cmd_WriteSMSToSim | Cmd_DeleteSmsOnSim | Cmd_BroadcastConfig
  | Cmd_GetSmscAddress | Cmd_SetSmscAddress | Cmd_ReceiveRemoteSMS

definition sms_handlers :: "sms_command CommandHandler list" where
  "sms_handlers =
     [Partial_Match ''+CMGS'' Cmd_SendSMS,
      Partial_Match ''+CNMA'' Cmd_SMSAcknowledge,
      Partial_Match ''+CMGW'' Cmd_WriteSMSToSim,
      Partial_Match ''+CMGD'' Cmd_DeleteSmsOnSim,
      Partial_Match ''+CSCB'' Cmd_BroadcastConfig,
      Full_Match ''+CSCA?'' Cmd_GetSmscAddress,
      Partial_Match ''+CSCA='' Cmd_SetSmscAddress,
      Partial_Match ''+REMOTESMS'' Cmd_ReceiveRemoteSMS]"

primrec run_sms_command :: "nat \<Rightarrow> sms_command \<Rightarrow> string \<Rightarrow> sms_service \<times> env \<Rightarrow> (sms_service \<times> env) result" where
  "run_sms_command c Cmd_SendSMS command se = Ok (HandleSendSMS c command se)"
| "run_sms_command c Cmd_SMSAcknowledge command se = Ok (HandleSMSAcknowledge c command se)"
| "run_sms_command c Cmd_WriteSMSToSim command se = Ok (HandleWriteSMSToSim c command se)"
| "run_sms_command c Cmd_DeleteSmsOnSim command se = Ok (HandleDeleteSmsOnSim c command se)"
| "run_sms_command c Cmd_BroadcastConfig command se = Ok (HandleBroadcastConfig c command se)"
| "run_sms_command c Cmd_GetSmscAddress command se = HandleGetSmscAddress c se"
| "run_sms_command c Cmd_SetSmscAddress command se = Ok (HandleSetSmscAddress c command se)"
| "run_sms_command c Cmd_ReceiveRemoteSMS command se = Ok (HandleReceiveRemoteSMS command se)"

subsection \<open>Messages on the SIM\<close>

text \<open>
  Every stored message has an index below the next one, and whoever waits for a PDU to store has set
  the status before.
\<close>

definition sms_ok :: "sms_service \<Rightarrow> bool" where
  "sms_ok s \<longleftrightarrow> map_wf (messages_on_sim_card s) \<and> (\<forall>k. map_find (messages_on_sim_card s) k \<noteq> None \<longrightarrow> k < message_id s) \<and>
     (is_waiting_sms_to_sim s \<longrightarrow> sms_status_on_sim s \<noteq> None)"

lemma sms_ok_init: "sms_ok init_sms_service"
  by (simp add: sms_ok_def init_sms_service_def map_find_def)

lemma sms_ok_delete: "sms_ok s \<Longrightarrow> sms_ok (fst (HandleDeleteSmsOnSim c command (s, e)))"
  by (auto simp: sms_ok_def HandleDeleteSmsOnSim_def reply_sms_def split_beta map_find_erase cpp_map.erase_ok
      split: option.split)

lemma sms_ok_write: "sms_ok s \<Longrightarrow> sms_ok (fst (HandleWriteSMSPduToSim c command (s, e)))"
  by (auto simp: sms_ok_def HandleWriteSMSPduToSim_def reply_sms_def Let_def cpp_map.find_put cpp_map.put_ok
      dest: less_trans [OF _ zless_add1_eq [THEN iffD2]])

lemma sms_ok_send: "sms_ok s \<Longrightarrow> HandleSendSMSPDU num c command (s, e) = Ok (s', e') \<Longrightarrow> sms_ok s'"
  by (auto simp: sms_ok_def HandleSendSMSPDU_def reply_sms_def bind_result_Inr_iff Let_def split: if_splits)

lemma sms_ok_command: "sms_ok s \<Longrightarrow> run_sms_command c cmd command (s, e) = Ok (s', e') \<Longrightarrow> sms_ok s'"
  using sms_ok_delete [of s c command e]
  by (cases cmd) (auto simp: sms_ok_def HandleSendSMS_def HandleSMSAcknowledge_def HandleWriteSMSToSim_def
      HandleBroadcastConfig_def HandleGetSmscAddress_def HandleSetSmscAddress_def HandleReceiveRemoteSMS_def
      reply_sms_def Let_def split_beta split: option.splits if_splits)

inductive sms_reach :: "sms_service \<Rightarrow> bool" where
  sms_init: "sms_reach init_sms_service"
| sms_command: "sms_reach s \<Longrightarrow> run_sms_command c cmd command (s, e) = Ok (s', e') \<Longrightarrow> sms_reach s'"
| sms_pdu: "sms_reach s \<Longrightarrow> is_waiting_sms_pdu s \<Longrightarrow> HandleSendSMSPDU num c command (s, e) = Ok (s', e') \<Longrightarrow>
    sms_reach s'"
| sms_to_sim: "sms_reach s \<Longrightarrow> is_waiting_sms_to_sim s \<Longrightarrow> HandleWriteSMSPduToSim c command (s, e) = (s', e') \<Longrightarrow>
    sms_reach s'"

lemma sms_reach_ok: "sms_reach s \<Longrightarrow> sms_ok s"
proof (induction rule: sms_reach.induct)
  case (sms_to_sim s c command e s' e')
  then show ?case using sms_ok_write [of s c command e] by simp
qed (auto intro: sms_ok_init sms_ok_command sms_ok_send)

text \<open>
  A PDU that is written to the SIM is stored under an index that no stored message has, with the
  status that the preceding \<^verbatim>\<open>AT+CMGW\<close> gave; the answer names the index, every other message stays, and
  deleting that index removes it and nothing else.
\<close>

theorem sim_message_stored_and_deleted:
  assumes "sms_reach s" and "is_waiting_sms_to_sim s" and "in_int (message_id s)"
    and "HandleWriteSMSPduToSim c command (s, e) = (s1, e1)"
  shows "\<exists>i status. map_find (messages_on_sim_card s) i = None \<and>
    map_find (messages_on_sim_card s1) i = Some \<lparr>sms_message = command, sms_status = Some status\<rparr> \<and>
    (\<forall>k. k \<noteq> i \<longrightarrow> map_find (messages_on_sim_card s1) k = map_find (messages_on_sim_card s) k) \<and>
    e1 = SendCommandResponses c [''+CMGW: '' @ to_string i, ''OK''] e \<and> \<not> is_waiting_sms_to_sim s1 \<and>
    (\<forall>k. map_find (messages_on_sim_card (fst (HandleDeleteSmsOnSim c (''AT+CMGD='' @ to_string i) (s1, e1)))) k =
       map_find (messages_on_sim_card s) k)"
proof -
  let ?i = "message_id s"
  have ok: "sms_ok s" by (rule sms_reach_ok [OF assms(1)])
  then have wf: "map_wf (messages_on_sim_card s)" and fresh: "map_find (messages_on_sim_card s) ?i = None"
    by (auto simp: sms_ok_def)
  obtain status where st: "sms_status_on_sim s = Some status" using ok assms(2) by (auto simp: sms_ok_def)
  have s1: "messages_on_sim_card s1 = map_set ?i \<lparr>sms_message = command, sms_status = Some status\<rparr> (messages_on_sim_card s)"
    and "e1 = SendCommandResponses c [''+CMGW: '' @ to_string ?i, ''OK''] e" "\<not> is_waiting_sms_to_sim s1"
    using assms(4) st by (auto simp: HandleWriteSMSPduToSim_def reply_sms_def Let_def)
  moreover have "GetNextInt (SkipPrefix (''AT+CMGD='' @ to_string ?i)) = (?i, [])"
    using SkipPrefix_append [of "''AT+CMGD''" "to_string ?i"] assms(3) by simp
  moreover have "map_find (messages_on_sim_card (fst (HandleDeleteSmsOnSim c (''AT+CMGD='' @ to_string ?i) (s1, e1)))) k =
      map_find (messages_on_sim_card s) k" for k
    using calculation(4) cpp_map.put_then_erase [OF wf fresh]
    by (simp add: HandleDeleteSmsOnSim_def reply_sms_def s1 cpp_map.find_put [OF wf])
  ultimately show ?thesis
    using fresh by (intro exI [of _ ?i] exI [of _ status]) (simp add: cpp_map.find_put [OF wf])
qed

theorem sim_message_stored_and_deleted_witness:
  "\<exists>s e. HandleWriteSMSToSim 0 ''AT+CMGW=9,1'' (init_sms_service, sample_env) = (s, e) \<and>
    (\<exists>i. map_option sms_message (map_find (messages_on_sim_card (fst (HandleWriteSMSPduToSim 0 ''0011'' (s, e)))) i) =
       Some ''0011'')"
proof -
  obtain s e where r: "HandleWriteSMSToSim 0 ''AT+CMGW=9,1'' (init_sms_service, sample_env) = (s, e)" by fastforce
  have reach: "sms_reach s"
    by (rule sms_command [OF sms_init, of 0 Cmd_WriteSMSToSim "''AT+CMGW=9,1''" sample_env s e]) (simp add: r)
  have "is_waiting_sms_to_sim s" "message_id s = 1"
    using r by (auto simp: HandleWriteSMSToSim_def reply_sms_def init_sms_service_def split_beta Let_def)
  then show ?thesis
    using sim_message_stored_and_deleted [OF reach, of 0 "''0011''" e "fst (HandleWriteSMSPduToSim 0 ''0011'' (s, e))"
        "snd (HandleWriteSMSPduToSim 0 ''0011'' (s, e))"] r
    by (force simp: in_int_def)
qed

subsection \<open>Delivery\<close>

lemma HandleSendSMSPDU_accepted:
  assumes "is_valid_pdu (DecodePDU command)" and "GetPhoneNumberFromAddress (DecodePDU command) = Ok num"
    and "port_of_number num = Ok port" and "num \<noteq> []" and "deliver sim num port (DecodePDU command) e = Ok e1"
  shows "HandleSendSMSPDU sim c command (s, e) =
    (let s' = s\<lparr>is_waiting_sms_pdu := False, sms_reference := sms_reference s + 1\<rparr>;
         e2 = SendCommandResponses c [''+CMGS: '' @ to_string (sms_reference s + 1), ''OK''] e1
     in Ok (s', if IsNeededStatuReport (DecodePDU command)
                then post_cb (HandleSMSStatuReport_cb (DecodePDU command) (sms_reference s + 1)) 1000 e2 else e2))"
  using assms by (simp add: HandleSendSMSPDU_def reply_sms_def Let_def)

lemma remote_port_text:
  assumes "in_remote_range h"
  shows "length (to_string h) = 4" and "CHR ''F'' \<notin> set (to_string h)"
proof -
  have b: "h = 6520 \<or> h = 6521 \<or> h = 6522 \<or> h = 6523 \<or> h = 6524 \<or> h = 6525 \<or> h = 6526 \<or> h = 6527"
    using assms by (auto simp: in_remote_range_def kRemotePortRange_def)
  show "length (to_string h) = 4" and "CHR ''F'' \<notin> set (to_string h)"
    using b by (elim disjE; simp add: to_string_def digits_of.simps)+
qed

lemma CreatePDU_nonempty: "is_valid_pdu p \<Longrightarrow> CreatePDU now p \<noteq> []"
  by (simp add: CreatePDU_def)

text \<open>
  C10: A message for the number of another instance arrives there. The sender answers with a reference and
  writes the handshake and one command line to the other instance; when that line is handled, the
  receiver announces a message and sends a PDU to its clients. Read as the phone reads a delivered message,
  this PDU has the coding and the user data that were sent, the receiver's time, and an address with the sender's port
  in the place of the receiver's, so that an answer finds its way back.
\<close>

theorem remote_sms_delivered:
  assumes "is_valid_pdu (DecodePDU command)" and "GetPhoneNumberFromAddress (DecodePDU command) = Ok num"
    and "4 \<le> length num" and "port_of_number num = Ok port" and "in_remote_range port"
    and "in_remote_range (host_id e)" and "to_string (host_id e) \<noteq> to_string port"
    and "accepts_connection e (to_string port)" and "valid_time (wall eB)"
  shows "\<exists>s' e' line out. HandleSendSMSPDU sim c command (s, e) = Ok (s', e') \<and>
    sms_reference s' = sms_reference s + 1 \<and> \<not> is_waiting_sms_pdu s' \<and>
    socket_wire e' = socket_wire e @ [(to_string port, ''REM0''), (to_string port, line @ [CHR 0x0D])] \<and>
    HandleReceiveRemoteSMS line (sB, eB) =
      (sB, SendUnsolicitedCommand out (SendUnsolicitedCommand ''+CMT: 0'' eB)) \<and>
    deliver_data (read_deliver out) = user_data (DecodePDU command) \<and>
    deliver_coding (read_deliver out) = data_code_scheme (DecodePDU command) \<and>
    deliver_time (read_deliver out) = GetCurrentTimeStamp (wall eB) \<and>
    GetPhoneNumberFromAddress ((DecodePDU command)\<lparr>originator_address := deliver_address (read_deliver out)\<rparr>) =
      Ok (take (length num - 4) num @ to_string (host_id e))"
proof -
  obtain r q oa where r: "CreateRemotePDU (DecodePDU command) (to_string (host_id e)) = Ok r" and q: "q = DecodePDU r"
      "is_valid_pdu q" "q = (DecodePDU command)\<lparr>originator_address := oa\<rparr>"
      "GetPhoneNumberFromAddress q = Ok (take (length num - 4) num @ to_string (host_id e))"
    using CreateRemotePDU_decoded [OF assms(1-3) remote_port_text [OF assms(6)]] by blast
  let ?line = "''AT+REMOTESMS='' @ r"
  let ?e1 = "e\<lparr>socket_wire := socket_wire e @ [(to_string port, ''REM0''), (to_string port, ?line @ [CHR 0x0D])]\<rparr>"
  have "deliver sim num port (DecodePDU command) e = Ok ?e1"
    using assms(5,7,8) r by (simp add: deliver_def SendSmsToRemote_def GetHostId_def)
  moreover have "num \<noteq> []" using assms(3) by auto
  ultimately have sent: "HandleSendSMSPDU sim c command (s, e) =
    (let s' = s\<lparr>is_waiting_sms_pdu := False, sms_reference := sms_reference s + 1\<rparr>;
         e2 = SendCommandResponses c [''+CMGS: '' @ to_string (sms_reference s + 1), ''OK''] ?e1
     in Ok (s', if IsNeededStatuReport (DecodePDU command)
                then post_cb (HandleSMSStatuReport_cb (DecodePDU command) (sms_reference s + 1)) 1000 e2 else e2))"
    by (intro HandleSendSMSPDU_accepted [OF assms(1,2,4)])
  have frame: "socket_wire (post_cb cb d x) = socket_wire x" for cb d x
    by (simp add: post_cb_def post_def Let_def split: prod.split)
  obtain s' e' where res: "HandleSendSMSPDU sim c command (s, e) = Ok (s', e')"
      "sms_reference s' = sms_reference s + 1" "\<not> is_waiting_sms_pdu s'" "socket_wire e' = socket_wire ?e1"
    using sent by (simp add: Let_def frame)
  have "SkipPrefix ?line = r" using SkipPrefix_append [of "''AT+REMOTESMS''" r] by simp
  then have recv: "HandleReceiveRemoteSMS ?line (sB, eB) =
      (sB, SendUnsolicitedCommand (CreatePDU (wall eB) q) (SendUnsolicitedCommand ''+CMT: 0'' eB))"
    using q(1,2) CreatePDU_nonempty [OF q(2)] by (simp add: HandleReceiveRemoteSMS_def announce_sms_def)
  have wire: "socket_wire e' = socket_wire e @ [(to_string port, ''REM0''), (to_string port, ?line @ [CHR 0x0D])]"
    using res(4) by simp
  have "fields_ok q" using DecodePDU_valid(1) q(1,2) by blast
  note out = read_deliver_CreatePDU [OF this q(2) assms(9)]
  have same: "deliver_data (read_deliver (CreatePDU (wall eB) q)) = user_data (DecodePDU command)"
      "deliver_coding (read_deliver (CreatePDU (wall eB) q)) = data_code_scheme (DecodePDU command)"
      "deliver_time (read_deliver (CreatePDU (wall eB) q)) = GetCurrentTimeStamp (wall eB)"
    unfolding out using q(3) by simp_all
  have number: "GetPhoneNumberFromAddress ((DecodePDU command)\<lparr>originator_address := deliver_address (read_deliver (CreatePDU (wall eB) q))\<rparr>) =
      Ok (take (length num - 4) num @ to_string (host_id e))"
    unfolding out using q(3,4) by simp
  show ?thesis by (intro exI conjI) (rule res(1-3) wire recv same number)+
qed

lemma sample_pdu:
  "is_valid_pdu (DecodePDU ''0021000481561200000141'')"
  "GetPhoneNumberFromAddress (DecodePDU ''0021000481561200000141'') = Ok ''6521''"
  by code_simp+

theorem remote_sms_delivered_witness:
  "\<exists>s' e' line out. HandleSendSMSPDU (Ok []) 0 ''0021000481561200000141'' (init_sms_service, sample_env) = Ok (s', e') \<and>
    HandleReceiveRemoteSMS line (init_sms_service, sample_env) =
      (init_sms_service, SendUnsolicitedCommand out (SendUnsolicitedCommand ''+CMT: 0'' sample_env)) \<and>
    deliver_data (read_deliver out) = ''0141'' \<and>
    GetPhoneNumberFromAddress ((DecodePDU ''0021000481561200000141'')\<lparr>originator_address := deliver_address (read_deliver out)\<rparr>) = Ok ''6520''"
proof -
  have h: "to_string 6520 = ''6520''" "to_string 6521 = ''6521''" by (simp_all add: to_string_def digits_of.simps)
  have "port_of_number ''6521'' = Ok 6521"
    using stoi_to_string [of 6521] h by (simp add: port_of_number_def in_int_def)
  moreover have "valid_time (wall sample_env)" by (simp add: sample_env_def noon_def valid_time_def)
  moreover have "user_data (DecodePDU ''0021000481561200000141'') = ''0141''" by code_simp
  ultimately show ?thesis
    using remote_sms_delivered [OF sample_pdu, of 6521 sample_env sample_env "Ok []" 0 init_sms_service init_sms_service] h
    by (fastforce simp: in_remote_range_def kRemotePortRange_def sample_env_def)
qed

end
