(* ===== verification/Sup_Service.thy ===== *)
theory Sup_Service
  imports Modem_Service
begin

section \<open>Supplementary services\<close>

text \<open>
  \<^verbatim>\<open>sup_service.h\<close> and \<^verbatim>\<open>sup_service.cpp\<close>: call forwarding, call waiting and the presentation of the
  calling line. Enumerations that a command casts from an \<^verbatim>\<open>int\<close> are integers. The members of
  \<^verbatim>\<open>clir_status_\<close> are not initialised: \<^const>\<open>None\<close> is an indeterminate value, and printing one is
  undefined behaviour.
\<close>

abbreviation (input) CFU :: int where "CFU \<equiv> 0"
abbreviation (input) CFB :: int where "CFB \<equiv> 1"
abbreviation (input) CFNR :: int where "CFNR \<equiv> 2"
abbreviation (input) CFNRC :: int where "CFNRC \<equiv> 3"
abbreviation (input) ALL_CF :: int where "ALL_CF \<equiv> 4"

abbreviation (input) CF_DISABLE :: int where "CF_DISABLE \<equiv> 0"
abbreviation (input) CF_ENABLE :: int where "CF_ENABLE \<equiv> 1"
abbreviation (input) CF_INTERROGATE :: int where "CF_INTERROGATE \<equiv> 2"
abbreviation (input) CF_REGISTRATION :: int where "CF_REGISTRATION \<equiv> 3"

record CallForwardInfo =
  cf_status :: int
  cf_reason :: int
  cf_number_type :: int
  cf_ton :: int
  cf_number :: string
  cf_timeSeconds :: int

definition new_forward :: "int \<Rightarrow> CallForwardInfo" where
  "new_forward reason = \<lparr>cf_status = CF_DISABLE, cf_reason = reason, cf_number_type = 2, cf_ton = 129,
     cf_number = [], cf_timeSeconds = 0\<rparr>"

record CallWaitingInfo =
  presentation_status :: int
  cw_mode :: int
  cw_classx :: int

record sup_service =
  clir_type :: "int option"
  clir_status :: "int option"
  call_forward_infos :: "CallForwardInfo list"
  call_waiting_info :: CallWaitingInfo

definition init_sup_service :: sup_service where
  "init_sup_service = \<lparr>clir_type = None, clir_status = None,
     call_forward_infos = [new_forward CFU, new_forward CFB, new_forward CFNR, new_forward CFNRC],
     call_waiting_info = \<lparr>presentation_status = 1, cw_mode = 0, cw_classx = 7\<rparr>\<rparr>"

definition reply_sup :: "nat \<Rightarrow> string list \<Rightarrow> sup_service \<times> env \<Rightarrow> sup_service \<times> env" where
  "reply_sup c responses se = (fst se, SendCommandResponses c responses (snd se))"

definition HandleUSSD :: "nat \<Rightarrow> string \<Rightarrow> sup_service \<times> env \<Rightarrow> sup_service \<times> env" where
  "HandleUSSD c command se = reply_sup c [''OK''] se"

definition HandleCLIR :: "nat \<Rightarrow> string \<Rightarrow> sup_service \<times> env \<Rightarrow> (sup_service \<times> env) result" where
  "HandleCLIR c command se =
     (let (s, e) = se; cmd = SkipPrefix command in
      if cmd = ''AT+CLIR?''
      then (case (clir_type s, clir_status s) of
              (Some ty, Some st) \<Rightarrow>
                Ok (reply_sup c [''+CLIR:'' @ to_string ty @ '','' @ to_string st, ''OK''] (s, e))
            | _ \<Rightarrow> Err Undefined_Behaviour)
      else let (ty, _) = GetNextInt cmd in Ok (reply_sup c [''OK''] (s\<lparr>clir_type := Some ty\<rparr>, e)))"

definition HandleCLIP :: "nat \<Rightarrow> sup_service \<times> env \<Rightarrow> sup_service \<times> env" where
  "HandleCLIP c se = reply_sup c [''+CLIP: 0, 0'', ''OK''] se"

definition HandleSuppServiceNotifications :: "nat \<Rightarrow> string \<Rightarrow> sup_service \<times> env \<Rightarrow> sup_service \<times> env" where
  "HandleSuppServiceNotifications c command se = reply_sup c [''OK''] se"

definition ccfcu_line :: "int \<Rightarrow> int \<Rightarrow> int \<Rightarrow> CallForwardInfo \<Rightarrow> bool \<Rightarrow> string" where
  "ccfcu_line classx number_type ton info with_time =
     ''+CCFCU: '' @ to_string (cf_status info) @ '','' @ to_string classx @ '','' @ to_string number_type @ '','' @
     to_string ton @ '','' @ ''\"'' @ cf_number info @ ''\"'' @
     (if with_time then '',,,'' @ to_string (cf_timeSeconds info) else [])"

definition forward_update ::
  "int \<Rightarrow> int \<Rightarrow> int \<Rightarrow> int \<Rightarrow> string \<Rightarrow> string \<Rightarrow> CallForwardInfo \<Rightarrow> CallForwardInfo" where
  "forward_update reason status number_type ton num rest info =
     (let info = info\<lparr>cf_status := (if status = CF_REGISTRATION then CF_ENABLE else status),
                      cf_number_type := number_type, cf_ton := ton, cf_number := num\<rparr>
      in if reason = CFNR
         then let (timeSeconds, _) = GetNextInt (SkipComma (SkipComma (SkipComma rest)))
              in info\<lparr>cf_timeSeconds := (if timeSeconds \<ge> 0 then timeSeconds else 0)\<rparr>
         else info)"

definition HandleCallForward :: "nat \<Rightarrow> string \<Rightarrow> sup_service \<times> env \<Rightarrow> sup_service \<times> env" where
  "HandleCallForward c command se =
     (let (s, e) = se;
          (reason, cmd) = GetNextInt (SkipPrefix command);
          (status, cmd) = GetNextInt cmd;
          (number_type, cmd) = GetNextInt cmd;
          (ton, cmd) = GetNextInt cmd;
          (num, cmd) = GetNextStr cmd;
          (classx, cmd) = GetNextInt cmd
      in if reason = ALL_CF then
           (if status = CF_INTERROGATE
            then reply_sup c (map (\<lambda>info. ccfcu_line classx number_type ton info (cf_reason info = CFNR))
                   (call_forward_infos s) @ [''OK'']) (s, e)
            else reply_sup c [''OK''] (s, e))
         else if reason \<in> {CFU, CFB, CFNR, CFNRC} then
           (if status = CF_INTERROGATE
            then reply_sup c [ccfcu_line classx number_type ton (call_forward_infos s ! nat reason) (reason = CFNR),
                   ''OK''] (s, e)
            else reply_sup c [''OK'']
                   (s\<lparr>call_forward_infos := (call_forward_infos s)[nat reason :=
                        forward_update reason status number_type ton num cmd (call_forward_infos s ! nat reason)]\<rparr>, e))
         else reply_sup c [kCmeErrorInCorrectParameters] (s, e))"

definition HandleCallWaiting :: "nat \<Rightarrow> string \<Rightarrow> sup_service \<times> env \<Rightarrow> sup_service \<times> env" where
  "HandleCallWaiting c command se =
     (let (s, e) = se;
          (mode, cmd) = GetNextInt (SkipComma (SkipPrefix command));
          (classx, cmd) = GetNextInt cmd;
          info = call_waiting_info s
      in if mode = 2
         then reply_sup c [''+CCWA: '' @ to_string (cw_mode info) @ '','' @
                to_string (if classx = - 1 then 7 else classx), ''OK''] (s, e)
         else if mode = 0 \<or> mode = 1
         then reply_sup c [''OK''] (s\<lparr>call_waiting_info := info\<lparr>cw_mode := mode,
                cw_classx := (if classx \<noteq> - 1 then classx else cw_classx info)\<rparr>\<rparr>, e)
         else reply_sup c [''OK''] (s, e))"

datatype sup_command =
    Cmd_USSD | Cmd_CLIR | Cmd_CallWaiting | Cmd_CLIP | Cmd_CallForward | Cmd_SuppServiceNotifications

definition sup_handlers :: "sup_command CommandHandler list" where
  "sup_handlers =
     [Partial_Match ''+CUSD'' Cmd_USSD,
      Partial_Match ''+CLIR'' Cmd_CLIR,
      Partial_Match ''+CCWA'' Cmd_CallWaiting,
      Full_Match ''+CLIP?'' Cmd_CLIP,
      Partial_Match ''+CCFCU'' Cmd_CallForward,
      Partial_Match ''+CSSN'' Cmd_SuppServiceNotifications]"

primrec run_sup_command :: "nat \<Rightarrow> sup_command \<Rightarrow> string \<Rightarrow> sup_service \<times> env \<Rightarrow> (sup_service \<times> env) result" where
  "run_sup_command c Cmd_USSD command se = Ok (HandleUSSD c command se)"
| "run_sup_command c Cmd_CLIR command se = HandleCLIR c command se"
| "run_sup_command c Cmd_CallWaiting command se = Ok (HandleCallWaiting c command se)"
| "run_sup_command c Cmd_CLIP command se = Ok (HandleCLIP c se)"
| "run_sup_command c Cmd_CallForward command se = Ok (HandleCallForward c command se)"
| "run_sup_command c Cmd_SuppServiceNotifications command se = Ok (HandleSuppServiceNotifications c command se)"

subsection \<open>The forwarding table\<close>

text \<open>
  The table always has its four entries, so the index of \<^verbatim>\<open>call_forward_infos_[reason]\<close> is in range, and
  no command sets \<^verbatim>\<open>clir_status_.status\<close>.
\<close>

definition sup_ok :: "sup_service \<Rightarrow> bool" where
  "sup_ok s \<longleftrightarrow> map cf_reason (call_forward_infos s) = [CFU, CFB, CFNR, CFNRC] \<and> clir_status s = None"

lemma cf_reason_forward_update [simp]: "cf_reason (forward_update r st ty ton n cmd info) = cf_reason info"
  by (simp add: forward_update_def Let_def split_beta)

lemma sup_ok_length: "sup_ok s \<Longrightarrow> length (call_forward_infos s) = 4"
proof -
  assume "sup_ok s"
  then have "length (map cf_reason (call_forward_infos s)) = length [CFU, CFB, CFNR, CFNRC]"
    by (simp only: sup_ok_def)
  then show ?thesis by simp
qed

lemma map_update_same: "f y = f (xs ! i) \<Longrightarrow> map f (xs[i := y]) = map f xs"
  by (metis list_update_id map_update)

lemma sup_ok_HandleCallForward: "sup_ok s \<Longrightarrow> sup_ok (fst (HandleCallForward c command (s, e)))"
  by (simp add: HandleCallForward_def reply_sup_def sup_ok_def map_update_same split_beta Let_def)

lemma sup_ok_command:
  "sup_ok s \<Longrightarrow> run_sup_command c cmd command (s, e) = Ok (s', e') \<Longrightarrow> sup_ok s'"
  using sup_ok_HandleCallForward [of s c command e]
  by (cases cmd) (auto simp: HandleUSSD_def HandleCLIR_def HandleCallWaiting_def HandleCLIP_def
      HandleSuppServiceNotifications_def reply_sup_def sup_ok_def Let_def split_beta
      split: if_splits option.splits)

inductive sup_reach :: "sup_service \<Rightarrow> bool" where
  sup_init: "sup_reach init_sup_service"
| sup_command: "sup_reach s \<Longrightarrow> run_sup_command c cmd command (s, e) = Ok (s', e') \<Longrightarrow> sup_reach s'"

lemma sup_reach_ok: "sup_reach s \<Longrightarrow> sup_ok s"
proof (induction rule: sup_reach.induct)
  case sup_init
  then show ?case by (simp add: sup_ok_def init_sup_service_def new_forward_def)
qed (rule sup_ok_command)

text \<open>
  Whatever commands came before, the forwarding table has its four entries in the order of their
  reasons, so that \<^verbatim>\<open>call_forward_infos_[reason]\<close> is in range, and the query \<^verbatim>\<open>AT+CLIR?\<close> prints a
  status that was never initialised.
\<close>

theorem sup_table_and_clir_query:
  assumes "sup_reach s"
  shows "map cf_reason (call_forward_infos s) = [CFU, CFB, CFNR, CFNRC] \<and>
    HandleCLIR c ''AT+CLIR?'' (s, e) = Err Undefined_Behaviour"
proof -
  have "SkipPrefix ''AT+CLIR?'' = ''AT+CLIR?''" by (simp add: SkipPrefix_def)
  then show ?thesis using sup_reach_ok [OF assms] by (auto simp: sup_ok_def HandleCLIR_def split: option.split)
qed

theorem sup_table_and_clir_query_witness:
  "map cf_reason (call_forward_infos init_sup_service) = [CFU, CFB, CFNR, CFNRC] \<and>
   HandleCLIR 0 ''AT+CLIR?'' (init_sup_service, sample_env) = Err Undefined_Behaviour"
  using sup_table_and_clir_query [OF sup_init, of 0 sample_env] by simp

text \<open>The command line of call forwarding, up to the class.\<close>

definition ccfcu_command :: "int \<Rightarrow> int \<Rightarrow> int \<Rightarrow> int \<Rightarrow> string \<Rightarrow> int \<Rightarrow> string \<Rightarrow> string" where
  "ccfcu_command reason status ty ton num classx rest =
     ''AT+CCFCU='' @ to_string reason @ CHR '','' # to_string status @ CHR '','' # to_string ty @ CHR '','' #
     to_string ton @ CHR '','' # CHR ''\"'' # num @ CHR ''\"'' # CHR '','' # to_string classx @ CHR '','' # rest"

lemma SkipPrefix_ccfcu:
  "SkipPrefix (ccfcu_command reason status ty ton num classx rest) =
     to_string reason @ CHR '','' # to_string status @ CHR '','' # to_string ty @ CHR '','' #
     to_string ton @ CHR '','' # CHR ''\"'' # num @ CHR ''\"'' # CHR '','' # to_string classx @ CHR '','' # rest"
  using SkipPrefix_append [of "''AT+CCFCU''"] by (simp add: ccfcu_command_def)

lemma SkipComma_Cons [simp]: "SkipComma (CHR '','' # r) = r"
  by (simp add: SkipComma_def)

lemma SkipComma_none [simp]: "SkipComma (to_string i) = to_string i"
proof -
  have "find_char (CHR '','') (to_string i) = None" by simp
  then show ?thesis by (simp del: find_char_None add: SkipComma_def)
qed

text \<open>
  A forwarding that was registered with \<^verbatim>\<open>AT+CCFCU\<close> is what a query of the same reason reports:
  enabled, with the registered number and for no reply the registered time; the other
  reasons are reported as before.
\<close>

theorem call_forward_read_back:
  assumes "sup_ok s" and "reason \<in> {CFU, CFB, CFNR, CFNRC}" and "CHR ''\"'' \<notin> set num"
    and "in_int ty" "in_int ton" "in_int classx" "in_int t" "0 \<le> t"
    and "HandleCallForward c (ccfcu_command reason CF_REGISTRATION ty ton num classx ('',,'' @ to_string t)) (s, e)
      = (s1, e1)"
  shows "cf_status (call_forward_infos s1 ! nat reason) = CF_ENABLE \<and>
    cf_number (call_forward_infos s1 ! nat reason) = num \<and>
    (reason = CFNR \<longrightarrow> cf_timeSeconds (call_forward_infos s1 ! nat reason) = t) \<and>
    (\<forall>k. k \<noteq> nat reason \<longrightarrow> call_forward_infos s1 ! k = call_forward_infos s ! k) \<and>
    snd (HandleCallForward c (ccfcu_command reason CF_INTERROGATE ty ton num classx []) (s1, e1)) =
      SendCommandResponses c [ccfcu_line classx ty ton (call_forward_infos s1 ! nat reason) (reason = CFNR), ''OK''] e1"
proof -
  let ?r = "to_string classx @ CHR '','' # '',,'' @ to_string t"
  have ints: "in_int reason" "in_int 2" "in_int 3"
    using assms(2) by (auto simp: in_int_def)
  have s1: "s1 = s\<lparr>call_forward_infos := (call_forward_infos s)[nat reason :=
      forward_update reason CF_REGISTRATION ty ton num ('',,'' @ to_string t) (call_forward_infos s ! nat reason)]\<rparr>"
    using assms(2-9) ints by (auto simp: HandleCallForward_def SkipPrefix_ccfcu reply_sup_def Let_def)
  have "nat reason < length (call_forward_infos s)"
    using sup_ok_length [OF assms(1)] assms(2) by auto
  moreover have "snd (HandleCallForward c (ccfcu_command reason CF_INTERROGATE ty ton num classx []) (s1, e1)) =
      SendCommandResponses c [ccfcu_line classx ty ton (call_forward_infos s1 ! nat reason) (reason = CFNR), ''OK''] e1"
    using assms(2-8) ints by (auto simp: HandleCallForward_def SkipPrefix_ccfcu reply_sup_def Let_def)
  ultimately show ?thesis
    using s1 assms(7,8) by (auto simp: forward_update_def Let_def nth_list_update)
qed

theorem call_forward_read_back_witness:
  "\<exists>s1 e1. HandleCallForward 0 (ccfcu_command CFNR CF_REGISTRATION 2 129 ''5550100'' 7 ('',,'' @ to_string 20))
      (init_sup_service, sample_env) = (s1, e1) \<and>
    cf_number (call_forward_infos s1 ! 2) = ''5550100'' \<and> cf_timeSeconds (call_forward_infos s1 ! 2) = 20"
proof -
  obtain s1 e1 where r: "HandleCallForward 0 (ccfcu_command CFNR CF_REGISTRATION 2 129 ''5550100'' 7 ('',,'' @ to_string 20))
      (init_sup_service, sample_env) = (s1, e1)" by fastforce
  show ?thesis
    using call_forward_read_back [OF _ _ _ _ _ _ _ _ r] r sup_reach_ok [OF sup_init] by (simp add: in_int_def)
qed

end
