(* ===== verification/Misc_Service.thy ===== *)
theory Misc_Service
  imports Modem_Service
begin

section \<open>Miscellaneous commands\<close>

text \<open>
  \<^verbatim>\<open>misc_service.cpp\<close>: the initialisation commands that are only acknowledged, the equipment identity
  and the time of day. The broken-down time, the offset of the time zone and \<^verbatim>\<open>tm_isdst\<close>, which the C
  library computes, are part of the environment.
\<close>

record misc_service =
  timezone :: string

text \<open>\<^verbatim>\<open>FixTimeZone\<close> replaces the first \<^verbatim>\<open>/\<close> by \<^verbatim>\<open>!\<close>.\<close>

definition FixTimeZone :: "string \<Rightarrow> string" where
  "FixTimeZone line =
     (case find_char (CHR ''/'') line of
        None \<Rightarrow> line
      | Some slashpos \<Rightarrow> take slashpos line @ ''!'' @ drop (slashpos + 1) line)"

definition SetTimeZone :: "string \<Rightarrow> misc_service \<Rightarrow> misc_service" where
  "SetTimeZone tz m = m\<lparr>timezone := FixTimeZone tz\<rparr>"

text \<open>\<^verbatim>\<open>ParseTimeZone\<close>: the first line of \<^verbatim>\<open>/etc/timezone\<close>, if there is one.\<close>

definition ParseTimeZone :: "string option \<Rightarrow> misc_service \<Rightarrow> misc_service" where
  "ParseTimeZone first_line m =
     (case first_line of None \<Rightarrow> m | Some line \<Rightarrow> m\<lparr>timezone := FixTimeZone line\<rparr>)"

definition ctzv_line :: "time_now \<Rightarrow> int \<Rightarrow> string \<Rightarrow> string" where
  "ctzv_line gm isdst tz =
     (let tzdiff = int_quot (tz_seconds gm) (15 * 60) in
      ''%CTZV: '' @ setw_0 2 (to_string (int_rem (tm_year gm) 100)) @ ''/'' @
      setw_0 2 (to_string (tm_mon gm + 1)) @ ''/'' @
      setw_0 2 (to_string (tm_mday gm)) @ '':'' @
      setw_0 2 (to_string (tm_hour gm)) @ '':'' @
      setw_0 2 (to_string (tm_min gm)) @ '':'' @
      setw_0 2 (to_string (tm_sec gm)) @ (if tzdiff \<ge> 0 then ''+'' else ''-'') @
      to_string (if tzdiff \<ge> 0 then tzdiff else - tzdiff) @ '':'' @ to_string isdst @
      (if tz = [] then [] else '':'' @ tz))"

definition TimeUpdate :: "misc_service \<Rightarrow> env \<Rightarrow> env" where
  "TimeUpdate m e = SendUnsolicitedCommand (ctzv_line (gm_wall e) (tm_isdst e) (timezone m)) e"

definition HandleTimeUpdate :: "nat \<Rightarrow> string \<Rightarrow> misc_service \<times> env \<Rightarrow> misc_service \<times> env" where
  "HandleTimeUpdate c command me = (fst me, TimeUpdate (fst me) (snd me))"

definition identityGsmImei :: string where "identityGsmImei = ''867400022047199''"
definition identityGsmSvn :: string where "identityGsmSvn = ''01''"

definition HandleGetIMEI :: "nat \<Rightarrow> string \<Rightarrow> misc_service \<times> env \<Rightarrow> misc_service \<times> env" where
  "HandleGetIMEI c command me =
     (let line =
        (if command = ''AT+CGSN'' then identityGsmImei
         else let (snt, _) = GetNextInt (SkipPrefix command) in
              if snt = 0 then identityGsmImei @ ''modem simulator''
              else if snt = 1 then identityGsmImei
              else if snt = 2 then identityGsmImei @ identityGsmSvn
              else if snt = 3 then identityGsmSvn
              else identityGsmImei)
      in (fst me, SendCommandResponses c [line, ''OK''] (snd me)))"

datatype misc_command = Cmd_MiscDefault | Cmd_GetIMEI | Cmd_TimeUpdate

definition misc_handlers :: "misc_command CommandHandler list" where
  "misc_handlers =
     [Full_Match ''E0Q0V1'' Cmd_MiscDefault,
      Full_Match ''S0=0'' Cmd_MiscDefault,
      Full_Match ''+CMEE=1'' Cmd_MiscDefault,
      Full_Match ''+CMOD=0'' Cmd_MiscDefault,
      Full_Match ''+CSSN=0,1'' Cmd_MiscDefault,
      Full_Match ''+COLP=0'' Cmd_MiscDefault,
      Full_Match (''+CSCS='' @ ''\"'' @ ''HEX'' @ ''\"'') Cmd_MiscDefault,
      Full_Match ''+CMGF=0'' Cmd_MiscDefault,
      Partial_Match ''+CGSN'' Cmd_GetIMEI,
      Partial_Match ''+REMOTETIMEUPDATE'' Cmd_TimeUpdate]"

primrec run_misc_command :: "nat \<Rightarrow> misc_command \<Rightarrow> string \<Rightarrow> misc_service \<times> env \<Rightarrow> misc_service \<times> env" where
  "run_misc_command c Cmd_MiscDefault command me = (fst me, HandleCommandDefaultSupported c (snd me))"
| "run_misc_command c Cmd_GetIMEI command me = HandleGetIMEI c command me"
| "run_misc_command c Cmd_TimeUpdate command me = HandleTimeUpdate c command me"

subsection \<open>The time zone stays one field\<close>

text \<open>
  The receiver splits the line at \<^verbatim>\<open>/\<close>: a zone name with one slash loses it, and the date separators
  are the only ones left.
\<close>

lemma FixTimeZone_count: "count_list (FixTimeZone tz) (CHR ''/'') = count_list tz (CHR ''/'') - 1"
proof (induction tz)
  case (Cons x tz)
  show ?case
  proof (cases "CHR ''/'' \<in> set tz")
    case True
    then obtain i where "find_char (CHR ''/'') tz = Some i" by (metis find_char_None not_Some_eq)
    then show ?thesis using Cons True by (auto simp: FixTimeZone_def count_list_0_iff)
  next
    case False
    then have "find_char (CHR ''/'') tz = None" by simp
    then show ?thesis using False by (simp del: find_char_None add: FixTimeZone_def count_list_0_iff)
  qed
qed (simp add: FixTimeZone_def)

lemma FixTimeZone_length [simp]: "length (FixTimeZone tz) = length tz"
  by (auto simp: FixTimeZone_def split: option.split dest: find_char_lt)

end
