(* ===== verification/Data_Service.thy ===== *)
theory Data_Service
  imports Modem_Service
begin

section \<open>Data calls\<close>

text \<open>
  \<^verbatim>\<open>data_service.h\<close> and \<^verbatim>\<open>data_service.cpp\<close>: the list of PDP contexts, the commands that define, list
  and read them, and the three announcements of the physical channel configuration.
\<close>

datatype CidState = ACTIVE | NO_ACTIVE

primrec cid_state_int :: "CidState \<Rightarrow> int" where
  "cid_state_int ACTIVE = 0"
| "cid_state_int NO_ACTIVE = 1"

record PDPContext =
  cid :: int
  pdp_state :: CidState
  conn_types :: string
  apn :: string
  addresses :: string
  dnses :: string
  gateways :: string

record data_service =
  pdp_context :: "PDPContext list"

definition init_data_service :: data_service where
  "init_data_service = \<lparr>pdp_context = []\<rparr>"

definition HandleActivateDataCall :: "nat \<Rightarrow> string \<Rightarrow> data_service \<times> env \<Rightarrow> data_service \<times> env" where
  "HandleActivateDataCall c command de = (fst de, SendCommandResponse c ''OK'' (snd de))"

definition cgact_line :: "PDPContext \<Rightarrow> string" where
  "cgact_line p = ''+CGACT: '' @ to_string (cid p) @ '','' @ to_string (cid_state_int (pdp_state p))"

definition HandleQueryDataCallList :: "nat \<Rightarrow> data_service \<times> env \<Rightarrow> data_service \<times> env" where
  "HandleQueryDataCallList c de =
     (fst de, SendCommandResponses c
        (map cgact_line (filter (\<lambda>p. pdp_state p = ACTIVE) (pdp_context (fst de))) @ [''OK'']) (snd de))"

text \<open>Overwrite the first context with the same \<^verbatim>\<open>cid\<close>, or append.\<close>

fun store_context :: "PDPContext \<Rightarrow> PDPContext list \<Rightarrow> PDPContext list" where
  "store_context p [] = [p]"
| "store_context p (q # qs) = (if cid p = cid q then p # qs else q # store_context p qs)"

definition HandlePDPContext :: "nat \<Rightarrow> string \<Rightarrow> data_service \<times> env \<Rightarrow> data_service \<times> env" where
  "HandlePDPContext c command de =
     (let (d, e) = de;
          (i, cmd) = GetNextInt (SkipPrefix command);
          (ip_type, cmd) = GetNextStr_flag (CHR '','') cmd;
          (name, cmd) = GetNextStr_flag (CHR '','') cmd;
          p = \<lparr>cid = i, pdp_state = ACTIVE, conn_types = ip_type, apn = name,
               addresses = ril_address_and_prefix e, dnses = ril_dns e, gateways = ril_gateway e\<rparr>
      in (d\<lparr>pdp_context := store_context p (pdp_context d)\<rparr>, SendCommandResponse c ''OK'' e))"

definition cgdcont_line :: "PDPContext \<Rightarrow> string" where
  "cgdcont_line p = ''+CGDCONT: '' @ to_string (cid p) @ '','' @ conn_types p @ '','' @ apn p @ '','' @
     addresses p @ '',0,0''"

definition HandleQueryPDPContextList :: "nat \<Rightarrow> data_service \<times> env \<Rightarrow> data_service \<times> env" where
  "HandleQueryPDPContextList c de =
     (fst de, SendCommandResponses c (map cgdcont_line (pdp_context (fst de)) @ [''OK'']) (snd de))"

fun find_active :: "int \<Rightarrow> PDPContext list \<Rightarrow> PDPContext option" where
  "find_active i [] = None"
| "find_active i (p # ps) = (if i = cid p \<and> pdp_state p = ACTIVE then Some p else find_active i ps)"

definition HandleEnterDataState :: "nat \<Rightarrow> string \<Rightarrow> data_service \<times> env \<Rightarrow> data_service \<times> env" where
  "HandleEnterDataState c command de =
     (let (i, _) = GetNextInt (SkipComma (SkipPrefix command)) in
      (fst de, SendCommandResponse c
         (if find_active i (pdp_context (fst de)) = None then ''ERROR'' else ''CONNECT'') (snd de)))"

definition cgcontrdp_line :: "PDPContext \<Rightarrow> string" where
  "cgcontrdp_line p = ''+CGCONTRDP: '' @ to_string (cid p) @ '',5,'' @ apn p @ '','' @ addresses p @ '','' @
     gateways p @ '','' @ dnses p"

definition HandleReadDynamicParam :: "nat \<Rightarrow> string \<Rightarrow> data_service \<times> env \<Rightarrow> data_service \<times> env" where
  "HandleReadDynamicParam c command de =
     (let (i, _) = GetNextInt (SkipPrefix command) in
      (fst de, SendCommandResponses c
         (case find_active i (pdp_context (fst de)) of
            None \<Rightarrow> [kCmeErrorInvalidIndex]
          | Some p \<Rightarrow> [cgcontrdp_line p, ''OK'']) (snd de)))"

definition sendOnePhysChanCfgUpdate :: "int \<Rightarrow> int \<Rightarrow> int \<Rightarrow> int \<Rightarrow> int \<Rightarrow> env \<Rightarrow> env" where
  "sendOnePhysChanCfgUpdate status bandwidth rat freq i e =
     SendUnsolicitedCommand (''%CGFPCCFG: '' @ to_string status @ '','' @ to_string bandwidth @ '','' @
       to_string rat @ '','' @ to_string freq @ '','' @ to_string i) e"

fun send_phys_updates :: "int \<Rightarrow> int \<Rightarrow> int \<Rightarrow> PDPContext list \<Rightarrow> env \<Rightarrow> env" where
  "send_phys_updates modem_tech freq bandwidth [] e = e"
| "send_phys_updates modem_tech freq bandwidth (p # ps) e =
     send_phys_updates modem_tech freq bandwidth ps
       (if pdp_state p = ACTIVE
        then sendOnePhysChanCfgUpdate 2 bandwidth modem_tech freq (cid p)
               (sendOnePhysChanCfgUpdate 1 bandwidth modem_tech freq (cid p) e)
        else e)"

definition updatePhysicalChannelconfigs :: "int \<Rightarrow> int \<Rightarrow> int \<Rightarrow> int \<Rightarrow> data_service \<Rightarrow> env \<Rightarrow> env" where
  "updatePhysicalChannelconfigs modem_tech freq bandwidth n d e =
     (if n \<le> 0 then e
      else post_cb (UpdatePhysicalChannelconfigs_cb modem_tech freq bandwidth (n - 1)) 1000
             (send_phys_updates modem_tech freq bandwidth (pdp_context d) e))"

definition onUpdatePhysicalChannelconfigs :: "int \<Rightarrow> int \<Rightarrow> int \<Rightarrow> data_service \<Rightarrow> env \<Rightarrow> env" where
  "onUpdatePhysicalChannelconfigs modem_tech freq bandwidth d e =
     updatePhysicalChannelconfigs modem_tech freq bandwidth 3 d e"

datatype data_command =
    Cmd_ActivateDataCall | Cmd_QueryDataCallList | Cmd_PDPContext | Cmd_QueryPDPContextList | Cmd_DataDefault
  | Cmd_EnterDataState | Cmd_ReadDynamicParam

definition data_handlers :: "data_command CommandHandler list" where
  "data_handlers =
     [Partial_Match ''+CGACT='' Cmd_ActivateDataCall,
      Full_Match ''+CGACT?'' Cmd_QueryDataCallList,
      Partial_Match ''+CGDCONT='' Cmd_PDPContext,
      Full_Match ''+CGDCONT?'' Cmd_QueryPDPContextList,
      Full_Match ''+CGQREQ=1'' Cmd_DataDefault,
      Full_Match ''+CGQMIN=1'' Cmd_DataDefault,
      Full_Match ''+CGEREP=1,0'' Cmd_DataDefault,
      Partial_Match ''+CGDATA'' Cmd_EnterDataState,
      Full_Match ''D*99***1#'' Cmd_DataDefault,
      Partial_Match ''+CGCONTRDP'' Cmd_ReadDynamicParam]"

primrec run_data_command :: "nat \<Rightarrow> data_command \<Rightarrow> string \<Rightarrow> data_service \<times> env \<Rightarrow> data_service \<times> env" where
  "run_data_command c Cmd_ActivateDataCall command de = HandleActivateDataCall c command de"
| "run_data_command c Cmd_QueryDataCallList command de = HandleQueryDataCallList c de"
| "run_data_command c Cmd_PDPContext command de = HandlePDPContext c command de"
| "run_data_command c Cmd_QueryPDPContextList command de = HandleQueryPDPContextList c de"
| "run_data_command c Cmd_DataDefault command de = (fst de, HandleCommandDefaultSupported c (snd de))"
| "run_data_command c Cmd_EnterDataState command de = HandleEnterDataState c command de"
| "run_data_command c Cmd_ReadDynamicParam command de = HandleReadDynamicParam c command de"

subsection \<open>Contexts are stored by their cid\<close>

definition contexts_ok :: "data_service \<Rightarrow> bool" where
  "contexts_ok d \<longleftrightarrow> distinct (map cid (pdp_context d)) \<and> (\<forall>p\<in>set (pdp_context d). pdp_state p = ACTIVE)"

lemma cid_store_context: "cid ` set (store_context p ps) = insert (cid p) (cid ` set ps)"
  by (induction ps) auto

lemma store_context_distinct: "distinct (map cid ps) \<Longrightarrow> distinct (map cid (store_context p ps))"
proof (induction ps)
  case (Cons q ps)
  then show ?case
    using cid_store_context [of p ps] by (auto simp: image_iff)
qed simp

lemma store_context_active:
  "pdp_state p = ACTIVE \<Longrightarrow> \<forall>q\<in>set ps. pdp_state q = ACTIVE \<Longrightarrow> \<forall>q\<in>set (store_context p ps). pdp_state q = ACTIVE"
  by (induction ps) auto

lemma find_active_store:
  "pdp_state p = ACTIVE \<Longrightarrow>
     find_active i (store_context p ps) = (if i = cid p then Some p else find_active i ps)"
  by (induction ps) auto

lemma contexts_ok_store:
  "contexts_ok d \<Longrightarrow> pdp_state p = ACTIVE \<Longrightarrow> contexts_ok (d\<lparr>pdp_context := store_context p (pdp_context d)\<rparr>)"
  using store_context_active [of p "pdp_context d"] by (simp add: contexts_ok_def store_context_distinct)

lemma contexts_ok_command:
  "contexts_ok (fst de) \<Longrightarrow> contexts_ok (fst (run_data_command c cmd command de))"
  by (cases cmd) (simp_all add: HandleActivateDataCall_def HandleQueryDataCallList_def HandlePDPContext_def
      HandleQueryPDPContextList_def HandleEnterDataState_def HandleReadDynamicParam_def contexts_ok_store
      Let_def split_beta)

text \<open>
  Defining a PDP context makes exactly that context readable: after \<^verbatim>\<open>AT+CGDCONT=i,type,apn\<close> a read of
  \<open>i\<close> answers with the apn and the configured addresses, whatever was stored under \<open>i\<close> before, a read
  of any other \<open>j\<close> answers as before, and no \<^verbatim>\<open>cid\<close> is ever stored twice.
\<close>

theorem pdp_context_read_back:
  assumes "in_int i" and "CHR '','' \<notin> set ty" and "CHR '','' \<notin> set name" and "contexts_ok d"
    and "HandlePDPContext c (''AT+CGDCONT='' @ to_string i @ '','' @ ty @ '','' @ name) (d, e) = (d', e')"
  shows "find_active i (pdp_context d') = Some \<lparr>cid = i, pdp_state = ACTIVE, conn_types = ty, apn = name,
      addresses = ril_address_and_prefix e, dnses = ril_dns e, gateways = ril_gateway e\<rparr> \<and>
    (\<forall>j. j \<noteq> i \<longrightarrow> find_active j (pdp_context d') = find_active j (pdp_context d)) \<and>
    contexts_ok d' \<and> wire e' = wire e @ (if is_open c e then [(c, line_of ''OK'')] else [])"
proof -
  have "SkipPrefix (''AT+CGDCONT='' @ to_string i @ '','' @ ty @ '','' @ name) =
      to_string i @ CHR '','' # ty @ CHR '','' # name"
    using SkipPrefix_append [of "''AT+CGDCONT''"] by simp
  then have "d' = d\<lparr>pdp_context := store_context \<lparr>cid = i, pdp_state = ACTIVE, conn_types = ty, apn = name,
      addresses = ril_address_and_prefix e, dnses = ril_dns e, gateways = ril_gateway e\<rparr> (pdp_context d)\<rparr>"
    and "e' = SendCommandResponse c ''OK'' e"
    using assms(1-3,5) by (simp_all add: HandlePDPContext_def Let_def)
  then show ?thesis
    using contexts_ok_store [OF assms(4)] by (simp add: find_active_store wire_SendCommandResponse)
qed

theorem pdp_context_read_back_witness:
  "\<exists>d' e'. HandlePDPContext 0 (''AT+CGDCONT='' @ to_string 1 @ '','' @ ''IP'' @ '','' @ ''internet'')
      (init_data_service, sample_env) = (d', e') \<and>
    map_option apn (find_active 1 (pdp_context d')) = Some ''internet'' \<and> find_active 2 (pdp_context d') = None"
proof -
  obtain d' e' where r: "HandlePDPContext 0 (''AT+CGDCONT='' @ to_string 1 @ '','' @ ''IP'' @ '','' @ ''internet'')
      (init_data_service, sample_env) = (d', e')" by fastforce
  show ?thesis
    using pdp_context_read_back [OF _ _ _ _ r] r
    by (auto simp: in_int_def contexts_ok_def init_data_service_def)
qed

end
