(* ===== verification/Network_Service.thy ===== *)
theory Network_Service
  imports Call_Service Misc_Service Data_Service
begin

unbundle bit_operations_syntax

section \<open>Network registration\<close>

text \<open>
  \<^verbatim>\<open>network_service.h\<close>, \<^verbatim>\<open>network_service_constants.h\<close> and \<^verbatim>\<open>network_service.cpp\<close>: radio power,
  operator selection, registration states, access technologies and signal strength. Enumerations that a
  command or the nvram file casts from an \<^verbatim>\<open>int\<close> are integers. What the service asks of the SIM
  service is an argument; the PDP contexts of the data service and the time zone of the misc service
  are passed to the handlers that use them.
\<close>

subsection \<open>Constants\<close>

abbreviation (input) M_MODEM_TECH_GSM :: int where "M_MODEM_TECH_GSM \<equiv> 1"
abbreviation (input) M_MODEM_TECH_WCDMA :: int where "M_MODEM_TECH_WCDMA \<equiv> 2"
abbreviation (input) M_MODEM_TECH_CDMA :: int where "M_MODEM_TECH_CDMA \<equiv> 4"
abbreviation (input) M_MODEM_TECH_EVDO :: int where "M_MODEM_TECH_EVDO \<equiv> 8"
abbreviation (input) M_MODEM_TECH_LTE :: int where "M_MODEM_TECH_LTE \<equiv> 32"
abbreviation (input) M_MODEM_TECH_NR :: int where "M_MODEM_TECH_NR \<equiv> 64"

abbreviation (input) OPER_STATE_UNKNOWN :: int where "OPER_STATE_UNKNOWN \<equiv> 0"
abbreviation (input) OPER_STATE_AVAILABLE :: int where "OPER_STATE_AVAILABLE \<equiv> 1"
abbreviation (input) OPER_STATE_CURRENT :: int where "OPER_STATE_CURRENT \<equiv> 2"
abbreviation (input) OPER_STATE_FORBIDDEN :: int where "OPER_STATE_FORBIDDEN \<equiv> 3"

abbreviation (input) OPER_SELECTION_AUTOMATIC :: int where "OPER_SELECTION_AUTOMATIC \<equiv> 0"
abbreviation (input) OPER_SELECTION_MANUAL :: int where "OPER_SELECTION_MANUAL \<equiv> 1"
abbreviation (input) OPER_SELECTION_DEREGISTRATION :: int where "OPER_SELECTION_DEREGISTRATION \<equiv> 2"
abbreviation (input) OPER_SELECTION_MANUAL_AUTOMATIC :: int where "OPER_SELECTION_MANUAL_AUTOMATIC \<equiv> 4"

abbreviation (input) REGISTRATION_UNSOL_DISABLED :: int where "REGISTRATION_UNSOL_DISABLED \<equiv> 0"
abbreviation (input) REGISTRATION_UNSOL_ENABLED :: int where "REGISTRATION_UNSOL_ENABLED \<equiv> 1"
abbreviation (input) REGISTRATION_UNSOL_ENABLED_FULL :: int where "REGISTRATION_UNSOL_ENABLED_FULL \<equiv> 2"

abbreviation (input) ACCESS_TECH_EGPRS :: int where "ACCESS_TECH_EGPRS \<equiv> 3"
abbreviation (input) ACCESS_TECH_HSPA :: int where "ACCESS_TECH_HSPA \<equiv> 6"
abbreviation (input) ACCESS_TECH_EUTRAN :: int where "ACCESS_TECH_EUTRAN \<equiv> 7"
abbreviation (input) ACCESS_TECH_NR :: int where "ACCESS_TECH_NR \<equiv> 11"

definition kAreaCode :: string where "kAreaCode = ''2142''"
definition kCellId :: string where "kCellId = ''0000B804''"

definition kRssiRange :: "int \<times> int" where "kRssiRange = (4, 30)"
definition kDbmRange :: "int \<times> int" where "kDbmRange = (- 120, - 4)"
definition kRsrpRange :: "int \<times> int" where "kRsrpRange = (- 140, - 44)"

subsection \<open>State\<close>

datatype RadioState = RADIO_STATE_OFF | RADIO_STATE_ON

primrec radio_state_int :: "RadioState \<Rightarrow> int" where
  "radio_state_int RADIO_STATE_OFF = 0"
| "radio_state_int RADIO_STATE_ON = 1"

record NetworkOperator =
  numeric :: string
  long_name :: string
  short_name :: string
  operator_state :: int

record NetworkRegistrationStatus =
  unsol_mode :: int
  registration_state :: int
  network_type :: int

definition new_registration :: NetworkRegistrationStatus where
  "new_registration = \<lparr>unsol_mode = REGISTRATION_UNSOL_ENABLED_FULL,
     registration_state = NET_REGISTRATION_UNREGISTERED, network_type = ACCESS_TECH_EUTRAN\<rparr>"

record network_service =
  radio_state :: RadioState
  operator_list :: "NetworkOperator list"
  current_operator_numeric :: string
  oper_selection_mode :: int
  signal_strength_percent :: int
  voice_registration_status :: NetworkRegistrationStatus
  data_registration_status :: NetworkRegistrationStatus
  current_network_mode :: int
  preferred_network :: int
  modem_radio_capability :: int
  first_signal_strength_request :: bool
  android_last_signal_time :: int

definition isRadioOff :: "network_service \<Rightarrow> bool" where
  "isRadioOff n \<longleftrightarrow> radio_state n = RADIO_STATE_OFF"

definition GetVoiceRegistrationState :: "network_service \<Rightarrow> int" where
  "GetVoiceRegistrationState n = registration_state (voice_registration_status n)"

definition IsHasNetwork :: "network_service \<Rightarrow> bool" where
  "IsHasNetwork n \<longleftrightarrow> radio_state n \<noteq> RADIO_STATE_OFF \<and> oper_selection_mode n \<noteq> OPER_SELECTION_DEREGISTRATION"

subsection \<open>Signal strength\<close>

record SignalStrength =
  gsm_rssi :: int
  gsm_ber :: int
  cdma_dbm :: int
  cdma_ecio :: int
  evdo_dbm :: int
  evdo_ecio :: int
  evdo_snr :: int
  lte_rssi :: int
  lte_rsrp :: int
  lte_rsrq :: int
  lte_rssnr :: int
  lte_cqi :: int
  lte_ta :: int
  tdscdma_rscp :: int
  wcdma_rssi :: int
  wcdma_ber :: int
  nr_ss_rsrp :: int
  nr_ss_rsrq :: int
  nr_ss_sinr :: int
  nr_csi_rsrp :: int
  nr_csi_rsrq :: int
  nr_csi_sinr :: int

definition INT_MAX :: int where "INT_MAX = 2147483647"

definition new_SignalStrength :: SignalStrength where
  "new_SignalStrength = \<lparr>gsm_rssi = INT_MAX, gsm_ber = INT_MAX, cdma_dbm = INT_MAX, cdma_ecio = INT_MAX,
     evdo_dbm = INT_MAX, evdo_ecio = INT_MAX, evdo_snr = INT_MAX, lte_rssi = INT_MAX, lte_rsrp = INT_MAX,
     lte_rsrq = INT_MAX, lte_rssnr = INT_MAX, lte_cqi = INT_MAX, lte_ta = INT_MAX, tdscdma_rscp = INT_MAX,
     wcdma_rssi = INT_MAX, wcdma_ber = INT_MAX, nr_ss_rsrp = INT_MAX, nr_ss_rsrq = INT_MAX,
     nr_ss_sinr = INT_MAX, nr_csi_rsrp = INT_MAX, nr_csi_rsrq = INT_MAX, nr_csi_sinr = INT_MAX\<rparr>"

text \<open>
  \<^verbatim>\<open>(int)((percent / 101.0) * range_size)\<close>. The product \<open>percent * range_size / 101\<close> is at least \<open>1 / 101\<close> away from
  every integer unless \<open>percent\<close> is 0, for the three ranges above and percentages up to 100, far more
  than the rounding error of the division and the multiplication in double precision, so that truncation
  gives the quotient of the integers.
\<close>

definition GetValueInRange :: "int \<times> int \<Rightarrow> int \<Rightarrow> int" where
  "GetValueInRange rng percent =
     (let range_size = snd rng - fst rng + 1 in fst rng + int_quot (percent * range_size) 101)"

definition GetCurrentSignalStrength :: "network_service \<Rightarrow> SignalStrength" where
  "GetCurrentSignalStrength n =
     (let result = new_SignalStrength; percent = signal_strength_percent n; mode = current_network_mode n in
      if \<not> IsHasNetwork n then result
      else if mode = M_MODEM_TECH_GSM then result\<lparr>gsm_rssi := GetValueInRange kRssiRange percent, gsm_ber := 99\<rparr>
      else if mode = M_MODEM_TECH_CDMA
        then result\<lparr>cdma_dbm := GetValueInRange kDbmRange percent * - 1, cdma_ecio := - 1\<rparr>
      else if mode = M_MODEM_TECH_EVDO
        then result\<lparr>evdo_dbm := GetValueInRange kDbmRange percent * - 1, evdo_ecio := - 1, evdo_snr := - 1\<rparr>
      else if mode = M_MODEM_TECH_LTE
        then result\<lparr>lte_rsrp := GetValueInRange kRsrpRange percent * - 1, lte_rssi := 99\<rparr>
      else if mode = M_MODEM_TECH_WCDMA then result\<lparr>wcdma_rssi := GetValueInRange kRssiRange percent\<rparr>
      else if mode = M_MODEM_TECH_NR then result\<lparr>nr_ss_rsrp := GetValueInRange kRsrpRange percent * - 1\<rparr>
      else result)"

definition signal_values :: "SignalStrength \<Rightarrow> int list" where
  "signal_values s =
     [gsm_rssi s, gsm_ber s, cdma_dbm s, cdma_ecio s, evdo_dbm s, evdo_ecio s, evdo_snr s, lte_rssi s,
      lte_rsrp s, lte_rsrq s, lte_rssnr s, lte_cqi s, lte_ta s, tdscdma_rscp s, wcdma_rssi s, wcdma_ber s,
      nr_ss_rsrp s, nr_ss_rsrq s, nr_ss_sinr s, nr_csi_rsrp s, nr_csi_rsrq s, nr_csi_sinr s]"

definition BuildCSQCommandResponse :: "SignalStrength \<Rightarrow> string" where
  "BuildCSQCommandResponse s = ''+CSQ: '' @ print_ints (signal_values s)"

definition OnSignalStrengthChanged :: "network_service \<Rightarrow> env \<Rightarrow> env" where
  "OnSignalStrengthChanged n e = SendUnsolicitedCommand (BuildCSQCommandResponse (GetCurrentSignalStrength n)) e"

definition UpdateSignalStrengthCallback :: "network_service \<times> env \<Rightarrow> network_service \<times> env" where
  "UpdateSignalStrengthCallback ne =
     (let (n, e) = ne;
          (n, e) =
            (if IsHasNetwork n
             then let p = signal_strength_percent n - 5;
                      n = n\<lparr>signal_strength_percent := (if p \<le> 10 then 100 else p)\<rparr>
                  in (n, OnSignalStrengthChanged n e)
             else (n, e))
      in (n, post_cb UpdateSignalStrengthCallback_cb 10000 e))"

definition WakeupFromSleep :: "network_service \<Rightarrow> env \<Rightarrow> bool" where
  "WakeupFromSleep n e \<longleftrightarrow> android_last_signal_time n \<noteq> 0 \<and> time_0 e > android_last_signal_time n + 120"

definition HandleSignalStrength :: "misc_service \<Rightarrow> nat \<Rightarrow> network_service \<times> env \<Rightarrow> network_service \<times> env" where
  "HandleSignalStrength misc c ne =
     (let (n, e) = ne;
          (n, e) =
            (if WakeupFromSleep n e then (n, TimeUpdate misc e)
             else if first_signal_strength_request n
             then (n\<lparr>first_signal_strength_request := False\<rparr>, TimeUpdate misc e)
             else (n, e));
          n = n\<lparr>android_last_signal_time := time_0 e\<rparr>
      in (n, SendCommandResponses c [BuildCSQCommandResponse (GetCurrentSignalStrength n), ''OK''] e))"

text \<open>\<^verbatim>\<open>AT+REMOTESIGNAL:percent\<close>.\<close>

definition HandleReceiveRemoteSignal :: "string \<Rightarrow> network_service \<times> env \<Rightarrow> (network_service \<times> env) result" where
  "HandleReceiveRemoteSignal command ne =
     (let (n, e) = ne in
      bind_result (substr_from command (length ''AT+REMOTESIGNAL:'')) (\<lambda>percents.
      bind_result (stoi 10 percents) (\<lambda>percent.
        if percent \<ge> 0 \<and> percent \<le> 100
        then let n = n\<lparr>signal_strength_percent := percent\<rparr> in Ok (n, OnSignalStrengthChanged n e)
        else Ok (n, e))))"

subsection \<open>Access technologies\<close>

definition getNetworkTypeFromTech :: "int \<Rightarrow> int" where
  "getNetworkTypeFromTech modemTech =
     (if modemTech = M_MODEM_TECH_GSM then ACCESS_TECH_EGPRS
      else if modemTech = M_MODEM_TECH_WCDMA then ACCESS_TECH_HSPA
      else if modemTech = M_MODEM_TECH_LTE then ACCESS_TECH_EUTRAN
      else if modemTech = M_MODEM_TECH_NR then ACCESS_TECH_NR
      else ACCESS_TECH_EGPRS)"

definition getTechFromNetworkType :: "int \<Rightarrow> int" where
  "getTechFromNetworkType act =
     (if act \<in> {0, 1, 3, 8} then M_MODEM_TECH_GSM
      else if act \<in> {2, 4, 5, 6} then M_MODEM_TECH_WCDMA
      else if act \<in> {7, 9, 10} then M_MODEM_TECH_LTE
      else if act \<in> {11, 12, 13} then M_MODEM_TECH_NR
      else M_MODEM_TECH_GSM)"

text \<open>The two nested loops count down, over bytes and over the bits of a byte.\<close>

fun tech_in_byte :: "int \<Rightarrow> nat \<Rightarrow> nat \<Rightarrow> int option" where
  "tech_in_byte pmask i 0 = None"
| "tech_in_byte pmask i (Suc j) =
     (if pmask AND push_bit (j + 8 * i) 1 \<noteq> 0 then Some (push_bit j 1) else tech_in_byte pmask i j)"

fun tech_in_mask :: "int \<Rightarrow> nat \<Rightarrow> int option" where
  "tech_in_mask pmask 0 = None"
| "tech_in_mask pmask (Suc i) =
     (case tech_in_byte pmask i 8 of Some t \<Rightarrow> Some t | None \<Rightarrow> tech_in_mask pmask i)"

definition getModemTechFromPrefer :: "int \<Rightarrow> int" where
  "getModemTechFromPrefer preferred_mask =
     (case tech_in_mask preferred_mask 4 of Some t \<Rightarrow> t | None \<Rightarrow> M_MODEM_TECH_GSM)"

subsection \<open>Registration\<close>

definition cell_suffix :: "NetworkRegistrationStatus \<Rightarrow> string" where
  "cell_suffix r = '','' @ ''\"'' @ kAreaCode @ ''\"'' @ '','' @ ''\"'' @ kCellId @ ''\"'' @ '','' @ to_string (network_type r)"

definition OnVoiceRegisterStateChanged :: "network_service \<Rightarrow> env \<Rightarrow> env" where
  "OnVoiceRegisterStateChanged n e =
     (let v = voice_registration_status n; line = ''+CREG: '' @ to_string (registration_state v) in
      if unsol_mode v = REGISTRATION_UNSOL_ENABLED then SendUnsolicitedCommand line e
      else if unsol_mode v = REGISTRATION_UNSOL_ENABLED_FULL
      then SendUnsolicitedCommand
             (line @ (if registration_state v = NET_REGISTRATION_HOME \<or> registration_state v = NET_REGISTRATION_ROAMING
                      then cell_suffix v else [])) e
      else e)"

definition OnDataRegisterStateChanged :: "network_service \<Rightarrow> env \<Rightarrow> env" where
  "OnDataRegisterStateChanged n e =
     (let d = data_registration_status n; st = to_string (registration_state d);
          eutran = (network_type d = ACCESS_TECH_EUTRAN);
          suffix = (if registration_state d = NET_REGISTRATION_HOME \<or> registration_state d = NET_REGISTRATION_ROAMING
                    then cell_suffix d else [])
      in if unsol_mode d = REGISTRATION_UNSOL_ENABLED
         then SendUnsolicitedCommand (''+CGREG: '' @ st @
                (if eutran then CHR 0x0D # ''+CEREG: '' @ st else [])) e
         else if unsol_mode d = REGISTRATION_UNSOL_ENABLED_FULL
         then SendUnsolicitedCommand (''+CGREG: '' @ st @ suffix @
                (if eutran then CHR 0x0D # ''+CEREG: '' @ st @ suffix else [])) e
         else e)"

definition UpdateRegisterState :: "data_service \<Rightarrow> int \<Rightarrow> network_service \<times> env \<Rightarrow> network_service \<times> env" where
  "UpdateRegisterState data state ne =
     (let (n, e) = ne;
          act = getNetworkTypeFromTech (current_network_mode n);
          n = n\<lparr>voice_registration_status := (voice_registration_status n)\<lparr>registration_state := state, network_type := act\<rparr>,
                data_registration_status := (data_registration_status n)\<lparr>registration_state := state, network_type := act\<rparr>\<rparr>;
          e = OnVoiceRegisterStateChanged n e;
          e = OnDataRegisterStateChanged n e;
          e = OnSignalStrengthChanged n e;
          (freq, bandwidth) = (if current_network_mode n = M_MODEM_TECH_NR then (4, 50000) else (0, 5000))
      in (n, onUpdatePhysicalChannelconfigs (current_network_mode n) freq bandwidth data e))"

definition OnSimStatusChanged :: "bool \<Rightarrow> network_service \<times> env \<Rightarrow> network_service \<times> env" where
  "OnSimStatusChanged sim_ready ne =
     (let (n, e) = ne in
      if radio_state n = RADIO_STATE_OFF then (n, e)
      else
        let v = voice_registration_status n;
            n = (if sim_ready
                 then n\<lparr>voice_registration_status := v\<lparr>registration_state := NET_REGISTRATION_HOME\<rparr>\<rparr>
                 else n\<lparr>voice_registration_status := v\<lparr>registration_state := NET_REGISTRATION_EMERGENCY\<rparr>,
                        current_network_mode := M_MODEM_TECH_WCDMA\<rparr>)
        in (n, post_cb (UpdateRegisterState_cb (registration_state (voice_registration_status n))) 1000 e))"

definition reply_net :: "nat \<Rightarrow> string list \<Rightarrow> network_service \<times> env \<Rightarrow> network_service \<times> env" where
  "reply_net c responses ne = (fst ne, SendCommandResponses c responses (snd ne))"

definition HandleRadioPowerReq :: "nat \<Rightarrow> network_service \<times> env \<Rightarrow> network_service \<times> env" where
  "HandleRadioPowerReq c ne =
     reply_net c [''+CFUN: '' @ to_string (radio_state_int (radio_state (fst ne))), ''OK''] ne"

definition HandleRadioPower ::
  "bool \<Rightarrow> data_service \<Rightarrow> nat \<Rightarrow> string \<Rightarrow> network_service \<times> env \<Rightarrow> network_service \<times> env" where
  "HandleRadioPower sim_ready data c command ne =
     (let (n, e) = ne; (on, _) = GetNextInt (SkipPrefix command) in
      if on = 0
      then reply_net c [''OK'']
             (UpdateRegisterState data NET_REGISTRATION_UNREGISTERED (n\<lparr>radio_state := RADIO_STATE_OFF\<rparr>, e))
      else if on = 1
      then reply_net c [''OK''] (OnSimStatusChanged sim_ready (n\<lparr>radio_state := RADIO_STATE_ON\<rparr>, e))
      else reply_net c [kCmeErrorOperationNotSupported] (n, e))"

text \<open>The unsolicited mode that \<^verbatim>\<open>+CREG=n\<close>, \<^verbatim>\<open>+CGREG=n\<close> and \<^verbatim>\<open>+CEREG=n\<close> set.\<close>

definition registered_here :: "NetworkRegistrationStatus \<Rightarrow> bool" where
  "registered_here v \<longleftrightarrow> unsol_mode v = REGISTRATION_UNSOL_ENABLED_FULL \<and>
     registration_state v \<in> {NET_REGISTRATION_HOME, NET_REGISTRATION_ROAMING, NET_REGISTRATION_EMERGENCY}"

definition HandleVoiceNetworkRegistration :: "nat \<Rightarrow> string \<Rightarrow> network_service \<times> env \<Rightarrow> network_service \<times> env" where
  "HandleVoiceNetworkRegistration c command ne =
     (let (n, e) = ne; cmd = SkipPrefix command; v = voice_registration_status n in
      if cmd = ''AT+CREG?''
      then reply_net c [''+CREG: '' @ to_string (unsol_mode v) @ '','' @ to_string (registration_state v) @
             (if registered_here v then cell_suffix v else []), ''OK''] (n, e)
      else let (m, _) = GetNextInt cmd in
           if m \<in> {0, 1, 2}
           then reply_net c [''OK''] (n\<lparr>voice_registration_status := v\<lparr>unsol_mode := m\<rparr>\<rparr>, e)
           else reply_net c [kCmeErrorInCorrectParameters] (n, e))"

text \<open>\<^verbatim>\<open>command.find("CGREG") != npos\<close>.\<close>

definition contains :: "string \<Rightarrow> string \<Rightarrow> bool" where
  "contains sub s \<longleftrightarrow> list_ex (prefix sub) (suffixes s)"

text \<open>The query decides by the voice registration whether the cell is appended.\<close>

definition HandleDataNetworkRegistration :: "nat \<Rightarrow> string \<Rightarrow> network_service \<times> env \<Rightarrow> network_service \<times> env" where
  "HandleDataNetworkRegistration c command ne =
     (let (n, e) = ne; cmd = SkipPrefix command; d = data_registration_status n;
          pre = (if contains ''CGREG'' command then ''+CGREG: ''
                 else if contains ''CEREG'' command then ''+CEREG: '' else [])
      in if cmd = ''AT+CGREG?'' \<or> cmd = ''AT+CEREG?''
         then (let head = pre @ to_string (unsol_mode d) @ '','' @ to_string (registration_state d) in
               if registered_here (voice_registration_status n)
               then let d = d\<lparr>network_type := getNetworkTypeFromTech (current_network_mode n)\<rparr>
                    in reply_net c [head @ cell_suffix d, ''OK''] (n\<lparr>data_registration_status := d\<rparr>, e)
               else reply_net c [head, ''OK''] (n, e))
         else let (m, _) = GetNextInt cmd in
              if m \<in> {0, 1, 2}
              then reply_net c [''OK''] (n\<lparr>data_registration_status := d\<lparr>unsol_mode := m\<rparr>\<rparr>, e)
              else reply_net c [kCmeErrorInCorrectParameters] (n, e))"

subsection \<open>Operators\<close>

definition builtin_operators :: "NetworkOperator list" where
  "builtin_operators =
     [\<lparr>numeric = ''311740'', long_name = ''Android Virtual Operator'', short_name = ''Android'',
        operator_state = OPER_STATE_AVAILABLE\<rparr>,
      \<lparr>numeric = ''310300'', long_name = ''Alternative Operator'', short_name = ''Alternative'',
        operator_state = OPER_STATE_AVAILABLE\<rparr>,
      \<lparr>numeric = ''310400'', long_name = ''Hermetic Network Operator'', short_name = ''Hermetic'',
        operator_state = OPER_STATE_FORBIDDEN\<rparr>]"

text \<open>Index of the first operator with a given code.\<close>

fun find_operator :: "string \<Rightarrow> NetworkOperator list \<Rightarrow> nat option" where
  "find_operator num [] = None"
| "find_operator num (op # ops) = (if numeric op = num then Some 0 else map_option Suc (find_operator num ops))"

definition mark :: "int \<Rightarrow> nat \<Rightarrow> NetworkOperator list \<Rightarrow> NetworkOperator list" where
  "mark st i ops = ops[i := (ops ! i)\<lparr>operator_state := st\<rparr>]"

text \<open>\<^verbatim>\<open>InitializeNetworkOperator\<close> appends the built-in operators to what the list already holds.\<close>

definition InitializeNetworkOperator :: "network_service \<Rightarrow> network_service" where
  "InitializeNetworkOperator n =
     (let ops = operator_list n @ builtin_operators;
          first = n\<lparr>operator_list := mark OPER_STATE_CURRENT 0 ops, current_operator_numeric := numeric (ops ! 0)\<rparr>
      in if oper_selection_mode n = OPER_SELECTION_AUTOMATIC then first
         else if oper_selection_mode n = OPER_SELECTION_MANUAL_AUTOMATIC
         then (case find_operator (current_operator_numeric n) ops of
                 Some i \<Rightarrow> n\<lparr>operator_list := mark OPER_STATE_CURRENT i ops\<rparr>
               | None \<Rightarrow> first)
         else n\<lparr>operator_list := ops\<rparr>)"

text \<open>
  The lookup of the SIM operator's names in \<^verbatim>\<open>numeric_operator.xml\<close>: there is no usable document, the
  document has no item for the operator, or the text of the item.
\<close>

datatype operator_names = No_Document | No_Item | Item_Text string

definition InitializeSimOperator :: "string \<Rightarrow> operator_names \<Rightarrow> network_service \<Rightarrow> network_service" where
  "InitializeSimOperator sim_operator_numeric names n =
     (if sim_operator_numeric = [] then n
      else case find_operator sim_operator_numeric (operator_list n) of
        Some i \<Rightarrow> n\<lparr>operator_list := (operator_list n)[0 := operator_list n ! i, i := operator_list n ! 0]\<rparr>
      | None \<Rightarrow>
          (case names of
             No_Document \<Rightarrow> n
           | No_Item \<Rightarrow> InitializeNetworkOperator n
           | Item_Text text \<Rightarrow>
               (case find_char (CHR ''='') text of
                  None \<Rightarrow> InitializeNetworkOperator n
                | Some pos \<Rightarrow> InitializeNetworkOperator (n\<lparr>operator_list :=
                    \<lparr>numeric = sim_operator_numeric, long_name = take pos text, short_name = drop (pos + 1) text,
                     operator_state = OPER_STATE_AVAILABLE\<rparr> # operator_list n\<rparr>))))"

definition InitializeServiceState :: "env \<Rightarrow> network_service \<times> env" where
  "InitializeServiceState e =
     (let v = nvram_config e;
          n = \<lparr>radio_state = RADIO_STATE_OFF, operator_list = [], current_operator_numeric = operator_numeric v,
               oper_selection_mode = network_selection_mode v, signal_strength_percent = 80,
               voice_registration_status = new_registration, data_registration_status = new_registration,
               current_network_mode = modem_technoloy v, preferred_network = preferred_network_mode v,
               modem_radio_capability = M_MODEM_TECH_GSM OR M_MODEM_TECH_WCDMA OR M_MODEM_TECH_LTE OR M_MODEM_TECH_NR,
               first_signal_strength_request = True, android_last_signal_time = 0\<rparr>
      in UpdateSignalStrengthCallback (InitializeNetworkOperator n, e))"

definition HandleQueryNetworkSelectionMode :: "nat \<Rightarrow> network_service \<times> env \<Rightarrow> network_service \<times> env" where
  "HandleQueryNetworkSelectionMode c ne =
     (let n = fst ne in
      reply_net c
        [if \<not> IsHasNetwork n then ''+COPS: 0,0,0''
         else case find_operator (current_operator_numeric n) (operator_list n) of
           Some i \<Rightarrow> ''+COPS: '' @ to_string (oper_selection_mode n) @ '',2,'' @ numeric (operator_list n ! i)
         | None \<Rightarrow> ''+COPS: '' @ to_string (oper_selection_mode n) @ '',0,0'', ''OK''] ne)"

definition HandleRequestOperator :: "nat \<Rightarrow> network_service \<times> env \<Rightarrow> network_service \<times> env" where
  "HandleRequestOperator c ne =
     (let n = fst ne in
      if \<not> IsHasNetwork n then reply_net c [kCmeErrorOperationNotAllowed] ne
      else case find_operator (current_operator_numeric n) (operator_list n) of
        None \<Rightarrow> reply_net c [kCmeErrorNoNetworkService] ne
      | Some i \<Rightarrow> reply_net c [''+COPS: 0,0,'' @ long_name (operator_list n ! i),
                   ''+COPS: 0,1,'' @ short_name (operator_list n ! i),
                   ''+COPS: 0,2,'' @ numeric (operator_list n ! i), ''OK''] ne)"

definition cops_entry :: "NetworkOperator \<Rightarrow> string" where
  "cops_entry op = ''+COPS: ('' @ to_string (operator_state op) @ '','' @ long_name op @ '','' @ short_name op @
     '','' @ numeric op @ ''),''"

definition HandleQueryAvailableNetwork :: "nat \<Rightarrow> network_service \<times> env \<Rightarrow> network_service \<times> env" where
  "HandleQueryAvailableNetwork c ne = reply_net c (map cops_entry (operator_list (fst ne)) @ [''OK'']) ne"

text \<open>The loop of the automatic mode resets only the first other operator that is marked current.\<close>

fun unmark_first :: "NetworkOperator list \<Rightarrow> NetworkOperator list" where
  "unmark_first [] = []"
| "unmark_first (op # ops) =
     (if operator_state op = OPER_STATE_CURRENT then op\<lparr>operator_state := OPER_STATE_AVAILABLE\<rparr> # ops
      else op # unmark_first ops)"

definition mark_current :: "string \<Rightarrow> NetworkOperator \<Rightarrow> NetworkOperator" where
  "mark_current num op =
     (if numeric op = num then op\<lparr>operator_state := OPER_STATE_CURRENT\<rparr>
      else if operator_state op = OPER_STATE_CURRENT then op\<lparr>operator_state := OPER_STATE_AVAILABLE\<rparr>
      else op)"

definition save_selection :: "network_service \<times> env \<Rightarrow> network_service \<times> env" where
  "save_selection ne =
     (let (n, e) = ne;
          e = SaveToFile (set_nvram (\<lambda>v. v\<lparr>network_selection_mode := oper_selection_mode n,
                operator_numeric := current_operator_numeric n\<rparr>) e)
      in (n, post_cb (UpdateRegisterState_cb (registration_state (voice_registration_status n))) 1000 e))"

definition set_voice_state :: "int \<Rightarrow> network_service \<Rightarrow> network_service" where
  "set_voice_state st n =
     n\<lparr>voice_registration_status := (voice_registration_status n)\<lparr>registration_state := st\<rparr>\<rparr>"

text \<open>
  In manual mode the iterator has run to the end of the list when the code reads the operator's state
  through it, and in manual/automatic mode the condition reads it when the operator was not
  found: both are undefined behaviour. So is the first operator of an empty list.
\<close>

definition HandleSetNetworkSelectionMode ::
  "nat \<Rightarrow> string \<Rightarrow> network_service \<times> env \<Rightarrow> (network_service \<times> env) result" where
  "HandleSetNetworkSelectionMode c command ne =
     (let (n, e) = ne;
          (mode, cmd) = GetNextInt (SkipPrefix command);
          cmd = SkipPrefix cmd;
          (oper, cmd) = GetNextStr cmd
      in if mode = OPER_SELECTION_AUTOMATIC then
           (case operator_list n of
              [] \<Rightarrow> Err Undefined_Behaviour
            | op # ops \<Rightarrow>
                Ok (save_selection (reply_net c [''OK''] (set_voice_state NET_REGISTRATION_HOME
                  (n\<lparr>oper_selection_mode := OPER_SELECTION_AUTOMATIC, current_operator_numeric := numeric op,
                     operator_list := op\<lparr>operator_state := OPER_STATE_CURRENT\<rparr> # unmark_first ops\<rparr>), e))))
         else if mode = OPER_SELECTION_MANUAL then
           (case find_operator oper (operator_list n) of
              None \<Rightarrow>
                Ok (save_selection (reply_net c [kCmeErrorNoNetworkService] (set_voice_state NET_REGISTRATION_UNKNOWN
                  (n\<lparr>oper_selection_mode := OPER_SELECTION_MANUAL, current_operator_numeric := oper\<rparr>), e)))
            | Some i \<Rightarrow> Err Undefined_Behaviour)
         else if mode = OPER_SELECTION_DEREGISTRATION then
           Ok (save_selection (reply_net c [''OK''] (set_voice_state NET_REGISTRATION_UNREGISTERED
             (n\<lparr>oper_selection_mode := OPER_SELECTION_DEREGISTRATION\<rparr>), e)))
         else if mode = OPER_SELECTION_MANUAL_AUTOMATIC then
           (case find_operator oper (operator_list n) of
              None \<Rightarrow> Err Undefined_Behaviour
            | Some i \<Rightarrow>
                Ok (save_selection (reply_net c [''OK''] (set_voice_state NET_REGISTRATION_HOME
                  (n\<lparr>oper_selection_mode := OPER_SELECTION_MANUAL_AUTOMATIC, current_operator_numeric := oper,
                     operator_list := map (mark_current oper) (operator_list n)\<rparr>), e))))
         else Ok (reply_net c [kCmeErrorInCorrectParameters] (n, e)))"

subsection \<open>The preferred network\<close>

definition HandleGetPreferredNetworkType :: "nat \<Rightarrow> network_service \<times> env \<Rightarrow> network_service \<times> env" where
  "HandleGetPreferredNetworkType c ne =
     reply_net c [''+CTEC: '' @ to_string (current_network_mode (fst ne)) @ '','' @
       hex_string digit_lower (preferred_network (fst ne)), ''OK''] ne"

definition HandleQuerySupportedTechs :: "nat \<Rightarrow> network_service \<times> env \<Rightarrow> network_service \<times> env" where
  "HandleQuerySupportedTechs c ne = reply_net c [''+CTEC: 0,1,5,6'', ''OK''] ne"

definition HandleSetPreferredNetworkType ::
  "data_service \<Rightarrow> nat \<Rightarrow> string \<Rightarrow> network_service \<times> env \<Rightarrow> (network_service \<times> env) result" where
  "HandleSetPreferredNetworkType data c command ne =
     (let (n, e) = ne;
          (current, cmd) = GetNextInt (SkipPrefix command);
          (preferred, cmd) = GetNextStr cmd
      in bind_result (stoi 16 preferred) (\<lambda>pmask.
         let n = (if pmask \<noteq> preferred_network n
                  then n\<lparr>current_network_mode := getModemTechFromPrefer pmask, preferred_network := pmask\<rparr>
                  else n);
             (line, n, e) =
               (if current \<noteq> current_network_mode n
                then let (n, e) = UpdateRegisterState data NET_REGISTRATION_UNREGISTERED (n, e)
                     in (''+CTEC: '' @ to_string (current_network_mode n), n,
                         post_cb (UpdateRegisterState_cb NET_REGISTRATION_HOME) 200 e)
                else (''+CTEC: DONE'', n, e));
             e = SaveToFile (set_nvram (\<lambda>v. v\<lparr>modem_technoloy := current_network_mode n,
                   preferred_network_mode := preferred_network n\<rparr>) e)
         in Ok (reply_net c [line, ''OK''] (n, e))))"

subsection \<open>Messages from outside\<close>

definition HandleReceiveRemoteVoiceDataReg ::
  "data_service \<Rightarrow> string \<Rightarrow> network_service \<times> env \<Rightarrow> (network_service \<times> env) result" where
  "HandleReceiveRemoteVoiceDataReg data command ne =
     bind_result (substr_from command (length ''AT+REMOTEREG:'')) (\<lambda>states.
     bind_result (stoi 10 states) (\<lambda>stated.
       let (n, e) = UpdateRegisterState data NET_REGISTRATION_UNREGISTERED ne
       in Ok (n, post_cb (UpdateRegisterState_cb stated) 1000 e)))"

definition HandleReceiveRemoteCTEC ::
  "data_service \<Rightarrow> string \<Rightarrow> network_service \<times> env \<Rightarrow> (network_service \<times> env) result" where
  "HandleReceiveRemoteCTEC data command ne =
     bind_result (substr_from command (length ''AT+REMOTECTEC: '')) (\<lambda>types.
     bind_result (stoi 10 types) (\<lambda>pmask.
       let (n, e) = ne;
           n = n\<lparr>preferred_network := pmask\<rparr>;
           mode = getModemTechFromPrefer pmask
       in if mode \<noteq> current_network_mode n
          then let saved_state = registration_state (voice_registration_status n);
                   (n, e) = UpdateRegisterState data NET_REGISTRATION_UNREGISTERED (n\<lparr>current_network_mode := mode\<rparr>, e)
               in Ok (n, post_cb (UpdateRegisterState_cb saved_state) 1000 e)
          else Ok (n, e)))"

definition HandleIdentifierDisclosure :: "string \<Rightarrow> network_service \<times> env \<Rightarrow> (network_service \<times> env) result" where
  "HandleIdentifierDisclosure command ne =
     bind_result (substr_from command 2) (\<lambda>line. Ok (fst ne, SendUnsolicitedCommand line (snd ne)))"

definition HandleSecurityAlgorithmUpdate :: "string \<Rightarrow> network_service \<times> env \<Rightarrow> (network_service \<times> env) result" where
  "HandleSecurityAlgorithmUpdate command ne =
     bind_result (substr_from command 2) (\<lambda>line. Ok (fst ne, SendUnsolicitedCommand line (snd ne)))"

subsection \<open>The command table\<close>

datatype network_command =
    Cmd_RadioPowerReq | Cmd_RadioPower | Cmd_SignalStrength | Cmd_QueryNetworkSelectionMode | Cmd_RequestOperator
  | Cmd_QueryAvailableNetwork | Cmd_SetNetworkSelectionMode | Cmd_VoiceNetworkRegistration
  | Cmd_DataNetworkRegistration | Cmd_GetPreferredNetworkType | Cmd_QuerySupportedTechs
  | Cmd_SetPreferredNetworkType | Cmd_RemoteCTEC | Cmd_RemoteSignal | Cmd_RemoteReg | Cmd_IdDisclosure
  | Cmd_SecurityAlgorithm

definition network_handlers :: "network_command CommandHandler list" where
  "network_handlers =
     [Full_Match ''+CFUN?'' Cmd_RadioPowerReq,
      Partial_Match ''+CFUN='' Cmd_RadioPower,
      Partial_Match ''+REMOTECFUN='' Cmd_RadioPower,
      Full_Match ''+CSQ'' Cmd_SignalStrength,
      Full_Match ''+COPS?'' Cmd_QueryNetworkSelectionMode,
      Full_Match ''+COPS=3,0;+COPS?;+COPS=3,1;+COPS?;+COPS=3,2;+COPS?'' Cmd_RequestOperator,
      Full_Match ''+COPS=?'' Cmd_QueryAvailableNetwork,
      Partial_Match ''+COPS='' Cmd_SetNetworkSelectionMode,
      Partial_Match ''+CREG'' Cmd_VoiceNetworkRegistration,
      Partial_Match ''+CGREG'' Cmd_DataNetworkRegistration,
      Partial_Match ''+CEREG'' Cmd_DataNetworkRegistration,
      Full_Match ''+CTEC?'' Cmd_GetPreferredNetworkType,
      Full_Match ''+CTEC=?'' Cmd_QuerySupportedTechs,
      Partial_Match ''+CTEC='' Cmd_SetPreferredNetworkType,
      Partial_Match ''+REMOTECTEC'' Cmd_RemoteCTEC,
      Partial_Match ''+REMOTESIGNAL'' Cmd_RemoteSignal,
      Partial_Match ''+REMOTEREG'' Cmd_RemoteReg,
      Partial_Match ''+REMOTEIDDISCLOSURE'' Cmd_IdDisclosure,
      Partial_Match ''+UPDATESECURITYALGORITHM'' Cmd_SecurityAlgorithm]"

record network_context =
  nc_sim_ready :: bool
  nc_misc :: misc_service
  nc_data :: data_service

primrec run_network_command ::
  "network_context \<Rightarrow> nat \<Rightarrow> network_command \<Rightarrow> string \<Rightarrow> network_service \<times> env \<Rightarrow> (network_service \<times> env) result"
where
  "run_network_command ctx c Cmd_RadioPowerReq command ne = Ok (HandleRadioPowerReq c ne)"
| "run_network_command ctx c Cmd_RadioPower command ne =
     Ok (HandleRadioPower (nc_sim_ready ctx) (nc_data ctx) c command ne)"
| "run_network_command ctx c Cmd_SignalStrength command ne = Ok (HandleSignalStrength (nc_misc ctx) c ne)"
| "run_network_command ctx c Cmd_QueryNetworkSelectionMode command ne = Ok (HandleQueryNetworkSelectionMode c ne)"
| "run_network_command ctx c Cmd_RequestOperator command ne = Ok (HandleRequestOperator c ne)"
| "run_network_command ctx c Cmd_QueryAvailableNetwork command ne = Ok (HandleQueryAvailableNetwork c ne)"
| "run_network_command ctx c Cmd_SetNetworkSelectionMode command ne = HandleSetNetworkSelectionMode c command ne"
| "run_network_command ctx c Cmd_VoiceNetworkRegistration command ne = Ok (HandleVoiceNetworkRegistration c command ne)"
| "run_network_command ctx c Cmd_DataNetworkRegistration command ne = Ok (HandleDataNetworkRegistration c command ne)"
| "run_network_command ctx c Cmd_GetPreferredNetworkType command ne = Ok (HandleGetPreferredNetworkType c ne)"
| "run_network_command ctx c Cmd_QuerySupportedTechs command ne = Ok (HandleQuerySupportedTechs c ne)"
| "run_network_command ctx c Cmd_SetPreferredNetworkType command ne =
     HandleSetPreferredNetworkType (nc_data ctx) c command ne"
| "run_network_command ctx c Cmd_RemoteCTEC command ne = HandleReceiveRemoteCTEC (nc_data ctx) command ne"
| "run_network_command ctx c Cmd_RemoteSignal command ne = HandleReceiveRemoteSignal command ne"
| "run_network_command ctx c Cmd_RemoteReg command ne = HandleReceiveRemoteVoiceDataReg (nc_data ctx) command ne"
| "run_network_command ctx c Cmd_IdDisclosure command ne = HandleIdentifierDisclosure command ne"
| "run_network_command ctx c Cmd_SecurityAlgorithm command ne = HandleSecurityAlgorithmUpdate command ne"

end
