(* ===== verification/Xml_Dom.thy ===== *)
theory Xml_Dom
  imports Prelude
begin

section \<open>The document object model of the ICC profile\<close>

text \<open>
  The SIM and the STK service keep the ICC profile as a \<^verbatim>\<open>tinyxml2\<close> document and hold pointers into it.
  The functions that save the state of the SIM in the profile and read it back take the library as an
  argument, a record of its functions, with its documented behaviour as the laws of a locale. The
  handlers that look into the profile run over a document given as a store of elements that are
  identified by their addresses, which has these laws: the child elements of an element in document
  order (\<^verbatim>\<open>FirstChildElement\<close>, \<^verbatim>\<open>NextSiblingElement\<close>), its name, its attributes and its text.
\<close>

subsection \<open>What is used of the library\<close>

text \<open>
  \<^verbatim>\<open>RootElement\<close>, \<^verbatim>\<open>FirstChildElement(name)\<close>, \<^verbatim>\<open>GetText\<close>, with \<^const>\<open>None\<close> for a null pointer, \<^verbatim>\<open>SetText\<close>;
  \<^verbatim>\<open>NewElement\<close> and \<^verbatim>\<open>InsertEndChild\<close> of the new element, without and with a \<^verbatim>\<open>NewText\<close> inserted into it; and
  what \<^verbatim>\<open>LoadFile\<close> gives for the file that \<^verbatim>\<open>SaveFile\<close> writes for a document.
\<close>

record ('d, 'n) xml_ops =
  xml_root :: "'d \<Rightarrow> 'n option"
  xml_first :: "'d \<Rightarrow> 'n \<Rightarrow> string \<Rightarrow> 'n option"
  xml_text :: "'d \<Rightarrow> 'n \<Rightarrow> string option"
  xml_set_text :: "'n \<Rightarrow> string \<Rightarrow> 'd \<Rightarrow> 'd"
  xml_append :: "'n \<Rightarrow> string \<Rightarrow> 'd \<Rightarrow> 'n \<times> 'd"
  xml_append_text :: "'n \<Rightarrow> string \<Rightarrow> string \<Rightarrow> 'd \<Rightarrow> 'n \<times> 'd"
  xml_reload :: "'d \<Rightarrow> 'd option"

text \<open>Text that a file keeps as it is: not empty, and no blanks or control characters.\<close>

definition plain_text :: "string \<Rightarrow> bool" where
  "plain_text t \<longleftrightarrow> t \<noteq> [] \<and> list_all (\<lambda>c. 33 \<le> (of_char c :: nat) \<and> of_char c \<le> (126 :: nat)) t"

text \<open>
  The laws, for well-formed documents and their elements. An element has one name and is not below itself. Setting a text
  changes that text only. A new element comes after the other children of its parent and has no
  children. A document that was saved and loaded has the same elements below each other under the same
  names, at other addresses, and their plain texts.
\<close>

locale xml_document =
  fixes ops :: "('d, 'n) xml_ops" and ok :: "'d \<Rightarrow> bool" and el :: "'d \<Rightarrow> 'n \<Rightarrow> bool"
  assumes root_el: "ok d \<Longrightarrow> xml_root ops d = Some x \<Longrightarrow> el d x"
    and first_el: "ok d \<Longrightarrow> el d x \<Longrightarrow> xml_first ops d x a = Some y \<Longrightarrow> el d y"
    and not_below_itself: "ok d \<Longrightarrow> el d x \<Longrightarrow> xml_first ops d x a \<noteq> Some x"
    and one_name: "ok d \<Longrightarrow> el d x \<Longrightarrow> xml_first ops d x a = Some y \<Longrightarrow> xml_first ops d x b = Some y \<Longrightarrow> a = b"
    and set_text: "ok d \<Longrightarrow> el d x \<Longrightarrow> ok (xml_set_text ops x t d) \<and> el (xml_set_text ops x t d) = el d \<and>
      xml_root ops (xml_set_text ops x t d) = xml_root ops d \<and> xml_first ops (xml_set_text ops x t d) = xml_first ops d \<and>
      xml_text ops (xml_set_text ops x t d) = (xml_text ops d)(x \<mapsto> t)"
    and append_new: "ok d \<Longrightarrow> el d x \<Longrightarrow> xml_append ops x a d = (y, d') \<Longrightarrow> ok d' \<and> \<not> el d y \<and>
      (\<forall>z. el d' z \<longleftrightarrow> el d z \<or> z = y) \<and> xml_root ops d' = xml_root ops d \<and>
      (\<forall>z b. el d z \<longrightarrow> xml_first ops d' z b =
         (if z = x \<and> b = a \<and> xml_first ops d x b = None then Some y else xml_first ops d z b)) \<and>
      (\<forall>b. xml_first ops d' y b = None) \<and> (\<forall>z. el d z \<longrightarrow> xml_text ops d' z = xml_text ops d z)"
    and append_text: "ok d \<Longrightarrow> el d x \<Longrightarrow> xml_append_text ops x a t d = (y, d') \<Longrightarrow> ok d' \<and> \<not> el d y \<and>
      (\<forall>z. el d' z \<longleftrightarrow> el d z \<or> z = y) \<and> xml_root ops d' = xml_root ops d \<and>
      (\<forall>z b. el d z \<longrightarrow> xml_first ops d' z b =
         (if z = x \<and> b = a \<and> xml_first ops d x b = None then Some y else xml_first ops d z b)) \<and>
      (\<forall>z. el d z \<longrightarrow> xml_text ops d' z = xml_text ops d z) \<and> xml_text ops d' y = Some t"
    and reload: "ok d \<Longrightarrow> \<exists>d' h. xml_reload ops d = Some d' \<and> xml_root ops d' = map_option h (xml_root ops d) \<and>
      (\<forall>x a. el d x \<longrightarrow> xml_first ops d' (h x) a = map_option h (xml_first ops d x a)) \<and>
      (\<forall>x t. el d x \<longrightarrow> xml_text ops d x = Some t \<longrightarrow> plain_text t \<longrightarrow> xml_text ops d' (h x) = Some t)"

subsection \<open>Documents as stores\<close>

record dom =
  dom_root :: "nat option"
  dom_children :: "nat \<Rightarrow> nat list"
  dom_name :: "nat \<Rightarrow> string"
  dom_attribute :: "nat \<Rightarrow> string \<Rightarrow> string option"
  dom_text :: "nat \<Rightarrow> string option"
  dom_next :: nat

definition FirstChildElement :: "dom \<Rightarrow> nat \<Rightarrow> string \<Rightarrow> nat option" where
  "FirstChildElement d x name = find (\<lambda>y. dom_name d y = name) (dom_children d x)"

definition children_named :: "dom \<Rightarrow> nat \<Rightarrow> string \<Rightarrow> nat list" where
  "children_named d x name = filter (\<lambda>y. dom_name d y = name) (dom_children d x)"

text \<open>\<^verbatim>\<open>GetText\<close> returns a null pointer for an element without text, which no caller checks.\<close>

definition GetText :: "dom \<Rightarrow> nat \<Rightarrow> string result" where
  "GetText d x = (case dom_text d x of None \<Rightarrow> Err Undefined_Behaviour | Some t \<Rightarrow> Ok t)"

definition SetText :: "nat \<Rightarrow> string \<Rightarrow> dom \<Rightarrow> dom" where
  "SetText x t d = d\<lparr>dom_text := (dom_text d)(x \<mapsto> t)\<rparr>"

text \<open>A text that is empty is not in the file.\<close>

definition reload_dom :: "dom \<Rightarrow> dom" where
  "reload_dom d = d\<lparr>dom_text := (\<lambda>x. if dom_text d x = Some [] then None else dom_text d x)\<rparr>"

definition AppendNewElement :: "nat \<Rightarrow> string \<Rightarrow> dom \<Rightarrow> nat \<times> dom" where
  "AppendNewElement parent name d =
     (let x = dom_next d
      in (x, d\<lparr>dom_next := dom_next d + 1, dom_name := (dom_name d)(x := name),
              dom_children := (dom_children d)(x := [], parent := dom_children d parent @ [x]),
              dom_attribute := (dom_attribute d)(x := (\<lambda>_. None)), dom_text := (dom_text d)(x := None)\<rparr>))"

definition AppendNewElementWithText :: "nat \<Rightarrow> string \<Rightarrow> string \<Rightarrow> dom \<Rightarrow> nat \<times> dom" where
  "AppendNewElementWithText parent name t d =
     (let (x, d) = AppendNewElement parent name d in (x, SetText x t d))"

text \<open>\<^verbatim>\<open>SimFileSystem::FindAttribute\<close>: the first child element with a given attribute value.\<close>

definition FindAttribute :: "dom \<Rightarrow> nat \<Rightarrow> string \<Rightarrow> string \<Rightarrow> nat option" where
  "FindAttribute d parent attr_name attr_value =
     find (\<lambda>y. dom_attribute d y attr_name = Some attr_value) (dom_children d parent)"

text \<open>
  Elements are numbered in the order of their creation, a parent before its children, so that a new
  element is different from the ones that are there and no element is below itself.
\<close>

definition dom_ok :: "dom \<Rightarrow> bool" where
  "dom_ok d \<longleftrightarrow> (\<forall>x. \<forall>y\<in>set (dom_children d x). x < y \<and> y < dom_next d) \<and>
     (\<forall>r. dom_root d = Some r \<longrightarrow> r < dom_next d)"

lemma dom_SetText [simp]:
  "dom_root (SetText x t d) = dom_root d" "dom_children (SetText x t d) = dom_children d"
  "dom_name (SetText x t d) = dom_name d" "dom_attribute (SetText x t d) = dom_attribute d"
  "dom_next (SetText x t d) = dom_next d" "dom_text (SetText x t d) = (dom_text d)(x \<mapsto> t)"
  by (simp_all add: SetText_def)

lemma FirstChildElement_SetText [simp]: "FirstChildElement (SetText x t d) y name = FirstChildElement d y name"
  by (simp add: FirstChildElement_def)

lemma FindAttribute_SetText [simp]: "FindAttribute (SetText x t d) y a v = FindAttribute d y a v"
  by (simp add: FindAttribute_def)

lemma find_some_in: "find P xs = Some x \<Longrightarrow> x \<in> set xs \<and> P x"
  by (induction xs) (auto split: if_splits)

lemma FirstChildElement_in:
  "FirstChildElement d x name = Some y \<Longrightarrow> y \<in> set (dom_children d x) \<and> dom_name d y = name"
  unfolding FirstChildElement_def by (drule find_some_in) simp

lemma dom_ok_SetText [simp]: "dom_ok (SetText x t d) = dom_ok d"
  by (simp add: dom_ok_def)

text \<open>Appending below \<open>x\<close>: the new element is found last, and only below \<open>x\<close>.\<close>

lemma find_cong_set: "(\<And>y. y \<in> set ys \<Longrightarrow> P y = Q y) \<Longrightarrow> find P ys = find Q ys"
  by (induction ys) auto

lemma find_append_last: "find P (xs @ [y]) = (case find P xs of None \<Rightarrow> if P y then Some y else None | Some x \<Rightarrow> Some x)"
  by (induction xs) auto

lemma AppendNewElementWithText_eq:
  "AppendNewElementWithText x a t d = (dom_next d, SetText (dom_next d) t (snd (AppendNewElement x a d)))"
  by (simp add: AppendNewElementWithText_def AppendNewElement_def Let_def)

lemma AppendNewElement_simps [simp]:
  "fst (AppendNewElement x a d) = dom_next d"
  "dom_root (snd (AppendNewElement x a d)) = dom_root d"
  "dom_next (snd (AppendNewElement x a d)) = dom_next d + 1"
  by (simp_all add: AppendNewElement_def Let_def)

lemma dom_ok_AppendNewElement:
  assumes "dom_ok d" and "x < dom_next d"
  shows "dom_ok (snd (AppendNewElement x a d))"
  unfolding dom_ok_def
proof (intro conjI allI ballI impI)
  fix z y assume "y \<in> set (dom_children (snd (AppendNewElement x a d)) z)"
  then show "z < y" "y < dom_next (snd (AppendNewElement x a d))"
    using assms by (auto simp: dom_ok_def AppendNewElement_def Let_def less_SucI split: if_splits)
qed (use assms in \<open>auto simp: dom_ok_def less_SucI\<close>)

lemma dom_ok_children_old: "dom_ok d \<Longrightarrow> dom_children d (dom_next d) = []"
  unfolding dom_ok_def using not_less_iff_gr_or_eq by (metis last_in_set less_trans)

lemma FirstChildElement_AppendNewElement:
  assumes "dom_ok d" and "x < dom_next d" and "z < dom_next d"
  shows "FirstChildElement (snd (AppendNewElement x a d)) z m =
    (if z = x \<and> m = a \<and> FirstChildElement d x m = None then Some (dom_next d) else FirstChildElement d z m)"
proof -
  define P where "P = (\<lambda>y. (if y = dom_next d then a else dom_name d y) = m)"
  have old: "find P (dom_children d z) = FirstChildElement d z m"
    unfolding FirstChildElement_def P_def using assms(1) by (intro find_cong_set) (auto simp: dom_ok_def)
  have "FirstChildElement (snd (AppendNewElement x a d)) z m =
     find P (dom_children d z @ (if z = x then [dom_next d] else []))"
    using assms(3) by (auto simp: FirstChildElement_def AppendNewElement_def Let_def P_def)
  moreover have "P (dom_next d) = (a = m)" by (simp add: P_def)
  ultimately show ?thesis using old by (auto simp: find_append_last split: option.split)
qed

lemma dom_text_AppendNewElement: "y < dom_next d \<Longrightarrow> dom_text (snd (AppendNewElement x a d)) y = dom_text d y"
  by (simp add: AppendNewElement_def Let_def)

lemma FirstChildElement_old: "dom_ok d \<Longrightarrow> FirstChildElement d x m = Some y \<Longrightarrow> x < y \<and> y < dom_next d"
  using FirstChildElement_in by (force simp: dom_ok_def)

text \<open>The stores have the laws.\<close>

definition dom_xml :: "(dom, nat) xml_ops" where
  "dom_xml = \<lparr>xml_root = dom_root, xml_first = FirstChildElement, xml_text = dom_text, xml_set_text = SetText,
     xml_append = AppendNewElement, xml_append_text = AppendNewElementWithText, xml_reload = (\<lambda>d. Some (reload_dom d))\<rparr>"

lemma dom_xml_simps [simp]:
  "xml_root dom_xml = dom_root" "xml_first dom_xml = FirstChildElement" "xml_text dom_xml = dom_text"
  "xml_set_text dom_xml = SetText" "xml_append dom_xml = AppendNewElement"
  "xml_append_text dom_xml = AppendNewElementWithText" "xml_reload dom_xml d = Some (reload_dom d)"
  by (simp_all add: dom_xml_def)

interpretation store: xml_document dom_xml dom_ok "\<lambda>d x. x < dom_next d"
proof unfold_locales
  fix d x y z a b t d'
  assume ok: "dom_ok d"
  show "x < dom_next d" if "xml_root dom_xml d = Some x" using ok that by (simp add: dom_ok_def)
  show "\<exists>d' h. xml_reload dom_xml d = Some d' \<and> xml_root dom_xml d' = map_option h (xml_root dom_xml d) \<and>
      (\<forall>x a. x < dom_next d \<longrightarrow> xml_first dom_xml d' (h x) a = map_option h (xml_first dom_xml d x a)) \<and>
      (\<forall>x t. x < dom_next d \<longrightarrow> xml_text dom_xml d x = Some t \<longrightarrow> plain_text t \<longrightarrow> xml_text dom_xml d' (h x) = Some t)"
    by (intro exI [of _ "reload_dom d"] exI [of _ id])
      (auto simp: reload_dom_def FirstChildElement_def plain_text_def option.map_id)
  assume x: "x < dom_next d"
  show "y < dom_next d" if "xml_first dom_xml d x a = Some y" using FirstChildElement_old [OF ok] that by simp
  show "xml_first dom_xml d x a \<noteq> Some x" using FirstChildElement_old [OF ok, of x a x] by auto
  show "a = b" if "xml_first dom_xml d x a = Some y" "xml_first dom_xml d x b = Some y"
    using FirstChildElement_in [of d x a y] FirstChildElement_in [of d x b y] that by simp
  show "dom_ok (xml_set_text dom_xml x t d) \<and> (\<lambda>z. z < dom_next (xml_set_text dom_xml x t d)) = (\<lambda>z. z < dom_next d) \<and>
      xml_root dom_xml (xml_set_text dom_xml x t d) = xml_root dom_xml d \<and>
      xml_first dom_xml (xml_set_text dom_xml x t d) = xml_first dom_xml d \<and>
      xml_text dom_xml (xml_set_text dom_xml x t d) = (xml_text dom_xml d)(x \<mapsto> t)"
    using ok by (simp add: fun_eq_iff)
  have new: "FirstChildElement (snd (AppendNewElement x a d)) (dom_next d) b = None" for b
    using x by (simp add: FirstChildElement_def AppendNewElement_def Let_def)
  show "dom_ok d' \<and> \<not> y < dom_next d \<and> (\<forall>z. (z < dom_next d') = (z < dom_next d \<or> z = y)) \<and>
      xml_root dom_xml d' = xml_root dom_xml d \<and>
      (\<forall>z b. z < dom_next d \<longrightarrow> xml_first dom_xml d' z b =
         (if z = x \<and> b = a \<and> xml_first dom_xml d x b = None then Some y else xml_first dom_xml d z b)) \<and>
      (\<forall>b. xml_first dom_xml d' y b = None) \<and> (\<forall>z. z < dom_next d \<longrightarrow> xml_text dom_xml d' z = xml_text dom_xml d z)"
    if "xml_append dom_xml x a d = (y, d')"
  proof -
    have "y = dom_next d" "d' = snd (AppendNewElement x a d)" using that by (simp_all add: prod_eq_iff)
    then show ?thesis using ok x new
      by (auto simp: dom_ok_AppendNewElement FirstChildElement_AppendNewElement dom_text_AppendNewElement)
  qed
  show "dom_ok d' \<and> \<not> y < dom_next d \<and> (\<forall>z. (z < dom_next d') = (z < dom_next d \<or> z = y)) \<and>
      xml_root dom_xml d' = xml_root dom_xml d \<and>
      (\<forall>z b. z < dom_next d \<longrightarrow> xml_first dom_xml d' z b =
         (if z = x \<and> b = a \<and> xml_first dom_xml d x b = None then Some y else xml_first dom_xml d z b)) \<and>
      (\<forall>z. z < dom_next d \<longrightarrow> xml_text dom_xml d' z = xml_text dom_xml d z) \<and> xml_text dom_xml d' y = Some t"
    if "xml_append_text dom_xml x a t d = (y, d')"
  proof -
    have "y = dom_next d" "d' = SetText (dom_next d) t (snd (AppendNewElement x a d))"
      using that by (auto simp: AppendNewElementWithText_eq)
    then show ?thesis using ok x
      by (auto simp: dom_ok_AppendNewElement FirstChildElement_AppendNewElement dom_text_AppendNewElement)
  qed
qed

end
