(* ===== verification/Sim_Service.thy ===== *)
theory Sim_Service
  imports Network_Service Xml_Dom
begin

section \<open>The SIM\<close>

text \<open>
  \<^verbatim>\<open>sim_service.h\<close> and \<^verbatim>\<open>sim_service.cpp\<close>: PIN and PUK, facility locks, logical channels, and the files
  of the ICC profile. The files that the constructor looks for on the host are an argument: the
  document that was loaded, if any. Where the source leaves a member uninitialised its value is an
  argument of the initialisation (the PIN state of an absent SIM) or \<^const>\<open>None\<close>. Saving to the profile and
  reading from it take the XML library as an argument; the rest of the service uses documents that are
  stores of elements.
\<close>

datatype SimStatus = SIM_STATUS_ABSENT | SIM_STATUS_NOT_READY | SIM_STATUS_READY | SIM_STATUS_PIN | SIM_STATUS_PUK

subsection \<open>PIN and PUK\<close>

definition kSimPinMaxRetryTimes :: int where "kSimPinMaxRetryTimes = 3"
definition kSimPukMaxRetryTimes :: int where "kSimPukMaxRetryTimes = 10"

record PinStatus =
  pin :: string
  puk :: string
  pin_remaining_times :: int
  puk_remaining_times :: int

datatype ChangeMode = WITH_PIN | WITH_PUK

definition CheckPasswordValid :: "string \<Rightarrow> bool" where
  "CheckPasswordValid password \<longleftrightarrow> list_all (\<lambda>c. 48 \<le> (of_char c :: nat) \<and> of_char c \<le> (57 :: nat)) password"

definition VerifyPIN :: "string \<Rightarrow> PinStatus \<Rightarrow> bool \<times> PinStatus" where
  "VerifyPIN p st =
     (if length p < 4 \<or> length p > 8 then (False, st)
      else if \<not> CheckPasswordValid p then (False, st)
      else if pin_remaining_times st \<le> 0 then (False, st)
      else if p = pin st then (True, st\<lparr>pin_remaining_times := kSimPinMaxRetryTimes\<rparr>)
      else (False, st\<lparr>pin_remaining_times := pin_remaining_times st - 1\<rparr>))"

definition VerifyPUK :: "string \<Rightarrow> PinStatus \<Rightarrow> bool \<times> PinStatus" where
  "VerifyPUK p st =
     (if length p \<noteq> 8 then (False, st)
      else if \<not> CheckPasswordValid p then (False, st)
      else if puk_remaining_times st \<le> 0 then (False, st)
      else if p = puk st
      then (True, st\<lparr>pin_remaining_times := kSimPinMaxRetryTimes, puk_remaining_times := kSimPukMaxRetryTimes\<rparr>)
      else (False, st\<lparr>puk_remaining_times := puk_remaining_times st - 1\<rparr>))"

definition ChangePIN :: "ChangeMode \<Rightarrow> string \<Rightarrow> string \<Rightarrow> PinStatus \<Rightarrow> bool \<times> PinStatus" where
  "ChangePIN mode pin_or_puk new_pin st =
     (if length new_pin < 4 \<or> length new_pin > 8 then (False, st)
      else
        let (ok, st) = (case mode of WITH_PIN \<Rightarrow> VerifyPIN pin_or_puk st | WITH_PUK \<Rightarrow> VerifyPUK pin_or_puk st)
        in if \<not> ok then (False, st)
           else if \<not> CheckPasswordValid new_pin then (False, st)
           else (True, st\<lparr>pin := new_pin\<rparr>))"

definition ChangePUK :: "string \<Rightarrow> string \<Rightarrow> PinStatus \<Rightarrow> bool \<times> PinStatus" where
  "ChangePUK p new_puk st =
     (let (ok, st) = VerifyPUK p st in
      if \<not> ok then (False, st)
      else if length new_puk \<noteq> 8 then (False, st)
      else (True, st\<lparr>puk := new_puk\<rparr>))"

subsection \<open>State\<close>

record LogicalChannel =
  df_name :: string
  channel_is_open :: bool
  session_id :: int

text \<open>
  The locks of the map \<^verbatim>\<open>facility_lock_\<close> in key order, with true for \<^verbatim>\<open>ENABLE\<close>; the document, and the
  one that was saved last.
\<close>

record 'd profiled_sim =
  sim_status :: SimStatus
  pin1_status :: PinStatus
  pin2_status :: PinStatus
  facility_lock :: "(string \<times> bool) list"
  logical_channels :: "LogicalChannel list"
  last_file_id :: string
  cdma_subscription_source :: "int option"
  cdma_roaming_preference :: "int option"
  doc :: 'd
  saved_doc :: "'d option"

type_synonym sim_service = "dom profiled_sim"

definition default_pin :: PinStatus where
  "default_pin = \<lparr>pin = ''1234'', puk = ''12345678'', pin_remaining_times = kSimPinMaxRetryTimes,
     puk_remaining_times = kSimPukMaxRetryTimes\<rparr>"

definition lock_names :: "string list" where
  "lock_names = [''AB'', ''AC'', ''AG'', ''AI'', ''AO'', ''FD'', ''IR'', ''OI'', ''OX'', ''SC'']"

subsection \<open>Initialisation from the profile\<close>

definition child_text :: "('d, 'n) xml_ops \<Rightarrow> 'd \<Rightarrow> 'n \<Rightarrow> string \<Rightarrow> string option result" where
  "child_text ops d x name =
     (case xml_first ops d x name of
        None \<Rightarrow> Ok None
      | Some y \<Rightarrow> (case xml_text ops d y of None \<Rightarrow> Err Undefined_Behaviour | Some t \<Rightarrow> Ok (Some t)))"

definition child_int :: "('d, 'n) xml_ops \<Rightarrow> 'd \<Rightarrow> 'n \<Rightarrow> string \<Rightarrow> int \<Rightarrow> int result" where
  "child_int ops d x name dflt =
     bind_result (child_text ops d x name) (\<lambda>t. case t of None \<Rightarrow> Ok dflt | Some s \<Rightarrow> stoi 10 s)"

definition child_or :: "('d, 'n) xml_ops \<Rightarrow> 'd \<Rightarrow> 'n \<Rightarrow> string \<Rightarrow> string \<Rightarrow> string result" where
  "child_or ops d x name dflt =
     bind_result (child_text ops d x name) (\<lambda>t. Ok (case t of None \<Rightarrow> dflt | Some s \<Rightarrow> s))"

definition read_pin :: "('d, 'n) xml_ops \<Rightarrow> 'd \<Rightarrow> 'n \<Rightarrow> string \<Rightarrow> string \<Rightarrow> string \<Rightarrow> string \<Rightarrow> PinStatus result" where
  "read_pin ops d x pin_code puk_code pin_times puk_times =
     bind_result (child_or ops d x pin_code (pin default_pin)) (\<lambda>p.
     bind_result (child_or ops d x puk_code (puk default_pin)) (\<lambda>k.
     bind_result (child_int ops d x pin_times (pin_remaining_times default_pin)) (\<lambda>pt.
     bind_result (child_int ops d x puk_times (puk_remaining_times default_pin)) (\<lambda>kt.
       Ok \<lparr>pin = p, puk = k, pin_remaining_times = pt, puk_remaining_times = kt\<rparr>))))"

definition InitializeSimFileSystemAndSimState :: "('d, 'n) xml_ops \<Rightarrow> 'd option \<Rightarrow> 'd profiled_sim \<Rightarrow> 'd profiled_sim result" where
  "InitializeSimFileSystemAndSimState ops loaded s =
     (case loaded of
        None \<Rightarrow> Ok (s\<lparr>sim_status := SIM_STATUS_ABSENT\<rparr>)
      | Some d \<Rightarrow>
          (case xml_root ops d of
             None \<Rightarrow> Ok (s\<lparr>sim_status := SIM_STATUS_ABSENT, doc := d\<rparr>)
           | Some root \<Rightarrow>
               (case xml_first ops d root ''PinProfile'' of
                  None \<Rightarrow> Ok (s\<lparr>sim_status := SIM_STATUS_READY, pin1_status := default_pin,
                            pin2_status := default_pin, doc := d\<rparr>)
                | Some profile \<Rightarrow>
                    bind_result (child_text ops d profile ''PINSTATE'') (\<lambda>state.
                    bind_result (read_pin ops d profile ''PINCODE'' ''PUKCODE'' ''PINREMAINTIMES'' ''PUKREMAINTIMES'') (\<lambda>p1.
                    bind_result (read_pin ops d profile ''PIN2CODE'' ''PUK2CODE'' ''PIN2REMAINTIMES'' ''PUK2REMAINTIMES'') (\<lambda>p2.
                      Ok (s\<lparr>sim_status :=
                              (if state = Some ''PINSTATE_ENABLED_NOT_VERIFIED'' then SIM_STATUS_PIN
                               else if state = Some ''PINSTATE_ENABLED_BLOCKED'' then SIM_STATUS_PUK
                               else SIM_STATUS_READY),
                            pin1_status := p1, pin2_status := p2, doc := d\<rparr>)))))))"

fun read_locks :: "('d, 'n) xml_ops \<Rightarrow> 'd \<Rightarrow> 'n \<Rightarrow> string list \<Rightarrow> (string \<times> bool) list result" where
  "read_locks ops d x [] = Ok []"
| "read_locks ops d x (name # names) =
     bind_result (child_text ops d x name) (\<lambda>t.
     bind_result (read_locks ops d x names) (\<lambda>rest. Ok ((name, t = Some ''ENABLE'') # rest)))"

definition InitializeFacilityLock :: "('d, 'n) xml_ops \<Rightarrow> 'd profiled_sim \<Rightarrow> 'd profiled_sim result" where
  "InitializeFacilityLock ops s =
     (let s = s\<lparr>facility_lock := map (\<lambda>n. (n, False)) lock_names\<rparr> in
      case xml_root ops (doc s) of
        None \<Rightarrow> Ok (s\<lparr>sim_status := SIM_STATUS_ABSENT\<rparr>)
      | Some root \<Rightarrow>
          (case xml_first ops (doc s) root ''FacilityLock'' of
             None \<Rightarrow> Ok s
           | Some x \<Rightarrow> bind_result (read_locks ops (doc s) x lock_names) (\<lambda>locks. Ok (s\<lparr>facility_lock := locks\<rparr>))))"

definition empty_dom :: dom where
  "empty_dom = \<lparr>dom_root = None, dom_children = (\<lambda>_. []), dom_name = (\<lambda>_. []), dom_attribute = (\<lambda>_ _. None),
     dom_text = (\<lambda>_. None), dom_next = 0\<rparr>"

definition init_sim_service :: "PinStatus \<Rightarrow> PinStatus \<Rightarrow> dom option \<Rightarrow> sim_service result" where
  "init_sim_service junk1 junk2 loaded =
     bind_result (InitializeSimFileSystemAndSimState dom_xml loaded
       \<lparr>sim_status = SIM_STATUS_ABSENT, pin1_status = junk1, pin2_status = junk2, facility_lock = [],
        logical_channels = [], last_file_id = [], cdma_subscription_source = None, cdma_roaming_preference = None,
        doc = empty_dom, saved_doc = None\<rparr>) (\<lambda>s.
     bind_result (InitializeFacilityLock dom_xml s) (\<lambda>s.
       Ok (s\<lparr>logical_channels := map (\<lambda>i. \<lparr>df_name = [], channel_is_open = False, session_id = i\<rparr>) [1, 2, 3]\<rparr>)))"

subsection \<open>Saving to the profile\<close>

text \<open>\<^verbatim>\<open>FirstChildElement(name)\<close>, then \<^verbatim>\<open>AppendNewElementWithText\<close> under a name or \<^verbatim>\<open>SetText\<close>.\<close>

definition put_child :: "('d, 'n) xml_ops \<Rightarrow> 'n \<Rightarrow> string \<Rightarrow> string \<Rightarrow> string \<Rightarrow> 'd \<Rightarrow> 'd" where
  "put_child ops x name append_name t d =
     (case xml_first ops d x name of
        None \<Rightarrow> snd (xml_append_text ops x append_name t d)
      | Some y \<Rightarrow> xml_set_text ops y t d)"

definition lock_enabled :: "'d profiled_sim \<Rightarrow> string \<Rightarrow> bool" where
  "lock_enabled s name \<longleftrightarrow> map_of (facility_lock s) name = Some True"

definition pin_state_text :: "'d profiled_sim \<Rightarrow> string" where
  "pin_state_text s =
     (if sim_status s = SIM_STATUS_PUK then ''PINSTATE_ENABLED_BLOCKED''
      else if lock_enabled s ''SC'' then ''PINSTATE_ENABLED_NOT_VERIFIED'' else ''PINSTATE_UNKNOWN'')"

text \<open>The remaining PIN2 attempts are appended under the name of the PIN1 attempts.\<close>

definition SavePinStateToIccProfile :: "('d, 'n) xml_ops \<Rightarrow> 'd profiled_sim \<Rightarrow> 'd profiled_sim" where
  "SavePinStateToIccProfile ops s =
     (case xml_root ops (doc s) of
        None \<Rightarrow> s\<lparr>sim_status := SIM_STATUS_ABSENT\<rparr>
      | Some root \<Rightarrow>
          (let (x, d) = (case xml_first ops (doc s) root ''PinProfile'' of
                           None \<Rightarrow> xml_append ops root ''PinProfile'' (doc s)
                         | Some x \<Rightarrow> (x, doc s));
               p1 = pin1_status s; p2 = pin2_status s;
               d = put_child ops x ''PINSTATE'' ''PINSTATE'' (pin_state_text s) d;
               d = put_child ops x ''PINCODE'' ''PINCODE'' (pin p1) d;
               d = put_child ops x ''PUKCODE'' ''PUKCODE'' (puk p1) d;
               d = put_child ops x ''PINREMAINTIMES'' ''PINREMAINTIMES'' (to_string (pin_remaining_times p1)) d;
               d = put_child ops x ''PUKREMAINTIMES'' ''PUKREMAINTIMES'' (to_string (puk_remaining_times p1)) d;
               d = put_child ops x ''PIN2CODE'' ''PIN2CODE'' (pin p2) d;
               d = put_child ops x ''PUK2CODE'' ''PUK2CODE'' (puk p2) d;
               d = put_child ops x ''PIN2REMAINTIMES'' ''PINREMAINTIMES'' (to_string (pin_remaining_times p2)) d;
               d = put_child ops x ''PUK2REMAINTIMES'' ''PUK2REMAINTIMES'' (to_string (puk_remaining_times p2)) d
           in s\<lparr>doc := d, saved_doc := Some d\<rparr>))"

fun put_locks :: "('d, 'n) xml_ops \<Rightarrow> 'n \<Rightarrow> (string \<times> bool) list \<Rightarrow> 'd \<Rightarrow> 'd" where
  "put_locks ops x [] d = d"
| "put_locks ops x ((name, on) # locks) d =
     put_locks ops x locks (put_child ops x name name (if on then ''ENABLE'' else ''DISABLE'') d)"

definition SaveFacilityLockToIccProfile :: "('d, 'n) xml_ops \<Rightarrow> 'd profiled_sim \<Rightarrow> 'd profiled_sim result" where
  "SaveFacilityLockToIccProfile ops s =
     (case xml_root ops (doc s) of
        None \<Rightarrow> Ok (s\<lparr>sim_status := SIM_STATUS_ABSENT\<rparr>)
      | Some root \<Rightarrow>
          (let (x, d) = (case xml_first ops (doc s) root ''FacilityLock'' of
                           None \<Rightarrow> xml_append ops root ''FacilityLock'' (doc s)
                         | Some x \<Rightarrow> (x, doc s));
               d = put_locks ops x (facility_lock s) d
           in bind_result (InitializeSimFileSystemAndSimState ops (xml_reload ops d) (s\<lparr>doc := d, saved_doc := Some d\<rparr>))
                (InitializeFacilityLock ops)))"

definition IsFDNEnabled :: "sim_service \<Rightarrow> bool" where
  "IsFDNEnabled s \<longleftrightarrow> lock_enabled s ''FD''"

subsection \<open>Files\<close>

definition GetCommonIccEFPath :: "int \<Rightarrow> string" where
  "GetCommonIccEFPath efid =
     (if efid \<in> {0x6F3A, 0x6F3B, 0x6F40, 0x6F49, 0x6F4A, 0x6F4B, 0x6F4C, 0x6FE5} then ''3F007F10''
      else if efid \<in> {0x2FE2, 0x2F05} then ''3F00''
      else if efid = 0x4F30 then ''3F007F105F3A''
      else if efid = 0x4F20 then ''3F007F105F50''
      else [])"

definition GetUsimEFPath :: "int \<Rightarrow> string" where
  "GetUsimEFPath efid =
     (if efid \<in> {0x6F3C, 0x6F4E, 0x6FC8, 0x6FCA, 0x6FC9, 0x6F46, 0x6FAD, 0x6FC7, 0x6FC5, 0x6FC6, 0x6FCD, 0x6F38,
         0x6FCB, 0x6F17, 0x6F11, 0x6F13, 0x6F14, 0x6F18, 0x6F3B, 0x6F49, 0x6F4C, 0x6F40, 0x6F4B, 0x6F16, 0x6F15,
         0x6F3E, 0x6F3F, 0x6F05, 0x6F60, 0x6F61, 0x6F62, 0x6FD9, 0x6F7B, 0x6FDC, 0x6F31} then ''3F007FFF''
      else if efid = 0x4F30 then ''3F007F105F3A''
      else let path = GetCommonIccEFPath efid in if path = [] then ''3F007F105F3A'' else path)"

text \<open>The loop that follows a path in steps of four characters.\<close>

function follow_path :: "dom \<Rightarrow> nat \<Rightarrow> string \<Rightarrow> nat option" where
  "follow_path d parent path =
     (if path = [] then Some parent
      else case FindAttribute d parent ''path'' (take 4 path) of
             None \<Rightarrow> None
           | Some app \<Rightarrow> follow_path d app (drop 4 path))"
  by pat_completeness auto
termination
  by (relation "measure (\<lambda>(d, parent, path). length path)") auto

declare follow_path.simps [simp del]

text \<open>A character of a record as a \<^verbatim>\<open>char\<close> that is signed, less \<^verbatim>\<open>'0'\<close>.\<close>

definition digit_minus_0 :: "char \<Rightarrow> int" where
  "digit_minus_0 c = (let n = int (of_char c) in (if n \<ge> 128 then n - 256 else n) - 48)"

text \<open>
  The number in the footer of an ADN record. A record of fewer than 28 characters is indexed out of
  range; a negative length becomes a very large one.
\<close>

definition record_number :: "string \<Rightarrow> string option result" where
  "record_number record =
     (if length record < 28 then Err Undefined_Behaviour
      else
        let footerOffset = length record - 28;
            numberLength = digit_minus_0 (record ! footerOffset) * 16 + digit_minus_0 (record ! (footerOffset + 1));
            cut = (\<lambda>pos (n :: int). if n < 0 then drop pos record else take (nat n) (drop pos record))
        in if numberLength > 11 then Ok None
           else if numberLength * 2 = 16 then Ok (Some (BCDToString (cut (footerOffset + 6) (numberLength * 2 - 4))))
           else Ok (Some (BCDToString (cut (footerOffset + 4) (numberLength * 2 - 2)))))"

fun any_record :: "dom \<Rightarrow> string \<Rightarrow> nat list \<Rightarrow> bool result" where
  "any_record d num [] = Ok False"
| "any_record d num (x # xs) =
     bind_result (bind_result (GetText d x) record_number) (\<lambda>n.
       if n = Some num then Ok True else any_record d num xs)"

definition IsFixedDialNumber :: "string \<Rightarrow> sim_service \<Rightarrow> bool result" where
  "IsFixedDialNumber num s =
     (let d = doc s in
      case dom_root d of
        None \<Rightarrow> Ok False
      | Some root \<Rightarrow>
          (case follow_path d root (GetUsimEFPath 0x6F3B) of
             None \<Rightarrow> Ok False
           | Some parent \<Rightarrow>
               (case FindAttribute d parent ''id'' ''6F3B'' of
                  None \<Rightarrow> Ok False
                | Some ef \<Rightarrow> any_record d num (children_named d ef ''SIMIO''))))"

definition GetPhoneNumberElement :: "sim_service \<Rightarrow> nat option" where
  "GetPhoneNumberElement s =
     (let d = doc s in
      case dom_root d of
        None \<Rightarrow> None
      | Some root \<Rightarrow>
          (case follow_path d root (GetUsimEFPath 0x6F40) of
             None \<Rightarrow> None
           | Some parent \<Rightarrow>
               (case FindAttribute d parent ''id'' ''6F40'' of
                  None \<Rightarrow> None
                | Some ef \<Rightarrow> FindAttribute d ef ''cmd'' ''B2'')))"

definition GetPhoneNumber :: "sim_service \<Rightarrow> string result" where
  "GetPhoneNumber s =
     (case GetPhoneNumberElement s of
        None \<Rightarrow> Ok []
      | Some x \<Rightarrow> bind_result (bind_result (GetText (doc s) x) record_number) (\<lambda>n.
          Ok (case n of None \<Rightarrow> [] | Some num \<Rightarrow> num)))"

text \<open>
  The branch for twelve digits is behind a check that rejects more than eleven. A short record makes
  \<^verbatim>\<open>replace\<close> throw, or is indexed out of range.
\<close>

definition SetPhoneNumber :: "string \<Rightarrow> sim_service \<Rightarrow> (bool \<times> sim_service) result" where
  "SetPhoneNumber num s =
     (if length num > 11 then Ok (False, s)
      else case GetPhoneNumberElement s of
        None \<Rightarrow> Ok (False, s)
      | Some x \<Rightarrow>
          bind_result (GetText (doc s) x) (\<lambda>record.
            if length record < 24 then Err Out_Of_Range
            else if length record < 28 then Err Undefined_Behaviour
            else
              let footerOffset = length record - 28;
                  bcd_number = StringToBCD num;
                  record = take (footerOffset + 4) record @ bcd_number @
                             drop (footerOffset + 4 + length bcd_number) record;
                  newLength = (length bcd_number + 2) div 2;
                  record = record[footerOffset := char_of (48 + newLength div 16),
                                  footerOffset + 1 := char_of (48 + newLength mod 16)];
                  d = SetText x record (doc s)
              in Ok (True, s\<lparr>doc := d, saved_doc := Some d\<rparr>)))"

fun find_cmd :: "dom \<Rightarrow> string \<Rightarrow> nat list \<Rightarrow> nat option" where
  "find_cmd d v [] = None"
| "find_cmd d v (x # xs) = (if dom_attribute d x ''cmd'' = Some v then Some x else find_cmd d v xs)"

text \<open>\<^verbatim>\<open>length.substr(length.size() - 2)\<close> throws for a shorter text.\<close>

definition last_two :: "string \<Rightarrow> string result" where
  "last_two t = (if length t < 2 then Err Out_Of_Range else Ok (drop (length t - 2) t))"

definition GetSimOperator :: "sim_service \<Rightarrow> string result" where
  "GetSimOperator s =
     (let d = doc s in
      case dom_root d of None \<Rightarrow> Ok [] | Some root \<Rightarrow>
      (case FindAttribute d root ''path'' ''3F00'' of None \<Rightarrow> Ok [] | Some mf \<Rightarrow>
      (case FindAttribute d mf ''path'' ''7FFF'' of None \<Rightarrow> Ok [] | Some df \<Rightarrow>
      (case FindAttribute d df ''id'' ''6F07'' of None \<Rightarrow> Ok [] | Some ef \<Rightarrow>
      (case FirstChildElement d ef ''CIMI'' of None \<Rightarrow> Ok [] | Some cimi \<Rightarrow>
        bind_result (GetText d cimi) (\<lambda>imsi.
        case FindAttribute d df ''id'' ''6FAD'' of None \<Rightarrow> Ok [] | Some ef \<Rightarrow>
        (case find_cmd d ''B0'' (children_named d ef ''SIMIO'') of None \<Rightarrow> Ok [] | Some sim_io \<Rightarrow>
           bind_result (bind_result (GetText d sim_io) last_two) (\<lambda>mnc.
           bind_result (stoi 10 mnc) (\<lambda>mnc_size.
             Ok (if 3 + mnc_size < 0 then imsi else take (nat (3 + mnc_size)) imsi))))))))))"

subsection \<open>Commands\<close>

text \<open>A handler works on the SIM, the network service that is told of a status change, and the environment.\<close>

type_synonym sim_state = "sim_service \<times> network_service \<times> env"

definition reply_sim :: "nat \<Rightarrow> string list \<Rightarrow> sim_state \<Rightarrow> sim_state" where
  "reply_sim c responses st = (case st of (s, n, e) \<Rightarrow> (s, n, SendCommandResponses c responses e))"

definition SimOnSimStatusChanged :: "sim_state \<Rightarrow> sim_state" where
  "SimOnSimStatusChanged st =
     (case st of (s, ne) \<Rightarrow> (s, OnSimStatusChanged (sim_status s = SIM_STATUS_READY) ne))"

primrec gSimStatusResponse :: "SimStatus \<Rightarrow> string" where
  "gSimStatusResponse SIM_STATUS_ABSENT = kCmeErrorSimNotInserted"
| "gSimStatusResponse SIM_STATUS_NOT_READY = kCmeErrorSimBusy"
| "gSimStatusResponse SIM_STATUS_READY = ''+CPIN: READY''"
| "gSimStatusResponse SIM_STATUS_PIN = ''+CPIN: SIM PIN''"
| "gSimStatusResponse SIM_STATUS_PUK = ''+CPIN: SIM PUK''"

definition HandleSIMStatusReq :: "nat \<Rightarrow> sim_state \<Rightarrow> sim_state" where
  "HandleSIMStatusReq c st = reply_sim c [gSimStatusResponse (sim_status (fst st)), ''OK''] st"

text \<open>The \<^verbatim>\<open>SIMIO\<close> element that a \<^verbatim>\<open>+CRSM\<close> command is for.\<close>

definition is_update :: "string \<Rightarrow> bool" where
  "is_update cmd \<longleftrightarrow> cmd = ''DC'' \<or> cmd = ''D6''"

definition sim_io_matches :: "dom \<Rightarrow> string \<Rightarrow> string \<Rightarrow> string \<Rightarrow> string \<Rightarrow> string \<Rightarrow> nat \<Rightarrow> bool" where
  "sim_io_matches d cmd p1 p2 p3 dat x \<longleftrightarrow>
     (is_update cmd \<or>
        (dom_attribute d x ''cmd'' \<in> {None, Some cmd} \<and> dom_attribute d x ''data'' \<in> {None, Some dat})) \<and>
     dom_attribute d x ''p1'' = Some p1 \<and> dom_attribute d x ''p2'' = Some p2 \<and> dom_attribute d x ''p3'' = Some p3"

definition cts_status_response :: string where
  "cts_status_response = ''+CRSM: 144,0,62338202782183023F00A50C80016187010183040007DBF08A01058B062F0601020002C60C90016083010183010A83010D8102FFFF''"

definition HandleSIM_IO :: "nat \<Rightarrow> string \<Rightarrow> sim_state \<Rightarrow> sim_state result" where
  "HandleSIM_IO c command st =
     (let (s, n, e) = st;
          kFileNotFoud = [''+CRSM: 106,130'', ''OK''];
          cmd = SkipPrefix command
      in if cmd = ''242,0,0,0,0'' then Ok (reply_sim c [cts_status_response, ''OK''] st)
         else
           let (op, cmd) = GetNextStrDeciToHex cmd;
               (file, cmd) = GetNextStrDeciToHex cmd;
               (p1, cmd) = GetNextStrDeciToHex cmd;
               (p2, cmd) = GetNextStrDeciToHex cmd;
               (p3, cmd) = GetNextStrDeciToHex cmd;
               (dat, cmd) = GetNextStr_flag (CHR '','') cmd;
               (path, cmd) = GetNextStr cmd
           in case dom_root (doc s) of
                None \<Rightarrow> Ok (reply_sim c [kCmeErrorOperationNotAllowed] st)
              | Some root \<Rightarrow>
                  bind_result (stoi 16 file) (\<lambda>fileid.
                    let path = (if path = [] then GetUsimEFPath fileid else path);
                        adn = (fileid = 0x6F3A \<and> path = GetUsimEFPath fileid);
                        file = (if adn then ''4F3A'' else file);
                        path = (if adn then ''3F007F105F3A'' else path)
                    in case follow_path (doc s) root path of
                         None \<Rightarrow> Ok (reply_sim c kFileNotFoud st)
                       | Some parent \<Rightarrow>
                           (case FindAttribute (doc s) parent ''id'' file of
                              None \<Rightarrow> Ok (reply_sim c kFileNotFoud st)
                            | Some ef \<Rightarrow>
                                (case find (sim_io_matches (doc s) op p1 p2 p3 dat) (children_named (doc s) ef ''SIMIO'') of
                                   None \<Rightarrow> Ok (reply_sim c kFileNotFoud st)
                                 | Some final \<Rightarrow>
                                     if is_update op
                                     then let d = SetText final (''144,0,'' @ dat) (doc s)
                                          in Ok (reply_sim c [''+CRSM: 144,0'', ''OK''] (s\<lparr>doc := d, saved_doc := Some d\<rparr>, n, e))
                                     else bind_result (GetText (doc s) final) (\<lambda>t.
                                            Ok (reply_sim c [''+CRSM: '' @ t, ''OK''] st))))))"

definition checkPin1AndAdjustSimStatus :: "string \<Rightarrow> sim_state \<Rightarrow> bool \<times> sim_state" where
  "checkPin1AndAdjustSimStatus p st =
     (let (s, ne) = st; (ok, p1) = VerifyPIN p (pin1_status s); s = s\<lparr>pin1_status := p1\<rparr>
      in if ok then (True, SimOnSimStatusChanged (s\<lparr>sim_status := SIM_STATUS_READY\<rparr>, ne))
         else if pin_remaining_times p1 \<le> 0
         then (False, SimOnSimStatusChanged (s\<lparr>sim_status := SIM_STATUS_PUK\<rparr>, ne))
         else (False, (s, ne)))"

text \<open>The first channel that satisfies a condition, by its position.\<close>

fun find_channel :: "(LogicalChannel \<Rightarrow> bool) \<Rightarrow> LogicalChannel list \<Rightarrow> nat option" where
  "find_channel P [] = None"
| "find_channel P (ch # chs) = (if P ch then Some 0 else map_option Suc (find_channel P chs))"

definition open_channel :: "nat \<Rightarrow> string \<Rightarrow> sim_service \<Rightarrow> sim_service" where
  "open_channel i name s =
     s\<lparr>logical_channels := (logical_channels s)[i := (logical_channels s ! i)\<lparr>channel_is_open := True, df_name := name\<rparr>]\<rparr>"

definition HandleCSIM_IO :: "nat \<Rightarrow> string \<Rightarrow> sim_state \<Rightarrow> sim_state result" where
  "HandleCSIM_IO c command st =
     (let (s, n, e) = st; (dat, cmd) = GetNextStr (SkipComma (SkipPrefix command)) in
      case dom_root (doc s) of
        None \<Rightarrow> Ok (reply_sim c [kCmeErrorOperationNotAllowed] st)
      | Some root \<Rightarrow>
          (case FindAttribute (doc s) root ''aid'' ''CSIM'' of
             None \<Rightarrow> Ok (reply_sim c [kCmeErrorNotFound] st)
           | Some df \<Rightarrow>
               if length dat > 10 then Ok (reply_sim c [''+CSIM: 4,9000'', ''OK''] st)
               else (case FindAttribute (doc s) df ''cmd'' dat of
                       None \<Rightarrow> Ok (reply_sim c [kCmeErrorNotFound] st)
                     | Some final \<Rightarrow>
                         bind_result (last_two dat) (\<lambda>channel.
                         bind_result
                           (case find_channel (\<lambda>ch. \<not> channel_is_open ch) (logical_channels s) of
                              None \<Rightarrow> Ok s
                            | Some i \<Rightarrow> bind_result (stoi 10 channel) (\<lambda>session.
                                Ok (if session_id (logical_channels s ! i) = session then open_channel i ''CSIM'' s else s)))
                           (\<lambda>s.
                         bind_result (GetText (doc s) final) (\<lambda>t.
                           Ok (reply_sim c [''+CSIM: '' @ t, ''OK''] (s, n, e))))))))"

definition ChangePin1AndAdjustSimStatus ::
  "ChangeMode \<Rightarrow> string \<Rightarrow> string \<Rightarrow> sim_state \<Rightarrow> bool \<times> sim_state"
where
  "ChangePin1AndAdjustSimStatus mode p new_pin st =
     (let (s, ne) = st; (ok, p1) = ChangePIN mode p new_pin (pin1_status s); s = s\<lparr>pin1_status := p1\<rparr>
      in if ok then (True, SimOnSimStatusChanged (s\<lparr>sim_status := SIM_STATUS_READY\<rparr>, ne))
         else if sim_status s = SIM_STATUS_READY \<and> pin_remaining_times p1 \<le> 0
         then (False, SimOnSimStatusChanged (s\<lparr>sim_status := SIM_STATUS_PIN\<rparr>, ne))
         else if sim_status s = SIM_STATUS_PIN \<and> puk_remaining_times p1 \<le> 0
         then (False, SimOnSimStatusChanged (s\<lparr>sim_status := SIM_STATUS_ABSENT\<rparr>, ne))
         else (False, (s, ne)))"

definition pin_reply :: "nat \<Rightarrow> bool \<times> sim_state \<Rightarrow> sim_state" where
  "pin_reply c r = reply_sim c [if fst r then ''OK'' else kCmeErrorIncorrectPassword] (snd r)"

definition verify_pin2 :: "string \<Rightarrow> sim_state \<Rightarrow> bool \<times> sim_state" where
  "verify_pin2 p st =
     (let (s, ne) = st; (ok, p2) = VerifyPIN p (pin2_status s) in (ok, (s\<lparr>pin2_status := p2\<rparr>, ne)))"

definition HandleChangeOrEnterPIN :: "nat \<Rightarrow> string \<Rightarrow> sim_state \<Rightarrow> sim_state" where
  "HandleChangeOrEnterPIN c command st =
     (let cmd = SkipPrefix command; (first, new_pin) = GetNextStr_flag (CHR '','') cmd in
      case sim_status (fst st) of
        SIM_STATUS_ABSENT \<Rightarrow> reply_sim c [kCmeErrorSimNotInserted] st
      | SIM_STATUS_NOT_READY \<Rightarrow> reply_sim c [kCmeErrorSimBusy] st
      | SIM_STATUS_READY \<Rightarrow>
          pin_reply c
            (if CHR '','' \<in> set cmd then ChangePin1AndAdjustSimStatus WITH_PIN first new_pin st
             else verify_pin2 cmd st)
      | SIM_STATUS_PIN \<Rightarrow> pin_reply c (checkPin1AndAdjustSimStatus cmd st)
      | SIM_STATUS_PUK \<Rightarrow>
          (if CHR '','' \<in> set cmd then pin_reply c (ChangePin1AndAdjustSimStatus WITH_PUK first new_pin st)
           else reply_sim c [kCmeErrorOperationNotAllowed] st))"

text \<open>The text of the first element of a name in a file, under a list of \<^verbatim>\<open>path\<close> attributes.\<close>

fun follow_paths :: "dom \<Rightarrow> nat \<Rightarrow> string list \<Rightarrow> nat option" where
  "follow_paths d x [] = Some x"
| "follow_paths d x (p # ps) =
     (case FindAttribute d x ''path'' p of None \<Rightarrow> None | Some y \<Rightarrow> follow_paths d y ps)"

definition reply_file_text :: "string list \<Rightarrow> string \<Rightarrow> string \<Rightarrow> nat \<Rightarrow> sim_state \<Rightarrow> sim_state result" where
  "reply_file_text paths file name c st =
     (let d = doc (fst st) in
      case dom_root d of
        None \<Rightarrow> Ok (reply_sim c [kCmeErrorOperationNotAllowed] st)
      | Some root \<Rightarrow>
          (case Option.bind (follow_paths d root paths) (\<lambda>df.
                Option.bind (FindAttribute d df ''id'' file) (\<lambda>ef. FirstChildElement d ef name)) of
             None \<Rightarrow> Ok (reply_sim c [kCmeErrorNotFound] st)
           | Some final \<Rightarrow> bind_result (GetText d final) (\<lambda>t. Ok (reply_sim c [t, ''OK''] st))))"

definition HandleGetIMSI :: "nat \<Rightarrow> sim_state \<Rightarrow> sim_state result" where
  "HandleGetIMSI = reply_file_text [''3F00'', ''7FFF''] ''6F07'' ''CIMI''"

definition HandleGetIccId :: "nat \<Rightarrow> sim_state \<Rightarrow> sim_state result" where
  "HandleGetIccId = reply_file_text [''3F00''] ''2FE2'' ''CCID''"

definition set_lock :: "string \<Rightarrow> bool \<Rightarrow> sim_service \<Rightarrow> sim_service" where
  "set_lock name on s =
     s\<lparr>facility_lock := map (\<lambda>(k, v). if k = name then (k, on) else (k, v)) (facility_lock s)\<rparr>"

definition after_password :: "nat \<Rightarrow> string \<Rightarrow> bool \<Rightarrow> bool \<times> sim_state \<Rightarrow> sim_state" where
  "after_password c name on r =
     (case r of (ok, (s, ne)) \<Rightarrow> pin_reply c (ok, (if ok then set_lock name on s else s, ne)))"

definition HandleFacilityLock :: "nat \<Rightarrow> string \<Rightarrow> sim_state \<Rightarrow> sim_state" where
  "HandleFacilityLock c command st =
     (let (lock, cmd) = GetNextStr command;
          (mode, cmd) = GetNextInt cmd;
          (password, cmd) = GetNextStr cmd
      in case map_of (facility_lock (fst st)) lock of
           None \<Rightarrow> reply_sim c [kCmeErrorOperationNotSupported] st
         | Some status \<Rightarrow>
             if mode = 2 then reply_sim c [''+CLCK: '' @ bool_string status, ''OK''] st
             else if mode = 0 \<or> mode = 1
             then after_password c lock (mode = 1)
                    (if lock = ''SC'' then checkPin1AndAdjustSimStatus password st
                     else if lock = ''FD'' then verify_pin2 password st
                     else (True, st))
             else reply_sim c [kCmeErrorInCorrectParameters] st)"

definition HandleOpenLogicalChannel :: "nat \<Rightarrow> string \<Rightarrow> sim_state \<Rightarrow> sim_state" where
  "HandleOpenLogicalChannel c command st =
     (let (s, ne) = st; cmd = SkipPrefix command in
      if cmd = [] then reply_sim c [kCmeErrorInCorrectParameters] st
      else case dom_root (doc s) of
             None \<Rightarrow> reply_sim c [kCmeErrorOperationNotAllowed] st
           | Some root \<Rightarrow>
               (case FindAttribute (doc s) root ''aid'' cmd of
                  None \<Rightarrow> reply_sim c [kCmeErrorNotFound] st
                | Some df \<Rightarrow>
                    (case find_channel (\<lambda>ch. \<not> channel_is_open ch) (logical_channels s) of
                       None \<Rightarrow> reply_sim c [kCmeErrorMemoryFull] st
                     | Some i \<Rightarrow> reply_sim c [to_string (session_id (logical_channels s ! i)), ''OK''] (open_channel i cmd s, ne))))"

definition close_channel :: "nat \<Rightarrow> sim_service \<Rightarrow> sim_service" where
  "close_channel i s =
     s\<lparr>logical_channels := (logical_channels s)[i := (logical_channels s ! i)\<lparr>channel_is_open := False, df_name := []\<rparr>]\<rparr>"

definition HandleCloseLogicalChannel :: "nat \<Rightarrow> string \<Rightarrow> sim_state \<Rightarrow> sim_state" where
  "HandleCloseLogicalChannel c command st =
     (let (s, ne) = st; (session, cmd) = GetNextInt (SkipPrefix command) in
      case find_channel (\<lambda>ch. session_id ch = session) (logical_channels s) of
        None \<Rightarrow> reply_sim c [kCmeErrorNotFound] st
      | Some i \<Rightarrow>
          if channel_is_open (logical_channels s ! i)
          then reply_sim c [''+CCHC'', ''OK''] (close_channel i s, ne)
          else reply_sim c [kCmeErrorNotFound] st)"

definition HandleTransmitLogicalChannel :: "nat \<Rightarrow> string \<Rightarrow> sim_state \<Rightarrow> sim_state result" where
  "HandleTransmitLogicalChannel c command st =
     (let (s, ne) = st;
          (session, cmd) = GetNextInt (SkipPrefix command);
          (len, cmd) = GetNextInt cmd
      in if int (length cmd) \<noteq> len then Ok (reply_sim c [kCmeErrorInCorrectParameters] st)
         else case find_channel (\<lambda>ch. session_id ch = session \<and> channel_is_open ch) (logical_channels s) of
           None \<Rightarrow> Ok (reply_sim c [kCmeErrorInvalidIndex] st)
         | Some i \<Rightarrow>
             (case dom_root (doc s) of
                None \<Rightarrow> Ok (reply_sim c [kCmeErrorOperationNotAllowed] st)
              | Some root \<Rightarrow>
                  let name = df_name (logical_channels s ! i) in
                  (case FindAttribute (doc s) root ''aid'' name of
                     None \<Rightarrow> Ok (reply_sim c [kCmeErrorNotFound] st)
                   | Some df \<Rightarrow>
                       bind_result
                         (if name = ''CSIM'' then Ok (s, Some df)
                          else bind_result (substr cmd 2 2) (\<lambda>instruction.
                            let s = (if instruction = ''a4'' then s\<lparr>last_file_id := drop (length cmd - 4) cmd\<rparr> else s)
                            in Ok (s, FindAttribute (doc s) df ''id'' (last_file_id s))))
                         (\<lambda>(s, df).
                            case Option.bind df (\<lambda>x. FindAttribute (doc s) x ''cmd'' cmd) of
                              None \<Rightarrow> Ok (reply_sim c [kCmeErrorNotFound] (s, ne))
                            | Some final \<Rightarrow> bind_result (GetText (doc s) final) (\<lambda>t.
                                Ok (reply_sim c [''+CGLA: '' @ t, ''OK''] (s, ne)))))))"

definition HandleChangePassword :: "nat \<Rightarrow> string \<Rightarrow> sim_state \<Rightarrow> sim_state" where
  "HandleChangePassword c command st =
     (let (lock, cmd) = GetNextStr (SkipPrefix command);
          (old_password, cmd) = GetNextStr cmd;
          (new_password, cmd) = GetNextStr cmd
      in if lock = ''SC'' then pin_reply c (ChangePin1AndAdjustSimStatus WITH_PIN old_password new_password st)
         else if lock = ''P2'' \<or> lock = ''FD''
         then let (s, ne) = st; (ok, p2) = ChangePIN WITH_PIN old_password new_password (pin2_status s)
              in pin_reply c (ok, (s\<lparr>pin2_status := p2\<rparr>, ne))
         else reply_sim c [kCmeErrorOperationNotSupported] st)"

definition HandleQueryRemainTimes :: "nat \<Rightarrow> string \<Rightarrow> sim_state \<Rightarrow> sim_state" where
  "HandleQueryRemainTimes c command st =
     (let (lock_type, cmd) = GetNextStr (SkipPrefix command);
          s = fst st;
          answer = (\<lambda>remaining initial.
            reply_sim c [''+CPINR: '' @ lock_type @ '','' @ to_string remaining @ '','' @ to_string initial, ''OK''] st)
      in if lock_type = ''SIM PIN'' then answer (pin_remaining_times (pin1_status s)) kSimPinMaxRetryTimes
         else if lock_type = ''SIM PUK'' then answer (puk_remaining_times (pin1_status s)) kSimPukMaxRetryTimes
         else if lock_type = ''SIM PIN2'' then answer (pin_remaining_times (pin2_status s)) kSimPinMaxRetryTimes
         else if lock_type = ''SIM PUK2'' then answer (puk_remaining_times (pin2_status s)) kSimPukMaxRetryTimes
         else reply_sim c [kCmeErrorInCorrectParameters] st)"

text \<open>The set forms of the next two read the integer from the start of the whole command.\<close>

definition HandleCdmaSubscriptionSource :: "nat \<Rightarrow> string \<Rightarrow> sim_state \<Rightarrow> sim_state result" where
  "HandleCdmaSubscriptionSource c command st =
     (let (s, ne) = st in
      if command = ''AT+CCSS?''
      then (case cdma_subscription_source s of
              None \<Rightarrow> Err Undefined_Behaviour
            | Some v \<Rightarrow> Ok (reply_sim c [''+CCSS: '' @ to_string v, ''OK''] st))
      else Ok (reply_sim c [''OK''] (s\<lparr>cdma_subscription_source := Some (fst (GetNextInt command))\<rparr>, ne)))"

definition HandleCdmaRoamingPreference :: "nat \<Rightarrow> string \<Rightarrow> sim_state \<Rightarrow> sim_state result" where
  "HandleCdmaRoamingPreference c command st =
     (let (s, ne) = st in
      if command = ''AT+WRMP?''
      then (case cdma_roaming_preference s of
              None \<Rightarrow> Err Undefined_Behaviour
            | Some v \<Rightarrow> Ok (reply_sim c [''+WRMP: '' @ to_string v, ''OK''] st))
      else Ok (reply_sim c [''OK''] (s\<lparr>cdma_roaming_preference := Some (fst (GetNextInt command))\<rparr>, ne)))"

definition HandleSimAuthentication :: "nat \<Rightarrow> string \<Rightarrow> sim_state \<Rightarrow> sim_state" where
  "HandleSimAuthentication c command st =
     (let (cmds, cmd) = GetNextStr (SkipPrefix command) in
      reply_sim c
        [if cmds = ''2713AB0BA8E8E7D8F1D74545BA03F563'' then ''^MBAU: 0,8F2980FC3872FF89,E9620240''
         else if cmds = ''C3718EC16B3C2A66F8A7200A64069F04'' then ''^MBAU: 0,CFDA6C980502DA48,F7E53577''
         else if cmds = ''11111111111111111111111111111111'' then ''^MBAU: 0,0000000000000000,00000000''
         else if cmds = ''11111111111111111111111111111111,12351417161900001130131215141716''
         then ''^MBAU: 0,111013121514171619181B1A1D1C1F1E,1013121514171619181B1A1D1C1F1E11,13121514171619181B1A1D1C1F1E1110''
         else [], ''OK''] st)"

definition HandlePhoneNumberUpdate :: "string \<Rightarrow> sim_state \<Rightarrow> sim_state result" where
  "HandlePhoneNumberUpdate command st =
     (let (s, ne) = st; (num, cmd) = GetNextStr_flag (CHR '' '') (SkipWhiteSpace command)
      in bind_result (SetPhoneNumber num s) (\<lambda>(ok, s). Ok (s, ne)))"

subsection \<open>The command table\<close>

datatype sim_command =
    Cmd_SIMStatusReq | Cmd_ChangeOrEnterPIN | Cmd_SIM_IO | Cmd_CSIM_IO | Cmd_GetIMSI | Cmd_GetIccId
  | Cmd_FacilityLock | Cmd_OpenLogicalChannel | Cmd_CloseLogicalChannel | Cmd_TransmitLogicalChannel
  | Cmd_ChangePassword | Cmd_QueryRemainTimes | Cmd_CdmaSubscriptionSource | Cmd_CdmaRoamingPreference
  | Cmd_SimAuthentication | Cmd_PhoneNumberUpdate

definition sim_handlers :: "sim_command CommandHandler list" where
  "sim_handlers =
     [Full_Match ''+CPIN?'' Cmd_SIMStatusReq,
      Partial_Match ''+CPIN='' Cmd_ChangeOrEnterPIN,
      Partial_Match ''+CRSM='' Cmd_SIM_IO,
      Partial_Match ''+CSIM='' Cmd_CSIM_IO,
      Full_Match ''+CIMI'' Cmd_GetIMSI,
      Full_Match ''+CICCID'' Cmd_GetIccId,
      Partial_Match ''+CLCK='' Cmd_FacilityLock,
      Partial_Match ''+CCHO='' Cmd_OpenLogicalChannel,
      Partial_Match ''+CCHC='' Cmd_CloseLogicalChannel,
      Partial_Match ''+CGLA='' Cmd_TransmitLogicalChannel,
      Partial_Match ''+CPWD='' Cmd_ChangePassword,
      Partial_Match ''+CPINR='' Cmd_QueryRemainTimes,
      Partial_Match ''+CCSS'' Cmd_CdmaSubscriptionSource,
      Partial_Match ''+WRMP'' Cmd_CdmaRoamingPreference,
      Partial_Match ''^MBAU='' Cmd_SimAuthentication,
      Partial_Match ''+REMOTEUPADATEPHONENUMBER'' Cmd_PhoneNumberUpdate]"

primrec run_sim_command :: "nat \<Rightarrow> sim_command \<Rightarrow> string \<Rightarrow> sim_state \<Rightarrow> sim_state result" where
  "run_sim_command c Cmd_SIMStatusReq command st = Ok (HandleSIMStatusReq c st)"
| "run_sim_command c Cmd_ChangeOrEnterPIN command st = Ok (HandleChangeOrEnterPIN c command st)"
| "run_sim_command c Cmd_SIM_IO command st = HandleSIM_IO c command st"
| "run_sim_command c Cmd_CSIM_IO command st = HandleCSIM_IO c command st"
| "run_sim_command c Cmd_GetIMSI command st = HandleGetIMSI c st"
| "run_sim_command c Cmd_GetIccId command st = HandleGetIccId c st"
| "run_sim_command c Cmd_FacilityLock command st = Ok (HandleFacilityLock c command st)"
| "run_sim_command c Cmd_OpenLogicalChannel command st = Ok (HandleOpenLogicalChannel c command st)"
| "run_sim_command c Cmd_CloseLogicalChannel command st = Ok (HandleCloseLogicalChannel c command st)"
| "run_sim_command c Cmd_TransmitLogicalChannel command st = HandleTransmitLogicalChannel c command st"
| "run_sim_command c Cmd_ChangePassword command st = Ok (HandleChangePassword c command st)"
| "run_sim_command c Cmd_QueryRemainTimes command st = Ok (HandleQueryRemainTimes c command st)"
| "run_sim_command c Cmd_CdmaSubscriptionSource command st = HandleCdmaSubscriptionSource c command st"
| "run_sim_command c Cmd_CdmaRoamingPreference command st = HandleCdmaRoamingPreference c command st"
| "run_sim_command c Cmd_SimAuthentication command st = Ok (HandleSimAuthentication c command st)"
| "run_sim_command c Cmd_PhoneNumberUpdate command st = HandlePhoneNumberUpdate command st"

end
