(* ===== verification/Stk_Service.thy ===== *)
theory Stk_Service
  imports Sim_Service
begin

section \<open>The SIM toolkit\<close>

text \<open>
  \<^verbatim>\<open>stk_service.cpp\<close>: the menu of the SIM toolkit. The menu is the element \<^verbatim>\<open>SETUPMENU\<close> of the ICC
  profile with nested \<^verbatim>\<open>SELECTITEM\<close> elements; the service keeps the identifiers of the items that
  lead to the current one. A handler is given the profile of the SIM service, which it does not change.
\<close>

record stk_service =
  current_select_item_menu_ids :: "string list"

definition init_stk_service :: stk_service where
  "init_stk_service = \<lparr>current_select_item_menu_ids = []\<rparr>"

definition attribute_text :: "dom \<Rightarrow> nat \<Rightarrow> string" where
  "attribute_text d x = (case dom_attribute d x ''text'' of None \<Rightarrow> [] | Some t \<Rightarrow> t)"

text \<open>A missing \<^verbatim>\<open>SETUPMENU\<close> is dereferenced.\<close>

definition HandleReportStkServiceIsRunning :: "dom \<Rightarrow> nat \<Rightarrow> stk_service \<times> env \<Rightarrow> (stk_service \<times> env) result" where
  "HandleReportStkServiceIsRunning d c se =
     (let (s, e) = se; e = SendCommandResponses c [''+CUSATD: 0,1'', ''OK''] e in
      case dom_root d of
        None \<Rightarrow> Ok (s, e)
      | Some root \<Rightarrow>
          (case FirstChildElement d root ''SETUPMENU'' of
             None \<Rightarrow> Err Undefined_Behaviour
           | Some setup_menu \<Rightarrow> Ok (s, SendUnsolicitedCommand (''+CUSATP:'' @ attribute_text d setup_menu) e)))"

definition find_item :: "dom \<Rightarrow> nat \<Rightarrow> string \<Rightarrow> nat option" where
  "find_item d menu item = find (\<lambda>y. dom_attribute d y ''menuId'' = Some item) (children_named d menu ''SELECTITEM'')"

definition push_if_menu :: "dom \<Rightarrow> nat \<Rightarrow> string \<Rightarrow> stk_service \<Rightarrow> stk_service" where
  "push_if_menu d x item s =
     (if dom_attribute d x ''cmd'' = Some ''24''
      then s\<lparr>current_select_item_menu_ids := current_select_item_menu_ids s @ [item]\<rparr> else s)"

definition HandleSendEnvelope :: "dom \<Rightarrow> nat \<Rightarrow> string \<Rightarrow> stk_service \<times> env \<Rightarrow> (stk_service \<times> env) result" where
  "HandleSendEnvelope d c command se =
     (let (s, e) = se; e = SendCommandResponses c [''+CUSATE: 0'', ''OK''] e;
          (dat, cmd) = GetNextStr (SkipPrefix command)
      in bind_result (last_two dat) (\<lambda>menu_id.
           case dom_root d of
             None \<Rightarrow> Ok (s, e)
           | Some root \<Rightarrow>
               (case FirstChildElement d root ''SETUPMENU'' of
                  None \<Rightarrow> Ok (s, e)
                | Some setup_menu \<Rightarrow>
                    (case find_item d setup_menu menu_id of
                       None \<Rightarrow> Ok (s, e)
                     | Some select_item \<Rightarrow>
                         Ok (push_if_menu d select_item menu_id s,
                             SendUnsolicitedCommand (''+CUSATP:'' @ attribute_text d select_item) e)))))"

text \<open>The loop of \<^verbatim>\<open>GetCurrentSelectItem\<close>: the item at the end of the path, if every step is found.\<close>

fun select_path :: "dom \<Rightarrow> nat \<Rightarrow> string list \<Rightarrow> nat option" where
  "select_path d menu [] = None"
| "select_path d menu (item # items) =
     (case find_item d menu item of
        None \<Rightarrow> None
      | Some y \<Rightarrow> (if items = [] then Some y else select_path d y items))"

definition GetCurrentSelectItem :: "dom \<Rightarrow> stk_service \<Rightarrow> nat option \<times> stk_service" where
  "GetCurrentSelectItem d s =
     (case Option.bind (dom_root d) (\<lambda>root. FirstChildElement d root ''SETUPMENU'') of
        None \<Rightarrow> (None, s\<lparr>current_select_item_menu_ids := []\<rparr>)
      | Some menu \<Rightarrow> (select_path d menu (current_select_item_menu_ids s), s))"

definition end_session :: "stk_service \<times> env \<Rightarrow> stk_service \<times> env" where
  "end_session se =
     ((fst se)\<lparr>current_select_item_menu_ids := []\<rparr>, SendUnsolicitedCommand ''+CUSATEND'' (snd se))"

definition show_text :: "dom \<Rightarrow> nat \<Rightarrow> env \<Rightarrow> env" where
  "show_text d x e =
     (case dom_attribute d x ''text'' of None \<Rightarrow> e | Some t \<Rightarrow> SendUnsolicitedCommand (''+CUSATP: '' @ t) e)"

text \<open>\<^verbatim>\<open>pop_back\<close> on an empty vector and a null item are undefined behaviour.\<close>

definition OnUnsolicitedCommandForTR :: "dom \<Rightarrow> string \<Rightarrow> stk_service \<times> env \<Rightarrow> (stk_service \<times> env) result" where
  "OnUnsolicitedCommandForTR d command se =
     (let (s, e) = se; (dat, cmd) = GetNextStr (SkipPrefix command) in
      bind_result (last_two dat) (\<lambda>menu_id.
        if menu_id = ''10'' \<or> menu_id = ''12'' then Ok (end_session (s, e))
        else
          case GetCurrentSelectItem d s of
            (None, s) \<Rightarrow> Ok (end_session (s, e))
          | (Some select_item, s) \<Rightarrow>
              if menu_id = ''11'' then
                (if current_select_item_menu_ids s = [] then Err Undefined_Behaviour
                 else
                   let s = s\<lparr>current_select_item_menu_ids := butlast (current_select_item_menu_ids s)\<rparr> in
                   if current_select_item_menu_ids s \<noteq> []
                   then (case GetCurrentSelectItem d s of
                           (None, s) \<Rightarrow> Err Undefined_Behaviour
                         | (Some select_item, s) \<Rightarrow> Ok (s, show_text d select_item e))
                   else Ok (s, SendUnsolicitedCommand ''+CUSATEND'' e))
              else if menu_id = ''00'' then Ok (s, show_text d select_item e)
              else
                (case find (\<lambda>y. dom_attribute d y ''menuId'' = Some menu_id) (dom_children d select_item) of
                   None \<Rightarrow> Ok (end_session (s, e))
                 | Some final \<Rightarrow>
                     Ok (push_if_menu d final menu_id s,
                         SendUnsolicitedCommand (''+CUSATP:'' @ attribute_text d final) e))))"

definition HandleSendTerminalResponseToSim :: "dom \<Rightarrow> nat \<Rightarrow> string \<Rightarrow> stk_service \<times> env \<Rightarrow> (stk_service \<times> env) result" where
  "HandleSendTerminalResponseToSim d c command se =
     OnUnsolicitedCommandForTR d command (fst se, SendCommandResponses c [''+CUSATT: 0'', ''OK''] (snd se))"

datatype stk_command = Cmd_ReportStkServiceIsRunning | Cmd_SendEnvelope | Cmd_SendTerminalResponseToSim

definition stk_handlers :: "stk_command CommandHandler list" where
  "stk_handlers =
     [Full_Match ''+CUSATD?'' Cmd_ReportStkServiceIsRunning,
      Partial_Match ''+CUSATE='' Cmd_SendEnvelope,
      Partial_Match ''+CUSATT='' Cmd_SendTerminalResponseToSim]"

primrec run_stk_command :: "dom \<Rightarrow> nat \<Rightarrow> stk_command \<Rightarrow> string \<Rightarrow> stk_service \<times> env \<Rightarrow> (stk_service \<times> env) result" where
  "run_stk_command d c Cmd_ReportStkServiceIsRunning command se = HandleReportStkServiceIsRunning d c se"
| "run_stk_command d c Cmd_SendEnvelope command se = HandleSendEnvelope d c command se"
| "run_stk_command d c Cmd_SendTerminalResponseToSim command se = HandleSendTerminalResponseToSim d c command se"

subsection \<open>Moving in the menu\<close>

lemma select_path_append:
  "xs \<noteq> [] \<Longrightarrow> select_path d m (xs @ [x]) = Option.bind (select_path d m xs) (\<lambda>y. find_item d y x)"
proof (induction xs arbitrary: m)
  case (Cons a xs)
  then show ?case by (cases "xs = []") (auto split: option.split)
qed simp

lemma select_path_butlast:
  assumes "select_path d m xs = Some y" and "butlast xs \<noteq> []"
  shows "\<exists>z. select_path d m (butlast xs) = Some z"
proof -
  have "xs = butlast xs @ [last xs]" using assms(2) by (metis append_butlast_last_id butlast.simps(1))
  then have "select_path d m (butlast xs @ [last xs]) = Some y" using assms(1) by simp
  then show ?thesis using select_path_append [OF assms(2), of d m "last xs"] by (auto simp: bind_eq_Some_conv)
qed

lemma GetCurrentSelectItem_Some:
  assumes "GetCurrentSelectItem d s = (Some x, s')"
  obtains root menu where "dom_root d = Some root" "FirstChildElement d root ''SETUPMENU'' = Some menu" "s' = s"
    "select_path d menu (current_select_item_menu_ids s) = Some x" "current_select_item_menu_ids s \<noteq> []"
proof (cases "Option.bind (dom_root d) (\<lambda>root. FirstChildElement d root ''SETUPMENU'')")
  case None
  then show ?thesis using assms by (simp add: GetCurrentSelectItem_def)
next
  case (Some menu)
  then have menu: "select_path d menu (current_select_item_menu_ids s) = Some x" "s' = s"
    using assms by (auto simp: GetCurrentSelectItem_def)
  then have ne: "current_select_item_menu_ids s \<noteq> []" by (cases "current_select_item_menu_ids s") simp_all
  obtain root where "dom_root d = Some root" "FirstChildElement d root ''SETUPMENU'' = Some menu"
    using Some by (cases "dom_root d") simp_all
  then show ?thesis using menu ne by (intro that)
qed

lemma back_is_defined:
  assumes "GetCurrentSelectItem d s = (Some x, s')"
    and "butlast (current_select_item_menu_ids s') \<noteq> []"
  shows "\<exists>y. GetCurrentSelectItem d (s'\<lparr>current_select_item_menu_ids := butlast (current_select_item_menu_ids s')\<rparr>) =
    (Some y, s'\<lparr>current_select_item_menu_ids := butlast (current_select_item_menu_ids s')\<rparr>)"
  using assms(1)
proof (rule GetCurrentSelectItem_Some)
  fix root menu assume "dom_root d = Some root" "FirstChildElement d root ''SETUPMENU'' = Some menu" "s' = s"
    "select_path d menu (current_select_item_menu_ids s) = Some x"
  then show ?thesis
    using assms(2) select_path_butlast [of d menu "current_select_item_menu_ids s" x] by (auto simp: GetCurrentSelectItem_def)
qed

lemma tr_defined:
  assumes "fst (GetNextStr (SkipPrefix command)) = dat" and "2 \<le> length dat"
  shows "\<exists>se'. OnUnsolicitedCommandForTR d command se = Ok se'"
proof -
  obtain s e where se: "se = (s, e)" by (cases se)
  obtain cmd where cmd: "GetNextStr (SkipPrefix command) = (dat, cmd)" using assms(1) by (metis prod.collapse)
  obtain p s' where cur: "GetCurrentSelectItem d s = (p, s')" by fastforce
  show ?thesis
  proof (cases p)
    case None
    then show ?thesis using cur assms(2) cmd by (simp add: OnUnsolicitedCommandForTR_def last_two_def se)
  next
    case (Some x)
    have "current_select_item_menu_ids s' \<noteq> []"
      using cur Some by (auto elim: GetCurrentSelectItem_Some)
    then show ?thesis
      using cur Some assms(2) cmd back_is_defined [of d s x s']
      by (auto simp: OnUnsolicitedCommandForTR_def last_two_def se Let_def split: option.split)
  qed
qed

definition terminal_response :: "string \<Rightarrow> string" where
  "terminal_response dat = ''AT+CUSATT='' @ CHR ''\"'' # dat @ ''\"''"

lemma GetNextStr_terminal_response:
  assumes "CHR ''\"'' \<notin> set dat"
  shows "fst (GetNextStr (SkipPrefix (terminal_response dat))) = dat"
proof -
  have "SkipPrefix (terminal_response dat) = CHR ''\"'' # dat @ ''\"''"
    unfolding terminal_response_def using SkipPrefix_append [of "''AT+CUSATT''"] by simp
  then show ?thesis using find_char_append [OF assms, of "[]"] by (simp add: GetNextStr_def Let_def)
qed

text \<open>The outcomes of a terminal response that is at a current item.\<close>

lemma tr_at_item:
  assumes "GetCurrentSelectItem d s = (Some x, s)" and "length m = 2" and "CHR ''\"'' \<notin> set m"
  shows "m \<notin> {''10'', ''11'', ''12'', ''00''} \<Longrightarrow>
      find (\<lambda>y. dom_attribute d y ''menuId'' = Some m) (dom_children d x) = Some y \<Longrightarrow>
      OnUnsolicitedCommandForTR d (terminal_response m) (s, e) =
        Ok (push_if_menu d y m s, SendUnsolicitedCommand (''+CUSATP:'' @ attribute_text d y) e)"
    and "m = ''11'' \<Longrightarrow> current_select_item_menu_ids s = ids @ [i] \<Longrightarrow> ids \<noteq> [] \<Longrightarrow>
      GetCurrentSelectItem d (s\<lparr>current_select_item_menu_ids := ids\<rparr>) = (Some z, s\<lparr>current_select_item_menu_ids := ids\<rparr>) \<Longrightarrow>
      OnUnsolicitedCommandForTR d (terminal_response m) (s, e) =
        Ok (s\<lparr>current_select_item_menu_ids := ids\<rparr>, show_text d z e)"
  using assms GetNextStr_terminal_response [OF assms(3)]
  by (auto simp: OnUnsolicitedCommandForTR_def last_two_def split_beta Let_def)

text \<open>
  Moving in the menu is defined and can be undone. A terminal response with at least two characters
  of data is always answered, whatever the profile and the position: no step reads through a missing
  item. From a current item \<open>x\<close>, selecting a submenu of \<open>x\<close> makes it the current item and a step
  backward leads back to the same position and shows the text of \<open>x\<close>.
\<close>

theorem stk_navigation:
  assumes "2 \<le> length (fst (GetNextStr (SkipPrefix command)))"
    and "GetCurrentSelectItem d s = (Some x, s)" and "find_item d x m = Some y"
    and "find (\<lambda>y. dom_attribute d y ''menuId'' = Some m) (dom_children d x) = Some y"
    and "dom_attribute d y ''cmd'' = Some ''24''" and "length m = 2" and "CHR ''\"'' \<notin> set m"
    and "m \<notin> {''10'', ''11'', ''12'', ''00''}"
  shows "(\<exists>se'. HandleSendTerminalResponseToSim d c command se = Ok se') \<and>
    (\<exists>s' e'. HandleSendTerminalResponseToSim d c (terminal_response m) (s, e) = Ok (s', e') \<and>
       GetCurrentSelectItem d s' = (Some y, s') \<and>
       HandleSendTerminalResponseToSim d c (terminal_response ''11'') (s', e') =
         Ok (s, show_text d x (SendCommandResponses c [''+CUSATT: 0'', ''OK''] e')))"
proof -
  obtain root menu where menu: "dom_root d = Some root" "FirstChildElement d root ''SETUPMENU'' = Some menu"
    "select_path d menu (current_select_item_menu_ids s) = Some x" "current_select_item_menu_ids s \<noteq> []"
    using assms(2) by (rule GetCurrentSelectItem_Some)
  define s' where "s' = s\<lparr>current_select_item_menu_ids := current_select_item_menu_ids s @ [m]\<rparr>"
  have push: "push_if_menu d y m s = s'" using assms(5) by (simp add: push_if_menu_def s'_def)
  have cur: "GetCurrentSelectItem d s' = (Some y, s')"
    using menu assms(3) by (simp add: GetCurrentSelectItem_def s'_def select_path_append)
  have again: "s'\<lparr>current_select_item_menu_ids := current_select_item_menu_ids s\<rparr> = s" by (simp add: s'_def)
  have "OnUnsolicitedCommandForTR d (terminal_response ''11'') (s', e') = Ok (s, show_text d x e')" for e'
    using tr_at_item(2) [OF cur, of "''11''" "current_select_item_menu_ids s" m x e'] assms(2) menu(4)
    unfolding again by (simp add: s'_def)
  moreover have "OnUnsolicitedCommandForTR d (terminal_response m) (s, e'') =
      Ok (s', SendUnsolicitedCommand (''+CUSATP:'' @ attribute_text d y) e'')" for e''
    using tr_at_item(1) [OF assms(2,6,7,8,4)] push by simp
  ultimately show ?thesis
    using cur tr_defined [OF refl assms(1)] by (simp add: HandleSendTerminalResponseToSim_def)
qed

text \<open>A menu with the item 01, which has the submenu 02.\<close>

definition sample_menu :: dom where
  "sample_menu = \<lparr>dom_root = Some 0,
     dom_children = (\<lambda>x. if x < 3 then [x + 1] else []),
     dom_name = (\<lambda>x. if x = 0 then ''IccProfile'' else if x = 1 then ''SETUPMENU'' else ''SELECTITEM''),
     dom_attribute = (\<lambda>x. if x = 1 then [''text'' \<mapsto> ''D0''] else if x = 2 then [''menuId'' \<mapsto> ''01'', ''cmd'' \<mapsto> ''24'', ''text'' \<mapsto> ''D1'']
       else if x = 3 then [''menuId'' \<mapsto> ''02'', ''cmd'' \<mapsto> ''24'', ''text'' \<mapsto> ''D2''] else (\<lambda>_. None)),
     dom_text = (\<lambda>_. None), dom_next = 4\<rparr>"

theorem stk_navigation_witness:
  "\<exists>s' e'. HandleSendTerminalResponseToSim sample_menu 0 (terminal_response ''02'')
       (\<lparr>current_select_item_menu_ids = [''01'']\<rparr>, sample_env) = Ok (s', e') \<and>
     GetCurrentSelectItem sample_menu s' = (Some 3, s') \<and>
     HandleSendTerminalResponseToSim sample_menu 0 (terminal_response ''11'') (s', e') =
       Ok (\<lparr>current_select_item_menu_ids = [''01'']\<rparr>,
           show_text sample_menu 2 (SendCommandResponses 0 [''+CUSATT: 0'', ''OK''] e'))"
proof -
  let ?s = "\<lparr>current_select_item_menu_ids = [''01'']\<rparr>"
  have items: "find_item sample_menu 1 ''01'' = Some 2" "find_item sample_menu 2 ''02'' = Some 3"
      "find (\<lambda>y. dom_attribute sample_menu y ''menuId'' = Some ''02'') (dom_children sample_menu 2) = Some 3"
      "dom_attribute sample_menu 3 ''cmd'' = Some ''24''"
      "dom_root sample_menu = Some 0" "FirstChildElement sample_menu 0 ''SETUPMENU'' = Some 1"
    by (simp_all add: sample_menu_def find_item_def children_named_def FirstChildElement_def)
  then have cur: "GetCurrentSelectItem sample_menu ?s = (Some 2, ?s)" by (simp add: GetCurrentSelectItem_def)
  have "2 \<le> length (fst (GetNextStr (SkipPrefix (terminal_response ''02''))))"
    using GetNextStr_terminal_response [of "''02''"] by simp
  from stk_navigation [OF this cur items(2-4), of 0 _ sample_env] show ?thesis by simp
qed

end
