(* ===== verification/Modem_Simulator.thy ===== *)
theory Modem_Simulator
  imports Channel_Monitor Call_Service Sms_Service Sup_Service Stk_Service
begin

section \<open>The modem simulator\<close>

text \<open>
  \<^verbatim>\<open>modem_simulator.cpp\<close> and the server loop of \<^verbatim>\<open>main.cpp\<close>: the eight services of one modem, their
  construction, the dispatch of commands over their tables, the callbacks that the looper runs, and
  saving the state. The services hold pointers to each other; here they are the components of one
  record, and a handler is given what it reads of the others.
\<close>

record modem =
  m_sim :: sim_service
  m_network :: network_service
  m_data :: data_service
  m_call :: call_service
  m_sms :: sms_service
  m_sup :: sup_service
  m_stk :: stk_service
  m_misc :: misc_service
  m_env :: env

subsection \<open>Construction\<close>

text \<open>What the constructors read from the host: the ICC profile, the operator names, the time zone.\<close>

record host_files =
  icc_profile :: "dom option"
  numeric_operator :: operator_names
  etc_timezone :: "string option"
  uninitialised_pins :: "PinStatus \<times> PinStatus"

definition RegisterModemService :: "host_files \<Rightarrow> env \<Rightarrow> modem result" where
  "RegisterModemService host e =
     (let (network, e) = InitializeServiceState e in
      bind_result (init_sim_service (fst (uninitialised_pins host)) (snd (uninitialised_pins host)) (icc_profile host)) (\<lambda>sim.
      bind_result (GetSimOperator sim) (\<lambda>sim_operator.
        Ok \<lparr>m_sim = sim, m_network = InitializeSimOperator sim_operator (numeric_operator host) network,
            m_data = init_data_service, m_call = init_call_service e, m_sms = init_sms_service,
            m_sup = init_sup_service, m_stk = init_stk_service,
            m_misc = ParseTimeZone (etc_timezone host) \<lparr>timezone = []\<rparr>, m_env = e\<rparr>)))"

subsection \<open>Commands\<close>

definition network_ctx :: "modem \<Rightarrow> network_context" where
  "network_ctx m = \<lparr>nc_sim_ready = (sim_status (m_sim m) = SIM_STATUS_READY), nc_misc = m_misc m, nc_data = m_data m\<rparr>"

definition call_ctx :: "modem \<Rightarrow> call_context" where
  "call_ctx m = \<lparr>cc_registration = GetVoiceRegistrationState (m_network m), cc_radio_off = isRadioOff (m_network m),
     cc_fdn_enabled = IsFDNEnabled (m_sim m), cc_fixed_dial = (\<lambda>num. IsFixedDialNumber num (m_sim m))\<rparr>"

text \<open>The services as keys of the map \<^verbatim>\<open>modem_services_\<close>, and their command tables.\<close>

datatype ModemServiceType =
  kSimService | kNetworkService | kDataService | kCallService | kSmsService | kSupService | kStkService | kMiscService

definition modem_services :: "ModemServiceType list" where
  "modem_services =
     [kSimService, kNetworkService, kDataService, kCallService, kSmsService, kSupService, kStkService, kMiscService]"

datatype modem_command =
    Sim sim_command | Network network_command | Data data_command | Call call_command | Sms sms_command
  | Sup sup_command | Stk stk_command | Misc misc_command

fun map_handler :: "('a \<Rightarrow> 'b) \<Rightarrow> 'a CommandHandler \<Rightarrow> 'b CommandHandler" where
  "map_handler f (Full_Match p h) = Full_Match p (f h)"
| "map_handler f (Partial_Match p h) = Partial_Match p (f h)"

primrec handlers_of :: "ModemServiceType \<Rightarrow> modem_command CommandHandler list" where
  "handlers_of kSimService = map (map_handler Sim) sim_handlers"
| "handlers_of kNetworkService = map (map_handler Network) network_handlers"
| "handlers_of kDataService = map (map_handler Data) data_handlers"
| "handlers_of kCallService = map (map_handler Call) call_handlers"
| "handlers_of kSmsService = map (map_handler Sms) sms_handlers"
| "handlers_of kSupService = map (map_handler Sup) sup_handlers"
| "handlers_of kStkService = map (map_handler Stk) stk_handlers"
| "handlers_of kMiscService = map (map_handler Misc) misc_handlers"

primrec run_modem_command :: "nat \<Rightarrow> modem_command \<Rightarrow> string \<Rightarrow> modem \<Rightarrow> modem result" where
  "run_modem_command c (Sim h) command m =
     bind_result (run_sim_command c h command (m_sim m, m_network m, m_env m)) (\<lambda>(s, n, e).
       Ok (m\<lparr>m_sim := s, m_network := n, m_env := e\<rparr>))"
| "run_modem_command c (Network h) command m =
     bind_result (run_network_command (network_ctx m) c h command (m_network m, m_env m)) (\<lambda>(n, e).
       Ok (m\<lparr>m_network := n, m_env := e\<rparr>))"
| "run_modem_command c (Data h) command m =
     (let (d, e) = run_data_command c h command (m_data m, m_env m) in Ok (m\<lparr>m_data := d, m_env := e\<rparr>))"
| "run_modem_command c (Call h) command m =
     bind_result (run_call_command (call_ctx m) c h command (m_call m, m_env m)) (\<lambda>(s, e).
       Ok (m\<lparr>m_call := s, m_env := e\<rparr>))"
| "run_modem_command c (Sms h) command m =
     bind_result (run_sms_command c h command (m_sms m, m_env m)) (\<lambda>(s, e). Ok (m\<lparr>m_sms := s, m_env := e\<rparr>))"
| "run_modem_command c (Sup h) command m =
     bind_result (run_sup_command c h command (m_sup m, m_env m)) (\<lambda>(s, e). Ok (m\<lparr>m_sup := s, m_env := e\<rparr>))"
| "run_modem_command c (Stk h) command m =
     bind_result (run_stk_command (doc (m_sim m)) c h command (m_stk m, m_env m)) (\<lambda>(s, e).
       Ok (m\<lparr>m_stk := s, m_env := e\<rparr>))"
| "run_modem_command c (Misc h) command m =
     (let (s, e) = run_misc_command c h command (m_misc m, m_env m) in Ok (m\<lparr>m_misc := s, m_env := e\<rparr>))"

text \<open>The loop over the services, until one has handled the command.\<close>

fun try_services :: "nat \<Rightarrow> string \<Rightarrow> ModemServiceType list \<Rightarrow> modem \<Rightarrow> (bool \<times> modem) result" where
  "try_services c command [] m = Ok (False, m)"
| "try_services c command (t # ts) m =
     bind_result (HandleModemCommand (run_modem_command c) (handlers_of t) command m) (\<lambda>(success, m).
       if success then Ok (True, m) else try_services c command ts m)"

definition is_remote :: "nat \<Rightarrow> env \<Rightarrow> bool" where
  "is_remote c e \<longleftrightarrow> (case objs e c of None \<Rightarrow> False | Some cl \<Rightarrow> client_type cl = REMOTE)"

definition ModemDispatchCommand :: "nat \<Rightarrow> string \<Rightarrow> modem \<Rightarrow> modem result" where
  "ModemDispatchCommand c command m =
     (if is_waiting_sms_pdu (m_sms m)
      then bind_result (HandleSendSMSPDU (GetPhoneNumber (m_sim m)) c command (m_sms m, m_env m)) (\<lambda>(s, e).
             Ok (m\<lparr>m_sms := s, m_env := e\<rparr>))
      else if is_waiting_sms_to_sim (m_sms m)
      then let (s, e) = HandleWriteSMSPduToSim c command (m_sms m, m_env m) in Ok (m\<lparr>m_sms := s, m_env := e\<rparr>)
      else
        bind_result (try_services c command modem_services m) (\<lambda>(success, m).
          if \<not> success \<and> \<not> is_remote c (m_env m)
          then Ok (m\<lparr>m_env := SendCommandResponse c kCmeErrorOperationNotSupported (m_env m)\<rparr>)
          else Ok m))"

definition ModemOnFirstClientConnected :: "modem \<Rightarrow> modem" where
  "ModemOnFirstClientConnected m =
     m\<lparr>m_env := OnDataRegisterStateChanged (m_network m)
        (OnVoiceRegisterStateChanged (m_network m) (TimeUpdate (m_misc m) (m_env m)))\<rparr>"

definition ModemIsWaitingSmsPdu :: "modem \<Rightarrow> bool" where
  "ModemIsWaitingSmsPdu m \<longleftrightarrow> is_waiting_sms_pdu (m_sms m) \<or> is_waiting_sms_to_sim (m_sms m)"

text \<open>The simulator as the monitor sees it.\<close>

definition simulator :: "modem virtual_modem" where
  "simulator = \<lparr>vm_env = m_env, vm_put_env = (\<lambda>e m. m\<lparr>m_env := e\<rparr>), IsWaitingSmsPdu = ModemIsWaitingSmsPdu,
     DispatchCommand = ModemDispatchCommand, OnFirstClientConnected = ModemOnFirstClientConnected\<rparr>"

subsection \<open>Callbacks\<close>

text \<open>A callback that captured a local variable by reference reads it after its lifetime.\<close>

primrec run_callback :: "callback \<Rightarrow> modem \<Rightarrow> modem result" where
  "run_callback SimulatePendingCallsAnswered_cb m = Ok (m\<lparr>m_call := SimulatePendingCallsAnswered (m_call m)\<rparr>)"
| "run_callback (TimerWaitingRemoteCallResponse_cb i num) m =
     (let (s, e) = TimerWaitingRemoteCallResponse i num (m_call m, m_env m) in Ok (m\<lparr>m_call := s, m_env := e\<rparr>))"
| "run_callback CallStateUpdate_cb m = Ok (m\<lparr>m_env := CallStateUpdate (m_env m)\<rparr>)"
| "run_callback (UpdateRegisterState_cb state) m =
     (let (n, e) = UpdateRegisterState (m_data m) state (m_network m, m_env m) in Ok (m\<lparr>m_network := n, m_env := e\<rparr>))"
| "run_callback UpdateSignalStrengthCallback_cb m =
     (let (n, e) = UpdateSignalStrengthCallback (m_network m, m_env m) in Ok (m\<lparr>m_network := n, m_env := e\<rparr>))"
| "run_callback (UpdatePhysicalChannelconfigs_cb tech freq bandwidth n) m =
     Ok (m\<lparr>m_env := updatePhysicalChannelconfigs tech freq bandwidth n (m_data m) (m_env m)\<rparr>)"
| "run_callback (HandleReceiveSMS_cb p) m = Ok (m\<lparr>m_env := HandleReceiveSMS p (m_env m)\<rparr>)"
| "run_callback ReceiveSMS_dangling m = Err Undefined_Behaviour"
| "run_callback (HandleSMSStatuReport_cb p ref) m = Ok (m\<lparr>m_env := HandleSMSStatuReport p ref (m_env m)\<rparr>)"

subsection \<open>Saving, and the requests of other processes\<close>

definition SaveModemState :: "modem \<Rightarrow> modem result" where
  "SaveModemState m =
     bind_result (SaveFacilityLockToIccProfile dom_xml (SavePinStateToIccProfile dom_xml (m_sim m))) (\<lambda>s. Ok (m\<lparr>m_sim := s\<rparr>))"

definition IsRadioOn :: "modem \<Rightarrow> bool" where
  "IsRadioOn m \<longleftrightarrow> \<not> isRadioOff (m_network m)"

definition ModemSetTimeZone :: "string \<Rightarrow> modem \<Rightarrow> modem" where
  "ModemSetTimeZone tz m = m\<lparr>m_misc := SetTimeZone tz (m_misc m)\<rparr>"

definition ModemSetPhoneNumber :: "string \<Rightarrow> modem \<Rightarrow> (bool \<times> modem) result" where
  "ModemSetPhoneNumber num m =
     bind_result (SetPhoneNumber num (m_sim m)) (\<lambda>(ok, s). Ok (ok, m\<lparr>m_sim := s\<rparr>))"

fun save_all :: "modem list \<Rightarrow> modem list result" where
  "save_all [] = Ok []"
| "save_all (m # ms) =
     bind_result (SaveModemState (m\<lparr>m_env := SaveToFile (m_env m)\<rparr>)) (\<lambda>m.
     bind_result (save_all ms) (\<lambda>ms. Ok (m # ms)))"

text \<open>
  One connection to the server socket of \<^verbatim>\<open>main.cpp\<close>: the four characters that were read (none when
  the read failed), and what the request does to the modems. The flag says that the process exits. A remote request names a modem by one
  character.
\<close>

definition serve_connection :: "string \<Rightarrow> read_result \<Rightarrow> modem list \<Rightarrow> (bool \<times> modem list) result" where
  "serve_connection buf r ms =
     (if length buf \<noteq> 4 then Ok (False, ms)
      else if buf = ''STOP'' then bind_result (save_all ms) (\<lambda>ms. Ok (True, ms))
      else if take 3 buf = ''REM''
      then bind_result (stoi 10 [buf ! 3]) (\<lambda>i.
             if nat i \<ge> length ms then Ok (False, ms)
             else bind_result (SetRemoteClient_accepted simulator r (ms ! nat i)) (\<lambda>(c, m).
                    Ok (False, ms[nat i := m])))
      else Ok (False, ms))"

fun is_fd_list_char :: "char \<Rightarrow> bool" where
  "is_fd_list_char c \<longleftrightarrow> c = CHR '','' \<or> (48 \<le> (of_char c :: nat) \<and> of_char c \<le> (57 :: nat))"

function split_commas :: "string \<Rightarrow> string list" where
  "split_commas s =
     (case find_char (CHR '','') s of None \<Rightarrow> [s] | Some i \<Rightarrow> take i s # split_commas (drop (i + 1) s))"
  by pat_completeness auto
termination
  by (relation "measure length") (auto dest: find_char_lt)

declare split_commas.simps [simp del]

fun stoi_all :: "string list \<Rightarrow> int list result" where
  "stoi_all [] = Ok []"
| "stoi_all (s # ss) = bind_result (stoi 10 s) (\<lambda>i. bind_result (stoi_all ss) (\<lambda>is. Ok (i # is)))"

text \<open>\<^verbatim>\<open>ServerFdsFromCmdline\<close>: the numbers of the descriptors; a wrong character exits.\<close>

definition ServerFdsFromCmdline :: "string \<Rightarrow> int list result" where
  "ServerFdsFromCmdline fd_list =
     (if \<not> list_all is_fd_list_char fd_list then Err Check_Failed else stoi_all (split_commas fd_list))"

end
