(* ===== verification/Client_Frame.thy ===== *)
theory Client_Frame
  imports Modem_Simulator
begin

section \<open>What a command can do to the connections\<close>

text \<open>
  Handlers reach the clients only through the channel monitor's interface: they may close remote
  clients and add new ones. This theory shows it for every command of every service and every callback,
  which discharges the law that the monitor relies on (locale \<open>modem_client\<close>).
\<close>

subsection \<open>Steps\<close>

definition same_client :: "client option \<Rightarrow> client option \<Rightarrow> bool" where
  "same_client a b \<longleftrightarrow> map_option client_type a = map_option client_type b \<and>
     map_option incomplete_command a = map_option incomplete_command b \<and>
     map_option first_read_command a = map_option first_read_command b"

definition client_step :: "env \<Rightarrow> env \<Rightarrow> bool" where
  "client_step e e' \<longleftrightarrow> next_id e \<le> next_id e' \<and> clients e' = clients e \<and>
     (\<exists>new. remote_clients e' = remote_clients e @ new \<and> distinct new \<and>
        (\<forall>c\<in>set new. next_id e \<le> c \<and> c < next_id e' \<and> map_option client_type (objs e' c) = Some REMOTE)) \<and>
     (\<forall>c<next_id e. same_client (objs e c) (objs e' c))"

text \<open>The part of the environment that a step is about.\<close>

definition conn :: "env \<Rightarrow> (nat \<Rightarrow> client option) \<times> nat list \<times> nat list \<times> nat" where
  "conn e = (objs e, clients e, remote_clients e, next_id e)"

lemma same_client_refl [simp]: "same_client a a"
  by (simp add: same_client_def)

lemma client_step_conn: "conn e' = conn e \<Longrightarrow> client_step e e'"
  by (simp add: conn_def client_step_def)

lemma client_step_refl [simp]: "client_step e e"
  by (simp add: client_step_conn)

lemma client_step_trans:
  assumes "client_step e e'" and "client_step e' e''"
  shows "client_step e e''"
proof -
  obtain new where new: "remote_clients e' = remote_clients e @ new" "distinct new"
      "\<forall>c\<in>set new. next_id e \<le> c \<and> c < next_id e' \<and> map_option client_type (objs e' c) = Some REMOTE"
    using assms(1) by (auto simp: client_step_def)
  obtain new' where new': "remote_clients e'' = remote_clients e' @ new'" "distinct new'"
      "\<forall>c\<in>set new'. next_id e' \<le> c \<and> c < next_id e'' \<and> map_option client_type (objs e'' c) = Some REMOTE"
    using assms(2) by (auto simp: client_step_def)
  have le: "next_id e \<le> next_id e'" "next_id e' \<le> next_id e''" using assms by (simp_all add: client_step_def)
  have same: "\<forall>c<next_id e. same_client (objs e c) (objs e' c)" "\<forall>c<next_id e'. same_client (objs e' c) (objs e'' c)"
    using assms by (simp_all add: client_step_def)
  have "\<forall>c\<in>set new. map_option client_type (objs e'' c) = Some REMOTE"
    using new(3) same(2) unfolding same_client_def by metis
  moreover have "set new \<inter> set new' = {}" using new(3) new'(3) by fastforce
  ultimately have "remote_clients e'' = remote_clients e @ (new @ new') \<and> distinct (new @ new') \<and>
      (\<forall>c\<in>set (new @ new'). next_id e \<le> c \<and> c < next_id e'' \<and> map_option client_type (objs e'' c) = Some REMOTE)"
    using new new' le by auto
  moreover have "\<forall>c<next_id e. same_client (objs e c) (objs e'' c)"
    using same le by (auto simp: same_client_def)
  moreover have "clients e'' = clients e" using assms by (simp add: client_step_def)
  ultimately show ?thesis using le unfolding client_step_def by (meson le_trans)
qed

subsection \<open>The operations of the environment\<close>

lemma conn_only_wire: "only_wire e e' \<Longrightarrow> conn e' = conn e"
  by (simp add: conn_def only_wire_selectors)

lemmas conn_sending [simp] =
  conn_only_wire [OF only_wire_SendCommandResponse] conn_only_wire [OF only_wire_SendCommandResponses]
  conn_only_wire [OF only_wire_SendUnsolicitedCommand] conn_only_wire [OF only_wire_SendRemoteCommand]

lemma conn_looper [simp]:
  "conn (post_cb cb d e) = conn e" "conn (snd (post cb d e)) = conn e" "conn (cancel_serial s e) = conn e"
  "conn (set_nvram f e) = conn e" "conn (SaveToFile e) = conn e"
  by (simp_all add: conn_def post_cb_def post_def cancel_serial_def set_nvram_def SaveToFile_def Let_def
      split: prod.split option.split)

lemma conn_updates [simp]:
  "conn (e\<lparr>socket_wire := w\<rparr>) = conn e" "conn (e\<lparr>steady_now := t\<rparr>) = conn e"
  by (simp_all add: conn_def)

lemma conn_default [simp]: "conn (HandleCommandDefaultSupported c e) = conn e"
  by (simp add: HandleCommandDefaultSupported_def)

lemma client_step_Close [simp]: "client_step e (CloseRemoteConnection c e)"
  by (auto simp: client_step_def CloseRemoteConnection_def trigger_def same_client_def option.map_comp comp_def)

lemma client_step_new_id: "client_step e (e\<lparr>next_id := next_id e + 1\<rparr>)"
  by (simp add: client_step_def)

lemma client_step_dialed [simp]: "client_step e (snd (SetRemoteClient_dialed e))"
  by (auto simp: client_step_def SetRemoteClient_dialed_def trigger_def new_client_def Let_def same_client_def)

subsection \<open>The services that only answer\<close>

lemma conn_data: "conn (snd (run_data_command c h command de)) = conn (snd de)"
  by (cases h) (auto simp: HandleActivateDataCall_def HandleQueryDataCallList_def HandlePDPContext_def HandleQueryPDPContextList_def
      HandleEnterDataState_def HandleReadDynamicParam_def Let_def split: prod.splits option.splits)

lemma conn_misc: "conn (snd (run_misc_command c h command me)) = conn (snd me)"
  by (cases h) (auto simp: HandleGetIMEI_def HandleTimeUpdate_def TimeUpdate_def HandleCommandDefaultSupported_def Let_def
      split: prod.splits option.splits)

lemma conn_sup: "run_sup_command c h command se = Ok se' \<Longrightarrow> conn (snd se') = conn (snd se)"
  by (cases h) (auto simp: HandleUSSD_def HandleCLIR_def HandleCallWaiting_def HandleCLIP_def HandleCallForward_def
      HandleSuppServiceNotifications_def reply_sup_def Let_def split: prod.splits option.splits if_splits)

lemma conn_stk_answers [simp]:
  "conn (snd (end_session se)) = conn (snd se)" "conn (show_text d x e) = conn e"
  by (simp_all add: end_session_def show_text_def split: option.split)

lemma conn_tr:
  assumes "OnUnsolicitedCommandForTR d command (s, e) = Ok se'"
  shows "conn (snd se') = conn e"
proof (cases "GetCurrentSelectItem d s")
  case (Pair p s1)
  let ?s = "s1\<lparr>current_select_item_menu_ids := butlast (current_select_item_menu_ids s1)\<rparr>"
  show ?thesis
  proof (cases p)
    case None
    then show ?thesis using assms Pair
      by (auto simp: OnUnsolicitedCommandForTR_def Let_def split_beta bind_result_Inr_iff split: if_splits)
  next
    case (Some x)
    then show ?thesis using assms Pair
      by (cases "GetCurrentSelectItem d ?s"; cases "fst (GetCurrentSelectItem d ?s)")
        (auto simp: OnUnsolicitedCommandForTR_def Let_def split_beta bind_result_Inr_iff split: if_splits option.splits)
  qed
qed

lemma conn_envelope:
  assumes "HandleSendEnvelope d c command se = Ok se'"
  shows "conn (snd se') = conn (snd se)"
  using assms
  by (cases "last_two (fst (GetNextStr (SkipPrefix command)))")
    (auto simp: HandleSendEnvelope_def Let_def split_beta split: option.splits)

lemma conn_stk: "run_stk_command d c h command se = Ok se' \<Longrightarrow> conn (snd se') = conn (snd se)"
  by (cases h) (auto simp: HandleReportStkServiceIsRunning_def HandleSendTerminalResponseToSim_def
      Let_def dest!: conn_tr conn_envelope split: prod.splits option.splits)

lemma conn_reply_sim [simp]: "conn (snd (snd (reply_sim c rs st))) = conn (snd (snd st))"
  by (simp add: reply_sim_def split: prod.split)

lemma conn_OnSimStatusChanged [simp]: "conn (snd (OnSimStatusChanged r ne)) = conn (snd ne)"
  by (simp add: OnSimStatusChanged_def Let_def split: prod.split)

lemma conn_SimOnSimStatusChanged [simp]: "conn (snd (snd (SimOnSimStatusChanged st))) = conn (snd (snd st))"
  by (cases st) (simp add: SimOnSimStatusChanged_def)

lemma conn_pin [simp]:
  "conn (snd (snd (snd (checkPin1AndAdjustSimStatus p st)))) = conn (snd (snd st))"
  "conn (snd (snd (snd (ChangePin1AndAdjustSimStatus md p q st)))) = conn (snd (snd st))"
  "conn (snd (snd (snd (verify_pin2 p st)))) = conn (snd (snd st))"
  "conn (snd (snd (pin_reply c r))) = conn (snd (snd (snd r)))"
  "conn (snd (snd (after_password c l b r))) = conn (snd (snd (snd r)))"
  by (auto simp: checkPin1AndAdjustSimStatus_def ChangePin1AndAdjustSimStatus_def verify_pin2_def pin_reply_def
      after_password_def Let_def split: prod.splits)

lemma conn_sim_files:
  "HandleSIM_IO c command st = Ok st' \<Longrightarrow> conn (snd (snd st')) = conn (snd (snd st))"
  "HandleCSIM_IO c command st = Ok st' \<Longrightarrow> conn (snd (snd st')) = conn (snd (snd st))"
  "HandleTransmitLogicalChannel c command st = Ok st' \<Longrightarrow> conn (snd (snd st')) = conn (snd (snd st))"
  "HandlePhoneNumberUpdate command st = Ok st' \<Longrightarrow> conn (snd (snd st')) = conn (snd (snd st))"
  "reply_file_text ps f n c st = Ok st' \<Longrightarrow> conn (snd (snd st')) = conn (snd (snd st))"
  by (auto simp: HandleSIM_IO_def HandleCSIM_IO_def HandleTransmitLogicalChannel_def HandlePhoneNumberUpdate_def
      SetPhoneNumber_def reply_file_text_def Let_def split_beta bind_result_Inr_iff split: if_splits option.splits)

lemma conn_sim_commands:
  "conn (snd (snd (HandleChangeOrEnterPIN c command st))) = conn (snd (snd st))"
  "conn (snd (snd (HandleFacilityLock c command st))) = conn (snd (snd st))"
  "conn (snd (snd (HandleChangePassword c command st))) = conn (snd (snd st))"
  "conn (snd (snd (HandleSIMStatusReq c st))) = conn (snd (snd st))"
  "conn (snd (snd (HandleQueryRemainTimes c command st))) = conn (snd (snd st))"
  "conn (snd (snd (HandleSimAuthentication c command st))) = conn (snd (snd st))"
  "conn (snd (snd (HandleOpenLogicalChannel c command st))) = conn (snd (snd st))"
  "conn (snd (snd (HandleCloseLogicalChannel c command st))) = conn (snd (snd st))"
  by (simp_all add: HandleChangeOrEnterPIN_def HandleFacilityLock_def HandleChangePassword_def HandleSIMStatusReq_def
      HandleQueryRemainTimes_def HandleSimAuthentication_def HandleOpenLogicalChannel_def HandleCloseLogicalChannel_def
      Let_def split_beta split: SimStatus.split option.split)

lemma conn_sim: "run_sim_command c h command st = Ok st' \<Longrightarrow> conn (snd (snd st')) = conn (snd (snd st))"
  by (cases h) (auto simp: conn_sim_files conn_sim_commands HandleGetIMSI_def HandleGetIccId_def
      HandleCdmaSubscriptionSource_def HandleCdmaRoamingPreference_def split: prod.splits if_splits option.splits)

subsection \<open>Network and messages\<close>

lemma conn_reply_net [simp]: "conn (snd (reply_net c rs ne)) = conn (snd ne)"
  by (simp add: reply_net_def)

lemma conn_send_phys_updates [simp]: "conn (send_phys_updates t f b ps e) = conn e"
  by (induction ps arbitrary: e) (simp_all add: sendOnePhysChanCfgUpdate_def)

lemma conn_network_reports [simp]:
  "conn (OnVoiceRegisterStateChanged n e) = conn e" "conn (OnDataRegisterStateChanged n e) = conn e"
  "conn (OnSignalStrengthChanged n e) = conn e" "conn (TimeUpdate mi e) = conn e"
  "conn (updatePhysicalChannelconfigs t f b k d e) = conn e"
  "conn (onUpdatePhysicalChannelconfigs t f b d e) = conn e"
  by (simp_all add: OnVoiceRegisterStateChanged_def OnDataRegisterStateChanged_def OnSignalStrengthChanged_def
      TimeUpdate_def updatePhysicalChannelconfigs_def onUpdatePhysicalChannelconfigs_def Let_def)

lemma conn_network_updates [simp]:
  "conn (snd (UpdateRegisterState d st ne)) = conn (snd ne)"
  "conn (snd (UpdateSignalStrengthCallback ne)) = conn (snd ne)"
  "conn (snd (save_selection ne)) = conn (snd ne)"
  by (simp_all add: UpdateRegisterState_def UpdateSignalStrengthCallback_def save_selection_def Let_def split_beta)

lemma conn_network_total:
  "conn (snd (HandleRadioPowerReq c ne)) = conn (snd ne)"
  "conn (snd (HandleRadioPower r d c command ne)) = conn (snd ne)"
  "conn (snd (HandleSignalStrength mi c ne)) = conn (snd ne)"
  "conn (snd (HandleQueryNetworkSelectionMode c ne)) = conn (snd ne)"
  "conn (snd (HandleRequestOperator c ne)) = conn (snd ne)"
  "conn (snd (HandleQueryAvailableNetwork c ne)) = conn (snd ne)"
  "conn (snd (HandleVoiceNetworkRegistration c command ne)) = conn (snd ne)"
  "conn (snd (HandleDataNetworkRegistration c command ne)) = conn (snd ne)"
  "conn (snd (HandleGetPreferredNetworkType c ne)) = conn (snd ne)"
  "conn (snd (HandleQuerySupportedTechs c ne)) = conn (snd ne)"
  by (simp_all add: HandleRadioPowerReq_def HandleRadioPower_def HandleSignalStrength_def HandleQueryNetworkSelectionMode_def
      HandleRequestOperator_def HandleQueryAvailableNetwork_def HandleVoiceNetworkRegistration_def
      HandleDataNetworkRegistration_def HandleGetPreferredNetworkType_def HandleQuerySupportedTechs_def Let_def split_beta
      split: option.split)

lemma conn_network_partial:
  "HandleSetNetworkSelectionMode c command ne = Ok ne' \<Longrightarrow> conn (snd ne') = conn (snd ne)"
  "HandleSetPreferredNetworkType d c command ne = Ok ne' \<Longrightarrow> conn (snd ne') = conn (snd ne)"
  "HandleReceiveRemoteCTEC d command ne = Ok ne' \<Longrightarrow> conn (snd ne') = conn (snd ne)"
  "HandleReceiveRemoteSignal command ne = Ok ne' \<Longrightarrow> conn (snd ne') = conn (snd ne)"
  "HandleReceiveRemoteVoiceDataReg d command ne = Ok ne' \<Longrightarrow> conn (snd ne') = conn (snd ne)"
  "HandleIdentifierDisclosure command ne = Ok ne' \<Longrightarrow> conn (snd ne') = conn (snd ne)"
  "HandleSecurityAlgorithmUpdate command ne = Ok ne' \<Longrightarrow> conn (snd ne') = conn (snd ne)"
  by (auto simp: HandleSetNetworkSelectionMode_def HandleSetPreferredNetworkType_def HandleReceiveRemoteCTEC_def
      HandleReceiveRemoteSignal_def HandleReceiveRemoteVoiceDataReg_def HandleIdentifierDisclosure_def
      HandleSecurityAlgorithmUpdate_def Let_def split_beta bind_result_Inr_iff split: if_splits option.splits list.splits)

lemma conn_network: "run_network_command ctx c h command ne = Ok ne' \<Longrightarrow> conn (snd ne') = conn (snd ne)"
  by (cases h) (auto simp: conn_network_total dest: conn_network_partial)

lemma conn_reply_sms [simp]: "conn (snd (reply_sms c rs se)) = conn (snd se)"
  by (simp add: reply_sms_def)

lemma conn_announce_sms [simp]: "conn (announce_sms p e) = conn e"
  by (simp add: announce_sms_def)

lemma conn_sms: "run_sms_command c h command se = Ok se' \<Longrightarrow> conn (snd se') = conn (snd se)"
  by (cases h) (auto simp: HandleSendSMS_def HandleSMSAcknowledge_def HandleWriteSMSToSim_def HandleDeleteSmsOnSim_def
      HandleBroadcastConfig_def HandleGetSmscAddress_def HandleSetSmscAddress_def HandleReceiveRemoteSMS_def Let_def split_beta
      split: option.splits if_splits)

lemma conn_sms_pdus:
  "HandleSendSMSPDU num c command se = Ok se' \<Longrightarrow> conn (snd se') = conn (snd se)"
  "conn (snd (HandleWriteSMSPduToSim c command se)) = conn (snd se)"
  "conn (HandleReceiveSMS p e) = conn e" "conn (HandleSMSStatuReport p r e) = conn e"
proof -
  have deliver: "deliver n ph port p e = Ok e' \<Longrightarrow> conn e' = conn e" for n ph port p e e'
    by (auto simp: deliver_def SendSmsToRemote_def bind_result_Inr_iff split: if_splits)
  show "HandleSendSMSPDU num c command se = Ok se' \<Longrightarrow> conn (snd se') = conn (snd se)"
    by (auto simp: HandleSendSMSPDU_def Let_def split_beta bind_result_Inr_iff dest!: deliver split: if_splits)
qed (simp_all add: HandleWriteSMSPduToSim_def HandleReceiveSMS_def HandleSMSStatuReport_def Let_def split_beta)

subsection \<open>Calls\<close>

text \<open>Calls open connections to other instances and close them.\<close>

lemma client_step_cong: "conn e'' = conn e' \<Longrightarrow> client_step e e'' = client_step e e'"
  by (simp add: conn_def client_step_def)

lemma conn_finish [simp]: "conn (snd (finish c rs se)) = conn (snd se)"
  by (simp add: finish_def)

lemmas client_step_after [simp] =
  conn_sending [THEN client_step_cong] conn_looper [THEN client_step_cong] conn_updates [THEN client_step_cong]
  conn_finish [THEN client_step_cong]

lemma client_step_status [simp]: "client_step e (SendCallStatusToRemote call st e)"
  by (auto simp: SendCallStatusToRemote_def Let_def split: option.split
      intro: client_step_conn client_step_trans [OF client_step_conn client_step_Close])

lemma client_step_for_calls:
  "(\<And>call e. client_step e (snd (body call e))) \<Longrightarrow> client_step e (snd (for_calls body calls e))"
proof (induction body calls e rule: for_calls.induct)
  case (2 body index call calls e)
  have "client_step e (snd (body call e))" by (rule 2(2))
  moreover have "client_step (snd (body call e)) (snd (for_calls body calls (snd (body call e))))"
    using 2(1) [OF refl prod.collapse] 2(2) by simp
  ultimately show ?case by (auto simp: Let_def split_beta intro: client_step_trans)
qed simp

lemma client_step_loop [intro]:
  "(\<And>call e. client_step e (snd (body call e))) \<Longrightarrow> client_step (snd se) (snd (finish c rs (loop_calls body se)))"
  by (auto simp: loop_calls_def split_beta Let_def intro: client_step_for_calls)

lemma client_step_bodies [simp]:
  "client_step e (snd (hang_up call e))" "client_step e (snd (activate call e))"
  "client_step e (snd (put_on_hold call e))" "client_step e (snd (chld_body n call e))"
  by (simp_all add: hang_up_def activate_def put_on_hold_def chld_body_def)

lemma client_step_dial_remote: "client_step (snd se) (snd (fst (dial_remote c port se)))"
proof (cases se)
  case (Pair s e)
  let ?e = "e\<lparr>next_id := next_id e + 1\<rparr>"
  have "client_step e (snd (SetRemoteClient_dialed ?e))"
    using client_step_trans [OF client_step_new_id client_step_dialed] .
  then show ?thesis using Pair client_step_new_id [of e]
    by (auto simp: dial_remote_def Let_def split_beta)
qed

lemma client_step_place_call: "client_step (snd se) (snd (place_call c em n port se))"
proof -
  have "conn (snd (dial_local em n se)) = conn (snd se)"
    by (simp add: dial_local_def Let_def split_beta)
  then show ?thesis using client_step_dial_remote [of se c port]
    by (auto simp: place_call_def Let_def split_beta intro: client_step_conn)
qed

lemma client_step_dial:
  assumes "HandleDial st fdn fixed c command se = Ok se'"
  shows "client_step (snd se) (snd se')"
proof (rule ccontr)
  assume no: "\<not> client_step (snd se) (snd se')"
  then have ne: "se' \<noteq> (fst se, SendCommandResponse c err (snd se))" for err by auto
  obtain em n port where "se' = place_call c em n port se"
    using assms ne by (cases se) (auto simp: HandleDial_def Let_def bind_result_Inr_iff split: if_splits)
  then show False using no client_step_place_call by blast
qed

lemma client_step_remote_call: "client_step (snd se) (snd (HandleRemoteCall ro c command se))"
proof -
  have "conn (snd (announce se')) = conn (snd se')" "conn (snd (update_call f found se')) = conn (snd se')"
    for f found se' by (simp_all add: announce_def update_call_def split: option.split)
  note same = this [THEN client_step_cong]
  have "client_step (snd se') (snd (remote_hangup found se'))" for found se'
    by (auto simp: remote_hangup_def split: option.split)
  then show ?thesis by (simp add: HandleRemoteCall_def Let_def split_beta same)
qed

lemma client_step_hangup:
  assumes "HandleHangup c command se = Ok se'"
  shows "client_step (snd se) (snd se')"
proof -
  have "client_step (snd se) (snd (release_one i se))" for i
    by (simp add: release_one_def split_beta split: option.split)
  then show ?thesis using assms
    by (auto simp: HandleHangup_def Let_def bind_result_Inr_iff split: if_splits)
qed

lemma client_step_timeout: "client_step (snd se) (snd (TimerWaitingRemoteCallResponse i num se))"
  by (auto simp: TimerWaitingRemoteCallResponse_def CallStateUpdate_def split_beta split: option.split)

lemma client_step_call: "run_call_command ctx c h command se = Ok se' \<Longrightarrow> client_step (snd se) (snd se')"
proof (cases h)
  assume "run_call_command ctx c h command se = Ok se'" "h = Cmd_Mute"
  then show ?thesis by (auto simp: HandleMute_def Let_def split_beta intro: client_step_conn)
next
  assume "run_call_command ctx c h command se = Ok se'" "h = Cmd_EmergencyMode"
  then show ?thesis by (auto simp: HandleEmergencyMode_def Let_def split_beta intro: client_step_conn)
qed (auto simp: HandleAcceptCall_def HandleRejectCall_def HandleCurrentCalls_def HandleSendDtmf_def HandleCancelUssd_def
    client_step_remote_call dest: client_step_dial client_step_hangup intro: client_step_conn)

subsection \<open>The modem\<close>

abbreviation modem_step :: "modem \<Rightarrow> modem \<Rightarrow> bool" where
  "modem_step m m' \<equiv> client_step (m_env m) (m_env m')"

lemma modem_step_command: "run_modem_command c h command m = Ok m' \<Longrightarrow> modem_step m m'"
proof (cases h)
  case (Data d)
  then show "run_modem_command c h command m = Ok m' \<Longrightarrow> modem_step m m'"
    using conn_data [of c d command "(m_data m, m_env m)"] by (auto simp: split_beta intro: client_step_conn)
next
  case (Misc d)
  then show "run_modem_command c h command m = Ok m' \<Longrightarrow> modem_step m m'"
    using conn_misc [of c d command "(m_misc m, m_env m)"] by (auto simp: split_beta intro: client_step_conn)
qed (auto simp: bind_result_Inr_iff split_beta intro: client_step_conn
    dest!: conn_sim conn_network conn_sup conn_stk conn_sms client_step_call)

lemma modem_step_services: "try_services c command ts m = Ok (b, m') \<Longrightarrow> modem_step m m'"
proof (induction ts arbitrary: m)
  case (Cons t ts)
  obtain success m1 where m1: "HandleModemCommand (run_modem_command c) (handlers_of t) command m = Ok (success, m1)"
      "if success then m' = m1 else try_services c command ts m1 = Ok (b, m')"
    using Cons.prems by (auto simp: bind_result_Inr_iff split: if_splits)
  have "modem_step m m1" using m1(1)
    by (auto simp: HandleModemCommand_def bind_result_Inr_iff split: option.splits dest: modem_step_command)
  then show ?case using m1(2) Cons.IH [of m1] by (auto intro: client_step_trans split: if_splits)
qed simp

lemma modem_step_dispatch: "ModemDispatchCommand c command m = Ok m' \<Longrightarrow> modem_step m m'"
  by (auto simp: ModemDispatchCommand_def bind_result_Inr_iff split_beta Let_def conn_sms_pdus
      intro: client_step_conn dest!: conn_sms_pdus(1) modem_step_services split: if_splits)

lemma modem_step_callback: "run_callback cb m = Ok m' \<Longrightarrow> modem_step m m'"
  using client_step_timeout [of "(m_call m, m_env m)"]
  by (cases cb) (auto simp: split_beta CallStateUpdate_def conn_sms_pdus intro: client_step_conn)

end
