(* ===== verification/Call_Properties.thy ===== *)
theory Call_Properties
  imports Call_Service
begin

section \<open>Properties of the call service\<close>

text \<open>
  The invariant of the call table and its preservation by every command and timer, the meaning of
  \<^verbatim>\<open>AT+CHLD\<close> as a transition of call states, what dialling can do, and the set-up of a call between
  two instances.
\<close>

subsection \<open>Free indices\<close>

lemma free_index_from_spec:
  "index \<le> free_index_from m index \<and> map_find m (free_index_from m index) = None \<and>
   (\<forall>k. index \<le> k \<longrightarrow> k < free_index_from m index \<longrightarrow> map_find m k \<noteq> None)"
proof (induction m index rule: free_index_from.induct)
  case (1 m index)
  show ?case
  proof (cases "map_find m index = None")
    case True
    then have "free_index_from m index = index" by (subst free_index_from.simps) simp
    then show ?thesis using True by simp
  next
    case False
    then have eq: "free_index_from m index = free_index_from m (index + 1)"
      by (subst free_index_from.simps) (simp only: if_False)
    have "map_find m k \<noteq> None" if "index \<le> k" "k < free_index_from m index" for k
      using 1 [OF False] that False eq by (cases "k = index") auto
    then show ?thesis using 1 [OF False] eq by auto
  qed
qed

lemma FindFreeCallIndex_free [simp]: "map_find (active_calls s) (FindFreeCallIndex s) = None"
  using free_index_from_spec [of 1 "active_calls s"] by (simp add: FindFreeCallIndex_def)

lemma FindFreeCallIndex_pos: "1 \<le> FindFreeCallIndex s"
  using free_index_from_spec [of 1 "active_calls s"] by (simp add: FindFreeCallIndex_def)

subsection \<open>Loops over the calls\<close>

text \<open>
  What a loop does to the table does not depend on the environment: each entry is updated or erased
  according to a function of the call.
\<close>

definition calls_after :: "(CallStatus \<Rightarrow> CallStatus option) \<Rightarrow> CallStatus int_map \<Rightarrow> CallStatus int_map" where
  "calls_after g m = concat (map (\<lambda>(i, c). case g c of None \<Rightarrow> [] | Some c' \<Rightarrow> [(i, c')]) m)"

lemma calls_after_simps [simp]:
  "calls_after g [] = []"
  "calls_after g ((i, c) # m) = (case g c of None \<Rightarrow> [] | Some c' \<Rightarrow> [(i, c')]) @ calls_after g m"
  by (simp_all add: calls_after_def)

lemma for_calls_table:
  assumes "\<And>call e. fst (body call e) = g call"
  shows "fst (for_calls body m e) = calls_after g m"
proof (induction m arbitrary: e)
  case (Cons x m)
  obtain i c where x: "x = (i, c)" by (cases x)
  show ?case using Cons assms [of c e] by (simp add: x split_beta Let_def split: option.split)
qed simp

lemma set_calls_after: "set (calls_after g m) = {(i, c'). \<exists>c. (i, c) \<in> set m \<and> g c = Some c'}"
proof (induction m)
  case (Cons x m)
  obtain i c where x: "x = (i, c)" by (cases x)
  show ?case unfolding x calls_after_simps set_append Cons by (cases "g c") auto
qed simp

lemma map_wf_calls_after: "map_wf m \<Longrightarrow> map_wf (calls_after g m)"
  by (induction m) (fastforce simp: set_calls_after split: option.split)+

lemma map_find_calls_after:
  "map_wf m \<Longrightarrow> map_find (calls_after g m) k = Option.bind (map_find m k) g"
proof (induction m)
  case (Cons x m)
  obtain i c where x: "x = (i, c)" by (cases x)
  have "map_find m i = None" using Cons.prems by (auto simp: x map_find_None_iff)
  then have "map_find (calls_after g m) i = None"
    by (auto simp: map_find_None_iff set_calls_after) (metis fst_conv image_eqI)
  then show ?case using Cons by (auto simp: x map_find_def split: option.split)
qed (simp add: map_find_def)

definition loop_next :: "(CallStatus \<Rightarrow> env \<Rightarrow> CallStatus option \<times> env) \<Rightarrow> CallStatus \<Rightarrow> CallStatus option" where
  "loop_next body call = fst (body call undefined)"

lemma active_calls_loop:
  assumes "\<And>call e. fst (body call e) = g call"
  shows "fst (loop_calls body (s, e)) = s\<lparr>active_calls := calls_after g (active_calls s)\<rparr>"
  using for_calls_table [of body g "active_calls s" e] assms
  by (simp add: loop_calls_def split_beta)

lemmas loop_bodies = hang_up_def activate_def put_on_hold_def

lemma finish_fst [simp]: "fst (finish c rs se) = fst se"
  by (simp add: finish_def)

subsection \<open>Control of calls as transitions of call states\<close>

text \<open>
  What the commands mean for one call, as a function of its state: \<^const>\<open>None\<close> releases the call.
\<close>

fun accept_spec :: "CallState \<Rightarrow> CallState option" where
  "accept_spec CALL_STATE_INCOMING = Some CALL_STATE_ACTIVE"
| "accept_spec CALL_STATE_ACTIVE = Some CALL_STATE_HELD"
| "accept_spec st = Some st"

fun reject_spec :: "CallState \<Rightarrow> CallState option" where
  "reject_spec CALL_STATE_INCOMING = None"
| "reject_spec st = Some st"

definition chld_spec :: "int \<Rightarrow> CallState \<Rightarrow> CallState option" where
  "chld_spec n st =
     (if n = 0 then (if st \<in> {CALL_STATE_INCOMING, CALL_STATE_HELD, CALL_STATE_WAITING} then None else Some st)
      else if n = 1 then
        (case st of CALL_STATE_ACTIVE \<Rightarrow> None
         | CALL_STATE_HELD \<Rightarrow> Some CALL_STATE_ACTIVE
         | CALL_STATE_WAITING \<Rightarrow> Some CALL_STATE_ACTIVE
         | _ \<Rightarrow> Some st)
      else if n = 2 then
        (case st of CALL_STATE_ACTIVE \<Rightarrow> Some CALL_STATE_HELD
         | CALL_STATE_HELD \<Rightarrow> Some CALL_STATE_ACTIVE
         | _ \<Rightarrow> Some st)
      else (case st of CALL_STATE_HELD \<Rightarrow> Some CALL_STATE_ACTIVE | _ \<Rightarrow> Some st))"

text \<open>
  What the other side of a call is told. For a waiting call, \<^verbatim>\<open>AT+CHLD=2\<close> says that it is held, although the
  call itself stays waiting: \<^const>\<open>SetCallBackground\<close> changes active calls only.
\<close>

definition chld_notice :: "int \<Rightarrow> CallState \<Rightarrow> CallState option" where
  "chld_notice n st =
     (if n = 0 then (if st \<in> {CALL_STATE_INCOMING, CALL_STATE_HELD, CALL_STATE_WAITING} then Some CALL_STATE_HANGUP else None)
      else if n = 1 then
        (case st of CALL_STATE_ACTIVE \<Rightarrow> Some CALL_STATE_HANGUP
         | CALL_STATE_HELD \<Rightarrow> Some CALL_STATE_ACTIVE
         | CALL_STATE_WAITING \<Rightarrow> Some CALL_STATE_ACTIVE
         | _ \<Rightarrow> None)
      else if n = 2 then
        (case st of CALL_STATE_ACTIVE \<Rightarrow> Some CALL_STATE_HELD
         | CALL_STATE_WAITING \<Rightarrow> Some CALL_STATE_HELD
         | CALL_STATE_HELD \<Rightarrow> Some CALL_STATE_ACTIVE
         | _ \<Rightarrow> None)
      else (case st of CALL_STATE_HELD \<Rightarrow> Some CALL_STATE_ACTIVE | _ \<Rightarrow> None))"

definition notify_calls :: "(CallState \<Rightarrow> CallState option) \<Rightarrow> CallStatus int_map \<Rightarrow> env \<Rightarrow> env" where
  "notify_calls notice = fold (\<lambda>(_, call) e. case notice (call_state call) of None \<Rightarrow> e | Some st \<Rightarrow> SendCallStatusToRemote call st e)"

definition lift_spec :: "(CallState \<Rightarrow> CallState option) \<Rightarrow> CallStatus \<Rightarrow> CallStatus option" where
  "lift_spec sp call = map_option (\<lambda>st. call\<lparr>call_state := st\<rparr>) (sp (call_state call))"

lemmas call_predicates =
  isCallIncoming_def isCallActive_def isCallBackground_def isCallWaiting_def isCallDialing_def
  SetCallActive_def SetCallBackground_def

lemma call_state_same [simp]: "call_state call = st \<Longrightarrow> call\<lparr>call_state := st\<rparr> = call"
  by simp

lemma HandleAcceptCall_table:
  "fst (HandleAcceptCall c (s, e)) = s\<lparr>active_calls := calls_after (lift_spec accept_spec) (active_calls s)\<rparr>"
  unfolding HandleAcceptCall_def finish_fst
  by (rule active_calls_loop, case_tac "call_state call")
    (simp_all add: loop_bodies call_predicates lift_spec_def)

lemma HandleRejectCall_table:
  "fst (HandleRejectCall c (s, e)) = s\<lparr>active_calls := calls_after (lift_spec reject_spec) (active_calls s)\<rparr>"
  unfolding HandleRejectCall_def finish_fst
  by (rule active_calls_loop, case_tac "call_state call")
    (simp_all add: loop_bodies call_predicates lift_spec_def)

lemma chld_body_table:
  "fst (loop_calls (chld_body n) (s, e)) =
    s\<lparr>active_calls := calls_after (lift_spec (chld_spec n)) (active_calls s)\<rparr>"
  by (rule active_calls_loop, case_tac "call_state call")
    (simp_all add: chld_body_def chld_spec_def loop_bodies call_predicates lift_spec_def)

lemma SendCallStatusToRemote_state [simp]: "SendCallStatusToRemote (call\<lparr>call_state := x\<rparr>) st e = SendCallStatusToRemote call st e"
  by (simp add: SendCallStatusToRemote_def status_message_def split: option.split)

lemma chld_body_notice:
  "snd (chld_body n call e) = (case chld_notice n (call_state call) of None \<Rightarrow> e | Some st \<Rightarrow> SendCallStatusToRemote call st e)"
  by (cases "call_state call") (simp_all add: chld_body_def chld_notice_def loop_bodies call_predicates)

lemma chld_body_env: "snd (loop_calls (chld_body n) (s, e)) = notify_calls (chld_notice n) (active_calls s) e"
proof -
  have "snd (for_calls (chld_body n) m e) = notify_calls (chld_notice n) m e" for m
  proof (induction m arbitrary: e)
    case (Cons x m)
    obtain k call where x: "x = (k, call)" by (cases x)
    show ?case using Cons chld_body_notice [of n call e] by (simp add: x notify_calls_def split_beta Let_def)
  qed (simp add: notify_calls_def)
  then show ?thesis by (simp add: loop_calls_def split_beta)
qed

lemma to_string_digit: "0 \<le> n \<Longrightarrow> n < 10 \<Longrightarrow> to_string n = [digit_lower (nat n)]"
  by (simp add: to_string_def digits_of.simps)

lemma chld_argument:
  assumes "0 \<le> n" and "n < 10"
  shows "SkipPrefix (''AT+CHLD='' @ to_string n @ rest) = to_string n @ rest"
    and "bind_result (substr (to_string n @ rest) 0 1) (stoi 10) = Ok n"
    and "length (to_string n @ rest) > 1 \<longleftrightarrow> rest \<noteq> []"
    and "substr_from (to_string n @ rest) 1 = Ok rest"
proof -
  show "SkipPrefix (''AT+CHLD='' @ to_string n @ rest) = to_string n @ rest"
    using SkipPrefix_append [of "''AT+CHLD''" "to_string n @ rest"] by simp
  have "in_int n" using assms by (simp add: in_int_def)
  then have "stoi 10 [digit_lower (nat n)] = Ok n"
    using stoi_to_string [of n] to_string_digit [OF assms] by simp
  then show "bind_result (substr (to_string n @ rest) 0 1) (stoi 10) = Ok n"
    by (simp add: substr_def to_string_digit [OF assms])
qed (simp_all add: to_string_digit [OF assms] substr_from_def)

text \<open>
  C4: \<^verbatim>\<open>AT+CHLD=n\<close> for \<open>n\<close> from 0 to 4 succeeds and makes exactly the transition \<open>chld_spec n\<close> of
  every call, releasing those it maps to nothing and changing nothing but the state of the others; it
  tells the other sides exactly \<open>chld_notice n\<close>, in the order of the calls, and then answers OK. \<^verbatim>\<open>AT+CHLD=1i\<close> and
  \<^verbatim>\<open>AT+CHLD=2i\<close> release the call with index \<open>i\<close>, whatever its state, tell its other side, and touch no other.
  Specification and notice differ for a waiting call and \<open>n = 2\<close>: it stays waiting, but its other side is told
  that it is held.
\<close>

theorem chld_refines_call_states:
  assumes "map_wf (active_calls s)" and "0 \<le> n" and "n \<le> 4" and "in_int i" and "i \<noteq> - 1"
  shows "(\<exists>s' e'. HandleHangup c (''AT+CHLD='' @ to_string n) (s, e) = Ok (s', e') \<and> map_wf (active_calls s') \<and>
      (\<forall>k. map_find (active_calls s') k = Option.bind (map_find (active_calls s) k) (lift_spec (chld_spec n))) \<and>
      e' = SendCommandResponse c ''OK'' (notify_calls (chld_notice n) (active_calls s) e)) \<and>
    (n \<in> {1, 2} \<longrightarrow>
      (\<exists>s' e'. HandleHangup c (''AT+CHLD='' @ to_string n @ to_string i) (s, e) = Ok (s', e') \<and>
      (\<forall>k. map_find (active_calls s') k = (if k = i then None else map_find (active_calls s) k)) \<and>
      e' = SendCommandResponse c ''OK''
        (case map_find (active_calls s) i of None \<Rightarrow> e | Some call \<Rightarrow> SendCallStatusToRemote call CALL_STATE_HANGUP e)))"
proof (intro conjI impI)
  have n10: "n < 10" using assms(3) by simp
  note arg = chld_argument [OF assms(2) n10]
  have len: "length (to_string n) = 1" by (simp add: to_string_digit [OF assms(2) n10])
  have all: "HandleHangup c (''AT+CHLD='' @ to_string n) (s, e) =
      Ok (finish c [''OK''] (loop_calls (chld_body n) (s, e)))"
    using arg(1,2) [of "[]"] len assms(2,3) by (simp add: HandleHangup_def Let_def)
  obtain s1 e1 where r: "loop_calls (chld_body n) (s, e) = (s1, e1)" by fastforce
  then have s1: "active_calls s1 = calls_after (lift_spec (chld_spec n)) (active_calls s)"
    using chld_body_table [of n s e] by simp
  have t1: "map_wf (active_calls s1)"
    unfolding s1 by (rule map_wf_calls_after [OF assms(1)])
  have t2: "map_find (active_calls s1) k = Option.bind (map_find (active_calls s) k) (lift_spec (chld_spec n))" for k
    unfolding s1 by (rule map_find_calls_after [OF assms(1)])
  have t3: "e1 = notify_calls (chld_notice n) (active_calls s) e" using chld_body_env [of n s e] by (simp add: r)
  show "\<exists>s' e'. HandleHangup c (''AT+CHLD='' @ to_string n) (s, e) = Ok (s', e') \<and> map_wf (active_calls s') \<and>
      (\<forall>k. map_find (active_calls s') k = Option.bind (map_find (active_calls s) k) (lift_spec (chld_spec n))) \<and>
      e' = SendCommandResponse c ''OK'' (notify_calls (chld_notice n) (active_calls s) e)"
    using t1 t2 t3 unfolding all r finish_def by (intro exI [of _ s1] exI) auto
  assume n: "n \<in> {1, 2}"
  have "HandleHangup c (''AT+CHLD='' @ to_string n @ to_string i) (s, e) =
      Ok (finish c [''OK''] (release_one i (s, e)))"
    using arg(1,2,4) [of "to_string i"] arg(3) [of "to_string i"] stoi_to_string [OF assms(4)] assms(2,3,5) n
    by (simp add: HandleHangup_def Let_def)
  then show "\<exists>s' e'. HandleHangup c (''AT+CHLD='' @ to_string n @ to_string i) (s, e) = Ok (s', e') \<and>
      (\<forall>k. map_find (active_calls s') k = (if k = i then None else map_find (active_calls s) k)) \<and>
      e' = SendCommandResponse c ''OK''
        (case map_find (active_calls s) i of None \<Rightarrow> e | Some call \<Rightarrow> SendCallStatusToRemote call CALL_STATE_HANGUP e)"
    by (auto simp: finish_def release_one_def map_find_erase split: option.split)
qed

text \<open>A table with an active, a held and an incoming call.\<close>

definition three_calls :: call_service where
  "three_calls = \<lparr>active_calls = [(1, (new_call ''100'')\<lparr>call_state := CALL_STATE_ACTIVE\<rparr>),
     (2, (new_call ''200'')\<lparr>call_state := CALL_STATE_HELD\<rparr>), (3, new_call ''300'')],
     in_emergency_mode = False, mute_on = False\<rparr>"

definition waiting_calls :: call_service where
  "waiting_calls = three_calls\<lparr>active_calls := map_set 3 ((new_call ''300'')\<lparr>call_state := CALL_STATE_WAITING\<rparr>) (active_calls three_calls)\<rparr>"

theorem chld_refines_call_states_witness:
  "\<exists>s' e'. HandleHangup 0 (''AT+CHLD='' @ to_string 2) (waiting_calls, sample_env) = Ok (s', e') \<and>
     map_find (active_calls s') 1 = Some ((new_call ''100'')\<lparr>call_state := CALL_STATE_HELD\<rparr>) \<and>
     map_find (active_calls s') 2 = Some ((new_call ''200'')\<lparr>call_state := CALL_STATE_ACTIVE\<rparr>) \<and>
     map_find (active_calls s') 3 = Some ((new_call ''300'')\<lparr>call_state := CALL_STATE_WAITING\<rparr>) \<and>
     e' = SendCommandResponse 0 ''OK'' (notify_calls (chld_notice 2) (active_calls waiting_calls) sample_env)"
proof -
  have calls: "active_calls waiting_calls = [(1, (new_call ''100'')\<lparr>call_state := CALL_STATE_ACTIVE\<rparr>),
     (2, (new_call ''200'')\<lparr>call_state := CALL_STATE_HELD\<rparr>), (3, (new_call ''300'')\<lparr>call_state := CALL_STATE_WAITING\<rparr>)]"
    by (simp add: waiting_calls_def three_calls_def)
  then have "map_wf (active_calls waiting_calls)" by simp
  then obtain s' e' where *: "HandleHangup 0 (''AT+CHLD='' @ to_string 2) (waiting_calls, sample_env) = Ok (s', e')"
      "\<And>k. map_find (active_calls s') k =
        Option.bind (map_find (active_calls waiting_calls) k) (lift_spec (chld_spec 2))"
      "e' = SendCommandResponse 0 ''OK'' (notify_calls (chld_notice 2) (active_calls waiting_calls) sample_env)"
    using chld_refines_call_states [of waiting_calls 2 0 0 sample_env] by (auto simp: in_int_def)
  show ?thesis
    using * by (intro exI [of _ s'] exI [of _ e'])
      (simp add: calls map_find_def lift_spec_def chld_spec_def new_call_def)
qed

text \<open>
  An argument of \<^verbatim>\<open>AT+CHLD=\<close> that is empty or does not start with a digit, such as the documented
  test command \<^verbatim>\<open>AT+CHLD=?\<close>, leaves the handler with the exception of \<^verbatim>\<open>std::stoi\<close>, which nothing
  catches.
\<close>

theorem chld_without_digit_throws:
  assumes "action = [] \<or> \<not> is_digit 10 (hd action)"
  shows "HandleHangup c (''AT+CHLD='' @ action) se = Err Invalid_Argument"
proof -
  have action: "SkipPrefix (''AT+CHLD='' @ action) = action"
    using SkipPrefix_append [of "''AT+CHLD''" action] by simp
  have "strtol_value 10 (take 1 action) = None"
    using assms
    by (cases action) (auto simp: strtol_value_def sign_split_def skip_0x_def isspace_def)
  then show ?thesis
    unfolding HandleHangup_def action by (simp add: substr_def stoi_def)
qed

theorem chld_without_digit_throws_witness:
  "HandleHangup 0 ''AT+CHLD=?'' (three_calls, sample_env) = Err Invalid_Argument"
  using chld_without_digit_throws [of "''?''" 0 "(three_calls, sample_env)"]
  by (simp add: is_digit_def digit_value_def)

subsection \<open>The invariant of the call table\<close>

text \<open>
  Only four states occur; the remote flag is set exactly for calls that have a remote client, and only
  those have a time-out.
\<close>

definition call_ok :: "CallStatus \<Rightarrow> bool" where
  "call_ok call \<longleftrightarrow>
     call_state call \<in> {CALL_STATE_ACTIVE, CALL_STATE_HELD, CALL_STATE_DIALING, CALL_STATE_INCOMING} \<and>
     (if remote_client call = None then is_remote_call call = None \<and> timeout_serial call = None
      else is_remote_call call = Some True)"

definition calls_ok :: "call_service \<Rightarrow> bool" where
  "calls_ok s \<longleftrightarrow> map_wf (active_calls s) \<and> (\<forall>(i, call)\<in>set (active_calls s). 1 \<le> i \<and> call_ok call)"

lemma call_ok_SetCallActive [simp]: "call_ok call \<Longrightarrow> call_ok (SetCallActive call)"
  by (auto simp: call_ok_def SetCallActive_def)

lemma call_ok_SetCallBackground [simp]: "call_ok call \<Longrightarrow> call_ok (SetCallBackground call)"
  by (auto simp: call_ok_def SetCallBackground_def)

lemma calls_ok_set [inv_intros]:
  "calls_ok s \<Longrightarrow> 1 \<le> i \<Longrightarrow> call_ok call \<Longrightarrow> calls_ok (s\<lparr>active_calls := map_set i call (active_calls s)\<rparr>)"
  using set_map_set [of i call "active_calls s"] by (auto simp: calls_ok_def intro: inv_intros)

lemma calls_ok_erase [inv_intros]:
  "calls_ok s \<Longrightarrow> calls_ok (s\<lparr>active_calls := map_erase i (active_calls s)\<rparr>)"
  by (auto simp: calls_ok_def map_erase_def intro: map_wf_filter)

lemma calls_ok_after [inv_intros]:
  "calls_ok s \<Longrightarrow> (\<And>call call'. call_ok call \<Longrightarrow> g call = Some call' \<Longrightarrow> call_ok call') \<Longrightarrow>
     calls_ok (s\<lparr>active_calls := calls_after g (active_calls s)\<rparr>)"
  by (fastforce simp: calls_ok_def set_calls_after intro: map_wf_calls_after)

lemma calls_ok_values [inv_intros]:
  "calls_ok s \<Longrightarrow> (\<And>call. call_ok call \<Longrightarrow> call_ok (f call)) \<Longrightarrow>
     calls_ok (s\<lparr>active_calls := map_values f (active_calls s)\<rparr>)"
  by (fastforce simp: calls_ok_def map_values_def map_wf_values [unfolded map_values_def])

lemma calls_ok_flags [simp]:
  "calls_ok (s\<lparr>mute_on := b\<rparr>) = calls_ok s" "calls_ok (s\<lparr>in_emergency_mode := b\<rparr>) = calls_ok s"
  by (simp_all add: calls_ok_def)

lemma call_ok_lift_spec:
  assumes "call_ok call" and "lift_spec sp call = Some call'"
    and "\<And>st st'. sp st = Some st' \<Longrightarrow> st' = st \<or> st' \<in> {CALL_STATE_ACTIVE, CALL_STATE_HELD}"
  shows "call_ok call'"
  using assms(1,2) assms(3) [of "call_state call"]
  by (auto simp: lift_spec_def call_ok_def)

lemma accept_spec_range: "accept_spec st = Some st' \<Longrightarrow> st' = st \<or> st' \<in> {CALL_STATE_ACTIVE, CALL_STATE_HELD}"
  by (cases st) auto

lemma reject_spec_range: "reject_spec st = Some st' \<Longrightarrow> st' = st \<or> st' \<in> {CALL_STATE_ACTIVE, CALL_STATE_HELD}"
  by (cases st) auto

lemma chld_spec_range: "chld_spec n st = Some st' \<Longrightarrow> st' = st \<or> st' \<in> {CALL_STATE_ACTIVE, CALL_STATE_HELD}"
  by (cases st) (auto simp: chld_spec_def split: if_splits)

lemma find_number_in: "find_number n m = Some (i, call) \<Longrightarrow> (i, call) \<in> set m \<and> number call = n"
  by (induction n m rule: find_number.induct) (auto split: if_splits)

subsection \<open>Dialling\<close>

definition dialling :: "CallStatus \<Rightarrow> bool" where
  "dialling call \<longleftrightarrow> call_state call = CALL_STATE_DIALING \<and> \<not> is_mobile_terminated call \<and> call_ok call"

definition dial_errors :: "string list" where
  "dial_errors = [kCmeErrorNoNetworkService, kCmeErrorInCorrectParameters,
     kCmeErrorNetworkNotAllowedEmergencyCallsOnly, kCmeErrorFixedDialNumberOnlyAllowed,
     kCmeErrorOperationNotAllowed]"

definition refused :: "nat \<Rightarrow> call_service \<Rightarrow> env \<Rightarrow> call_service \<times> env \<Rightarrow> bool" where
  "refused c s e se' \<longleftrightarrow>
     fst se' = s \<and> looper (snd se') = looper e \<and>
     (\<exists>err\<in>set dial_errors. wire (snd se') = wire e @ (if is_open c e then [(c, line_of err)] else []))"

definition added :: "call_service \<Rightarrow> call_service \<Rightarrow> bool" where
  "added s s' \<longleftrightarrow>
     (\<exists>call. dialling call \<and> active_calls s' = map_set (FindFreeCallIndex s) call (active_calls s))"

lemma refusedI: "err \<in> set dial_errors \<Longrightarrow> refused c s e (s, SendCommandResponse c err e)"
  unfolding refused_def by (auto simp: wire_SendCommandResponse dial_errors_def)

lemma added_set:
  "dialling call \<Longrightarrow> added s (s\<lparr>active_calls := map_set (FindFreeCallIndex s) call (active_calls s)\<rparr>)"
  by (auto simp: added_def)

lemma dial_local_added: "added s (fst (dial_local em n (s, e)))"
  unfolding added_def
  by (rule exI [of _ "(new_call n)\<lparr>is_mobile_terminated := False, call_state := CALL_STATE_DIALING\<rparr>"])
    (simp add: dial_local_def dialling_def call_ok_def new_call_def Let_def)

lemma dial_remote_outcome:
  "snd (dial_remote c port (s, e)) \<Longrightarrow> added s (fst (fst (dial_remote c port (s, e))))"
  "\<not> snd (dial_remote c port (s, e)) \<Longrightarrow> refused c s e (fst (dial_remote c port (s, e)))"
proof -
  assume "snd (dial_remote c port (s, e))"
  then show "added s (fst (fst (dial_remote c port (s, e))))"
    unfolding dial_remote_def Let_def split_beta
    by (auto simp: dialling_def call_ok_def new_call_def intro!: added_set split: if_splits)
next
  let ?e = "e\<lparr>next_id := next_id e + 1\<rparr>"
  assume "\<not> snd (dial_remote c port (s, e))"
  then have "\<exists>err\<in>set dial_errors. fst (dial_remote c port (s, e)) = (s, SendCommandResponse c err ?e)"
    by (auto simp: dial_remote_def Let_def split_beta dial_errors_def split: if_splits)
  then show "refused c s e (fst (dial_remote c port (s, e)))"
    by (auto simp: refused_def wire_SendCommandResponse dial_errors_def is_open_def)
qed

lemma place_call_outcome:
  "refused c s e (place_call c em n port (s, e)) \<or> added s (fst (place_call c em n port (s, e)))"
  using dial_remote_outcome [of c port s e] dial_local_added [of s em n e]
  by (cases "in_remote_range port"; cases "snd (dial_remote c port (s, e))")
    (simp_all add: place_call_def Let_def split_beta)

lemma HandleDial_outcome:
  assumes "HandleDial reg fdn fixed c command (s, e) = Ok se'"
  shows "refused c s e se' \<or> added s (fst se')"
proof (rule ccontr)
  assume no: "\<not> (refused c s e se' \<or> added s (fst se'))"
  then have ne: "se' \<noteq> (s, SendCommandResponse c err e)" if "err \<in> set dial_errors" for err
    using refusedI [OF that] by blast
  have errs: "kCmeErrorNoNetworkService \<in> set dial_errors" "kCmeErrorInCorrectParameters \<in> set dial_errors"
    "kCmeErrorNetworkNotAllowedEmergencyCallsOnly \<in> set dial_errors"
    "kCmeErrorFixedDialNumberOnlyAllowed \<in> set dial_errors"
    by (simp_all add: dial_errors_def)
  obtain em n port where "se' = place_call c em n port (s, e)"
    using assms errs [THEN ne]
    by (auto simp: HandleDial_def Let_def bind_result_Inr_iff split: if_splits)
  then show False using no place_call_outcome by blast
qed

text \<open>
  A dial command that the handler completes either is refused, with one of five error lines as the
  only effect, or adds exactly one dialling call under the smallest free index from 1 and leaves
  every other call as it was.
\<close>

theorem dial_adds_one_call_or_refuses:
  assumes "HandleDial reg fdn fixed c command (s, e) = Ok (s', e')" and "map_wf (active_calls s)"
  shows "refused c s e (s', e') \<or>
    (\<exists>i call. dialling call \<and> 1 \<le> i \<and> map_find (active_calls s) i = None \<and>
       (\<forall>k. 1 \<le> k \<and> k < i \<longrightarrow> map_find (active_calls s) k \<noteq> None) \<and>
       (\<forall>k. map_find (active_calls s') k = (if k = i then Some call else map_find (active_calls s) k)))"
proof -
  let ?i = "FindFreeCallIndex s"
  have least: "1 \<le> ?i" "map_find (active_calls s) ?i = None"
    "\<forall>k. 1 \<le> k \<and> k < ?i \<longrightarrow> map_find (active_calls s) k \<noteq> None"
    using free_index_from_spec [of 1 "active_calls s"] by (simp_all add: FindFreeCallIndex_def)
  consider "refused c s e (s', e')" | call where "dialling call" "active_calls s' = map_set ?i call (active_calls s)"
    using HandleDial_outcome [OF assms(1)] by (auto simp: added_def)
  then show ?thesis
  proof cases
    case (2 call)
    then have "\<forall>k. map_find (active_calls s') k = (if k = ?i then Some call else map_find (active_calls s) k)"
      by (simp add: cpp_map.find_put [OF assms(2)])
    then show ?thesis using least 2(1) by blast
  qed simp
qed

lemma sample_dial:
  "HandleDial 1 False (\<lambda>_. Ok False) 0 ''ATD1234567;'' (three_calls, sample_env) =
     Ok (let (s, e) = dial_local False ''1234567'' (three_calls, sample_env); e = SendCommandResponse 0 ''OK'' e
         in (s, e\<lparr>steady_now := steady_now e + 2000\<rparr>))"
  by (simp add: HandleDial_def place_call_def dialled_number_def SkipPrefixAT_def find_last_of_def dial_digits_def substr_def
      port_of_number_def in_remote_range_def kRemotePortRange_def Let_def split_beta)

theorem dial_adds_one_call_or_refuses_witness:
  "(\<exists>s' e' i call. HandleDial 1 False (\<lambda>_. Ok False) 0 ''ATD1234567;'' (three_calls, sample_env) = Ok (s', e') \<and>
     1 \<le> i \<and> dialling call \<and> map_find (active_calls s') i = Some call \<and>
     map_find (active_calls s') 1 = map_find (active_calls three_calls) 1)"
proof -
  obtain s' e' where r: "HandleDial 1 False (\<lambda>_. Ok False) 0 ''ATD1234567;'' (three_calls, sample_env) = Ok (s', e')"
      and s': "s' = fst (dial_local False ''1234567'' (three_calls, sample_env))"
    using sample_dial by (simp add: Let_def split_beta)
  have wf: "map_wf (active_calls three_calls)" by (simp add: three_calls_def)
  have "map_find (active_calls s') (FindFreeCallIndex three_calls) \<noteq> None"
    using s' dial_local_added [of three_calls False "''1234567''" sample_env]
    by (auto simp: added_def cpp_map.find_put [OF wf])
  then have "\<not> refused 0 three_calls sample_env (s', e')"
    unfolding refused_def by auto
  then obtain i call where "dialling call" "1 \<le> i" "map_find (active_calls three_calls) i = None"
      "\<And>k. map_find (active_calls s') k = (if k = i then Some call else map_find (active_calls three_calls) k)"
    using dial_adds_one_call_or_refuses [OF r wf] by blast
  moreover have "map_find (active_calls three_calls) 1 \<noteq> None"
    by (simp add: three_calls_def map_find_def)
  ultimately show ?thesis using r by metis
qed

subsection \<open>Every reachable call table\<close>

text \<open>The three timer callbacks of the call service.\<close>

fun run_call_callback :: "callback \<Rightarrow> call_service \<times> env \<Rightarrow> call_service \<times> env" where
  "run_call_callback SimulatePendingCallsAnswered_cb (s, e) = (SimulatePendingCallsAnswered s, e)"
| "run_call_callback (TimerWaitingRemoteCallResponse_cb i n) se = TimerWaitingRemoteCallResponse i n se"
| "run_call_callback CallStateUpdate_cb (s, e) = (s, CallStateUpdate e)"
| "run_call_callback _ se = se"

text \<open>
  The environment may change between two steps of the service in any way: other services, the
  channel monitor and the clock act on it.
\<close>

inductive call_reach :: "call_service \<Rightarrow> bool" where
  call_init: "call_reach (init_call_service e)"
| call_command: "call_reach s \<Longrightarrow> run_call_command ctx c cmd command (s, e) = Ok (s', e') \<Longrightarrow> call_reach s'"
| call_timer: "call_reach s \<Longrightarrow> run_call_callback cb (s, e) = (s', e') \<Longrightarrow> call_reach s'"

lemma calls_ok_added:
  assumes "calls_ok s" and "added s s'"
  shows "calls_ok s'"
proof -
  obtain call where "call_ok call" and s': "active_calls s' = map_set (FindFreeCallIndex s) call (active_calls s)"
    using assms(2) by (auto simp: added_def dialling_def)
  then have "calls_ok (s\<lparr>active_calls := active_calls s'\<rparr>)"
    using calls_ok_set [OF assms(1) FindFreeCallIndex_pos] by simp
  then show ?thesis by (simp add: calls_ok_def)
qed

lemma calls_ok_found:
  "calls_ok s \<Longrightarrow> find_number n (active_calls s) = Some (i, call) \<Longrightarrow> 1 \<le> i \<and> call_ok call"
  using find_number_in [of n "active_calls s" i call] by (auto simp: calls_ok_def)

lemma calls_ok_update_call:
  assumes "calls_ok s" and "found = find_number n (active_calls s)" and "\<And>call. call_ok call \<Longrightarrow> call_ok (f call)"
  shows "calls_ok (fst (update_call f found (s, e)))"
  using assms calls_ok_found [OF assms(1), of n]
  by (auto simp: update_call_def intro!: inv_intros split: option.split)

lemma calls_ok_remote_hangup:
  "calls_ok s \<Longrightarrow> calls_ok (fst (remote_hangup found (s, e)))"
  by (auto simp: remote_hangup_def intro!: inv_intros split: option.split)

lemma call_ok_incoming:
  "call_ok ((new_call n)\<lparr>is_remote_call := Some True, is_voice_mode := v, is_multi_party := m,
     is_mobile_terminated := True, is_international := i, remote_client := Some c, call_state := CALL_STATE_INCOMING\<rparr>)"
  by (simp add: new_call_def call_ok_def)

lemma calls_ok_HandleRemoteCall: "calls_ok s \<Longrightarrow> calls_ok (fst (HandleRemoteCall ro c command (s, e)))"
  by (simp add: HandleRemoteCall_def announce_def split_beta Let_def calls_ok_update_call
      calls_ok_remote_hangup calls_ok_set FindFreeCallIndex_pos call_ok_incoming)

lemma calls_ok_loop_spec:
  assumes "calls_ok s" and "\<And>st st'. sp st = Some st' \<Longrightarrow> st' = st \<or> st' \<in> {CALL_STATE_ACTIVE, CALL_STATE_HELD}"
  shows "calls_ok (s\<lparr>active_calls := calls_after (lift_spec sp) (active_calls s)\<rparr>)"
  using assms by (auto intro!: calls_ok_after intro: call_ok_lift_spec)

lemma calls_ok_HandleHangup:
  assumes "calls_ok s" and "HandleHangup c command (s, e) = Ok (s', e')"
  shows "calls_ok s'"
proof -
  have "calls_ok (fst (release_one i (s, e)))" for i
    using assms(1) by (auto simp: release_one_def intro!: inv_intros split: option.split)
  moreover have "calls_ok (fst (loop_calls (chld_body n) (s, e)))" for n
    unfolding chld_body_table by (rule calls_ok_loop_spec [OF assms(1) chld_spec_range])
  moreover have "s' \<in> {s} \<union> range (\<lambda>i. fst (release_one i (s, e))) \<union> range (\<lambda>n. fst (loop_calls (chld_body n) (s, e)))"
    using assms(2) by (auto simp: HandleHangup_def finish_def Let_def bind_result_Inr_iff split: if_splits)
  ultimately show ?thesis using assms(1) by auto
qed

lemma calls_ok_command:
  assumes "calls_ok s" and "run_call_command ctx c cmd command (s, e) = Ok (s', e')"
  shows "calls_ok s'"
proof (cases cmd)
  case Cmd_Dial
  then have "refused c s e (s', e') \<or> added s s'"
    using HandleDial_outcome assms(2) by fastforce
  then show ?thesis using assms(1) calls_ok_added by (auto simp: refused_def)
next
  case Cmd_Accept
  then show ?thesis
    using assms calls_ok_loop_spec [OF assms(1) accept_spec_range] HandleAcceptCall_table [of c s e] by simp
next
  case Cmd_Reject
  then show ?thesis
    using assms calls_ok_loop_spec [OF assms(1) reject_spec_range] HandleRejectCall_table [of c s e] by simp
next
  case Cmd_Hangup
  then show ?thesis using assms calls_ok_HandleHangup by simp
next
  case Cmd_RemoteCall
  then show ?thesis using assms(2) calls_ok_HandleRemoteCall [OF assms(1)] by (metis fst_conv run_call_command.simps(10) sum.inject(2))
qed (use assms in \<open>auto simp: HandleCurrentCalls_def HandleMute_def HandleSendDtmf_def HandleCancelUssd_def
      HandleEmergencyMode_def finish_def Let_def split_beta split: if_splits\<close>)

lemma calls_ok_callback:
  assumes "calls_ok s" and "run_call_callback cb (s, e) = (s', e')"
  shows "calls_ok s'"
proof -
  have "calls_ok (SimulatePendingCallsAnswered s)"
    unfolding SimulatePendingCallsAnswered_def using assms(1) by (rule calls_ok_values) simp
  moreover have "calls_ok (fst (TimerWaitingRemoteCallResponse i n (s, e)))" for i n
    using assms(1) by (auto simp: TimerWaitingRemoteCallResponse_def Let_def intro!: inv_intros split: option.split)
  ultimately show ?thesis using assms by (cases cb) (auto, metis fst_conv)
qed

text \<open>
  C31: Whatever commands, messages of other instances and timers the call service is given, the call
  table stays well formed: indices are positive and distinct, every call is active, held, dialling
  or incoming, and only calls with a remote client are marked remote or have a time-out; in
  particular the flag the constructor leaves uninitialised never decides anything.
\<close>

theorem call_table_invariant:
  assumes "call_reach s"
  shows "distinct (map fst (active_calls s)) \<and>
    (\<forall>(i, call)\<in>set (active_calls s). 1 \<le> i \<and>
       call_state call \<in> {CALL_STATE_ACTIVE, CALL_STATE_HELD, CALL_STATE_DIALING, CALL_STATE_INCOMING} \<and>
       (is_remote_call call = Some True \<longleftrightarrow> remote_client call \<noteq> None) \<and>
       (is_remote_call call = None \<longleftrightarrow> remote_client call = None) \<and>
       (timeout_serial call \<noteq> None \<longrightarrow> remote_client call \<noteq> None))"
proof -
  have "calls_ok s"
    using assms
  proof (induction rule: call_reach.induct)
    case (call_init e)
    then show ?case by (simp add: init_call_service_def calls_ok_def)
  qed (auto intro: calls_ok_command calls_ok_callback)
  then show ?thesis
    using map_wf_distinct by (auto simp: calls_ok_def call_ok_def split: if_splits)
qed

theorem call_table_invariant_witness:
  "\<exists>s'. call_reach s' \<and> distinct (map fst (active_calls s')) \<and>
     map_find (active_calls s') 1 = Some ((new_call ''100'')\<lparr>is_mobile_terminated := False, call_state := CALL_STATE_DIALING\<rparr>)"
proof -
  let ?ctx = "\<lparr>cc_registration = 1, cc_radio_off = False, cc_fdn_enabled = False, cc_fixed_dial = (\<lambda>_. Ok False)\<rparr>"
  let ?s = "init_call_service sample_env"
  obtain s' e' where r: "run_call_command ?ctx 0 Cmd_Dial ''ATD100;'' (?s, sample_env) = Ok (s', e')"
      and s': "s' = fst (dial_local False ''100'' (?s, sample_env))"
    by (simp add: HandleDial_def place_call_def dialled_number_def SkipPrefixAT_def find_last_of_def dial_digits_def substr_def
      port_of_number_def in_remote_range_def kRemotePortRange_def Let_def split_beta)
  have "call_reach s'" by (rule call_command [OF call_init r])
  then show ?thesis
    using call_table_invariant [of s'] s'
    by (auto simp: dial_local_def init_call_service_def FindFreeCallIndex_def free_index_from.simps map_find_def Let_def)
qed

subsection \<open>The messages between two instances\<close>

text \<open>Both messages have one form, and the receiver reads the fields that the sender wrote.\<close>

definition remote_message :: "int \<Rightarrow> int \<Rightarrow> int \<Rightarrow> string \<Rightarrow> int \<Rightarrow> string" where
  "remote_message st mode mpty host t =
     ''AT+REMOTECALL='' @ to_string st @ CHR '','' # to_string mode @ CHR '','' # to_string mpty @
     CHR '','' # CHR ''\"'' # host @ CHR ''\"'' # CHR '','' # to_string t"

lemma to_string_small:
  "to_string 0 = ''0''" "to_string 1 = ''1''" "to_string 4 = ''4''" "to_string 129 = ''129''"
  by (simp_all add: to_string_def digits_of.simps)

lemma bool_string_to_string: "bool_string b = to_string (of_bool b)"
  by (simp add: bool_string_def to_string_small)

lemma remote_dial_message_form: "remote_dial_message host = remote_message 4 0 0 host 129"
  by (simp add: remote_dial_message_def remote_message_def to_string_small)

lemma status_message_form:
  "status_message host call st = remote_message (call_state_int st) (of_bool (is_voice_mode call))
     (of_bool (is_multi_party call)) host (of_bool (is_international call))"
  by (simp add: status_message_def remote_message_def bool_string_to_string)

lemma in_int_of_bool [simp]: "in_int (of_bool b)"
  by (simp add: in_int_def)

lemma in_int_call_state [simp]: "in_int (call_state_int st)"
  by (cases st) (simp_all add: in_int_def)

lemma HandleRemoteCall_message:
  assumes "CHR ''\"'' \<notin> set host" and "in_int st" "in_int mode" "in_int mpty" "in_int t"
  shows "HandleRemoteCall radio_off c (remote_message st mode mpty host t) (s, e) =
    (let found = find_number host (active_calls s) in
     if st = 0 then announce (update_call SetCallActive found (s, e))
     else if st = 1 then announce (update_call SetCallBackground found (s, e))
     else if st = 6 then announce (remote_hangup found (s, e))
     else if st = 4 then
       (if radio_off then (s, CloseRemoteConnection c e)
        else announce (s\<lparr>active_calls := map_set (FindFreeCallIndex s)
          ((new_call host)\<lparr>is_remote_call := Some True, is_voice_mode := (mode \<noteq> 0),
             is_multi_party := (mpty \<noteq> 0), is_mobile_terminated := True, is_international := (t = 145),
             remote_client := Some c, call_state := CALL_STATE_INCOMING\<rparr>) (active_calls s)\<rparr>, e))
     else (s, e))"
proof -
  have "SkipPrefix (remote_message st mode mpty host t) =
      to_string st @ CHR '','' # to_string mode @ CHR '','' # to_string mpty @
      CHR '','' # CHR ''\"'' # host @ CHR ''\"'' # CHR '','' # to_string t"
    using SkipPrefix_append [of "''AT+REMOTECALL''"] by (simp add: remote_message_def)
  then show ?thesis using assms by (simp add: HandleRemoteCall_def Let_def)
qed

text \<open>A simulator's number is its host id, which the messages carry in quotes.\<close>

lemma dialled_port:
  assumes "in_remote_range b"
  shows "dialled_number (SkipPrefixAT (''ATD'' @ to_string b @ '';'')) = Ok (False, to_string b)"
    and "list_all (\<lambda>d. d \<in> set ''1234567890'') (to_string b)"
    and "port_of_number (to_string b) = Ok b"
proof -
  have b: "b = 6520 \<or> b = 6521 \<or> b = 6522 \<or> b = 6523 \<or> b = 6524 \<or> b = 6525 \<or> b = 6526 \<or> b = 6527"
    using assms by (auto simp: in_remote_range_def kRemotePortRange_def)
  have ports: "to_string b \<in> {''6520'', ''6521'', ''6522'', ''6523'', ''6524'', ''6525'', ''6526'', ''6527''}"
    using b by (elim disjE) (simp_all add: to_string_def digits_of.simps)
  then have len: "length (to_string b) = 4" by auto
  then show "port_of_number (to_string b) = Ok b"
    using b stoi_to_string [of b] by (auto simp: port_of_number_def in_int_def)
  show "list_all (\<lambda>d. d \<in> set ''1234567890'') (to_string b)"
    using ports by auto
  show "dialled_number (SkipPrefixAT (''ATD'' @ to_string b @ '';'')) = Ok (False, to_string b)"
    using ports unfolding insert_iff empty_iff
    by (elim disjE FalseE) (simp_all add: dialled_number_def SkipPrefixAT_def find_last_of_def dial_digits_def
      substr_def)
qed

lemma HandleDial_port:
  assumes "in_remote_range b"
  shows "HandleDial 1 False fixed c (''ATD'' @ to_string b @ '';'') (s, e) =
    Ok (place_call c False (to_string b) b (s, e))"
  using dialled_port [OF assms] by (simp add: HandleDial_def Let_def)

text \<open>What dialling another instance does, in full.\<close>

definition dialled_call :: "int \<Rightarrow> nat \<Rightarrow> int \<Rightarrow> CallStatus" where
  "dialled_call b k serial = (new_call (to_string b))\<lparr>is_remote_call := Some True, is_mobile_terminated := False,
     call_state := CALL_STATE_DIALING, remote_client := Some k, timeout_serial := Some serial\<rparr>"

lemma wire_SendRemoteCommand:
  "wire (SendRemoteCommand k r e) =
     wire e @ (if k \<in> set (remote_clients e) \<and> is_open k e then written k [r] else [])"
  by (simp add: SendRemoteCommand_def wire_SendCommandResponse)

lemma place_call_remote:
  fixes s :: call_service
  assumes "in_remote_range b" and "accepts_connection e (to_string b)" and "GetHostId e \<noteq> to_string b"
    and "is_open c e" and "c \<noteq> Suc (next_id e)"
  defines "k \<equiv> Suc (next_id e)" and "i \<equiv> FindFreeCallIndex s" and "serial \<equiv> next_serial (looper e)"
  shows "fst (place_call c False n b (s, e)) =
      s\<lparr>active_calls := map_set i (dialled_call b k serial) (active_calls s)\<rparr>"
    and "wire (snd (place_call c False n b (s, e))) =
      wire e @ [(k, line_of ''REM0''), (k, line_of (remote_dial_message (GetHostId e))), (c, line_of ''OK'')]"
    and "looper (snd (place_call c False n b (s, e))) =
      snd (Post (steady_now e) (TimerWaitingRemoteCallResponse_cb i (to_string b)) 60000 (looper e))"
proof -
  have ne: "remote_dial_message h \<noteq> []" for h by (simp add: remote_dial_message_def)
  have host: "GetHostId (e\<lparr>next_id := Suc (next_id e)\<rparr>) = GetHostId e" by (simp add: GetHostId_def)
  have op: "is_open c (snd (SetRemoteClient_dialed (e\<lparr>next_id := Suc (next_id e)\<rparr>)))"
    "is_open k (snd (SetRemoteClient_dialed (e\<lparr>next_id := Suc (next_id e)\<rparr>)))"
    using assms(4,5)
    by (simp_all add: SetRemoteClient_dialed_def trigger_def is_open_def new_client_def k_def Let_def)
  have post: "post cb d x = (fst (Post (steady_now x) cb d (looper x)), x\<lparr>looper := snd (Post (steady_now x) cb d (looper x))\<rparr>)"
    for cb d x by (simp add: post_def Let_def split_beta)
  have serial: "fst (Post t cb d l) = next_serial l" for t cb d and l :: "callback looper"
    by (simp add: Post_def Let_def)
  have set_frame:
    "fst (SetRemoteClient_dialed (e\<lparr>next_id := Suc (next_id e)\<rparr>)) = k"
    "looper (snd (SetRemoteClient_dialed (e\<lparr>next_id := Suc (next_id e)\<rparr>))) = looper e"
    "steady_now (snd (SetRemoteClient_dialed (e\<lparr>next_id := Suc (next_id e)\<rparr>))) = steady_now e"
    "wire (snd (SetRemoteClient_dialed (e\<lparr>next_id := Suc (next_id e)\<rparr>))) = wire e"
    "k \<in> set (remote_clients (snd (SetRemoteClient_dialed (e\<lparr>next_id := Suc (next_id e)\<rparr>))))"
    by (simp_all add: SetRemoteClient_dialed_def trigger_def k_def Let_def)
  have is_open_looper: "is_open d (x\<lparr>looper := l\<rparr>) = is_open d x" for d x l by (simp add: is_open_def)
  note calc = place_call_def dial_remote_def assms(1-3) host post serial set_frame is_open_looper op
    wire_SendRemoteCommand wire_SendCommandResponse Let_def split_beta i_def serial_def ne
  show "fst (place_call c False n b (s, e)) =
      s\<lparr>active_calls := map_set i (dialled_call b k serial) (active_calls s)\<rparr>"
    by (simp add: calc dialled_call_def new_call_def)
  show "wire (snd (place_call c False n b (s, e))) =
      wire e @ [(k, line_of ''REM0''), (k, line_of (remote_dial_message (GetHostId e))), (c, line_of ''OK'')]"
    by (simp add: calc)
  show "looper (snd (place_call c False n b (s, e))) =
      snd (Post (steady_now e) (TimerWaitingRemoteCallResponse_cb i (to_string b)) 60000 (looper e))"
    by (simp add: calc new_call_def)
qed

text \<open>The instance that is called: it rings, and when the call is accepted it tells the caller.\<close>

definition incoming_call :: "string \<Rightarrow> nat \<Rightarrow> CallStatus" where
  "incoming_call host r = (new_call host)\<lparr>is_remote_call := Some True, is_voice_mode := False,
     is_multi_party := False, is_mobile_terminated := True, is_international := False, remote_client := Some r,
     call_state := CALL_STATE_INCOMING\<rparr>"

lemma called_rings:
  assumes "CHR ''\"'' \<notin> set host"
  shows "HandleRemoteCall False r (remote_dial_message host) (s, e) =
    announce (s\<lparr>active_calls := map_set (FindFreeCallIndex s) (incoming_call host r) (active_calls s)\<rparr>, e)"
  using assms by (simp add: remote_dial_message_form HandleRemoteCall_message in_int_def incoming_call_def Let_def)

lemma called_answers:
  assumes "active_calls s = [(1, incoming_call host r)]" and "r \<in> set (remote_clients e)" and "is_open r e"
  shows "active_calls (fst (HandleAcceptCall d (s, e))) = [(1, (incoming_call host r)\<lparr>call_state := CALL_STATE_ACTIVE\<rparr>)]"
    and "\<exists>w. wire (snd (HandleAcceptCall d (s, e))) =
      wire e @ (r, line_of (status_message (GetHostId e)
        ((incoming_call host r)\<lparr>call_state := CALL_STATE_ACTIVE\<rparr>) CALL_STATE_ACTIVE)) # w"
  using assms
  by (simp_all add: HandleAcceptCall_def finish_def loop_calls_def loop_bodies isCallIncoming_def incoming_call_def
      new_call_def SetCallActive_def SendCallStatusToRemote_def wire_SendRemoteCommand wire_SendCommandResponses
      wire_SendCommandResponse status_message_def Let_def)

lemma find_number_set:
  "find_number n m = None \<Longrightarrow> number call = n \<Longrightarrow> map_find m i = None \<Longrightarrow> find_number n (map_set i call m) = Some (i, call)"
  by (induction i call m rule: map_set.induct) (auto simp: map_find_def split: if_splits)

lemma erase_serial_insert:
  "event_serial ev \<notin> event_serial ` set q \<Longrightarrow> erase_serial (event_serial ev) (insert_event ev q) = (True, q)"
  by (induction q) auto

lemma cancel_after_post:
  assumes "next_serial l \<notin> event_serial ` set (queue l)"
  shows "CancelSerial (next_serial l) (snd (Post t cb d l)) =
    (True, l\<lparr>next_serial := to_int32 (next_serial l + 1)\<rparr>)"
  using erase_serial_insert [of "\<lparr>event_when = t + d, event_cb = cb, event_serial = next_serial l\<rparr>" "queue l"] assms
  by (simp add: CancelSerial_def Post_def Insert_def Let_def)

text \<open>The caller when the answer arrives: the call is active and its time-out is gone.\<close>

lemma caller_connected:
  assumes "map_wf (active_calls s)" and "find_number (to_string b) (active_calls s) = Some (i, dialled_call b k serial)"
  shows "map_find (active_calls (fst (HandleRemoteCall ro k (status_message (to_string b) call CALL_STATE_ACTIVE) (s, e)))) i =
      Some ((dialled_call b k serial)\<lparr>call_state := CALL_STATE_ACTIVE\<rparr>)"
    and "looper (snd (HandleRemoteCall ro k (status_message (to_string b) call CALL_STATE_ACTIVE) (s, e))) =
      snd (Post (steady_now e) CallStateUpdate_cb 0 (snd (CancelSerial serial (looper e))))"
proof -
  have "HandleRemoteCall ro k (status_message (to_string b) call CALL_STATE_ACTIVE) (s, e) =
      announce (update_call SetCallActive (Some (i, dialled_call b k serial)) (s, e))"
    unfolding status_message_form by (subst HandleRemoteCall_message) (simp_all add: assms(2) in_int_def Let_def)
  then show "map_find (active_calls (fst (HandleRemoteCall ro k (status_message (to_string b) call CALL_STATE_ACTIVE) (s, e)))) i =
      Some ((dialled_call b k serial)\<lparr>call_state := CALL_STATE_ACTIVE\<rparr>)"
    and "looper (snd (HandleRemoteCall ro k (status_message (to_string b) call CALL_STATE_ACTIVE) (s, e))) =
      snd (Post (steady_now e) CallStateUpdate_cb 0 (snd (CancelSerial serial (looper e))))"
    using assms(1)
    by (simp_all add: announce_def update_call_def cpp_map.find_put looper_post_cb cancel_serial_def
        dialled_call_def SetCallActive_def)
qed

text \<open>
  C6: A call between two instances, from the dial command to the conversation. Instance \<open>a\<close> dials the
  number of instance \<open>b\<close>: it opens a connection and writes the handshake and one message to it. When
  the idle instance \<open>b\<close> receives that message its call table has one incoming call from \<open>a\<close>; when
  its user accepts, it writes a message for \<open>a\<close>, and when \<open>a\<close> receives that message its own call is
  active and the one-minute time-out posted by the dial command is no longer pending.
\<close>

theorem remote_call_handshake:
  assumes "in_remote_range b" and "host_id eA = a" and "host_id eB = b" and "to_string a \<noteq> to_string b"
    and "accepts_connection eA (to_string b)" and "is_open c eA" and "c \<noteq> Suc (next_id eA)"
    and "map_wf (active_calls sA)" and "find_number (to_string b) (active_calls sA) = None"
    and "next_serial (looper eA) \<notin> event_serial ` set (queue (looper eA))"
    and "in_int (next_serial (looper eA))"
    and "active_calls sB = []" and "r \<in> set (remote_clients eB)" and "is_open r eB"
  shows "\<exists>sA1 eA1 sB1 eB1 sB2 eB2 sA2 eA2 message answer.
    HandleDial 1 False fixed c (''ATD'' @ to_string b @ '';'') (sA, eA) = Ok (sA1, eA1) \<and>
    (Suc (next_id eA), line_of message) \<in> set (drop (length (wire eA)) (wire eA1)) \<and>
    HandleRemoteCall False r message (sB, eB) = (sB1, eB1) \<and>
    map_option call_state (map_find (active_calls sB1) 1) = Some CALL_STATE_INCOMING \<and>
    HandleAcceptCall d (sB1, eB1) = (sB2, eB2) \<and>
    map_option call_state (map_find (active_calls sB2) 1) = Some CALL_STATE_ACTIVE \<and>
    (r, line_of answer) \<in> set (drop (length (wire eB)) (wire eB2)) \<and>
    HandleRemoteCall False (Suc (next_id eA)) answer (sA1, eA1) = (sA2, eA2) \<and>
    map_option call_state (map_find (active_calls sA2) (FindFreeCallIndex sA)) = Some CALL_STATE_ACTIVE \<and>
    next_serial (looper eA) \<notin> event_serial ` set (queue (looper eA2))"
proof -
  let ?k = "Suc (next_id eA)" and ?i = "FindFreeCallIndex sA" and ?t = "next_serial (looper eA)"
  let ?call = "dialled_call b ?k ?t"
  have hostA: "GetHostId eA = to_string a" and hostB: "GetHostId eB = to_string b"
    using assms(2,3) by (simp_all add: GetHostId_def)
  let ?m = "remote_dial_message (to_string a)"
  obtain sA1 eA1 where A1: "place_call c False (to_string b) b (sA, eA) = (sA1, eA1)" by fastforce
  note placed = place_call_remote [OF assms(1,5) _ assms(6,7), of "to_string b" sA, unfolded hostA A1 fst_conv snd_conv,
      OF assms(4)]
  let ?sB1 = "sB\<lparr>active_calls := [(1, incoming_call (to_string a) r)]\<rparr>"
  have B1: "HandleRemoteCall False r ?m (sB, eB) = announce (?sB1, eB)"
    using assms(12) by (simp add: called_rings FindFreeCallIndex_def free_index_from.simps map_find_def)
  obtain sB2 eB2 where B2: "HandleAcceptCall d (announce (?sB1, eB)) = (sB2, eB2)" by fastforce
  let ?bcall = "(incoming_call (to_string a) r)\<lparr>call_state := CALL_STATE_ACTIVE\<rparr>"
  let ?answer = "status_message (to_string b) ?bcall CALL_STATE_ACTIVE"
  have B2t: "active_calls sB2 = [(1, ?bcall)]" and B2w: "\<exists>w. wire eB2 = wire eB @ (r, line_of ?answer) # w"
    using called_answers [of ?sB1 "to_string a" r "post_cb CallStateUpdate_cb 0 eB" d] B2 assms(13,14) hostB
    by (auto simp: announce_def GetHostId_def)
  have found: "find_number (to_string b) (active_calls sA1) = Some (?i, ?call)" and wf: "map_wf (active_calls sA1)"
    using placed(1) find_number_set [OF assms(9), of ?call ?i] assms(8)
    by (auto simp: dialled_call_def new_call_def intro: inv_intros)
  obtain sA2 eA2 where A2: "HandleRemoteCall False ?k ?answer (sA1, eA1) = (sA2, eA2)" by fastforce
  have "looper eA2 = snd (Post (steady_now eA1) CallStateUpdate_cb 0 ((looper eA)\<lparr>next_serial := to_int32 (?t + 1)\<rparr>))"
    using caller_connected(2) [OF wf found, of False ?bcall eA1] A2 placed(3) cancel_after_post [OF assms(10)] by simp
  then have "event_serial ` set (queue (looper eA2)) = insert (to_int32 (?t + 1)) (event_serial ` set (queue (looper eA)))"
    by (simp add: Post_def Insert_def set_insert_event Let_def)
  moreover have "to_int32 (?t + 1) \<noteq> ?t"
    using assms(11) by (rule to_int32_succ_neq)
  ultimately have timer: "?t \<notin> event_serial ` set (queue (looper eA2))" using assms(10) by auto
  have 1: "HandleDial 1 False fixed c (''ATD'' @ to_string b @ '';'') (sA, eA) = Ok (sA1, eA1)"
    using HandleDial_port [OF assms(1)] A1 by simp
  have 2: "(?k, line_of ?m) \<in> set (drop (length (wire eA)) (wire eA1))" unfolding placed(2) by simp
  have 3: "HandleRemoteCall False r ?m (sB, eB) = (?sB1, snd (announce (?sB1, eB)))"
    unfolding B1 by (simp add: announce_def)
  have 4: "map_option call_state (map_find (active_calls ?sB1) 1) = Some CALL_STATE_INCOMING"
    by (simp add: map_find_def incoming_call_def)
  have 5: "HandleAcceptCall d (?sB1, snd (announce (?sB1, eB))) = (sB2, eB2)"
    using B2 by (simp add: announce_def)
  have 6: "map_option call_state (map_find (active_calls sB2) 1) = Some CALL_STATE_ACTIVE"
    unfolding B2t by (simp add: map_find_def)
  have 7: "(r, line_of ?answer) \<in> set (drop (length (wire eB)) (wire eB2))" using B2w by auto
  have 8: "map_option call_state (map_find (active_calls sA2) ?i) = Some CALL_STATE_ACTIVE"
    using caller_connected(1) [OF wf found, of False ?bcall eA1] unfolding A2 by simp
  show ?thesis
    by (intro exI conjI) (rule 1 2 3 4 5 6 7 A2 8 timer)+
qed

theorem remote_call_handshake_witness:
  "\<exists>sA1 eA1 sA2 eA2 answer.
    HandleDial 1 False (\<lambda>_. Ok False) 0 (''ATD'' @ to_string 6521 @ '';'') (three_calls, sample_env) = Ok (sA1, eA1) \<and>
    HandleRemoteCall False 3 answer (sA1, eA1) = (sA2, eA2) \<and>
    map_option call_state (map_find (active_calls sA2) 4) = Some CALL_STATE_ACTIVE"
proof -
  have i: "FindFreeCallIndex three_calls = 4"
    by (simp add: FindFreeCallIndex_def free_index_from.simps three_calls_def map_find_def)
  have "find_number (to_string 6521) (active_calls three_calls) = None"
    by (simp add: three_calls_def new_call_def to_string_def digits_of.simps)
  moreover have "to_string 6520 \<noteq> to_string 6521" by (simp add: to_string_def digits_of.simps)
  moreover have "map_wf (active_calls three_calls)" by (simp add: three_calls_def)
  moreover have "in_remote_range 6521" by (simp add: in_remote_range_def kRemotePortRange_def)
  ultimately show ?thesis
    using remote_call_handshake [of 6521 sample_env 6520 "sample_env\<lparr>host_id := 6521\<rparr>" 0 three_calls
        "init_call_service sample_env" 1 "\<lambda>_. Ok False" 0] i
    by (fastforce simp: sample_env_def is_open_def new_client_def new_looper_def in_int_def init_call_service_def)
qed

subsection \<open>A time-out that outlives its call\<close>

lemma SendCallStatusToRemote_frame [simp]:
  "looper (SendCallStatusToRemote call st e) = looper e" "clients (SendCallStatusToRemote call st e) = clients e"
  "next_id (SendCallStatusToRemote call st e) = next_id e" "host_id (SendCallStatusToRemote call st e) = host_id e"
  "accepts_connection (SendCallStatusToRemote call st e) = accepts_connection e"
  by (simp_all add: SendCallStatusToRemote_def CloseRemoteConnection_def trigger_def Let_def split: option.split)

lemma SendCallStatusToRemote_open:
  "remote_client call \<noteq> Some c \<Longrightarrow> is_open c (SendCallStatusToRemote call st e) = is_open c e"
  by (simp add: SendCallStatusToRemote_def CloseRemoteConnection_def trigger_def is_open_def Let_def split: option.split)

lemma map_erase_set: "map_find m i = None \<Longrightarrow> map_erase i (map_set i v m) = m"
  by (induction i v m rule: map_set.induct) (auto simp: map_find_def map_erase_def map_of_eq_None_iff image_iff filter_id_conv split: if_splits)

lemma place_call_remote_env:
  assumes "in_remote_range b" and "accepts_connection e (to_string b)" and "GetHostId e \<noteq> to_string b"
    and "is_open c e" and "c \<le> next_id e"
  shows "next_id (snd (place_call c False n b (s, e))) = next_id e + 2"
    and "host_id (snd (place_call c False n b (s, e))) = host_id e"
    and "accepts_connection (snd (place_call c False n b (s, e))) = accepts_connection e"
    and "is_open c (snd (place_call c False n b (s, e)))"
proof -
  have host: "GetHostId (e\<lparr>next_id := Suc (next_id e)\<rparr>) = GetHostId e" by (simp add: GetHostId_def)
  note calc = place_call_def dial_remote_def assms(1-3) host post_def SetRemoteClient_dialed_def trigger_def Let_def split_beta
  show "next_id (snd (place_call c False n b (s, e))) = next_id e + 2"
    and "host_id (snd (place_call c False n b (s, e))) = host_id e"
    and "accepts_connection (snd (place_call c False n b (s, e))) = accepts_connection e"
    by (simp_all add: calc)
  show "is_open c (snd (place_call c False n b (s, e)))"
    using assms(4,5) by (simp add: calc is_open_def)
qed

text \<open>Releasing the call that was just dialled gives back the table, but not the looper, from before.\<close>

lemma dial_and_release:
  assumes "in_remote_range b" and "accepts_connection e (to_string b)" and "GetHostId e \<noteq> to_string b"
    and "is_open c e" and "c \<le> next_id e" and "in_int (FindFreeCallIndex s)" and "map_wf (active_calls s)"
  defines "i \<equiv> FindFreeCallIndex s"
  shows "\<exists>s1 e1 e2. HandleDial 1 False fixed c (''ATD'' @ to_string b @ '';'') (s, e) = Ok (s1, e1) \<and>
    HandleHangup c (''AT+CHLD='' @ to_string 1 @ to_string i) (s1, e1) = Ok (s, e2) \<and>
    looper e2 = snd (Post (steady_now e) (TimerWaitingRemoteCallResponse_cb i (to_string b)) 60000 (looper e)) \<and>
    next_id e2 = next_id e + 2 \<and> GetHostId e2 = GetHostId e \<and> accepts_connection e2 = accepts_connection e \<and> is_open c e2"
proof -
  obtain s1 e1 where d: "place_call c False (to_string b) b (s, e) = (s1, e1)" by fastforce
  let ?call = "dialled_call b (Suc (next_id e)) (next_serial (looper e))"
  have "c \<noteq> Suc (next_id e)" using assms(5) by simp
  note placed = place_call_remote [OF assms(1-4) this, of "to_string b" s, unfolded d fst_conv snd_conv]
    and env1 = place_call_remote_env [OF assms(1-5), of "to_string b" s, unfolded d fst_conv snd_conv]
  have "i \<noteq> - 1" using FindFreeCallIndex_pos [of s] by (simp add: i_def)
  then have hang: "HandleHangup c (''AT+CHLD='' @ to_string 1 @ to_string i) (s1, e1) = Ok (finish c [''OK''] (release_one i (s1, e1)))"
    using chld_argument [of 1 "to_string i"] stoi_to_string [OF assms(6)] by (simp add: HandleHangup_def Let_def i_def)
  have found: "map_find (active_calls s1) i = Some ?call" using placed(1) assms(7) by (simp add: i_def cpp_map.find_put)
  have same: "s1\<lparr>active_calls := map_erase i (active_calls s1)\<rparr> = s"
    using placed(1) by (simp add: i_def map_erase_set)
  let ?e = "SendCommandResponse c ''OK'' (SendCallStatusToRemote ?call CALL_STATE_HANGUP e1)"
  have rel: "finish c [''OK''] (release_one i (s1, e1)) = (s, ?e)"
    using found same by (simp add: release_one_def finish_def)
  have "remote_client ?call \<noteq> Some c" using \<open>c \<noteq> Suc (next_id e)\<close> by (simp add: dialled_call_def)
  then have "is_open c ?e" using env1(4) SendCallStatusToRemote_open by simp
  then show ?thesis
    using hang HandleDial_port [OF assms(1)] d rel placed(3) env1
    by (intro exI [of _ s1] exI [of _ e1] exI [of _ ?e]) (simp add: GetHostId_def i_def)
qed

text \<open>
  C32: The time-out of a dialled call outlives the call. Whenever a call to another instance is dialled and released
  with \<^verbatim>\<open>AT+CHLD=1i\<close>, and the same number is dialled again and answered, the second call has the same index \<open>i\<close>, is
  active, and its own time-out is cancelled; but the time-out of the first call is still in the queue of
  the looper, one minute after the first dial command. When it is due the looper runs it, and it ends the
  second call in mid-conversation.
\<close>

theorem stale_timeout_ends_a_later_call:
  fixes s :: call_service and e :: env
  assumes "in_remote_range b" and "accepts_connection e (to_string b)" and "GetHostId e \<noteq> to_string b"
    and "is_open c e" and "c \<le> next_id e" and "map_wf (active_calls s)" and "find_number (to_string b) (active_calls s) = None"
    and "in_int (FindFreeCallIndex s)" and "in_int (next_serial (looper e))" and "\<not> stopped (looper e)"
    and "next_serial (looper e) \<notin> event_serial ` set (queue (looper e))"
    and "to_int32 (next_serial (looper e) + 1) \<notin> event_serial ` set (queue (looper e))"
  shows "\<exists>s1 e1 s2 e2 s3 e3 s4 e4.
    HandleDial 1 False fixed c (''ATD'' @ to_string b @ '';'') (s, e) = Ok (s1, e1) \<and>
    HandleHangup c (''AT+CHLD='' @ to_string 1 @ to_string (FindFreeCallIndex s)) (s1, e1) = Ok (s2, e2) \<and>
    map_find (active_calls s2) (FindFreeCallIndex s) = None \<and>
    HandleDial 1 False fixed c (''ATD'' @ to_string b @ '';'') (s2, e2) = Ok (s3, e3) \<and>
    HandleRemoteCall False (Suc (next_id e2)) (status_message (to_string b) answer CALL_STATE_ACTIVE) (s3, e3) = (s4, e4) \<and>
    map_option call_state (map_find (active_calls s4) (FindFreeCallIndex s)) = Some CALL_STATE_ACTIVE \<and>
    next_serial (looper e2) \<notin> event_serial ` set (queue (looper e4)) \<and>
    \<lparr>event_when = steady_now e + 60000, event_cb = TimerWaitingRemoteCallResponse_cb (FindFreeCallIndex s) (to_string b),
     event_serial = next_serial (looper e)\<rparr> \<in> set (queue (looper e4)) \<and>
    (\<forall>now. (\<forall>ev\<in>set (queue (looper e4)). event_when ev \<le> now) \<longrightarrow>
      TimerWaitingRemoteCallResponse_cb (FindFreeCallIndex s) (to_string b) \<in> set (fst (turns (length (queue (looper e4))) now (looper e4)))) \<and>
    map_find (active_calls (fst (run_call_callback (TimerWaitingRemoteCallResponse_cb (FindFreeCallIndex s) (to_string b)) (s4, e4))))
      (FindFreeCallIndex s) = None"
proof -
  let ?i = "FindFreeCallIndex s" and ?t = "next_serial (looper e)"
  let ?cb = "TimerWaitingRemoteCallResponse_cb ?i (to_string b)"
  let ?ev = "\<lparr>event_when = steady_now e + 60000, event_cb = ?cb, event_serial = ?t\<rparr>"
  obtain s1 e1 e2 where one: "HandleDial 1 False fixed c (''ATD'' @ to_string b @ '';'') (s, e) = Ok (s1, e1)"
      "HandleHangup c (''AT+CHLD='' @ to_string 1 @ to_string ?i) (s1, e1) = Ok (s, e2)"
      and loop2: "looper e2 = snd (Post (steady_now e) ?cb 60000 (looper e))"
      and env2: "next_id e2 = next_id e + 2" "GetHostId e2 = GetHostId e" "accepts_connection e2 = accepts_connection e" "is_open c e2"
    using dial_and_release [OF assms(1-5,8,6)] by blast
  have queue2: "queue (looper e2) = insert_event ?ev (queue (looper e))" and next2: "next_serial (looper e2) = to_int32 (?t + 1)"
      and run2: "\<not> stopped (looper e2)"
    using loop2 assms(10) by (simp_all add: Post_def Insert_def Let_def)
  obtain s3 e3 where d: "place_call c False (to_string b) b (s, e2) = (s3, e3)" by fastforce
  have "c \<noteq> Suc (next_id e2)" using assms(5) env2(1) by simp
  note placed = place_call_remote [OF assms(1) _ _ env2(4) this, of "to_string b" s, unfolded d fst_conv snd_conv env2(2,3),
      OF assms(2,3)]
  let ?call = "dialled_call b (Suc (next_id e2)) (next_serial (looper e2))"
  have found: "find_number (to_string b) (active_calls s3) = Some (?i, ?call)" and wf: "map_wf (active_calls s3)"
    using placed(1) find_number_set [OF assms(7), of ?call ?i] assms(6) by (auto simp: dialled_call_def new_call_def intro: inv_intros)
  obtain s4 e4 where a: "HandleRemoteCall False (Suc (next_id e2)) (status_message (to_string b) answer CALL_STATE_ACTIVE) (s3, e3) = (s4, e4)" by fastforce
  note joined = caller_connected [OF wf found, of False answer e3, unfolded a fst_conv snd_conv]
  have "event_serial ` set (queue (looper e2)) = insert ?t (event_serial ` set (queue (looper e)))"
    by (simp add: queue2 set_insert_event)
  then have fresh: "next_serial (looper e2) \<notin> event_serial ` set (queue (looper e2))"
    using assms(9,12) to_int32_succ_neq by (auto simp: next2)
  let ?new = "\<lparr>event_when = steady_now e3 + 0, event_cb = CallStateUpdate_cb, event_serial = to_int32 (next_serial (looper e2) + 1)\<rparr>"
  have loop4: "queue (looper e4) = insert_event ?new (queue (looper e2))" "\<not> stopped (looper e4)"
    using joined(2) placed(3) cancel_after_post [OF fresh] run2 by (simp_all add: Post_def Insert_def Let_def)
  have "to_int32 (next_serial (looper e2) + 1) \<noteq> next_serial (looper e2)"
    unfolding next2 by (rule to_int32_succ_neq [OF in_int_to_int32])
  then have own: "next_serial (looper e2) \<notin> event_serial ` set (queue (looper e4))"
    using fresh by (auto simp: loop4 set_insert_event)
  have pending: "?ev \<in> set (queue (looper e4))" by (simp add: loop4 queue2 set_insert_event)
  have due: "?cb \<in> set (fst (turns (length (queue (looper e4))) now (looper e4)))"
    if "\<forall>ev\<in>set (queue (looper e4)). event_when ev \<le> now" for now
    using turns_drain [OF loop4(2) that, of 0] pending by (simp add: image_iff) (metis event.select_convs(2))
  have ends: "map_find (active_calls (fst (run_call_callback ?cb (s4, e4)))) ?i = None"
    using joined(1) by (simp add: TimerWaitingRemoteCallResponse_def map_find_erase dialled_call_def new_call_def)
  have two: "HandleDial 1 False fixed c (''ATD'' @ to_string b @ '';'') (s, e2) = Ok (s3, e3)"
    using HandleDial_port [OF assms(1)] d by simp
  show ?thesis
    by (intro exI conjI) (rule one two a own pending ends FindFreeCallIndex_free allI impI due | assumption | simp add: joined(1))+
qed

theorem stale_timeout_ends_a_later_call_witness:
  "\<exists>s1 e1 s2 e2 s3 e3 s4 e4.
    HandleDial 1 False (\<lambda>_. Ok False) 0 (''ATD'' @ to_string 6521 @ '';'') (three_calls, sample_env) = Ok (s1, e1) \<and>
    HandleHangup 0 (''AT+CHLD='' @ to_string 1 @ to_string 4) (s1, e1) = Ok (s2, e2) \<and>
    HandleDial 1 False (\<lambda>_. Ok False) 0 (''ATD'' @ to_string 6521 @ '';'') (s2, e2) = Ok (s3, e3) \<and>
    HandleRemoteCall False (Suc (next_id e2)) (status_message (to_string 6521) (new_call []) CALL_STATE_ACTIVE) (s3, e3) = (s4, e4) \<and>
    map_option call_state (map_find (active_calls s4) 4) = Some CALL_STATE_ACTIVE \<and>
    TimerWaitingRemoteCallResponse_cb 4 (to_string 6521) \<in> event_cb ` set (queue (looper e4)) \<and>
    map_find (active_calls (fst (run_call_callback (TimerWaitingRemoteCallResponse_cb 4 (to_string 6521)) (s4, e4)))) 4 = None"
proof -
  have i: "FindFreeCallIndex three_calls = 4"
    by (simp add: FindFreeCallIndex_def free_index_from.simps three_calls_def map_find_def)
  have "find_number (to_string 6521) (active_calls three_calls) = None"
    by (simp add: three_calls_def new_call_def to_string_def digits_of.simps)
  moreover have "to_string 6520 \<noteq> to_string 6521" by (simp add: to_string_def digits_of.simps)
  moreover have "map_wf (active_calls three_calls)" by (simp add: three_calls_def)
  moreover have "in_remote_range 6521" by (simp add: in_remote_range_def kRemotePortRange_def)
  moreover have "is_open 0 sample_env" "accepts_connection sample_env (to_string 6521)" "GetHostId sample_env = to_string 6520"
      "looper sample_env = new_looper"
    by (simp_all add: sample_env_def is_open_def new_client_def GetHostId_def)
  ultimately show ?thesis
    using stale_timeout_ends_a_later_call [of 6521 sample_env 0 three_calls "\<lambda>_. Ok False" "new_call []", unfolded i]
    by (simp add: new_looper_def in_int_def) (blast intro: image_eqI [of _ event_cb, OF event.select_convs(2) [symmetric]])
qed

end
