(* ===== verification/Network_Properties.thy ===== *)
theory Network_Properties
  imports Network_Service
begin

unbundle bit_operations_syntax

section \<open>Properties of the network service\<close>

text \<open>
  The signal strength that is reported, the choice of an access technology, registration
  and radio power, operator selection, and what survives a restart.
\<close>

subsection \<open>Signal strength\<close>

lemma int_quot_nonneg: "0 \<le> a \<Longrightarrow> 0 < b \<Longrightarrow> int_quot a b = a div b"
  by (cases "a = 0") (simp_all add: int_quot_def sgn_if)

lemma GetValueInRange_bounds:
  assumes "0 \<le> p" and "p \<le> 100" and "fst r \<le> snd r"
  shows "fst r \<le> GetValueInRange r p \<and> GetValueInRange r p \<le> snd r"
proof -
  let ?n = "snd r - fst r + 1"
  have n: "0 < ?n" using assms(3) by simp
  have pn: "0 \<le> p * ?n" using assms(1) n by simp
  have "p * ?n < 101 * ?n" using assms(2) n by (intro mult_strict_right_mono) auto
  then have "p * ?n div 101 < ?n" by (simp add: zdiv_mono_strict div_less_iff_less_mult mult.commute)
  moreover have "0 \<le> p * ?n div 101" using pn by (simp add: pos_imp_zdiv_nonneg_iff)
  ultimately show ?thesis using int_quot_nonneg [OF pn] by (simp add: GetValueInRange_def Let_def)
qed

text \<open>The ranges that the comments of \<^verbatim>\<open>network_service.h\<close> allow, \<^verbatim>\<open>INT_MAX\<close> for a value not reported.\<close>

definition signal_ok :: "SignalStrength \<Rightarrow> bool" where
  "signal_ok s \<longleftrightarrow>
     (gsm_rssi s \<in> {0..31} \<or> gsm_rssi s = INT_MAX) \<and> (wcdma_rssi s \<in> {0..31} \<or> wcdma_rssi s = INT_MAX) \<and>
     (lte_rsrp s \<in> {44..140} \<or> lte_rsrp s = INT_MAX) \<and> (nr_ss_rsrp s \<in> {44..140} \<or> nr_ss_rsrp s = INT_MAX) \<and>
     (cdma_dbm s \<in> {1..120} \<or> cdma_dbm s = INT_MAX) \<and> (evdo_dbm s \<in> {1..120} \<or> evdo_dbm s = INT_MAX) \<and>
     (\<forall>v\<in>set (signal_values s). in_int v)"

lemma signal_ok_current:
  assumes "0 \<le> signal_strength_percent n" and "signal_strength_percent n \<le> 100"
  shows "signal_ok (GetCurrentSignalStrength n)"
proof -
  note b = GetValueInRange_bounds [OF assms]
  show ?thesis
    using b [of kRssiRange] b [of kDbmRange] b [of kRsrpRange]
    by (auto simp: signal_ok_def GetCurrentSignalStrength_def signal_values_def new_SignalStrength_def INT_MAX_def
        in_int_def kRssiRange_def kDbmRange_def kRsrpRange_def Let_def)
qed

lemma csq_read_back:
  assumes "signal_ok s"
  shows "read_ints 22 (drop 6 (BuildCSQCommandResponse s)) = signal_values s"
proof -
  have "length (signal_values s) = 22" by (simp add: signal_values_def)
  then show ?thesis
    using read_print_ints [of "signal_values s"] assms by (simp add: signal_ok_def BuildCSQCommandResponse_def)
qed

text \<open>
  The states of the service under all commands, the two callbacks that it posts and the notification of
  the SIM service, in any environment.
\<close>

inductive net_reach :: "network_service \<Rightarrow> bool" where
  net_init: "InitializeServiceState e = (n, e') \<Longrightarrow> net_reach n"
| net_sim_operator: "net_reach n \<Longrightarrow> net_reach (InitializeSimOperator oper names n)"
| net_command: "net_reach n \<Longrightarrow> run_network_command ctx c cmd command (n, e) = Ok (n', e') \<Longrightarrow> net_reach n'"
| net_signal: "net_reach n \<Longrightarrow> UpdateSignalStrengthCallback (n, e) = (n', e') \<Longrightarrow> net_reach n'"
| net_register: "net_reach n \<Longrightarrow> UpdateRegisterState data st (n, e) = (n', e') \<Longrightarrow> net_reach n'"
| net_sim_status: "net_reach n \<Longrightarrow> OnSimStatusChanged sim_ready (n, e) = (n', e') \<Longrightarrow> net_reach n'"

definition percent_ok :: "network_service \<Rightarrow> bool" where
  "percent_ok n \<longleftrightarrow> 0 \<le> signal_strength_percent n \<and> signal_strength_percent n \<le> 100"

lemma percent_frame [simp]:
  "signal_strength_percent (fst (UpdateRegisterState data st (n, e))) = signal_strength_percent n"
  "signal_strength_percent (fst (OnSimStatusChanged r (n, e))) = signal_strength_percent n"
  "signal_strength_percent (InitializeNetworkOperator n) = signal_strength_percent n"
  "signal_strength_percent (InitializeSimOperator oper names n) = signal_strength_percent n"
  by (auto simp: UpdateRegisterState_def OnSimStatusChanged_def InitializeNetworkOperator_def
      InitializeSimOperator_def Let_def split: option.split operator_names.split)

lemma percent_ok_signal: "percent_ok n \<Longrightarrow> percent_ok (fst (UpdateSignalStrengthCallback (n, e)))"
  by (simp add: percent_ok_def UpdateSignalStrengthCallback_def Let_def)

lemmas network_queries = HandleRadioPowerReq_def HandleSignalStrength_def HandleQueryNetworkSelectionMode_def
  HandleRequestOperator_def HandleQueryAvailableNetwork_def HandleVoiceNetworkRegistration_def
  HandleDataNetworkRegistration_def HandleGetPreferredNetworkType_def HandleQuerySupportedTechs_def
  HandleRadioPower_def

definition same_percent :: "network_service \<Rightarrow> (network_service \<times> env) result \<Rightarrow> bool" where
  "same_percent n r \<longleftrightarrow> (\<forall>ne. r = Ok ne \<longrightarrow> signal_strength_percent (fst ne) = signal_strength_percent n)"

lemma same_percent_simps [simp]:
  "same_percent n (Ok ne) \<longleftrightarrow> signal_strength_percent (fst ne) = signal_strength_percent n"
  "same_percent n (Err err)"
  by (auto simp: same_percent_def)

lemma same_percent_bind: "(\<And>x. r = Ok x \<Longrightarrow> same_percent n (f x)) \<Longrightarrow> same_percent n (bind_result r f)"
  by (cases r) auto

lemma reply_net_fst [simp]: "fst (reply_net c rs ne) = fst ne"
  by (simp add: reply_net_def)

lemma save_selection_fst [simp]: "fst (save_selection ne) = fst ne"
  by (simp add: save_selection_def split_beta Let_def)

lemma same_percent_command:
  assumes "cmd \<noteq> Cmd_RemoteSignal"
  shows "same_percent n (run_network_command ctx c cmd command (n, e))"
  using assms
proof (cases cmd)
  case Cmd_SetNetworkSelectionMode
  then show ?thesis
    by (simp add: HandleSetNetworkSelectionMode_def set_voice_state_def Let_def split_beta
        split: option.split list.split)
next
  case Cmd_SetPreferredNetworkType
  then show ?thesis
    by (simp add: HandleSetPreferredNetworkType_def Let_def split_beta same_percent_bind)
next
  case Cmd_RemoteCTEC
  then show ?thesis
    by (simp add: HandleReceiveRemoteCTEC_def Let_def split_beta same_percent_bind)
next
  case Cmd_RemoteReg
  then show ?thesis
    by (simp add: HandleReceiveRemoteVoiceDataReg_def Let_def split_beta same_percent_bind)
next
  case Cmd_IdDisclosure
  then show ?thesis by (simp add: HandleIdentifierDisclosure_def same_percent_bind)
next
  case Cmd_SecurityAlgorithm
  then show ?thesis by (simp add: HandleSecurityAlgorithmUpdate_def same_percent_bind)
qed (simp_all add: network_queries Let_def split_beta split: option.split)

lemma percent_ok_command:
  assumes "percent_ok n" and "run_network_command ctx c cmd command (n, e) = Ok (n', e')"
  shows "percent_ok n'"
proof (cases "cmd = Cmd_RemoteSignal")
  case True
  then show ?thesis
    using assms
    by (auto simp: HandleReceiveRemoteSignal_def percent_ok_def bind_result_Inr_iff Let_def split: if_splits)
next
  case False
  then show ?thesis
    using same_percent_command [of cmd n ctx c command e] assms by (simp add: percent_ok_def)
qed

lemma percent_ok_fst:
  "percent_ok (fst (UpdateRegisterState d st (n, e))) = percent_ok n"
  "percent_ok (fst (OnSimStatusChanged r (n, e))) = percent_ok n"
  "percent_ok (InitializeSimOperator oper names n) = percent_ok n"
  by (simp_all add: percent_ok_def)

lemma net_reach_percent: "net_reach n \<Longrightarrow> percent_ok n"
proof (induction rule: net_reach.induct)
  case (net_init e n e')
  have "percent_ok (fst (InitializeServiceState e))"
    unfolding InitializeServiceState_def Let_def by (rule percent_ok_signal) (simp add: percent_ok_def)
  then show ?case using net_init by simp
next
  case (net_signal n e n' e')
  then show ?case using percent_ok_signal [of n e] by simp
next
  case (net_register n data st e n' e')
  then show ?case using percent_ok_fst(1) [of data st n e] by simp
next
  case (net_sim_status n r e n' e')
  then show ?case using percent_ok_fst(2) [of r n e] by simp
next
  case (net_sim_operator n oper names)
  then show ?case by (simp add: percent_ok_fst)
qed (rule percent_ok_command)

text \<open>
  In every reachable state the percentage is between 0 and 100 and every value of a signal strength
  report is in the range that its technology allows or \<^verbatim>\<open>INT_MAX\<close>; reading the 22 numbers of the
  \<^verbatim>\<open>+CSQ\<close> line with the command parser gives back the values, and without network none is reported.
\<close>

theorem signal_strength_reports:
  assumes "net_reach n"
  shows "0 \<le> signal_strength_percent n \<and> signal_strength_percent n \<le> 100 \<and>
    signal_ok (GetCurrentSignalStrength n) \<and>
    read_ints 22 (drop 6 (BuildCSQCommandResponse (GetCurrentSignalStrength n))) =
      signal_values (GetCurrentSignalStrength n) \<and>
    (\<not> IsHasNetwork n \<longrightarrow> set (signal_values (GetCurrentSignalStrength n)) = {INT_MAX})"
proof -
  have p: "0 \<le> signal_strength_percent n" "signal_strength_percent n \<le> 100"
    using net_reach_percent [OF assms] by (simp_all add: percent_ok_def)
  note ok = signal_ok_current [OF p]
  have "set (signal_values (GetCurrentSignalStrength n)) = {INT_MAX}" if "\<not> IsHasNetwork n"
    using that by (simp add: GetCurrentSignalStrength_def signal_values_def new_SignalStrength_def)
  then show ?thesis using p ok csq_read_back [OF ok] by blast
qed

theorem signal_strength_reports_witness:
  "\<exists>n e'. InitializeServiceState sample_env = (n, e') \<and> signal_ok (GetCurrentSignalStrength n) \<and>
     signal_strength_percent n \<le> 100"
proof -
  obtain n e' where r: "InitializeServiceState sample_env = (n, e')" by fastforce
  show ?thesis using signal_strength_reports [OF net_init [OF r]] r by blast
qed

subsection \<open>The access technology of a preference mask\<close>

lemma and_push_bit_1: "(m :: int) AND 2 ^ k = 0 \<longleftrightarrow> \<not> bit m k"
proof -
  have "m AND 2 ^ k = (if bit m k then 2 ^ k else 0)"
    by (rule bit_eqI) (auto simp: bit_and_iff bit_exp_iff)
  then show ?thesis by simp
qed

lemma tech_in_byte_Some:
  "tech_in_byte m i j = Some t \<Longrightarrow>
     \<exists>k<j. t = 2 ^ k \<and> bit m (k + 8 * i) \<and> (\<forall>l. k < l \<longrightarrow> l < j \<longrightarrow> \<not> bit m (l + 8 * i))"
proof (induction j)
  case (Suc j)
  show ?case
  proof (cases "bit m (j + 8 * i)")
    case True
    then have "t = 2 ^ j" using Suc.prems by (simp add: and_push_bit_1)
    then show ?thesis using True by auto
  next
    case False
    then have "tech_in_byte m i j = Some t" using Suc.prems by (simp add: and_push_bit_1)
    then obtain k where "k < j" "t = 2 ^ k" "bit m (k + 8 * i)"
        "\<forall>l. k < l \<longrightarrow> l < j \<longrightarrow> \<not> bit m (l + 8 * i)"
      using Suc.IH by blast
    then show ?thesis using False by (metis less_Suc_eq)
  qed
qed simp

lemma tech_in_byte_None: "tech_in_byte m i j = None \<Longrightarrow> l < j \<Longrightarrow> \<not> bit m (l + 8 * i)"
  by (induction j) (auto simp: and_push_bit_1 less_Suc_eq split: if_splits)

lemma tech_in_mask_Some:
  "tech_in_mask m b = Some t \<Longrightarrow>
     \<exists>i<b. \<exists>j<8. t = 2 ^ j \<and> bit m (j + 8 * i) \<and> (\<forall>k. j + 8 * i < k \<longrightarrow> k < 8 * b \<longrightarrow> \<not> bit m k)"
proof (induction b)
  case (Suc b)
  show ?case
  proof (cases "tech_in_byte m b 8")
    case None
    have high: "\<not> bit m k" if "8 * b \<le> k" "k < 8 * Suc b" for k
      using tech_in_byte_None [OF None, of "k - 8 * b"] that by simp
    have "tech_in_mask m b = Some t" using Suc.prems None by simp
    then obtain i j where "i < b" "j < 8" "t = 2 ^ j" "bit m (j + 8 * i)"
        "\<forall>k. j + 8 * i < k \<longrightarrow> k < 8 * b \<longrightarrow> \<not> bit m k"
      using Suc.IH by blast
    then show ?thesis using high by (metis less_Suc_eq not_le)
  next
    case (Some u)
    then have u: "u = t" using Suc.prems by simp
    obtain j where j: "j < 8" "t = 2 ^ j" "bit m (j + 8 * b)"
        "\<forall>l. j < l \<longrightarrow> l < 8 \<longrightarrow> \<not> bit m (l + 8 * b)"
      using tech_in_byte_Some [OF Some] u by blast
    have "\<not> bit m k" if "j + 8 * b < k" "k < 8 * Suc b" for k
      using j(4) [rule_format, of "k - 8 * b"] that by simp
    then show ?thesis using j(1-3) by blast
  qed
qed simp

lemma tech_in_mask_None: "tech_in_mask m b = None \<Longrightarrow> k < 8 * b \<Longrightarrow> \<not> bit m k"
proof (induction b)
  case (Suc b)
  then have none: "tech_in_byte m b 8 = None" "tech_in_mask m b = None" by (auto split: option.splits)
  show ?case
  proof (cases "k < 8 * b")
    case True
    then show ?thesis using Suc.IH none by simp
  next
    case False
    then show ?thesis using tech_in_byte_None [OF none(1), of "k - 8 * b"] Suc.prems(2) by simp
  qed
qed simp

text \<open>
  The technology chosen for a preference mask is the highest-numbered one of the highest byte that
  is not empty, and GSM for the empty mask: \<open>2\<^sup>j\<close> where \<open>j + 8 i\<close> is the position of the most
  significant bit. (The comment in the code says the lowest-numbered one.)
\<close>

theorem preferred_technology_is_top_bit:
  assumes "0 \<le> m" and "m < 2 ^ 32"
  shows "(m = 0 \<longrightarrow> getModemTechFromPrefer m = M_MODEM_TECH_GSM) \<and>
    (m \<noteq> 0 \<longrightarrow> (\<exists>i<4. \<exists>j<8. getModemTechFromPrefer m = 2 ^ j \<and> bit m (j + 8 * i) \<and>
       (\<forall>k. j + 8 * i < k \<longrightarrow> \<not> bit m k)))"
proof -
  have "take_bit 32 m = m" using assms by (simp add: take_bit_int_eq_self)
  then have high: "\<not> bit m k" if "32 \<le> k" for k
    using that by (metis bit_take_bit_iff not_le)
  show ?thesis
  proof (cases "tech_in_mask m 4")
    case None
    have "\<not> bit m k" for k using tech_in_mask_None [OF None, of k] high [of k] by (cases "k < 32") auto
    then have "m = 0" by (metis bit_0_eq bit_eqI bot_apply bot_bool_def)
    then show ?thesis using None by (simp add: getModemTechFromPrefer_def)
  next
    case (Some t)
    then obtain i j where ij: "i < 4" "j < 8" "t = 2 ^ j" "bit m (j + 8 * i)"
        "\<forall>k. j + 8 * i < k \<longrightarrow> k < 8 * 4 \<longrightarrow> \<not> bit m k"
      using tech_in_mask_Some by blast
    have "\<not> bit m k" if "j + 8 * i < k" for k
      using ij(5) high [of k] that by (cases "k < 32") auto
    moreover have "getModemTechFromPrefer m = 2 ^ j"
      using Some ij(3) by (simp add: getModemTechFromPrefer_def)
    moreover have "m \<noteq> 0" using ij(4) by auto
    ultimately show ?thesis using ij(1,2,4) by blast
  qed
qed

theorem preferred_technology_is_top_bit_witness:
  "\<exists>i<4. \<exists>j<8. getModemTechFromPrefer 513 = 2 ^ j \<and> bit (513 :: int) (j + 8 * i)"
  using preferred_technology_is_top_bit [of 513] by fastforce

subsection \<open>Radio power and registration\<close>

lemma UpdateRegisterState_fst:
  "fst (UpdateRegisterState d st (n, e)) =
     n\<lparr>voice_registration_status := (voice_registration_status n)\<lparr>registration_state := st,
          network_type := getNetworkTypeFromTech (current_network_mode n)\<rparr>,
       data_registration_status := (data_registration_status n)\<lparr>registration_state := st,
          network_type := getNetworkTypeFromTech (current_network_mode n)\<rparr>\<rparr>"
  by (simp add: UpdateRegisterState_def Let_def)

lemma radio_command:
  "GetNextInt (SkipPrefix ''AT+CFUN=0'') = (0, [])" "GetNextInt (SkipPrefix ''AT+CFUN=1'') = (1, [])"
proof -
  have "SkipPrefix (''AT+CFUN'' @ CHR ''='' # to_string i) = to_string i" for i
    by (rule SkipPrefix_append) simp
  from this [of 0] this [of 1] show
    "GetNextInt (SkipPrefix ''AT+CFUN=0'') = (0, [])" "GetNextInt (SkipPrefix ''AT+CFUN=1'') = (1, [])"
    using GetNextInt_to_string(2) [of 0] GetNextInt_to_string(2) [of 1]
    by (simp_all add: to_string_def digits_of.simps in_int_def)
qed

text \<open>
  Switching the radio off with \<^verbatim>\<open>AT+CFUN=0\<close> leaves voice and data unregistered and no network. A
  registration that \<^verbatim>\<open>AT+CFUN=1\<close> has scheduled less than a second before is not withdrawn: when its
  callback runs, the service reports itself registered at home while the radio is off.
\<close>

theorem radio_off_and_late_registration:
  assumes "HandleRadioPower True data c ''AT+CFUN=1'' (n, e) = (n1, e1)"
    and "HandleRadioPower True data c ''AT+CFUN=0'' (n1, e1) = (n2, e2)"
    and "UpdateRegisterState data NET_REGISTRATION_HOME (n2, e3) = (n3, e4)"
  shows "UpdateRegisterState_cb NET_REGISTRATION_HOME \<in> event_cb ` set (queue (looper e1)) \<and>
    GetVoiceRegistrationState n1 = NET_REGISTRATION_HOME \<and> \<not> isRadioOff n1 \<and>
    GetVoiceRegistrationState n2 = NET_REGISTRATION_UNREGISTERED \<and>
    registration_state (data_registration_status n2) = NET_REGISTRATION_UNREGISTERED \<and> \<not> IsHasNetwork n2 \<and>
    isRadioOff n3 \<and> GetVoiceRegistrationState n3 = NET_REGISTRATION_HOME"
proof -
  have n1: "n1 = n\<lparr>radio_state := RADIO_STATE_ON,
      voice_registration_status := (voice_registration_status n)\<lparr>registration_state := NET_REGISTRATION_HOME\<rparr>\<rparr>"
    using assms(1) by (auto simp: HandleRadioPower_def radio_command OnSimStatusChanged_def reply_net_def Let_def)
  have e1: "e1 = SendCommandResponses c [''OK''] (post_cb (UpdateRegisterState_cb NET_REGISTRATION_HOME) 1000 e)"
    using assms(1) by (auto simp: HandleRadioPower_def radio_command OnSimStatusChanged_def reply_net_def Let_def)
  have n2: "n2 = fst (UpdateRegisterState data NET_REGISTRATION_UNREGISTERED (n1\<lparr>radio_state := RADIO_STATE_OFF\<rparr>, e1))"
    using assms(2) by (auto simp: HandleRadioPower_def radio_command reply_net_def)
  have n3: "n3 = fst (UpdateRegisterState data NET_REGISTRATION_HOME (n2, e3))" using assms(3) by simp
  have "UpdateRegisterState_cb NET_REGISTRATION_HOME \<in> event_cb ` set (queue (looper e1))"
    unfolding e1 by (simp add: looper_post_cb Post_def Insert_def set_insert_event Let_def)
  then show ?thesis
    unfolding n1 n2 n3 UpdateRegisterState_fst
    by (simp add: GetVoiceRegistrationState_def isRadioOff_def IsHasNetwork_def)
qed

theorem radio_off_and_late_registration_witness:
  "\<exists>n3 e4. UpdateRegisterState init_data_service NET_REGISTRATION_HOME
      (HandleRadioPower True init_data_service 0 ''AT+CFUN=0''
        (HandleRadioPower True init_data_service 0 ''AT+CFUN=1'' (InitializeServiceState sample_env))) = (n3, e4) \<and>
    isRadioOff n3 \<and> GetVoiceRegistrationState n3 = NET_REGISTRATION_HOME"
proof -
  obtain n e where 0: "InitializeServiceState sample_env = (n, e)" by fastforce
  obtain n1 e1 where 1: "HandleRadioPower True init_data_service 0 ''AT+CFUN=1'' (n, e) = (n1, e1)" by fastforce
  obtain n2 e2 where 2: "HandleRadioPower True init_data_service 0 ''AT+CFUN=0'' (n1, e1) = (n2, e2)" by fastforce
  obtain n3 e4 where 3: "UpdateRegisterState init_data_service NET_REGISTRATION_HOME (n2, e2) = (n3, e4)" by fastforce
  show ?thesis using radio_off_and_late_registration [OF 1 2 3] unfolding 0 1 2 3 by blast
qed

subsection \<open>Operator selection\<close>

definition cops_command :: "int \<Rightarrow> string \<Rightarrow> string" where
  "cops_command mode num = ''AT+COPS='' @ to_string mode @ CHR '','' # ''2,'' @ CHR ''\"'' # num @ ''\"''"

lemma cops_fields:
  assumes "in_int mode" and "CHR ''='' \<notin> set num" and "CHR ''\"'' \<notin> set num"
  shows "GetNextInt (SkipPrefix (cops_command mode num)) = (mode, ''2,'' @ CHR ''\"'' # num @ ''\"'')"
    and "SkipPrefix (''2,'' @ CHR ''\"'' # num @ ''\"'') = ''2,'' @ CHR ''\"'' # num @ ''\"''"
    and "fst (GetNextStr (''2,'' @ CHR ''\"'' # num @ ''\"'')) = num"
proof -
  show "GetNextInt (SkipPrefix (cops_command mode num)) = (mode, ''2,'' @ CHR ''\"'' # num @ ''\"'')"
    using SkipPrefix_append [of "''AT+COPS''"] assms(1) by (simp add: cops_command_def)
  have "find_char (CHR ''='') (''2,'' @ CHR ''\"'' # num @ ''\"'') = None" using assms(2) by simp
  then show "SkipPrefix (''2,'' @ CHR ''\"'' # num @ ''\"'') = ''2,'' @ CHR ''\"'' # num @ ''\"''"
    by (simp del: find_char_None add: SkipPrefix_def)
  show "fst (GetNextStr (''2,'' @ CHR ''\"'' # num @ ''\"'')) = num"
    using assms(3) by (simp add: GetNextStr_def)
qed

lemma find_operator_None: "find_operator num ops = None \<longleftrightarrow> num \<notin> numeric ` set ops"
  by (induction ops) auto

text \<open>
  Selecting an operator of the list in manual mode (\<^verbatim>\<open>AT+COPS=1\<close>) reads through an iterator at the end of
  the list, whatever the operator; so does manual/automatic mode (\<^verbatim>\<open>AT+COPS=4\<close>) when the operator is not in
  the list, where automatic selection should be entered. Only an unknown operator in manual mode and a known
  one in manual/automatic mode have a defined outcome; in the latter exactly the operators
  with that code are current, and mode and operator are saved.
\<close>

theorem operator_selection_outcomes:
  assumes "CHR ''='' \<notin> set num" and "CHR ''\"'' \<notin> set num"
  shows "(num \<in> numeric ` set (operator_list n) \<longrightarrow>
      HandleSetNetworkSelectionMode c (cops_command OPER_SELECTION_MANUAL num) (n, e) = Err Undefined_Behaviour \<and>
      (\<exists>n' e'. HandleSetNetworkSelectionMode c (cops_command OPER_SELECTION_MANUAL_AUTOMATIC num) (n, e) = Ok (n', e') \<and>
         (\<forall>op\<in>set (operator_list n'). operator_state op = OPER_STATE_CURRENT \<longleftrightarrow> numeric op = num) \<and>
         network_selection_mode (nvram_file e') = OPER_SELECTION_MANUAL_AUTOMATIC \<and>
         operator_numeric (nvram_file e') = num)) \<and>
    (num \<notin> numeric ` set (operator_list n) \<longrightarrow>
      HandleSetNetworkSelectionMode c (cops_command OPER_SELECTION_MANUAL_AUTOMATIC num) (n, e) = Err Undefined_Behaviour \<and>
      (\<exists>n' e'. HandleSetNetworkSelectionMode c (cops_command OPER_SELECTION_MANUAL num) (n, e) = Ok (n', e') \<and>
         GetVoiceRegistrationState n' = NET_REGISTRATION_UNKNOWN \<and> operator_list n' = operator_list n))"
proof (cases "find_operator num (operator_list n)")
  case None
  have in1: "in_int 1" "in_int 4" by (simp_all add: in_int_def)
  have "num \<notin> numeric ` set (operator_list n)" using None by (simp add: find_operator_None)
  then show ?thesis
    using None cops_fields [OF in1(1) assms] cops_fields [OF in1(2) assms]
    by (simp add: HandleSetNetworkSelectionMode_def split_beta save_selection_def reply_net_def set_voice_state_def
        GetVoiceRegistrationState_def)
next
  case (Some i)
  have in1: "in_int 1" "in_int 4" by (simp_all add: in_int_def)
  have "num \<in> numeric ` set (operator_list n)" using Some find_operator_None [of num "operator_list n"] by simp
  then show ?thesis
    using Some cops_fields [OF in1(1) assms] cops_fields [OF in1(2) assms]
    by (auto simp: HandleSetNetworkSelectionMode_def split_beta save_selection_def reply_net_def set_voice_state_def
        SaveToFile_def set_nvram_def mark_current_def)
qed

theorem operator_selection_outcomes_witness:
  "HandleSetNetworkSelectionMode 0 (cops_command OPER_SELECTION_MANUAL ''310300'') (InitializeServiceState sample_env) =
     Err Undefined_Behaviour"
proof -
  have "numeric ` set (operator_list (fst (InitializeServiceState sample_env))) = {''311740'', ''310300'', ''310400''}"
    by (simp add: InitializeServiceState_def UpdateSignalStrengthCallback_def IsHasNetwork_def InitializeNetworkOperator_def
        builtin_operators_def mark_def sample_env_def InitDefaultNvramConfig_def Let_def)
  then show ?thesis
    using operator_selection_outcomes [of "''310300''" "fst (InitializeServiceState sample_env)" 0
        "snd (InitializeServiceState sample_env)"]
    by simp
qed

text \<open>
  When the SIM's operator is not one of the built-in operators but is in the operator file, the
  built-in operators are appended a second time, and with automatic selection two entries of the list
  are marked as the current operator.
\<close>

theorem sim_operator_duplicates_list:
  assumes "num \<noteq> []" and "num \<notin> {''311740'', ''310300'', ''310400''}" and "find_char (CHR ''='') names = Some pos"
    and "network_selection_mode (nvram_config e) = OPER_SELECTION_AUTOMATIC"
  shows "let ops = operator_list (InitializeSimOperator num (Item_Text names) (fst (InitializeServiceState e))) in
    map numeric ops = num # map numeric builtin_operators @ map numeric builtin_operators \<and>
    filter (\<lambda>op. operator_state op = OPER_STATE_CURRENT) ops = [ops ! 0, ops ! 1]"
proof -
  have "''311740'' \<noteq> num" "''310300'' \<noteq> num" "''310400'' \<noteq> num" using assms(2) by auto
  then show ?thesis
    using assms(1,3,4)
    by (simp add: InitializeSimOperator_def InitializeServiceState_def UpdateSignalStrengthCallback_def IsHasNetwork_def
        InitializeNetworkOperator_def builtin_operators_def mark_def Let_def)
qed

theorem sim_operator_duplicates_list_witness:
  "map numeric (operator_list (InitializeSimOperator ''20801'' (Item_Text ''Orange=Orange'')
      (fst (InitializeServiceState sample_env)))) =
    [''20801'', ''311740'', ''310300'', ''310400'', ''311740'', ''310300'', ''310400'']"
  using sim_operator_duplicates_list [of "''20801''" "''Orange=Orange''" 6 sample_env]
  by (simp add: sample_env_def InitDefaultNvramConfig_def builtin_operators_def Let_def)

subsection \<open>Settings survive a restart\<close>

text \<open>
  The access technology and the preference mask that \<^verbatim>\<open>AT+CTEC=\<close> leaves behind are the ones that the
  service starts with when it is initialised from the saved nvram file.
\<close>

theorem ctec_survives_restart:
  assumes "HandleSetPreferredNetworkType data c command (n, e) = Ok (n', e')"
    and "nvram_config restarted = nvram_file e'"
  shows "current_network_mode (fst (InitializeServiceState restarted)) = current_network_mode n' \<and>
    preferred_network (fst (InitializeServiceState restarted)) = preferred_network n'"
proof -
  have start: "current_network_mode (fst (InitializeServiceState restarted)) = modem_technoloy (nvram_config restarted)"
    "preferred_network (fst (InitializeServiceState restarted)) = preferred_network_mode (nvram_config restarted)"
    by (simp_all add: InitializeServiceState_def UpdateSignalStrengthCallback_def InitializeNetworkOperator_def
        IsHasNetwork_def Let_def split: option.split)
  have "modem_technoloy (nvram_file e') = current_network_mode n' \<and> preferred_network_mode (nvram_file e') = preferred_network n'"
    using assms(1)
    by (auto simp: HandleSetPreferredNetworkType_def bind_result_Inr_iff reply_net_def SaveToFile_def set_nvram_def
        Let_def split_beta)
  then show ?thesis using start assms(2) by simp
qed

theorem ctec_survives_restart_witness:
  "\<exists>n' e'. HandleSetPreferredNetworkType init_data_service 0 (''AT+CTEC=1,'' @ ''\"'' @ ''40'' @ ''\"'')
      (InitializeServiceState sample_env) = Ok (n', e') \<and>
    current_network_mode (fst (InitializeServiceState (sample_env\<lparr>nvram_config := nvram_file e'\<rparr>))) = current_network_mode n'"
proof -
  have "stoi 16 ''40'' = Ok 64"
    by (simp add: stoi_def strtol_value_def sign_split_def skip_0x_def isspace_def is_digit_def digit_value_def
        digits_value_def in_int_def)
  then have "\<exists>ne. HandleSetPreferredNetworkType init_data_service 0 (''AT+CTEC=1,'' @ ''\"'' @ ''40'' @ ''\"'')
      (n, e) = Ok ne" for n e
    by (simp add: HandleSetPreferredNetworkType_def GetNextStr_def GetNextInt_def GetNextStr_flag_def SkipPrefix_def
        Let_def split_beta)
  then obtain n' e' where r: "HandleSetPreferredNetworkType init_data_service 0 (''AT+CTEC=1,'' @ ''\"'' @ ''40'' @ ''\"'')
      (fst (InitializeServiceState sample_env), snd (InitializeServiceState sample_env)) = Ok (n', e')" by fast
  show ?thesis
    using ctec_survives_restart [OF r, of "sample_env\<lparr>nvram_config := nvram_file e'\<rparr>"] r by auto
qed

end
