(* ===== verification/Sim_Profile.thy ===== *)
theory Sim_Profile
  imports Sim_Service
begin

section \<open>What the SIM saves in its profile\<close>

text \<open>
  Writing texts below an element of the profile and reading them back; the PIN state and the phone
  number are read back after they were saved.
\<close>

subsection \<open>Saving the PIN state\<close>

text \<open>The nine texts that are saved below the profile element.\<close>

definition save_pins :: "('d, 'n) xml_ops \<Rightarrow> 'd profiled_sim \<Rightarrow> 'n \<Rightarrow> 'd \<Rightarrow> 'd" where
  "save_pins ops s x d =
     put_child ops x ''PUK2REMAINTIMES'' ''PUK2REMAINTIMES'' (to_string (puk_remaining_times (pin2_status s)))
     (put_child ops x ''PIN2REMAINTIMES'' ''PINREMAINTIMES'' (to_string (pin_remaining_times (pin2_status s)))
     (put_child ops x ''PUK2CODE'' ''PUK2CODE'' (puk (pin2_status s))
     (put_child ops x ''PIN2CODE'' ''PIN2CODE'' (pin (pin2_status s))
     (put_child ops x ''PUKREMAINTIMES'' ''PUKREMAINTIMES'' (to_string (puk_remaining_times (pin1_status s)))
     (put_child ops x ''PINREMAINTIMES'' ''PINREMAINTIMES'' (to_string (pin_remaining_times (pin1_status s)))
     (put_child ops x ''PUKCODE'' ''PUKCODE'' (puk (pin1_status s))
     (put_child ops x ''PINCODE'' ''PINCODE'' (pin (pin1_status s))
     (put_child ops x ''PINSTATE'' ''PINSTATE'' (pin_state_text s) d))))))))"

definition has_pin2_attempts :: "('d, 'n) xml_ops \<Rightarrow> 'd profiled_sim \<Rightarrow> 'n \<Rightarrow> bool" where
  "has_pin2_attempts ops s root \<longleftrightarrow>
     (case xml_first ops (doc s) root ''PinProfile'' of
        None \<Rightarrow> False
      | Some x \<Rightarrow> xml_first ops (doc s) x ''PIN2REMAINTIMES'' \<noteq> None)"

text \<open>The text of the first child with a name, if there is one and it has a text.\<close>

definition text_below :: "('d, 'n) xml_ops \<Rightarrow> 'd \<Rightarrow> 'n \<Rightarrow> string \<Rightarrow> string option" where
  "text_below ops d x name = (case xml_first ops d x name of None \<Rightarrow> None | Some y \<Rightarrow> xml_text ops d y)"

lemma child_text_below: "text_below ops d x name = Some t \<Longrightarrow> child_text ops d x name = Ok (Some t)"
  by (auto simp: text_below_def child_text_def split: option.splits)

lemma plain_to_string: "plain_text (to_string i)"
proof -
  have "33 \<le> (of_char c :: nat) \<and> of_char c \<le> (126 :: nat)" if "c \<in> set (to_string i)" for c
    using set_to_string [OF that] by (auto simp: is_digit_def digit_value_def Let_def split: if_splits)
  then show ?thesis by (simp add: plain_text_def list_all_iff)
qed

lemma plain_pin_state: "plain_text (pin_state_text s)"
  by (simp add: plain_text_def pin_state_text_def)

context xml_document
begin

definition placed :: "'d \<Rightarrow> 'n \<Rightarrow> bool" where
  "placed d x \<longleftrightarrow> ok d \<and> el d x"

text \<open>
  Writing a text below an element. Appending under a name \<open>a\<close> other than the one that was looked for is
  not seen when \<open>a\<close> has an element already.
\<close>

lemma put_child_frame:
  assumes "placed d x"
  shows "placed d z \<Longrightarrow> placed (put_child ops x n a t d) z"
    and "xml_root ops (put_child ops x n a t d) = xml_root ops d"
    and "placed d z \<Longrightarrow> z \<noteq> x \<Longrightarrow> xml_first ops (put_child ops x n a t d) z m = xml_first ops d z m"
    and "xml_first ops (put_child ops x n a t d) x m = None \<longleftrightarrow>
      xml_first ops d x m = None \<and> (xml_first ops d x n = None \<longrightarrow> m \<noteq> a)"
proof -
  have p: "ok d" "el d x" using assms by (simp_all add: placed_def)
  obtain y d' where new: "xml_append_text ops x a t d = (y, d')" by fastforce
  note app = append_text [OF p new]
  have set: "ok (xml_set_text ops w t d)" "el (xml_set_text ops w t d) = el d" "xml_root ops (xml_set_text ops w t d) = xml_root ops d"
      "xml_first ops (xml_set_text ops w t d) = xml_first ops d" if "xml_first ops d x n = Some w" for w
    using set_text [OF p(1) first_el [OF p that]] by simp_all
  show "placed d z \<Longrightarrow> placed (put_child ops x n a t d) z"
    and "xml_root ops (put_child ops x n a t d) = xml_root ops d"
    and "placed d z \<Longrightarrow> z \<noteq> x \<Longrightarrow> xml_first ops (put_child ops x n a t d) z m = xml_first ops d z m"
    and "xml_first ops (put_child ops x n a t d) x m = None \<longleftrightarrow>
      xml_first ops d x m = None \<and> (xml_first ops d x n = None \<longrightarrow> m \<noteq> a)"
    using app set p(2) new by (auto simp: put_child_def placed_def split: option.split)
qed

lemma text_below_put_child:
  assumes "placed d x"
  shows "text_below ops (put_child ops x n n t d) x m = (if m = n then Some t else text_below ops d x m)"
    and "xml_first ops d x a \<noteq> None \<Longrightarrow> text_below ops (put_child ops x n a t d) x m =
      (if m = n \<and> xml_first ops d x n \<noteq> None then Some t else text_below ops d x m)"
proof -
  have p: "ok d" "el d x" using assms by (simp_all add: placed_def)
  have both: "text_below ops (put_child ops x n a t d) x m =
      (if m = n \<and> (a = n \<or> xml_first ops d x n \<noteq> None) then Some t else text_below ops d x m)"
    if a: "a = n \<or> xml_first ops d x a \<noteq> None" for a
  proof (cases "xml_first ops d x n")
    case None
    obtain y d' where new: "xml_append_text ops x a t d = (y, d')" by fastforce
    note app = append_text [OF p new]
    have "xml_first ops d' x m = (if m = a \<and> xml_first ops d x m = None then Some y else xml_first ops d x m)" "xml_text ops d' y = Some t"
      using app p(2) by auto
    moreover have "xml_text ops d' w = xml_text ops d w" if "xml_first ops d x m = Some w" for w
      using app first_el [OF p that] by simp
    ultimately show ?thesis using None new a by (cases "xml_first ops d x m") (auto simp: text_below_def put_child_def)
  next
    case (Some w)
    have "xml_first ops (xml_set_text ops w t d) = xml_first ops d" "xml_text ops (xml_set_text ops w t d) = (xml_text ops d)(w \<mapsto> t)"
      using set_text [OF p(1) first_el [OF p Some]] by simp_all
    moreover have "m = n" if "xml_first ops d x m = Some w" using one_name [OF p that Some] .
    ultimately show ?thesis using Some by (cases "xml_first ops d x m") (auto simp: text_below_def put_child_def)
  qed
  show "text_below ops (put_child ops x n n t d) x m = (if m = n then Some t else text_below ops d x m)"
    using both [of n] by simp
  show "text_below ops (put_child ops x n a t d) x m = (if m = n \<and> xml_first ops d x n \<noteq> None then Some t else text_below ops d x m)"
    if "xml_first ops d x a \<noteq> None" using both [of a] that by auto
qed

lemma save_pins_frame:
  assumes "placed d x"
  shows "placed d z \<Longrightarrow> placed (save_pins ops s x d) z"
    and "xml_root ops (save_pins ops s x d) = xml_root ops d"
    and "placed d z \<Longrightarrow> z \<noteq> x \<Longrightarrow> xml_first ops (save_pins ops s x d) z m = xml_first ops d z m"
    and "xml_first ops (save_pins ops s x d) x ''PIN2REMAINTIMES'' = None \<longleftrightarrow> xml_first ops d x ''PIN2REMAINTIMES'' = None"
  using assms by (simp_all add: save_pins_def put_child_frame)

lemma saved_texts:
  assumes "placed d x"
  shows "text_below ops (save_pins ops s x d) x ''PINSTATE'' = Some (pin_state_text s)"
    and "text_below ops (save_pins ops s x d) x ''PINCODE'' = Some (pin (pin1_status s))"
    and "text_below ops (save_pins ops s x d) x ''PUKCODE'' = Some (puk (pin1_status s))"
    and "text_below ops (save_pins ops s x d) x ''PINREMAINTIMES'' = Some (to_string (pin_remaining_times (pin1_status s)))"
    and "text_below ops (save_pins ops s x d) x ''PUKREMAINTIMES'' = Some (to_string (puk_remaining_times (pin1_status s)))"
    and "text_below ops (save_pins ops s x d) x ''PIN2CODE'' = Some (pin (pin2_status s))"
    and "text_below ops (save_pins ops s x d) x ''PUK2CODE'' = Some (puk (pin2_status s))"
    and "xml_first ops d x ''PIN2REMAINTIMES'' \<noteq> None \<Longrightarrow>
      text_below ops (save_pins ops s x d) x ''PIN2REMAINTIMES'' = Some (to_string (pin_remaining_times (pin2_status s)))"
    and "text_below ops (save_pins ops s x d) x ''PUK2REMAINTIMES'' = Some (to_string (puk_remaining_times (pin2_status s)))"
  using assms by (simp_all add: save_pins_def text_below_put_child put_child_frame del: not_None_eq)

text \<open>The profile element, found or appended.\<close>

lemma profile_element:
  assumes "ok d" and "xml_root ops d = Some root"
    and "(x, d') = (case xml_first ops d root ''PinProfile'' of
                      None \<Rightarrow> xml_append ops root ''PinProfile'' d | Some x \<Rightarrow> (x, d))"
  shows "root \<noteq> x \<and> ok d' \<and> xml_root ops d' = Some root \<and> el d' x \<and> el d' root \<and>
    xml_first ops d' root ''PinProfile'' = Some x \<and>
    ((xml_first ops d' x ''PIN2REMAINTIMES'' = None) =
      (case xml_first ops d root ''PinProfile'' of
         None \<Rightarrow> True | Some x \<Rightarrow> xml_first ops d x ''PIN2REMAINTIMES'' = None))"
proof -
  have root: "el d root" by (rule root_el [OF assms(1,2)])
  show ?thesis
  proof (cases "xml_first ops d root ''PinProfile''")
    case None
    then have "xml_append ops root ''PinProfile'' d = (x, d')" using assms(3) by simp
    from append_new [OF assms(1) root this] show ?thesis using None root assms(2) by auto
  next
    case (Some y)
    then show ?thesis using assms first_el [OF assms(1) root Some] not_below_itself [OF assms(1) root, of "''PinProfile''"] root by auto
  qed
qed

text \<open>Loading the file that was saved: the texts below an element, and the elements that are not there.\<close>

lemma reloaded_profile:
  assumes "ok d" and "xml_root ops d = Some root" and "el d x" and "xml_first ops d root a = Some x"
  shows "\<exists>d' root' x'. xml_reload ops d = Some d' \<and> xml_root ops d' = Some root' \<and> xml_first ops d' root' a = Some x' \<and>
    (\<forall>m t. text_below ops d x m = Some t \<longrightarrow> plain_text t \<longrightarrow> child_text ops d' x' m = Ok (Some t)) \<and>
    (\<forall>m. xml_first ops d x m = None \<longrightarrow> child_text ops d' x' m = Ok None)"
proof -
  obtain d' h where r: "xml_reload ops d = Some d'" "xml_root ops d' = map_option h (xml_root ops d)"
      "\<And>x a. el d x \<Longrightarrow> xml_first ops d' (h x) a = map_option h (xml_first ops d x a)"
      "\<And>x t. el d x \<Longrightarrow> xml_text ops d x = Some t \<Longrightarrow> plain_text t \<Longrightarrow> xml_text ops d' (h x) = Some t"
    using reload [OF assms(1)] by blast
  have "text_below ops d' (h x) m = Some t" if "text_below ops d x m = Some t" "plain_text t" for m t
    using that r(3) [OF assms(3), of m] r(4) first_el [OF assms(1,3), of m] by (auto simp: text_below_def split: option.splits)
  moreover have "child_text ops d' (h x) m = Ok None" if "xml_first ops d x m = None" for m
    using that r(3) [OF assms(3), of m] by (simp add: child_text_def)
  ultimately show ?thesis
    using r(1,2) r(3) [OF root_el [OF assms(1,2)], of a] assms(2,4) by (intro exI [of _ d'] exI [of _ "h root"] exI [of _ "h x"])
      (simp add: child_text_below)
qed

end

text \<open>
  C33: the PIN state survives a restart, but for the attempts of PIN2. After
  \<^verbatim>\<open>SavePinStateToIccProfile\<close>, initialising from the file that was saved gives back PIN1 and its PUK with
  both counters, PIN2, its PUK and the PUK2 counter, and the state: waiting for the PUK when it was,
  waiting for the PIN when the lock \<^verbatim>\<open>SC\<close> is enabled, ready otherwise. The counter of PIN2 comes back
  only if the profile had one before: a new one is appended under the name of the PIN1 counter, where
  it is never read, and PIN2 has three attempts again. Of the XML library the theorem uses the laws of
  \<open>xml_document\<close>, for codes that are plain text, which digits are.
\<close>

theorem pin_state_saved_and_restored:
  assumes "xml_document ops ok el" and "ok (doc s)" and "xml_root ops (doc s) = Some root" and "s' = SavePinStateToIccProfile ops s"
    and "\<forall>p\<in>{pin1_status s, pin2_status s}. in_int (pin_remaining_times p) \<and> in_int (puk_remaining_times p) \<and>
      plain_text (pin p) \<and> plain_text (puk p)"
  shows "\<exists>s''. InitializeSimFileSystemAndSimState ops (Option.bind (saved_doc s') (xml_reload ops)) s' = Ok s'' \<and>
    pin1_status s'' = pin1_status s \<and>
    pin2_status s'' = (pin2_status s)\<lparr>pin_remaining_times :=
      (if has_pin2_attempts ops s root then pin_remaining_times (pin2_status s) else 3)\<rparr> \<and>
    sim_status s'' = (if sim_status s = SIM_STATUS_PUK then SIM_STATUS_PUK
                      else if lock_enabled s ''SC'' then SIM_STATUS_PIN else SIM_STATUS_READY)"
proof -
  obtain x d where xd: "(x, d) = (case xml_first ops (doc s) root ''PinProfile'' of
      None \<Rightarrow> xml_append ops root ''PinProfile'' (doc s) | Some x \<Rightarrow> (x, doc s))"
    by (metis surj_pair)
  note prof = xml_document.profile_element [OF assms(1-3) xd]
  then have placed: "xml_document.placed ok el d x" "xml_document.placed ok el d root" by (simp_all add: xml_document.placed_def [OF assms(1)])
  let ?d = "save_pins ops s x d"
  note frame = xml_document.save_pins_frame [OF assms(1) placed(1), where s = s]
  have pin2: "xml_first ops ?d x ''PIN2REMAINTIMES'' = None \<longleftrightarrow> \<not> has_pin2_attempts ops s root"
    using prof frame(4) by (simp add: has_pin2_attempts_def split: option.splits)
  have d: "ok ?d" "xml_root ops ?d = Some root" "el ?d x" "xml_first ops ?d root ''PinProfile'' = Some x"
    using prof frame(2) frame(1) [OF placed(1)] frame(3) [OF placed(2)] by (auto simp: xml_document.placed_def [OF assms(1)])
  obtain d' root' x' where r: "xml_reload ops ?d = Some d'" "xml_root ops d' = Some root'" "xml_first ops d' root' ''PinProfile'' = Some x'"
      "\<And>m t. text_below ops ?d x m = Some t \<Longrightarrow> plain_text t \<Longrightarrow> child_text ops d' x' m = Ok (Some t)"
      "\<And>m. xml_first ops ?d x m = None \<Longrightarrow> child_text ops d' x' m = Ok None"
    using xml_document.reloaded_profile [OF assms(1) d] by blast
  have s': "saved_doc s' = Some ?d" "s' = s\<lparr>doc := ?d, saved_doc := Some ?d\<rparr>"
    using assms(3,4) xd [symmetric] by (simp_all add: SavePinStateToIccProfile_def save_pins_def Let_def)
  note texts = xml_document.saved_texts [OF assms(1) placed(1), where s = s, THEN r(4)]
  show ?thesis
    using s' assms(5) pin2 r(1-3) r(5) [of "''PIN2REMAINTIMES''"] texts(8) plain_pin_state [of s] frame(4)
    by (auto simp: InitializeSimFileSystemAndSimState_def read_pin_def child_or_def child_int_def texts plain_to_string stoi_to_string
        pin_state_text_def default_pin_def kSimPinMaxRetryTimes_def)
qed


subsection \<open>The phone number\<close>

lemma length_StringToBCD: "length (StringToBCD s) = 2 * ((length s + 1) div 2)"
  by (induction s rule: StringToBCD.induct) auto

lemma follow_path_SetText [simp]: "follow_path (SetText x t d) p path = follow_path d p path"
  by (induction d p path rule: follow_path.induct)
    (subst (1 2) follow_path.simps, simp split: option.split)

text \<open>
  The phone number is read back. On a profile with the element of EF MSISDN and a record of at
  least 28 characters, \<^verbatim>\<open>SetPhoneNumber\<close> accepts every number of one to eleven characters (that does
  not end in the filler \<^verbatim>\<open>F\<close>), \<^verbatim>\<open>GetPhoneNumber\<close> then returns it, the document was saved, and the
  length of the record and its alpha identifier are unchanged. A longer number is refused without a
  change.
\<close>

theorem phone_number_read_back:
  assumes "GetPhoneNumberElement s = Some x" and "dom_text (doc s) x = Some record" and "28 \<le> length record"
    and "num \<noteq> []" and "length num \<le> 11" and "last num \<noteq> CHR ''F''" and "11 < length long"
  shows "\<exists>s' record'. SetPhoneNumber num s = Ok (True, s') \<and> GetPhoneNumber s' = Ok num \<and>
    saved_doc s' = Some (doc s') \<and> dom_text (doc s') x = Some record' \<and> length record' = length record \<and>
    take (length record - 28) record' = take (length record - 28) record \<and>
    SetPhoneNumber long s = Ok (False, s)"
proof -
  define bcd where "bcd = StringToBCD num"
  define fo where "fo = length record - 28"
  define n where "n = (length bcd + 2) div 2"
  define r where "r = (take (fo + 4) record @ bcd @ drop (fo + 4 + length bcd) record)
      [fo := char_of (48 + n div 16), fo + 1 := char_of (48 + n mod 16)]"
  have len: "length bcd = 2 * ((length num + 1) div 2)" by (simp add: bcd_def length_StringToBCD)
  then have n: "n = (length num + 1) div 2 + 1" "n \<le> 7" "2 * n = length bcd + 2" using assms(5) by (simp_all add: n_def)
  have r: "length r = length record" "r ! fo = char_of (48 + (0::nat))" "r ! (fo + 1) = char_of (48 + n)"
    "take fo r = take fo record" "take (length bcd) (drop (fo + 4) r) = bcd"
    using assms(3) len n by (simp_all add: r_def fo_def)
  have "digit_minus_0 (r ! fo) = 0" "digit_minus_0 (r ! (fo + 1)) = int n"
    using r(2,3) n(2) by (simp_all add: digit_minus_0_def Let_def)
  moreover have "0 < (length num + 1) div 2" using assms(4) by (cases num) simp_all
  then have "bcd \<noteq> []" "int n * 2 - 2 = int (length bcd)" using len n by auto
  ultimately have "record_number r = Ok (Some (BCDToString bcd))"
    using assms(3) r n by (simp add: record_number_def Let_def fo_def [symmetric])
  then have rec: "record_number r = Ok (Some num)"
    using BCDToString_StringToBCD [OF assms(4,6)] by (simp add: bcd_def)
  define s' where "s' = s\<lparr>doc := SetText x r (doc s), saved_doc := Some (SetText x r (doc s))\<rparr>"
  have "SetPhoneNumber num s = Ok (True, s')"
    using assms(1-3,5) by (simp add: SetPhoneNumber_def GetText_def Let_def s'_def r_def fo_def n_def bcd_def)
  moreover have "GetPhoneNumberElement s' = Some x"
    using assms(1) by (simp add: GetPhoneNumberElement_def s'_def Let_def cong: option.case_cong)
  ultimately show ?thesis using rec r assms(7)
    by (simp add: GetPhoneNumber_def GetText_def s'_def fo_def SetPhoneNumber_def)
qed

subsection \<open>A concrete SIM\<close>

text \<open>
  A profile with the application A0, the master file 3F00 with the directory 7FFF, EF MSISDN there with
  one record, and no PIN profile; the SIM is ready, with the lock \<^verbatim>\<open>SC\<close> disabled.
\<close>

definition sample_record :: string where
  "sample_record = ''AB06815155255155FFFFFFFFFFFFFF''"

definition sample_dom :: dom where
  "sample_dom = \<lparr>dom_root = Some 0,
     dom_children = (\<lambda>x. if x = 0 then [1, 2] else if x = 1 then [3] else if x = 3 then [4] else if x = 4 then [5] else []),
     dom_name = (\<lambda>x. if x = 0 then ''IccProfile'' else if x = 5 then ''SIMIO'' else ''EF''),
     dom_attribute = (\<lambda>x. if x = 1 then [''path'' \<mapsto> ''3F00''] else if x = 2 then [''aid'' \<mapsto> ''A0'']
       else if x = 3 then [''path'' \<mapsto> ''7FFF''] else if x = 4 then [''id'' \<mapsto> ''6F40'']
       else if x = 5 then [''cmd'' \<mapsto> ''B2''] else (\<lambda>_. None)),
     dom_text = [5 \<mapsto> sample_record],
     dom_next = 6\<rparr>"

definition sample_sim :: sim_service where
  "sample_sim = \<lparr>sim_status = SIM_STATUS_READY, pin1_status = default_pin, pin2_status = default_pin,
     facility_lock = map (\<lambda>n. (n, False)) lock_names,
     logical_channels = map (\<lambda>i. \<lparr>df_name = [], channel_is_open = False, session_id = i\<rparr>) [1, 2, 3],
     last_file_id = [], cdma_subscription_source = None, cdma_roaming_preference = None, doc = sample_dom,
     saved_doc = None\<rparr>"

lemma dom_ok_sample: "dom_ok sample_dom"
  by (simp add: dom_ok_def sample_dom_def)

lemma init_sample: "init_sim_service default_pin default_pin (Some sample_dom) = Ok sample_sim"
  by (simp add: init_sim_service_def InitializeSimFileSystemAndSimState_def InitializeFacilityLock_def sample_sim_def
      sample_dom_def FirstChildElement_def Let_def)

lemma sample_GetPhoneNumberElement: "GetPhoneNumberElement sample_sim = Some 5"
  by code_simp

theorem pin_state_saved_and_restored_witness:
  "\<exists>s''. InitializeSimFileSystemAndSimState dom_xml
      (Option.bind (saved_doc (SavePinStateToIccProfile dom_xml (sample_sim\<lparr>pin2_status := default_pin\<lparr>pin_remaining_times := 1\<rparr>\<rparr>)))
        (xml_reload dom_xml))
      (SavePinStateToIccProfile dom_xml (sample_sim\<lparr>pin2_status := default_pin\<lparr>pin_remaining_times := 1\<rparr>\<rparr>)) = Ok s'' \<and>
    pin1_status s'' = default_pin \<and> pin2_status s'' = default_pin \<and> sim_status s'' = SIM_STATUS_READY"
proof -
  let ?s = "sample_sim\<lparr>pin2_status := default_pin\<lparr>pin_remaining_times := 1\<rparr>\<rparr>"
  have s: "dom_ok (doc ?s)" "xml_root dom_xml (doc ?s) = Some 0" "\<not> has_pin2_attempts dom_xml ?s 0" "\<not> lock_enabled ?s ''SC''"
    using dom_ok_sample
    by (simp_all add: sample_sim_def sample_dom_def has_pin2_attempts_def FirstChildElement_def lock_enabled_def lock_names_def)
  have p: "\<forall>p\<in>{pin1_status ?s, pin2_status ?s}. in_int (pin_remaining_times p) \<and> in_int (puk_remaining_times p) \<and>
      plain_text (pin p) \<and> plain_text (puk p)"
    by (simp add: sample_sim_def default_pin_def kSimPinMaxRetryTimes_def kSimPukMaxRetryTimes_def in_int_def plain_text_def)
  show ?thesis using pin_state_saved_and_restored [OF store.xml_document_axioms s(1,2) refl p] s(3,4)
    by (simp add: sample_sim_def default_pin_def kSimPinMaxRetryTimes_def)
qed

lemma sample_msisdn: "dom_text (doc sample_sim) 5 = Some sample_record"
  by (simp add: sample_sim_def sample_dom_def)

lemma length_sample_record: "length sample_record = 30"
  by (simp add: sample_record_def)

theorem phone_number_read_back_witness:
  "\<exists>s' record'. SetPhoneNumber ''6505550'' sample_sim = Ok (True, s') \<and> GetPhoneNumber s' = Ok ''6505550'' \<and>
    saved_doc s' = Some (doc s') \<and> dom_text (doc s') 5 = Some record' \<and> length record' = 30 \<and>
    take 2 record' = take 2 sample_record \<and> SetPhoneNumber ''123456789012'' sample_sim = Ok (False, sample_sim)"
  using phone_number_read_back [OF sample_GetPhoneNumberElement sample_msisdn, of "''6505550''" "''123456789012''"]
  by (simp add: length_sample_record)

end
