(* ===== verification/Sim_Properties.thy ===== *)
theory Sim_Properties
  imports Sim_Profile
begin

section \<open>Properties of the SIM\<close>

text \<open>
  The retry counters of PIN and PUK over any number of attempts, the table of logical channels, saving
  and reading back the PIN state and the phone number.
\<close>

subsection \<open>Frames\<close>

lemma fst_reply_sim [simp]: "fst (reply_sim c rs st) = fst st"
  by (simp add: reply_sim_def split: prod.split)

lemma fst_SimOnSimStatusChanged [simp]: "fst (SimOnSimStatusChanged st) = fst st"
  by (simp add: SimOnSimStatusChanged_def split: prod.split)

lemma fst_pin_reply [simp]: "fst (pin_reply c r) = fst (snd r)"
  by (simp add: pin_reply_def)

lemmas SkipPrefix_CPIN [simp] = SkipPrefix_append [of "''AT+CPIN''", simplified]

lemma sim_update_same:
  "sim_status s = v \<Longrightarrow> s\<lparr>sim_status := v\<rparr> = s"
  "pin1_status s = p \<Longrightarrow> s\<lparr>pin1_status := p\<rparr> = s"
  by (cases s; simp)+

subsection \<open>Entering a PIN\<close>

definition well_formed_pin :: "string \<Rightarrow> bool" where
  "well_formed_pin p \<longleftrightarrow> 4 \<le> length p \<and> length p \<le> 8 \<and> CheckPasswordValid p"

definition well_formed_puk :: "string \<Rightarrow> bool" where
  "well_formed_puk p \<longleftrightarrow> length p = 8 \<and> CheckPasswordValid p"

definition enter :: "nat \<Rightarrow> string \<Rightarrow> sim_state \<Rightarrow> sim_state" where
  "enter c entry st = HandleChangeOrEnterPIN c (''AT+CPIN='' @ entry) st"

lemma VerifyPIN_cases:
  "VerifyPIN p st =
     (if well_formed_pin p \<and> 0 < pin_remaining_times st
      then if p = pin st then (True, st\<lparr>pin_remaining_times := 3\<rparr>)
           else (False, st\<lparr>pin_remaining_times := pin_remaining_times st - 1\<rparr>)
      else (False, st))"
  by (auto simp: VerifyPIN_def well_formed_pin_def kSimPinMaxRetryTimes_def)

lemma VerifyPUK_cases:
  "VerifyPUK p st =
     (if well_formed_puk p \<and> 0 < puk_remaining_times st
      then if p = puk st then (True, st\<lparr>pin_remaining_times := 3, puk_remaining_times := 10\<rparr>)
           else (False, st\<lparr>puk_remaining_times := puk_remaining_times st - 1\<rparr>)
      else (False, st))"
  by (auto simp: VerifyPUK_def well_formed_puk_def kSimPinMaxRetryTimes_def kSimPukMaxRetryTimes_def)

lemma enter_while_pin:
  assumes "sim_status (fst st) = SIM_STATUS_PIN"
  shows "fst (enter c p st) = fst (snd (checkPin1AndAdjustSimStatus p st))"
  using assms by (simp add: enter_def HandleChangeOrEnterPIN_def split_beta)

lemma enter_while_puk:
  assumes "sim_status (fst st) = SIM_STATUS_PUK" and "CHR '','' \<notin> set p"
  shows "fst (enter c p st) = fst st"
    and "fst (enter c (p @ '','' @ q) st) = fst (snd (ChangePin1AndAdjustSimStatus WITH_PUK p q st))"
  using assms GetNextStr_flag_append [of "CHR '',''" p q]
  by (simp_all add: enter_def HandleChangeOrEnterPIN_def split_beta Let_def del: GetNextStr_flag_append)

text \<open>One wrong attempt.\<close>

lemma enter_wrong_pin:
  assumes "sim_status (fst st) = SIM_STATUS_PIN" and "p \<noteq> pin (pin1_status (fst st))"
    and "0 < pin_remaining_times (pin1_status (fst st))"
  shows "fst (enter c p st) =
    (if well_formed_pin p
     then (fst st)\<lparr>pin1_status := (pin1_status (fst st))\<lparr>pin_remaining_times := pin_remaining_times (pin1_status (fst st)) - 1\<rparr>,
            sim_status := (if pin_remaining_times (pin1_status (fst st)) = 1 then SIM_STATUS_PUK else SIM_STATUS_PIN)\<rparr>
     else fst st)"
  using assms enter_while_pin [OF assms(1)]
  by (auto simp: checkPin1AndAdjustSimStatus_def VerifyPIN_cases Let_def split: prod.splits)

lemma enter_right_pin:
  assumes "sim_status (fst st) = SIM_STATUS_PIN" and "well_formed_pin (pin (pin1_status (fst st)))"
    and "0 < pin_remaining_times (pin1_status (fst st))"
  shows "fst (enter c (pin (pin1_status (fst st))) st) =
    (fst st)\<lparr>pin1_status := (pin1_status (fst st))\<lparr>pin_remaining_times := 3\<rparr>, sim_status := SIM_STATUS_READY\<rparr>"
  using assms enter_while_pin [OF assms(1)]
  by (auto simp: checkPin1AndAdjustSimStatus_def VerifyPIN_cases Let_def split: prod.splits)

definition after_wrong_pins :: "int \<Rightarrow> PinStatus \<Rightarrow> sim_service \<Rightarrow> bool" where
  "after_wrong_pins r p s \<longleftrightarrow>
     pin1_status s = p\<lparr>pin_remaining_times := max 0 r\<rparr> \<and>
     sim_status s = (if r \<le> 0 then SIM_STATUS_PUK else SIM_STATUS_PIN)"

lemma enter_keeps_after_wrong_pins:
  assumes "after_wrong_pins r p0 (fst st)" and "p \<noteq> pin p0" and "CHR '','' \<notin> set p"
  shows "after_wrong_pins (if well_formed_pin p then r - 1 else r) p0 (fst (enter c p st))"
proof (cases "r \<le> 0")
  case True
  then show ?thesis using assms enter_while_puk(1) [of st p c] by (auto simp: after_wrong_pins_def)
next
  case False
  then have "fst (enter c p st) =
    (if well_formed_pin p
     then (fst st)\<lparr>pin1_status := p0\<lparr>pin_remaining_times := r - 1\<rparr>,
            sim_status := (if r = 1 then SIM_STATUS_PUK else SIM_STATUS_PIN)\<rparr>
     else fst st)"
    using assms enter_wrong_pin [of st p c] by (auto simp: after_wrong_pins_def)
  then show ?thesis using False assms(1) by (auto simp: after_wrong_pins_def)
qed

lemma fold_wrong_pins:
  assumes "\<forall>p\<in>set guesses. p \<noteq> pin p0 \<and> CHR '','' \<notin> set p" and "after_wrong_pins r p0 (fst st)"
  shows "after_wrong_pins (r - int (length (filter well_formed_pin guesses))) p0 (fst (fold (enter c) guesses st))"
  using assms
proof (induction guesses arbitrary: st r)
  case (Cons g gs)
  then have "after_wrong_pins (if well_formed_pin g then r - 1 else r) p0 (fst (enter c g st))"
    using enter_keeps_after_wrong_pins [of r p0 st g c] by simp
  then show ?case using Cons.IH [of "if well_formed_pin g then r - 1 else r"] Cons.prems(1)
    by (simp add: algebra_simps split: if_splits)
qed simp

text \<open>
  C5: the PIN cannot be guessed. From a SIM that waits for its PIN with \<open>r\<close> attempts left, after any
  sequence of wrong entries (without a comma) of which \<open>k\<close> have the form of a PIN, the counter is
  \<open>r - k\<close> but at least 0, and the SIM waits for the PUK exactly when \<open>k \<ge> r\<close>; it is never ready. While
  attempts remain the right PIN makes it ready with three attempts; after that even the right PIN
  changes nothing.
\<close>

theorem pin_lockout:
  assumes "sim_status (fst st) = SIM_STATUS_PIN" and "pin1_status (fst st) = p0"
    and "r = pin_remaining_times p0" and "0 < r" and "well_formed_pin (pin p0)"
    and "\<forall>p\<in>set guesses. p \<noteq> pin p0 \<and> CHR '','' \<notin> set p"
    and "k = int (length (filter well_formed_pin guesses))" and "st' = fold (enter c) guesses st"
  shows "pin1_status (fst st') = p0\<lparr>pin_remaining_times := max 0 (r - k)\<rparr> \<and>
    sim_status (fst st') = (if r \<le> k then SIM_STATUS_PUK else SIM_STATUS_PIN) \<and>
    sim_status (fst (enter c (pin p0) st')) = (if r \<le> k then SIM_STATUS_PUK else SIM_STATUS_READY) \<and>
    pin_remaining_times (pin1_status (fst (enter c (pin p0) st'))) = (if r \<le> k then 0 else 3)"
proof -
  have "after_wrong_pins (r - k) p0 (fst st')"
    using fold_wrong_pins [of guesses p0 r st c] assms by (simp add: after_wrong_pins_def)
  then have st': "pin1_status (fst st') = p0\<lparr>pin_remaining_times := max 0 (r - k)\<rparr>"
      "sim_status (fst st') = (if r \<le> k then SIM_STATUS_PUK else SIM_STATUS_PIN)"
    by (simp_all add: after_wrong_pins_def)
  have "CHR '','' \<notin> set (pin p0)"
    using assms(5) by (auto simp: well_formed_pin_def CheckPasswordValid_def list_all_iff)
  then show ?thesis using st' assms(5) enter_while_puk(1) [of st' "pin p0" c] enter_right_pin [of st' c]
    by (auto split: if_splits)
qed

subsection \<open>Entering a PUK\<close>

definition enter_puk :: "nat \<Rightarrow> string \<times> string \<Rightarrow> sim_state \<Rightarrow> sim_state" where
  "enter_puk c attempt st = enter c (fst attempt @ '','' @ snd attempt) st"

definition counts :: "string \<times> string \<Rightarrow> bool" where
  "counts attempt \<longleftrightarrow> well_formed_puk (fst attempt) \<and> 4 \<le> length (snd attempt) \<and> length (snd attempt) \<le> 8"

lemma ChangePIN_WITH_PUK:
  "ChangePIN WITH_PUK k q st =
     (if counts (k, q) \<and> 0 < puk_remaining_times st
      then if k \<noteq> puk st then (False, st\<lparr>puk_remaining_times := puk_remaining_times st - 1\<rparr>)
           else if CheckPasswordValid q
           then (True, st\<lparr>pin := q, pin_remaining_times := 3, puk_remaining_times := 10\<rparr>)
           else (False, st\<lparr>pin_remaining_times := 3, puk_remaining_times := 10\<rparr>)
      else (False, st))"
  by (auto simp: ChangePIN_def counts_def VerifyPUK_cases Let_def)

lemma enter_puk_result:
  assumes "sim_status (fst st) = SIM_STATUS_PUK" and "CHR '','' \<notin> set k"
  shows "fst (enter_puk c (k, q) st) =
    (case ChangePIN WITH_PUK k q (pin1_status (fst st)) of (ok, p1) \<Rightarrow>
       (fst st)\<lparr>pin1_status := p1, sim_status := (if ok then SIM_STATUS_READY else SIM_STATUS_PUK)\<rparr>)"
  using assms enter_while_puk(2) [OF assms, of c q]
  by (auto simp: enter_puk_def ChangePin1AndAdjustSimStatus_def Let_def split: prod.splits)

lemma fold_wrong_puks:
  assumes "\<forall>a\<in>set attempts. fst a \<noteq> puk p0 \<and> CHR '','' \<notin> set (fst a)" and "0 \<le> r"
    and "sim_status (fst st) = SIM_STATUS_PUK" and "pin1_status (fst st) = p0\<lparr>puk_remaining_times := r\<rparr>"
  shows "fst (fold (enter_puk c) attempts st) =
    (fst st)\<lparr>pin1_status := p0\<lparr>puk_remaining_times := max 0 (r - int (length (filter counts attempts)))\<rparr>\<rparr>"
  using assms
proof (induction attempts arbitrary: st r)
  case Nil
  then show ?case by (simp add: sim_update_same)
next
  case (Cons a as)
  define r' where "r' = (if counts a \<and> 0 < r then r - 1 else r)"
  have "fst (enter_puk c a st) = (fst st)\<lparr>pin1_status := p0\<lparr>puk_remaining_times := r'\<rparr>, sim_status := SIM_STATUS_PUK\<rparr>"
    using Cons.prems enter_puk_result [of st "fst a" c "snd a"]
    by (auto simp: ChangePIN_WITH_PUK r'_def split: if_splits)
  moreover have "0 \<le> r'" using Cons.prems(2) by (simp add: r'_def)
  ultimately have "fst (fold (enter_puk c) as (enter_puk c a st)) =
    (fst st)\<lparr>sim_status := SIM_STATUS_PUK, pin1_status := p0\<lparr>puk_remaining_times := max 0 (r' - int (length (filter counts as)))\<rparr>\<rparr>"
    using Cons.IH [of r' "enter_puk c a st"] Cons.prems(1) by simp
  moreover have "max 0 (r' - int (length (filter counts as))) = max 0 (r - int (length (filter counts (a # as))))"
    using Cons.prems(2) by (auto simp: r'_def)
  ultimately show ?case using sim_update_same(1) [OF Cons.prems(3)] by simp
qed

text \<open>
  The PUK cannot be guessed, and a SIM whose PUK attempts are used up stays in the PUK state. From
  a SIM that waits for its PUK with \<open>r\<close> attempts left, after any sequence of attempts
  \<^verbatim>\<open>AT+CPIN=puk,newpin\<close> with wrong PUKs, of which \<open>k\<close> count (eight digits and a new PIN of four to
  eight characters), only the counter has changed, to \<open>r - k\<close> but at least 0. While attempts remain the
  right PUK with a new PIN makes the SIM ready with the new PIN and full counters. With no attempt left
  every later entry leaves the SIM waiting for the PUK: it never becomes absent.
\<close>

theorem puk_lockout:
  assumes "sim_status (fst st) = SIM_STATUS_PUK" and "pin1_status (fst st) = p0"
    and "r = puk_remaining_times p0" and "0 \<le> r" and "well_formed_puk (puk p0)" and "well_formed_pin q"
    and "\<forall>a\<in>set attempts. fst a \<noteq> puk p0 \<and> CHR '','' \<notin> set (fst a)"
    and "k = int (length (filter counts attempts))" and "st' = fold (enter_puk c) attempts st"
  shows "fst st' = (fst st)\<lparr>pin1_status := p0\<lparr>puk_remaining_times := max 0 (r - k)\<rparr>\<rparr> \<and>
    fst (enter_puk c (puk p0, q) st') =
      (if r \<le> k then fst st'
       else (fst st)\<lparr>sim_status := SIM_STATUS_READY,
              pin1_status := p0\<lparr>pin := q, pin_remaining_times := 3, puk_remaining_times := 10\<rparr>\<rparr>)"
proof -
  have "pin1_status (fst st) = p0\<lparr>puk_remaining_times := r\<rparr>" using assms(2,3) by simp
  then have st': "fst st' = (fst st)\<lparr>pin1_status := p0\<lparr>puk_remaining_times := max 0 (r - k)\<rparr>\<rparr>"
    using fold_wrong_puks [of attempts p0 r st c] assms(1,4,7,8,9) by simp
  have "CHR '','' \<notin> set (puk p0)"
    using assms(5) by (auto simp: well_formed_puk_def CheckPasswordValid_def list_all_iff)
  moreover have "counts (puk p0, q)" using assms(5,6) by (simp add: counts_def well_formed_pin_def)
  moreover have "CheckPasswordValid q" using assms(6) by (simp add: well_formed_pin_def)
  ultimately have "fst (enter_puk c (puk p0, q) st') =
      (if r \<le> k then (fst st')\<lparr>sim_status := SIM_STATUS_PUK\<rparr>
       else (fst st)\<lparr>sim_status := SIM_STATUS_READY,
              pin1_status := p0\<lparr>pin := q, pin_remaining_times := 3, puk_remaining_times := 10\<rparr>\<rparr>)"
    using enter_puk_result [of st' "puk p0" c q] st' assms(1) by (auto simp: ChangePIN_WITH_PUK)
  moreover have "sim_status (fst st') = SIM_STATUS_PUK" using st' assms(1) by simp
  ultimately show ?thesis using st' by (metis sim_update_same(1))
qed

subsection \<open>Changing the PIN of a ready SIM\<close>

lemma enter_change:
  assumes "sim_status (fst st) = SIM_STATUS_READY" and "CHR '','' \<notin> set p"
  shows "fst (enter c (p @ '','' @ q) st) = fst (snd (ChangePin1AndAdjustSimStatus WITH_PIN p q st))"
  using assms GetNextStr_flag_append [of "CHR '',''" p q]
  by (simp add: enter_def HandleChangeOrEnterPIN_def split_beta Let_def del: GetNextStr_flag_append)

lemma ChangePIN_WITH_PIN:
  "4 \<le> length q \<Longrightarrow> length q \<le> 8 \<Longrightarrow> ChangePIN WITH_PIN p q st =
     (if fst (VerifyPIN p st) \<and> CheckPasswordValid q then (True, (snd (VerifyPIN p st))\<lparr>pin := q\<rparr>)
      else (False, snd (VerifyPIN p st)))"
  by (auto simp: ChangePIN_def Let_def split: prod.splits)

text \<open>
  \<^verbatim>\<open>AT+CPIN=old,new\<close> on a ready SIM. The right old PIN installs the new one and resets the
  counter. A wrong one takes one attempt; when it takes the last, the SIM asks for the PIN again, with
  no attempt left, and the next entry without a comma, the right PIN included, turns it to the PUK
  state.
\<close>

theorem change_pin_outcomes:
  assumes "sim_status (fst st) = SIM_STATUS_READY" and "pin1_status (fst st) = p0" and "0 < pin_remaining_times p0"
    and "well_formed_pin old" and "well_formed_pin new_pin" and "CHR '','' \<notin> set e"
    and "st' = enter c (old @ '','' @ new_pin) st"
  shows "fst st' =
      (if old = pin p0
       then (fst st)\<lparr>pin1_status := p0\<lparr>pin := new_pin, pin_remaining_times := 3\<rparr>, sim_status := SIM_STATUS_READY\<rparr>
       else if pin_remaining_times p0 = 1
       then (fst st)\<lparr>pin1_status := p0\<lparr>pin_remaining_times := 0\<rparr>, sim_status := SIM_STATUS_PIN\<rparr>
       else (fst st)\<lparr>pin1_status := p0\<lparr>pin_remaining_times := pin_remaining_times p0 - 1\<rparr>\<rparr>) \<and>
    (old = pin p0 \<or> pin_remaining_times p0 \<noteq> 1 \<or>
      fst (enter c e st') = (fst st)\<lparr>pin1_status := p0\<lparr>pin_remaining_times := 0\<rparr>, sim_status := SIM_STATUS_PUK\<rparr>)"
proof -
  have "CHR '','' \<notin> set old"
    using assms(4) by (auto simp: well_formed_pin_def CheckPasswordValid_def list_all_iff)
  then have eq: "fst st' = fst (snd (ChangePin1AndAdjustSimStatus WITH_PIN old new_pin st))"
    using enter_change [OF assms(1)] assms(7) by simp
  have new: "CheckPasswordValid new_pin" "4 \<le> length new_pin" "length new_pin \<le> 8"
    using assms(5) by (simp_all add: well_formed_pin_def)
  obtain s ne where st: "st = (s, ne)" by (cases st)
  have st': "fst st' =
      (if old = pin p0
       then s\<lparr>pin1_status := p0\<lparr>pin := new_pin, pin_remaining_times := 3\<rparr>, sim_status := SIM_STATUS_READY\<rparr>
       else if pin_remaining_times p0 = 1
       then s\<lparr>pin1_status := p0\<lparr>pin_remaining_times := 0\<rparr>, sim_status := SIM_STATUS_PIN\<rparr>
       else s\<lparr>pin1_status := p0\<lparr>pin_remaining_times := pin_remaining_times p0 - 1\<rparr>\<rparr>)"
    unfolding eq using assms(1-4) new
    by (cases "old = pin p0"; cases "pin_remaining_times p0 = 1")
      (simp_all add: st ChangePin1AndAdjustSimStatus_def ChangePIN_WITH_PIN VerifyPIN_cases Let_def)
  have "fst (enter c e st') = s\<lparr>pin1_status := p0\<lparr>pin_remaining_times := 0\<rparr>, sim_status := SIM_STATUS_PUK\<rparr>"
    if "old \<noteq> pin p0" "pin_remaining_times p0 = 1"
    using st' that enter_while_pin [of st' c e]
    by (cases st') (simp add: checkPin1AndAdjustSimStatus_def VerifyPIN_cases Let_def)
  then show ?thesis using st' by (auto simp: st)
qed

subsection \<open>Logical channels\<close>

definition channels_ok :: "sim_service \<Rightarrow> bool" where
  "channels_ok s \<longleftrightarrow> map session_id (logical_channels s) = [1, 2, 3] \<and>
     (\<forall>ch\<in>set (logical_channels s). \<not> channel_is_open ch \<longrightarrow> df_name ch = [])"

lemma InitializeSimFileSystemAndSimState_channels:
  "InitializeSimFileSystemAndSimState ops d s = Ok s' \<Longrightarrow> logical_channels s' = logical_channels s"
  by (auto simp: InitializeSimFileSystemAndSimState_def bind_result_Inr_iff split: option.splits)

lemma init_channels_ok: "init_sim_service j1 j2 loaded = Ok s \<Longrightarrow> channels_ok s"
  by (auto simp: init_sim_service_def bind_result_Inr_iff channels_ok_def)

lemma find_channel_Some:
  "find_channel P chs = Some i \<Longrightarrow> i < length chs \<and> P (chs ! i) \<and> (\<forall>j<i. \<not> P (chs ! j))"
  by (induction chs arbitrary: i) (auto split: if_splits simp: less_Suc_eq_0_disj)

lemma find_channel_None: "find_channel P chs = None \<longleftrightarrow> (\<forall>ch\<in>set chs. \<not> P ch)"
  by (induction chs) auto

lemma closed_channel_id:
  "\<not> channel_is_open ch \<Longrightarrow> df_name ch = [] \<Longrightarrow> ch\<lparr>channel_is_open := False, df_name := []\<rparr> = ch"
  by (cases ch) simp

lemma channel_update_ok:
  assumes "channels_ok s" and "i < length (logical_channels s)"
    and "session_id ch = session_id (logical_channels s ! i)" and "\<not> channel_is_open ch \<longrightarrow> df_name ch = []"
  shows "channels_ok (s\<lparr>logical_channels := (logical_channels s)[i := ch]\<rparr>)"
proof -
  have "map session_id ((logical_channels s)[i := ch]) = map session_id (logical_channels s)"
    unfolding map_update assms(3) using assms(2) by (metis list_update_id nth_map)
  moreover have "\<forall>x\<in>set ((logical_channels s)[i := ch]). \<not> channel_is_open x \<longrightarrow> df_name x = []"
    using assms(1,4) set_update_subset_insert [of "logical_channels s" i ch] unfolding channels_ok_def by blast
  ultimately show ?thesis using assms(1) unfolding channels_ok_def by simp
qed

lemma channel_ops_ok [inv_intros]:
  "channels_ok s \<Longrightarrow> i < length (logical_channels s) \<Longrightarrow> channels_ok (open_channel i name s)"
  "channels_ok s \<Longrightarrow> i < length (logical_channels s) \<Longrightarrow> channels_ok (close_channel i s)"
  unfolding open_channel_def close_channel_def by (rule channel_update_ok; simp)+

lemma channels_frame [simp]:
  "logical_channels (fst (snd (checkPin1AndAdjustSimStatus p st))) = logical_channels (fst st)"
  "logical_channels (fst (snd (ChangePin1AndAdjustSimStatus m p q st))) = logical_channels (fst st)"
  "logical_channels (fst (snd (verify_pin2 p st))) = logical_channels (fst st)"
  "logical_channels (fst (after_password c l b r)) = logical_channels (fst (snd r))"
  by (auto simp: checkPin1AndAdjustSimStatus_def ChangePin1AndAdjustSimStatus_def verify_pin2_def after_password_def
      set_lock_def Let_def split: prod.splits)

lemma channels_ok_cong: "logical_channels s' = logical_channels s \<Longrightarrow> channels_ok s' = channels_ok s"
  by (simp add: channels_ok_def)

lemma channels_of_file_commands:
  "HandleSIM_IO c command st = Ok st' \<Longrightarrow> logical_channels (fst st') = logical_channels (fst st)"
  "HandleTransmitLogicalChannel c command st = Ok st' \<Longrightarrow> logical_channels (fst st') = logical_channels (fst st)"
  "HandlePhoneNumberUpdate command st = Ok st' \<Longrightarrow> logical_channels (fst st') = logical_channels (fst st)"
  "reply_file_text ps f n c st = Ok st' \<Longrightarrow> logical_channels (fst st') = logical_channels (fst st)"
  by (auto simp: HandleSIM_IO_def HandleTransmitLogicalChannel_def HandlePhoneNumberUpdate_def SetPhoneNumber_def
      reply_file_text_def Let_def split_beta bind_result_Inr_iff split: if_splits option.splits)

lemma channels_of_pin_commands:
  "logical_channels (fst (HandleChangeOrEnterPIN c command st)) = logical_channels (fst st)"
  "logical_channels (fst (HandleFacilityLock c command st)) = logical_channels (fst st)"
  "logical_channels (fst (HandleChangePassword c command st)) = logical_channels (fst st)"
  "logical_channels (fst (HandleSIMStatusReq c st)) = logical_channels (fst st)"
  "logical_channels (fst (HandleQueryRemainTimes c command st)) = logical_channels (fst st)"
  "logical_channels (fst (HandleSimAuthentication c command st)) = logical_channels (fst st)"
  by (simp_all add: HandleChangeOrEnterPIN_def HandleFacilityLock_def HandleChangePassword_def HandleSIMStatusReq_def
      HandleQueryRemainTimes_def HandleSimAuthentication_def Let_def split_beta split: SimStatus.split option.split)

lemma channels_of_cdma_commands:
  "HandleCdmaSubscriptionSource c command st = Ok st' \<Longrightarrow> logical_channels (fst st') = logical_channels (fst st)"
  "HandleCdmaRoamingPreference c command st = Ok st' \<Longrightarrow> logical_channels (fst st') = logical_channels (fst st)"
  by (auto simp: HandleCdmaSubscriptionSource_def HandleCdmaRoamingPreference_def split: prod.splits if_splits option.splits)

lemmas channels_kept = channels_of_file_commands channels_of_pin_commands channels_of_cdma_commands

lemma HandleCSIM_IO_channels:
  assumes "channels_ok (fst st)" and "HandleCSIM_IO c command st = Ok st'"
  shows "channels_ok (fst st')"
proof (cases "find_channel (\<lambda>ch. \<not> channel_is_open ch) (logical_channels (fst st))")
  case None
  then show ?thesis using assms
    by (auto simp: HandleCSIM_IO_def Let_def split_beta bind_result_Inr_iff split: if_splits option.splits)
next
  case (Some i)
  then have "channels_ok (open_channel i ''CSIM'' (fst st))"
    using assms(1) find_channel_Some [OF Some] by (blast intro: inv_intros)
  then show ?thesis using assms Some
    by (auto simp: HandleCSIM_IO_def Let_def split_beta bind_result_Inr_iff split: if_splits option.splits)
qed

lemma channel_commands_ok:
  "channels_ok (fst st) \<Longrightarrow> channels_ok (fst (HandleOpenLogicalChannel c command st))"
  "channels_ok (fst st) \<Longrightarrow> channels_ok (fst (HandleCloseLogicalChannel c command st))"
  by (auto simp: HandleOpenLogicalChannel_def HandleCloseLogicalChannel_def Let_def split_beta
      dest!: find_channel_Some intro: inv_intros split: option.split)

lemma run_sim_command_channels:
  assumes "channels_ok (fst st)" and "run_sim_command c h command st = Ok st'"
  shows "channels_ok (fst st')"
proof (cases "h \<in> {Cmd_CSIM_IO, Cmd_OpenLogicalChannel, Cmd_CloseLogicalChannel}")
  case True
  then show ?thesis using assms by (auto intro: HandleCSIM_IO_channels channel_commands_ok)
next
  case False
  then have "logical_channels (fst st') = logical_channels (fst st)"
    using assms(2)
    by (cases h) (auto simp: channels_kept HandleGetIMSI_def HandleGetIccId_def)
  then show ?thesis using assms(1) channels_ok_cong by blast
qed

lemmas SkipPrefix_CCHO [simp] = SkipPrefix_append [of "''AT+CCHO''", simplified]
lemmas SkipPrefix_CCHC [simp] = SkipPrefix_append [of "''AT+CCHC''", simplified]

lemma session_at: "channels_ok s \<Longrightarrow> i < 3 \<Longrightarrow> session_id (logical_channels s ! i) = int i + 1 \<and> i < length (logical_channels s)"
  by (auto simp: channels_ok_def less_Suc_eq numeral_3_eq_3)

lemma find_session:
  assumes "map session_id chs = [1, 2, 3]" and "i < 3"
  shows "find_channel (\<lambda>ch. session_id ch = int i + 1) chs = Some i"
  using assms by (auto simp: less_Suc_eq numeral_3_eq_3)

lemma open_channel_explicit:
  assumes "channels_ok s" and "i < 3"
  shows "open_channel i name s = s\<lparr>logical_channels :=
    (logical_channels s)[i := \<lparr>df_name = name, channel_is_open = True, session_id = int i + 1\<rparr>]\<rparr>"
  using session_at [OF assms] by (cases "logical_channels s ! i") (simp add: open_channel_def)

lemma close_open_channel:
  assumes "channels_ok s" and "i < 3" and "\<not> channel_is_open (logical_channels s ! i)"
  shows "close_channel i (open_channel i name s) = s"
proof -
  have "df_name (logical_channels s ! i) = []"
    using assms(3) session_at [OF assms(1,2)] assms(1) by (simp add: channels_ok_def)
  then have "(logical_channels s ! i)\<lparr>channel_is_open := False, df_name := []\<rparr> = logical_channels s ! i"
    using assms(3) closed_channel_id by blast
  then show ?thesis using session_at [OF assms(1,2)] by (simp add: open_channel_def close_channel_def)
qed

lemma HandleClose_after_open:
  assumes "channels_ok s" and "i < 3" and "\<not> channel_is_open (logical_channels s ! i)"
  shows "HandleCloseLogicalChannel c (''AT+CCHC='' @ to_string (int i + 1)) (open_channel i name s, ne) =
    reply_sim c [''+CCHC'', ''OK''] (s, ne)"
proof -
  have i: "i < length (logical_channels s)" using session_at [OF assms(1,2)] by simp
  have "channels_ok (open_channel i name s)" using assms(1) i by (rule inv_intros)
  then have "find_channel (\<lambda>ch. session_id ch = int i + 1) (logical_channels (open_channel i name s)) = Some i"
    using assms(2) find_session by (simp add: channels_ok_def)
  moreover have "channel_is_open (logical_channels (open_channel i name s) ! i)"
    using i by (simp add: open_channel_def)
  moreover have "in_int (int i + 1)" using assms(2) by (simp add: in_int_def)
  ultimately show ?thesis using close_open_channel [OF assms]
    by (simp add: HandleCloseLogicalChannel_def)
qed

lemma find_closed:
  assumes "channels_ok s"
  shows "find_channel (\<lambda>ch. \<not> channel_is_open ch) (logical_channels s) =
    (case filter (\<lambda>i. \<not> channel_is_open (logical_channels s ! i)) [0, 1, 2] of [] \<Rightarrow> None | i # _ \<Rightarrow> Some i)"
proof -
  obtain x y z where "logical_channels s = [x, y, z]" using assms unfolding channels_ok_def by auto
  then show ?thesis by (simp add: numeral_2_eq_2)
qed

text \<open>
  The three logical channels. The SIM starts with the sessions 1, 2 and 3 closed, and every SIM
  command keeps these three sessions, a closed one without a name. Opening a known application takes
  the lowest closed session, answers its number and leaves the others alone, or answers that the memory
  is full when none is closed; closing that session gives back the table from before.
\<close>

theorem logical_channel_table:
  assumes "init_sim_service j1 j2 loaded = Ok s0" and "channels_ok (fst st)" and "run_sim_command c h command st = Ok st'"
    and "channels_ok s" and "dom_root (doc s) = Some root" and "FindAttribute (doc s) root ''aid'' name = Some df"
    and "name \<noteq> []" and "closed = filter (\<lambda>i. \<not> channel_is_open (logical_channels s ! i)) [0, 1, 2]"
  shows "channels_ok s0 \<and> channels_ok (fst st') \<and>
    (case closed of
       [] \<Rightarrow> HandleOpenLogicalChannel c (''AT+CCHO='' @ name) (s, ne) = reply_sim c [kCmeErrorMemoryFull] (s, ne)
     | i # _ \<Rightarrow>
         let s' = s\<lparr>logical_channels :=
               (logical_channels s)[i := \<lparr>df_name = name, channel_is_open = True, session_id = int i + 1\<rparr>]\<rparr>
         in HandleOpenLogicalChannel c (''AT+CCHO='' @ name) (s, ne) = reply_sim c [to_string (int i + 1), ''OK''] (s', ne) \<and>
            HandleCloseLogicalChannel c (''AT+CCHC='' @ to_string (int i + 1)) (s', ne) = reply_sim c [''+CCHC'', ''OK''] (s, ne))"
proof -
  have "channels_ok s0" "channels_ok (fst st')"
    using init_channels_ok [OF assms(1)] run_sim_command_channels [OF assms(2,3)] by simp_all
  moreover have opened: "HandleOpenLogicalChannel c (''AT+CCHO='' @ name) (s, ne) =
      (case closed of [] \<Rightarrow> reply_sim c [kCmeErrorMemoryFull] (s, ne)
       | i # _ \<Rightarrow> reply_sim c [to_string (session_id (logical_channels s ! i)), ''OK''] (open_channel i name s, ne))"
    using assms(5-8) find_closed [OF assms(4)] by (simp add: HandleOpenLogicalChannel_def split: list.split)
  moreover have "i < 3 \<and> \<not> channel_is_open (logical_channels s ! i)" if "closed = i # is" for i "is"
  proof -
    have "i \<in> set (filter (\<lambda>i. \<not> channel_is_open (logical_channels s ! i)) [0, 1, 2])" using that assms(8) by simp
    then show ?thesis by (auto split: if_splits)
  qed
  ultimately show ?thesis
    using session_at [OF assms(4)] HandleClose_after_open [OF assms(4)] open_channel_explicit [OF assms(4)]
    by (auto simp: Let_def split: list.split)
qed

subsection \<open>The properties on the sample SIM\<close>

definition locked_sim :: "SimStatus \<Rightarrow> sim_state" where
  "locked_sim status = (sample_sim\<lparr>sim_status := status\<rparr>, InitializeServiceState sample_env)"

lemma locked_sim_simps [simp]:
  "sim_status (fst (locked_sim status)) = status" "pin1_status (fst (locked_sim status)) = default_pin"
  by (simp_all add: locked_sim_def sample_sim_def)

lemma default_pin_simps [simp]:
  "pin default_pin = ''1234''" "puk default_pin = ''12345678''" "pin_remaining_times default_pin = 3"
  "puk_remaining_times default_pin = 10"
  by (simp_all add: default_pin_def kSimPinMaxRetryTimes_def kSimPukMaxRetryTimes_def)

lemma well_formed_samples:
  "well_formed_pin ''1234''" "well_formed_pin ''0000''" "\<not> well_formed_pin ''12''" "well_formed_puk ''12345678''"
  "counts (''00000000'', ''5678'')" "\<not> counts (''1'', ''5678'')" "well_formed_pin ''5678''"
  by (simp_all add: well_formed_pin_def well_formed_puk_def counts_def CheckPasswordValid_def)

theorem pin_lockout_witness:
  "sim_status (fst (fold (enter 0) [''0000'', ''12'', ''0000''] (locked_sim SIM_STATUS_PIN))) = SIM_STATUS_PIN \<and>
   sim_status (fst (enter 0 ''1234'' (fold (enter 0) [''0000'', ''12'', ''0000''] (locked_sim SIM_STATUS_PIN)))) = SIM_STATUS_READY \<and>
   sim_status (fst (enter 0 ''1234'' (fold (enter 0) [''0000'', ''0000'', ''0000''] (locked_sim SIM_STATUS_PIN)))) = SIM_STATUS_PUK"
  using pin_lockout [of "locked_sim SIM_STATUS_PIN" default_pin 3 "[''0000'', ''12'', ''0000'']" _ _ 0, OF _ _ _ _ _ _ refl refl]
    pin_lockout [of "locked_sim SIM_STATUS_PIN" default_pin 3 "[''0000'', ''0000'', ''0000'']" _ _ 0, OF _ _ _ _ _ _ refl refl]
  by (simp add: well_formed_samples del: fold.simps)

theorem puk_lockout_witness:
  "fst (fold (enter_puk 0) [(''00000000'', ''5678''), (''1'', ''5678'')] (locked_sim SIM_STATUS_PUK)) =
     (fst (locked_sim SIM_STATUS_PUK))\<lparr>pin1_status := default_pin\<lparr>puk_remaining_times := 9\<rparr>\<rparr> \<and>
   sim_status (fst (enter_puk 0 (''12345678'', ''5678'')
     (fold (enter_puk 0) [(''00000000'', ''5678''), (''1'', ''5678'')] (locked_sim SIM_STATUS_PUK)))) = SIM_STATUS_READY"
  using puk_lockout [of "locked_sim SIM_STATUS_PUK" default_pin 10 "''5678''" "[(''00000000'', ''5678''), (''1'', ''5678'')]" _ _ 0,
      OF _ _ _ _ _ _ _ refl refl]
  by (simp add: well_formed_samples del: fold.simps)

theorem change_pin_outcomes_witness:
  "fst (enter 0 ''1234,5678'' (locked_sim SIM_STATUS_READY)) =
     (fst (locked_sim SIM_STATUS_READY))\<lparr>pin1_status := default_pin\<lparr>pin := ''5678'', pin_remaining_times := 3\<rparr>,
       sim_status := SIM_STATUS_READY\<rparr>"
  using change_pin_outcomes [of "locked_sim SIM_STATUS_READY" default_pin "''1234''" "''5678''" "[]" _ 0, OF _ _ _ _ _ _ refl]
  by (simp add: well_formed_samples)

theorem logical_channel_table_witness:
  "channels_ok sample_sim \<and>
   HandleOpenLogicalChannel 0 ''AT+CCHO=A0'' (locked_sim SIM_STATUS_READY) =
     reply_sim 0 [to_string 1, ''OK''] (open_channel 0 ''A0'' (fst (locked_sim SIM_STATUS_READY)), snd (locked_sim SIM_STATUS_READY))"
proof -
  let ?s = "sample_sim\<lparr>sim_status := SIM_STATUS_READY\<rparr>"
  have ok: "channels_ok ?s" by (simp add: channels_ok_def sample_sim_def)
  have "dom_root (doc ?s) = Some 0" "FindAttribute (doc ?s) 0 ''aid'' ''A0'' = Some 2"
    "filter (\<lambda>i. \<not> channel_is_open (logical_channels ?s ! i)) [0, 1, 2] = [0, 1, 2]"
    by (simp_all add: sample_sim_def sample_dom_def FindAttribute_def)
  then show ?thesis
    using logical_channel_table [OF init_sample, of "locked_sim SIM_STATUS_READY" 0 Cmd_SIMStatusReq
        "''AT+CPIN?''" _ ?s 0 "''A0''" 2 "[0, 1, 2]" "snd (locked_sim SIM_STATUS_READY)"] ok
      open_channel_explicit [OF ok, of 0 "''A0''"]
    by (simp add: locked_sim_def Let_def)
qed

text \<open>
  The set forms of \<^verbatim>\<open>AT+CCSS\<close> and \<^verbatim>\<open>AT+WRMP\<close> lose the value: they parse the command from its first
  character, which is not a digit, and store -1 whatever was sent.
\<close>

lemma cdma_settings_store_minus_1:
  "HandleCdmaSubscriptionSource c (''AT+CCSS='' @ v) (s, ne) =
     Ok (reply_sim c [''OK''] (s\<lparr>cdma_subscription_source := Some (- 1)\<rparr>, ne))"
  "HandleCdmaRoamingPreference c (''AT+WRMP='' @ v) (s, ne) =
     Ok (reply_sim c [''OK''] (s\<lparr>cdma_roaming_preference := Some (- 1)\<rparr>, ne))"
proof -
  have A: "fst (GetNextInt (CHR ''A'' # r)) = - 1" for r
    by (cases "find_char (CHR '','') r")
      (simp_all add: GetNextInt_def GetNextStr_flag_def parse_int_def strtol_value_def sign_split_def skip_0x_def
        is_digit_def digit_value_def isspace_def Let_def split_beta del: find_char_None)
  show "HandleCdmaSubscriptionSource c (''AT+CCSS='' @ v) (s, ne) =
     Ok (reply_sim c [''OK''] (s\<lparr>cdma_subscription_source := Some (- 1)\<rparr>, ne))"
    "HandleCdmaRoamingPreference c (''AT+WRMP='' @ v) (s, ne) =
     Ok (reply_sim c [''OK''] (s\<lparr>cdma_roaming_preference := Some (- 1)\<rparr>, ne))"
    by (simp_all add: HandleCdmaSubscriptionSource_def HandleCdmaRoamingPreference_def A)
qed

end
