(* ===== verification/Modem_Properties.thy ===== *)
theory Modem_Properties
  imports Client_Frame Call_Properties Network_Properties Sim_Properties
begin

section \<open>The modem simulator as a whole\<close>

text \<open>
  The services and the channel monitor together: the laws that the monitor relies on, discharged for the
  simulator; what a stream of bytes means; how a command finds its handler; the invariant of all
  states that the process can reach; and the request to leave the loop.
\<close>

subsection \<open>The connections\<close>

text \<open>
  The two vectors name each client once, only clients that exist, and only those of their type.
\<close>

definition typed :: "ClientType \<Rightarrow> nat list \<Rightarrow> env \<Rightarrow> bool" where
  "typed t cs e \<longleftrightarrow> distinct cs \<and> (\<forall>c\<in>set cs. c < next_id e \<and> map_option client_type (objs e c) = Some t)"

definition conns_ok :: "env \<Rightarrow> bool" where
  "conns_ok e \<longleftrightarrow> typed RIL (clients e) e \<and> typed REMOTE (remote_clients e) e"

lemma typed_filter: "typed t cs e \<Longrightarrow> typed t (filter P cs) e"
  by (simp add: typed_def)

lemma typed_remove1: "typed t cs e \<Longrightarrow> typed t (remove1 c cs) e"
  by (auto simp: typed_def dest: notin_set_remove1)

lemma typed_mono:
  assumes "typed t cs e" and "next_id e \<le> next_id e'"
    and "\<And>c. c < next_id e \<Longrightarrow> map_option client_type (objs e' c) = map_option client_type (objs e c)"
  shows "typed t cs e'"
  using assms by (fastforce simp: typed_def)

lemma typed_append:
  "typed t cs e \<Longrightarrow> typed t ds e \<Longrightarrow> set cs \<inter> set ds = {} \<Longrightarrow> typed t (cs @ ds) e"
  by (auto simp: typed_def)

lemma conns_ok_step:
  assumes "conns_ok e" and "client_step e e'"
  shows "conns_ok e'"
proof -
  have step: "next_id e \<le> next_id e'" "clients e' = clients e"
      "\<And>c. c < next_id e \<Longrightarrow> map_option client_type (objs e' c) = map_option client_type (objs e c)"
    using assms(2) by (auto simp: client_step_def same_client_def)
  obtain new where new: "remote_clients e' = remote_clients e @ new" "distinct new"
      "\<forall>c\<in>set new. next_id e \<le> c \<and> c < next_id e' \<and> map_option client_type (objs e' c) = Some REMOTE"
    using assms(2) by (auto simp: client_step_def)
  have "typed REMOTE new e'" using new(2,3) by (simp add: typed_def)
  moreover have "set (remote_clients e) \<inter> set new = {}" using assms(1) new(3) by (fastforce simp: conns_ok_def typed_def)
  moreover have "typed REMOTE (remote_clients e) e'" "typed RIL (clients e) e'"
    using assms(1) step by (auto simp: conns_ok_def intro: typed_mono)
  ultimately show ?thesis using new(1) step(2) by (simp add: conns_ok_def typed_append)
qed

text \<open>Changes to a client that keep its type.\<close>

lemma update_client_frame [simp]:
  "next_id (update_client c f e) = next_id e" "clients (update_client c f e) = clients e"
  "remote_clients (update_client c f e) = remote_clients e" "pipe (update_client c f e) = pipe e"
  by (simp_all add: update_client_def)

lemma typed_update_client:
  "(\<And>cl. client_type (f cl) = client_type cl) \<Longrightarrow> typed t cs (update_client c f e) = typed t cs e"
  by (auto simp: typed_def update_client_def option.map_comp comp_def)

lemma typed_cong: "objs e' = objs e \<Longrightarrow> next_id e' = next_id e \<Longrightarrow> typed t cs e' = typed t cs e"
  by (simp add: typed_def)

lemma conns_ok_set_incomplete [simp]: "conns_ok (set_incomplete c s e) = conns_ok e"
  by (simp add: conns_ok_def set_incomplete_def typed_update_client)

lemma conns_ok_drop_client: "conns_ok e \<Longrightarrow> conns_ok (drop_client c t e)"
proof -
  have "typed t' cs (e'\<lparr>remote_clients := r\<rparr>) = typed t' cs e'" "typed t' cs (e'\<lparr>clients := r\<rparr>) = typed t' cs e'"
    for t' cs r and e' :: env by (simp_all add: typed_def)
  then show "conns_ok e \<Longrightarrow> conns_ok (drop_client c t e)"
    by (auto simp: conns_ok_def drop_client_def Let_def typed_update_client intro: typed_remove1 split: ClientType.split)
qed

lemma conns_ok_removeInvalid:
  "conns_ok e \<Longrightarrow>
     conns_ok (e\<lparr>clients := removeInvalidClients e (clients e), remote_clients := removeInvalidClients e (remote_clients e)\<rparr>)"
  unfolding conns_ok_def removeInvalidClients_def by (simp add: typed_def)

lemma conns_ok_accept:
  "conns_ok e \<Longrightarrow> conns_ok (e\<lparr>next_id := next_id e + 1, objs := (objs e)(next_id e \<mapsto> new_client RIL),
     clients := clients e @ [next_id e]\<rparr>)"
  by (auto simp: conns_ok_def typed_def new_client_def)

text \<open>A client that was just created is in no vector.\<close>

lemma conns_ok_created:
  "conns_ok e \<Longrightarrow> conns_ok (e\<lparr>next_id := next_id e + 1, objs := (objs e)(next_id e \<mapsto> cl)\<rparr>)"
  by (auto simp: conns_ok_def typed_def)

lemma conns_ok_conn: "conn e' = conn e \<Longrightarrow> conns_ok e' = conns_ok e"
  by (simp add: conn_def conns_ok_def typed_def)

text \<open>What happens to one client that exists already.\<close>

definition keeps :: "nat \<Rightarrow> env \<Rightarrow> env \<Rightarrow> bool" where
  "keeps c e e' \<longleftrightarrow> (c < next_id e \<longrightarrow> c < next_id e' \<and>
     map_option client_type (objs e' c) = map_option client_type (objs e c) \<and>
     (c \<notin> set (remote_clients e) \<longrightarrow> c \<notin> set (remote_clients e')))"

lemma keeps_refl [simp]: "keeps c e e"
  by (simp add: keeps_def)

lemma keeps_trans: "keeps c e e' \<Longrightarrow> keeps c e' e'' \<Longrightarrow> keeps c e e''"
  by (simp add: keeps_def)

lemma keeps_step: "client_step e e' \<Longrightarrow> keeps c e e'"
  by (fastforce simp: keeps_def client_step_def same_client_def)

lemma keeps_set_incomplete: "keeps c e (set_incomplete d s e)"
  by (simp add: keeps_def set_incomplete_def update_client_def option.map_comp comp_def)

lemma keeps_drop_client: "keeps c e (drop_client d t e)"
  by (auto simp: keeps_def drop_client_def update_client_def option.map_comp comp_def Let_def
      dest: notin_set_remove1 split: ClientType.split)

subsection \<open>Invariants of a modem under its monitor\<close>

text \<open>
  An invariant that does not depend on the environment and that every command keeps is kept by
  everything the monitor does, together with that of the connections.
\<close>

locale modem_invariant = modem_client vm for vm :: "'m virtual_modem" +
  fixes ok :: "'m \<Rightarrow> bool"
  assumes ok_put [simp]: "ok (vm_put_env vm e m) = ok m"
    and dispatch_step: "DispatchCommand vm c s m = Ok m' \<Longrightarrow> client_step (vm_env vm m) (vm_env vm m')"
    and dispatch_ok: "DispatchCommand vm c s m = Ok m' \<Longrightarrow> ok m \<Longrightarrow> ok m'"
    and first_step: "client_step (vm_env vm m) (vm_env vm (OnFirstClientConnected vm m))"
    and first_ok: "ok m \<Longrightarrow> ok (OnFirstClientConnected vm m)"
begin

definition inv :: "'m \<Rightarrow> bool" where
  "inv m \<longleftrightarrow> ok m \<and> conns_ok (vm_env vm m)"

lemma inv_on_env: "inv m \<Longrightarrow> (conns_ok (vm_env vm m) \<Longrightarrow> conns_ok (f (vm_env vm m))) \<Longrightarrow> inv (on_env vm f m)"
  by (simp add: inv_def on_env_def)

lemma lines_of_step:
  "lines_of c s m = Ok (rest, m') \<Longrightarrow> client_step (vm_env vm m) (vm_env vm m') \<and> (ok m \<longrightarrow> ok m')"
proof (induction "IsWaitingSmsPdu vm" "DispatchCommand vm c" s m rule: dispatch_lines.induct)
  case (1 s m)
  show ?case
  proof (cases "find_char (if IsWaitingSmsPdu vm m then CHR 0x1A else CHR 0x0D) s")
    case None
    then show ?thesis using 1(2) by (simp add: dispatch_lines.simps [of _ _ s] del: find_char_None)
  next
    case (Some r)
    then obtain m1 where m1: "(if take r s = [] then Ok m else DispatchCommand vm c (take r s) m) = Ok m1"
        "lines_of c (drop (r + 1) s) m1 = Ok (rest, m')"
      using 1(2) by (auto simp: dispatch_lines.simps [of _ _ s] bind_result_Inr_iff)
    then have "client_step (vm_env vm m) (vm_env vm m1) \<and> (ok m \<longrightarrow> ok m1)"
      by (auto dest: dispatch_step dispatch_ok split: if_splits)
    then show ?thesis using 1(1) [OF Some m1] by (auto intro: client_step_trans)
  qed
qed

lemma ReadCommand_cases:
  assumes "ReadCommand vm c r m = Ok m'"
  obtains (same) "m' = m" | (dropped) t where "m' = on_env vm (drop_client c t) m"
    | (lines) s rest m1 where "lines_of c s (on_env vm (set_incomplete c []) m) = Ok (rest, m1)"
        "m' = on_env vm (set_incomplete c rest) m1"
proof (cases "objs (vm_env vm m) c")
  case None
  then show ?thesis using assms by (intro same) (simp add: ReadCommand_def)
next
  case (Some cl)
  show ?thesis
  proof (cases r)
    case (Read_Failed again)
    then show ?thesis using assms Some that by (auto simp: ReadCommand_def split: if_splits)
  next
    case (Read_Bytes b)
    then obtain s rest m1 where "lines_of c s (on_env vm (set_incomplete c []) m) = Ok (rest, m1)"
        "m' = on_env vm (set_incomplete c rest) m1"
      using assms Some by (auto simp: ReadCommand_def Let_def bind_result_Inr_iff split: if_splits)
    then show ?thesis by (rule lines)
  qed
qed

lemma ReadCommand_inv: "ReadCommand vm c r m = Ok m' \<Longrightarrow> inv m \<Longrightarrow> inv m'"
proof (erule ReadCommand_cases)
  fix s rest m1
  assume "inv m" and lines: "lines_of c s (on_env vm (set_incomplete c []) m) = Ok (rest, m1)"
    and m': "m' = on_env vm (set_incomplete c rest) m1"
  have "conns_ok (set_incomplete c [] (vm_env vm m))" using \<open>inv m\<close> by (simp add: inv_def)
  then have "inv m1" using \<open>inv m\<close> lines_of_step [OF lines] conns_ok_step [of "set_incomplete c [] (vm_env vm m)"]
    by (simp add: inv_def on_env_def)
  then show "inv m'" by (simp add: m' inv_on_env)
qed (auto intro: inv_on_env conns_ok_drop_client)

lemma ReadCommand_keeps: "ReadCommand vm c r m = Ok m' \<Longrightarrow> keeps d (vm_env vm m) (vm_env vm m')"
proof (erule ReadCommand_cases)
  fix s rest m1
  assume lines: "lines_of c s (on_env vm (set_incomplete c []) m) = Ok (rest, m1)"
    and m': "m' = on_env vm (set_incomplete c rest) m1"
  have "keeps d (set_incomplete c [] (vm_env vm m)) (vm_env vm m1)"
    using lines_of_step [OF lines] keeps_step by (simp add: on_env_def)
  then show "keeps d (vm_env vm m) (vm_env vm m')"
    using keeps_set_incomplete [of d "vm_env vm m1"] keeps_set_incomplete [of d "vm_env vm m"]
    by (simp add: m' on_env_def) (blast intro: keeps_trans)
qed (simp_all add: on_env_def keeps_drop_client)

lemma Accept_inv: "inv m \<Longrightarrow> inv (AcceptIncomingConnection vm m)"
proof -
  let ?m = "on_env vm (\<lambda>e. e\<lparr>next_id := next_id e + 1, objs := (objs e)(next_id e \<mapsto> new_client RIL),
                clients := clients e @ [next_id e]\<rparr>) m"
  assume "inv m"
  then have "inv ?m" by (rule inv_on_env) (rule conns_ok_accept)
  then show "inv (AcceptIncomingConnection vm m)"
    unfolding AcceptIncomingConnection_def Let_def
    using first_ok [of ?m] conns_ok_step [OF _ first_step [of ?m]] by (simp add: inv_def)
qed

lemma SetRemoteClient_accepted_inv:
  assumes "SetRemoteClient_accepted vm r m = Ok (c, m')" and "inv m"
  shows "inv m'"
proof -
  let ?c = "next_id (vm_env vm m)"
  let ?m = "on_env vm (\<lambda>e. e\<lparr>next_id := next_id e + 1,
                objs := (objs e)(?c \<mapsto> (new_client REMOTE)\<lparr>first_read_command := True\<rparr>)\<rparr>) m"
  obtain m1 where read: "ReadCommand vm ?c r ?m = Ok m1" and c: "c = ?c" and
      m': "m' = on_env vm trigger (if is_open c (vm_env vm m1)
             then on_env vm (\<lambda>e. (update_client c (\<lambda>cl. cl\<lparr>first_read_command := False\<rparr>) e)
                    \<lparr>remote_clients := remote_clients e @ [c]\<rparr>) m1 else m1)"
    using assms(1) by (auto simp: SetRemoteClient_accepted_def Let_def bind_result_Inr_iff)
  have "inv ?m" using assms(2) by (rule inv_on_env) (rule conns_ok_created)
  with read have inv: "inv m1" by (rule ReadCommand_inv)
  have "?c \<notin> set (remote_clients (vm_env vm m))" using assms(2) by (auto simp: inv_def conns_ok_def typed_def)
  then have new: "c < next_id (vm_env vm m1)" "map_option client_type (objs (vm_env vm m1) c) = Some REMOTE"
      "c \<notin> set (remote_clients (vm_env vm m1))"
    using ReadCommand_keeps [OF read, of c] by (simp_all add: keeps_def c on_env_def new_client_def)
  have trig: "conns_ok (trigger e) = conns_ok e" for e
    by (simp add: trigger_def conns_ok_def typed_def)
  have "typed REMOTE (remote_clients (vm_env vm m1) @ [c]) (vm_env vm m1)"
    using inv new by (auto simp: inv_def conns_ok_def typed_def)
  then have "conns_ok ((update_client c (\<lambda>cl. cl\<lparr>first_read_command := False\<rparr>) (vm_env vm m1))
      \<lparr>remote_clients := remote_clients (vm_env vm m1) @ [c]\<rparr>)"
    using inv unfolding inv_def conns_ok_def
    by (simp add: typed_cong [of "_\<lparr>remote_clients := _\<rparr>"] typed_update_client)
  then show ?thesis using inv by (simp add: m' inv_def on_env_def trig)
qed

lemma read_clients_inv: "read_clients vm sel v cs m = Ok m' \<Longrightarrow> inv m \<Longrightarrow> inv m'"
  by (induction cs arbitrary: m)
    (auto simp: bind_result_Inr_iff split: option.splits if_splits intro: ReadCommand_inv)

lemma monitor_iteration_inv:
  assumes "monitor_iteration vm sel m = Ok (leave, m')" and "inv m"
  shows "inv m'"
proof -
  let ?m = "if server_ready sel = Some True then AcceptIncomingConnection vm m else m"
  have ready: "ready_clients vm sel a = Ok b \<Longrightarrow> inv a \<Longrightarrow> inv b" for a b
    by (auto simp: ready_clients_def bind_result_Inr_iff intro: read_clients_inv)
  have m: "inv ?m" using assms(2) Accept_inv by simp
  have "conns_ok (e\<lparr>pipe := p\<rparr>) = conns_ok e" for e p by (simp add: conns_ok_def typed_def)
  then have read: "inv (vm_put_env vm (snd (read_pipe (vm_env vm ?m))) ?m)" (is "inv ?r")
    using m by (simp add: inv_def read_pipe_def)
  then have "inv (on_env vm (\<lambda>e. e\<lparr>clients := removeInvalidClients e (clients e),
      remote_clients := removeInvalidClients e (remote_clients e)\<rparr>) ?r)"
    by (rule inv_on_env) (rule conns_ok_removeInvalid)
  with m read assms(1) show ?thesis unfolding monitor_iteration_def Let_def split_beta
    by (auto simp: bind_result_Inr_iff dest!: ready split: if_splits)
qed

end

subsection \<open>The services\<close>

text \<open>SIM commands reach the network service only through \<^verbatim>\<open>OnSimStatusChanged\<close>.\<close>

lemma percent_SimOnSimStatusChanged [simp]:
  "signal_strength_percent (fst (snd (SimOnSimStatusChanged st))) = signal_strength_percent (fst (snd st))"
  by (cases st) (simp add: SimOnSimStatusChanged_def split_beta)

lemma percent_reply_sim [simp]: "fst (snd (reply_sim c rs st)) = fst (snd st)"
  by (simp add: reply_sim_def split: prod.split)

lemma percent_pin [simp]:
  "signal_strength_percent (fst (snd (snd (checkPin1AndAdjustSimStatus p st)))) = signal_strength_percent (fst (snd st))"
  "signal_strength_percent (fst (snd (snd (ChangePin1AndAdjustSimStatus md p q st)))) = signal_strength_percent (fst (snd st))"
  "signal_strength_percent (fst (snd (snd (verify_pin2 p st)))) = signal_strength_percent (fst (snd st))"
  "signal_strength_percent (fst (snd (pin_reply c r))) = signal_strength_percent (fst (snd (snd r)))"
  "signal_strength_percent (fst (snd (after_password c l b r))) = signal_strength_percent (fst (snd (snd r)))"
  by (auto simp: checkPin1AndAdjustSimStatus_def ChangePin1AndAdjustSimStatus_def verify_pin2_def pin_reply_def
      after_password_def Let_def split: prod.splits)

lemma percent_sim_files:
  "HandleSIM_IO c command st = Ok st' \<Longrightarrow> fst (snd st') = fst (snd st)"
  "HandleCSIM_IO c command st = Ok st' \<Longrightarrow> fst (snd st') = fst (snd st)"
  "HandleTransmitLogicalChannel c command st = Ok st' \<Longrightarrow> fst (snd st') = fst (snd st)"
  "HandlePhoneNumberUpdate command st = Ok st' \<Longrightarrow> fst (snd st') = fst (snd st)"
  "reply_file_text ps f n c st = Ok st' \<Longrightarrow> fst (snd st') = fst (snd st)"
  by (auto simp: HandleSIM_IO_def HandleCSIM_IO_def HandleTransmitLogicalChannel_def HandlePhoneNumberUpdate_def
      SetPhoneNumber_def reply_file_text_def Let_def split_beta bind_result_Inr_iff split: if_splits option.splits)

lemma percent_sim_commands:
  "signal_strength_percent (fst (snd (HandleChangeOrEnterPIN c command st))) = signal_strength_percent (fst (snd st))"
  "signal_strength_percent (fst (snd (HandleFacilityLock c command st))) = signal_strength_percent (fst (snd st))"
  "signal_strength_percent (fst (snd (HandleChangePassword c command st))) = signal_strength_percent (fst (snd st))"
  "signal_strength_percent (fst (snd (HandleSIMStatusReq c st))) = signal_strength_percent (fst (snd st))"
  "signal_strength_percent (fst (snd (HandleQueryRemainTimes c command st))) = signal_strength_percent (fst (snd st))"
  "signal_strength_percent (fst (snd (HandleSimAuthentication c command st))) = signal_strength_percent (fst (snd st))"
  "signal_strength_percent (fst (snd (HandleOpenLogicalChannel c command st))) = signal_strength_percent (fst (snd st))"
  "signal_strength_percent (fst (snd (HandleCloseLogicalChannel c command st))) = signal_strength_percent (fst (snd st))"
  by (simp_all add: HandleChangeOrEnterPIN_def HandleFacilityLock_def HandleChangePassword_def HandleSIMStatusReq_def
      HandleQueryRemainTimes_def HandleSimAuthentication_def HandleOpenLogicalChannel_def HandleCloseLogicalChannel_def
      Let_def split_beta split: SimStatus.split option.split)

lemma percent_sim:
  "run_sim_command c h command st = Ok st' \<Longrightarrow>
     signal_strength_percent (fst (snd st')) = signal_strength_percent (fst (snd st))"
  by (cases h) (auto simp: percent_sim_files percent_sim_commands HandleGetIMSI_def HandleGetIccId_def
      HandleCdmaSubscriptionSource_def HandleCdmaRoamingPreference_def split: prod.splits if_splits option.splits)

definition services_ok :: "modem \<Rightarrow> bool" where
  "services_ok m \<longleftrightarrow> calls_ok (m_call m) \<and> contexts_ok (m_data m) \<and> percent_ok (m_network m) \<and>
     channels_ok (m_sim m) \<and> sms_ok (m_sms m) \<and> sup_ok (m_sup m)"

lemma services_ok_env [simp]: "services_ok (m\<lparr>m_env := e\<rparr>) = services_ok m"
  by (simp add: services_ok_def)

lemma services_ok_sms: "services_ok m \<Longrightarrow> services_ok (m\<lparr>m_sms := s\<rparr>) = sms_ok s"
  by (simp add: services_ok_def)

lemma services_ok_command:
  assumes "run_modem_command c h command m = Ok m'" and "services_ok m"
  shows "services_ok m'"
proof (cases h)
  case (Sim x)
  then obtain s n e where r: "run_sim_command c x command (m_sim m, m_network m, m_env m) = Ok (s, n, e)"
      "m' = m\<lparr>m_sim := s, m_network := n, m_env := e\<rparr>"
    using assms(1) by (auto simp: bind_result_Inr_iff)
  then show ?thesis
    using assms(2) run_sim_command_channels [OF _ r(1)] percent_sim [OF r(1)] by (simp add: services_ok_def percent_ok_def)
next
  case (Data x)
  then show ?thesis
    using assms contexts_ok_command [of "(m_data m, m_env m)" c x command] by (auto simp: services_ok_def split_beta)
qed (use assms in \<open>auto simp: services_ok_def bind_result_Inr_iff split_beta
    intro: calls_ok_command percent_ok_command sms_ok_command sup_ok_command\<close>)

lemma services_ok_services: "try_services c command ts m = Ok (b, m') \<Longrightarrow> services_ok m \<Longrightarrow> services_ok m'"
proof (induction ts arbitrary: m)
  case (Cons t ts)
  then obtain success m1 where m1: "HandleModemCommand (run_modem_command c) (handlers_of t) command m = Ok (success, m1)"
      "if success then m' = m1 else try_services c command ts m1 = Ok (b, m')"
    by (auto simp: bind_result_Inr_iff split: if_splits)
  have "services_ok m1" using m1(1) Cons.prems(2)
    by (auto simp: HandleModemCommand_def bind_result_Inr_iff split: option.splits intro: services_ok_command)
  then show ?case using m1(2) Cons.IH [of m1] by (auto split: if_splits)
qed simp

lemma services_ok_dispatch:
  assumes "ModemDispatchCommand c command m = Ok m'" and "services_ok m"
  shows "services_ok m'"
proof -
  have "sms_ok (m_sms m)" using assms(2) by (simp add: services_ok_def)
  note sms = sms_ok_write [OF this] sms_ok_send [OF this]
  show ?thesis using assms services_ok_services [of c command modem_services m] sms(1) [of c command "m_env m"]
    unfolding ModemDispatchCommand_def
    by (auto simp: bind_result_Inr_iff split_beta Let_def services_ok_sms split: if_splits intro: sms(2))
qed

lemma services_ok_callback:
  assumes "run_callback cb m = Ok m'" and "services_ok m"
  shows "services_ok m'"
proof -
  have "calls_ok (SimulatePendingCallsAnswered (m_call m))"
      "calls_ok (fst (TimerWaitingRemoteCallResponse i n (m_call m, m_env m)))" for i n
    using assms(2) calls_ok_callback [of "m_call m" SimulatePendingCallsAnswered_cb]
      calls_ok_callback [of "m_call m" "TimerWaitingRemoteCallResponse_cb i n" "m_env m", OF _ prod.collapse [symmetric]]
    by (simp_all add: services_ok_def)
  moreover have "percent_ok (fst (UpdateSignalStrengthCallback (m_network m, m_env m)))"
      "percent_ok (fst (UpdateRegisterState d st (m_network m, m_env m)))" for d st
    using assms(2) percent_ok_signal [of "m_network m"] by (simp_all add: services_ok_def percent_ok_fst)
  ultimately show ?thesis using assms by (cases cb) (auto simp: services_ok_def split_beta)
qed

interpretation sim: modem_client simulator
proof unfold_locales
  fix c s m m'
  assume "DispatchCommand simulator c s m = Ok m'" and c: "c < next_id (vm_env simulator m)"
  then have "modem_step m m'" by (simp add: simulator_def modem_step_dispatch)
  then show "c < next_id (vm_env simulator m') \<and>
      incomplete_of c (vm_env simulator m') = incomplete_of c (vm_env simulator m)"
    using c by (simp add: simulator_def client_step_def same_client_def incomplete_of_def)
qed (simp_all add: simulator_def)

interpretation sim_inv: modem_invariant simulator services_ok
proof unfold_locales
  fix m
  have "modem_step m (ModemOnFirstClientConnected m)"
    by (rule client_step_conn) (simp add: ModemOnFirstClientConnected_def)
  then show "client_step (vm_env simulator m) (vm_env simulator (OnFirstClientConnected simulator m))"
    by (simp add: simulator_def)
qed (auto simp: simulator_def ModemOnFirstClientConnected_def intro: modem_step_dispatch services_ok_dispatch)

lemma simulator_env [simp]: "vm_env simulator m = m_env m" "vm_put_env simulator e m = m\<lparr>m_env := e\<rparr>"
  by (simp_all add: simulator_def)

lemma sim_invariant: "sim_inv.inv m \<longleftrightarrow> services_ok m \<and> conns_ok (m_env m)"
  by (simp add: sim_inv.inv_def)

subsection \<open>Every reachable state\<close>

text \<open>
  The states of a modem from its construction on: events of its monitor, callbacks of the looper,
  remote clients that the server loop hands over, the requests of other processes, and changes of
  the outside world that leave the connections alone.
\<close>

inductive modem_reach :: "modem \<Rightarrow> bool" where
  modem_start: "RegisterModemService host e = Ok m \<Longrightarrow> clients e = [] \<Longrightarrow> remote_clients e = [] \<Longrightarrow> modem_reach m"
| modem_event: "modem_reach m \<Longrightarrow> monitor_iteration simulator sel m = Ok (leave, m') \<Longrightarrow> modem_reach m'"
| modem_timer: "modem_reach m \<Longrightarrow> run_callback cb m = Ok m' \<Longrightarrow> modem_reach m'"
| modem_remote: "modem_reach m \<Longrightarrow> SetRemoteClient_accepted simulator r m = Ok (c, m') \<Longrightarrow> modem_reach m'"
| modem_save: "modem_reach m \<Longrightarrow> SaveModemState m = Ok m' \<Longrightarrow> modem_reach m'"
| modem_number: "modem_reach m \<Longrightarrow> ModemSetPhoneNumber num m = Ok (b, m') \<Longrightarrow> modem_reach m'"
| modem_time_zone: "modem_reach m \<Longrightarrow> modem_reach (ModemSetTimeZone tz m)"
| modem_world: "modem_reach m \<Longrightarrow> conn e = conn (m_env m) \<Longrightarrow> modem_reach (m\<lparr>m_env := e\<rparr>)"

lemma modem_start_inv:
  assumes "RegisterModemService host e = Ok m" and "clients e = []" and "remote_clients e = []"
  shows "sim_inv.inv m"
proof -
  obtain n e' where ne: "InitializeServiceState e = (n, e')" by fastforce
  have "conn (snd (InitializeServiceState e)) = conn e" unfolding InitializeServiceState_def Let_def by simp
  moreover obtain s op where s: "init_sim_service (fst (uninitialised_pins host)) (snd (uninitialised_pins host)) (icc_profile host) = Ok s"
      and m: "m = \<lparr>m_sim = s, m_network = InitializeSimOperator op (numeric_operator host) n,
            m_data = init_data_service, m_call = init_call_service e', m_sms = init_sms_service,
            m_sup = init_sup_service, m_stk = init_stk_service,
            m_misc = ParseTimeZone (etc_timezone host) \<lparr>timezone = []\<rparr>, m_env = e'\<rparr>"
    using assms(1) ne by (auto simp: RegisterModemService_def bind_result_Inr_iff)
  ultimately have "conns_ok (m_env m)"
    using assms(2,3) ne by (simp add: conn_def conns_ok_def typed_def)
  moreover have "percent_ok n" by (rule net_reach_percent [OF net_init [OF ne]])
  moreover have "calls_ok (init_call_service e')" by (simp add: init_call_service_def calls_ok_def)
  moreover have "contexts_ok init_data_service" by (simp add: contexts_ok_def init_data_service_def)
  ultimately show ?thesis
    using init_channels_ok [OF s] sms_ok_init sup_reach_ok [OF sup_init]
    by (simp add: sim_invariant services_ok_def m percent_ok_fst)
qed

lemma InitializeFacilityLock_channels: "InitializeFacilityLock ops s = Ok s' \<Longrightarrow> logical_channels s' = logical_channels s"
  by (auto simp: InitializeFacilityLock_def Let_def bind_result_Inr_iff split: option.splits)

lemma save_keeps_channels:
  "logical_channels (SavePinStateToIccProfile ops s) = logical_channels s"
  "SaveFacilityLockToIccProfile ops s = Ok s' \<Longrightarrow> logical_channels s' = logical_channels s"
  by (simp_all add: SavePinStateToIccProfile_def Let_def split_beta split: option.split)
    (auto simp: SaveFacilityLockToIccProfile_def Let_def split_beta bind_result_Inr_iff
      dest!: InitializeSimFileSystemAndSimState_channels InitializeFacilityLock_channels split: option.splits)

lemma modem_save_services:
  assumes "SaveModemState m = Ok m'" and "services_ok m"
  shows "services_ok m' \<and> m_env m' = m_env m"
proof -
  obtain s where s: "SaveFacilityLockToIccProfile dom_xml (SavePinStateToIccProfile dom_xml (m_sim m)) = Ok s" "m' = m\<lparr>m_sim := s\<rparr>"
    using assms(1) by (auto simp: SaveModemState_def bind_result_Inr_iff)
  then have "channels_ok s = channels_ok (m_sim m)"
    using save_keeps_channels(2) [OF s(1)] by (intro channels_ok_cong) (simp add: save_keeps_channels(1))
  then show ?thesis using assms(2) s(2) by (simp add: services_ok_def)
qed

lemma modem_reach_inv: "modem_reach m \<Longrightarrow> sim_inv.inv m"
proof (induction rule: modem_reach.induct)
  case (modem_timer m cb m')
  then show ?case
    using services_ok_callback [of cb m m'] conns_ok_step [OF _ modem_step_callback [of cb m m']]
    by (simp add: sim_invariant)
next
  case (modem_save m m')
  then show ?case using modem_save_services [of m m'] by (simp add: sim_invariant)
next
  case (modem_number m num b m')
  then show ?case unfolding sim_invariant
    by (auto simp: ModemSetPhoneNumber_def SetPhoneNumber_def bind_result_Inr_iff Let_def services_ok_def channels_ok_def
        split: option.splits if_splits)
next
  case (modem_time_zone m tz)
  then show ?case unfolding sim_invariant by (simp add: ModemSetTimeZone_def services_ok_def)
next
  case (modem_world m e)
  then show ?case using conns_ok_conn [of e "m_env m"] by (simp add: sim_invariant)
qed (blast intro: modem_start_inv sim_inv.monitor_iteration_inv sim_inv.SetRemoteClient_accepted_inv)+

text \<open>
  C1: In every state that a modem can reach, by whatever bytes its clients send, whatever callbacks run and
  whatever other processes ask, all services and the connections are consistent at once: no client
  is in a vector twice or in the wrong one and each exists; the call table has positive distinct
  indices and legal calls; no data context is stored twice; the signal strength is a percentage;
  there are three logical channels with their fixed sessions; a message index is below the next one
  and a stored status exists when one is needed; the forwarding table has its four entries.
\<close>

theorem reachable_modem_is_consistent:
  assumes "modem_reach m"
  shows "distinct (clients (m_env m)) \<and> distinct (remote_clients (m_env m)) \<and>
    (\<forall>c\<in>set (clients (m_env m)). \<exists>cl. objs (m_env m) c = Some cl \<and> client_type cl = RIL) \<and>
    (\<forall>c\<in>set (remote_clients (m_env m)). \<exists>cl. objs (m_env m) c = Some cl \<and> client_type cl = REMOTE) \<and>
    calls_ok (m_call m) \<and> contexts_ok (m_data m) \<and> percent_ok (m_network m) \<and> channels_ok (m_sim m) \<and>
    sms_ok (m_sms m) \<and> sup_ok (m_sup m)"
  using modem_reach_inv [OF assms] unfolding sim_invariant
  by (auto simp: services_ok_def conns_ok_def typed_def)

definition sample_modem :: modem where
  "sample_modem =
     (let (n, e) = InitializeServiceState (sample_env\<lparr>clients := [], remote_clients := []\<rparr>)
      in \<lparr>m_sim = sample_sim, m_network = n, m_data = init_data_service, m_call = init_call_service e,
          m_sms = init_sms_service, m_sup = init_sup_service, m_stk = init_stk_service,
          m_misc = ParseTimeZone None \<lparr>timezone = []\<rparr>, m_env = e\<rparr>)"

lemma sample_modem_starts:
  "RegisterModemService \<lparr>icc_profile = Some sample_dom, numeric_operator = No_Document, etc_timezone = None,
     uninitialised_pins = (default_pin, default_pin)\<rparr> (sample_env\<lparr>clients := [], remote_clients := []\<rparr>) = Ok sample_modem"
proof -
  have "GetSimOperator sample_sim = Ok []"
    by (simp add: GetSimOperator_def sample_sim_def sample_dom_def FindAttribute_def)
  then show ?thesis
    by (simp add: RegisterModemService_def sample_modem_def init_sample InitializeSimOperator_def split_beta Let_def)
qed

text \<open>A first connection, after which the monitor has one client.\<close>

definition connect_event :: select_result where
  "connect_event = \<lparr>server_ready = Some True, pipe_ready = False, readable = (\<lambda>_. None)\<rparr>"

definition connected_modem :: modem where
  "connected_modem = AcceptIncomingConnection simulator sample_modem"

lemma connect_event_step: "monitor_iteration simulator connect_event sample_modem = Ok (False, connected_modem)"
  by (simp add: monitor_iteration_def connect_event_def connected_modem_def ready_clients_def Let_def)

lemma conn_sample_modem: "conn (m_env sample_modem) = conn (sample_env\<lparr>clients := [], remote_clients := []\<rparr>)"
proof -
  have "conn (snd (InitializeServiceState e)) = conn e" for e unfolding InitializeServiceState_def Let_def by simp
  then show ?thesis by (simp add: sample_modem_def split_beta Let_def)
qed

lemma conn_connected_modem:
  "conn (m_env connected_modem) = ((objs sample_env)(2 \<mapsto> new_client RIL), [2], [], 3)"
proof -
  have c: "objs (m_env sample_modem) = objs sample_env" "clients (m_env sample_modem) = []"
      "remote_clients (m_env sample_modem) = []" "next_id (m_env sample_modem) = 2"
    using conn_sample_modem by (simp_all add: conn_def) (simp add: sample_env_def)
  show ?thesis
    by (simp add: connected_modem_def AcceptIncomingConnection_def on_env_def c Let_def)
      (simp add: simulator_def ModemOnFirstClientConnected_def, simp add: conn_def c)
qed

lemma connected_modem_wall: "wall (m_env connected_modem) = noon"
proof -
  have "wall (snd (InitializeServiceState e)) = wall e" for e
    unfolding InitializeServiceState_def UpdateSignalStrengthCallback_def OnSignalStrengthChanged_def post_cb_def post_def Let_def by (simp add: split_beta)
  then have "wall (m_env sample_modem) = noon" by (simp add: sample_modem_def split_beta Let_def sample_env_def)
  then show ?thesis
    by (simp add: connected_modem_def AcceptIncomingConnection_def on_env_def Let_def)
      (simp add: simulator_def ModemOnFirstClientConnected_def OnDataRegisterStateChanged_def OnVoiceRegisterStateChanged_def
        TimeUpdate_def Let_def)
qed

lemma connected_modem_reach: "modem_reach connected_modem"
  using modem_event [OF modem_start [OF sample_modem_starts] connect_event_step] by simp

theorem reachable_modem_is_consistent_witness:
  "modem_reach connected_modem \<and> clients (m_env connected_modem) = [2] \<and> calls_ok (m_call connected_modem) \<and>
   (\<exists>cl. objs (m_env connected_modem) 2 = Some cl \<and> client_type cl = RIL)"
  using reachable_modem_is_consistent [OF connected_modem_reach] connected_modem_reach conn_connected_modem
  by (simp add: conn_def)

subsection \<open>How a command finds its handler\<close>

text \<open>All tables in the order in which they are searched.\<close>

definition all_handlers :: "modem_command CommandHandler list" where
  "all_handlers = concat (map handlers_of modem_services)"

primrec pattern_of :: "'h CommandHandler \<Rightarrow> string" where
  "pattern_of (Full_Match p h) = p"
| "pattern_of (Partial_Match p h) = p"

lemma hidden_handlers:
  "length all_handlers = 82"
  "filter (\<lambda>h. find (\<lambda>h'. matches h' (''AT'' @ pattern_of h)) all_handlers \<noteq> Some h) all_handlers =
     [Full_Match ''+CSSN=0,1'' (Misc Cmd_MiscDefault)]"
  by code_simp+

lemma bind_result_Ok: "bind_result r Ok = r"
  by (cases r) simp_all

lemma try_services_long:
  "2 \<le> length command \<Longrightarrow>
     try_services c command ts m =
       (case find (\<lambda>h. matches h command) (concat (map handlers_of ts)) of
          None \<Rightarrow> Ok (False, m)
        | Some h \<Rightarrow> bind_result (run_modem_command c (handler_of h) command m) (\<lambda>m. Ok (True, m)))"
  by (induction ts)
    (auto simp: HandleModemCommand_def find_handler_find find_append bind_result_assoc split: option.split)

lemma sim_handlers_nonempty: "handlers_of kSimService \<noteq> []"
  by (simp add: sim_handlers_def)

lemma try_services_short:
  "length command < 2 \<Longrightarrow> try_services c command modem_services m = Err Out_Of_Range"
  using find_handler_short [OF _ sim_handlers_nonempty, of command]
  by (simp add: modem_services_def HandleModemCommand_def del: handlers_of.simps)

text \<open>
  C8: A modem that is not waiting for a message runs, for a command of at least two characters, exactly
  the first handler that matches in the tables of the eight services, searched in their order;
  when none matches, a RIL client is answered \<^verbatim>\<open>+CME ERROR: 4\<close> and a remote client gets no answer,
  and nothing else changes. A shorter command makes the comparison throw. Of the 82 handlers
  all but one are run by the command that consists of their own pattern: the handler of \<^verbatim>\<open>AT+CSSN=0,1\<close>
  in the last table is hidden by that of \<^verbatim>\<open>AT+CSSN\<close>.
\<close>

theorem command_runs_first_match:
  assumes "\<not> ModemIsWaitingSmsPdu m"
  shows "ModemDispatchCommand c command m =
      (if length command < 2 then Err Out_Of_Range
       else case find (\<lambda>h. matches h command) all_handlers of
              Some h \<Rightarrow> run_modem_command c (handler_of h) command m
            | None \<Rightarrow> Ok (if is_remote c (m_env m) then m
                        else m\<lparr>m_env := SendCommandResponse c ''+CME ERROR: 4'' (m_env m)\<rparr>)) \<and>
    length all_handlers = 82 \<and>
    filter (\<lambda>h. find (\<lambda>h'. matches h' (''AT'' @ pattern_of h)) all_handlers \<noteq> Some h) all_handlers =
      [Full_Match ''+CSSN=0,1'' (Misc Cmd_MiscDefault)]"
proof (intro conjI hidden_handlers)
  have "all_handlers = concat (map handlers_of modem_services)" by (rule all_handlers_def)
  then show "ModemDispatchCommand c command m =
      (if length command < 2 then Err Out_Of_Range
       else case find (\<lambda>h. matches h command) all_handlers of
              Some h \<Rightarrow> run_modem_command c (handler_of h) command m
            | None \<Rightarrow> Ok (if is_remote c (m_env m) then m
                        else m\<lparr>m_env := SendCommandResponse c ''+CME ERROR: 4'' (m_env m)\<rparr>))"
    using assms
    by (auto simp: ModemDispatchCommand_def ModemIsWaitingSmsPdu_def try_services_short try_services_long bind_result_assoc
        bind_result_Ok split: option.split)
qed

lemma connected_modem_not_waiting: "\<not> ModemIsWaitingSmsPdu connected_modem"
proof -
  have "m_sms connected_modem = init_sms_service"
    by (simp add: connected_modem_def AcceptIncomingConnection_def on_env_def simulator_def ModemOnFirstClientConnected_def
        sample_modem_def split_beta Let_def)
  then show ?thesis by (simp add: ModemIsWaitingSmsPdu_def init_sms_service_def)
qed

theorem command_runs_first_match_witness:
  "ModemDispatchCommand 2 ''AT+CUSD=1'' connected_modem = run_modem_command 2 (Call Cmd_CancelUssd) ''AT+CUSD=1'' connected_modem \<and>
   ModemDispatchCommand 2 ''A'' connected_modem = Err Out_Of_Range \<and>
   ModemDispatchCommand 2 ''AT+WSOS?'' connected_modem =
     Ok (connected_modem\<lparr>m_env := SendCommandResponse 2 ''+CME ERROR: 4'' (m_env connected_modem)\<rparr>)"
proof -
  have "find (\<lambda>h. matches h ''AT+CUSD=1'') all_handlers = Some (Partial_Match ''+CUSD='' (Call Cmd_CancelUssd))" by code_simp
  moreover have "find (\<lambda>h. matches h ''AT+WSOS?'') all_handlers = None" by code_simp
  moreover have "\<not> is_remote 2 (m_env connected_modem)"
    using conn_connected_modem by (simp add: conn_def is_remote_def new_client_def)
  ultimately show ?thesis
    using command_runs_first_match [OF connected_modem_not_waiting, of 2 "''AT+CUSD=1''"]
      command_runs_first_match [OF connected_modem_not_waiting, of 2 "''A''"]
      command_runs_first_match [OF connected_modem_not_waiting, of 2 "''AT+WSOS?''"]
    by simp
qed

subsection \<open>Streams of bytes\<close>

text \<open>
  C3: How the operating system cuts the input of a client does not matter. From a state in which the client
  has no incomplete command, reading any pieces (shorter than the buffer, without NUL) one after the
  other does what splitting their concatenation does: newlines count as carriage returns, each
  complete non-empty line is dispatched in order, the state after one line decides whether the next
  ends at a carriage return or at control-Z, and what remains is kept as the incomplete command. In
  particular two ways to cut the same bytes have the same outcome.
\<close>

theorem reading_does_not_depend_on_chunks:
  assumes "incomplete_of c (m_env m) = Some []" and "c < next_id (m_env m)"
    and "\<forall>b\<in>set bs. CHR 0x00 \<notin> set b \<and> length b < 4096"
  shows "read_chunks simulator c bs m =
      bind_result (dispatch_lines ModemIsWaitingSmsPdu (ModemDispatchCommand c) (newlines_to_cr (concat bs)) m)
        (\<lambda>(rest, m'). Ok (m'\<lparr>m_env := set_incomplete c rest (m_env m')\<rparr>)) \<and>
    (\<forall>bs'. concat bs' = concat bs \<longrightarrow> (\<forall>b\<in>set bs'. length b < 4096) \<longrightarrow>
       read_chunks simulator c bs' m = read_chunks simulator c bs m)"
proof -
  have clear: "sim.clear c m = m" using assms(1) by (simp add: sim.clear_def on_env_def set_incomplete_same)
  have lines: "dispatch_lines (IsWaitingSmsPdu simulator) (DispatchCommand simulator c) =
      dispatch_lines ModemIsWaitingSmsPdu (ModemDispatchCommand c)"
    by (simp add: simulator_def)
  have main: "read_chunks simulator c cs m =
      bind_result (dispatch_lines ModemIsWaitingSmsPdu (ModemDispatchCommand c) (newlines_to_cr (concat cs)) m)
        (\<lambda>(rest, m'). Ok (m'\<lparr>m_env := set_incomplete c rest (m_env m')\<rparr>))"
    if "\<forall>b\<in>set cs. CHR 0x00 \<notin> set b \<and> length b < 4096" for cs
    using sim.read_chunks_lines [of c m "[]" cs] assms(1,2) that
    unfolding clear lines by (simp add: kMaxCommandLength_def on_env_def dispatch_lines.simps [of _ _ "[]"])
  have "read_chunks simulator c bs' m = read_chunks simulator c bs m"
    if same: "concat bs' = concat bs" and short: "\<forall>b\<in>set bs'. length b < 4096" for bs'
  proof -
    have "CHR 0x00 \<notin> set (concat bs)" using assms(3) by auto
    then have "\<forall>b\<in>set bs'. CHR 0x00 \<notin> set b" unfolding same [symmetric] by simp
    then show ?thesis using main [of bs] main [of bs'] assms(3) same short by simp
  qed
  then show ?thesis using main [OF assms(3)] by blast
qed

theorem reading_does_not_depend_on_chunks_witness:
  "read_chunks simulator 2 [''AT+'', ''CUSD=1'' @ [CHR 0x0A]] connected_modem =
   read_chunks simulator 2 [''AT+CUSD=1'' @ [CHR 0x0A]] connected_modem"
proof -
  have "incomplete_of 2 (m_env connected_modem) = Some []" "2 < next_id (m_env connected_modem)"
    using conn_connected_modem by (simp_all add: conn_def incomplete_of_def new_client_def)
  from reading_does_not_depend_on_chunks [OF this, of "[''AT+CUSD=1'' @ [CHR 0x0A]]"] show ?thesis
    by (auto simp del: read_chunks.simps)
qed

subsection \<open>Leaving the loop\<close>

text \<open>
  C11: The request of the destructor to leave the loop is seen only when an even number of triggers is still
  in the pipe before it. Triggers and the request are written with their terminating NUL,
  three bytes each, and are read in pairs: after an odd number of unread triggers the letters of
  the request fall into different reads and the loop never ends, however many events follow; after
  an even number \<open>k\<close> it is left at the event after \<open>3k/2\<close> reads.
\<close>

theorem exit_request_needs_even_triggers:
  assumes "pipe (m_env m) = []"
  shows "\<exists>m'. MonitorLoop simulator (replicate n pipe_event) (m\<lparr>m_env := request_exit ((trigger ^^ k) (m_env m))\<rparr>) =
    Ok (even k \<and> 3 * k div 2 < n, m')"
proof -
  have "pipe (m_env (m\<lparr>m_env := request_exit ((trigger ^^ k) (m_env m))\<rparr>)) = triggers k @ ''KO'' @ [CHR 0x00]"
    using assms by (simp add: request_exit_def pipe_after_triggers)
  then show ?thesis using sim.exit_seen by simp
qed

theorem exit_request_needs_even_triggers_witness:
  "(\<exists>m'. MonitorLoop simulator (replicate 1 pipe_event)
      (connected_modem\<lparr>m_env := request_exit ((trigger ^^ 0) (sample_env))\<rparr>) = Ok (True, m')) \<and>
   (\<forall>n. \<exists>m'. MonitorLoop simulator (replicate n pipe_event)
      (connected_modem\<lparr>m_env := request_exit ((trigger ^^ 1) (sample_env))\<rparr>) = Ok (False, m'))"
proof -
  have "pipe (m_env (connected_modem\<lparr>m_env := sample_env\<rparr>)) = []" by (simp add: sample_env_def)
  from exit_request_needs_even_triggers [OF this, of 1 0] exit_request_needs_even_triggers [OF this, of _ 1]
  show ?thesis by simp
qed

end
