(* ===== verification/Disjoint_Range_Set.thy ===== *)
theory Disjoint_Range_Set
  imports Prelude
begin

section \<open>The disjoint range set of the I/O library\<close>

text \<open>
  \<^verbatim>\<open>io/disjoint_range_set.cc\<close>: the set of byte ranges that a lazily loaded file has already
  downloaded. A \<^verbatim>\<open>Range\<close> is a pair of \<^verbatim>\<open>uint64_t\<close>; the \<^verbatim>\<open>std::set<Range>\<close> is the list of
  its elements in iteration order. An iterator into it is a split of the list into the elements before
  it and the elements from it on.
\<close>

subsection \<open>Range\<close>

record range =
  rstart :: u64
  rend :: u64

definition Range :: "u64 \<Rightarrow> u64 \<Rightarrow> range" where
  "Range s e = \<lparr>rstart = s, rend = e\<rparr>"

definition Contains :: "range \<Rightarrow> range \<Rightarrow> bool" where
  "Contains r other \<longleftrightarrow> rstart r \<le> rstart other \<and> rend r \<ge> rend other"

definition CanMerge :: "range \<Rightarrow> range \<Rightarrow> bool" where
  "CanMerge r other \<longleftrightarrow> rstart r \<le> rend other \<and> rstart other \<le> rend r"

definition Merge :: "range \<Rightarrow> range \<Rightarrow> range" where
  "Merge r other = Range (min (rstart r) (rstart other)) (max (rend r) (rend other))"

definition range_less :: "range \<Rightarrow> range \<Rightarrow> bool" where
  "range_less r other \<longleftrightarrow>
     rstart r < rstart other \<or> (rstart r = rstart other \<and> rend r > rend other)"

definition AsPair :: "range \<Rightarrow> u64 \<times> u64" where
  "AsPair r = (rstart r, rend r)"

lemma Range_sel [simp]: "rstart (Range s e) = s" "rend (Range s e) = e"
  by (simp_all add: Range_def)

lemma Range_eta [simp]: "Range (rstart r) (rend r) = r"
  by (simp add: Range_def)

lemma range_less_irrefl [simp]: "\<not> range_less r r"
  by (simp add: range_less_def)

lemma range_less_trans: "range_less a b \<Longrightarrow> range_less b c \<Longrightarrow> range_less a c"
  by (auto simp: range_less_def)

lemma range_less_total: "range_less a b \<or> a = b \<or> range_less b a"
  by (cases a; cases b) (auto simp: range_less_def)

subsection \<open>The ordered container\<close>

text \<open>
  \<^verbatim>\<open>std::set::upper_bound(r)\<close>: the iterator to the first element greater than \<open>r\<close>.
  \<^verbatim>\<open>std::set::emplace\<close>: insertion at the place the comparison gives, nothing when an
  equivalent element is there.
\<close>

definition before_ub :: "range list \<Rightarrow> range \<Rightarrow> range list" where
  "before_ub rs r = takeWhile (\<lambda>e. \<not> range_less r e) rs"

definition from_ub :: "range list \<Rightarrow> range \<Rightarrow> range list" where
  "from_ub rs r = dropWhile (\<lambda>e. \<not> range_less r e) rs"

fun emplace :: "range \<Rightarrow> range list \<Rightarrow> range list" where
  "emplace r [] = [r]"
| "emplace r (e # es) =
     (if range_less r e then r # e # es
      else if range_less e r then e # emplace r es
      else e # es)"

subsection \<open>Operations of DisjointRangeSet\<close>

definition ContainsRange :: "range list \<Rightarrow> u64 \<Rightarrow> u64 \<Rightarrow> bool result" where
  "ContainsRange ranges s e =
     (if \<not> s \<le> e then Err Check_Failed
      else if ranges = [] then Ok False
      else
        let r = Range s e;
            before = before_ub ranges r
        in if before \<noteq> [] then Ok (Contains (last before) r)
           else Ok (Contains (hd ranges) r))"

text \<open>
  The forward loop of \<^verbatim>\<open>InsertRange\<close>: while the next range can be merged, take it into the new
  range and erase it. The result is the new range and the ranges from the iterator on.
\<close>

fun merge_forward :: "range \<Rightarrow> range list \<Rightarrow> range \<times> range list" where
  "merge_forward new_range [] = (new_range, [])"
| "merge_forward new_range (it # rest) =
     (if CanMerge new_range it then merge_forward (Merge new_range it) rest
      else (new_range, it # rest))"

definition InsertRange :: "range list \<Rightarrow> u64 \<Rightarrow> u64 \<Rightarrow> range list result" where
  "InsertRange ranges s e =
     (if \<not> s \<le> e then Err Check_Failed
      else bind_result (ContainsRange ranges s e) (\<lambda>contained.
        if contained then Ok ranges
        else
          let r = Range s e;
              before = before_ub ranges r;
              (new_range, rest) = merge_forward r (from_ub ranges r)
          in if before \<noteq> [] \<and> CanMerge new_range (last before)
             then Ok (emplace (Merge new_range (last before)) (butlast before @ rest))
             else Ok (emplace new_range (before @ rest))))"

definition EndOfContainingRange :: "range list \<Rightarrow> u64 \<Rightarrow> u64 option" where
  "EndOfContainingRange ranges s =
     (let test = Range s (s + 1);
          before = before_ub ranges test
      in if before = [] then None
         else if Contains (last before) test then Some (rend (last before)) else None)"

definition AllRanges :: "range list \<Rightarrow> (u64 \<times> u64) list" where
  "AllRanges ranges = map AsPair ranges"

text \<open>
  \<^verbatim>\<open>io/serialize_disjoint_range_set.cc\<close>. The wire format is protobuf's: \<open>SerializeAsString\<close> and
  \<open>ParseFromString\<close> of the generated message class are parameters (\<open>None\<close> is a failed parse). The
  message is the list of its \<open>(start, end)\<close> members.
\<close>

definition Serialize :: "((u64 \<times> u64) list \<Rightarrow> 'bytes) \<Rightarrow> range list \<Rightarrow> 'bytes" where
  "Serialize SerializeAsString range_set = SerializeAsString (AllRanges range_set)"

fun insert_members :: "range list \<Rightarrow> (u64 \<times> u64) list \<Rightarrow> range list result" where
  "insert_members ranges [] = Ok ranges"
| "insert_members ranges ((s, e) # members) =
     bind_result (InsertRange ranges s e) (\<lambda>ranges'. insert_members ranges' members)"

definition DeserializeDisjointRangeSet ::
    "('bytes \<Rightarrow> (u64 \<times> u64) list option) \<Rightarrow> 'bytes \<Rightarrow> range list result" where
  "DeserializeDisjointRangeSet ParseFromString data =
     (case ParseFromString data of
        None \<Rightarrow> Err Cf_Error
      | Some members \<Rightarrow> insert_members [] members)"

subsection \<open>Invariant and abstraction\<close>

text \<open>
  Consecutive ranges neither overlap nor touch: each ends strictly below the start of the next one.
  What the set stands for is the set of positions that its half-open ranges cover.
\<close>

definition apart :: "range \<Rightarrow> range \<Rightarrow> bool" where
  "apart a b \<longleftrightarrow> rend a < rstart b"

definition ranges_inv :: "range list \<Rightarrow> bool" where
  "ranges_inv rs \<longleftrightarrow> sorted_wrt apart rs \<and> (\<forall>r\<in>set rs. rstart r \<le> rend r)"

definition covers :: "range \<Rightarrow> u64 set" where
  "covers r = {rstart r..<rend r}"

definition covered :: "range list \<Rightarrow> u64 set" where
  "covered rs = (\<Union>r\<in>set rs. covers r)"

lemma ranges_inv_Nil [simp]: "ranges_inv []"
  by (simp add: ranges_inv_def)

lemma ranges_inv_Cons:
  "ranges_inv (r # rs) \<longleftrightarrow>
     rstart r \<le> rend r \<and> (\<forall>q\<in>set rs. rend r < rstart q) \<and> ranges_inv rs"
  by (auto simp: ranges_inv_def apart_def)

lemma ranges_inv_append:
  "ranges_inv (xs @ ys) \<longleftrightarrow>
     ranges_inv xs \<and> ranges_inv ys \<and> (\<forall>x\<in>set xs. \<forall>y\<in>set ys. rend x < rstart y)"
  by (auto simp: ranges_inv_def sorted_wrt_append apart_def)

lemma covered_simps [simp]:
  "covered [] = {}"
  "covered (r # rs) = covers r \<union> covered rs"
  "covered (xs @ ys) = covered xs \<union> covered ys"
  by (auto simp: covered_def)

subsection \<open>Upper bound, merging and emplacing\<close>

lemma before_from_ub: "before_ub rs r @ from_ub rs r = rs"
  by (simp add: before_ub_def from_ub_def)

lemma before_ub_not_less: "e \<in> set (before_ub rs r) \<Longrightarrow> \<not> range_less r e"
  unfolding before_ub_def by (rule set_takeWhileD [THEN conjunct2])

lemma from_ub_less:
  assumes inv: "ranges_inv rs" and e: "e \<in> set (from_ub rs r)"
  shows "range_less r e"
proof -
  from e obtain y ys where y: "from_ub rs r = y # ys" by (cases "from_ub rs r") auto
  then have less: "range_less r y" unfolding from_ub_def by (blast dest: dropWhile_hd_not)
  have "ranges_inv (before_ub rs r @ from_ub rs r)" using inv by (simp add: before_from_ub)
  then have "ranges_inv (y # ys)" using y by (simp add: ranges_inv_append)
  then have "e = y \<or> rstart y < rstart e"
    using e y by (fastforce simp: ranges_inv_Cons)
  then show ?thesis using less by (auto simp: range_less_def)
qed

lemma before_ub_last:
  assumes "ranges_inv rs" and "q \<in> set (before_ub rs r)"
  shows "before_ub rs r \<noteq> [] \<and> (q = last (before_ub rs r) \<or> rend q < rstart (last (before_ub rs r)))"
proof -
  obtain bs b where bs: "before_ub rs r = bs @ [b]"
    using assms(2) by (metis last_butlast_or_Nil empty_iff empty_set)
  have "ranges_inv (before_ub rs r @ from_ub rs r)" using assms(1) by (simp add: before_from_ub)
  then have "\<forall>x\<in>set bs. rend x < rstart b" by (simp add: bs ranges_inv_append)
  then show ?thesis using assms(2) by (auto simp: bs)
qed

lemma emplace_between:
  assumes "\<forall>x\<in>set xs. range_less x r" and "\<forall>y\<in>set ys. range_less r y"
  shows "emplace r (xs @ ys) = xs @ r # ys"
  using assms(1)
proof (induction xs)
  case Nil
  show ?case using assms(2) by (cases ys) auto
next
  case (Cons x xs)
  then have "range_less x r" by simp
  then have "\<not> range_less r x" using range_less_irrefl range_less_trans by blast
  then show ?case using Cons by simp
qed

lemma covers_Merge:
  assumes "CanMerge a b" and "rstart a \<le> rend a" and "rstart b \<le> rend b"
  shows "covers (Merge a b) = covers a \<union> covers b"
  using assms by (auto simp: covers_def Merge_def CanMerge_def min_def max_def)

lemma Merge_sel [simp]:
  "rstart (Merge a b) = min (rstart a) (rstart b)"
  "rend (Merge a b) = max (rend a) (rend b)"
  by (simp_all add: Merge_def)

lemma merge_forward_spec:
  assumes "merge_forward n l = (n', rest)" and "rstart n \<le> rend n" and "ranges_inv l"
    and "\<forall>q\<in>set l. rstart n \<le> rstart q"
  shows "rstart n' = rstart n" and "rend n \<le> rend n'" and "ranges_inv (n' # rest)"
    and "covers n' \<union> covered rest = covers n \<union> covered l" and "set rest \<subseteq> set l"
proof -
  have "rstart n' = rstart n \<and> rend n \<le> rend n' \<and> ranges_inv (n' # rest) \<and>
        covers n' \<union> covered rest = covers n \<union> covered l \<and> set rest \<subseteq> set l"
    using assms
  proof (induction n l rule: merge_forward.induct)
    case (1 n)
    then show ?case by (simp add: ranges_inv_Cons)
  next
    case (2 n it rest0)
    show ?case
    proof (cases "CanMerge n it")
      case True
      have it: "rstart it \<le> rend it" "rstart n \<le> rstart it"
        using "2.prems" by (auto simp: ranges_inv_Cons)
      have start: "rstart (Merge n it) = rstart n" using it(2) by (simp add: min_def)
      have "covers (Merge n it) = covers n \<union> covers it"
        using covers_Merge True "2.prems"(2) it(1) by blast
      moreover have "rstart (Merge n it) \<le> rend (Merge n it)"
        using "2.prems"(2) unfolding start by (simp add: le_max_iff_disj)
      moreover have "\<forall>q\<in>set rest0. rstart (Merge n it) \<le> rstart q"
        using "2.prems"(4) unfolding start by simp
      ultimately show ?thesis
        using "2.IH" True "2.prems" start
        by (simp add: ranges_inv_Cons Un_assoc) (metis max.bounded_iff subset_insertI2)
    next
      case False
      then have "rend n < rstart it"
        using "2.prems" by (auto simp: CanMerge_def ranges_inv_Cons)
      then have "\<forall>q\<in>set (it # rest0). rend n < rstart q"
        using "2.prems"(3) by (fastforce simp: ranges_inv_Cons)
      then show ?thesis using False "2.prems" by (auto simp: ranges_inv_Cons)
    qed
  qed
  then show "rstart n' = rstart n" and "rend n \<le> rend n'" and "ranges_inv (n' # rest)"
    and "covers n' \<union> covered rest = covers n \<union> covered l" and "set rest \<subseteq> set l"
    by blast+
qed

subsection \<open>Behaviour of the operations\<close>

lemma ContainsRange_eq:
  assumes inv: "ranges_inv rs" and le: "s \<le> e"
  shows "ContainsRange rs s e = Ok (\<exists>q\<in>set rs. Contains q (Range s e))"
proof -
  let ?r = "Range s e" and ?b = "before_ub rs (Range s e)"
  have only_last: "?b \<noteq> [] \<and> q = last ?b" if q: "q \<in> set rs" and c: "Contains q ?r" for q
  proof -
    have "\<not> range_less ?r q" using c by (auto simp: range_less_def Contains_def)
    then have "q \<in> set ?b"
      using q from_ub_less [OF inv] before_from_ub [of rs ?r] by (metis Un_iff set_append)
    moreover have "\<not> rend q < rstart (last ?b)"
    proof -
      have "last ?b \<in> set ?b" using calculation by (metis empty_iff empty_set last_in_set)
      then have "rstart (last ?b) \<le> s"
        using before_ub_not_less [of "last ?b" rs ?r] by (auto simp: range_less_def)
      then show ?thesis using c le by (auto simp: Contains_def)
    qed
    ultimately show ?thesis using before_ub_last [OF inv, of q ?r] by blast
  qed
  have last_in: "last ?b \<in> set rs" if "?b \<noteq> []"
    using that before_from_ub [of rs ?r] by (metis Un_iff last_in_set set_append)
  show ?thesis
  proof (cases "?b = []")
    case True
    then have no: "\<not> (\<exists>q\<in>set rs. Contains q ?r)" using only_last by blast
    then have "rs \<noteq> [] \<Longrightarrow> \<not> Contains (hd rs) ?r" by (meson list.set_sel(1))
    then show ?thesis using True le no by (simp add: ContainsRange_def Let_def)
  next
    case False
    then have "rs \<noteq> []" using last_in by fastforce
    moreover have "(\<exists>q\<in>set rs. Contains q ?r) \<longleftrightarrow> Contains (last ?b) ?r"
      using only_last last_in False by blast
    ultimately show ?thesis using False le by (simp add: ContainsRange_def Let_def)
  qed
qed

lemma Contains_covered: "q \<in> set rs \<Longrightarrow> Contains q (Range s e) \<Longrightarrow> {s..<e} \<subseteq> covered rs"
  unfolding covered_def covers_def Contains_def Range_sel
  by (meson UN_upper atLeastLessThan_subset_iff subset_trans ivl_subset)

lemma interval_in_one_range:
  assumes inv: "ranges_inv rs" and lt: "s < e" and sub: "{s..<e} \<subseteq> covered rs"
  shows "\<exists>q\<in>set rs. Contains q (Range s e)"
proof -
  obtain q where q: "q \<in> set rs" "rstart q \<le> s" "s < rend q"
    using lt sub by (fastforce simp: covered_def covers_def)
  have "e \<le> rend q"
  proof (rule ccontr)
    assume "\<not> e \<le> rend q"
    then have "rend q \<in> {s..<e}" using q(3) by (auto simp: not_le less_imp_le)
    then have "rend q \<in> covered rs" using sub by blast
    then obtain q' where q': "q' \<in> set rs" "rstart q' \<le> rend q" "rend q < rend q'"
      by (auto simp: covered_def covers_def)
    have "sorted_wrt apart rs" using inv by (simp add: ranges_inv_def)
    then have "q = q' \<or> apart q q' \<or> apart q' q"
      using q(1) q'(1) by (metis (no_types) in_set_conv_nth linorder_neqE_nat sorted_wrt_nth_less)
    moreover have "rstart q \<le> rend q" "rstart q' \<le> rend q'"
      using inv q(1) q'(1) by (auto simp: ranges_inv_def)
    ultimately show False using q'(2,3) by (auto simp: apart_def)
  qed
  then show ?thesis using q by (auto simp: Contains_def)
qed

text \<open>A contained range is covered; with at least one position, the converse holds too.\<close>

lemma ContainsRange_covered:
  assumes inv: "ranges_inv rs" and lt: "s < e"
  shows "ContainsRange rs s e = Ok ({s..<e} \<subseteq> covered rs)"
proof -
  have "(\<exists>q\<in>set rs. Contains q (Range s e)) \<longleftrightarrow> {s..<e} \<subseteq> covered rs"
  proof
    assume "\<exists>q\<in>set rs. Contains q (Range s e)"
    then show "{s..<e} \<subseteq> covered rs" by (blast dest: Contains_covered)
  next
    assume "{s..<e} \<subseteq> covered rs"
    then show "\<exists>q\<in>set rs. Contains q (Range s e)" by (rule interval_in_one_range [OF inv lt])
  qed
  then show ?thesis using ContainsRange_eq [OF inv, of s e] lt by simp
qed

text \<open>
  A range that lies strictly between its neighbours is emplaced between them and keeps the set
  disjoint.
\<close>

lemma emplace_apart:
  assumes "ranges_inv xs" and "ranges_inv ys" and "rstart r \<le> rend r"
    and "\<forall>x\<in>set xs. rend x < rstart r" and "\<forall>y\<in>set ys. rend r < rstart y"
  shows "emplace r (xs @ ys) = xs @ r # ys" and "ranges_inv (xs @ r # ys)"
proof -
  have "\<forall>x\<in>set xs. range_less x r"
    using assms(1,4) by (auto simp: range_less_def ranges_inv_def intro: le_less_trans)
  moreover have "\<forall>y\<in>set ys. range_less r y"
    using assms(3,5) by (auto simp: range_less_def intro: le_less_trans)
  ultimately show "emplace r (xs @ ys) = xs @ r # ys" by (rule emplace_between)
  have "\<forall>x\<in>set xs. \<forall>y\<in>set ys. rend x < rstart y"
    using assms(3-5) by (meson le_less_trans less_trans)
  then show "ranges_inv (xs @ r # ys)"
    using assms by (simp add: ranges_inv_append ranges_inv_Cons)
qed

text \<open>
  The last step of the insertion: \<open>n\<close> is the new range after the forward merge, \<open>b\<close> the ranges
  before the iterator, \<open>rest\<close> the ranges from it on.
\<close>

definition merge_back :: "range \<Rightarrow> range list \<Rightarrow> range list \<Rightarrow> range list" where
  "merge_back new_range before rest =
     (if before \<noteq> [] \<and> CanMerge new_range (last before)
      then emplace (Merge new_range (last before)) (butlast before @ rest)
      else emplace new_range (before @ rest))"

lemma InsertRange_alt:
  "InsertRange ranges s e =
     (if \<not> s \<le> e then Err Check_Failed
      else bind_result (ContainsRange ranges s e) (\<lambda>contained.
        if contained then Ok ranges
        else let (n, rest) = merge_forward (Range s e) (from_ub ranges (Range s e))
             in Ok (merge_back n (before_ub ranges (Range s e)) rest)))"
  by (simp add: InsertRange_def merge_back_def Let_def if_distrib [of Inr] split: prod.split cong: if_cong)

lemma merge_back_spec:
  assumes b: "ranges_inv b" and n: "ranges_inv (n # rest)"
    and before: "\<forall>x\<in>set b. rstart x \<le> rstart n" "\<forall>x\<in>set b. \<forall>y\<in>set rest. rend x < rstart y"
  shows "ranges_inv (merge_back n b rest)"
    and "covered (merge_back n b rest) = covered b \<union> covers n \<union> covered rest"
proof -
  have n': "rstart n \<le> rend n" "ranges_inv rest" "\<forall>y\<in>set rest. rend n < rstart y"
    using n by (simp_all add: ranges_inv_Cons)
  have "ranges_inv (merge_back n b rest) \<and>
    covered (merge_back n b rest) = covered b \<union> covers n \<union> covered rest"
  proof (cases "b \<noteq> [] \<and> CanMerge n (last b)")
    case True
    then obtain bs l where bs: "b = bs @ [l]" by (metis last_butlast_or_Nil)
    have l: "rstart l \<le> rend l" "rstart l \<le> rstart n" "ranges_inv bs" "\<forall>x\<in>set bs. rend x < rstart l"
      using b before(1) by (auto simp: bs ranges_inv_append ranges_inv_Cons)
    have m: "rstart (Merge n l) = rstart l" using l(2) by simp
    have "rstart (Merge n l) \<le> rend (Merge n l)" unfolding m using l(1) by (simp add: le_max_iff_disj)
    moreover have "\<forall>x\<in>set bs. rend x < rstart (Merge n l)" unfolding m by (rule l(4))
    moreover have "\<forall>y\<in>set rest. rend (Merge n l) < rstart y" using n'(3) before(2) by (auto simp: bs)
    ultimately have "emplace (Merge n l) (bs @ rest) = bs @ Merge n l # rest"
        and "ranges_inv (bs @ Merge n l # rest)"
      by (rule emplace_apart [OF l(3) n'(2)])+
    moreover have "covers (Merge n l) = covers n \<union> covers l"
      using True l(1) n'(1) by (intro covers_Merge) (auto simp: bs)
    ultimately show ?thesis using True by (auto simp: bs merge_back_def)
  next
    case False
    have "\<forall>x\<in>set b. rend x < rstart n"
    proof (cases b rule: rev_cases)
      case (snoc bs l)
      have "rstart l \<le> rstart n" using before(1) by (simp add: snoc)
      then have "rstart l \<le> rend n" using n'(1) by (rule order_trans)
      then have "rend l < rstart n" using False by (auto simp: snoc CanMerge_def not_le)
      moreover have "\<forall>x\<in>set bs. rend x < rstart l" using b by (simp add: snoc ranges_inv_append)
      ultimately show ?thesis
        using \<open>rstart l \<le> rstart n\<close> by (auto simp: snoc intro: less_le_trans)
    qed simp
    then show ?thesis
      using emplace_apart [OF b n'(2,1) _ n'(3)] False by (auto simp: merge_back_def)
  qed
  then show "ranges_inv (merge_back n b rest)"
    and "covered (merge_back n b rest) = covered b \<union> covers n \<union> covered rest" by blast+
qed

text \<open>
  The insertion of a range that is not contained yet: the forward merge leaves a range that starts
  where the inserted one does; the back merge takes in the range before it or leaves it apart.
\<close>

lemma insert_not_contained:
  assumes inv: "ranges_inv rs" and le: "s \<le> e"
    and mf: "merge_forward (Range s e) (from_ub rs (Range s e)) = (n, rest)"
  shows "ranges_inv (merge_back n (before_ub rs (Range s e)) rest)"
    and "covered (merge_back n (before_ub rs (Range s e)) rest) = covered rs \<union> {s..<e}"
proof -
  let ?b = "before_ub rs (Range s e)" and ?f = "from_ub rs (Range s e)"
  have split_inv: "ranges_inv ?b" "ranges_inv ?f" "\<forall>x\<in>set ?b. \<forall>y\<in>set ?f. rend x < rstart y"
    using inv before_from_ub [of rs "Range s e"] by (metis ranges_inv_append)+
  have starts: "\<forall>q\<in>set ?f. rstart (Range s e) \<le> rstart q"
    using from_ub_less [OF inv] by (fastforce simp: range_less_def)
  have valid: "rstart (Range s e) \<le> rend (Range s e)" using le by simp
  note n = merge_forward_spec [OF mf valid split_inv(2) starts]
  have b_le: "\<forall>x\<in>set ?b. rstart x \<le> rstart n"
    unfolding n(1) using before_ub_not_less by (fastforce simp: range_less_def)
  have b_rest: "\<forall>x\<in>set ?b. \<forall>y\<in>set rest. rend x < rstart y"
    using split_inv(3) n(5) by blast
  show "ranges_inv (merge_back n ?b rest)"
    by (rule merge_back_spec [OF split_inv(1) n(3) b_le b_rest])
  have "covered rs = covered ?b \<union> covered ?f"
    using before_from_ub [of rs "Range s e"] by (metis covered_simps(3))
  moreover have "covers n \<union> covered rest = {s..<e} \<union> covered ?f" using n(4) by (simp add: covers_def)
  ultimately show "covered (merge_back n ?b rest) = covered rs \<union> {s..<e}"
    using merge_back_spec(2) [OF split_inv(1) n(3) b_le b_rest] by auto
qed

lemma InsertRange_ok:
  assumes inv: "ranges_inv rs" and le: "s \<le> e"
  shows "\<exists>rs'. InsertRange rs s e = Ok rs' \<and> ranges_inv rs' \<and> covered rs' = covered rs \<union> {s..<e}"
proof (cases "\<exists>q\<in>set rs. Contains q (Range s e)")
  case True
  then have "{s..<e} \<subseteq> covered rs" by (blast dest: Contains_covered)
  then have "covered rs \<union> {s..<e} = covered rs" by blast
  then show ?thesis
    using True inv le by (simp add: InsertRange_alt ContainsRange_eq [OF inv le])
next
  case False
  obtain n rest where mf: "merge_forward (Range s e) (from_ub rs (Range s e)) = (n, rest)"
    by fastforce
  show ?thesis
    using insert_not_contained [OF inv le mf] False le mf
    by (simp add: InsertRange_alt ContainsRange_eq [OF inv le])
qed

text \<open>
  \<^verbatim>\<open>EndOfContainingRange\<close> looks for the range that contains \<^verbatim>\<open>[start, start + 1)\<close>; below the
  largest \<^verbatim>\<open>uint64_t\<close> the sum does not wrap.
\<close>

lemma u64_less_iff_Suc_le: "s \<noteq> - 1 \<Longrightarrow> s < (e::u64) \<longleftrightarrow> s + 1 \<le> e"
proof -
  assume "s \<noteq> - 1"
  then have "unat (s + 1) = unat s + 1"
    by (metis Suc_eq_plus1 add.commute add_eq_0_iff2 unatSuc)
  then show ?thesis by (simp add: word_less_nat_alt word_le_nat_alt Suc_le_eq)
qed

lemma EndOfContainingRange_iff:
  assumes inv: "ranges_inv rs" and s: "s \<noteq> - 1"
  shows "EndOfContainingRange rs s = Some e \<longleftrightarrow> (\<exists>q\<in>set rs. s \<in> covers q \<and> e = rend q)"
proof -
  let ?t = "Range s (s + 1)"
  let ?b = "before_ub rs ?t"
  have contains: "Contains q ?t \<longleftrightarrow> s \<in> covers q" for q
    using u64_less_iff_Suc_le [OF s] by (simp add: Contains_def covers_def)
  have in_before: "?b \<noteq> [] \<and> q = last ?b" if q: "q \<in> set rs" "s \<in> covers q" for q
  proof -
    have c: "rstart q \<le> s" "s + 1 \<le> rend q" using q(2) contains [of q] by (simp_all add: Contains_def)
    then have "q \<in> set ?b"
      using q(1) from_ub_less [OF inv] before_from_ub [of rs ?t]
      by (fastforce simp: range_less_def dest: arg_cong [where f = set])
    moreover have "\<not> rend q < rstart (last ?b)"
    proof -
      have "last ?b \<in> set ?b" using calculation by (metis empty_iff empty_set last_in_set)
      then have "rstart (last ?b) \<le> s"
        using before_ub_not_less [of "last ?b" rs ?t] by (auto simp: range_less_def)
      then show ?thesis using q(2) by (auto simp: covers_def)
    qed
    ultimately show ?thesis using before_ub_last [OF inv, of q ?t] by blast
  qed
  have "last ?b \<in> set rs" if "?b \<noteq> []"
    using that before_from_ub [of rs ?t] by (metis Un_iff last_in_set set_append)
  then show ?thesis
    using in_before contains unfolding EndOfContainingRange_def Let_def by (auto split: if_splits)
qed

text \<open>The reported end is the first position after \<open>s\<close> that is not covered.\<close>

lemma EndOfContainingRange_covered:
  assumes inv: "ranges_inv rs" and s: "s \<noteq> - 1" and r: "EndOfContainingRange rs s = Some e"
  shows "s < e" and "{s..<e} \<subseteq> covered rs" and "e \<notin> covered rs"
proof -
  obtain q where q: "q \<in> set rs" "rstart q \<le> s" "s < rend q" "e = rend q"
    using EndOfContainingRange_iff [OF inv s, of e] r by (auto simp: covers_def)
  show "s < e" using q by simp
  show "{s..<e} \<subseteq> covered rs"
    using q Contains_covered [of q rs s e] by (simp add: Contains_def)
  show "e \<notin> covered rs"
  proof
    assume "e \<in> covered rs"
    then have "{s..<e} \<union> {e} \<subseteq> covered rs" using \<open>{s..<e} \<subseteq> covered rs\<close> by blast
    moreover obtain q' where q': "q' \<in> set rs" "rstart q' \<le> e" "e < rend q'"
      using \<open>e \<in> covered rs\<close> by (auto simp: covered_def covers_def)
    have "q = q' \<or> apart q q' \<or> apart q' q"
      using inv q(1) q'(1) unfolding ranges_inv_def
      by (metis (no_types) in_set_conv_nth linorder_neqE_nat sorted_wrt_nth_less)
    then show False using q q' by (auto simp: apart_def)
  qed
qed

lemma EndOfContainingRange_None:
  assumes inv: "ranges_inv rs" and s: "s \<noteq> - 1"
  shows "EndOfContainingRange rs s = None \<longleftrightarrow> s \<notin> covered rs"
  using EndOfContainingRange_iff [OF inv s] unfolding covered_def by (metis UN_iff not_Some_eq)

subsection \<open>Canonical form\<close>

text \<open>
  Two sets without empty ranges that cover the same positions are the same list of ranges, so the
  structural \<^verbatim>\<open>operator==\<close> decides equality of the covered positions.
\<close>

definition nonempty_ranges :: "range list \<Rightarrow> bool" where
  "nonempty_ranges rs \<longleftrightarrow> (\<forall>r\<in>set rs. rstart r < rend r)"

lemma covered_bounds:
  assumes "ranges_inv (r # rs)" and "x \<in> covered (r # rs)"
  shows "rstart r \<le> x"
  using assms by (fastforce simp: ranges_inv_Cons covered_def covers_def)

lemma covered_same_head:
  assumes "ranges_inv (a # as)" "ranges_inv (b # bs)" "rstart a < rend a" "rstart b < rend b"
    and eq: "covered (a # as) = covered (b # bs)"
  shows "a = b"
proof -
  have "rstart a \<in> covered (b # bs)" "rstart b \<in> covered (a # as)"
    using assms(3,4) eq by (auto simp: covers_def)
  then have start: "rstart a = rstart b"
    using covered_bounds [OF assms(1)] covered_bounds [OF assms(2)] by (meson order_antisym)
  have head_end: "rend x \<le> rend y"
    if xy: "ranges_inv (x # xs)" "ranges_inv (y # ys)" "rstart x = rstart y" "rstart y < rend y"
      "covered (x # xs) = covered (y # ys)" for x y xs ys
  proof (rule ccontr)
    assume "\<not> rend x \<le> rend y"
    then have "rend y \<in> covered (y # ys)"
      using xy(3-5) by (auto simp: covers_def not_le less_imp_le)
    then have "rend y \<in> covered ys" by (simp add: covers_def)
    then obtain q where "q \<in> set ys" "rstart q \<le> rend y" by (auto simp: covered_def covers_def)
    then show False using xy(2) by (auto simp: ranges_inv_Cons)
  qed
  have "rend a = rend b"
    using head_end [OF assms(1,2) start assms(4) eq] head_end [OF assms(2,1) start [symmetric] assms(3) eq [symmetric]]
    by (rule order_antisym)
  then show ?thesis using start by (cases a; cases b) simp
qed

lemma covered_tail:
  assumes "ranges_inv (a # as)"
  shows "covered as = covered (a # as) - covers a"
  using assms by (fastforce simp: ranges_inv_Cons covered_def covers_def)

lemma covered_canonical:
  assumes "ranges_inv as" "ranges_inv bs" "nonempty_ranges as" "nonempty_ranges bs"
    and "covered as = covered bs"
  shows "as = bs"
  using assms
proof (induction as arbitrary: bs)
  case Nil
  then show ?case by (cases bs) (auto simp: nonempty_ranges_def covers_def)
next
  case (Cons a as)
  then obtain b bs' where bs: "bs = b # bs'"
    by (cases bs) (auto simp: nonempty_ranges_def covers_def)
  have "a = b"
    using Cons.prems covered_same_head [of a as b bs'] by (simp add: bs nonempty_ranges_def)
  moreover have "covered as = covered bs'"
    using covered_tail [of a as] covered_tail [of b bs'] Cons.prems(1,2,5) \<open>a = b\<close> unfolding bs by metis
  then have "as = bs'"
    using Cons.IH [of bs'] Cons.prems(1-4) by (simp add: bs nonempty_ranges_def ranges_inv_Cons)
  ultimately show ?case by (simp add: bs)
qed

subsection \<open>Rebuilding a set from its members\<close>

lemma insert_members_ok:
  assumes "ranges_inv rs" and "\<forall>(s, e)\<in>set ms. s \<le> e"
  shows "\<exists>rs'. insert_members rs ms = Ok rs' \<and> ranges_inv rs' \<and>
    covered rs' = covered rs \<union> (\<Union>(s, e)\<in>set ms. {s..<e})"
  using assms
proof (induction ms arbitrary: rs)
  case Nil
  then show ?case by simp
next
  case (Cons m ms)
  obtain s e where m: "m = (s, e)" by (cases m)
  then have "s \<le> e" using Cons.prems(2) by auto
  from InsertRange_ok [OF Cons.prems(1) this] obtain rs1 where
    rs1: "InsertRange rs s e = Ok rs1" "ranges_inv rs1" "covered rs1 = covered rs \<union> {s..<e}" by blast
  with Cons.IH [OF rs1(2)] Cons.prems(2) obtain rs' where
    "insert_members rs1 ms = Ok rs'" "ranges_inv rs'"
    "covered rs' = covered rs1 \<union> (\<Union>(s, e)\<in>set ms. {s..<e})" by auto
  then show ?case using rs1 by (auto simp: m)
qed

lemma insert_members_inverted:
  assumes "ranges_inv rs" and "(s, e) \<in> set ms" and "e < s"
  shows "insert_members rs ms = Err Check_Failed"
  using assms(1,2)
proof (induction ms arbitrary: rs)
  case Nil
  then show ?case by simp
next
  case (Cons m ms)
  obtain s' e' where m: "m = (s', e')" by (cases m)
  show ?case
  proof (cases "s' \<le> e'")
    case True
    from InsertRange_ok [OF Cons.prems(1) True] obtain rs1 where
      rs1: "InsertRange rs s' e' = Ok rs1" "ranges_inv rs1" by blast
    have "(s, e) \<in> set ms" using Cons.prems(2) True assms(3) by (auto simp: m)
    then show ?thesis using Cons.IH [OF rs1(2)] rs1(1) by (simp add: m)
  next
    case False
    then show ?thesis by (simp add: m InsertRange_def)
  qed
qed

text \<open>Appending a range that lies behind all others adds it at the end, unmerged.\<close>

lemma InsertRange_behind:
  assumes inv: "ranges_inv (rs @ [r])"
  shows "InsertRange rs (rstart r) (rend r) = Ok (rs @ [r])"
proof -
  have rs: "ranges_inv rs" "rstart r \<le> rend r" "\<forall>q\<in>set rs. rend q < rstart r"
    using inv by (auto simp: ranges_inv_append ranges_inv_Cons)
  have "\<not> Contains q r" if "q \<in> set rs" for q
    using rs(2,3) that by (auto simp: Contains_def)
  then have "ContainsRange rs (rstart r) (rend r) = Ok False"
    using ContainsRange_eq [OF rs(1,2)] by simp
  moreover have less: "\<forall>q\<in>set rs. range_less q r"
    using rs by (auto simp: range_less_def ranges_inv_def intro: le_less_trans)
  then have no_less: "\<forall>q\<in>set rs. \<not> range_less r q"
    using range_less_trans range_less_irrefl by blast
  then have "before_ub rs r = rs" "from_ub rs r = []"
    by (simp_all add: before_ub_def from_ub_def)
  moreover have "\<not> (rs \<noteq> [] \<and> CanMerge r (last rs))"
    using rs(3) by (auto simp: CanMerge_def not_le)
  ultimately show ?thesis
    using rs(2) emplace_between [of rs r "[]"] less
    by (simp add: InsertRange_alt merge_back_def del: not_False_eq_True de_Morgan_conj)
qed

lemma insert_members_append:
  "ranges_inv (rs @ qs) \<Longrightarrow> insert_members rs (AllRanges qs) = Ok (rs @ qs)"
proof (induction qs arbitrary: rs)
  case Nil
  then show ?case by (simp add: AllRanges_def)
next
  case (Cons q qs)
  then have "ranges_inv (rs @ [q])" by (auto simp: ranges_inv_append ranges_inv_Cons)
  then have "InsertRange rs (rstart q) (rend q) = Ok (rs @ [q])" by (rule InsertRange_behind)
  moreover have "insert_members (rs @ [q]) (AllRanges qs) = Ok ((rs @ [q]) @ qs)"
    using Cons.IH [of "rs @ [q]"] Cons.prems by simp
  ultimately show ?case by (simp add: AllRanges_def AsPair_def)
qed

subsection \<open>Properties\<close>

text \<open>
  C2: whatever sequence of well-formed ranges is inserted into the empty set, every insertion succeeds,
  the stored ranges stay sorted, pairwise disjoint and non-adjacent, and the positions they cover are
  exactly the union of the inserted half-open ranges.
\<close>

theorem insert_sequence_covers_union:
  assumes "\<forall>(s, e)\<in>set ms. s \<le> e"
  shows "\<exists>rs. insert_members [] ms = Ok rs \<and> ranges_inv rs \<and>
    covered rs = (\<Union>(s, e)\<in>set ms. {s..<e})"
  using insert_members_ok [OF ranges_inv_Nil assms] by simp

theorem insert_sequence_covers_union_witness:
  "\<exists>rs. insert_members [] [(5, 10), (15, 20), (7, 17)] = Ok rs \<and> ranges_inv rs \<and>
    covered rs = (\<Union>(s, e)\<in>set [(5, 10), (15, 20), (7, 17)]. {s..<e})"
  by (rule insert_sequence_covers_union) simp

text \<open>
  On a well-formed set, \<^verbatim>\<open>ContainsRange\<close> answers whether every position of a non-empty range is
  covered, although it only looks at one stored range.
\<close>

theorem ContainsRange_decides_coverage:
  assumes "ranges_inv rs" and "s < e"
  shows "ContainsRange rs s e = Ok ({s..<e} \<subseteq> covered rs)"
  using assms by (rule ContainsRange_covered)

theorem ContainsRange_decides_coverage_witness:
  "ContainsRange [Range 5 20, Range 30 40] 7 17
     = Ok ({7..<17} \<subseteq> covered [Range 5 20, Range 30 40])"
  by (rule ContainsRange_decides_coverage) (simp_all add: ranges_inv_def apart_def)

text \<open>
  For every position below the largest \<^verbatim>\<open>uint64_t\<close>, \<^verbatim>\<open>EndOfContainingRange\<close> returns nothing
  exactly when the position is not covered, and otherwise the first uncovered position after it.
\<close>

theorem EndOfContainingRange_first_gap:
  assumes "ranges_inv rs" and "s \<noteq> - 1"
  shows "case EndOfContainingRange rs s of
      None \<Rightarrow> s \<notin> covered rs
    | Some e \<Rightarrow> s < e \<and> {s..<e} \<subseteq> covered rs \<and> e \<notin> covered rs"
  using EndOfContainingRange_covered [OF assms] EndOfContainingRange_None [OF assms]
  by (simp split: option.split)

theorem EndOfContainingRange_first_gap_witness:
  "case EndOfContainingRange [Range 5 10, Range 15 20] 6 of
      None \<Rightarrow> 6 \<notin> covered [Range 5 10, Range 15 20]
    | Some e \<Rightarrow> 6 < e \<and> {6..<e} \<subseteq> covered [Range 5 10, Range 15 20] \<and>
        e \<notin> covered [Range 5 10, Range 15 20]"
  by (rule EndOfContainingRange_first_gap) (simp_all add: ranges_inv_def apart_def)

text \<open>
  At the largest \<^verbatim>\<open>uint64_t\<close> the probe \<^verbatim>\<open>[start, start + 1)\<close> wraps around, and every non-empty
  set reports the end of its last range although that range does not contain the position.
\<close>

theorem EndOfContainingRange_wraps_at_max:
  assumes "ranges_inv rs" and "rs \<noteq> []"
  shows "EndOfContainingRange rs (- 1) = Some (rend (last rs)) \<and> - 1 \<notin> covered rs"
proof -
  have "\<not> range_less (Range (- 1) 0) q" for q
    by (simp add: range_less_def)
  then have "before_ub rs (Range (- 1) 0) = rs"
    by (simp add: before_ub_def)
  then show ?thesis
    using assms(2) by (simp add: EndOfContainingRange_def Contains_def covered_def covers_def)
qed

theorem EndOfContainingRange_wraps_at_max_witness:
  "EndOfContainingRange [Range 5 10] (- 1) = Some (rend (last [Range 5 10])) \<and>
    - 1 \<notin> covered [Range 5 10]"
  by (rule EndOfContainingRange_wraps_at_max) (simp_all add: ranges_inv_def)

text \<open>
  Two well-formed sets without empty ranges cover the same positions exactly when they store the
  same ranges, which is what \<^verbatim>\<open>operator==\<close> compares: the representation is canonical.
\<close>

theorem equal_sets_iff_equal_coverage:
  assumes "ranges_inv as" "ranges_inv bs" "nonempty_ranges as" "nonempty_ranges bs"
  shows "AllRanges as = AllRanges bs \<longleftrightarrow> covered as = covered bs"
proof
  assume "AllRanges as = AllRanges bs"
  moreover have "inj AsPair" by (rule injI) (auto simp: AsPair_def intro: range.equality)
  ultimately have "as = bs" by (simp add: AllRanges_def)
  then show "covered as = covered bs" by simp
next
  assume "covered as = covered bs"
  then show "AllRanges as = AllRanges bs" using covered_canonical assms by blast
qed

theorem equal_sets_iff_equal_coverage_witness:
  "AllRanges [Range 1 2] = AllRanges [Range 1 3] \<longleftrightarrow> covered [Range 1 2] = covered [Range 1 3]"
  by (rule equal_sets_iff_equal_coverage) (simp_all add: ranges_inv_def nonempty_ranges_def)

text \<open>
  C30: for every wire codec whose parser inverts its serializer, deserializing a serialized well-formed
  set gives the same set back; a message with an inverted member, however, aborts the process
  (\<^verbatim>\<open>CHECK_LE\<close>) instead of being reported as an error.
\<close>

theorem serialize_roundtrip:
  assumes "ranges_inv rs" and "\<forall>ms. ParseFromString (SerializeAsString ms) = Some ms"
  shows "DeserializeDisjointRangeSet ParseFromString (Serialize SerializeAsString rs) = Ok rs \<and>
    ((s, e) \<in> set ms \<and> e < s \<longrightarrow>
      DeserializeDisjointRangeSet ParseFromString (SerializeAsString ms) = Err Check_Failed)"
  using assms insert_members_append [of "[]" rs] insert_members_inverted [OF ranges_inv_Nil]
  by (auto simp: DeserializeDisjointRangeSet_def Serialize_def)

theorem serialize_roundtrip_witness:
  "DeserializeDisjointRangeSet Some (Serialize id [Range 5 10, Range 15 20])
     = Ok [Range 5 10, Range 15 20] \<and>
   DeserializeDisjointRangeSet Some [(1, 2), (9, 4)] = Err Check_Failed"
  using serialize_roundtrip [of "[Range 5 10, Range 15 20]" Some id 9 4 "[(1, 2), (9, 4)]"]
  by (simp add: ranges_inv_def apart_def)

end
