(* ===== verification/Io_Interface.thy ===== *)
theory Io_Interface
  imports Prelude
begin

section \<open>The interfaces of the I/O library and their clients\<close>

text \<open>
  \<^verbatim>\<open>io/io.h\<close> declares abstract classes for things that can be read, written and positioned. A class is
  the record of its virtual functions over a state; data that a function fills into a buffer is a part
  of its result, and the state after an error is not needed by any caller. \<^verbatim>\<open>io/length.cc\<close>,
  \<^verbatim>\<open>io/read_exact.cc\<close>, \<^verbatim>\<open>io/write_exact.cc\<close>, \<^verbatim>\<open>io/string.cc\<close>, \<^verbatim>\<open>io/fake_pread_pwrite.cc\<close> are functions
  over any such class; the locales state what they rely on.
\<close>

record 's reader_seeker_ops =
  Read :: "'s \<Rightarrow> u64 \<Rightarrow> (string \<times> 's) result"
  SeekSet :: "'s \<Rightarrow> u64 \<Rightarrow> (u64 \<times> 's) result"
  SeekCur :: "'s \<Rightarrow> int \<Rightarrow> (u64 \<times> 's) result"
  SeekEnd :: "'s \<Rightarrow> int \<Rightarrow> (u64 \<times> 's) result"
  PRead :: "'s \<Rightarrow> u64 \<Rightarrow> u64 \<Rightarrow> string result"

record 'w writer_seeker_ops =
  Write :: "'w \<Rightarrow> string \<Rightarrow> (u64 \<times> 'w) result"
  WSeekSet :: "'w \<Rightarrow> u64 \<Rightarrow> (u64 \<times> 'w) result"
  WSeekCur :: "'w \<Rightarrow> int \<Rightarrow> (u64 \<times> 'w) result"
  Truncate :: "'w \<Rightarrow> u64 \<Rightarrow> 'w result"

subsection \<open>Functions over readers\<close>

definition Length :: "'s reader_seeker_ops \<Rightarrow> 's \<Rightarrow> (u64 \<times> 's) result" where
  "Length ops s =
     bind_result (SeekCur ops s 0) (\<lambda>(current_pos, s).
     bind_result (SeekEnd ops s 0) (\<lambda>(end, s).
     bind_result (SeekSet ops s current_pos) (\<lambda>(_, s). Ok (end, s))))"

text \<open>
  A loop that fills a buffer of the given size. A reader that returns more than it was asked for has
  written beyond the buffer.
\<close>

function ReadExact :: "('s \<Rightarrow> u64 \<Rightarrow> (string \<times> 's) result) \<Rightarrow> nat \<Rightarrow> 's \<Rightarrow> (string \<times> 's) result" where
  "ReadExact rd sz s =
     (if sz = 0 then Ok ([], s)
      else bind_result (rd s (of_nat sz)) (\<lambda>(data, s').
        if data = [] then Err Cf_Error
        else if sz < length data then Err Undefined_Behaviour
        else bind_result (ReadExact rd (sz - length data) s') (\<lambda>(more, s''). Ok (data @ more, s''))))"
  by pat_completeness auto
termination
  by (relation "measure (\<lambda>(_, sz, _). sz)") (auto simp: length_greater_0_conv [symmetric] simp del: length_greater_0_conv)

function PReadExact :: "(u64 \<Rightarrow> u64 \<Rightarrow> string result) \<Rightarrow> nat \<Rightarrow> u64 \<Rightarrow> string result" where
  "PReadExact prd sz offset =
     (if sz = 0 then Ok []
      else bind_result (prd (of_nat sz) offset) (\<lambda>data.
        if data = [] then Err Cf_Error
        else if sz < length data then Err Undefined_Behaviour
        else bind_result (PReadExact prd (sz - length data) (offset + of_nat (length data))) (\<lambda>more. Ok (data @ more))))"
  by pat_completeness auto
termination
  by (relation "measure (\<lambda>(_, sz, _). sz)") (auto simp: length_greater_0_conv [symmetric] simp del: length_greater_0_conv)

declare ReadExact.simps [simp del] PReadExact.simps [simp del]

text \<open>\<^verbatim>\<open>ReadToString\<close> reads until a read gives nothing, which a reader might never do.\<close>

partial_function (option) read_to_string ::
  "('s \<Rightarrow> u64 \<Rightarrow> (string \<times> 's) result) \<Rightarrow> string \<Rightarrow> 's \<Rightarrow> (string \<times> 's) result option"
where
  "read_to_string rd out s =
     (case rd s (2 ^ 16) of
        Inl e \<Rightarrow> Some (Inl e)
      | Inr (data, s') \<Rightarrow> if data = [] then Some (Ok (out, s')) else read_to_string rd (out @ data) s')"

definition ReadToString :: "('s \<Rightarrow> u64 \<Rightarrow> (string \<times> 's) result) \<Rightarrow> 's \<Rightarrow> (string \<times> 's) result option" where
  "ReadToString rd s = read_to_string rd [] s"

text \<open>When the read fails the position is restored as well, and the error is returned.\<close>

definition FakePRead :: "'s reader_seeker_ops \<Rightarrow> 's \<Rightarrow> u64 \<Rightarrow> u64 \<Rightarrow> (string \<times> 's) result" where
  "FakePRead ops s count offset =
     bind_result (SeekCur ops s 0) (\<lambda>(original_offset, s).
     bind_result (SeekSet ops s offset) (\<lambda>(_, s).
     bind_result (Read ops s count) (\<lambda>(data, s).
     bind_result (SeekSet ops s original_offset) (\<lambda>(_, s). Ok (data, s)))))"

subsection \<open>Functions over writers\<close>

function WriteExact :: "('w \<Rightarrow> string \<Rightarrow> (u64 \<times> 'w) result) \<Rightarrow> string \<Rightarrow> 'w \<Rightarrow> 'w result" where
  "WriteExact wr buf w =
     (if buf = [] then Ok w
      else bind_result (wr w buf) (\<lambda>(written, w').
        if written = 0 then Err Cf_Error
        else if length buf < unat written then Err Undefined_Behaviour
        else WriteExact wr (drop (unat written) buf) w'))"
  by pat_completeness auto
termination
  by (relation "measure (\<lambda>(_, buf, _). length buf)") (auto simp: unat_gt_0)

declare WriteExact.simps [simp del]

definition FakePWrite :: "'w writer_seeker_ops \<Rightarrow> 'w \<Rightarrow> string \<Rightarrow> u64 \<Rightarrow> (u64 \<times> 'w) result" where
  "FakePWrite ops w buf offset =
     bind_result (WSeekCur ops w 0) (\<lambda>(original_offset, w).
     bind_result (WSeekSet ops w offset) (\<lambda>(_, w).
     bind_result (Write ops w buf) (\<lambda>(n, w).
     bind_result (WSeekSet ops w original_offset) (\<lambda>(_, w). Ok (n, w)))))"

subsection \<open>What a reader promises\<close>

text \<open>
  A reader stands for a sequence of bytes and a position in it. A read gives the next bytes, at
  least one when there are any and some were asked for, as \<^verbatim>\<open>read(2)\<close> does.
\<close>

locale byte_reader =
  fixes rd :: "'s \<Rightarrow> u64 \<Rightarrow> (string \<times> 's) result"
    and todo :: "'s \<Rightarrow> string"
    and ok :: "'s \<Rightarrow> bool"
  assumes rd_law: "ok s \<Longrightarrow> \<exists>k s'. rd s n = Ok (take k (todo s), s') \<and> k \<le> unat n \<and> k \<le> length (todo s) \<and>
      (0 < n \<longrightarrow> todo s \<noteq> [] \<longrightarrow> 0 < k) \<and> ok s' \<and> todo s' = drop k (todo s)"
begin

lemma read_to_string_loop:
  "ok s \<Longrightarrow> \<exists>s'. read_to_string rd out s = Some (Ok (out @ todo s, s')) \<and> ok s' \<and> todo s' = []"
proof (induction "length (todo s)" arbitrary: s out rule: less_induct)
  case less
  obtain k s' where k: "rd s (2 ^ 16) = Ok (take k (todo s), s')" "k \<le> length (todo s)"
      "todo s \<noteq> [] \<longrightarrow> 0 < k" "ok s'" "todo s' = drop k (todo s)"
    using rd_law [OF less.prems, of "2 ^ 16"] by auto
  show ?case
  proof (cases "todo s = []")
    case True
    then show ?thesis using k by (subst read_to_string.simps) simp
  next
    case False
    then have "0 < k" "length (todo s') < length (todo s)" using k by auto
    then obtain s'' where "read_to_string rd (out @ take k (todo s)) s' = Some (Ok (out @ take k (todo s) @ todo s', s''))"
        "ok s''" "todo s'' = []"
      using less.hyps [OF _ k(4), of "out @ take k (todo s)"] by auto
    then show ?thesis using k False by (subst read_to_string.simps) auto
  qed
qed

lemma ReadToString_all: "ok s \<Longrightarrow> \<exists>s'. ReadToString rd s = Some (Ok (todo s, s')) \<and> ok s' \<and> todo s' = []"
  using read_to_string_loop [of s "[]"] by (simp add: ReadToString_def)

lemma ReadExact_spec:
  "ok s \<Longrightarrow> sz < 2 ^ 64 \<Longrightarrow>
     (if sz \<le> length (todo s)
      then \<exists>s'. ReadExact rd sz s = Ok (take sz (todo s), s') \<and> ok s' \<and> todo s' = drop sz (todo s)
      else ReadExact rd sz s = Err Cf_Error)"
proof (induction sz arbitrary: s rule: less_induct)
  case (less sz)
  show ?case
  proof (cases "sz = 0")
    case True
    then show ?thesis using less.prems by (simp add: ReadExact.simps)
  next
    case False
    have n: "unat (of_nat sz :: u64) = sz" "0 < (of_nat sz :: u64)"
      using less.prems(2) False by (simp_all add: u64_pos_iff)
    obtain k s' where k: "rd s (of_nat sz) = Ok (take k (todo s), s')" "k \<le> sz" "k \<le> length (todo s)"
        "todo s \<noteq> [] \<longrightarrow> 0 < k" "ok s'" "todo s' = drop k (todo s)"
      using rd_law [OF less.prems(1), of "of_nat sz"] n by auto
    show ?thesis
    proof (cases "todo s = []")
      case True
      then show ?thesis using k False by (simp add: ReadExact.simps [of rd sz])
    next
      case ne: False
      then have k0: "0 < k" using k by simp
      then have "sz - k < sz" "sz - k < 2 ^ 64" using False less.prems(2) by auto
      note IH = less.IH [OF this(1) k(5) this(2)]
      have step: "ReadExact rd sz s = bind_result (ReadExact rd (sz - k) s') (\<lambda>(more, s''). Ok (take k (todo s) @ more, s''))"
        using k k0 ne False by (subst ReadExact.simps) (simp add: min_absorb2)
      show ?thesis
      proof (cases "sz \<le> length (todo s)")
        case True
        then obtain s'' where "ReadExact rd (sz - k) s' = Ok (take (sz - k) (todo s'), s'')" "ok s''"
            "todo s'' = drop (sz - k) (todo s')"
          using IH k by (auto simp: diff_le_mono)
        moreover have "take k (todo s) @ take (sz - k) (drop k (todo s)) = take sz (todo s)"
          using k(2) by (metis le_add_diff_inverse take_add)
        ultimately show ?thesis using True step k by simp
      next
        case False
        then show ?thesis using IH step k by (simp add: diff_le_mono)
      qed
    qed
  qed
qed

end

text \<open>A reader that can be positioned, as \<^verbatim>\<open>lseek(2)\<close> and \<^verbatim>\<open>pread(2)\<close> on a file.\<close>

locale reader_seeker =
  fixes ops :: "'s reader_seeker_ops"
    and bytes :: "'s \<Rightarrow> string"
    and pos :: "'s \<Rightarrow> nat"
    and ok :: "'s \<Rightarrow> bool"
  assumes small: "ok s \<Longrightarrow> length (bytes s) < 2 ^ 63"
    and pos_le: "ok s \<Longrightarrow> pos s \<le> length (bytes s)"
    and pread_law: "ok s \<Longrightarrow> unat off < 2 ^ 63 \<Longrightarrow> \<exists>k. PRead ops s n off = Ok (take k (drop (unat off) (bytes s))) \<and> k \<le> unat n \<and>
      (0 < n \<longrightarrow> unat off < length (bytes s) \<longrightarrow> 0 < k)"
    and read_law: "ok s \<Longrightarrow> \<exists>k s'. Read ops s n = Ok (take k (drop (pos s) (bytes s)), s') \<and> k \<le> unat n \<and>
      pos s + k \<le> length (bytes s) \<and> (0 < n \<longrightarrow> pos s < length (bytes s) \<longrightarrow> 0 < k) \<and>
      ok s' \<and> bytes s' = bytes s \<and> pos s' = pos s + k"
    and seek_set_law: "ok s \<Longrightarrow> unat off \<le> length (bytes s) \<Longrightarrow>
      \<exists>s'. SeekSet ops s off = Ok (off, s') \<and> ok s' \<and> bytes s' = bytes s \<and> pos s' = unat off"
    and seek_cur_law: "ok s \<Longrightarrow>
      \<exists>s'. SeekCur ops s 0 = Ok (of_nat (pos s), s') \<and> ok s' \<and> bytes s' = bytes s \<and> pos s' = pos s"
    and seek_end_law: "ok s \<Longrightarrow>
      \<exists>s'. SeekEnd ops s 0 = Ok (of_nat (length (bytes s)), s') \<and> ok s' \<and> bytes s' = bytes s \<and> pos s' = length (bytes s)"
begin

lemma pos_u64 [simp]: "ok s \<Longrightarrow> unat (of_nat (pos s) :: u64) = pos s"
  using pos_le [of s] small [of s] by simp

lemma length_u64 [simp]: "ok s \<Longrightarrow> unat (of_nat (length (bytes s)) :: u64) = length (bytes s)"
  using small [of s] by simp

lemma Length_spec:
  assumes "ok s"
  shows "\<exists>s'. Length ops s = Ok (of_nat (length (bytes s)), s') \<and> ok s' \<and> bytes s' = bytes s \<and> pos s' = pos s"
proof -
  obtain s1 where s1: "SeekCur ops s 0 = Ok (of_nat (pos s), s1)" "ok s1" "bytes s1 = bytes s"
    using seek_cur_law [OF assms] by blast
  obtain s2 where s2: "SeekEnd ops s1 0 = Ok (of_nat (length (bytes s)), s2)" "ok s2" "bytes s2 = bytes s"
    using seek_end_law [OF s1(2)] s1(3) by auto
  obtain s3 where "SeekSet ops s2 (of_nat (pos s)) = Ok (of_nat (pos s), s3)" "ok s3" "bytes s3 = bytes s" "pos s3 = pos s"
    using seek_set_law [OF s2(2), of "of_nat (pos s)"] s2(3) assms pos_le [OF assms] by auto
  then show ?thesis using s1 s2 by (simp add: Length_def)
qed

lemma FakePRead_spec:
  assumes "ok s" and "unat off \<le> length (bytes s)"
  shows "\<exists>k s'. FakePRead ops s n off = Ok (take k (drop (unat off) (bytes s)), s') \<and> k \<le> unat n \<and>
    (0 < n \<longrightarrow> unat off < length (bytes s) \<longrightarrow> 0 < k) \<and> ok s' \<and> bytes s' = bytes s \<and> pos s' = pos s"
proof -
  obtain s1 where s1: "SeekCur ops s 0 = Ok (of_nat (pos s), s1)" "ok s1" "bytes s1 = bytes s"
    using seek_cur_law [OF assms(1)] by blast
  obtain s2 where s2: "SeekSet ops s1 off = Ok (off, s2)" "ok s2" "bytes s2 = bytes s" "pos s2 = unat off"
    using seek_set_law [OF s1(2), of off] s1(3) assms(2) by auto
  obtain k s3 where s3: "Read ops s2 n = Ok (take k (drop (unat off) (bytes s)), s3)" "k \<le> unat n"
      "0 < n \<longrightarrow> unat off < length (bytes s) \<longrightarrow> 0 < k" "ok s3" "bytes s3 = bytes s"
    using read_law [OF s2(2), of n] s2(3,4) by auto
  obtain s4 where "SeekSet ops s3 (of_nat (pos s)) = Ok (of_nat (pos s), s4)" "ok s4" "bytes s4 = bytes s" "pos s4 = pos s"
    using seek_set_law [OF s3(4), of "of_nat (pos s)"] s3(5) assms(1) pos_le [OF assms(1)] by auto
  then show ?thesis using s1 s2 s3 by (auto simp: FakePRead_def)
qed

lemma PReadExact_spec:
  "ok s \<Longrightarrow> unat off + sz < 2 ^ 63 \<Longrightarrow>
     PReadExact (PRead ops s) sz off =
       (if sz = 0 \<or> unat off + sz \<le> length (bytes s) then Ok (take sz (drop (unat off) (bytes s))) else Err Cf_Error)"
proof (induction sz arbitrary: off rule: less_induct)
  case (less sz)
  show ?case
  proof (cases "sz = 0")
    case True
    then show ?thesis by (simp add: PReadExact.simps)
  next
    case False
    let ?d = "drop (unat off) (bytes s)"
    have n: "unat (of_nat sz :: u64) = sz" "0 < (of_nat sz :: u64)"
      using less.prems(2) False by (simp_all add: u64_pos_iff)
    obtain k where k: "PRead ops s (of_nat sz) off = Ok (take k ?d)" "k \<le> sz" "?d \<noteq> [] \<longrightarrow> 0 < k"
      using pread_law [OF less.prems(1), of off "of_nat sz"] less.prems(2) n by auto
    let ?k = "length (take k ?d)"
    show ?thesis
    proof (cases "?d = []")
      case True
      then show ?thesis using k False by (simp add: PReadExact.simps [of _ sz])
    next
      case ne: False
      then have k0: "0 < ?k" "?k \<le> sz" using k by auto
      have off: "unat (off + of_nat ?k) = unat off + ?k"
        using less.prems(2) k0 by (subst unat_u64_add) auto
      have "sz - ?k < sz" "unat (off + of_nat ?k) + (sz - ?k) < 2 ^ 63"
        using k0 False less.prems(2) unfolding off by auto
      note IH = less.IH [OF this(1) less.prems(1) this(2)]
      have "PReadExact (PRead ops s) sz off =
          bind_result (PReadExact (PRead ops s) (sz - ?k) (off + of_nat ?k)) (\<lambda>more. Ok (take ?k ?d @ more))"
        using k k0 ne False by (subst PReadExact.simps) (auto simp: min_def)
      also have "\<dots> = (if unat off + sz \<le> length (bytes s) \<or> sz = ?k then Ok (take ?k ?d @ take (sz - ?k) (drop ?k ?d)) else Err Cf_Error)"
        unfolding IH off using k0 by (auto simp: add.commute)
      also have "take ?k ?d @ take (sz - ?k) (drop ?k ?d) = take sz ?d"
        using k0(2) by (metis le_add_diff_inverse take_add)
      finally show ?thesis using False ne by auto
    qed
  qed
qed

end

sublocale reader_seeker \<subseteq> byte_reader "Read ops" "\<lambda>s. drop (pos s) (bytes s)" ok
proof
  fix s n
  assume "ok s"
  then obtain k s' where "Read ops s n = Ok (take k (drop (pos s) (bytes s)), s')" "k \<le> unat n"
      "pos s + k \<le> length (bytes s)" "0 < n \<longrightarrow> pos s < length (bytes s) \<longrightarrow> 0 < k"
      "ok s'" "bytes s' = bytes s" "pos s' = pos s + k"
    using read_law by metis
  then show "\<exists>k s'. Read ops s n = Ok (take k (drop (pos s) (bytes s)), s') \<and> k \<le> unat n \<and>
      k \<le> length (drop (pos s) (bytes s)) \<and> (0 < n \<longrightarrow> drop (pos s) (bytes s) \<noteq> [] \<longrightarrow> 0 < k) \<and> ok s' \<and>
      drop (pos s') (bytes s') = drop k (drop (pos s) (bytes s))"
    by (intro exI [of _ k] exI [of _ s']) (auto simp: add.commute)
qed

subsection \<open>What a writer promises\<close>

text \<open>Bytes put into a file at a position; a gap before it is filled with zeros.\<close>

definition overwrite :: "nat \<Rightarrow> string \<Rightarrow> string \<Rightarrow> string" where
  "overwrite p buf c = take p c @ replicate (p - length c) (CHR 0x00) @ buf @ drop (p + length buf) c"

lemma overwrite_append: "overwrite (p + length a) b (overwrite p a c) = overwrite p (a @ b) c"
  by (auto simp: overwrite_def min_def not_le add_ac)

lemma length_overwrite [simp]: "length (overwrite p buf c) = max (length c) (p + length buf)"
  by (auto simp: overwrite_def)

lemma overwrite_Nil: "p \<le> length c \<Longrightarrow> overwrite p [] c = c"
  by (simp add: overwrite_def)

lemma overwrite_end: "overwrite (length c) buf c = c @ buf"
  by (simp add: overwrite_def)

lemma nth_overwrite:
  "i < max (length c) (p + length buf) \<Longrightarrow>
     overwrite p buf c ! i =
       (if p \<le> i \<and> i < p + length buf then buf ! (i - p) else if i < length c then c ! i else CHR 0x00)"
  by (auto simp: overwrite_def nth_append min_def)

text \<open>
  A write puts at least one byte of a non-empty buffer, up to the largest size of a file.
\<close>

locale byte_writer =
  fixes wr :: "'w \<Rightarrow> string \<Rightarrow> (u64 \<times> 'w) result"
    and content :: "'w \<Rightarrow> string"
    and at :: "'w \<Rightarrow> nat"
    and wok :: "'w \<Rightarrow> bool"
    and capacity :: nat
  assumes capacity_small: "capacity < 2 ^ 64"
    and at_le: "wok w \<Longrightarrow> at w \<le> length (content w)"
    and write_law: "wok w \<Longrightarrow> buf \<noteq> [] \<Longrightarrow> at w + length buf \<le> capacity \<Longrightarrow>
      \<exists>k w'. wr w buf = Ok (of_nat k, w') \<and> 0 < k \<and> k \<le> length buf \<and> wok w' \<and>
        content w' = overwrite (at w) (take k buf) (content w) \<and> at w' = at w + k"
begin

lemma WriteExact_spec:
  "wok w \<Longrightarrow> at w + length buf \<le> capacity \<Longrightarrow>
     \<exists>w'. WriteExact wr buf w = Ok w' \<and> wok w' \<and> content w' = overwrite (at w) buf (content w) \<and>
       at w' = at w + length buf"
proof (induction "length buf" arbitrary: buf w rule: less_induct)
  case less
  show ?case
  proof (cases "buf = []")
    case True
    then show ?thesis using less.prems at_le [of w] by (simp add: WriteExact.simps overwrite_Nil)
  next
    case False
    obtain k w1 where k: "wr w buf = Ok (of_nat k, w1)" "0 < k" "k \<le> length buf" "wok w1"
        "content w1 = overwrite (at w) (take k buf) (content w)" "at w1 = at w + k"
      using write_law [OF less.prems(1) False less.prems(2)] by blast
    have u: "unat (of_nat k :: u64) = k" using k(3) less.prems(2) capacity_small by simp
    then have nz: "(of_nat k :: u64) \<noteq> 0" using k(2) by (metis less_irrefl unat_0)
    have "length (drop k buf) < length buf" using k(2,3) by simp
    then obtain w' where "WriteExact wr (drop k buf) w1 = Ok w'" "wok w'" "at w' = at w1 + length (drop k buf)"
        "content w' = overwrite (at w1) (drop k buf) (content w1)"
      using less.hyps [of "drop k buf" w1] k less.prems(2) by auto
    moreover have "overwrite (at w1) (drop k buf) (content w1) = overwrite (at w) buf (content w)"
      using overwrite_append [of "at w" "take k buf" "drop k buf" "content w"] k(3,5,6) by (simp add: min_absorb2)
    ultimately show ?thesis using False k u nz by (subst WriteExact.simps) simp
  qed
qed

end

end
