(* ===== verification/In_Memory_Io.thy ===== *)
theory In_Memory_Io
  imports Io_Interface
begin

section \<open>Files in memory\<close>

text \<open>
  \<^verbatim>\<open>io/in_memory.cc\<close>: a vector of bytes with a cursor, and a filesystem of such vectors. Vectors cannot
  be longer than \<open>2\<^sup>6\<^sup>3 - 1\<close>; \<^verbatim>\<open>resize\<close> beyond that throws. The mutex is not modelled: each
  operation holds it throughout.
\<close>

record mem_io =
  mem_data :: string
  cursor :: u64

abbreviation max_size :: nat where
  "max_size \<equiv> 2 ^ 63 - 1"

abbreviation vec_size :: "string \<Rightarrow> u64" where
  "vec_size d \<equiv> of_nat (length d)"

definition ClampRange :: "string \<Rightarrow> u64 \<Rightarrow> u64 \<Rightarrow> u64" where
  "ClampRange d begin len = (if begin > vec_size d then 0 else min len (vec_size d - begin))"

definition GrowTo :: "u64 \<Rightarrow> string \<Rightarrow> string result" where
  "GrowTo new_size d =
     (if vec_size d < new_size
      then if unat new_size > max_size then Err Length_Error
           else Ok (d @ replicate (unat new_size - length d) (CHR 0x00))
      else Ok d)"

text \<open>\<^verbatim>\<open>memcpy\<close> from and to the vector at an offset; outside the vector it is undefined.\<close>

definition copy_out :: "u64 \<Rightarrow> u64 \<Rightarrow> string \<Rightarrow> string" where
  "copy_out off n d = take (unat n) (drop (unat off) d)"

definition copy_in :: "u64 \<Rightarrow> string \<Rightarrow> string \<Rightarrow> string result" where
  "copy_in off buf d =
     (if buf = [] then Ok d
      else if unat off + length buf > length d then Err Undefined_Behaviour
      else Ok (take (unat off) d @ buf @ drop (unat off + length buf) d))"

definition mem_Read :: "mem_io \<Rightarrow> u64 \<Rightarrow> (string \<times> mem_io) result" where
  "mem_Read io cnt =
     (let to_read = ClampRange (mem_data io) (cursor io) cnt
      in Ok (copy_out (cursor io) to_read (mem_data io), io\<lparr>cursor := cursor io + to_read\<rparr>))"

definition mem_Write :: "mem_io \<Rightarrow> string \<Rightarrow> (u64 \<times> mem_io) result" where
  "mem_Write io buf =
     (let cnt = of_nat (length buf) in
      bind_result (GrowTo (cursor io + cnt) (mem_data io)) (\<lambda>d.
      bind_result (copy_in (cursor io) buf d) (\<lambda>d.
        Ok (cnt, io\<lparr>mem_data := d, cursor := cursor io + cnt\<rparr>))))"

definition mem_SeekSet :: "mem_io \<Rightarrow> u64 \<Rightarrow> (u64 \<times> mem_io) result" where
  "mem_SeekSet io offset =
     bind_result (GrowTo offset (mem_data io)) (\<lambda>d. Ok (offset, io\<lparr>mem_data := d, cursor := offset\<rparr>))"

text \<open>The sum of two \<^verbatim>\<open>int64_t\<close>, clamped at zero; its overflow is undefined.\<close>

definition signed_target :: "u64 \<Rightarrow> int \<Rightarrow> u64 result" where
  "signed_target base offset =
     (let t = sint base + offset
      in if t < - (2 ^ 63) \<or> t \<ge> 2 ^ 63 then Err Undefined_Behaviour else Ok (of_int (max t 0)))"

definition mem_SeekCur :: "mem_io \<Rightarrow> int \<Rightarrow> (u64 \<times> mem_io) result" where
  "mem_SeekCur io offset = bind_result (signed_target (cursor io) offset) (mem_SeekSet io)"

definition mem_SeekEnd :: "mem_io \<Rightarrow> int \<Rightarrow> (u64 \<times> mem_io) result" where
  "mem_SeekEnd io offset = bind_result (signed_target (vec_size (mem_data io)) offset) (mem_SeekSet io)"

definition mem_PRead :: "mem_io \<Rightarrow> u64 \<Rightarrow> u64 \<Rightarrow> string result" where
  "mem_PRead io cnt offset = Ok (copy_out offset (ClampRange (mem_data io) offset cnt) (mem_data io))"

definition mem_PWrite :: "mem_io \<Rightarrow> string \<Rightarrow> u64 \<Rightarrow> (u64 \<times> mem_io) result" where
  "mem_PWrite io buf offset =
     (let cnt = of_nat (length buf) in
      bind_result (GrowTo (offset + cnt) (mem_data io)) (\<lambda>d.
      bind_result (copy_in offset buf d) (\<lambda>d. Ok (cnt, io\<lparr>mem_data := d\<rparr>))))"

definition InMemoryIo :: "string \<Rightarrow> mem_io" where
  "InMemoryIo d = \<lparr>mem_data = d, cursor = 0\<rparr>"

text \<open>\<^verbatim>\<open>Truncate\<close> is inherited: it always returns an error.\<close>

definition mem_ops :: "mem_io reader_seeker_ops" where
  "mem_ops = \<lparr>Read = mem_Read, SeekSet = mem_SeekSet, SeekCur = mem_SeekCur, SeekEnd = mem_SeekEnd, PRead = mem_PRead\<rparr>"

definition mem_writer :: "mem_io writer_seeker_ops" where
  "mem_writer = \<lparr>Write = mem_Write, WSeekSet = mem_SeekSet, WSeekCur = mem_SeekCur, Truncate = (\<lambda>_ _. Err Cf_Error)\<rparr>"

subsection \<open>Reading and positioning\<close>

definition mem_ok :: "mem_io \<Rightarrow> bool" where
  "mem_ok io \<longleftrightarrow> length (mem_data io) \<le> max_size \<and> unat (cursor io) \<le> length (mem_data io)"

lemma vec_size_le: "length d \<le> max_size \<Longrightarrow> (vec_size d < off) = (length d < unat off)"
  by (simp add: word_less_nat_alt)

lemma unat_ClampRange:
  "length d \<le> max_size \<Longrightarrow> unat (ClampRange d off n) = min (unat n) (length d - unat off)"
  by (auto simp: ClampRange_def word_less_nat_alt min_def word_le_nat_alt unat_u64_sub)

lemma copy_out_Clamp:
  "length d \<le> max_size \<Longrightarrow>
     copy_out off (ClampRange d off n) d = take (min (unat n) (length d - unat off)) (drop (unat off) d)"
  by (simp add: copy_out_def unat_ClampRange)

lemma GrowTo_same: "length d \<le> max_size \<Longrightarrow> unat n \<le> length d \<Longrightarrow> GrowTo n d = Ok d"
  by (simp add: GrowTo_def vec_size_le)

lemma signed_target_0: "length d \<le> max_size \<Longrightarrow> unat w \<le> length d \<Longrightarrow> signed_target w 0 = Ok w"
  using sint_u64_bounds [of w] by (simp add: signed_target_def Let_def max_absorb1)

interpretation mem: reader_seeker mem_ops mem_data "\<lambda>io. unat (cursor io)" mem_ok
proof unfold_locales
  fix io n off
  assume ok: "mem_ok io"
  then have d: "length (mem_data io) \<le> max_size" and c: "unat (cursor io) \<le> length (mem_data io)"
    by (simp_all add: mem_ok_def)
  show "length (mem_data io) < 2 ^ 63" "unat (cursor io) \<le> length (mem_data io)" using d c by auto
  show "\<exists>k. PRead mem_ops io n off = Ok (take k (drop (unat off) (mem_data io))) \<and> k \<le> unat n \<and>
      (0 < n \<longrightarrow> unat off < length (mem_data io) \<longrightarrow> 0 < k)"
    by (intro exI [of _ "min (unat n) (length (mem_data io) - unat off)"])
      (auto simp: mem_ops_def mem_PRead_def copy_out_Clamp [OF d] u64_pos_iff)
  let ?k = "min (unat n) (length (mem_data io) - unat (cursor io))"
  have "unat (cursor io + ClampRange (mem_data io) (cursor io) n) = unat (cursor io) + ?k"
    using d c by (subst unat_u64_add) (auto simp: unat_ClampRange)
  then show "\<exists>k s'. Read mem_ops io n = Ok (take k (drop (unat (cursor io)) (mem_data io)), s') \<and> k \<le> unat n \<and>
      unat (cursor io) + k \<le> length (mem_data io) \<and> (0 < n \<longrightarrow> unat (cursor io) < length (mem_data io) \<longrightarrow> 0 < k) \<and>
      mem_ok s' \<and> mem_data s' = mem_data io \<and> unat (cursor s') = unat (cursor io) + k"
    using d c by (intro exI [of _ ?k] exI [of _ "io\<lparr>cursor := cursor io + ClampRange (mem_data io) (cursor io) n\<rparr>"])
      (auto simp: mem_ops_def mem_Read_def copy_out_Clamp [OF d] u64_pos_iff mem_ok_def Let_def)
  show "\<exists>s'. SeekSet mem_ops io off = Ok (off, s') \<and> mem_ok s' \<and> mem_data s' = mem_data io \<and> unat (cursor s') = unat off"
    if "unat off \<le> length (mem_data io)"
    using that d by (simp add: mem_ops_def mem_SeekSet_def GrowTo_same mem_ok_def)
  show "\<exists>s'. SeekCur mem_ops io 0 = Ok (of_nat (unat (cursor io)), s') \<and> mem_ok s' \<and> mem_data s' = mem_data io \<and>
      unat (cursor s') = unat (cursor io)"
    using d c by (simp add: mem_ops_def mem_SeekCur_def signed_target_0 [OF d c] mem_SeekSet_def GrowTo_same mem_ok_def)
  have "unat (vec_size (mem_data io)) \<le> length (mem_data io)" using d by simp
  then show "\<exists>s'. SeekEnd mem_ops io 0 = Ok (vec_size (mem_data io), s') \<and> mem_ok s' \<and> mem_data s' = mem_data io \<and>
      unat (cursor s') = length (mem_data io)"
    using d by (simp add: mem_ops_def mem_SeekEnd_def signed_target_0 [OF d] mem_SeekSet_def GrowTo_same mem_ok_def)
qed

subsection \<open>Writing\<close>

lemma mem_write_at:
  assumes "length d \<le> max_size" and "buf \<noteq> []" and "unat off + length buf \<le> max_size"
  shows "bind_result (GrowTo (off + of_nat (length buf)) d) (copy_in off buf) = Ok (overwrite (unat off) buf d)"
proof -
  have u: "unat (off + of_nat (length buf)) = unat off + length buf"
    using assms(3) by (subst unat_u64_add) auto
  show ?thesis
  proof (cases "length d < unat off + length buf")
    case True
    then have "GrowTo (off + of_nat (length buf)) d = Ok (d @ replicate (unat off + length buf - length d) (CHR 0x00))"
      using assms(1,3) u by (simp add: GrowTo_def vec_size_le)
    then show ?thesis using assms(2) True
      by (simp add: copy_in_def overwrite_def take_append drop_append min_def)
  next
    case False
    then show ?thesis using assms u by (simp add: GrowTo_same copy_in_def overwrite_def)
  qed
qed

lemma mem_Write_eq:
  assumes "mem_ok io" and "buf \<noteq> []" and "unat (cursor io) + length buf \<le> max_size"
  shows "mem_Write io buf = Ok (of_nat (length buf),
    io\<lparr>mem_data := overwrite (unat (cursor io)) buf (mem_data io), cursor := cursor io + of_nat (length buf)\<rparr>)"
proof -
  have "length (mem_data io) \<le> max_size" using assms(1) by (simp add: mem_ok_def)
  note w = mem_write_at [OF this assms(2,3)]
  then obtain d where "GrowTo (cursor io + of_nat (length buf)) (mem_data io) = Ok d"
      "copy_in (cursor io) buf d = Ok (overwrite (unat (cursor io)) buf (mem_data io))"
    by (auto simp: bind_result_Inr_iff)
  then show ?thesis by (simp add: mem_Write_def Let_def)
qed

interpretation mem_out: byte_writer mem_Write mem_data "\<lambda>io. unat (cursor io)" mem_ok max_size
proof unfold_locales
  fix io and buf :: string
  assume ok: "mem_ok io" and ne: "buf \<noteq> []" and room: "unat (cursor io) + length buf \<le> max_size"
  have "unat (cursor io + of_nat (length buf)) = unat (cursor io) + length buf"
    using room by (subst unat_u64_add) auto
  then show "\<exists>k w'. mem_Write io buf = Ok (of_nat k, w') \<and> 0 < k \<and> k \<le> length buf \<and> mem_ok w' \<and>
      mem_data w' = overwrite (unat (cursor io)) (take k buf) (mem_data io) \<and> unat (cursor w') = unat (cursor io) + k"
    using ok ne room by (intro exI [of _ "length buf"]) (auto simp: mem_Write_eq mem_ok_def)
qed (simp_all add: mem_ok_def)

end
