(* ===== verification/Io_Copy.thy ===== *)
theory Io_Copy
  imports In_Memory_Io
begin

section \<open>Copying, and files of the operating system\<close>

text \<open>
  \<^verbatim>\<open>io/copy.cc\<close> and \<^verbatim>\<open>io/shared_fd.cc\<close>. Copying is defined over any reader and writer; the loops end
  only when the reader reaches its end, so that their result is an option.
\<close>

subsection \<open>Copy and SparseCopy\<close>

definition kBufferSize :: nat where "kBufferSize = 2 ^ 26"

text \<open>The inner loop over \<^verbatim>\<open>chunk_written\<close> is that of \<open>WriteExact\<close>.\<close>

partial_function (option) copy_loop ::
  "('r \<Rightarrow> u64 \<Rightarrow> (string \<times> 'r) result) \<Rightarrow> ('w \<Rightarrow> string \<Rightarrow> (u64 \<times> 'w) result) \<Rightarrow> 'r \<Rightarrow> 'w \<Rightarrow> ('r \<times> 'w) result option"
where
  "copy_loop rd wr r w =
     (case rd r (of_nat kBufferSize) of
        Inl e \<Rightarrow> Some (Inl e)
      | Inr (chunk, r') \<Rightarrow>
          if chunk = [] then Some (Ok (r', w))
          else (case WriteExact wr chunk w of Inl e \<Rightarrow> Some (Inl e) | Inr w' \<Rightarrow> copy_loop rd wr r' w'))"

definition Copy ::
  "('r \<Rightarrow> u64 \<Rightarrow> (string \<times> 'r) result) \<Rightarrow> ('w \<Rightarrow> string \<Rightarrow> (u64 \<times> 'w) result) \<Rightarrow> 'r \<Rightarrow> 'w \<Rightarrow> ('r \<times> 'w) result option"
where
  "Copy rd wr r w = copy_loop rd wr r w"

text \<open>
  The test for a chunk of zeros looks at the whole buffer: behind the chunk are the bytes of earlier
  chunks, and at first whatever the memory held.
\<close>

definition zero_chunk :: "string \<Rightarrow> string \<Rightarrow> bool" where
  "zero_chunk chunk buf \<longleftrightarrow> hd chunk = CHR 0x00 \<and> last chunk = CHR 0x00 \<and> list_all (\<lambda>c. c = CHR 0x00) buf"

partial_function (option) sparse_copy_loop ::
  "('r \<Rightarrow> u64 \<Rightarrow> (string \<times> 'r) result) \<Rightarrow> 'w writer_seeker_ops \<Rightarrow> string \<Rightarrow> u64 \<Rightarrow> 'r \<Rightarrow> 'w \<Rightarrow> ('r \<times> 'w) result option"
where
  "sparse_copy_loop rd out buf total_size r w =
     (case rd r (of_nat kBufferSize) of
        Inl e \<Rightarrow> Some (Inl e)
      | Inr (chunk, r') \<Rightarrow>
          if chunk = [] then Some (bind_result (Write out w []) (\<lambda>(_, w'). Ok (r', w')))
          else let buf' = chunk @ drop (length chunk) buf;
                   total' = total_size + of_nat (length chunk)
               in case (if zero_chunk chunk buf'
                        then bind_result (Truncate out w total') (\<lambda>w'.
                             bind_result (WSeekCur out w' (int (length chunk))) (\<lambda>(_, w''). Ok w''))
                        else WriteExact (Write out) chunk w) of
                    Inl e \<Rightarrow> Some (Inl e)
                  | Inr w' \<Rightarrow> sparse_copy_loop rd out buf' total' r' w')"

definition SparseCopy ::
  "('r \<Rightarrow> u64 \<Rightarrow> (string \<times> 'r) result) \<Rightarrow> 'w writer_seeker_ops \<Rightarrow> string \<Rightarrow> 'r \<Rightarrow> 'w \<Rightarrow> ('r \<times> 'w) result option"
where
  "SparseCopy rd out uninitialised r w =
     (case WSeekSet out w 0 of
        Inl e \<Rightarrow> Some (Inl e)
      | Inr (_, w') \<Rightarrow> sparse_copy_loop rd out uninitialised 0 r w')"

subsection \<open>Files of the operating system\<close>

text \<open>
  A regular file behind a descriptor, with what \<^verbatim>\<open>read\<close>, \<^verbatim>\<open>write\<close>, \<^verbatim>\<open>lseek\<close>, \<^verbatim>\<open>pread\<close>, \<^verbatim>\<open>pwrite\<close> and
  \<^verbatim>\<open>ftruncate\<close> do to it; they return \<open>-1\<close> on failure. \<^verbatim>\<open>lseek\<close> does not change the contents.
\<close>

record posix_file =
  file_bytes :: string
  file_offset :: nat

definition posix_read :: "nat \<Rightarrow> posix_file \<Rightarrow> string \<times> posix_file" where
  "posix_read n f =
     (let data = take n (drop (file_offset f) (file_bytes f)) in (data, f\<lparr>file_offset := file_offset f + length data\<rparr>))"

definition posix_pwrite :: "string \<Rightarrow> nat \<Rightarrow> posix_file \<Rightarrow> int \<times> posix_file" where
  "posix_pwrite buf off f =
     (let n = min (length buf) (max_size - off)
      in if buf = [] then (0, f)
         else if n = 0 then (- 1, f)
         else (int n, f\<lparr>file_bytes := overwrite off (take n buf) (file_bytes f)\<rparr>))"

definition posix_write :: "string \<Rightarrow> posix_file \<Rightarrow> int \<times> posix_file" where
  "posix_write buf f =
     (let (n, f') = posix_pwrite buf (file_offset f) f in (n, if n < 0 then f' else f'\<lparr>file_offset := file_offset f + nat n\<rparr>))"

definition posix_lseek :: "int \<Rightarrow> posix_file \<Rightarrow> int \<times> posix_file" where
  "posix_lseek target f =
     (if target < 0 \<or> target > int max_size then (- 1, f) else (target, f\<lparr>file_offset := nat target\<rparr>))"

definition posix_ftruncate :: "int \<Rightarrow> posix_file \<Rightarrow> int \<times> posix_file" where
  "posix_ftruncate n f =
     (if n < 0 \<or> n > int max_size then (- 1, f)
      else (0, f\<lparr>file_bytes := take (nat n) (file_bytes f) @ replicate (nat n - length (file_bytes f)) (CHR 0x00)\<rparr>))"

text \<open>The class \<^verbatim>\<open>SharedFdIo\<close>. An \<^verbatim>\<open>off_t\<close> argument is the signed reading of the 64 bits.\<close>

definition fd_Read :: "posix_file \<Rightarrow> u64 \<Rightarrow> (string \<times> posix_file) result" where
  "fd_Read f cnt = Ok (posix_read (unat cnt) f)"

definition fd_Write :: "posix_file \<Rightarrow> string \<Rightarrow> (u64 \<times> posix_file) result" where
  "fd_Write f buf =
     (let (data_written, f') = posix_write buf f
      in if data_written \<ge> 0 then Ok (of_int data_written, f') else Err Cf_Error)"

text \<open>The comparison of the signed result with the unsigned argument converts to unsigned.\<close>

definition fd_SeekSet :: "posix_file \<Rightarrow> u64 \<Rightarrow> (u64 \<times> posix_file) result" where
  "fd_SeekSet f offset =
     (let (r, f') = posix_lseek (sint offset) f in if of_int r = offset then Ok (offset, f') else Err Cf_Error)"

definition fd_SeekCur :: "posix_file \<Rightarrow> int \<Rightarrow> (u64 \<times> posix_file) result" where
  "fd_SeekCur f offset =
     (let (r, f') = posix_lseek (int (file_offset f) + offset) f in if r \<ge> 0 then Ok (of_int r, f') else Err Cf_Error)"

definition fd_SeekEnd :: "posix_file \<Rightarrow> int \<Rightarrow> (u64 \<times> posix_file) result" where
  "fd_SeekEnd f offset =
     (let (r, f') = posix_lseek (int (length (file_bytes f)) + offset) f in if r \<ge> 0 then Ok (of_int r, f') else Err Cf_Error)"

definition fd_PRead :: "posix_file \<Rightarrow> u64 \<Rightarrow> u64 \<Rightarrow> string result" where
  "fd_PRead f cnt offset =
     (if sint offset < 0 then Err Cf_Error else Ok (take (unat cnt) (drop (unat offset) (file_bytes f))))"

definition fd_PWrite :: "posix_file \<Rightarrow> string \<Rightarrow> u64 \<Rightarrow> (u64 \<times> posix_file) result" where
  "fd_PWrite f buf offset =
     (if sint offset < 0 then Err Cf_Error
      else let (data_written, f') = posix_pwrite buf (unat offset) f
           in if data_written \<ge> 0 then Ok (of_int data_written, f') else Err Cf_Error)"

definition fd_Truncate :: "posix_file \<Rightarrow> u64 \<Rightarrow> posix_file result" where
  "fd_Truncate f sz = (let (r, f') = posix_ftruncate (sint sz) f in if r = 0 then Ok f' else Err Cf_Error)"

definition fd_ops :: "posix_file reader_seeker_ops" where
  "fd_ops = \<lparr>Read = fd_Read, SeekSet = fd_SeekSet, SeekCur = fd_SeekCur, SeekEnd = fd_SeekEnd, PRead = fd_PRead\<rparr>"

definition fd_writer :: "posix_file writer_seeker_ops" where
  "fd_writer = \<lparr>Write = fd_Write, WSeekSet = fd_SeekSet, WSeekCur = fd_SeekCur, Truncate = fd_Truncate\<rparr>"

subsection \<open>The descriptor keeps the promises of readers and writers\<close>

definition fd_ok :: "posix_file \<Rightarrow> bool" where
  "fd_ok f \<longleftrightarrow> length (file_bytes f) \<le> max_size \<and> file_offset f \<le> length (file_bytes f)"

lemma posix_lseek_ok: "n \<le> max_size \<Longrightarrow> posix_lseek (int n) f = (int n, f\<lparr>file_offset := n\<rparr>)"
proof -
  assume "n \<le> max_size"
  then have "int n \<le> int max_size" by (simp only: of_nat_le_iff)
  then show ?thesis by (simp add: posix_lseek_def)
qed

lemma fd_SeekSet_ok: "unat off \<le> max_size \<Longrightarrow> fd_SeekSet f off = Ok (off, f\<lparr>file_offset := unat off\<rparr>)"
proof -
  assume off: "unat off \<le> max_size"
  have "of_int (int (unat off)) = off" by simp
  moreover have "sint off = int (unat off)" using off by (intro sint_u64_small) simp
  ultimately show ?thesis unfolding fd_SeekSet_def using posix_lseek_ok [OF off] by (simp only: Let_def prod.case if_True simp_thms)
qed

lemma fd_SeekCur_ok:
  "file_offset f + n \<le> max_size \<Longrightarrow>
     fd_SeekCur f (int n) = Ok (of_nat (file_offset f + n), f\<lparr>file_offset := file_offset f + n\<rparr>)"
  using posix_lseek_ok [of "file_offset f + n" f] by (simp add: fd_SeekCur_def)

interpretation fd: reader_seeker fd_ops file_bytes file_offset fd_ok
proof unfold_locales
  fix f n and off :: u64
  assume ok: "fd_ok f"
  then show "length (file_bytes f) < 2 ^ 63" "file_offset f \<le> length (file_bytes f)" by (auto simp: fd_ok_def)
  show "\<exists>k. PRead fd_ops f n off = Ok (take k (drop (unat off) (file_bytes f))) \<and> k \<le> unat n \<and>
      (0 < n \<longrightarrow> unat off < length (file_bytes f) \<longrightarrow> 0 < k)" if "unat off < 2 ^ 63"
    using sint_u64_bounds [OF that] by (intro exI [of _ "unat n"]) (simp add: fd_ops_def fd_PRead_def u64_pos_iff)
  let ?k = "min (unat n) (length (file_bytes f) - file_offset f)"
  have "take ?k (drop (file_offset f) (file_bytes f)) = take (unat n) (drop (file_offset f) (file_bytes f))"
    by (simp add: min_def)
  then show "\<exists>k s'. Read fd_ops f n = Ok (take k (drop (file_offset f) (file_bytes f)), s') \<and> k \<le> unat n \<and>
      file_offset f + k \<le> length (file_bytes f) \<and> (0 < n \<longrightarrow> file_offset f < length (file_bytes f) \<longrightarrow> 0 < k) \<and>
      fd_ok s' \<and> file_bytes s' = file_bytes f \<and> file_offset s' = file_offset f + k"
    using ok by (intro exI [of _ ?k] exI [of _ "f\<lparr>file_offset := file_offset f + ?k\<rparr>"])
      (auto simp: fd_ops_def fd_Read_def posix_read_def Let_def fd_ok_def u64_pos_iff min.commute)
  show "\<exists>s'. SeekSet fd_ops f off = Ok (off, s') \<and> fd_ok s' \<and> file_bytes s' = file_bytes f \<and> file_offset s' = unat off"
    if "unat off \<le> length (file_bytes f)"
    using ok that by (simp add: fd_ops_def fd_SeekSet_ok fd_ok_def)
  show "\<exists>s'. SeekCur fd_ops f 0 = Ok (of_nat (file_offset f), s') \<and> fd_ok s' \<and> file_bytes s' = file_bytes f \<and>
      file_offset s' = file_offset f"
    using ok fd_SeekCur_ok [of f 0] by (simp add: fd_ops_def fd_ok_def)
  have "length (file_bytes f) \<le> max_size" using ok by (simp add: fd_ok_def)
  then show "\<exists>s'. SeekEnd fd_ops f 0 = Ok (of_nat (length (file_bytes f)), s') \<and> fd_ok s' \<and> file_bytes s' = file_bytes f \<and>
      file_offset s' = length (file_bytes f)"
    by (simp add: fd_ops_def fd_SeekEnd_def posix_lseek_ok fd_ok_def)
qed

subsection \<open>What a target of SparseCopy promises\<close>

locale sparse_writer = byte_writer "Write out" content at wok capacity
  for out :: "'w writer_seeker_ops" and content :: "'w \<Rightarrow> string" and at :: "'w \<Rightarrow> nat" and wok :: "'w \<Rightarrow> bool"
    and capacity :: nat +
  assumes write_nothing: "wok w \<Longrightarrow> Write out w [] = Ok (0, w)"
    and seek_start: "wok w \<Longrightarrow> \<exists>w'. WSeekSet out w 0 = Ok (0, w') \<and> wok w' \<and> content w' = content w \<and> at w' = 0"
    and seek_on: "wok w \<Longrightarrow> at w + n \<le> length (content w) \<Longrightarrow> length (content w) \<le> capacity \<Longrightarrow>
      \<exists>w' p. WSeekCur out w (int n) = Ok (p, w') \<and> wok w' \<and> content w' = content w \<and> at w' = at w + n"
    and truncate_law: "wok w \<Longrightarrow> n \<le> capacity \<Longrightarrow> at w \<le> n \<Longrightarrow>
      \<exists>w'. Truncate out w (of_nat n) = Ok w' \<and> wok w' \<and> at w' = at w \<and>
        content w' = take n (content w) @ replicate (n - length (content w)) (CHR 0x00)"

interpretation fd_out: sparse_writer fd_writer file_bytes file_offset fd_ok max_size
proof unfold_locales
  fix f n and buf :: string
  assume ok: "fd_ok f"
  then show "file_offset f \<le> length (file_bytes f)" by (simp add: fd_ok_def)
  show "\<exists>k w'. Write fd_writer f buf = Ok (of_nat k, w') \<and> 0 < k \<and> k \<le> length buf \<and> fd_ok w' \<and>
      file_bytes w' = overwrite (file_offset f) (take k buf) (file_bytes f) \<and> file_offset w' = file_offset f + k"
    if "buf \<noteq> []" "file_offset f + length buf \<le> max_size"
    using ok that by (intro exI [of _ "length buf"])
      (auto simp: fd_writer_def fd_Write_def posix_write_def posix_pwrite_def Let_def fd_ok_def)
  show "Write fd_writer f [] = Ok (0, f)"
    by (simp add: fd_writer_def fd_Write_def posix_write_def posix_pwrite_def)
  show "\<exists>w'. WSeekSet fd_writer f 0 = Ok (0, w') \<and> fd_ok w' \<and> file_bytes w' = file_bytes f \<and> file_offset w' = 0"
    using ok by (simp add: fd_writer_def fd_SeekSet_ok fd_ok_def)
  show "\<exists>w' p. WSeekCur fd_writer f (int n) = Ok (p, w') \<and> fd_ok w' \<and> file_bytes w' = file_bytes f \<and>
      file_offset w' = file_offset f + n" if "file_offset f + n \<le> length (file_bytes f)"
    using ok that by (simp add: fd_writer_def fd_SeekCur_ok fd_ok_def)
  show "\<exists>w'. Truncate fd_writer f (of_nat n) = Ok w' \<and> fd_ok w' \<and> file_offset w' = file_offset f \<and>
      file_bytes w' = take n (file_bytes f) @ replicate (n - length (file_bytes f)) (CHR 0x00)"
    if n: "n \<le> max_size" "file_offset f \<le> n"
  proof -
    have s: "sint (of_nat n :: u64) = int n" using n(1) by (subst sint_u64_small) simp_all
    have "int n \<le> int max_size" using n(1) by (simp only: of_nat_le_iff)
    then show ?thesis using ok n by (auto simp: fd_writer_def fd_Truncate_def posix_ftruncate_def s fd_ok_def min_def)
  qed
qed simp

interpretation fd_sink: byte_writer fd_Write file_bytes file_offset fd_ok max_size
  using fd_out.byte_writer_axioms by (simp add: fd_writer_def)

subsection \<open>Copying gives the bytes of the reader to the writer\<close>

locale copying = byte_reader rd todo ok + byte_writer wr content at wok capacity
  for rd :: "'r \<Rightarrow> u64 \<Rightarrow> (string \<times> 'r) result" and todo :: "'r \<Rightarrow> string" and ok :: "'r \<Rightarrow> bool"
    and wr :: "'w \<Rightarrow> string \<Rightarrow> (u64 \<times> 'w) result" and content :: "'w \<Rightarrow> string" and at :: "'w \<Rightarrow> nat"
    and wok :: "'w \<Rightarrow> bool" and capacity :: nat
begin

lemma next_chunk:
  assumes "ok r"
  obtains k r' where "rd r (of_nat kBufferSize) = Ok (take k (todo r), r')" "k \<le> kBufferSize" "k \<le> length (todo r)"
    "todo r \<noteq> [] \<longrightarrow> 0 < k" "ok r'" "todo r' = drop k (todo r)"
proof -
  have "unat (of_nat kBufferSize :: u64) = kBufferSize" "0 < (of_nat kBufferSize :: u64)"
    by (simp_all add: kBufferSize_def)
  then show thesis using rd_law [OF assms, of "of_nat kBufferSize"] that by auto
qed

lemma Copy_spec:
  "ok r \<Longrightarrow> wok w \<Longrightarrow> at w + length (todo r) \<le> capacity \<Longrightarrow>
     \<exists>r' w'. Copy rd wr r w = Some (Ok (r', w')) \<and> todo r' = [] \<and> wok w' \<and>
       content w' = overwrite (at w) (todo r) (content w) \<and> at w' = at w + length (todo r)"
  unfolding Copy_def
proof (induction "length (todo r)" arbitrary: r w rule: less_induct)
  case less
  obtain k r1 where k: "rd r (of_nat kBufferSize) = Ok (take k (todo r), r1)" "k \<le> length (todo r)"
      "todo r \<noteq> [] \<longrightarrow> 0 < k" "ok r1" "todo r1 = drop k (todo r)"
    using next_chunk [OF less.prems(1)] by metis
  show ?case
  proof (cases "todo r = []")
    case True
    then show ?thesis using k less.prems at_le [of w] by (subst copy_loop.simps) (simp add: overwrite_Nil)
  next
    case False
    have room: "at w + length (take k (todo r)) \<le> capacity" using k(2) less.prems(3) by simp
    obtain w1 where w1: "WriteExact wr (take k (todo r)) w = Ok w1" "wok w1"
        "content w1 = overwrite (at w) (take k (todo r)) (content w)" "at w1 = at w + k"
      using WriteExact_spec [OF less.prems(2) room] k(2) by (auto simp: min_def)
    have "length (todo r1) < length (todo r)" "at w1 + length (todo r1) \<le> capacity"
      using k False w1(4) less.prems(3) by auto
    then obtain r' w' where "copy_loop rd wr r1 w1 = Some (Ok (r', w'))" "todo r' = []" "wok w'"
        "content w' = overwrite (at w1) (todo r1) (content w1)" "at w' = at w1 + length (todo r1)"
      using less.hyps [OF _ k(4) w1(2)] by blast
    moreover have "overwrite (at w1) (todo r1) (content w1) = overwrite (at w) (todo r) (content w)"
      using overwrite_append [of "at w" "take k (todo r)" "drop k (todo r)" "content w"] k(2,5) w1(3,4)
      by (simp add: min_absorb2)
    ultimately show ?thesis using k False w1(1,4) by (subst copy_loop.simps) auto
  qed
qed

end

locale sparse_copying = byte_reader rd todo ok + sparse_writer out content at wok capacity
  for rd :: "'r \<Rightarrow> u64 \<Rightarrow> (string \<times> 'r) result" and todo :: "'r \<Rightarrow> string" and ok :: "'r \<Rightarrow> bool"
    and out :: "'w writer_seeker_ops" and content :: "'w \<Rightarrow> string" and at :: "'w \<Rightarrow> nat"
    and wok :: "'w \<Rightarrow> bool" and capacity :: nat

sublocale sparse_copying \<subseteq> copying rd todo ok "Write out" content at wok capacity
  by unfold_locales

context sparse_copying
begin

text \<open>One chunk at the end of the file, written or skipped.\<close>

lemma put_chunk:
  assumes "wok w" and "at w = length (content w)" and "chunk \<noteq> []" and "at w + length chunk \<le> capacity"
    and "zero_chunk chunk (chunk @ rest) = z" and "ts = of_nat (at w) + of_nat (length chunk)"
  shows "\<exists>w'. (if z then bind_result (Truncate out w ts) (\<lambda>w'.
                      bind_result (WSeekCur out w' (int (length chunk))) (\<lambda>(_, w''). Ok w''))
               else WriteExact (Write out) chunk w) = Ok w' \<and> wok w' \<and> content w' = content w @ chunk \<and>
      at w' = at w + length chunk"
proof (cases z)
  case False
  then show ?thesis using WriteExact_spec [OF assms(1,4)] assms(2) by (simp add: overwrite_end)
next
  case True
  then have chunk: "chunk = replicate (length chunk) (CHR 0x00)"
    using assms(5) by (intro replicate_eqI) (auto simp: zero_chunk_def list_all_iff)
  obtain w1 where w1: "Truncate out w ts = Ok w1" "wok w1" "at w1 = at w"
      "content w1 = content w @ replicate (length chunk) (CHR 0x00)"
    using truncate_law [OF assms(1,4)] assms(2,6) by (auto simp flip: of_nat_add)
  then show ?thesis using seek_on [OF w1(2), of "length chunk"] assms(2,4) True chunk by auto
qed

lemma sparse_copy_loop_spec:
  "ok r \<Longrightarrow> wok w \<Longrightarrow> at w = length (content w) \<Longrightarrow> at w + length (todo r) \<le> capacity \<Longrightarrow>
     \<exists>r' w'. sparse_copy_loop rd out buf (of_nat (at w)) r w = Some (Ok (r', w')) \<and> content w' = content w @ todo r"
proof (induction "length (todo r)" arbitrary: r w buf rule: less_induct)
  case less
  obtain k r1 where k: "rd r (of_nat kBufferSize) = Ok (take k (todo r), r1)" "k \<le> length (todo r)"
      "todo r \<noteq> [] \<longrightarrow> 0 < k" "ok r1" "todo r1 = drop k (todo r)"
    using next_chunk [OF less.prems(1)] by metis
  let ?chunk = "take k (todo r)"
  show ?case
  proof (cases "todo r = []")
    case True
    then show ?thesis using k less.prems write_nothing by (subst sparse_copy_loop.simps) simp
  next
    case False
    let ?buf = "?chunk @ drop (length ?chunk) buf"
    have ne: "?chunk \<noteq> []" and room: "at w + length ?chunk \<le> capacity" and len: "length ?chunk = k"
      using k False less.prems(4) by auto
    obtain w1 where w1: "(if zero_chunk ?chunk ?buf
            then bind_result (Truncate out w (of_nat (at w) + of_nat (length ?chunk))) (\<lambda>w'.
                 bind_result (WSeekCur out w' (int (length ?chunk))) (\<lambda>(_, w''). Ok w''))
            else WriteExact (Write out) ?chunk w) = Ok w1"
        "wok w1" "content w1 = content w @ ?chunk" "at w1 = at w + k"
      using put_chunk [OF less.prems(2,3) ne room refl refl, of "drop (length ?chunk) buf"] len by auto
    have "length (todo r1) < length (todo r)" "at w1 + length (todo r1) \<le> capacity" "at w1 = length (content w1)"
      using k False w1(3,4) less.prems(3,4) by auto
    then obtain r' w' where "sparse_copy_loop rd out ?buf (of_nat (at w1)) r1 w1 = Some (Ok (r', w'))"
        "content w' = content w1 @ todo r1"
      using less.hyps [OF _ k(4) w1(2)] by blast
    moreover have "sparse_copy_loop rd out buf (of_nat (at w)) r w =
        sparse_copy_loop rd out ?buf (of_nat (at w) + of_nat (length ?chunk)) r1 w1"
      by (subst sparse_copy_loop.simps) (simp only: k(1) ne w1(1) Let_def sum.case prod.case if_False)
    ultimately show ?thesis using k(5) w1(3,4) len by simp
  qed
qed

lemma SparseCopy_fresh:
  assumes "ok r" and "wok w" and "content w = []" and "length (todo r) \<le> capacity"
  shows "\<exists>r' w'. SparseCopy rd out junk r w = Some (Ok (r', w')) \<and> content w' = todo r"
proof -
  obtain w1 where w1: "WSeekSet out w 0 = Ok (0, w1)" "wok w1" "content w1 = []" "at w1 = 0"
    using seek_start [OF assms(2)] assms(3) by auto
  then show ?thesis using sparse_copy_loop_spec [OF assms(1) w1(2)] assms(4) by (simp add: SparseCopy_def)
qed

text \<open>A chunk of zeros over an old file: the file is cut, but its bytes stay.\<close>

lemma SparseCopy_old_bytes:
  assumes "ok r" and "wok w" and "todo r = replicate n (CHR 0x00)" and "0 < n" and "n \<le> length (content w)"
    and "rd r (of_nat kBufferSize) = Ok (todo r, r1)" and "ok r1" and "todo r1 = []"
    and "list_all (\<lambda>c. c = CHR 0x00) junk" and "length (content w) \<le> capacity"
  shows "\<exists>r' w'. SparseCopy rd out junk r w = Some (Ok (r', w')) \<and> content w' = take n (content w)"
proof -
  obtain w1 where w1: "WSeekSet out w 0 = Ok (0, w1)" "wok w1" "content w1 = content w" "at w1 = 0"
    using seek_start [OF assms(2)] by auto
  obtain w2 where w2: "Truncate out w1 (of_nat n) = Ok w2" "wok w2" "at w2 = 0" "content w2 = take n (content w)"
    using truncate_law [OF w1(2), of n] w1(3,4) assms(5,10) by auto
  obtain w3 p where w3: "WSeekCur out w2 (int n) = Ok (p, w3)" "wok w3" "content w3 = take n (content w)"
    using seek_on [OF w2(2), of n] w2(3,4) assms(5,10) by auto
  let ?buf = "todo r @ drop n junk"
  have "list_all (\<lambda>c. c = CHR 0x00) (drop n junk)" using assms(9) by (auto simp: list_all_iff dest: in_set_dropD)
  then have z: "zero_chunk (todo r) ?buf" using assms(3,4) by (simp add: zero_chunk_def list_all_iff)
  have ne: "todo r \<noteq> []" and len: "length (todo r) = n" using assms(3,4) by auto
  have step: "sparse_copy_loop rd out junk 0 r w1 = sparse_copy_loop rd out ?buf (of_nat n) r1 w3"
    using assms(6) z ne len w2(1) w3(1) by (subst sparse_copy_loop.simps) (simp add: Let_def)
  obtain r2 where "rd r1 (of_nat kBufferSize) = Ok ([], r2)"
    using rd_law [OF assms(7), of "of_nat kBufferSize"] assms(8) by auto
  then have "sparse_copy_loop rd out ?buf (of_nat n) r1 w3 = Some (Ok (r2, w3))"
    using write_nothing [OF w3(2)] by (subst sparse_copy_loop.simps) simp
  then show ?thesis using step w1(1) w3(3) by (simp add: SparseCopy_def)
qed

end

interpretation mem_copy: copying "Read mem_ops" "\<lambda>s. drop (unat (cursor s)) (mem_data s)" mem_ok
  mem_Write mem_data "\<lambda>io. unat (cursor io)" mem_ok max_size
  by unfold_locales

interpretation mem_to_fd: sparse_copying "Read mem_ops" "\<lambda>s. drop (unat (cursor s)) (mem_data s)" mem_ok
  fd_writer file_bytes file_offset fd_ok max_size
  by unfold_locales

interpretation mem_to_fd_plain: copying "Read mem_ops" "\<lambda>s. drop (unat (cursor s)) (mem_data s)" mem_ok
  fd_Write file_bytes file_offset fd_ok max_size
  using mem_to_fd.copying_axioms by (simp add: fd_writer_def)

text \<open>
  C28: Copying to a new file with \<^verbatim>\<open>SparseCopy\<close> ends and leaves exactly the bytes from the reader's
  position on, whatever the uninitialised buffer held, the same file as \<^verbatim>\<open>Copy\<close> makes. Over an old
  file it does not: a chunk of zeros that fits into the old contents leaves the old bytes in
  place of the zeros and cuts the rest.
\<close>

theorem sparse_copy_to_new_file:
  assumes "mem_ok r" and "fd_ok f" and "file_bytes f = []"
    and "0 < n" and "n \<le> kBufferSize" and "fd_ok old" and "n \<le> length (file_bytes old)"
  shows "(\<exists>r' f'. SparseCopy (Read mem_ops) fd_writer junk r f = Some (Ok (r', f')) \<and>
      file_bytes f' = drop (unat (cursor r)) (mem_data r)) \<and>
    (\<exists>r' f'. Copy (Read mem_ops) fd_Write r f = Some (Ok (r', f')) \<and>
      file_bytes f' = drop (unat (cursor r)) (mem_data r)) \<and>
    (\<exists>r' f'. SparseCopy (Read mem_ops) fd_writer (replicate kBufferSize (CHR 0x00))
        (InMemoryIo (replicate n (CHR 0x00))) old = Some (Ok (r', f')) \<and> file_bytes f' = take n (file_bytes old))"
proof (intro conjI)
  have room: "length (drop (unat (cursor r)) (mem_data r)) \<le> max_size" using assms(1) by (auto simp: mem_ok_def)
  show "\<exists>r' f'. SparseCopy (Read mem_ops) fd_writer junk r f = Some (Ok (r', f')) \<and>
      file_bytes f' = drop (unat (cursor r)) (mem_data r)"
    using mem_to_fd.SparseCopy_fresh [OF assms(1-3)] room by simp
  have "file_offset f = 0" using assms(2,3) by (simp add: fd_ok_def)
  then show "\<exists>r' f'. Copy (Read mem_ops) fd_Write r f = Some (Ok (r', f')) \<and>
      file_bytes f' = drop (unat (cursor r)) (mem_data r)"
    using mem_to_fd_plain.Copy_spec [OF assms(1,2)] assms(3) room by (simp add: overwrite_def) blast
  let ?z = "replicate n (CHR 0x00)" and ?r = "InMemoryIo (replicate n (CHR 0x00))"
  let ?r1 = "\<lparr>mem_data = ?z, cursor = of_nat n\<rparr>"
  have n: "unat (of_nat n :: u64) = n" "n \<le> max_size" using assms(5) by (simp_all add: kBufferSize_def)
  have "mem_ok ?r" "mem_ok ?r1" using n by (simp_all add: mem_ok_def InMemoryIo_def)
  moreover have "ClampRange ?z 0 (of_nat kBufferSize) = of_nat n"
    using assms(5) n by (intro word_unat_eq_iff [THEN iffD2]) (simp add: unat_ClampRange kBufferSize_def)
  then have "Read mem_ops ?r (of_nat kBufferSize) = Ok (?z, ?r1)"
    using n by (simp add: mem_ops_def mem_Read_def InMemoryIo_def copy_out_def)
  ultimately show "\<exists>r' f'. SparseCopy (Read mem_ops) fd_writer (replicate kBufferSize (CHR 0x00)) ?r old = Some (Ok (r', f')) \<and>
      file_bytes f' = take n (file_bytes old)"
    using mem_to_fd.SparseCopy_old_bytes [of ?r old n ?r1 "replicate kBufferSize (CHR 0x00)"] assms(4,6,7) n
    by (simp add: InMemoryIo_def fd_ok_def list_all_iff)
qed

theorem sparse_copy_to_new_file_witness:
  "(\<exists>r' f'. SparseCopy (Read mem_ops) fd_writer ''junk'' (InMemoryIo ''data'') \<lparr>file_bytes = [], file_offset = 0\<rparr> =
      Some (Ok (r', f')) \<and> file_bytes f' = ''data'') \<and>
   (\<exists>r' f'. SparseCopy (Read mem_ops) fd_writer (replicate kBufferSize (CHR 0x00)) (InMemoryIo [CHR 0x00, CHR 0x00])
      \<lparr>file_bytes = ''old'', file_offset = 0\<rparr> = Some (Ok (r', f')) \<and> file_bytes f' = ''ol'')"
  using sparse_copy_to_new_file [of "InMemoryIo ''data''" "\<lparr>file_bytes = [], file_offset = 0\<rparr>" 2
      "\<lparr>file_bytes = ''old'', file_offset = 0\<rparr>" "''junk''"]
  by (simp add: mem_ok_def fd_ok_def InMemoryIo_def kBufferSize_def) (simp add: numeral_2_eq_2 kBufferSize_def [symmetric])

end
