(* ===== verification/Shared_Buf.thy ===== *)
theory Shared_Buf
  imports Io_Copy
begin

section \<open>Reading and writing whole buffers through a descriptor\<close>

text \<open>
  \<^verbatim>\<open>common/libs/fs/shared_buf.cc\<close>. The functions call \<^verbatim>\<open>Write\<close>, \<^verbatim>\<open>Send\<close> and \<^verbatim>\<open>Read\<close> of a descriptor until
  everything is transferred. The descriptor's calls are arguments: writing gives the system call's
  result, reading the bytes or \<open>None\<close> for \<open>-1\<close>.
\<close>

type_synonym 'f write_call = "'f \<Rightarrow> string \<Rightarrow> int \<times> 'f"
type_synonym 'f read_call = "'f \<Rightarrow> nat \<Rightarrow> string option \<times> 'f"

definition BUFF_SIZE :: nat where "BUFF_SIZE = 2 ^ 14"

text \<open>A write of nothing still calls \<^verbatim>\<open>Write\<close> once; a short result is reported as it is.\<close>

function write_all_loop :: "'f write_call \<Rightarrow> nat \<Rightarrow> string \<Rightarrow> 'f \<Rightarrow> int \<times> 'f" where
  "write_all_loop wr total_written buf fd =
     (let (written, fd') = wr fd buf
      in if written \<le> 0 then (if written < 0 then (written, fd') else (int total_written, fd'))
         else if nat written < length buf then write_all_loop wr (total_written + nat written) (drop (nat written) buf) fd'
         else (int total_written + written, fd'))"
  by pat_completeness auto
termination
  by (relation "measure (\<lambda>(_, _, buf, _). length buf)") auto

declare write_all_loop.simps [simp del]

definition WriteAll :: "'f write_call \<Rightarrow> string \<Rightarrow> 'f \<Rightarrow> int \<times> 'f" where
  "WriteAll wr buf fd = write_all_loop wr 0 buf fd"

text \<open>The bytes come back as well on failure: the caller's buffer has been written to.\<close>

function read_exact_loop :: "'f read_call \<Rightarrow> string \<Rightarrow> nat \<Rightarrow> 'f \<Rightarrow> int \<times> string \<times> 'f" where
  "read_exact_loop rd buf left fd =
     (case rd fd left of
        (None, fd') \<Rightarrow> (- 1, buf, fd')
      | (Some data, fd') \<Rightarrow>
          if data = [] then (int (length buf), buf, fd')
          else if length data < left then read_exact_loop rd (buf @ data) (left - length data) fd'
          else (int (length (buf @ data)), buf @ data, fd'))"
  by pat_completeness auto
termination
  by (relation "measure (\<lambda>(_, _, left, _). left)") auto

declare read_exact_loop.simps [simp del]

definition fd_ReadExact :: "'f read_call \<Rightarrow> nat \<Rightarrow> 'f \<Rightarrow> int \<times> string \<times> 'f" where
  "fd_ReadExact rd sz fd = read_exact_loop rd [] sz fd"

text \<open>
  \<^verbatim>\<open>ReadAll\<close> ends at the end of the file, which a peer need not send. Its string is left alone on
  failure.
\<close>

partial_function (option) read_all_loop :: "'f read_call \<Rightarrow> string \<Rightarrow> string \<Rightarrow> 'f \<Rightarrow> (int \<times> string \<times> 'f) option" where
  "read_all_loop rd buf ss fd =
     (case rd fd (BUFF_SIZE - 1) of
        (None, fd') \<Rightarrow> Some (- 1, buf, fd')
      | (Some data, fd') \<Rightarrow>
          if data = [] then Some (int (length ss), ss, fd') else read_all_loop rd buf (ss @ data) fd')"

definition ReadAll :: "'f read_call \<Rightarrow> string \<Rightarrow> 'f \<Rightarrow> (int \<times> string \<times> 'f) option" where
  "ReadAll rd buf fd = read_all_loop rd buf [] fd"

function send_loop :: "'f write_call \<Rightarrow> string \<Rightarrow> 'f \<Rightarrow> bool \<times> 'f" where
  "send_loop send_call msg sock =
     (if msg = [] then (True, sock)
      else let (just_written, sock') = send_call sock msg
           in if just_written \<le> 0 then (False, sock') else send_loop send_call (drop (nat just_written) msg) sock')"
  by pat_completeness auto
termination
  by (relation "measure (\<lambda>(_, msg, _). length msg)") auto

declare send_loop.simps [simp del]

definition SendAll :: "('f \<Rightarrow> bool) \<Rightarrow> 'f write_call \<Rightarrow> string \<Rightarrow> 'f \<Rightarrow> bool \<times> 'f" where
  "SendAll IsOpen send_call msg sock = (if \<not> IsOpen sock then (False, sock) else send_loop send_call msg sock)"

function recv_loop :: "'f read_call \<Rightarrow> string \<Rightarrow> nat \<Rightarrow> 'f \<Rightarrow> string \<times> 'f" where
  "recv_loop rd received left sock =
     (if left = 0 then (received, sock)
      else case rd sock left of
             (None, sock') \<Rightarrow> ([], sock')
           | (Some d, sock') \<Rightarrow> if d = [] then ([], sock') else recv_loop rd (received @ d) (left - length d) sock')"
  by pat_completeness auto
termination
  by (relation "measure (\<lambda>(_, _, left, _). left)") auto

declare recv_loop.simps [simp del]

definition RecvAll :: "('f \<Rightarrow> bool) \<Rightarrow> 'f read_call \<Rightarrow> nat \<Rightarrow> 'f \<Rightarrow> string \<times> 'f" where
  "RecvAll IsOpen rd cnt sock = (if \<not> IsOpen sock then ([], sock) else recv_loop rd [] cnt sock)"

subsection \<open>What the callers rely on\<close>

text \<open>
  What a stream has accepted grows by the bytes that a call reports, and by nothing when it reports
  none or fails.
\<close>

locale stream_writer =
  fixes wr :: "'f write_call" and accepted :: "'f \<Rightarrow> string" and wok :: "'f \<Rightarrow> bool"
  assumes write_some: "wok f \<Longrightarrow> wr f buf = (n, f') \<Longrightarrow> 0 < n \<Longrightarrow>
      wok f' \<and> nat n \<le> length buf \<and> accepted f' = accepted f @ take (nat n) buf"
    and write_none: "wok f \<Longrightarrow> wr f buf = (n, f') \<Longrightarrow> n \<le> 0 \<Longrightarrow> wok f' \<and> accepted f' = accepted f"
begin

text \<open>What is written is a prefix of the buffer, and the result tells whether it is all of it.\<close>

lemma write_all_loop_prefix:
  "wok f \<Longrightarrow> write_all_loop wr tot buf f = (n, f') \<Longrightarrow>
     \<exists>k\<le>length buf. wok f' \<and> accepted f' = accepted f @ take k buf \<and> (n < 0 \<or> n = int (tot + k))"
proof (induction "length buf" arbitrary: buf tot f rule: less_induct)
  case less
  obtain w f1 where w: "wr f buf = (w, f1)" by fastforce
  show ?case
  proof (cases "w \<le> 0")
    case True
    then show ?thesis using less.prems w write_none [OF less.prems(1) w True]
      by (intro exI [of _ 0]) (auto simp: write_all_loop.simps [of _ _ buf] split: if_splits)
  next
    case pos: False
    then have some: "wok f1" "nat w \<le> length buf" "accepted f1 = accepted f @ take (nat w) buf"
      using write_some [OF less.prems(1) w] by auto
    show ?thesis
    proof (cases "nat w < length buf")
      case True
      then have "write_all_loop wr (tot + nat w) (drop (nat w) buf) f1 = (n, f')"
        using less.prems(2) w pos by (subst (asm) write_all_loop.simps) simp
      moreover have "length (drop (nat w) buf) < length buf" using pos True by simp
      ultimately obtain k where "k \<le> length (drop (nat w) buf)" "wok f'" "accepted f' = accepted f1 @ take k (drop (nat w) buf)"
          "n < 0 \<or> n = int (tot + nat w + k)"
        using less.hyps some(1) by blast
      then show ?thesis using some(3) True pos
        by (intro exI [of _ "nat w + k"]) (auto simp: take_add)
    next
      case False
      then show ?thesis using less.prems w pos some by (intro exI [of _ "length buf"]) (auto simp: write_all_loop.simps [of _ _ buf])
    qed
  qed
qed

lemma WriteAll_prefix:
  "wok f \<Longrightarrow> WriteAll wr buf f = (n, f') \<Longrightarrow>
     \<exists>k\<le>length buf. wok f' \<and> accepted f' = accepted f @ take k buf \<and> (n < 0 \<or> n = int k)"
  using write_all_loop_prefix [of f 0 buf n f'] by (auto simp: WriteAll_def)

lemma send_loop_prefix:
  "wok f \<Longrightarrow> send_loop wr msg f = (b, f') \<Longrightarrow> \<exists>k\<le>length msg. wok f' \<and> accepted f' = accepted f @ take k msg \<and> (b \<longrightarrow> k = length msg)"
proof (induction "length msg" arbitrary: msg f rule: less_induct)
  case less
  show ?case
  proof (cases "msg = []")
    case False
    obtain w f1 where w: "wr f msg = (w, f1)" by fastforce
    show ?thesis
    proof (cases "w \<le> 0")
      case True
      then show ?thesis using less.prems w False write_none [OF less.prems(1) w True]
        by (intro exI [of _ 0]) (auto simp: send_loop.simps [of _ msg])
    next
      case pos: False
      have some: "wok f1" "nat w \<le> length msg" "accepted f1 = accepted f @ take (nat w) msg"
        using write_some [OF less.prems(1) w] pos by auto
      have "send_loop wr (drop (nat w) msg) f1 = (b, f')"
        using less.prems(2) w pos False by (subst (asm) send_loop.simps) simp
      moreover have "length (drop (nat w) msg) < length msg" using pos False by simp
      ultimately obtain k where "k \<le> length (drop (nat w) msg)" "wok f'" "accepted f' = accepted f1 @ take k (drop (nat w) msg)"
          "b \<longrightarrow> k = length (drop (nat w) msg)"
        using less.hyps some(1) by blast
      then show ?thesis using some by (intro exI [of _ "nat w + k"]) (auto simp: take_add)
    qed
  qed (use less.prems in \<open>simp add: send_loop.simps\<close>)
qed

end

text \<open>A regular file written at its end is such a stream.\<close>

abbreviation posix_write_call :: "posix_file write_call" where
  "posix_write_call f buf \<equiv> posix_write buf f"

interpretation posix_append: stream_writer posix_write_call file_bytes "\<lambda>f. file_offset f = length (file_bytes f)"
  by unfold_locales (auto simp: posix_write_def posix_pwrite_def Let_def overwrite_def min_def nat_diff_distrib' split: if_splits)

lemma posix_write_all:
  assumes "file_offset f + length buf \<le> max_size"
  shows "WriteAll posix_write_call buf f =
    (int (length buf), if buf = [] then f
      else f\<lparr>file_bytes := overwrite (file_offset f) buf (file_bytes f), file_offset := file_offset f + length buf\<rparr>)"
  using assms unfolding WriteAll_def
  by (subst write_all_loop.simps) (auto simp: posix_write_def posix_pwrite_def Let_def min_def)

definition posix_read_call :: "posix_file read_call" where
  "posix_read_call f n = (let (data, f') = posix_read n f in (Some data, f'))"

lemma posix_read_all_loop:
  "\<exists>f'. read_all_loop posix_read_call buf ss f =
      Some (int (length ss + length (drop (file_offset f) (file_bytes f))), ss @ drop (file_offset f) (file_bytes f), f') \<and>
    file_bytes f' = file_bytes f"
proof (induction "length (drop (file_offset f) (file_bytes f))" arbitrary: f ss rule: less_induct)
  case less
  let ?d = "drop (file_offset f) (file_bytes f)" and ?n = "BUFF_SIZE - 1"
  let ?f = "f\<lparr>file_offset := file_offset f + length (take ?n ?d)\<rparr>"
  have n: "0 < ?n" by (simp add: BUFF_SIZE_def)
  have call: "posix_read_call f ?n = (Some (take ?n ?d), ?f)"
    by (simp add: posix_read_call_def posix_read_def Let_def)
  show ?case
  proof (cases "?d = []")
    case True
    then show ?thesis using call by (subst read_all_loop.simps) simp
  next
    case False
    have rest: "drop (file_offset ?f) (file_bytes ?f) = drop ?n ?d"
      by (simp add: add.commute min_def)
    have "length (drop ?n ?d) < length ?d" using False n by simp
    from less.hyps [of ?f "ss @ take ?n ?d", unfolded rest, OF this] obtain f' where
      "read_all_loop posix_read_call buf (ss @ take ?n ?d) ?f =
         Some (int (length (ss @ take ?n ?d) + length (drop ?n ?d)), (ss @ take ?n ?d) @ drop ?n ?d, f')"
      "file_bytes f' = file_bytes f" by auto
    moreover have "take ?n ?d \<noteq> []" using False n by simp
    ultimately show ?thesis using call by (subst read_all_loop.simps) (simp del: drop_drop take_eq_Nil)
  qed
qed

lemma posix_read_all:
  "\<exists>f'. ReadAll posix_read_call buf f =
      Some (int (length (drop (file_offset f) (file_bytes f))), drop (file_offset f) (file_bytes f), f') \<and>
    file_bytes f' = file_bytes f"
  using posix_read_all_loop [of buf "[]" f] by (simp add: ReadAll_def)

end
