(* ===== verification/Io_Views.thy ===== *)
theory Io_Views
  imports In_Memory_Io Cpp_Map
begin

section \<open>Views: windows and concatenations\<close>

text \<open>
  \<^verbatim>\<open>io/fake_seek.cc\<close>, \<^verbatim>\<open>io/read_window_view.cc\<close> and \<^verbatim>\<open>io/concat.cc\<close>: readers that are made of other
  readers by giving \<^verbatim>\<open>PRead\<close> only; position and \<^verbatim>\<open>Read\<close> come from \<^verbatim>\<open>ReaderFakeSeeker\<close>.
\<close>

subsection \<open>Positions over PRead\<close>

record 'p fake_seeker =
  fs_inner :: 'p
  seek_pos :: u64
  fs_length :: u64

definition ReaderFakeSeeker :: "'p \<Rightarrow> u64 \<Rightarrow> 'p fake_seeker" where
  "ReaderFakeSeeker p len = \<lparr>fs_inner = p, seek_pos = 0, fs_length = len\<rparr>"

definition fake_Read :: "('p \<Rightarrow> u64 \<Rightarrow> u64 \<Rightarrow> string result) \<Rightarrow> 'p fake_seeker \<Rightarrow> u64 \<Rightarrow> (string \<times> 'p fake_seeker) result" where
  "fake_Read pread s cnt =
     bind_result (pread (fs_inner s) cnt (seek_pos s)) (\<lambda>data.
       Ok (data, s\<lparr>seek_pos := seek_pos s + of_nat (length data)\<rparr>))"

definition fake_SeekSet :: "'p fake_seeker \<Rightarrow> u64 \<Rightarrow> (u64 \<times> 'p fake_seeker) result" where
  "fake_SeekSet s offset = (let p = min offset (fs_length s) in Ok (p, s\<lparr>seek_pos := p\<rparr>))"

definition fake_SeekCur :: "'p fake_seeker \<Rightarrow> int \<Rightarrow> (u64 \<times> 'p fake_seeker) result" where
  "fake_SeekCur s off = bind_result (signed_target (seek_pos s) off) (fake_SeekSet s)"

definition fake_SeekEnd :: "'p fake_seeker \<Rightarrow> int \<Rightarrow> (u64 \<times> 'p fake_seeker) result" where
  "fake_SeekEnd s off = bind_result (signed_target (fs_length s) off) (fake_SeekSet s)"

definition fake_ops :: "('p \<Rightarrow> u64 \<Rightarrow> u64 \<Rightarrow> string result) \<Rightarrow> 'p fake_seeker reader_seeker_ops" where
  "fake_ops pread = \<lparr>Read = fake_Read pread, SeekSet = fake_SeekSet, SeekCur = fake_SeekCur, SeekEnd = fake_SeekEnd,
     PRead = (\<lambda>s. pread (fs_inner s))\<rparr>"

text \<open>
  Sequences of seeks, and the positions they should give in a file of a given length: an offset is
  taken from the start, the position or the end, and cut to the file on both sides.
\<close>

datatype seek_op = Seek_Set u64 | Seek_Cur int | Seek_End int

primrec seek_call :: "'s reader_seeker_ops \<Rightarrow> 's \<Rightarrow> seek_op \<Rightarrow> (u64 \<times> 's) result" where
  "seek_call ops s (Seek_Set off) = SeekSet ops s off"
| "seek_call ops s (Seek_Cur off) = SeekCur ops s off"
| "seek_call ops s (Seek_End off) = SeekEnd ops s off"

fun seek_calls :: "'s reader_seeker_ops \<Rightarrow> 's \<Rightarrow> seek_op list \<Rightarrow> (u64 list \<times> 's) result" where
  "seek_calls ops s [] = Ok ([], s)"
| "seek_calls ops s (k # ks) =
     bind_result (seek_call ops s k) (\<lambda>(p, s).
       bind_result (seek_calls ops s ks) (\<lambda>(ps, s). Ok (p # ps, s)))"

primrec seek_target :: "nat \<Rightarrow> nat \<Rightarrow> seek_op \<Rightarrow> nat" where
  "seek_target len p (Seek_Set off) = min (unat off) len"
| "seek_target len p (Seek_Cur off) = min (nat (int p + off)) len"
| "seek_target len p (Seek_End off) = min (nat (int len + off)) len"

fun seek_targets :: "nat \<Rightarrow> nat \<Rightarrow> seek_op list \<Rightarrow> nat list" where
  "seek_targets len p [] = []"
| "seek_targets len p (k # ks) = seek_target len p k # seek_targets len (seek_target len p k) ks"

text \<open>The offsets for which the signed sum cannot overflow, wherever the position is.\<close>

primrec seek_in_range :: "nat \<Rightarrow> seek_op \<Rightarrow> bool" where
  "seek_in_range len (Seek_Set off) \<longleftrightarrow> True"
| "seek_in_range len (Seek_Cur off) \<longleftrightarrow> - (2 ^ 63) \<le> off \<and> int len + off < 2 ^ 63"
| "seek_in_range len (Seek_End off) \<longleftrightarrow> - (2 ^ 63) \<le> off \<and> int len + off < 2 ^ 63"

lemma signed_target_small:
  assumes "unat w \<le> len" and "len < 2 ^ 63" and "- (2 ^ 63) \<le> off" and "int len + off < 2 ^ 63"
  shows "\<exists>t. signed_target w off = Ok t \<and> unat t = nat (int (unat w) + off)"
proof -
  have "0 \<le> sint w" "nat (sint w) = unat w" using assms(1,2) sint_u64_bounds [of w] by simp_all
  then have w: "sint w = int (unat w)" by (metis nat_0_le)
  let ?t = "max (int (unat w) + off) 0"
  have "int (unat w) \<le> int len" using assms(1) by (rule of_nat_mono)
  then have in_range: "\<not> int (unat w) + off < - (2 ^ 63)" "\<not> 2 ^ 63 \<le> int (unat w) + off" using assms(3,4) by linarith+
  then have "nat ?t < 2 ^ 64" unfolding max_def by (simp add: nat_less_iff)
  then have "unat (of_nat (nat ?t) :: u64) = nat ?t" by (rule unat_u64)
  then have "unat (of_int ?t :: u64) = nat (int (unat w) + off)" by (simp add: max_def split: if_splits)
  moreover have "signed_target w off = Ok (of_int ?t)" unfolding signed_target_def w Let_def using in_range by simp
  ultimately show ?thesis by blast
qed

subsection \<open>Windows\<close>

record 's window =
  data_provider :: 's
  window_begin :: u64
  window_length :: u64

definition window_PRead :: "'s reader_seeker_ops \<Rightarrow> 's window \<Rightarrow> u64 \<Rightarrow> u64 \<Rightarrow> string result" where
  "window_PRead ops v cnt offset =
     (if offset \<ge> window_length v then Ok []
      else PRead ops (data_provider v) (min cnt (window_length v - offset)) (offset + window_begin v))"

definition ReadWindowView :: "'s \<Rightarrow> u64 \<Rightarrow> u64 \<Rightarrow> 's window fake_seeker" where
  "ReadWindowView s begin len =
     ReaderFakeSeeker \<lparr>data_provider = s, window_begin = begin, window_length = len\<rparr> len"

subsection \<open>Concatenations\<close>

text \<open>
  \<^verbatim>\<open>std::map<uint64_t, ...>\<close> from the offset of a reader to the reader. The entry before
  \<^verbatim>\<open>upper_bound(offset)\<close> is the last one that does not begin after \<^verbatim>\<open>offset\<close>.
\<close>

definition entry_before :: "int \<Rightarrow> 's int_map \<Rightarrow> (int \<times> 's) option" where
  "entry_before k m = (let es = takeWhile (\<lambda>e. fst e \<le> k) m in if es = [] then None else Some (last es))"

definition concat_PRead :: "'s reader_seeker_ops \<Rightarrow> 's int_map \<Rightarrow> u64 \<Rightarrow> u64 \<Rightarrow> string result" where
  "concat_PRead ops off_to_reader cnt offset =
     (case entry_before (uint offset) off_to_reader of
        None \<Rightarrow> Err Cf_Error
      | Some (k, reader) \<Rightarrow> PRead ops reader cnt (offset - of_int k))"

fun concat_readers ::
  "'s reader_seeker_ops \<Rightarrow> 's option list \<Rightarrow> u64 \<Rightarrow> 's int_map \<Rightarrow> (u64 \<times> 's int_map) result"
where
  "concat_readers ops [] offset m = Ok (offset, m)"
| "concat_readers ops (None # readers) offset m = Err Cf_Error"
| "concat_readers ops (Some reader # readers) offset m =
     bind_result (Length ops reader) (\<lambda>(len, reader).
       concat_readers ops readers (offset + len) (map_set (uint offset) reader m))"

definition ConcatReaderSeeker_Create :: "'s reader_seeker_ops \<Rightarrow> 's option list \<Rightarrow> 's int_map fake_seeker result" where
  "ConcatReaderSeeker_Create ops readers =
     (if readers = [] then Err Cf_Error
      else bind_result (concat_readers ops readers 0 []) (\<lambda>(len, m). Ok (ReaderFakeSeeker m len)))"

subsection \<open>A source of bytes gives a reader with a position\<close>

locale pread_source =
  fixes pread :: "'p \<Rightarrow> u64 \<Rightarrow> u64 \<Rightarrow> string result"
    and pbytes :: "'p \<Rightarrow> string"
    and pok :: "'p \<Rightarrow> bool"
  assumes psmall: "pok p \<Longrightarrow> length (pbytes p) < 2 ^ 63"
    and ppread: "pok p \<Longrightarrow> unat off < 2 ^ 63 \<Longrightarrow>
      \<exists>k. pread p n off = Ok (take k (drop (unat off) (pbytes p))) \<and> k \<le> unat n \<and>
        (0 < n \<longrightarrow> unat off < length (pbytes p) \<longrightarrow> 0 < k)"
begin

definition fake_ok :: "'p fake_seeker \<Rightarrow> bool" where
  "fake_ok s \<longleftrightarrow> pok (fs_inner s) \<and> unat (fs_length s) = length (pbytes (fs_inner s)) \<and>
     unat (seek_pos s) \<le> length (pbytes (fs_inner s))"

lemma fake_SeekSet_ok:
  "fake_ok s \<Longrightarrow> unat off \<le> length (pbytes (fs_inner s)) \<Longrightarrow> fake_SeekSet s off = Ok (off, s\<lparr>seek_pos := off\<rparr>)"
  by (simp add: fake_SeekSet_def fake_ok_def Let_def min_absorb1 word_le_nat_alt)

lemma fake_seek_call:
  assumes "fake_ok s" and "seek_in_range (length (pbytes (fs_inner s))) k"
  shows "\<exists>s'. seek_call (fake_ops pread) s k = Ok (of_nat (seek_target (length (pbytes (fs_inner s))) (unat (seek_pos s)) k), s') \<and>
    fake_ok s' \<and> fs_inner s' = fs_inner s \<and>
    unat (seek_pos s') = seek_target (length (pbytes (fs_inner s))) (unat (seek_pos s)) k"
proof -
  let ?n = "length (pbytes (fs_inner s))"
  have n: "?n < 2 ^ 63" "unat (fs_length s) = ?n" "unat (seek_pos s) \<le> ?n"
    using assms(1) psmall by (simp_all add: fake_ok_def)
  have set: "\<exists>s'. fake_SeekSet s off = Ok (of_nat (min (unat off) ?n), s') \<and> fake_ok s' \<and> fs_inner s' = fs_inner s \<and>
      unat (seek_pos s') = min (unat off) ?n" for off
  proof -
    have "unat (min off (fs_length s)) = min (unat off) ?n" using n(2) by (simp add: min_def word_le_nat_alt)
    moreover from this have "min off (fs_length s) = of_nat (min (unat off) ?n)" by (metis of_nat_unat ucast_id)
    ultimately show ?thesis using assms(1) by (simp add: fake_SeekSet_def Let_def fake_ok_def)
  qed
  show ?thesis
  proof (cases k)
    case (Seek_Set off)
    then show ?thesis using set by (simp add: fake_ops_def)
  next
    case (Seek_Cur off)
    then obtain t where t: "signed_target (seek_pos s) off = Ok t" "unat t = nat (int (unat (seek_pos s)) + off)"
      using signed_target_small [OF n(3,1), of off] assms(2) by auto
    show ?thesis using set [of t] unfolding Seek_Cur t(2) seek_call.simps seek_target.simps by (simp add: fake_ops_def fake_SeekCur_def t(1))
  next
    case (Seek_End off)
    then obtain t where t: "signed_target (fs_length s) off = Ok t" "unat t = nat (int ?n + off)"
      using signed_target_small [of "fs_length s" ?n off] n(1,2) assms(2) by auto
    show ?thesis using set [of t] unfolding Seek_End t(2) seek_call.simps seek_target.simps by (simp add: fake_ops_def fake_SeekEnd_def t(1))
  qed
qed

lemma fake_seek_calls:
  "fake_ok s \<Longrightarrow> \<forall>k\<in>set ks. seek_in_range (length (pbytes (fs_inner s))) k \<Longrightarrow>
   \<exists>s'. seek_calls (fake_ops pread) s ks =
      Ok (map of_nat (seek_targets (length (pbytes (fs_inner s))) (unat (seek_pos s)) ks), s') \<and>
    fake_ok s' \<and> fs_inner s' = fs_inner s \<and>
    unat (seek_pos s') = last (unat (seek_pos s) # seek_targets (length (pbytes (fs_inner s))) (unat (seek_pos s)) ks)"
proof (induction ks arbitrary: s)
  case (Cons k ks)
  then obtain s1 where "seek_call (fake_ops pread) s k = Ok (of_nat (seek_target (length (pbytes (fs_inner s))) (unat (seek_pos s)) k), s1)"
      "fake_ok s1" "fs_inner s1 = fs_inner s" "unat (seek_pos s1) = seek_target (length (pbytes (fs_inner s))) (unat (seek_pos s)) k"
    using fake_seek_call [of s k] by auto
  then show ?case using Cons.IH [of s1] Cons.prems(2) by auto
qed simp

lemma target_small: "pok p \<Longrightarrow> unat w \<le> length (pbytes p) \<Longrightarrow> signed_target w 0 = Ok w"
  using signed_target_0 [of "pbytes p" w] psmall [of p] by simp

end

sublocale pread_source \<subseteq> reader_seeker "fake_ops pread" "\<lambda>s. pbytes (fs_inner s)" "\<lambda>s. unat (seek_pos s)" fake_ok
proof unfold_locales
  fix s n and off :: u64
  assume ok: "fake_ok s"
  then have p: "pok (fs_inner s)" and c: "unat (seek_pos s) \<le> length (pbytes (fs_inner s))" by (simp_all add: fake_ok_def)
  show "length (pbytes (fs_inner s)) < 2 ^ 63" by (rule psmall [OF p])
  show "unat (seek_pos s) \<le> length (pbytes (fs_inner s))" by (rule c)
  show "\<exists>k. PRead (fake_ops pread) s n off = Ok (take k (drop (unat off) (pbytes (fs_inner s)))) \<and> k \<le> unat n \<and>
      (0 < n \<longrightarrow> unat off < length (pbytes (fs_inner s)) \<longrightarrow> 0 < k)" if "unat off < 2 ^ 63"
    using ppread [OF p that] by (simp add: fake_ops_def)
  let ?d = "drop (unat (seek_pos s)) (pbytes (fs_inner s))"
  obtain k where k: "pread (fs_inner s) n (seek_pos s) = Ok (take k ?d)" "k \<le> unat n"
      "0 < n \<longrightarrow> unat (seek_pos s) < length (pbytes (fs_inner s)) \<longrightarrow> 0 < k"
    using ppread [OF p, of "seek_pos s" n] psmall [OF p] c by auto
  let ?k = "length (take k ?d)"
  have "unat (seek_pos s + of_nat ?k) = unat (seek_pos s) + ?k"
    using psmall [OF p] c by (subst unat_u64_add) auto
  moreover have "take ?k ?d = take k ?d" by (simp add: min_def)
  ultimately show "\<exists>k s'. Read (fake_ops pread) s n = Ok (take k ?d, s') \<and> k \<le> unat n \<and>
      unat (seek_pos s) + k \<le> length (pbytes (fs_inner s)) \<and>
      (0 < n \<longrightarrow> unat (seek_pos s) < length (pbytes (fs_inner s)) \<longrightarrow> 0 < k) \<and> fake_ok s' \<and>
      pbytes (fs_inner s') = pbytes (fs_inner s) \<and> unat (seek_pos s') = unat (seek_pos s) + k"
    using ok k c by (intro exI [of _ ?k] exI [of _ "s\<lparr>seek_pos := seek_pos s + of_nat ?k\<rparr>"])
      (auto simp: fake_ops_def fake_Read_def fake_ok_def)
  show "\<exists>s'. SeekSet (fake_ops pread) s off = Ok (off, s') \<and> fake_ok s' \<and> pbytes (fs_inner s') = pbytes (fs_inner s) \<and>
      unat (seek_pos s') = unat off" if "unat off \<le> length (pbytes (fs_inner s))"
    using ok that by (simp add: fake_ops_def fake_SeekSet_ok) (simp add: fake_ok_def)
  show "\<exists>s'. SeekCur (fake_ops pread) s 0 = Ok (of_nat (unat (seek_pos s)), s') \<and> fake_ok s' \<and>
      pbytes (fs_inner s') = pbytes (fs_inner s) \<and> unat (seek_pos s') = unat (seek_pos s)"
    using ok c by (simp add: fake_ops_def fake_SeekCur_def target_small [OF p] fake_SeekSet_ok)
  have l: "unat (fs_length s) = length (pbytes (fs_inner s))" using ok by (simp add: fake_ok_def)
  then have "of_nat (length (pbytes (fs_inner s))) = fs_length s" by (metis of_nat_unat ucast_id)
  then show "\<exists>s'. SeekEnd (fake_ops pread) s 0 = Ok (of_nat (length (pbytes (fs_inner s))), s') \<and> fake_ok s' \<and>
      pbytes (fs_inner s') = pbytes (fs_inner s) \<and> unat (seek_pos s') = length (pbytes (fs_inner s))"
    using ok l by (simp add: fake_ops_def fake_SeekEnd_def target_small [OF p] fake_SeekSet_ok) (simp add: fake_ok_def)
qed

subsection \<open>Windows of a reader\<close>

locale window_view = reader_seeker ops bytes pos ok
  for ops :: "'s reader_seeker_ops" and bytes :: "'s \<Rightarrow> string" and pos :: "'s \<Rightarrow> nat" and ok :: "'s \<Rightarrow> bool"
begin

definition window_bytes :: "'s window \<Rightarrow> string" where
  "window_bytes v = take (unat (window_length v)) (drop (unat (window_begin v)) (bytes (data_provider v)))"

definition window_ok :: "'s window \<Rightarrow> bool" where
  "window_ok v \<longleftrightarrow> ok (data_provider v) \<and>
     unat (window_begin v) + unat (window_length v) \<le> length (bytes (data_provider v))"

lemma length_window_bytes: "window_ok v \<Longrightarrow> length (window_bytes v) = unat (window_length v)"
  by (auto simp: window_bytes_def window_ok_def)

lemma window_PRead_law:
  assumes "window_ok v"
  shows "\<exists>k. window_PRead ops v n off = Ok (take k (drop (unat off) (window_bytes v))) \<and> k \<le> unat n \<and>
    (0 < n \<longrightarrow> unat off < length (window_bytes v) \<longrightarrow> 0 < k)"
proof (cases "window_length v \<le> off")
  case True
  then have "unat (window_length v) \<le> unat off" by (simp add: word_le_nat_alt)
  then show ?thesis using True length_window_bytes [OF assms] by (intro exI [of _ 0]) (simp add: window_PRead_def)
next
  case False
  let ?s = "data_provider v" and ?n = "min n (window_length v - off)"
  have ok: "ok ?s" and fit: "unat (window_begin v) + unat (window_length v) \<le> length (bytes ?s)"
    using assms by (simp_all add: window_ok_def)
  have lt: "unat off < unat (window_length v)" using False by (simp add: word_le_nat_alt)
  have off: "unat (off + window_begin v) = unat off + unat (window_begin v)" "unat off + unat (window_begin v) < 2 ^ 63"
    using lt fit small [OF ok] by (auto intro!: unat_u64_add)
  have n: "unat ?n = min (unat n) (unat (window_length v) - unat off)"
    using False by (auto simp: min_def word_le_nat_alt unat_u64_sub)
  obtain k where k: "PRead ops ?s ?n (off + window_begin v) = Ok (take k (drop (unat off + unat (window_begin v)) (bytes ?s)))"
      "k \<le> unat ?n" "0 < ?n \<longrightarrow> 0 < k"
    using pread_law [OF ok, of "off + window_begin v" ?n] off lt fit by auto
  have "take k (drop (unat off) (window_bytes v)) = take k (drop (unat off + unat (window_begin v)) (bytes ?s))"
    using k(2) n by (simp add: window_bytes_def drop_take min_absorb1 add.commute)
  moreover have "0 < ?n" if "0 < n" using that lt n unfolding u64_pos_iff by simp
  ultimately show ?thesis using k n False by (intro exI [of _ k]) (auto simp: window_PRead_def)
qed

end

sublocale window_view \<subseteq> window: pread_source "window_PRead ops" window_bytes window_ok
proof unfold_locales
  fix v
  assume "window_ok v"
  then show "length (window_bytes v) < 2 ^ 63"
    using length_window_bytes [of v] small [of "data_provider v"] by (simp add: window_ok_def)
qed (rule window_PRead_law)

subsection \<open>Concatenations of readers\<close>

lemma map_set_append: "(\<forall>e\<in>set m. fst e < k) \<Longrightarrow> map_set k v (m @ m') = m @ map_set k v m'"
  by (induction m) auto

lemma map_set_ne: "map_set k v m \<noteq> []"
  by (cases m) (auto split: if_splits)

locale concat_view = reader_seeker ops bytes pos ok
  for ops :: "'s reader_seeker_ops" and bytes :: "'s \<Rightarrow> string" and pos :: "'s \<Rightarrow> nat" and ok :: "'s \<Rightarrow> bool"
begin

definition concat_bytes :: "'s int_map \<Rightarrow> string" where
  "concat_bytes m = concat (map (bytes \<circ> snd) m)"

text \<open>Each reader begins where the one before it ends; only the last may be empty.\<close>

fun segments :: "nat \<Rightarrow> 's int_map \<Rightarrow> bool" where
  "segments o1 [] \<longleftrightarrow> True"
| "segments o1 ((k, r) # m) \<longleftrightarrow>
     k = int o1 \<and> ok r \<and> (m = [] \<or> bytes r \<noteq> []) \<and> segments (o1 + length (bytes r)) m"

definition concat_ok :: "'s int_map \<Rightarrow> bool" where
  "concat_ok m \<longleftrightarrow> m \<noteq> [] \<and> segments 0 m \<and> length (concat_bytes m) < 2 ^ 63"

lemma concat_bytes_simps [simp]:
  "concat_bytes [] = []" "concat_bytes ((k, r) # m) = bytes r @ concat_bytes m"
  "concat_bytes (m @ m') = concat_bytes m @ concat_bytes m'"
  by (simp_all add: concat_bytes_def)

lemma segments_keys: "segments o1 m \<Longrightarrow> e \<in> set m \<Longrightarrow> int o1 \<le> fst e"
  by (induction o1 m rule: segments.induct) auto

text \<open>The entry that the search finds, and the bytes from the offset on.\<close>

lemma entry_before_segments:
  assumes "segments o1 m" and "m \<noteq> []" and "o1 \<le> n"
  shows "\<exists>k r pre post. entry_before (int n) m = Some (int k, r) \<and> ok r \<and> o1 \<le> k \<and> k \<le> n \<and>
    m = pre @ (int k, r) # post \<and> k = o1 + length (concat_bytes pre) \<and> (n < k + length (bytes r) \<or> post = [])"
  using assms
proof (induction o1 m rule: segments.induct)
  case (2 o1 k r m)
  show ?case
  proof (cases "n < o1 + length (bytes r) \<or> m = []")
    case True
    have "takeWhile (\<lambda>e. fst e \<le> int n) m = []"
    proof (cases m)
      case (Cons e m')
      then have "int n < fst e" using segments_keys [of "o1 + length (bytes r)" m e] "2.prems"(1) True by auto
      then show ?thesis using Cons by simp
    qed simp
    then have "entry_before (int n) ((k, r) # m) = Some (int o1, r)"
      using "2.prems" by (simp add: entry_before_def)
    then show ?thesis using "2.prems" True
      by (intro exI [of _ o1] exI [of _ r] exI [of _ "[]"] exI [of _ m]) auto
  next
    case False
    have "segments (o1 + length (bytes r)) m" "m \<noteq> []" "o1 + length (bytes r) \<le> n" using "2.prems"(1) False by auto
    from "2.IH" [OF this] obtain k' r' pre post where IH: "entry_before (int n) m = Some (int k', r')" "ok r'" "o1 + length (bytes r) \<le> k'" "k' \<le> n"
        "m = pre @ (int k', r') # post" "k' = o1 + length (bytes r) + length (concat_bytes pre)"
        "n < k' + length (bytes r') \<or> post = []"
      by blast
    have "entry_before (int n) ((k, r) # m) = entry_before (int n) m"
      using "2.prems" IH(1) by (auto simp: entry_before_def Let_def split: if_splits)
    then show ?thesis using IH
      by (intro exI [of _ k'] exI [of _ r'] exI [of _ "(k, r) # pre"] exI [of _ post]) auto
  qed
qed simp

lemma concat_PRead_law:
  assumes "concat_ok m" and "unat off < 2 ^ 63"
  shows "\<exists>k. concat_PRead ops m n off = Ok (take k (drop (unat off) (concat_bytes m))) \<and> k \<le> unat n \<and>
    (0 < n \<longrightarrow> unat off < length (concat_bytes m) \<longrightarrow> 0 < k)"
proof -
  obtain k r pre post where e: "entry_before (int (unat off)) m = Some (int k, r)" "ok r" "k \<le> unat off"
      "m = pre @ (int k, r) # post" "k = length (concat_bytes pre)" "unat off < k + length (bytes r) \<or> post = []"
    using entry_before_segments [of 0 m "unat off"] assms(1) by (auto simp: concat_ok_def)
  have sub: "unat (off - of_nat k) = unat off - k"
    using e(3) assms(2) by (subst unat_u64_sub) (simp_all add: word_le_nat_alt)
  obtain j where j: "PRead ops r n (off - of_nat k) = Ok (take j (drop (unat off - k) (bytes r)))" "j \<le> unat n"
      "0 < n \<longrightarrow> unat off - k < length (bytes r) \<longrightarrow> 0 < j"
    using pread_law [OF e(2), of "off - of_nat k" n] sub assms(2) less_imp_diff_less [OF assms(2), of k] by auto
  let ?d = "drop (unat off - k) (bytes r)"
  have "concat_PRead ops m n off = Ok (take j ?d)"
    using e(1) j(1) by (simp add: concat_PRead_def)
  moreover have "drop (unat off) (concat_bytes m) = ?d @ (if unat off < k + length (bytes r) then concat_bytes post else [])"
    using e(3-6) by auto
  then have "take (length (take j ?d)) (drop (unat off) (concat_bytes m)) = take j ?d" by (simp add: min_def)
  moreover have "0 < length (take j ?d)" if "0 < n" "unat off < length (concat_bytes m)"
    using that j(3) e(3-6) by auto
  ultimately show ?thesis using j(2) by (intro exI [of _ "length (take j ?d)"]) (auto simp: min_le_iff_disj)
qed

lemma segments_snoc:
  "segments o1 (m @ [(k, r)]) \<longleftrightarrow>
     segments o1 m \<and> (\<forall>e\<in>set m. bytes (snd e) \<noteq> []) \<and> k = int (o1 + length (concat_bytes m)) \<and> ok r"
  by (induction o1 m rule: segments.induct) (auto simp: add.assoc)

lemma segments_keys_less:
  "segments o1 m \<Longrightarrow> \<forall>e\<in>set m. bytes (snd e) \<noteq> [] \<Longrightarrow> \<forall>e\<in>set m. fst e < int (o1 + length (concat_bytes m))"
  by (induction o1 m rule: segments.induct) (auto simp: add.assoc intro: add_pos_nonneg)

text \<open>One step of \<^verbatim>\<open>Create\<close>: an empty last reader is replaced, otherwise the map grows.\<close>

lemma segments_add:
  assumes "segments 0 m" and "ok r"
  shows "segments 0 (map_set (int (length (concat_bytes m))) r m) \<and>
    concat_bytes (map_set (int (length (concat_bytes m))) r m) = concat_bytes m @ bytes r"
proof (cases m rule: rev_cases)
  case Nil
  then show ?thesis using assms(2) by simp
next
  case (snoc pre e)
  obtain k q where e: "e = (k, q)" by (cases e)
  have pre: "segments 0 pre" "\<forall>e\<in>set pre. bytes (snd e) \<noteq> []" "k = int (length (concat_bytes pre))" "ok q"
    using assms(1) snoc e segments_snoc [of 0 pre k q] by auto
  note keys = segments_keys_less [OF pre(1,2)]
  show ?thesis
  proof (cases "bytes q = []")
    case True
    then have "map_set (int (length (concat_bytes m))) r m = pre @ [(k, r)]"
      using map_set_append [of pre k r "[(k, q)]"] keys pre(3) snoc e by simp
    then show ?thesis using segments_snoc [of 0 pre k r] pre assms(2) snoc e True by simp
  next
    case False
    let ?K = "int (length (concat_bytes m))"
    have "\<forall>e\<in>set m. fst e < ?K"
      using keys pre(3) snoc e False by fastforce
    then have "map_set ?K r m = m @ [(?K, r)]" using map_set_append [of m ?K r "[]"] by simp
    then show ?thesis using segments_snoc [of 0 m ?K r] assms pre(2) snoc e False by auto
  qed
qed

lemma concat_readers_spec:
  assumes "\<forall>r\<in>set rs. ok r" and "segments 0 m"
    and "length (concat_bytes m) + length (concat (map bytes rs)) < 2 ^ 63"
  shows "\<exists>m'. concat_readers ops (map Some rs) (of_nat (length (concat_bytes m))) m =
      Ok (of_nat (length (concat_bytes m')), m') \<and> segments 0 m' \<and>
      concat_bytes m' = concat_bytes m @ concat (map bytes rs) \<and> (m \<noteq> [] \<or> rs \<noteq> [] \<longrightarrow> m' \<noteq> [])"
  using assms
proof (induction rs arbitrary: m)
  case (Cons r rs)
  obtain r1 where r1: "Length ops r = Ok (of_nat (length (bytes r)), r1)" "ok r1" "bytes r1 = bytes r"
    using Length_spec [of r] Cons.prems(1) by auto
  let ?K = "of_nat (length (concat_bytes m)) :: u64"
  have u: "unat ?K = length (concat_bytes m)" using Cons.prems(3) by simp
  have "uint ?K = int (unat ?K)" by simp
  then have K: "uint ?K = int (length (concat_bytes m))" unfolding u .
  let ?m = "map_set (uint ?K) r1 m"
  have m: "segments 0 ?m" "concat_bytes ?m = concat_bytes m @ bytes r"
    using segments_add [OF Cons.prems(2) r1(2)] r1(3) unfolding K by simp_all
  have ne: "?m \<noteq> []" by (rule map_set_ne)
  have "length (concat_bytes ?m) + length (concat (map bytes rs)) < 2 ^ 63" using Cons.prems(3) m(2) by simp
  then obtain m' where "concat_readers ops (map Some rs) (of_nat (length (concat_bytes ?m))) ?m =
      Ok (of_nat (length (concat_bytes m')), m')" "segments 0 m'"
      "concat_bytes m' = concat_bytes ?m @ concat (map bytes rs)" "m' \<noteq> []"
    using Cons.IH [OF _ m(1)] Cons.prems(1) ne by auto
  moreover have "of_nat (length (concat_bytes ?m)) = ?K + of_nat (length (bytes r))" using m(2) by simp
  ultimately show ?case using r1(1) m(2) by auto
qed simp

lemma Create_spec:
  assumes "rs \<noteq> []" and "\<forall>r\<in>set rs. ok r" and "length (concat (map bytes rs)) < 2 ^ 63"
  shows "\<exists>c. ConcatReaderSeeker_Create ops (map Some rs) = Ok c \<and> concat_bytes (fs_inner c) = concat (map bytes rs) \<and>
    concat_ok (fs_inner c) \<and> unat (fs_length c) = length (concat (map bytes rs)) \<and> seek_pos c = 0"
  using concat_readers_spec [of rs "[]"] assms
  by (auto simp: ConcatReaderSeeker_Create_def ReaderFakeSeeker_def concat_ok_def)

end

sublocale concat_view \<subseteq> cat: pread_source "concat_PRead ops" concat_bytes concat_ok
  by unfold_locales (simp add: concat_ok_def, rule concat_PRead_law)

subsection \<open>Views of files in memory\<close>

interpretation mem_window: window_view mem_ops mem_data "\<lambda>io. unat (cursor io)" mem_ok
  by unfold_locales

text \<open>Windows of memory, and their concatenation.\<close>

interpretation mem_cat: concat_view "fake_ops (window_PRead mem_ops)" "\<lambda>s. mem_window.window_bytes (fs_inner s)"
  "\<lambda>s. unat (seek_pos s)" mem_window.window.fake_ok
  by unfold_locales

abbreviation window_ops :: "mem_io window fake_seeker reader_seeker_ops" where
  "window_ops \<equiv> fake_ops (window_PRead mem_ops)"

abbreviation cat_ops :: "mem_io window fake_seeker int_map fake_seeker reader_seeker_ops" where
  "cat_ops \<equiv> fake_ops (concat_PRead window_ops)"



end
