(* ===== verification/Lazily_Loaded_File.thy ===== *)
theory Lazily_Loaded_File
  imports Disjoint_Range_Set Shared_Buf Io_Views
begin

section \<open>Lazily loaded files\<close>

text \<open>
  \<^verbatim>\<open>io/lazily_loaded_file.cc\<close>: a local file that is filled from a slow source as it is read. Which
  parts are there is a set of ranges, which is kept in a second file between runs.
\<close>

record 's lazy_file =
  contents_file :: posix_file
  callback :: 's
  already_downloaded :: "range list"
  lazy_pos :: u64
  lazy_size :: u64

definition kMinReadSize :: u64 where "kMinReadSize = 2 ^ 26"

text \<open>
  The local file and its metadata are what is on disk. Metadata that cannot be parsed is ignored; a
  failed check while it is turned into a set ends the process.
\<close>

definition ReadMetadata ::
  "(string \<Rightarrow> (u64 \<times> u64) list option) \<Rightarrow> posix_file \<Rightarrow> 's lazy_file \<Rightarrow> 's lazy_file result" where
  "ReadMetadata ParseFromString metadata_fd f =
     (case ReadAll posix_read_call [] metadata_fd of
        None \<Rightarrow> Err Undefined_Behaviour
      | Some (n, data, _) \<Rightarrow>
          if n < 0 then Err Cf_Error
          else case DeserializeDisjointRangeSet ParseFromString data of
                 Inr ranges \<Rightarrow> Ok (f\<lparr>already_downloaded := ranges\<rparr>)
               | Inl e \<Rightarrow> if e = Cf_Error then Ok f else Inl e)"

definition LazilyLoadedFile_Create ::
  "(string \<Rightarrow> (u64 \<times> u64) list option) \<Rightarrow> posix_file \<Rightarrow> posix_file \<Rightarrow> u64 \<Rightarrow> 's \<Rightarrow> 's lazy_file result" where
  "LazilyLoadedFile_Create ParseFromString file metadata sz cb =
     ReadMetadata ParseFromString metadata
       \<lparr>contents_file = file, callback = cb, already_downloaded = [], lazy_pos = 0, lazy_size = sz\<rparr>"

definition LazilyLoadedFile_Seek :: "u64 \<Rightarrow> 's lazy_file \<Rightarrow> 's lazy_file" where
  "LazilyLoadedFile_Seek location f = f\<lparr>lazy_pos := location\<rparr>"

text \<open>Storing what the source gave at the position: \<^verbatim>\<open>WriteAll\<close> and \<^verbatim>\<open>InsertRange\<close>.\<close>

definition store_data :: "string \<Rightarrow> posix_file \<Rightarrow> 's \<Rightarrow> 's lazy_file \<Rightarrow> 's lazy_file result" where
  "store_data data file cb f =
     (let (n, file) = WriteAll posix_write_call data file
      in if n \<noteq> int (length data) then Err Cf_Error
         else bind_result (InsertRange (already_downloaded f) (lazy_pos f) (lazy_pos f + of_nat (length data))) (\<lambda>ranges.
                Ok (f\<lparr>contents_file := file, callback := cb, already_downloaded := ranges\<rparr>)))"

definition LazilyLoadedFile_Read :: "'s reader_seeker_ops \<Rightarrow> 's lazy_file \<Rightarrow> u64 \<Rightarrow> (string \<times> 's lazy_file) result" where
  "LazilyLoadedFile_Read ops f sz =
     bind_result (fd_SeekSet (contents_file f) (lazy_pos f)) (\<lambda>(_, file).
       case EndOfContainingRange (already_downloaded f) (lazy_pos f) of
         Some end_of_present_data \<Rightarrow>
           bind_result (fd_Read file (min (end_of_present_data - lazy_pos f) sz)) (\<lambda>(data, file).
             Ok (data, f\<lparr>contents_file := file, lazy_pos := lazy_pos f + of_nat (length data)\<rparr>))
       | None \<Rightarrow>
           bind_result (SeekSet ops (callback f) (lazy_pos f)) (\<lambda>(_, cb).
             if sz < kMinReadSize
             then bind_result (Read ops cb (min kMinReadSize (lazy_size f - lazy_pos f))) (\<lambda>(data, cb).
                  bind_result (store_data data file cb f) (\<lambda>f.
                    let reported = take (unat sz) data
                    in Ok (reported, f\<lparr>lazy_pos := lazy_pos f + of_nat (length reported)\<rparr>)))
             else bind_result (Read ops cb sz) (\<lambda>(data, cb).
                  bind_result (store_data data file cb f) (\<lambda>f.
                    Ok (data, f\<lparr>lazy_pos := lazy_pos f + of_nat (length data)\<rparr>)))))"

text \<open>
  \<^verbatim>\<open>WriteMetadata\<close> writes a new file and renames it over the old one. The destructor calls it and
  only logs a failure, which leaves the old file.
\<close>

definition WriteMetadata :: "((u64 \<times> u64) list \<Rightarrow> string) \<Rightarrow> 's lazy_file \<Rightarrow> posix_file result" where
  "WriteMetadata SerializeAsString f =
     (let data = Serialize SerializeAsString (already_downloaded f);
          (n, new_metadata) = WriteAll posix_write_call data \<lparr>file_bytes = [], file_offset = 0\<rparr>
      in if n = int (length data) then Ok new_metadata else Err Cf_Error)"

definition LazilyLoadedFile_destroy :: "((u64 \<times> u64) list \<Rightarrow> string) \<Rightarrow> 's lazy_file \<Rightarrow> posix_file \<Rightarrow> posix_file" where
  "LazilyLoadedFile_destroy SerializeAsString f metadata =
     (case WriteMetadata SerializeAsString f of Inr new_metadata \<Rightarrow> new_metadata | Inl _ \<Rightarrow> metadata)"

subsection \<open>The local file agrees with the source\<close>

text \<open>A range of positions is there when the local file has the bytes of the source.\<close>

definition agrees :: "u64 set \<Rightarrow> string \<Rightarrow> string \<Rightarrow> bool" where
  "agrees ps file src \<longleftrightarrow> (\<forall>p\<in>ps. unat p < length src \<and> unat p < length file \<and> file ! unat p = src ! unat p)"

lemma agrees_read:
  assumes "agrees {s..<e} file src" and "n \<le> unat e - unat s" and "s \<le> e"
  shows "take n (drop (unat s) file) = take n (drop (unat s) src)"
proof (cases "n = 0")
  case False
  have at: "unat s + i < length src \<and> unat s + i < length file \<and> file ! (unat s + i) = src ! (unat s + i)" if "i < n" for i
  proof -
    have u: "unat (s + of_nat i) = unat s + i"
      using that assms(2) unat_u64_less [of e] by (subst unat_u64_add) auto
    then have "s + of_nat i \<in> {s..<e}" using that assms(2) by (auto simp: word_le_nat_alt word_less_nat_alt)
    with assms(1) have "unat (s + of_nat i) < length src \<and> unat (s + of_nat i) < length file \<and>
        file ! unat (s + of_nat i) = src ! unat (s + of_nat i)"
      unfolding agrees_def by (rule bspec)
    then show ?thesis unfolding u .
  qed
  have "unat s + n \<le> length src" "unat s + n \<le> length file" using at [of "n - 1"] False by auto
  then show ?thesis using at by (intro nth_equalityI) auto
qed simp

lemma agrees_overwrite:
  assumes "agrees ps file src" and "data = take k (drop p src)" and "unat q = p" and "p + k \<le> length src" and "p + k < 2 ^ 64"
  shows "agrees (ps \<union> {q..<q + of_nat k}) (overwrite p data file) src"
  unfolding agrees_def
proof
  fix x
  assume x: "x \<in> ps \<union> {q..<q + of_nat k}"
  have "unat (q + of_nat k) = p + k" using assms(3,5) by (subst unat_u64_add) auto
  then have in_range: "x \<in> {q..<q + of_nat k} \<Longrightarrow> p \<le> unat x \<and> unat x < p + k"
    using assms(3) by (auto simp: word_le_nat_alt word_less_nat_alt)
  have len: "length data = k" using assms(2,4) by simp
  have both: "unat x < length src \<and> unat x < max (length file) (p + k)"
    using x assms(1,4) in_range by (auto simp: agrees_def)
  moreover have "overwrite p data file ! unat x = src ! unat x"
  proof (cases "p \<le> unat x \<and> unat x < p + k")
    case True
    then have "unat x - p < k" by linarith
    then show ?thesis using True both len assms(2,4) by (simp add: nth_overwrite)
  next
    case False
    then have "x \<in> ps" using x in_range by blast
    then show ?thesis using False both len assms(1) by (auto simp: nth_overwrite agrees_def)
  qed
  ultimately show "unat x < length src \<and> unat x < length (overwrite p data file) \<and> overwrite p data file ! unat x = src ! unat x"
    using len by simp
qed

subsection \<open>Reading a lazily loaded file is reading its source\<close>

text \<open>
  The source is asked once, at the position: for the bytes that the reader wants when these are many,
  and for \<^verbatim>\<open>kMinReadSize\<close> bytes, or what is left up to the size, when they are few.
\<close>

definition asked_once :: "'s reader_seeker_ops \<Rightarrow> 's lazy_file \<Rightarrow> u64 \<Rightarrow> 's \<Rightarrow> bool" where
  "asked_once ops f n cb' \<longleftrightarrow> (\<exists>cb data. SeekSet ops (callback f) (lazy_pos f) = Ok (lazy_pos f, cb) \<and>
     Read ops cb (if n < kMinReadSize then min kMinReadSize (lazy_size f - lazy_pos f) else n) = Ok (data, cb'))"

locale lazy_source = reader_seeker ops bytes pos ok
  for ops :: "'s reader_seeker_ops" and bytes :: "'s \<Rightarrow> string" and pos :: "'s \<Rightarrow> nat" and ok :: "'s \<Rightarrow> bool"
begin

abbreviation source :: "'s lazy_file \<Rightarrow> string" where
  "source f \<equiv> bytes (callback f)"

definition lazy_ok :: "'s lazy_file \<Rightarrow> bool" where
  "lazy_ok f \<longleftrightarrow> ok (callback f) \<and> lazy_size f = of_nat (length (source f)) \<and>
     unat (lazy_pos f) \<le> length (source f) \<and> ranges_inv (already_downloaded f) \<and>
     agrees (covered (already_downloaded f)) (file_bytes (contents_file f)) (source f) \<and>
     length (file_bytes (contents_file f)) \<le> max_size"

lemma store_data_ok:
  assumes "lazy_ok f" and "ok cb" and "bytes cb = source f" and "unat (lazy_pos f) + k \<le> length (source f)"
    and "file_bytes file = file_bytes (contents_file f)" and "file_offset file = unat (lazy_pos f)"
    and "data = take k (drop (unat (lazy_pos f)) (source f))"
  shows "\<exists>f'. store_data data file cb f = Ok f' \<and> lazy_ok f' \<and> source f' = source f \<and> lazy_pos f' = lazy_pos f \<and> callback f' = cb \<and>
    covered (already_downloaded f') = covered (already_downloaded f) \<union> {lazy_pos f..<lazy_pos f + of_nat k}"
proof -
  let ?p = "unat (lazy_pos f)"
  have small': "?p + k < 2 ^ 63" using assms(4) small [of "callback f"] assms(1) by (simp add: lazy_ok_def)
  have len: "length data = k" using assms(4,7) by simp
  have stop: "unat (lazy_pos f + of_nat k) = ?p + k" using small' by (subst unat_u64_add) auto
  then have le: "lazy_pos f \<le> lazy_pos f + of_nat k" by (simp add: word_le_nat_alt)
  obtain rs where rs: "InsertRange (already_downloaded f) (lazy_pos f) (lazy_pos f + of_nat k) = Ok rs" "ranges_inv rs"
      "covered rs = covered (already_downloaded f) \<union> {lazy_pos f..<lazy_pos f + of_nat k}"
    using InsertRange_ok [OF _ le] assms(1) by (auto simp: lazy_ok_def)
  obtain file' where file': "WriteAll posix_write_call data file = (int (length data), file')"
      "file_bytes file' = (if data = [] then file_bytes file else overwrite ?p data (file_bytes file))"
    using posix_write_all [of "file" "data"] small' len assms(6) by auto
  have "agrees (covered rs) (file_bytes file') (source f)"
  proof (cases "data = []")
    case True
    then have "k = 0" using len by simp
    then show ?thesis using True rs(3) file'(2) assms(1,5) by (simp add: lazy_ok_def)
  next
    case False
    have "agrees (covered (already_downloaded f)) (file_bytes file) (source f)" using assms(1,5) by (simp add: lazy_ok_def)
    from agrees_overwrite [OF this assms(7) refl assms(4)] show ?thesis
      using False small' rs(3) file'(2) by simp
  qed
  moreover have "length (file_bytes file') \<le> max_size"
    using file'(2) assms(1,5) len small' by (auto simp: lazy_ok_def)
  ultimately have "lazy_ok (f\<lparr>contents_file := file', callback := cb, already_downloaded := rs\<rparr>)"
    using assms(1-3) rs(2) by (simp add: lazy_ok_def)
  then show ?thesis using file'(1) rs(1,3) len assms(3) by (simp add: store_data_def)
qed

lemma lazy_ok_advance: "lazy_ok f \<Longrightarrow> unat (lazy_pos f) + k \<le> length (source f) \<Longrightarrow>
  unat (lazy_pos f + of_nat k) = unat (lazy_pos f) + k \<and> lazy_ok (f\<lparr>lazy_pos := lazy_pos f + of_nat k\<rparr>)"
proof -
  assume "lazy_ok f" "unat (lazy_pos f) + k \<le> length (source f)"
  moreover from this have "unat (lazy_pos f + of_nat k) = unat (lazy_pos f) + k"
    using small [of "callback f"] by (subst unat_u64_add) (auto simp: lazy_ok_def)
  ultimately show ?thesis by (simp add: lazy_ok_def)
qed

text \<open>A position that is there is read from the local file, and the source is not asked.\<close>

lemma lazy_Read_present:
  assumes "lazy_ok f" and "lazy_pos f \<in> covered (already_downloaded f)"
  shows "\<exists>k f'. LazilyLoadedFile_Read ops f n = Ok (take k (drop (unat (lazy_pos f)) (source f)), f') \<and> k \<le> unat n \<and>
    unat (lazy_pos f) + k \<le> length (source f) \<and> (0 < n \<longrightarrow> 0 < k) \<and> lazy_ok f' \<and>
    {lazy_pos f..<lazy_pos f + of_nat k} \<subseteq> covered (already_downloaded f) \<and>
    callback f' = callback f \<and> already_downloaded f' = already_downloaded f \<and> lazy_pos f' = lazy_pos f + of_nat k"
proof -
  let ?p = "lazy_pos f" and ?file = "contents_file f"
  have inv: "ranges_inv (already_downloaded f)" and ok: "ok (callback f)" and le: "unat ?p \<le> length (source f)"
      and agree: "agrees (covered (already_downloaded f)) (file_bytes ?file) (source f)"
    using assms(1) by (simp_all add: lazy_ok_def)
  have small': "unat ?p < 2 ^ 63" using le small [OF ok] by simp
  then have "?p \<noteq> - 1" by (rule u64_not_max)
  then obtain e where e: "EndOfContainingRange (already_downloaded f) ?p = Some e" "?p < e"
      "{?p..<e} \<subseteq> covered (already_downloaded f)"
    using EndOfContainingRange_None [OF inv] EndOfContainingRange_covered [OF inv] assms(2) by fastforce
  let ?n = "min (e - ?p) n"
  have diff: "unat (e - ?p) = unat e - unat ?p" using e(2) by (simp add: unat_u64_sub)
  then have n: "unat ?n \<le> unat e - unat ?p" "unat ?n \<le> unat n" "0 < n \<Longrightarrow> 0 < unat ?n"
    using e(2) by (auto simp: min_def word_le_nat_alt word_less_nat_alt)
  have range: "agrees {?p..<e} (file_bytes ?file) (source f)" using agree e(3) by (auto simp: agrees_def)
  have data: "take (unat ?n) (drop (unat ?p) (file_bytes ?file)) = take (unat ?n) (drop (unat ?p) (source f))"
    using agrees_read [OF range n(1)] e(2) by simp
  let ?k = "length (take (unat ?n) (drop (unat ?p) (source f)))"
  have "fd_SeekSet ?file ?p = Ok (?p, ?file\<lparr>file_offset := unat ?p\<rparr>)" using small' by (simp add: fd_SeekSet_ok)
  then have read: "LazilyLoadedFile_Read ops f n = Ok (take (unat ?n) (drop (unat ?p) (source f)),
      f\<lparr>contents_file := ?file\<lparr>file_offset := unat ?p + ?k\<rparr>, lazy_pos := ?p + of_nat ?k\<rparr>)"
    using e(1) data by (simp add: LazilyLoadedFile_Read_def fd_Read_def posix_read_def Let_def del: length_take length_drop)
  have "unat ?p < length (source f)" using agree assms(2) by (auto simp: agrees_def)
  then have k: "unat ?p + ?k \<le> length (source f)" "0 < n \<Longrightarrow> 0 < ?k" using n(3) by auto
  moreover have "take ?k (drop (unat ?p) (source f)) = take (unat ?n) (drop (unat ?p) (source f))" by (simp add: min_def)
  moreover have "lazy_ok (f\<lparr>contents_file := ?file\<lparr>file_offset := unat ?p + ?k\<rparr>, lazy_pos := ?p + of_nat ?k\<rparr>)"
    using lazy_ok_advance [OF assms(1) k(1)] assms(1) by (simp add: lazy_ok_def)
  moreover have "?p + of_nat ?k \<le> e"
    using lazy_ok_advance [OF assms(1) k(1)] n(1) e(2) by (simp add: word_le_nat_alt word_less_nat_alt)
  then have "{?p..<?p + of_nat ?k} \<subseteq> covered (already_downloaded f)" using e(3) by fastforce
  ultimately show ?thesis using read n(2) by (intro exI [of _ ?k]) auto
qed

lemma lazy_Read_absent:
  assumes "lazy_ok f" and "lazy_pos f \<notin> covered (already_downloaded f)"
  shows "\<exists>k f'. LazilyLoadedFile_Read ops f n = Ok (take k (drop (unat (lazy_pos f)) (source f)), f') \<and> k \<le> unat n \<and>
    unat (lazy_pos f) + k \<le> length (source f) \<and> (0 < n \<longrightarrow> unat (lazy_pos f) < length (source f) \<longrightarrow> 0 < k) \<and> lazy_ok f' \<and>
    source f' = source f \<and> covered (already_downloaded f) \<subseteq> covered (already_downloaded f') \<and> lazy_pos f' = lazy_pos f + of_nat k \<and>
    {lazy_pos f..<lazy_pos f + of_nat k} \<subseteq> covered (already_downloaded f') \<and> asked_once ops f n (callback f')"
proof -
  let ?p = "lazy_pos f" and ?file = "contents_file f\<lparr>file_offset := unat (lazy_pos f)\<rparr>"
  let ?d = "drop (unat ?p) (source f)" and ?m = "min kMinReadSize (lazy_size f - ?p)"
  have inv: "ranges_inv (already_downloaded f)" and ok: "ok (callback f)" and le: "unat ?p \<le> length (source f)"
      and size: "unat (lazy_size f) = length (source f)"
    using assms(1) small [of "callback f"] by (simp_all add: lazy_ok_def)
  have small': "unat ?p < 2 ^ 63" using le small [OF ok] by simp
  then have "?p \<noteq> - 1" by (rule u64_not_max)
  then have none: "EndOfContainingRange (already_downloaded f) ?p = None"
    using EndOfContainingRange_None [OF inv] assms(2) by blast
  have seek: "fd_SeekSet (contents_file f) ?p = Ok (?p, ?file)" using small' by (simp add: fd_SeekSet_ok)
  obtain cb where cb: "SeekSet ops (callback f) ?p = Ok (?p, cb)" "ok cb" "bytes cb = source f" "pos cb = unat ?p"
    using seek_set_law [OF ok le] by blast
  define q where "q = (if n < kMinReadSize then ?m else n)"
  obtain k cb' where k: "Read ops cb q = Ok (take k ?d, cb')" "k \<le> unat q" "unat ?p + k \<le> length (source f)"
      "0 < q \<longrightarrow> unat ?p < length (source f) \<longrightarrow> 0 < k" "ok cb'" "bytes cb' = source f"
    using read_law [OF cb(2), of q] cb(3,4) by auto
  have q: "0 < q" if "0 < n" "unat ?p < length (source f)"
    using that size by (auto simp: q_def min_def kMinReadSize_def word_less_nat_alt unat_u64_sub word_le_nat_alt)
  obtain f' where f': "store_data (take k ?d) ?file cb' f = Ok f'" "lazy_ok f'" "source f' = source f" "lazy_pos f' = ?p"
      "covered (already_downloaded f') = covered (already_downloaded f) \<union> {?p..<?p + of_nat k}" "callback f' = cb'"
    using store_data_ok [OF assms(1) k(5,6,3), of ?file "take k ?d"] by auto
  let ?j = "if n < kMinReadSize then min (unat n) k else k"
  have len: "length (take ?j ?d) = ?j" and j: "?j \<le> unat n" "?j \<le> k"
      and cut: "min (unat n) (min k (length (source f) - unat ?p)) = min k (unat n)"
    using k(2,3) by (auto simp: q_def)
  have "LazilyLoadedFile_Read ops f n = Ok (take ?j ?d, f'\<lparr>lazy_pos := ?p + of_nat ?j\<rparr>)"
    using seek none cb(1) k(1) f'(1,4) len cut by (auto simp: LazilyLoadedFile_Read_def q_def Let_def min.commute)
  moreover have "lazy_ok (f'\<lparr>lazy_pos := ?p + of_nat ?j\<rparr>)"
    using lazy_ok_advance [OF f'(2), of ?j] f'(3,4) j(2) k(3) by simp
  moreover have "0 < ?j" if "0 < n" "unat ?p < length (source f)" using that q k(4) by (auto simp: u64_pos_iff)
  moreover have "?p + of_nat ?j \<le> ?p + of_nat k"
    using lazy_ok_advance [OF f'(2), of ?j] lazy_ok_advance [OF f'(2), of k] f'(3,4) j(2) k(3) by (simp add: word_le_nat_alt)
  then have "{?p..<?p + of_nat ?j} \<subseteq> covered (already_downloaded f')" using f'(5) by fastforce
  moreover have "asked_once ops f n cb'" using cb(1) k(1) by (auto simp: asked_once_def q_def)
  ultimately show ?thesis using j k(3) f'(3,5,6) by (intro exI [of _ ?j] exI [of _ "f'\<lparr>lazy_pos := ?p + of_nat ?j\<rparr>"]) simp
qed

lemma lazy_Read_spec:
  assumes "lazy_ok f"
  shows "\<exists>k f'. LazilyLoadedFile_Read ops f n = Ok (take k (drop (unat (lazy_pos f)) (source f)), f') \<and> k \<le> unat n \<and>
    unat (lazy_pos f) + k \<le> length (source f) \<and> (0 < n \<longrightarrow> unat (lazy_pos f) < length (source f) \<longrightarrow> 0 < k) \<and> lazy_ok f' \<and>
    source f' = source f \<and>
    covered (already_downloaded f) \<union> {lazy_pos f..<lazy_pos f + of_nat k} \<subseteq> covered (already_downloaded f') \<and>
    (if lazy_pos f \<in> covered (already_downloaded f) then callback f' = callback f else asked_once ops f n (callback f')) \<and>
    lazy_pos f' = lazy_pos f + of_nat k"
proof (cases "lazy_pos f \<in> covered (already_downloaded f)")
  case True
  obtain k f' where "LazilyLoadedFile_Read ops f n = Ok (take k (drop (unat (lazy_pos f)) (source f)), f')" "k \<le> unat n"
      "unat (lazy_pos f) + k \<le> length (source f)" "0 < n \<longrightarrow> 0 < k" "lazy_ok f'" "callback f' = callback f"
      "{lazy_pos f..<lazy_pos f + of_nat k} \<subseteq> covered (already_downloaded f)"
      "already_downloaded f' = already_downloaded f" "lazy_pos f' = lazy_pos f + of_nat k"
    using lazy_Read_present [OF assms True, of n] by blast
  then show ?thesis using True by (intro exI [of _ k] exI [of _ f']) simp
next
  case False
  then show ?thesis using lazy_Read_absent [OF assms False, of n] by auto
qed

end

sublocale lazy_source \<subseteq> lazy: byte_reader "LazilyLoadedFile_Read ops" "\<lambda>f. drop (unat (lazy_pos f)) (source f)" lazy_ok
proof unfold_locales
  fix f n
  assume ok: "lazy_ok f"
  then obtain k f' where k: "LazilyLoadedFile_Read ops f n = Ok (take k (drop (unat (lazy_pos f)) (source f)), f')" "k \<le> unat n"
      "unat (lazy_pos f) + k \<le> length (source f)" "0 < n \<longrightarrow> unat (lazy_pos f) < length (source f) \<longrightarrow> 0 < k" "lazy_ok f'"
      "source f' = source f" "lazy_pos f' = lazy_pos f + of_nat k"
    using lazy_Read_spec by metis
  then have "unat (lazy_pos f') = unat (lazy_pos f) + k" using lazy_ok_advance [OF ok k(3)] by simp
  then show "\<exists>k s'. LazilyLoadedFile_Read ops f n = Ok (take k (drop (unat (lazy_pos f)) (source f)), s') \<and> k \<le> unat n \<and>
      k \<le> length (drop (unat (lazy_pos f)) (source f)) \<and>
      (0 < n \<longrightarrow> drop (unat (lazy_pos f)) (source f) \<noteq> [] \<longrightarrow> 0 < k) \<and> lazy_ok s' \<and>
      drop (unat (lazy_pos s')) (source s') = drop k (drop (unat (lazy_pos f)) (source f))"
    using k by (intro exI [of _ k] exI [of _ f']) (auto simp: add.commute)
qed

subsection \<open>A file over several runs of the program\<close>

text \<open>
  What can be on disk, with the file in use: a file and its metadata that did not exist before, reads
  and seeks up to the size, and a new run over the same file. The run before has ended in order, with
  the destructor, or was killed, which leaves the metadata as they were.
\<close>

definition empty_file :: posix_file where "empty_file = \<lparr>file_bytes = [], file_offset = 0\<rparr>"

definition reopen :: "posix_file \<Rightarrow> posix_file" where "reopen f = f\<lparr>file_offset := 0\<rparr>"

inductive lazy_disk ::
  "'s reader_seeker_ops \<Rightarrow> ('s \<Rightarrow> bool) \<Rightarrow> ('s \<Rightarrow> string) \<Rightarrow> (string \<Rightarrow> (u64 \<times> u64) list option) \<Rightarrow> ((u64 \<times> u64) list \<Rightarrow> string) \<Rightarrow>
    string \<Rightarrow> 's lazy_file \<Rightarrow> posix_file \<Rightarrow> bool"
  for ops ok bytes ParseFromString SerializeAsString src where
  first_run: "lazy_disk ops ok bytes ParseFromString SerializeAsString src f empty_file"
    if "ok cb" and "bytes cb = src"
      and "LazilyLoadedFile_Create ParseFromString empty_file empty_file (of_nat (length src)) cb = Ok f"
| read_some: "lazy_disk ops ok bytes ParseFromString SerializeAsString src f' metadata"
    if "lazy_disk ops ok bytes ParseFromString SerializeAsString src f metadata" and "LazilyLoadedFile_Read ops f n = Ok (data, f')"
| seek_to: "lazy_disk ops ok bytes ParseFromString SerializeAsString src (LazilyLoadedFile_Seek location f) metadata"
    if "lazy_disk ops ok bytes ParseFromString SerializeAsString src f metadata" and "unat location \<le> length src"
| next_run: "lazy_disk ops ok bytes ParseFromString SerializeAsString src f' metadata'"
    if "lazy_disk ops ok bytes ParseFromString SerializeAsString src f metadata"
      and "metadata' = metadata \<or> metadata' = LazilyLoadedFile_destroy SerializeAsString f metadata"
      and "ok cb" and "bytes cb = src"
      and "LazilyLoadedFile_Create ParseFromString (reopen (contents_file f)) (reopen metadata') (of_nat (length src)) cb = Ok f'"

lemma Create_ranges:
  assumes "DeserializeDisjointRangeSet ParseFromString (file_bytes metadata) = Ok rs" and "file_offset metadata = 0"
  shows "LazilyLoadedFile_Create ParseFromString file metadata sz cb =
    Ok \<lparr>contents_file = file, callback = cb, already_downloaded = rs, lazy_pos = 0, lazy_size = sz\<rparr>"
  using posix_read_all [of "[]" metadata] assms by (auto simp: LazilyLoadedFile_Create_def ReadMetadata_def)

lemma WriteMetadata_bytes:
  "WriteMetadata SerializeAsString f = Ok m \<Longrightarrow> file_bytes m = Serialize SerializeAsString (already_downloaded f)"
proof -
  let ?d = "Serialize SerializeAsString (already_downloaded f)" and ?e = "\<lparr>file_bytes = [], file_offset = 0\<rparr>"
  assume ok: "WriteMetadata SerializeAsString f = Ok m"
  obtain n m' where w: "WriteAll posix_write_call ?d ?e = (n, m')" by fastforce
  then have "n = int (length ?d)" "m' = m" using ok by (auto simp: WriteMetadata_def Let_def split: if_splits)
  moreover have "\<exists>k\<le>length ?d. file_bytes m' = take k ?d \<and> (n < 0 \<or> n = int k)"
    using posix_append.WriteAll_prefix [OF _ w] by auto
  ultimately show ?thesis by auto
qed

text \<open>A run that ends in order saves what is there, for the next run to find, whatever the metadata were.\<close>

lemma destroy_then_Create:
  assumes "ranges_inv (already_downloaded f)" and "\<forall>ms. ParseFromString (SerializeAsString ms) = Some ms"
    and "length (Serialize SerializeAsString (already_downloaded f)) \<le> max_size"
  shows "LazilyLoadedFile_Create ParseFromString file (reopen (LazilyLoadedFile_destroy SerializeAsString f metadata)) sz cb =
    Ok \<lparr>contents_file = file, callback = cb, already_downloaded = already_downloaded f, lazy_pos = 0, lazy_size = sz\<rparr>"
proof -
  let ?d = "Serialize SerializeAsString (already_downloaded f)"
  obtain m where m: "WriteMetadata SerializeAsString f = Ok m"
    using posix_write_all [of "\<lparr>file_bytes = [], file_offset = 0\<rparr>" ?d] assms(3) by (auto simp: WriteMetadata_def Let_def)
  then have "file_bytes m = ?d" by (rule WriteMetadata_bytes)
  then have "DeserializeDisjointRangeSet ParseFromString (file_bytes m) = Ok (already_downloaded f)"
    using assms(1,2) insert_members_append [of "[]" "already_downloaded f"] by (simp add: DeserializeDisjointRangeSet_def Serialize_def)
  then show ?thesis by (intro Create_ranges) (simp_all add: LazilyLoadedFile_destroy_def m reopen_def)
qed

text \<open>The metadata on disk never claim more than the local file has.\<close>

definition describes :: "(string \<Rightarrow> (u64 \<times> u64) list option) \<Rightarrow> posix_file \<Rightarrow> range list \<Rightarrow> bool" where
  "describes ParseFromString metadata present \<longleftrightarrow>
     (\<exists>rs. DeserializeDisjointRangeSet ParseFromString (file_bytes metadata) = Ok rs \<and> ranges_inv rs \<and> covered rs \<subseteq> covered present)"

lemma describes_destroy:
  assumes "describes ParseFromString metadata (already_downloaded f)" and "ranges_inv (already_downloaded f)"
    and "\<forall>ms. ParseFromString (SerializeAsString ms) = Some ms"
  shows "describes ParseFromString (LazilyLoadedFile_destroy SerializeAsString f metadata) (already_downloaded f)"
proof (cases "WriteMetadata SerializeAsString f")
  case (Inr m)
  then have "DeserializeDisjointRangeSet ParseFromString (file_bytes m) = Ok (already_downloaded f)"
    using assms(2,3) insert_members_append [of "[]" "already_downloaded f"]
    by (simp add: WriteMetadata_bytes DeserializeDisjointRangeSet_def Serialize_def)
  then show ?thesis using Inr assms(2) by (auto simp: LazilyLoadedFile_destroy_def describes_def)
qed (use assms(1) in \<open>simp add: LazilyLoadedFile_destroy_def\<close>)

context lazy_source
begin

lemma lazy_disk_ok:
  assumes "lazy_disk ops ok bytes ParseFromString SerializeAsString src f metadata"
    and "\<forall>ms. ParseFromString (SerializeAsString ms) = Some ms" and "ParseFromString [] = Some []"
  shows "lazy_ok f \<and> source f = src \<and> describes ParseFromString metadata (already_downloaded f)"
  using assms(1)
proof (induction rule: lazy_disk.induct)
  case (first_run cb f)
  have none: "DeserializeDisjointRangeSet ParseFromString (file_bytes empty_file) = Ok []"
    using assms(3) by (simp add: DeserializeDisjointRangeSet_def empty_file_def)
  then have "f = \<lparr>contents_file = empty_file, callback = cb, already_downloaded = [], lazy_pos = 0, lazy_size = of_nat (length src)\<rparr>"
    using first_run(3) Create_ranges [OF none, of empty_file "of_nat (length src)" cb] by (auto simp: empty_file_def)
  then show ?case using first_run(1,2) none
    by (auto simp: lazy_ok_def describes_def agrees_def covered_def empty_file_def)
next
  case (read_some f metadata n data f')
  obtain k f'' where "LazilyLoadedFile_Read ops f n = Ok (take k (drop (unat (lazy_pos f)) (source f)), f'')" "lazy_ok f''"
      "source f'' = source f" "covered (already_downloaded f) \<subseteq> covered (already_downloaded f'')"
    using lazy_Read_spec [of f n] read_some.IH by (metis le_supE)
  then show ?case using read_some by (auto simp: describes_def)
next
  case (seek_to f metadata location)
  then show ?case by (auto simp: lazy_ok_def LazilyLoadedFile_Seek_def)
next
  case (next_run f metadata metadata' cb f')
  have inv: "ranges_inv (already_downloaded f)" and agree: "agrees (covered (already_downloaded f)) (file_bytes (contents_file f)) src"
    using next_run.IH by (auto simp: lazy_ok_def)
  have "describes ParseFromString metadata' (already_downloaded f)"
    using next_run.IH next_run.hyps(2) describes_destroy [OF _ inv assms(2)] by blast
  then obtain rs where rs: "DeserializeDisjointRangeSet ParseFromString (file_bytes metadata') = Ok rs" "ranges_inv rs"
      "covered rs \<subseteq> covered (already_downloaded f)"
    by (auto simp: describes_def)
  then have "f' = \<lparr>contents_file = reopen (contents_file f), callback = cb, already_downloaded = rs, lazy_pos = 0,
      lazy_size = of_nat (length src)\<rparr>"
    using next_run.hyps(5) Create_ranges [of ParseFromString "reopen metadata'" rs "reopen (contents_file f)" "of_nat (length src)" cb]
    by (auto simp: reopen_def)
  moreover have "agrees (covered rs) (file_bytes (contents_file f)) src" using agree rs(3) by (auto simp: agrees_def)
  ultimately show ?case using next_run.hyps(3,4) next_run.IH rs by (auto simp: lazy_ok_def describes_def reopen_def)
qed

lemma lazy_disk_reads:
  assumes "lazy_disk ops ok bytes ParseFromString SerializeAsString src f metadata"
    and "\<forall>ms. ParseFromString (SerializeAsString ms) = Some ms" and "ParseFromString [] = Some []"
  shows "\<exists>k f'. LazilyLoadedFile_Read ops f n = Ok (take k (drop (unat (lazy_pos f)) src), f') \<and> k \<le> unat n \<and>
      (0 < n \<longrightarrow> unat (lazy_pos f) < length src \<longrightarrow> 0 < k) \<and> lazy_pos f' = lazy_pos f + of_nat k \<and>
      covered (already_downloaded f) \<union> {lazy_pos f..<lazy_pos f + of_nat k} \<subseteq> covered (already_downloaded f') \<and>
      (if lazy_pos f \<in> covered (already_downloaded f) then callback f' = callback f else asked_once ops f n (callback f'))"
    and "\<exists>f'. ReadToString (LazilyLoadedFile_Read ops) f = Some (Ok (drop (unat (lazy_pos f)) src, f'))"
    and "ranges_inv (already_downloaded f)"
proof -
  have ok: "lazy_ok f" "source f = src" using lazy_disk_ok [OF assms] by blast+
  show "\<exists>k f'. LazilyLoadedFile_Read ops f n = Ok (take k (drop (unat (lazy_pos f)) src), f') \<and> k \<le> unat n \<and>
      (0 < n \<longrightarrow> unat (lazy_pos f) < length src \<longrightarrow> 0 < k) \<and> lazy_pos f' = lazy_pos f + of_nat k \<and>
      covered (already_downloaded f) \<union> {lazy_pos f..<lazy_pos f + of_nat k} \<subseteq> covered (already_downloaded f') \<and>
      (if lazy_pos f \<in> covered (already_downloaded f) then callback f' = callback f else asked_once ops f n (callback f'))"
    using lazy_Read_spec [OF ok(1), of n] ok(2) by blast
  show "\<exists>f'. ReadToString (LazilyLoadedFile_Read ops) f = Some (Ok (drop (unat (lazy_pos f)) src, f'))"
    using lazy.ReadToString_all [OF ok(1)] ok(2) by auto
  show "ranges_inv (already_downloaded f)" using ok(1) by (simp add: lazy_ok_def)
qed

end

interpretation mem_lazy: lazy_source mem_ops mem_data "\<lambda>io. unat (cursor io)" mem_ok
  by unfold_locales

text \<open>
  C23: A lazily loaded file reads as its source, over any number of runs of the program, ended in order
  or killed. A read gives the source's bytes at the position, at least one before the end, and records
  them as present, with all that was recorded before. When the position is recorded the source is not
  asked; otherwise it is asked once, from the position on, for the bytes wanted or, when these are few, for
  64 MiB or what is left, which may be recorded in part already. Reading to the end returns with exactly
  the rest of the source. When the run ends in order and the metadata fit into a file, the next run
  starts with the same set of recorded positions, whatever the metadata on disk were. Of the protobuf codec the theorem uses
  that parsing undoes serializing, and that the empty string is the empty message.
\<close>

theorem lazy_file_reads_source:
  assumes "lazy_disk mem_ops mem_ok mem_data ParseFromString SerializeAsString src f metadata"
    and "\<forall>ms. ParseFromString (SerializeAsString ms) = Some ms" and "ParseFromString [] = Some []"
  shows "(\<exists>k f'. LazilyLoadedFile_Read mem_ops f n = Ok (take k (drop (unat (lazy_pos f)) src), f') \<and> k \<le> unat n \<and>
      (0 < n \<longrightarrow> unat (lazy_pos f) < length src \<longrightarrow> 0 < k) \<and> lazy_pos f' = lazy_pos f + of_nat k \<and>
      covered (already_downloaded f) \<union> {lazy_pos f..<lazy_pos f + of_nat k} \<subseteq> covered (already_downloaded f') \<and>
      (if lazy_pos f \<in> covered (already_downloaded f) then callback f' = callback f else asked_once mem_ops f n (callback f'))) \<and>
    (\<exists>f'. ReadToString (LazilyLoadedFile_Read mem_ops) f = Some (Ok (drop (unat (lazy_pos f)) src, f'))) \<and>
    (length (Serialize SerializeAsString (already_downloaded f)) \<le> max_size \<longrightarrow>
      LazilyLoadedFile_Create ParseFromString (reopen (contents_file f)) (reopen (LazilyLoadedFile_destroy SerializeAsString f metadata))
        (of_nat (length src)) (cb :: mem_io) =
      Ok \<lparr>contents_file = reopen (contents_file f), callback = cb, already_downloaded = already_downloaded f, lazy_pos = 0,
        lazy_size = of_nat (length src)\<rparr>)"
  by (intro conjI impI mem_lazy.lazy_disk_reads(1,2) [OF assms] destroy_then_Create mem_lazy.lazy_disk_reads(3) [OF assms] assms(2))

text \<open>A codec for the witness: two numbers in unary for a member.\<close>

fun unary_parse :: "nat \<Rightarrow> u64 option \<Rightarrow> string \<Rightarrow> (u64 \<times> u64) list" where
  "unary_parse n first [] = []"
| "unary_parse n None (c # cs) =
     (if c = CHR ''1'' then unary_parse (Suc n) None cs else unary_parse 0 (Some (of_nat n)) cs)"
| "unary_parse n (Some s) (c # cs) =
     (if c = CHR ''1'' then unary_parse (Suc n) (Some s) cs else (s, of_nat n) # unary_parse 0 None cs)"

definition unary_print :: "(u64 \<times> u64) list \<Rightarrow> string" where
  "unary_print ms = concat (map (\<lambda>(s, e). replicate (unat s) (CHR ''1'') @ '','' @ replicate (unat e) (CHR ''1'') @ '';'') ms)"

lemma unary_parse_digits: "unary_parse n x (replicate k (CHR ''1'') @ cs) = unary_parse (n + k) x cs"
  by (induction k arbitrary: n; cases x) auto

lemma unary_roundtrip: "unary_parse 0 None (unary_print ms) = ms"
  by (induction ms) (auto simp: unary_print_def unary_parse_digits)

text \<open>A read of a part of a small source loads it up to the end; the next run finds it recorded.\<close>

definition first_part :: "mem_io lazy_file" where
  "first_part = \<lparr>contents_file = \<lparr>file_bytes = [CHR 0x00] @ ''bcd'', file_offset = 4\<rparr>, callback = \<lparr>mem_data = ''abcd'', cursor = 4\<rparr>,
     already_downloaded = [\<lparr>rstart = 1, rend = 4\<rparr>], lazy_pos = 3, lazy_size = 4\<rparr>"

lemma first_part_read:
  "LazilyLoadedFile_Read mem_ops
      \<lparr>contents_file = empty_file, callback = \<lparr>mem_data = ''abcd'', cursor = 0\<rparr>, already_downloaded = [], lazy_pos = 1, lazy_size = 4\<rparr>
      2 = Ok (''bc'', first_part)"
proof -
  let ?cb = "\<lparr>mem_data = ''abcd'', cursor = 0\<rparr>"
  have seek: "fd_SeekSet empty_file 1 = Ok (1, empty_file\<lparr>file_offset := 1\<rparr>)" by (simp add: fd_SeekSet_ok)
  have none: "EndOfContainingRange [] 1 = None" by (simp add: EndOfContainingRange_def before_ub_def Let_def)
  have cb: "SeekSet mem_ops ?cb 1 = Ok (1, ?cb\<lparr>cursor := 1\<rparr>)" by (simp add: mem_ops_def mem_SeekSet_def GrowTo_def)
  have rd: "Read mem_ops (?cb\<lparr>cursor := 1\<rparr>) 3 = Ok (''bcd'', ?cb\<lparr>cursor := 4\<rparr>)"
    by (simp add: mem_ops_def mem_Read_def ClampRange_def copy_out_def Let_def)
  have "InsertRange [] 1 4 = Ok [\<lparr>rstart = 1, rend = 4\<rparr>]" by code_simp
  moreover have "overwrite 1 ''bcd'' [] = [CHR 0x00] @ ''bcd''" by code_simp
  ultimately show ?thesis using seek none cb rd
    by (simp add: LazilyLoadedFile_Read_def store_data_def posix_write_all kMinReadSize_def min_def Let_def empty_file_def first_part_def)
qed

lemma first_part_disk:
  "lazy_disk mem_ops mem_ok mem_data (Some \<circ> unary_parse 0 None) unary_print ''abcd'' first_part empty_file"
proof -
  let ?f = "\<lparr>contents_file = empty_file, callback = \<lparr>mem_data = ''abcd'', cursor = 0\<rparr>, already_downloaded = [], lazy_pos = 0, lazy_size = 4\<rparr>"
  have "LazilyLoadedFile_Create (Some \<circ> unary_parse 0 None) empty_file empty_file (of_nat (length ''abcd''))
      \<lparr>mem_data = ''abcd'', cursor = 0\<rparr> = Ok ?f"
    by (subst Create_ranges [of _ _ "[]"]) (simp_all add: DeserializeDisjointRangeSet_def empty_file_def)
  then have "lazy_disk mem_ops mem_ok mem_data (Some \<circ> unary_parse 0 None) unary_print ''abcd'' ?f empty_file"
    by (intro lazy_disk.first_run) (simp_all add: mem_ok_def)
  then have "lazy_disk mem_ops mem_ok mem_data (Some \<circ> unary_parse 0 None) unary_print ''abcd'' (LazilyLoadedFile_Seek 1 ?f) empty_file"
    by (rule lazy_disk.seek_to) simp
  then show ?thesis by (rule lazy_disk.read_some [where n = 2]) (simp add: LazilyLoadedFile_Seek_def first_part_read)
qed

theorem lazy_file_reads_source_witness:
  "(\<exists>f'. LazilyLoadedFile_Read mem_ops first_part 2 = Ok (''d'', f') \<and> callback f' = callback first_part) \<and>
   (\<exists>f'. LazilyLoadedFile_Create (Some \<circ> unary_parse 0 None) (reopen (contents_file first_part))
      (reopen (LazilyLoadedFile_destroy unary_print first_part empty_file)) 4 \<lparr>mem_data = ''abcd'', cursor = 0\<rparr> = Ok f' \<and>
      already_downloaded f' = [\<lparr>rstart = 1, rend = 4\<rparr>])"
proof -
  have codec: "\<forall>ms. (Some \<circ> unary_parse 0 None) (unary_print ms) = Some ms" "(Some \<circ> unary_parse 0 None) [] = Some []"
    by (simp_all add: unary_roundtrip)
  have fits: "length (Serialize unary_print (already_downloaded first_part)) \<le> max_size"
    by (simp add: first_part_def Serialize_def unary_print_def AllRanges_def AsPair_def)
  have pos: "lazy_pos first_part \<in> covered (already_downloaded first_part)" "unat (lazy_pos first_part) = 3"
    by (simp_all add: first_part_def covered_def covers_def)
  note th = lazy_file_reads_source [OF first_part_disk codec, of 2 "\<lparr>mem_data = ''abcd'', cursor = 0\<rparr>"]
  obtain k f' where "LazilyLoadedFile_Read mem_ops first_part 2 = Ok (take k ''d'', f')" "0 < k" "callback f' = callback first_part"
    using th pos by auto
  moreover have "take k ''d'' = ''d''" using \<open>0 < k\<close> by (cases k) auto
  moreover have "already_downloaded first_part = [\<lparr>rstart = 1, rend = 4\<rparr>]" by (simp add: first_part_def)
  moreover have "\<exists>f'. LazilyLoadedFile_Create (Some \<circ> unary_parse 0 None) (reopen (contents_file first_part))
      (reopen (LazilyLoadedFile_destroy unary_print first_part empty_file)) 4 \<lparr>mem_data = ''abcd'', cursor = 0\<rparr> = Ok f' \<and>
      already_downloaded f' = already_downloaded first_part"
    using th [THEN conjunct2, THEN conjunct2, rule_format, OF fits] by simp
  ultimately show ?thesis by metis
qed

end
