(* ===== verification/Lz4_Legacy.thy ===== *)
theory Lz4_Legacy
  imports Io_Copy
begin

section \<open>The legacy LZ4 frame format\<close>

text \<open>
  \<^verbatim>\<open>io/lz4_legacy.cc\<close>, and its two users in \<^verbatim>\<open>assemble_cvd/boot_image_utils.cc\<close>. The functions of the LZ4
  library are arguments. \<^verbatim>\<open>LZ4_compress_default\<close> is given by the bytes it produces, none when it fails;
  \<^verbatim>\<open>LZ4_decompress_safe\<close> by its result and the destination buffer afterwards.
\<close>

definition kLz4LegacyFrameBlockSize :: nat where "kLz4LegacyFrameBlockSize = 8 * 2 ^ 20"

definition kLz4LegacyFrameMagic :: nat where "kLz4LegacyFrameMagic = 0x184C2102"

text \<open>A 32-bit number in memory, lowest byte first.\<close>

definition htole32 :: "nat \<Rightarrow> string" where
  "htole32 n = [char_of n, char_of (n div 2 ^ 8), char_of (n div 2 ^ 16), char_of (n div 2 ^ 24)]"

fun le32toh :: "string \<Rightarrow> nat" where
  "le32toh [] = 0"
| "le32toh (c # cs) = of_char c + 2 ^ 8 * le32toh cs"

definition ReadExactBinary32 :: "('s \<Rightarrow> u64 \<Rightarrow> (string \<times> 's) result) \<Rightarrow> 's \<Rightarrow> (nat \<times> 's) result" where
  "ReadExactBinary32 rd s = bind_result (ReadExact rd 4 s) (\<lambda>(data, s'). Ok (le32toh data, s'))"

definition WriteExactBinary32 :: "('w \<Rightarrow> string \<Rightarrow> (u64 \<times> 'w) result) \<Rightarrow> nat \<Rightarrow> 'w \<Rightarrow> 'w result" where
  "WriteExactBinary32 wr data w = WriteExact wr (htole32 data) w"

subsection \<open>The reader\<close>

record 's lz4_reader =
  lz4_source :: 's
  decompressed :: string

text \<open>Loading the next block: \<open>None\<close> is the early return of 0.\<close>

definition lz4_next_block ::
  "(string \<Rightarrow> string \<Rightarrow> int \<times> string) \<Rightarrow> ('s \<Rightarrow> u64 \<Rightarrow> (string \<times> 's) result) \<Rightarrow> 's lz4_reader \<Rightarrow>
    (bool \<times> 's lz4_reader) result" where
  "lz4_next_block LZ4_decompress_safe rd r =
     bind_result (rd (lz4_source r) 1) (\<lambda>(first, s).
       if first = [] then Ok (False, r\<lparr>lz4_source := s\<rparr>)
       else bind_result (ReadExact rd 3 s) (\<lambda>(rest, s).
         let len = le32toh (first @ rest)
         in if len = 0 then Ok (False, r\<lparr>lz4_source := s\<rparr>)
            else bind_result (ReadExact rd len s) (\<lambda>(compressed, s).
              let (lz4_length, buf) = LZ4_decompress_safe compressed (replicate kLz4LegacyFrameBlockSize (CHR 0x00))
              in if lz4_length < 0 then Err Cf_Error
                 else if lz4_length = 0 then Ok (False, r\<lparr>lz4_source := s, decompressed := buf\<rparr>)
                 else Ok (True, r\<lparr>lz4_source := s, decompressed := take (nat lz4_length) buf\<rparr>))))"

definition lz4_Read ::
  "(string \<Rightarrow> string \<Rightarrow> int \<times> string) \<Rightarrow> ('s \<Rightarrow> u64 \<Rightarrow> (string \<times> 's) result) \<Rightarrow> 's lz4_reader \<Rightarrow> u64 \<Rightarrow>
    (string \<times> 's lz4_reader) result" where
  "lz4_Read LZ4_decompress_safe rd r cnt =
     bind_result (if decompressed r = [] then lz4_next_block LZ4_decompress_safe rd r else Ok (True, r)) (\<lambda>(more, r).
       if \<not> more then Ok ([], r)
       else let len = min (unat cnt) (length (decompressed r))
            in Ok (take len (decompressed r), r\<lparr>decompressed := drop len (decompressed r)\<rparr>))"

definition Lz4LegacyReader :: "('s \<Rightarrow> u64 \<Rightarrow> (string \<times> 's) result) \<Rightarrow> 's \<Rightarrow> 's lz4_reader result" where
  "Lz4LegacyReader rd source =
     bind_result (ReadExactBinary32 rd source) (\<lambda>(magic, s).
       if magic = kLz4LegacyFrameMagic then Ok \<lparr>lz4_source = s, decompressed = []\<rparr> else Err Cf_Error)"

subsection \<open>The writer\<close>

record 'w lz4_writer =
  sink :: 'w
  footer_written :: bool

text \<open>A write that leaves nothing for a later one closes the frame.\<close>

definition lz4_Write ::
  "(string \<Rightarrow> nat \<Rightarrow> string) \<Rightarrow> (nat \<Rightarrow> nat) \<Rightarrow> ('w \<Rightarrow> string \<Rightarrow> (u64 \<times> 'w) result) \<Rightarrow> 'w lz4_writer \<Rightarrow> string \<Rightarrow>
    (u64 \<times> 'w lz4_writer) result" where
  "lz4_Write LZ4_compress_default LZ4_compressBound wr w buf =
     (if footer_written w then Err Cf_Error
      else let to_write = min (length buf) kLz4LegacyFrameBlockSize
           in bind_result
                (if to_write > 0
                 then let compressed = LZ4_compress_default (take to_write buf) (LZ4_compressBound to_write)
                      in if compressed = [] then Err Cf_Error
                         else bind_result (WriteExactBinary32 wr (length compressed) (sink w)) (WriteExact wr compressed)
                 else Ok (sink w)) (\<lambda>s.
              if length buf \<le> kLz4LegacyFrameBlockSize
              then bind_result (WriteExactBinary32 wr 0 s) (\<lambda>s.
                     Ok (of_nat to_write, w\<lparr>sink := s, footer_written := True\<rparr>))
              else Ok (of_nat to_write, w\<lparr>sink := s\<rparr>)))"

definition Lz4LegacyWriter :: "('w \<Rightarrow> string \<Rightarrow> (u64 \<times> 'w) result) \<Rightarrow> 'w \<Rightarrow> 'w lz4_writer result" where
  "Lz4LegacyWriter wr s =
     bind_result (WriteExactBinary32 wr kLz4LegacyFrameMagic s) (\<lambda>s. Ok \<lparr>sink = s, footer_written = False\<rparr>)"

subsection \<open>Packing and unpacking ramdisks\<close>

text \<open>
  \<^verbatim>\<open>RunLz4\<close> with the input file and a new output file. \<^verbatim>\<open>UnpackRamdisk\<close> fills a new archive file, makes the
  directory and runs \<^verbatim>\<open>cpio\<close> in it on a descriptor of the archive, again and again until a run fails.
  Making the directory and the program \<^verbatim>\<open>cpio\<close> are arguments, over a state of the directory: a run gives
  its exit status and moves the offset of the descriptor, which it shares. That the loop does not end is
  the value \<^const>\<open>None\<close>. The result has the archive file and the directory.
\<close>

definition RunLz4 :: "(string \<Rightarrow> nat \<Rightarrow> string) \<Rightarrow> (nat \<Rightarrow> nat) \<Rightarrow> posix_file \<Rightarrow> posix_file \<Rightarrow> posix_file result option" where
  "RunLz4 LZ4_compress_default LZ4_compressBound input output =
     (case Lz4LegacyWriter fd_Write output of
        Inl e \<Rightarrow> Some (Inl e)
      | Inr lz4_writer \<Rightarrow>
          (case ReadToString fd_Read input of
             None \<Rightarrow> None
           | Some (Inl e) \<Rightarrow> Some (Inl e)
           | Some (Inr (input_data, _)) \<Rightarrow>
               Some (bind_result (WriteExact (lz4_Write LZ4_compress_default LZ4_compressBound fd_Write) input_data lz4_writer)
                       (\<lambda>w. Ok (sink w)))))"

definition IsCpioArchive :: "posix_file \<Rightarrow> bool" where
  "IsCpioArchive f = (fst (posix_read 6 f) = ''070701'')"

partial_function (option) run_cpio ::
  "(posix_file \<Rightarrow> 'd \<Rightarrow> int \<times> posix_file \<times> 'd) \<Rightarrow> posix_file \<Rightarrow> 'd \<Rightarrow> 'd option"
where
  "run_cpio cpio input d =
     (let (cpio_status, input, d) = cpio input d
      in if cpio_status = 0 then run_cpio cpio input d else Some d)"

declare run_cpio.simps [code]

definition fill_archive ::
  "(string \<Rightarrow> string \<Rightarrow> int \<times> string) \<Rightarrow> posix_file \<Rightarrow> posix_file \<Rightarrow> posix_file result option" where
  "fill_archive LZ4_decompress_safe ramdisk_input output =
     (if IsCpioArchive ramdisk_input
      then map_option (\<lambda>res. bind_result res (\<lambda>(_, w). Ok w)) (Copy fd_Read fd_Write ramdisk_input output)
      else case Lz4LegacyReader fd_Read ramdisk_input of
             Inl e \<Rightarrow> Some (Inl e)
           | Inr r \<Rightarrow> map_option (\<lambda>res. bind_result res (\<lambda>(_, w). Ok w))
                         (Copy (lz4_Read LZ4_decompress_safe fd_Read) fd_Write r output))"

definition UnpackRamdisk ::
  "(string \<Rightarrow> string \<Rightarrow> int \<times> string) \<Rightarrow> ('d \<Rightarrow> unit result \<times> 'd) \<Rightarrow> (posix_file \<Rightarrow> 'd \<Rightarrow> int \<times> posix_file \<times> 'd) \<Rightarrow>
    posix_file \<Rightarrow> posix_file \<Rightarrow> 'd \<Rightarrow> (posix_file \<times> 'd) result option" where
  "UnpackRamdisk LZ4_decompress_safe EnsureDirectoryExists cpio ramdisk_input output d =
     (case fill_archive LZ4_decompress_safe ramdisk_input output of
        None \<Rightarrow> None
      | Some (Inl e) \<Rightarrow> Some (Inl e)
      | Some (Inr output) \<Rightarrow>
          (case EnsureDirectoryExists d of
             (Inl e, _) \<Rightarrow> Some (Inl e)
           | (Inr _, d) \<Rightarrow> map_option (\<lambda>d. Ok (output, d)) (run_cpio cpio (output\<lparr>file_offset := 0\<rparr>) d)))"

text \<open>
  What is used of \<^verbatim>\<open>cpio -i\<close>: it does not change the archive it reads, and a run that succeeds has read
  on, up to the end of the file at most; at the end of the file it fails.
\<close>

definition cpio_reads :: "(posix_file \<Rightarrow> 'd \<Rightarrow> int \<times> posix_file \<times> 'd) \<Rightarrow> bool" where
  "cpio_reads cpio \<longleftrightarrow> (\<forall>f d st f' d'. cpio f d = (st, f', d') \<longrightarrow>
     file_bytes f' = file_bytes f \<and> (st = 0 \<longrightarrow> file_offset f < file_offset f' \<and> file_offset f' \<le> length (file_bytes f)))"

text \<open>The directory after a number of runs that succeed and a last one that fails, if that is how the runs go.\<close>

fun cpio_runs :: "(posix_file \<Rightarrow> 'd \<Rightarrow> int \<times> posix_file \<times> 'd) \<Rightarrow> posix_file \<Rightarrow> 'd \<Rightarrow> nat \<Rightarrow> 'd option" where
  "cpio_runs cpio f d 0 = (case cpio f d of (st, _, d') \<Rightarrow> if st = 0 then None else Some d')"
| "cpio_runs cpio f d (Suc n) = (case cpio f d of (st, f', d') \<Rightarrow> if st = 0 then cpio_runs cpio f' d' n else None)"

subsection \<open>The format\<close>

lemma length_htole32 [simp]: "length (htole32 n) = 4"
  by (simp add: htole32_def)

lemma htole32_not_Nil [simp]: "htole32 n \<noteq> []"
  by (simp add: htole32_def)

lemma le32toh_htole32: "n < 2 ^ 32 \<Longrightarrow> le32toh (htole32 n) = n"
proof -
  assume n: "n < 2 ^ 32"
  define a b c where "a = n div 256" and "b = a div 256" and "c = b div 256"
  have parts: "n div 65536 = b" "n div 16777216 = c" by (simp_all add: a_def b_def c_def div_mult2_eq [symmetric])
  have "n = 256 * a + n mod 256" "a = 256 * b + a mod 256" "b = 256 * c + b mod 256"
    by (simp_all add: a_def b_def c_def)
  moreover have "c mod 256 = c" using n by (simp add: parts(2) [symmetric] less_mult_imp_div_less)
  ultimately show ?thesis using parts by (simp add: htole32_def a_def [symmetric])
qed

text \<open>
  What the frame relies on in the library: a block that was compressed into a buffer of the size that
  \<^verbatim>\<open>LZ4_compressBound\<close> tells is not empty, fits into it, and is what decompressing it into a large
  enough buffer gives back. The bound of a block is below \<open>2\<^sup>3\<^sup>1\<close>.
\<close>

definition lz4_codec :: "(string \<Rightarrow> nat \<Rightarrow> string) \<Rightarrow> (nat \<Rightarrow> nat) \<Rightarrow> (string \<Rightarrow> string \<Rightarrow> int \<times> string) \<Rightarrow> bool" where
  "lz4_codec LZ4_compress_default LZ4_compressBound LZ4_decompress_safe \<longleftrightarrow>
     (\<forall>n. 0 < n \<and> n \<le> kLz4LegacyFrameBlockSize \<longrightarrow> LZ4_compressBound n < 2 ^ 31) \<and>
     (\<forall>block. block \<noteq> [] \<and> length block \<le> kLz4LegacyFrameBlockSize \<longrightarrow>
        (let c = LZ4_compress_default block (LZ4_compressBound (length block))
         in c \<noteq> [] \<and> length c \<le> LZ4_compressBound (length block) \<and>
            (\<forall>buf. length block \<le> length buf \<longrightarrow>
               (\<exists>tail. LZ4_decompress_safe c buf = (int (length block), block @ tail)))))"

lemma lz4_codecD:
  assumes "lz4_codec compress bound decompress" and "block \<noteq> []" and "length block \<le> kLz4LegacyFrameBlockSize"
  defines "c \<equiv> compress block (bound (length block))"
  shows "c \<noteq> []" and "length c < 2 ^ 31" and "length c \<le> bound (length block)"
    and "length block \<le> length buf \<Longrightarrow> \<exists>tail. decompress c buf = (int (length block), block @ tail)"
proof -
  have "0 < length block" using assms(2) by simp
  then have "bound (length block) < 2 ^ 31" using assms(1,3) unfolding lz4_codec_def by blast
  moreover have c: "c \<noteq> [] \<and> length c \<le> bound (length block) \<and>
      (\<forall>buf. length block \<le> length buf \<longrightarrow> (\<exists>tail. decompress c buf = (int (length block), block @ tail)))"
    using assms(1-3) unfolding lz4_codec_def Let_def c_def by blast
  ultimately show "c \<noteq> []" "length c < 2 ^ 31" "length c \<le> bound (length block)"
      "length block \<le> length buf \<Longrightarrow> \<exists>tail. decompress c buf = (int (length block), block @ tail)"
    by auto
qed

text \<open>What the writer produces for some data, after the magic number.\<close>

function lz4_frames :: "(string \<Rightarrow> string) \<Rightarrow> string \<Rightarrow> string" where
  "lz4_frames compress data =
     (if data = [] then []
      else let c = compress (take kLz4LegacyFrameBlockSize data)
           in htole32 (length c) @ c @
              (if length data \<le> kLz4LegacyFrameBlockSize then htole32 0 else lz4_frames compress (drop kLz4LegacyFrameBlockSize data)))"
  by pat_completeness auto
termination
  by (relation "measure (\<lambda>(_, data). length data)") (auto simp: kLz4LegacyFrameBlockSize_def)

declare lz4_frames.simps [simp del]

text \<open>Streams that stand for some data: blocks and footers.\<close>

inductive lz4_stream :: "(string \<Rightarrow> string \<Rightarrow> int \<times> string) \<Rightarrow> string \<Rightarrow> string \<Rightarrow> bool" for decompress where
  stream_end: "lz4_stream decompress [] []"
| stream_footer: "lz4_stream decompress [] rest \<Longrightarrow> lz4_stream decompress [] (htole32 0 @ rest)"
| stream_block: "lz4_stream decompress (block @ data) (htole32 (length c) @ c @ rest)"
    if "block \<noteq> []" and "c \<noteq> []" and "length c < 2 ^ 32" and "lz4_stream decompress data rest"
      and "\<exists>tail. decompress c (replicate kLz4LegacyFrameBlockSize (CHR 0x00)) = (int (length block), block @ tail)"

lemma lz4_frames_stream:
  assumes "lz4_codec compress bound decompress"
  shows "lz4_stream decompress data (lz4_frames (\<lambda>b. compress b (bound (length b))) data)"
proof (induction "length data" arbitrary: data rule: less_induct)
  case less
  let ?n = kLz4LegacyFrameBlockSize and ?f = "\<lambda>b. compress b (bound (length b))"
  let ?b = "take ?n data"
  show ?case
  proof (cases "data = []")
    case False
    have b: "?b \<noteq> []" "length ?b \<le> ?n" using False by (auto simp: kLz4LegacyFrameBlockSize_def)
    note c = lz4_codecD [OF assms b]
    have "length (?f ?b) < 2 ^ 32" using c(2) by simp
    note len = this
    have fits: "\<exists>tail. decompress (?f ?b) (replicate ?n (CHR 0x00)) = (int (length ?b), ?b @ tail)"
      using c(4) b(2) by simp
    have rest: "lz4_stream decompress (drop ?n data)
        (if length data \<le> ?n then htole32 0 else lz4_frames ?f (drop ?n data))"
    proof (cases "length data \<le> ?n")
      case True
      then show ?thesis using stream_footer [OF stream_end] by simp
    next
      case False
      then have "length (drop ?n data) < length data" by (simp add: kLz4LegacyFrameBlockSize_def)
      then show ?thesis using less False by simp
    qed
    show ?thesis
      using stream_block [OF b(1) c(1) len rest fits] False by (subst lz4_frames.simps) (simp add: Let_def)
  qed (simp add: lz4_frames.simps stream_end)
qed

lemma htole32_eq: "m < 2 ^ 32 \<Longrightarrow> n < 2 ^ 32 \<Longrightarrow> htole32 m @ xs = htole32 n @ ys \<longleftrightarrow> m = n \<and> xs = ys"
proof -
  assume "m < 2 ^ 32" "n < 2 ^ 32"
  then have "htole32 m = htole32 n \<longleftrightarrow> m = n" by (metis le32toh_htole32)
  then show ?thesis by simp
qed

inductive_cases lz4_stream_NilE: "lz4_stream decompress data []"

lemma lz4_stream_unique: "lz4_stream decompress data s \<Longrightarrow> lz4_stream decompress data' s \<Longrightarrow> data' = data"
proof (induction arbitrary: data' rule: lz4_stream.induct)
  case stream_end
  then show ?case by (auto elim: lz4_stream_NilE)
next
  case (stream_footer rest)
  from stream_footer.prems show ?case
  proof (cases rule: lz4_stream.cases)
    case stream_footer
    then show ?thesis by simp
  next
    case (stream_block block c data'' rest')
    then have "length c = 0" using htole32_eq [of 0 "length c" rest "c @ rest'"] by simp
    then show ?thesis using stream_block by simp
  qed simp
next
  case (stream_block block c data rest)
  obtain tail where tail: "decompress c (replicate kLz4LegacyFrameBlockSize (CHR 0x00)) = (int (length block), block @ tail)"
    using stream_block.hyps(5) by blast
  note c = stream_block.hyps(2) and len = stream_block.hyps(3) and IH = stream_block.IH
  from stream_block.prems show ?case
  proof (cases rule: lz4_stream.cases)
    case (stream_block block' c' data'' rest')
    then have "c @ rest = c' @ rest'" "length c = length c'"
      using htole32_eq [OF len, of "length c'" "c @ rest" "c' @ rest'"] by simp_all
    then have "c' = c" "rest' = rest" by simp_all
    then show ?thesis using stream_block IH tail by auto
  next
    case (stream_footer rest')
    then have "length c = 0" using htole32_eq [OF len, of 0 "c @ rest" rest'] by simp
    then show ?thesis using c by simp
  qed simp
qed

subsection \<open>The reader gives the data of the stream\<close>

locale lz4_reading = byte_reader rd todo ok
  for rd :: "'s \<Rightarrow> u64 \<Rightarrow> (string \<times> 's) result" and todo :: "'s \<Rightarrow> string" and ok :: "'s \<Rightarrow> bool" +
  fixes decompress :: "string \<Rightarrow> string \<Rightarrow> int \<times> string"
begin

definition lz4_ok :: "'s lz4_reader \<Rightarrow> bool" where
  "lz4_ok r \<longleftrightarrow> ok (lz4_source r) \<and> (\<exists>data. lz4_stream decompress data (todo (lz4_source r)))"

definition lz4_todo :: "'s lz4_reader \<Rightarrow> string" where
  "lz4_todo r = decompressed r @ (THE data. lz4_stream decompress data (todo (lz4_source r)))"

lemma lz4_todo_eq: "lz4_stream decompress data (todo (lz4_source r)) \<Longrightarrow> lz4_todo r = decompressed r @ data"
  using lz4_stream_unique by (auto simp: lz4_todo_def)

lemma read_header:
  assumes "ok s" and "todo s = htole32 n @ rest"
  shows "\<exists>s1 s2. rd s 1 = Ok (take 1 (htole32 n), s1) \<and> ReadExact rd 3 s1 = Ok (drop 1 (htole32 n), s2) \<and> ok s2 \<and> todo s2 = rest"
proof -
  have one: "unat (1 :: u64) = 1" "0 < (1 :: u64)" by simp_all
  obtain k s1 where k: "rd s 1 = Ok (take k (todo s), s1)" "k \<le> 1" "todo s \<noteq> [] \<longrightarrow> 0 < k" "ok s1" "todo s1 = drop k (todo s)"
    using rd_law [OF assms(1), of 1] one by metis
  then have "k = 1" using assms(2) by simp
  moreover obtain s2 where "ReadExact rd 3 s1 = Ok (take 3 (todo s1), s2)" "ok s2" "todo s2 = drop 3 (todo s1)"
    using ReadExact_spec [OF k(4), of 3] k(5) \<open>k = 1\<close> assms(2) by (auto split: if_splits)
  ultimately show ?thesis using k assms(2) by (auto simp: htole32_def)
qed

lemma next_block:
  assumes "ok (lz4_source r)" and "lz4_stream decompress data (todo (lz4_source r))"
  shows "\<exists>r'. ok (lz4_source r') \<and>
    (if data = [] then lz4_next_block decompress rd r = Ok (False, r') \<and> decompressed r' = decompressed r \<and>
         lz4_stream decompress [] (todo (lz4_source r'))
     else \<exists>rest. lz4_next_block decompress rd r = Ok (True, r') \<and> decompressed r' \<noteq> [] \<and> data = decompressed r' @ rest \<and>
         lz4_stream decompress rest (todo (lz4_source r')))"
  using assms(2)
proof cases
  case stream_end
  obtain s1 where "rd (lz4_source r) 1 = Ok ([], s1)" "ok s1" "todo s1 = []"
    using rd_law [OF assms(1), of 1] stream_end by auto
  then show ?thesis using stream_end
    by (intro exI [of _ "r\<lparr>lz4_source := s1\<rparr>"]) (simp add: lz4_next_block_def lz4_stream.stream_end)
next
  case (stream_footer rest)
  obtain s1 s2 where s: "rd (lz4_source r) 1 = Ok (take 1 (htole32 0), s1)" "ReadExact rd 3 s1 = Ok (drop 1 (htole32 0), s2)"
      "ok s2" "todo s2 = rest"
    using read_header [OF assms(1) stream_footer(2)] by blast
  then show ?thesis using stream_footer
    by (intro exI [of _ "r\<lparr>lz4_source := s2\<rparr>"]) (simp add: lz4_next_block_def htole32_def)
next
  case (stream_block block c data' rest)
  obtain s1 s2 where s: "rd (lz4_source r) 1 = Ok (take 1 (htole32 (length c)), s1)"
      "ReadExact rd 3 s1 = Ok (drop 1 (htole32 (length c)), s2)" "ok s2" "todo s2 = c @ rest"
    using read_header [OF assms(1) stream_block(2)] by blast
  obtain s3 where s3: "ReadExact rd (length c) s2 = Ok (c, s3)" "ok s3" "todo s3 = rest"
    using ReadExact_spec [OF s(3), of "length c"] stream_block(5) s(4) by auto
  obtain tail where tail: "decompress c (replicate kLz4LegacyFrameBlockSize (CHR 0x00)) = (int (length block), block @ tail)"
    using stream_block(7) by blast
  have len: "le32toh (take 1 (htole32 (length c)) @ drop 1 (htole32 (length c))) = length c"
    using stream_block(5) le32toh_htole32 by (simp only: append_take_drop_id)
  have "lz4_next_block decompress rd r = Ok (True, r\<lparr>lz4_source := s3, decompressed := block\<rparr>)"
    unfolding lz4_next_block_def s(1) bind_result_simps prod.case s(2) len Let_def
    using s3(1) tail stream_block(3,4) by (simp add: htole32_def)
  then show ?thesis using stream_block s3
    by (intro exI [of _ "r\<lparr>lz4_source := s3, decompressed := block\<rparr>"]) auto
qed

text \<open>A read takes bytes that are decompressed, or the next block.\<close>

lemma lz4_Read_take:
  fixes n :: u64
  assumes "ok (lz4_source r)" and "lz4_stream decompress rest (todo (lz4_source r))"
  shows "\<exists>k. (let len = min (unat n) (length (decompressed r))
        in Ok (take len (decompressed r), r\<lparr>decompressed := drop len (decompressed r)\<rparr>)) =
      Ok (take k (lz4_todo r), r\<lparr>decompressed := drop k (decompressed r)\<rparr>) \<and> k \<le> unat n \<and> k \<le> length (lz4_todo r) \<and>
    (0 < n \<longrightarrow> decompressed r \<noteq> [] \<longrightarrow> 0 < k) \<and> lz4_ok (r\<lparr>decompressed := drop k (decompressed r)\<rparr>) \<and>
    lz4_todo (r\<lparr>decompressed := drop k (decompressed r)\<rparr>) = drop k (lz4_todo r)"
  using assms lz4_todo_eq [of rest "r\<lparr>decompressed := drop (min (unat n) (length (decompressed r))) (decompressed r)\<rparr>"]
    lz4_todo_eq [OF assms(2)]
  by (intro exI [of _ "min (unat n) (length (decompressed r))"]) (auto simp: lz4_ok_def Let_def u64_pos_iff)

end

sublocale lz4_reading \<subseteq> lz4: byte_reader "lz4_Read decompress rd" lz4_todo lz4_ok
proof
  fix r n
  assume r: "lz4_ok r"
  then obtain data where data: "ok (lz4_source r)" "lz4_stream decompress data (todo (lz4_source r))"
    by (auto simp: lz4_ok_def)
  show "\<exists>k s'. lz4_Read decompress rd r n = Ok (take k (lz4_todo r), s') \<and> k \<le> unat n \<and> k \<le> length (lz4_todo r) \<and>
      (0 < n \<longrightarrow> lz4_todo r \<noteq> [] \<longrightarrow> 0 < k) \<and> lz4_ok s' \<and> lz4_todo s' = drop k (lz4_todo r)"
  proof (cases "decompressed r = []")
    case False
    then show ?thesis using lz4_Read_take [OF data, of n] by (auto simp: lz4_Read_def)
  next
    case True
    have todo: "lz4_todo r = data" using lz4_todo_eq [OF data(2)] True by simp
    obtain r' where r': "ok (lz4_source r')"
        "if data = [] then lz4_next_block decompress rd r = Ok (False, r') \<and> decompressed r' = decompressed r \<and>
           lz4_stream decompress [] (todo (lz4_source r'))
         else \<exists>rest. lz4_next_block decompress rd r = Ok (True, r') \<and> decompressed r' \<noteq> [] \<and> data = decompressed r' @ rest \<and>
           lz4_stream decompress rest (todo (lz4_source r'))"
      using next_block [OF data] by blast
    show ?thesis
    proof (cases "data = []")
      case Nil: True
      then have next': "lz4_next_block decompress rd r = Ok (False, r')" "decompressed r' = []"
          "lz4_stream decompress [] (todo (lz4_source r'))"
        using r'(2) True by simp_all
      then have "lz4_Read decompress rd r n = Ok ([], r')" "lz4_ok r'" "lz4_todo r' = []"
        using True r'(1) lz4_todo_eq [OF next'(3)] by (auto simp: lz4_Read_def lz4_ok_def)
      then show ?thesis using todo Nil by (intro exI [of _ 0] exI [of _ r']) simp
    next
      case False
      then obtain rest where rest: "lz4_next_block decompress rd r = Ok (True, r')" "decompressed r' \<noteq> []"
          "data = decompressed r' @ rest" "lz4_stream decompress rest (todo (lz4_source r'))"
        using r'(2) by auto
      have "lz4_todo r' = lz4_todo r" using lz4_todo_eq [OF rest(4)] todo rest(3) by simp
      then show ?thesis using lz4_Read_take [OF r'(1) rest(4), of n] True rest(1,2) by (auto simp: lz4_Read_def)
    qed
  qed
qed

subsection \<open>The writer produces the stream\<close>

context byte_writer
begin

text \<open>Two writes after each other at the end of the sink.\<close>

lemma WriteExact_end:
  assumes "wok w" and "at w = length (content w)" and "length (content w @ buf) \<le> capacity"
  shows "\<exists>w'. WriteExact wr buf w = Ok w' \<and> wok w' \<and> at w' = length (content w') \<and> content w' = content w @ buf"
  using WriteExact_spec [OF assms(1), of buf] assms(2,3) by (auto simp: overwrite_end)

lemma WriteExactBinary32_end:
  assumes "wok w" and "at w = length (content w)" and "length (content w) + 4 \<le> capacity"
  shows "\<exists>w'. WriteExactBinary32 wr n w = Ok w' \<and> wok w' \<and> at w' = length (content w') \<and> content w' = content w @ htole32 n"
  using WriteExact_end [OF assms(1,2), of "htole32 n"] assms(3) by (simp add: WriteExactBinary32_def)

text \<open>One write of at least a byte.\<close>

lemma lz4_Write_block:
  fixes w :: "'w lz4_writer" and data :: string and compress :: "string \<Rightarrow> nat \<Rightarrow> string" and bound :: "nat \<Rightarrow> nat"
  defines "b \<equiv> take kLz4LegacyFrameBlockSize data"
  defines "c \<equiv> compress b (bound (length b))"
  defines "out \<equiv> htole32 (length c) @ c @ (if length data \<le> kLz4LegacyFrameBlockSize then htole32 0 else [])"
  assumes "\<not> footer_written w" and "data \<noteq> []" and "c \<noteq> []" and "wok (sink w)" and "at (sink w) = length (content (sink w))"
    and "length (content (sink w) @ out) \<le> capacity"
  shows "\<exists>w'. lz4_Write compress bound wr w data = Ok (of_nat (length b), w') \<and>
    footer_written w' = (length data \<le> kLz4LegacyFrameBlockSize) \<and> wok (sink w') \<and>
    at (sink w') = length (content (sink w')) \<and> content (sink w') = content (sink w) @ out"
proof -
  let ?n = kLz4LegacyFrameBlockSize
  have len: "length b = min (length data) ?n" by (simp add: b_def)
  have pos: "0 < min (length data) ?n" using assms(5) by (simp add: kLz4LegacyFrameBlockSize_def)
  have room: "length (content (sink w)) + 4 + length c + (if length data \<le> ?n then 4 else 0) \<le> capacity"
    using assms(9) by (auto simp: out_def split: if_splits)
  then have "length (content (sink w)) + 4 \<le> capacity" by simp
  then obtain w1 where w1: "WriteExactBinary32 wr (length c) (sink w) = Ok w1" "wok w1" "at w1 = length (content w1)"
      "content w1 = content (sink w) @ htole32 (length c)"
    using WriteExactBinary32_end [OF assms(7,8)] by blast
  then obtain w2 where w2: "WriteExact wr c w1 = Ok w2" "wok w2" "at w2 = length (content w2)"
      "content w2 = content (sink w) @ htole32 (length c) @ c"
    using WriteExact_end [OF w1(2,3), of c] room by auto
  have compressed: "compress (take (min (length data) ?n) data) (bound (min (length data) ?n)) = c"
    unfolding c_def len [symmetric] by (simp add: b_def min_def)
  show ?thesis
  proof (cases "length data \<le> ?n")
    case True
    then obtain w3 where "WriteExactBinary32 wr 0 w2 = Ok w3" "wok w3" "at w3 = length (content w3)"
        "content w3 = content w2 @ htole32 0"
      using WriteExactBinary32_end [OF w2(2,3), of 0] w2(4) room by auto
    then show ?thesis using True compressed pos w1(1) w2(1,4) assms(4,6)
      by (simp add: lz4_Write_def out_def Let_def len del: One_nat_def)
  next
    case False
    then show ?thesis using compressed pos w1(1) w2 assms(4,6)
      by (simp add: lz4_Write_def out_def Let_def len)
  qed
qed

lemma lz4_WriteExact:
  assumes "lz4_codec compress bound decompress"
  shows "data = [] \<or> \<not> footer_written w \<Longrightarrow> wok (sink w) \<Longrightarrow> at (sink w) = length (content (sink w)) \<Longrightarrow>
    length (content (sink w) @ lz4_frames (\<lambda>b. compress b (bound (length b))) data) \<le> capacity \<Longrightarrow>
    \<exists>w'. WriteExact (lz4_Write compress bound wr) data w = Ok w' \<and>
      content (sink w') = content (sink w) @ lz4_frames (\<lambda>b. compress b (bound (length b))) data"
proof (induction "length data" arbitrary: data w rule: less_induct)
  case less
  let ?n = kLz4LegacyFrameBlockSize and ?f = "\<lambda>b. compress b (bound (length b))"
  show ?case
  proof (cases "data = []")
    case True
    then show ?thesis by (simp add: WriteExact.simps lz4_frames.simps)
  next
    case False
    let ?b = "take ?n data"
    let ?out = "htole32 (length (?f ?b)) @ ?f ?b @ (if length data \<le> ?n then htole32 0 else [])"
    have b: "?b \<noteq> []" "length ?b \<le> ?n" using False by (auto simp: kLz4LegacyFrameBlockSize_def)
    have frames: "lz4_frames ?f data = ?out @ lz4_frames ?f (drop ?n data)"
      using False by (subst lz4_frames.simps) (simp add: Let_def lz4_frames.simps [of _ "[]"])
    obtain w1 where w1: "lz4_Write compress bound wr w data = Ok (of_nat (length ?b), w1)"
        "footer_written w1 = (length data \<le> ?n)" "wok (sink w1)" "at (sink w1) = length (content (sink w1))"
        "content (sink w1) = content (sink w) @ ?out"
      using lz4_Write_block [of w data compress bound] False less.prems lz4_codecD(1) [OF assms b] frames by auto
    have u: "unat (of_nat (length ?b) :: u64) = length ?b" using b(2) by (simp add: kLz4LegacyFrameBlockSize_def)
    have nz: "(of_nat (length ?b) :: u64) \<noteq> 0" using u b(1) by (metis length_0_conv unat_0)
    have le: "length ?b \<le> length data" by simp
    have drop: "drop (length ?b) data = drop ?n data" by (simp add: min_def)
    have step: "WriteExact (lz4_Write compress bound wr) data w = WriteExact (lz4_Write compress bound wr) (drop ?n data) w1"
      using w1(1) False nz le by (subst WriteExact.simps) (simp only: bind_result_simps prod.case u drop if_False not_less [symmetric])
    have "length (drop ?n data) < length data" using False by (simp add: kLz4LegacyFrameBlockSize_def)
    then show ?thesis
      using less.hyps [of "drop ?n data" w1] w1(2-5) less.prems(4) frames step by auto
  qed
qed

end

subsection \<open>Ramdisks\<close>

interpretation fd_stream: byte_reader fd_Read "\<lambda>f. drop (file_offset f) (file_bytes f)" fd_ok
  using fd.byte_reader_axioms by (simp add: fd_ops_def)

interpretation fd_lz4: lz4_reading fd_Read "\<lambda>f. drop (file_offset f) (file_bytes f)" fd_ok decompress for decompress
  by unfold_locales

interpretation lz4_to_fd: copying "lz4_Read decompress fd_Read" "fd_lz4.lz4_todo decompress" "fd_lz4.lz4_ok decompress"
  fd_Write file_bytes file_offset fd_ok max_size for decompress
  by unfold_locales

text \<open>The magic number of the frame is not the start of an archive.\<close>

lemma frame_not_cpio: "file_bytes f = htole32 kLz4LegacyFrameMagic @ rest \<Longrightarrow> file_offset f = 0 \<Longrightarrow> \<not> IsCpioArchive f"
  by (simp add: IsCpioArchive_def posix_read_def Let_def htole32_def kLz4LegacyFrameMagic_def char_of_def)

lemma RunLz4_output:
  assumes "lz4_codec compress bound decompress" and "fd_ok input" and "file_offset input = 0"
    and "4 + length (lz4_frames (\<lambda>b. compress b (bound (length b))) (file_bytes input)) \<le> max_size"
  shows "\<exists>out. RunLz4 compress bound input \<lparr>file_bytes = [], file_offset = 0\<rparr> = Some (Ok out) \<and>
    file_bytes out = htole32 kLz4LegacyFrameMagic @ lz4_frames (\<lambda>b. compress b (bound (length b))) (file_bytes input)"
proof -
  let ?e = "\<lparr>file_bytes = [], file_offset = 0\<rparr>"
  obtain w where w: "WriteExactBinary32 fd_Write kLz4LegacyFrameMagic ?e = Ok w" "fd_ok w"
      "file_offset w = length (file_bytes w)" "file_bytes w = htole32 kLz4LegacyFrameMagic"
    using fd_sink.WriteExactBinary32_end [of ?e kLz4LegacyFrameMagic] by (auto simp: fd_ok_def)
  obtain f where f: "ReadToString fd_Read input = Some (Ok (file_bytes input, f))"
    using fd_stream.ReadToString_all [OF assms(2)] assms(3) by auto
  obtain w' where "WriteExact (lz4_Write compress bound fd_Write) (file_bytes input) \<lparr>sink = w, footer_written = False\<rparr> = Ok w'"
      "file_bytes (sink w') = file_bytes w @ lz4_frames (\<lambda>b. compress b (bound (length b))) (file_bytes input)"
    using fd_sink.lz4_WriteExact [OF assms(1), of "file_bytes input" "\<lparr>sink = w, footer_written = False\<rparr>"] w assms(4) by auto
  then show ?thesis using w f by (simp add: RunLz4_def Lz4LegacyWriter_def)
qed

lemma run_cpio_ends:
  assumes "cpio_reads cpio"
  shows "\<exists>k d'. k \<le> length (file_bytes f) - file_offset f \<and> cpio_runs cpio f d k = Some d' \<and> run_cpio cpio f d = Some d'"
proof (induction "length (file_bytes f) - file_offset f" arbitrary: f d rule: less_induct)
  case less
  obtain st f' d' where c: "cpio f d = (st, f', d')" by (cases "cpio f d") auto
  show ?case
  proof (cases "st = 0")
    case True
    then have r: "file_bytes f' = file_bytes f" "file_offset f < file_offset f'" "file_offset f' \<le> length (file_bytes f)"
      using assms c unfolding cpio_reads_def by blast+
    then have "length (file_bytes f') - file_offset f' < length (file_bytes f) - file_offset f" by simp
    from less [OF this, of d'] obtain k d'' where "k \<le> length (file_bytes f) - file_offset f'" "cpio_runs cpio f' d' k = Some d''"
        "run_cpio cpio f' d' = Some d''"
      unfolding r(1) by blast
    then show ?thesis using c True r by (intro exI [of _ "Suc k"]) (simp add: run_cpio.simps [of _ f])
  next
    case False
    then show ?thesis using c by (intro exI [of _ 0]) (simp add: run_cpio.simps [of _ f])
  qed
qed

lemma fill_archive_output:
  assumes "lz4_stream decompress data stream" and "file_bytes f = htole32 kLz4LegacyFrameMagic @ stream" and "file_offset f = 0"
    and "fd_ok f" and "length data \<le> max_size"
  shows "\<exists>out. fill_archive decompress f \<lparr>file_bytes = [], file_offset = 0\<rparr> = Some (Ok out) \<and> file_bytes out = data"
proof -
  let ?e = "\<lparr>file_bytes = [], file_offset = 0\<rparr>"
  obtain s where s: "ReadExact fd_Read 4 f = Ok (htole32 kLz4LegacyFrameMagic, s)" "fd_ok s"
      "drop (file_offset s) (file_bytes s) = stream"
    using fd_stream.ReadExact_spec [OF assms(4), of 4] assms(2,3) by (auto simp: htole32_def)
  have "kLz4LegacyFrameMagic < 2 ^ 32" by (simp add: kLz4LegacyFrameMagic_def)
  then have reader: "Lz4LegacyReader fd_Read f = Ok \<lparr>lz4_source = s, decompressed = []\<rparr>"
    using s(1) le32toh_htole32 by (simp add: Lz4LegacyReader_def ReadExactBinary32_def)
  let ?r = "\<lparr>lz4_source = s, decompressed = []\<rparr>"
  have ok: "fd_lz4.lz4_ok decompress ?r" using assms(1) s(2,3) by (auto simp: fd_lz4.lz4_ok_def)
  have todo: "fd_lz4.lz4_todo decompress ?r = data" using fd_lz4.lz4_todo_eq [of decompress data ?r] assms(1) s(3) by simp
  obtain r' w' where "Copy (lz4_Read decompress fd_Read) fd_Write ?r ?e = Some (Ok (r', w'))" "file_bytes w' = data"
    using lz4_to_fd.Copy_spec [OF ok, of ?e] todo assms(5) by (auto simp: fd_ok_def overwrite_def)
  then show ?thesis using frame_not_cpio [OF assms(2,3)] reader by (simp add: fill_archive_def)
qed

text \<open>
  C24: Compressing an archive into a new file (\<^verbatim>\<open>RunLz4\<close>) and unpacking that file (\<^verbatim>\<open>UnpackRamdisk\<close>) both
  end and give back the archive, of any length: one block or many, a last block that is full, or an
  empty archive, for which no frame is written. The output is the magic number, the blocks with their
  lengths and the closing zero. The unpacking then fails when the directory cannot be made, and otherwise
  runs \<^verbatim>\<open>cpio\<close> on the archive until the first run that fails, at most once per byte of the archive and once
  more, and leaves the directory of that run. Of the LZ4 library the theorem uses that decompressing a
  compressed block gives the block, and of \<^verbatim>\<open>cpio\<close> that a run that succeeds has read on in the archive.
\<close>

theorem ramdisk_packed_and_unpacked:
  assumes "lz4_codec compress bound decompress" and "fd_ok input" and "file_offset input = 0"
    and "4 + length (lz4_frames (\<lambda>b. compress b (bound (length b))) (file_bytes input)) \<le> max_size"
    and "cpio_reads cpio"
  shows "\<exists>packed archive.
    RunLz4 compress bound input \<lparr>file_bytes = [], file_offset = 0\<rparr> = Some (Ok packed) \<and>
    file_bytes packed = htole32 kLz4LegacyFrameMagic @ lz4_frames (\<lambda>b. compress b (bound (length b))) (file_bytes input) \<and>
    file_bytes archive = file_bytes input \<and>
    (\<forall>e d'. mkdirs d = (Err e, d') \<longrightarrow>
       UnpackRamdisk decompress mkdirs cpio (packed\<lparr>file_offset := 0\<rparr>) \<lparr>file_bytes = [], file_offset = 0\<rparr> d = Some (Err e)) \<and>
    (\<forall>d'. mkdirs d = (Ok (), d') \<longrightarrow> (\<exists>k\<le>length (file_bytes input). \<exists>d''.
       cpio_runs cpio (archive\<lparr>file_offset := 0\<rparr>) d' k = Some d'' \<and>
       UnpackRamdisk decompress mkdirs cpio (packed\<lparr>file_offset := 0\<rparr>) \<lparr>file_bytes = [], file_offset = 0\<rparr> d =
         Some (Ok (archive, d''))))"
proof -
  obtain packed where packed: "RunLz4 compress bound input \<lparr>file_bytes = [], file_offset = 0\<rparr> = Some (Ok packed)"
      "file_bytes packed = htole32 kLz4LegacyFrameMagic @ lz4_frames (\<lambda>b. compress b (bound (length b))) (file_bytes input)"
    using RunLz4_output [OF assms(1-4)] by blast
  have "fd_ok (packed\<lparr>file_offset := 0\<rparr>)" "length (file_bytes input) \<le> max_size"
    using packed(2) assms(2,4) by (simp_all add: fd_ok_def)
  then obtain archive where fill: "file_bytes archive = file_bytes input"
      "fill_archive decompress (packed\<lparr>file_offset := 0\<rparr>) \<lparr>file_bytes = [], file_offset = 0\<rparr> = Some (Ok archive)"
    using fill_archive_output [OF lz4_frames_stream [OF assms(1), of "file_bytes input"], of "packed\<lparr>file_offset := 0\<rparr>"] packed(2)
    by auto
  have "\<exists>k\<le>length (file_bytes input). \<exists>d''. cpio_runs cpio (archive\<lparr>file_offset := 0\<rparr>) d' k = Some d'' \<and>
      run_cpio cpio (archive\<lparr>file_offset := 0\<rparr>) d' = Some d''" for d'
    using run_cpio_ends [OF assms(5), of "archive\<lparr>file_offset := 0\<rparr>" d'] fill(1) by auto
  then show ?thesis
    using packed fill by (intro exI [of _ packed] exI [of _ archive]) (auto simp: UnpackRamdisk_def)
qed

text \<open>
  A reader of archives of three bytes each, which lists what it reads, for an archive file that is two
  archives one after the other.
\<close>

definition cpio_of_three :: "posix_file \<Rightarrow> string list \<Rightarrow> int \<times> posix_file \<times> string list" where
  "cpio_of_three f d =
     (if file_offset f + 3 \<le> length (file_bytes f)
      then (0, f\<lparr>file_offset := file_offset f + 3\<rparr>, d @ [take 3 (drop (file_offset f) (file_bytes f))]) else (2, f, d))"

lemma cpio_of_three_runs:
  assumes "cpio_runs cpio_of_three f [] k = Some d" and "file_bytes f = ''abcdef''" and "file_offset f = 0"
  shows "d = [''abc'', ''def'']"
  using assms by (cases k; cases "k - 1"; cases "k - 2") (auto simp: cpio_of_three_def)

theorem ramdisk_packed_and_unpacked_witness:
  "\<exists>packed archive.
    RunLz4 (\<lambda>b _. b) id \<lparr>file_bytes = ''abcdef'', file_offset = 0\<rparr> \<lparr>file_bytes = [], file_offset = 0\<rparr> = Some (Ok packed) \<and>
    file_bytes packed = htole32 kLz4LegacyFrameMagic @ htole32 6 @ ''abcdef'' @ htole32 0 \<and>
    UnpackRamdisk (\<lambda>c buf. (int (length c), c @ drop (length c) buf)) (\<lambda>d. (Ok (), d)) cpio_of_three (packed\<lparr>file_offset := 0\<rparr>)
      \<lparr>file_bytes = [], file_offset = 0\<rparr> [] = Some (Ok (archive, [''abc'', ''def''])) \<and>
    file_bytes archive = ''abcdef''"
proof -
  let ?in = "\<lparr>file_bytes = ''abcdef'', file_offset = 0\<rparr>" and ?out = "\<lparr>file_bytes = [], file_offset = 0\<rparr>"
  let ?safe = "\<lambda>c buf. (int (length c), c @ drop (length c) buf)"
  have codec: "lz4_codec (\<lambda>b _. b) id ?safe" by (auto simp: lz4_codec_def Let_def kLz4LegacyFrameBlockSize_def)
  have frames: "lz4_frames (\<lambda>b. b) ''abcdef'' = htole32 6 @ ''abcdef'' @ htole32 0"
    by (subst lz4_frames.simps) (simp add: kLz4LegacyFrameBlockSize_def Let_def, simp add: numeral_eq_Suc)
  have fits: "4 + length (lz4_frames (\<lambda>b. b) (file_bytes ?in)) \<le> max_size" by (simp add: frames)
  have cpio: "cpio_reads cpio_of_three" by (simp add: cpio_reads_def cpio_of_three_def)
  obtain packed archive k d where "RunLz4 (\<lambda>b _. b) id ?in ?out = Some (Ok packed)"
      "file_bytes packed = htole32 kLz4LegacyFrameMagic @ lz4_frames (\<lambda>b. b) ''abcdef''" "file_bytes archive = ''abcdef''"
      "cpio_runs cpio_of_three (archive\<lparr>file_offset := 0\<rparr>) [] k = Some d"
      "UnpackRamdisk ?safe (\<lambda>d. (Ok (), d)) cpio_of_three (packed\<lparr>file_offset := 0\<rparr>) ?out [] = Some (Ok (archive, d))"
    using ramdisk_packed_and_unpacked [OF codec _ _ fits cpio, of "\<lambda>d. (Ok (), d)" "[]"] by (force simp: fd_ok_def)
  moreover from this have "d = [''abc'', ''def'']" using cpio_of_three_runs [of "archive\<lparr>file_offset := 0\<rparr>" k d] by simp
  ultimately show ?thesis by (simp add: frames)
qed

end
