(* ===== verification/Chroot_Filesystem.thy ===== *)
theory Chroot_Filesystem
  imports Io_Copy
begin

section \<open>Filesystems in memory and below a prefix\<close>

text \<open>
  The interface \<^verbatim>\<open>io/filesystem.h\<close>, its implementation in \<^verbatim>\<open>io/in_memory.cc\<close> and the wrapper of
  \<^verbatim>\<open>io/chroot.cc\<close>, which maps the paths of its callers below a prefix of another filesystem.
\<close>

record ('f, 'h) filesystem_ops =
  OpenReadOnly :: "'f \<Rightarrow> string \<Rightarrow> 'h result"
  FileAttributes :: "'f \<Rightarrow> string \<Rightarrow> nat result"
  CreateFile :: "'f \<Rightarrow> string \<Rightarrow> ('h \<times> 'f) result"
  DeleteFile :: "'f \<Rightarrow> string \<Rightarrow> 'f result"
  OpenReadWrite :: "'f \<Rightarrow> string \<Rightarrow> 'h result"

subsection \<open>The filesystem in memory\<close>

text \<open>
  The map owns the vectors of its files. An open file refers to the vector, not to the path: what is
  behind the reference after the file was deleted is gone, and using it is undefined.
\<close>

record mem_fs =
  files :: "string \<rightharpoonup> nat"
  vectors :: "nat \<rightharpoonup> string"
  next_vector :: nat

record open_file =
  vector :: nat
  file_cursor :: u64

definition InMemoryFilesystem :: mem_fs where
  "InMemoryFilesystem = \<lparr>files = Map.empty, vectors = Map.empty, next_vector = 0\<rparr>"

definition mem_OpenReadWrite :: "mem_fs \<Rightarrow> string \<Rightarrow> open_file result" where
  "mem_OpenReadWrite fs path =
     (case files fs path of None \<Rightarrow> Err Cf_Error | Some v \<Rightarrow> Ok \<lparr>vector = v, file_cursor = 0\<rparr>)"

definition mem_OpenReadOnly :: "mem_fs \<Rightarrow> string \<Rightarrow> open_file result" where
  "mem_OpenReadOnly fs path = mem_OpenReadWrite fs path"

definition mem_FileAttributes :: "mem_fs \<Rightarrow> string \<Rightarrow> nat result" where
  "mem_FileAttributes fs path = Ok (6 * 8 ^ 2 + 4 * 8 + 4)"

definition mem_CreateFile :: "mem_fs \<Rightarrow> string \<Rightarrow> (open_file \<times> mem_fs) result" where
  "mem_CreateFile fs path =
     (let v = next_vector fs
      in if files fs path \<noteq> None then Err Cf_Error
         else Ok (\<lparr>vector = v, file_cursor = 0\<rparr>,
                  fs\<lparr>files := (files fs)(path \<mapsto> v), vectors := (vectors fs)(v \<mapsto> []), next_vector := v + 1\<rparr>))"

definition mem_DeleteFile :: "mem_fs \<Rightarrow> string \<Rightarrow> mem_fs result" where
  "mem_DeleteFile fs path =
     (case files fs path of
        None \<Rightarrow> Err Cf_Error
      | Some v \<Rightarrow> Ok (fs\<lparr>files := (files fs)(path := None), vectors := (vectors fs)(v := None)\<rparr>))"

definition mem_fs_ops :: "(mem_fs, open_file) filesystem_ops" where
  "mem_fs_ops = \<lparr>OpenReadOnly = mem_OpenReadOnly, FileAttributes = mem_FileAttributes, CreateFile = mem_CreateFile,
     DeleteFile = mem_DeleteFile, OpenReadWrite = mem_OpenReadWrite\<rparr>"

text \<open>Any operation of \<^verbatim>\<open>InMemoryIo\<close> on an open file.\<close>

definition on_file :: "(mem_io \<Rightarrow> ('a \<times> mem_io) result) \<Rightarrow> open_file \<times> mem_fs \<Rightarrow> ('a \<times> open_file \<times> mem_fs) result" where
  "on_file oper hf =
     (case vectors (snd hf) (vector (fst hf)) of
        None \<Rightarrow> Err Undefined_Behaviour
      | Some d \<Rightarrow> bind_result (oper \<lparr>mem_data = d, cursor = file_cursor (fst hf)\<rparr>) (\<lambda>(x, io).
          Ok (x, (fst hf)\<lparr>file_cursor := cursor io\<rparr>,
              (snd hf)\<lparr>vectors := (vectors (snd hf))(vector (fst hf) \<mapsto> mem_data io)\<rparr>)))"

definition file_Read :: "open_file \<times> mem_fs \<Rightarrow> u64 \<Rightarrow> (string \<times> open_file \<times> mem_fs) result" where
  "file_Read hf n = on_file (\<lambda>io. mem_Read io n) hf"

definition file_Write :: "open_file \<times> mem_fs \<Rightarrow> string \<Rightarrow> (u64 \<times> open_file \<times> mem_fs) result" where
  "file_Write hf buf = on_file (\<lambda>io. mem_Write io buf) hf"

subsection \<open>Paths below a prefix\<close>

text \<open>\<^verbatim>\<open>absl::StrSplit\<close> at slashes, without empty pieces, and \<^verbatim>\<open>absl::StrJoin\<close>.\<close>

fun split_slash :: "string \<Rightarrow> string list" where
  "split_slash [] = [[]]"
| "split_slash (c # cs) =
     (if c = CHR ''/'' then [] # split_slash cs else (c # hd (split_slash cs)) # tl (split_slash cs))"

definition path_members :: "string \<Rightarrow> string list" where
  "path_members path = filter (\<lambda>m. m \<noteq> []) (split_slash path)"

fun join_slash :: "string list \<Rightarrow> string" where
  "join_slash [] = []"
| "join_slash [m] = m"
| "join_slash (m # ms) = m @ ''/'' @ join_slash ms"

text \<open>The loop over the list of members: those before the iterator, last one first, and those from it on.\<close>

fun normalize_members :: "string list \<Rightarrow> string list \<Rightarrow> string list" where
  "normalize_members before [] = rev before"
| "normalize_members before (m # ms) =
     (if m = ''.'' then normalize_members before ms
      else if m = ''..'' then normalize_members (if before \<noteq> [] then tl before else before) ms
      else normalize_members (m # before) ms)"

definition ChrootToRealPath :: "string \<Rightarrow> string \<Rightarrow> string result" where
  "ChrootToRealPath path_prefix path =
     (if take 1 path \<noteq> ''/'' then Err Cf_Error
      else Ok (path_prefix @ ''/'' @ join_slash (normalize_members [] (path_members path))))"

definition chroot_ops :: "string \<Rightarrow> ('f, 'h) filesystem_ops \<Rightarrow> ('f, 'h) filesystem_ops" where
  "chroot_ops path_prefix ops =
     \<lparr>OpenReadOnly = (\<lambda>fs path. bind_result (ChrootToRealPath path_prefix path) (OpenReadOnly ops fs)),
      FileAttributes = (\<lambda>fs path. bind_result (ChrootToRealPath path_prefix path) (FileAttributes ops fs)),
      CreateFile = (\<lambda>fs path. bind_result (ChrootToRealPath path_prefix path) (CreateFile ops fs)),
      DeleteFile = (\<lambda>fs path. bind_result (ChrootToRealPath path_prefix path) (DeleteFile ops fs)),
      OpenReadWrite = (\<lambda>fs path. bind_result (ChrootToRealPath path_prefix path) (OpenReadWrite ops fs))\<rparr>"

subsection \<open>Normal paths\<close>

definition clean :: "string \<Rightarrow> bool" where
  "clean m \<longleftrightarrow> m \<noteq> [] \<and> m \<noteq> ''.'' \<and> m \<noteq> ''..'' \<and> CHR ''/'' \<notin> set m"

lemma split_slash_ne [simp]: "split_slash s \<noteq> []"
  by (induction s) auto

lemma split_slash_no_slash: "m \<in> set (split_slash s) \<Longrightarrow> CHR ''/'' \<notin> set m"
proof (induction s arbitrary: m)
  case (Cons c cs)
  have hd: "CHR ''/'' \<notin> set (hd (split_slash cs))" using Cons.IH [of "hd (split_slash cs)"] by simp
  have tl: "m \<in> set (tl (split_slash cs)) \<Longrightarrow> m \<in> set (split_slash cs)" by (meson list.set_sel(2) split_slash_ne)
  show ?case using Cons hd tl by (auto split: if_splits)
qed simp

lemma split_slash_append: "CHR ''/'' \<notin> set m \<Longrightarrow> split_slash (m @ CHR ''/'' # s) = m # split_slash s"
  by (induction m) auto

lemma split_slash_single: "CHR ''/'' \<notin> set m \<Longrightarrow> split_slash m = [m]"
  by (induction m) auto

lemma split_join: "ms \<noteq> [] \<Longrightarrow> \<forall>m\<in>set ms. CHR ''/'' \<notin> set m \<Longrightarrow> split_slash (join_slash ms) = ms"
  by (induction ms rule: join_slash.induct) (auto simp: split_slash_append split_slash_single)

lemma members_of_join: "\<forall>m\<in>set ms. clean m \<Longrightarrow> path_members (CHR ''/'' # join_slash ms) = ms"
proof (cases "ms = []")
  case False
  assume "\<forall>m\<in>set ms. clean m"
  then show ?thesis using split_join [OF False] by (auto simp: path_members_def clean_def filter_id_conv)
qed (simp add: path_members_def)

lemma normalize_clean: "\<forall>m\<in>set before. clean m \<Longrightarrow> \<forall>m\<in>set ms. m \<noteq> [] \<and> CHR ''/'' \<notin> set m \<Longrightarrow>
  \<forall>m\<in>set (normalize_members before ms). clean m"
proof (induction before ms rule: normalize_members.induct)
  case (2 before m ms)
  have up: "\<forall>x\<in>set (if before \<noteq> [] then tl before else before). clean x"
    using "2.prems"(1) by (cases before) auto
  have rest: "\<forall>m\<in>set ms. m \<noteq> [] \<and> CHR ''/'' \<notin> set m" using "2.prems"(2) by simp
  consider (dot) "m = ''.''" | (dots) "m = ''..''" | (name) "m \<noteq> ''.''" "m \<noteq> ''..''" by blast
  then show ?case
  proof cases
    case dot
    then show ?thesis using "2.IH"(1) [OF dot "2.prems"(1) rest] by (simp only: normalize_members.simps if_True simp_thms)
  next
    case dots
    then have "m \<noteq> ''.''" by simp
    from "2.IH"(2) [OF this dots up rest] this dots show ?thesis by (simp only: normalize_members.simps if_True if_False simp_thms)
  next
    case name
    then have "\<forall>x\<in>set (m # before). clean x" using "2.prems" by (simp add: clean_def)
    from "2.IH"(3) [OF name this rest] show ?thesis
      using name by (simp only: normalize_members.simps if_False simp_thms)
  qed
qed simp

lemma normalize_of_clean: "\<forall>m\<in>set ms. clean m \<Longrightarrow> normalize_members before ms = rev before @ ms"
  by (induction ms arbitrary: before) (auto simp: clean_def)

lemma path_members_ok: "m \<in> set (path_members path) \<Longrightarrow> m \<noteq> [] \<and> CHR ''/'' \<notin> set m"
  using split_slash_no_slash by (auto simp: path_members_def)

text \<open>The real path of an absolute path is the prefix and members that go neither up nor nowhere.\<close>

lemma real_path_clean:
  assumes "ChrootToRealPath path_prefix path = Ok real"
  obtains ms where "real = path_prefix @ ''/'' @ join_slash ms" "\<forall>m\<in>set ms. clean m"
    "ms = normalize_members [] (path_members path)"
  using assms normalize_clean [of "[]" "path_members path"] path_members_ok that
  by (auto simp: ChrootToRealPath_def split: if_splits)

lemma real_path_again: "ChrootToRealPath '''' path = Ok p \<Longrightarrow> ChrootToRealPath path_prefix p = ChrootToRealPath path_prefix path"
proof -
  assume ok: "ChrootToRealPath '''' path = Ok p"
  then obtain ms where ms: "p = ''/'' @ join_slash ms" "\<forall>m\<in>set ms. clean m" "ms = normalize_members [] (path_members path)"
    by (auto elim: real_path_clean)
  then have "normalize_members [] (path_members p) = ms"
    using normalize_of_clean [of ms "[]"] members_of_join by simp
  then show ?thesis using ok ms by (auto simp: ChrootToRealPath_def split: if_splits)
qed

subsection \<open>What a filesystem promises\<close>

text \<open>
  A path that is accepted names at most one file. Some paths name the same file whatever the
  filesystem holds; creating and deleting by one of them changes what they name, and nothing else.
\<close>

locale filesystem =
  fixes ops :: "('f, 'h) filesystem_ops"
    and valid :: "string \<Rightarrow> bool"
    and same :: "string \<Rightarrow> string \<Rightarrow> bool"
    and file_at :: "'f \<Rightarrow> string \<Rightarrow> nat option"
    and contents :: "'f \<Rightarrow> nat \<Rightarrow> string option"
    and handle :: "nat \<Rightarrow> 'h"
    and ok :: "'f \<Rightarrow> bool"
  assumes same_refl: "valid p \<Longrightarrow> same p p"
    and same_file: "same p q \<Longrightarrow> file_at f p = file_at f q"
    and exists: "ok f \<Longrightarrow> file_at f p = Some v \<Longrightarrow> contents f v \<noteq> None"
    and invalid: "\<not> valid p \<Longrightarrow> file_at f p = None \<and> CreateFile ops f p = Err Cf_Error"
    and create_old: "file_at f p = Some v \<Longrightarrow> CreateFile ops f p = Err Cf_Error"
    and create_new: "ok f \<Longrightarrow> valid p \<Longrightarrow> file_at f p = None \<Longrightarrow>
      \<exists>f' v. CreateFile ops f p = Ok (handle v, f') \<and> ok f' \<and> contents f v = None \<and> contents f' = (contents f)(v \<mapsto> []) \<and>
        file_at f' = (\<lambda>q. if same p q then Some v else file_at f q)"
    and open_law: "OpenReadWrite ops f p = (case file_at f p of None \<Rightarrow> Err Cf_Error | Some v \<Rightarrow> Ok (handle v))"
    and read_only_law: "OpenReadOnly ops f p = OpenReadWrite ops f p"
    and delete_none: "file_at f p = None \<Longrightarrow> DeleteFile ops f p = Err Cf_Error"
    and delete_law: "ok f \<Longrightarrow> file_at f p = Some v \<Longrightarrow>
      \<exists>f'. DeleteFile ops f p = Ok f' \<and> ok f' \<and> contents f' = (contents f)(v := None) \<and>
        file_at f' = (\<lambda>q. if same p q then None else file_at f q)"
begin

text \<open>A file that is created is opened by every path that names it, until it is deleted by one.\<close>

lemma create_open_delete:
  assumes "ok f" and "valid p" and "file_at f p = None" and "same p q" and "same q p" and "\<not> same p r"
  shows "\<exists>v f' f''. CreateFile ops f p = Ok (handle v, f') \<and> OpenReadWrite ops f' q = Ok (handle v) \<and>
    OpenReadOnly ops f' q = Ok (handle v) \<and> CreateFile ops f' q = Err Cf_Error \<and>
    OpenReadWrite ops f' r = OpenReadWrite ops f r \<and>
    DeleteFile ops f' q = Ok f'' \<and> OpenReadWrite ops f'' p = Err Cf_Error \<and> contents f'' = contents f"
proof -
  obtain f' v where f': "CreateFile ops f p = Ok (handle v, f')" "ok f'" "contents f v = None" "contents f' = (contents f)(v \<mapsto> [])"
      "file_at f' = (\<lambda>q. if same p q then Some v else file_at f q)"
    using create_new [OF assms(1-3)] by blast
  then have q: "file_at f' q = Some v" and r: "file_at f' r = file_at f r" using assms(4,6) by simp_all
  obtain f'' where f'': "DeleteFile ops f' q = Ok f''" "contents f'' = (contents f')(v := None)"
      "file_at f'' = (\<lambda>p. if same q p then None else file_at f' p)"
    using delete_law [OF f'(2) q] by blast
  have "contents f'' = contents f" using f'(3,4) f''(2) by auto
  then show ?thesis using f'(1) f''(1,3) assms(5) q r create_old [OF q]
    by (intro exI [of _ v] exI [of _ f'] exI [of _ f'']) (simp add: open_law read_only_law)
qed

end

subsection \<open>The filesystem in memory keeps the promise\<close>

definition mem_fs_ok :: "mem_fs \<Rightarrow> bool" where
  "mem_fs_ok fs \<longleftrightarrow> (\<forall>p v. files fs p = Some v \<longrightarrow> vectors fs v \<noteq> None) \<and>
     (\<forall>p q v. files fs p = Some v \<longrightarrow> files fs q = Some v \<longrightarrow> p = q) \<and> (\<forall>v\<ge>next_vector fs. vectors fs v = None)"

lemma InMemoryFilesystem_ok: "mem_fs_ok InMemoryFilesystem"
  by (simp add: mem_fs_ok_def InMemoryFilesystem_def)

lemma mem_fs_okD:
  assumes "mem_fs_ok fs"
  shows "files fs p = Some v \<Longrightarrow> vectors fs v \<noteq> None" and "files fs p = Some v \<Longrightarrow> files fs q = Some v \<Longrightarrow> p = q"
    and "vectors fs (next_vector fs) = None" and "files fs p \<noteq> Some (next_vector fs)"
  using assms unfolding mem_fs_ok_def by (blast, blast, blast, metis order_refl)

lemma CreateFile_ok:
  assumes "mem_fs_ok fs" and "mem_CreateFile fs p = Ok (h, fs')"
  shows "mem_fs_ok fs'"
proof -
  have fs': "fs' = fs\<lparr>files := (files fs)(p \<mapsto> next_vector fs), vectors := (vectors fs)(next_vector fs \<mapsto> []),
      next_vector := next_vector fs + 1\<rparr>"
    using assms(2) by (auto simp: mem_CreateFile_def Let_def split: if_splits)
  have new: "files fs' q = Some v \<longleftrightarrow> (if q = p then v = next_vector fs else files fs q = Some v)" for q v
    by (auto simp: fs')
  show ?thesis unfolding mem_fs_ok_def
  proof (intro conjI allI impI)
    fix q r v
    assume q: "files fs' q = Some v"
    then show "vectors fs' v \<noteq> None" using mem_fs_okD(1) [OF assms(1), of q v] by (auto simp: fs' split: if_splits)
    assume "files fs' r = Some v"
    then show "q = r" using q mem_fs_okD(2) [OF assms(1), of q v r] mem_fs_okD(4) [OF assms(1)] unfolding new by metis
  next
    fix v
    assume "next_vector fs' \<le> v"
    then show "vectors fs' v = None" using assms(1) by (simp add: fs' mem_fs_ok_def)
  qed
qed

lemma DeleteFile_ok:
  assumes "mem_fs_ok fs" and "mem_DeleteFile fs p = Ok fs'"
  shows "mem_fs_ok fs'"
proof -
  obtain v where v: "files fs p = Some v" "fs' = fs\<lparr>files := (files fs)(p := None), vectors := (vectors fs)(v := None)\<rparr>"
    using assms(2) by (auto simp: mem_DeleteFile_def split: option.splits)
  have old: "files fs' q = Some w \<Longrightarrow> files fs q = Some w \<and> q \<noteq> p" for q w by (auto simp: v(2) split: if_splits)
  show ?thesis unfolding mem_fs_ok_def
  proof (intro conjI allI impI)
    fix q r w
    assume q: "files fs' q = Some w"
    then have "w \<noteq> v" using old v(1) mem_fs_okD(2) [OF assms(1)] by blast
    then show "vectors fs' w \<noteq> None" using old [OF q] mem_fs_okD(1) [OF assms(1), of q w] by (simp add: v(2))
    assume "files fs' r = Some w"
    then show "q = r" using q old mem_fs_okD(2) [OF assms(1)] by blast
  next
    fix w
    assume "next_vector fs' \<le> w"
    then show "vectors fs' w = None" using assms(1) by (simp add: v(2) mem_fs_ok_def)
  qed
qed

interpretation mem_files: filesystem mem_fs_ops "\<lambda>_. True" "(=)" files vectors "\<lambda>v. \<lparr>vector = v, file_cursor = 0\<rparr>" mem_fs_ok
proof
  fix fs p v
  show "mem_fs_ok fs \<Longrightarrow> files fs p = Some v \<Longrightarrow> vectors fs v \<noteq> None" by (rule mem_fs_okD(1))
  show "\<exists>f' v. CreateFile mem_fs_ops fs p = Ok (\<lparr>vector = v, file_cursor = 0\<rparr>, f') \<and> mem_fs_ok f' \<and> vectors fs v = None \<and>
      vectors f' = (vectors fs)(v \<mapsto> []) \<and> files f' = (\<lambda>q. if p = q then Some v else files fs q)"
    if fs: "mem_fs_ok fs" and none: "files fs p = None"
  proof -
    obtain f' where f': "mem_CreateFile fs p = Ok (\<lparr>vector = next_vector fs, file_cursor = 0\<rparr>, f')"
        "vectors f' = (vectors fs)(next_vector fs \<mapsto> [])" "files f' = (files fs)(p \<mapsto> next_vector fs)"
      using none by (simp add: mem_CreateFile_def Let_def)
    then show ?thesis using CreateFile_ok [OF fs f'(1)] mem_fs_okD(3) [OF fs]
      by (intro exI [of _ f'] exI [of _ "next_vector fs"]) (auto simp: mem_fs_ops_def)
  qed
  show "\<exists>f'. DeleteFile mem_fs_ops fs p = Ok f' \<and> mem_fs_ok f' \<and> vectors f' = (vectors fs)(v := None) \<and>
      files f' = (\<lambda>q. if p = q then None else files fs q)"
    if "mem_fs_ok fs" "files fs p = Some v"
    using that DeleteFile_ok [OF that(1), of p] by (auto simp: mem_fs_ops_def mem_DeleteFile_def)
qed (simp_all add: mem_fs_ops_def mem_OpenReadOnly_def mem_OpenReadWrite_def mem_CreateFile_def mem_DeleteFile_def split: option.splits)

subsection \<open>A prefix of a filesystem is a filesystem\<close>

locale chroot = filesystem ops valid same file_at contents handle ok
  for ops :: "('f, 'h) filesystem_ops" and valid same file_at contents handle ok +
  fixes path_prefix :: string
  assumes prefix_valid: "ChrootToRealPath path_prefix p = Ok real \<Longrightarrow> valid real"
begin

definition real_path :: "string \<Rightarrow> string option" where
  "real_path p = (case ChrootToRealPath path_prefix p of Inl _ \<Rightarrow> None | Inr real \<Rightarrow> Some real)"

definition chroot_same :: "string \<Rightarrow> string \<Rightarrow> bool" where
  "chroot_same p q \<longleftrightarrow> (\<exists>p' q'. real_path p = Some p' \<and> real_path q = Some q' \<and> same p' q')"

definition chroot_file_at :: "'f \<Rightarrow> string \<Rightarrow> nat option" where
  "chroot_file_at f p = (case real_path p of None \<Rightarrow> None | Some real \<Rightarrow> file_at f real)"

lemma real_path_cases:
  obtains (relative) "real_path p = None" "ChrootToRealPath path_prefix p = Err Cf_Error"
  | (absolute) real where "real_path p = Some real" "ChrootToRealPath path_prefix p = Ok real" "valid real"
  by (cases "ChrootToRealPath path_prefix p")
     (use prefix_valid in \<open>auto simp: real_path_def ChrootToRealPath_def split: if_splits\<close>)

end

sublocale chroot \<subseteq> inside: filesystem "chroot_ops path_prefix ops" "\<lambda>p. real_path p \<noteq> None" chroot_same chroot_file_at contents handle ok
proof
  fix f p q v
  show "real_path p \<noteq> None \<Longrightarrow> chroot_same p p" by (cases p rule: real_path_cases) (auto simp: chroot_same_def same_refl)
  show "chroot_same p q \<Longrightarrow> chroot_file_at f p = chroot_file_at f q" by (auto simp: chroot_same_def chroot_file_at_def same_file)
  show "ok f \<Longrightarrow> chroot_file_at f p = Some v \<Longrightarrow> contents f v \<noteq> None"
    using exists by (auto simp: chroot_file_at_def split: option.splits)
  show "\<not> real_path p \<noteq> None \<Longrightarrow> chroot_file_at f p = None \<and> CreateFile (chroot_ops path_prefix ops) f p = Err Cf_Error"
    by (cases p rule: real_path_cases) (auto simp: chroot_file_at_def chroot_ops_def)
  show "chroot_file_at f p = Some v \<Longrightarrow> CreateFile (chroot_ops path_prefix ops) f p = Err Cf_Error"
    by (cases p rule: real_path_cases) (auto simp: chroot_file_at_def chroot_ops_def create_old)
  show "OpenReadWrite (chroot_ops path_prefix ops) f p =
      (case chroot_file_at f p of None \<Rightarrow> Err Cf_Error | Some v \<Rightarrow> Ok (handle v))"
    by (cases p rule: real_path_cases) (auto simp: chroot_file_at_def chroot_ops_def open_law)
  show "OpenReadOnly (chroot_ops path_prefix ops) f p = OpenReadWrite (chroot_ops path_prefix ops) f p"
    by (cases p rule: real_path_cases) (auto simp: chroot_ops_def read_only_law)
  show "chroot_file_at f p = None \<Longrightarrow> DeleteFile (chroot_ops path_prefix ops) f p = Err Cf_Error"
    by (cases p rule: real_path_cases) (auto simp: chroot_file_at_def chroot_ops_def delete_none)
  show "\<exists>f' v. CreateFile (chroot_ops path_prefix ops) f p = Ok (handle v, f') \<and> ok f' \<and> contents f v = None \<and>
      contents f' = (contents f)(v \<mapsto> []) \<and> chroot_file_at f' = (\<lambda>q. if chroot_same p q then Some v else chroot_file_at f q)"
    if f: "ok f" and real: "real_path p \<noteq> None" and none: "chroot_file_at f p = None"
  proof (cases p rule: real_path_cases)
    case (absolute real)
    then obtain f' v where f': "CreateFile ops f real = Ok (handle v, f')" "ok f'" "contents f v = None"
        "contents f' = (contents f)(v \<mapsto> [])" "file_at f' = (\<lambda>q. if same real q then Some v else file_at f q)"
      using create_new [OF f absolute(3)] none by (auto simp: chroot_file_at_def)
    have "chroot_file_at f' = (\<lambda>q. if chroot_same p q then Some v else chroot_file_at f q)"
      using f'(5) absolute(1) by (auto simp: chroot_file_at_def chroot_same_def fun_eq_iff split: option.splits)
    then show ?thesis using f' absolute(2) by (auto simp: chroot_ops_def)
  qed (use real in simp)
  show "\<exists>f'. DeleteFile (chroot_ops path_prefix ops) f p = Ok f' \<and> ok f' \<and> contents f' = (contents f)(v := None) \<and>
      chroot_file_at f' = (\<lambda>q. if chroot_same p q then None else chroot_file_at f q)"
    if f: "ok f" and some: "chroot_file_at f p = Some v"
  proof (cases p rule: real_path_cases)
    case (absolute real)
    then obtain f' where f': "DeleteFile ops f real = Ok f'" "ok f'" "contents f' = (contents f)(v := None)"
        "file_at f' = (\<lambda>q. if same real q then None else file_at f q)"
      using delete_law [OF f] some by (auto simp: chroot_file_at_def)
    have "chroot_file_at f' = (\<lambda>q. if chroot_same p q then None else chroot_file_at f q)"
      using f'(4) absolute(1) by (auto simp: chroot_file_at_def chroot_same_def fun_eq_iff split: option.splits)
    then show ?thesis using f' absolute(2) by (auto simp: chroot_ops_def)
  qed (use some in \<open>simp add: chroot_file_at_def\<close>)
qed

interpretation mem_chroot: chroot mem_fs_ops "\<lambda>_. True" "(=)" files vectors "\<lambda>v. \<lparr>vector = v, file_cursor = 0\<rparr>" mem_fs_ok path_prefix
  for path_prefix
  by unfold_locales simp

subsection \<open>Open files are readers and writers\<close>

definition file_bytes_of :: "open_file \<times> mem_fs \<Rightarrow> string" where
  "file_bytes_of hf = (case vectors (snd hf) (vector (fst hf)) of None \<Rightarrow> [] | Some d \<Rightarrow> d)"

definition open_ok :: "open_file \<times> mem_fs \<Rightarrow> bool" where
  "open_ok hf \<longleftrightarrow> vectors (snd hf) (vector (fst hf)) \<noteq> None \<and> mem_ok \<lparr>mem_data = file_bytes_of hf, cursor = file_cursor (fst hf)\<rparr>"

lemma on_file_eq:
  assumes "open_ok (h, fs)" and "oper \<lparr>mem_data = file_bytes_of (h, fs), cursor = file_cursor h\<rparr> = Ok (x, io)" and "mem_ok io"
  shows "\<exists>h' fs'. on_file oper (h, fs) = Ok (x, h', fs') \<and> open_ok (h', fs') \<and> file_bytes_of (h', fs') = mem_data io \<and>
    file_cursor h' = cursor io \<and> vector h' = vector h \<and> files fs' = files fs \<and>
    (\<forall>v. v \<noteq> vector h \<longrightarrow> vectors fs' v = vectors fs v)"
  using assms
  by (intro exI [of _ "h\<lparr>file_cursor := cursor io\<rparr>"] exI [of _ "fs\<lparr>vectors := (vectors fs)(vector h \<mapsto> mem_data io)\<rparr>"])
     (auto simp: on_file_def file_bytes_of_def open_ok_def mem_ok_def split: option.splits)

text \<open>An open file of a filesystem with given names.\<close>

definition opened :: "(string \<rightharpoonup> nat) \<Rightarrow> nat \<Rightarrow> open_file \<times> mem_fs \<Rightarrow> bool" where
  "opened names v hf \<longleftrightarrow> open_ok hf \<and> files (snd hf) = names \<and> vector (fst hf) = v"

interpretation file_out: byte_writer file_Write file_bytes_of "\<lambda>hf. unat (file_cursor (fst hf))" "opened names v" max_size for names v
proof
  fix hf and buf :: string
  assume opened: "opened names v hf"
  then have ok: "open_ok hf" by (simp add: opened_def)
  show "unat (file_cursor (fst hf)) \<le> length (file_bytes_of hf)" using ok by (simp add: open_ok_def mem_ok_def)
  assume ne: "buf \<noteq> []" and room: "unat (file_cursor (fst hf)) + length buf \<le> max_size"
  obtain h fs where hf: "hf = (h, fs)" by fastforce
  let ?io = "\<lparr>mem_data = file_bytes_of (h, fs), cursor = file_cursor h\<rparr>"
  have io: "mem_ok ?io" using ok by (simp add: hf open_ok_def)
  obtain k io' where k: "mem_Write ?io buf = Ok (of_nat k, io')" "0 < k" "k \<le> length buf" "mem_ok io'"
      "mem_data io' = overwrite (unat (file_cursor h)) (take k buf) (file_bytes_of (h, fs))"
      "unat (cursor io') = unat (file_cursor h) + k"
    using mem_out.write_law [OF io ne] room hf by auto
  then show "\<exists>k w'. file_Write hf buf = Ok (of_nat k, w') \<and> 0 < k \<and> k \<le> length buf \<and> opened names v w' \<and>
      file_bytes_of w' = overwrite (unat (file_cursor (fst hf))) (take k buf) (file_bytes_of hf) \<and>
      unat (file_cursor (fst w')) = unat (file_cursor (fst hf)) + k"
    using on_file_eq [OF ok [unfolded hf], of "\<lambda>io. mem_Write io buf" "of_nat k" io'] opened
    by (fastforce simp: hf file_Write_def opened_def)
qed simp

interpretation file_in: byte_reader file_Read "\<lambda>hf. drop (unat (file_cursor (fst hf))) (file_bytes_of hf)" open_ok
proof
  fix hf and n :: u64
  assume ok: "open_ok hf"
  obtain h fs where hf: "hf = (h, fs)" by fastforce
  let ?io = "\<lparr>mem_data = file_bytes_of (h, fs), cursor = file_cursor h\<rparr>"
  have io: "mem_ok ?io" using ok by (simp add: hf open_ok_def)
  obtain k io' where k: "mem_Read ?io n = Ok (take k (drop (unat (file_cursor h)) (file_bytes_of (h, fs))), io')" "k \<le> unat n"
      "unat (file_cursor h) + k \<le> length (file_bytes_of (h, fs))"
      "0 < n \<longrightarrow> unat (file_cursor h) < length (file_bytes_of (h, fs)) \<longrightarrow> 0 < k" "mem_ok io'"
      "mem_data io' = file_bytes_of (h, fs)" "unat (cursor io') = unat (file_cursor h) + k"
    using mem.read_law [OF io, of n] by (auto simp: mem_ops_def)
  let ?d = "drop (unat (file_cursor h)) (file_bytes_of (h, fs))"
  obtain h' fs' where s: "file_Read hf n = Ok (take k ?d, h', fs')" "open_ok (h', fs')"
      "file_bytes_of (h', fs') = file_bytes_of (h, fs)" "file_cursor h' = cursor io'"
    using on_file_eq [OF ok [unfolded hf], of "\<lambda>io. mem_Read io n" _ io'] k(1,5,6) by (auto simp: hf file_Read_def)
  have "unat (file_cursor h') = unat (file_cursor h) + k" using s(4) k(7) by simp
  then show "\<exists>k s'. file_Read hf n = Ok (take k (drop (unat (file_cursor (fst hf))) (file_bytes_of hf)), s') \<and> k \<le> unat n \<and>
      k \<le> length (drop (unat (file_cursor (fst hf))) (file_bytes_of hf)) \<and>
      (0 < n \<longrightarrow> drop (unat (file_cursor (fst hf))) (file_bytes_of hf) \<noteq> [] \<longrightarrow> 0 < k) \<and> open_ok s' \<and>
      drop (unat (file_cursor (fst s'))) (file_bytes_of s') = drop k (drop (unat (file_cursor (fst hf))) (file_bytes_of hf))"
    using s k(2-4) by (intro exI [of _ k] exI [of _ "(h', fs')"]) (auto simp: hf add.commute)
qed

interpretation to_file: copying "Read mem_ops" "\<lambda>s. drop (unat (cursor s)) (mem_data s)" mem_ok
  file_Write file_bytes_of "\<lambda>hf. unat (file_cursor (fst hf))" "opened names v" max_size for names v
  by unfold_locales

subsection \<open>Nothing outside the prefix is reached\<close>

definition below :: "string \<Rightarrow> string \<Rightarrow> bool" where
  "below path_prefix q \<longleftrightarrow> (\<exists>ms. q = path_prefix @ ''/'' @ join_slash ms \<and> (\<forall>m\<in>set ms. clean m))"

definition fs_contents :: "mem_fs \<Rightarrow> string \<Rightarrow> string option" where
  "fs_contents fs q = (case files fs q of None \<Rightarrow> None | Some v \<Rightarrow> vectors fs v)"

text \<open>
  A session below a prefix: creating, opening and deleting by any paths, in any order, and any
  operations on the files that it has open, those that give bytes and those that give a number.
\<close>

inductive chroot_session :: "string \<Rightarrow> mem_fs \<Rightarrow> mem_fs \<Rightarrow> open_file set \<Rightarrow> bool" for path_prefix fs\<^sub>0 where
  session_start: "chroot_session path_prefix fs\<^sub>0 fs\<^sub>0 {}"
| session_create: "chroot_session path_prefix fs\<^sub>0 fs' (insert h hs)"
    if "chroot_session path_prefix fs\<^sub>0 fs hs" and "CreateFile (chroot_ops path_prefix mem_fs_ops) fs path = Ok (h, fs')"
| session_open: "chroot_session path_prefix fs\<^sub>0 fs (insert h hs)"
    if "chroot_session path_prefix fs\<^sub>0 fs hs" and "OpenReadWrite (chroot_ops path_prefix mem_fs_ops) fs path = Ok h"
| session_delete: "chroot_session path_prefix fs\<^sub>0 fs' hs"
    if "chroot_session path_prefix fs\<^sub>0 fs hs" and "DeleteFile (chroot_ops path_prefix mem_fs_ops) fs path = Ok fs'"
| session_read: "chroot_session path_prefix fs\<^sub>0 fs' (insert h' hs)"
    if "chroot_session path_prefix fs\<^sub>0 fs hs" and "h \<in> hs"
      and "on_file (oper :: mem_io \<Rightarrow> (string \<times> mem_io) result) (h, fs) = Ok (x, h', fs')"
| session_write: "chroot_session path_prefix fs\<^sub>0 fs' (insert h' hs)"
    if "chroot_session path_prefix fs\<^sub>0 fs hs" and "h \<in> hs"
      and "on_file (oper :: mem_io \<Rightarrow> (u64 \<times> mem_io) result) (h, fs) = Ok (x, h', fs')"

definition confined :: "string \<Rightarrow> mem_fs \<Rightarrow> mem_fs \<Rightarrow> open_file set \<Rightarrow> bool" where
  "confined path_prefix fs\<^sub>0 fs hs \<longleftrightarrow> mem_fs_ok fs \<and>
     (\<forall>h\<in>hs. vector h < next_vector fs \<and> (\<forall>q. files fs q = Some (vector h) \<longrightarrow> below path_prefix q)) \<and>
     (\<forall>q. \<not> below path_prefix q \<longrightarrow> files fs q = files fs\<^sub>0 q \<and> fs_contents fs q = fs_contents fs\<^sub>0 q)"

lemma chroot_path_below: "ChrootToRealPath path_prefix path = Ok real \<Longrightarrow> below path_prefix real"
  unfolding below_def by (erule real_path_clean) blast

lemma on_file_confined:
  assumes "confined path_prefix fs\<^sub>0 fs hs" and "h \<in> hs" and "on_file oper (h, fs) = Ok (x, h', fs')"
  shows "confined path_prefix fs\<^sub>0 fs' (insert h' hs)"
proof -
  note inv = assms(1) [unfolded confined_def]
  obtain d io where io: "vectors fs (vector h) = Some d" "oper \<lparr>mem_data = d, cursor = file_cursor h\<rparr> = Ok (x, io)"
      "h' = h\<lparr>file_cursor := cursor io\<rparr>" "fs' = fs\<lparr>vectors := (vectors fs)(vector h \<mapsto> mem_data io)\<rparr>"
    using assms(3) by (auto simp: on_file_def bind_result_Inr_iff split: option.splits)
  then have d: "vectors fs (vector h) = Some d" "vector h' = vector h"
      "fs' = fs\<lparr>vectors := (vectors fs)(vector h \<mapsto> mem_data io)\<rparr>"
    by simp_all
  have "fs_contents fs' q = fs_contents fs q" if q: "\<not> below path_prefix q" for q
  proof -
    have "files fs q \<noteq> Some (vector h)" using q inv assms(2) by blast
    then show ?thesis by (auto simp: fs_contents_def d(3) split: option.splits)
  qed
  then have out: "\<forall>q. \<not> below path_prefix q \<longrightarrow> files fs q = files fs\<^sub>0 q \<and> fs_contents fs' q = fs_contents fs\<^sub>0 q"
    using inv by simp
  have ok: "mem_fs_ok fs'" using inv d by (auto simp: mem_fs_ok_def d(3))
  have same: "files fs' = files fs" "next_vector fs' = next_vector fs" by (simp_all add: d(3))
  have "\<forall>k\<in>hs. vector k < next_vector fs \<and> (\<forall>q. files fs q = Some (vector k) \<longrightarrow> below path_prefix q)" using inv by blast
  then have "\<forall>k\<in>insert h' hs. vector k < next_vector fs \<and> (\<forall>q. files fs q = Some (vector k) \<longrightarrow> below path_prefix q)"
    unfolding ball_simps d(2) using assms(2) by blast
  then show ?thesis unfolding confined_def same using ok out by blast
qed

lemma session_confined:
  assumes "mem_fs_ok fs\<^sub>0"
  shows "chroot_session path_prefix fs\<^sub>0 fs hs \<Longrightarrow> confined path_prefix fs\<^sub>0 fs hs"
proof (induction rule: chroot_session.induct)
  case session_start
  then show ?case using assms by (simp add: confined_def)
next
  case (session_create fs hs path h fs')
  obtain real where real: "ChrootToRealPath path_prefix path = Ok real" "mem_CreateFile fs real = Ok (h, fs')"
    using session_create(2) by (auto simp: chroot_ops_def mem_fs_ops_def bind_result_Inr_iff)
  note b = chroot_path_below [OF real(1)] and inv = session_create.IH [unfolded confined_def]
  have h: "vector h = next_vector fs" and fs': "fs' = fs\<lparr>files := (files fs)(real \<mapsto> next_vector fs),
      vectors := (vectors fs)(next_vector fs \<mapsto> []), next_vector := next_vector fs + 1\<rparr>"
    using real(2) by (auto simp: mem_CreateFile_def Let_def split: if_splits)
  have new: "files fs q \<noteq> Some (next_vector fs)" for q using mem_fs_okD(4) inv by blast
  have out: "fs_contents fs' q = fs_contents fs q" if "q \<noteq> real" for q
    using that new [of q] by (auto simp: fs_contents_def fs' split: option.splits)
  show ?case unfolding confined_def
  proof (intro conjI ballI allI impI)
    show "mem_fs_ok fs'" using CreateFile_ok real(2) inv by blast
    fix k assume k: "k \<in> insert h hs"
    show "vector k < next_vector fs'" using k inv h by (auto simp: fs')
    fix q assume "files fs' q = Some (vector k)"
    then show "below path_prefix q" using k inv h b new by (auto simp: fs' split: if_splits)
  next
    fix q assume "\<not> below path_prefix q"
    then have "q \<noteq> real" using b by blast
    then show "files fs' q = files fs\<^sub>0 q" "fs_contents fs' q = fs_contents fs\<^sub>0 q"
      using inv out \<open>\<not> below path_prefix q\<close> by (simp_all add: fs' del: fun_upd_apply) (simp add: fs')
  qed
next
  case (session_open fs hs path h)
  obtain real where real: "ChrootToRealPath path_prefix path = Ok real" "mem_OpenReadWrite fs real = Ok h"
    using session_open(2) by (auto simp: chroot_ops_def mem_fs_ops_def bind_result_Inr_iff)
  note inv = session_open.IH [unfolded confined_def]
  have h: "files fs real = Some (vector h)" using real(2) by (auto simp: mem_OpenReadWrite_def split: option.splits)
  have ok: "mem_fs_ok fs" using inv by blast
  have "vector h < next_vector fs" using mem_fs_okD(1) [OF ok h] ok by (auto simp: mem_fs_ok_def not_le [symmetric])
  moreover have "files fs q = Some (vector h) \<Longrightarrow> below path_prefix q" for q
    using mem_fs_okD(2) [OF ok h] chroot_path_below [OF real(1)] by blast
  ultimately show ?case using inv unfolding confined_def by blast
next
  case (session_delete fs hs path fs')
  obtain real where real: "ChrootToRealPath path_prefix path = Ok real" "mem_DeleteFile fs real = Ok fs'"
    using session_delete(2) by (auto simp: chroot_ops_def mem_fs_ops_def bind_result_Inr_iff)
  note b = chroot_path_below [OF real(1)] and inv = session_delete.IH [unfolded confined_def]
  obtain v where v: "files fs real = Some v" "fs' = fs\<lparr>files := (files fs)(real := None), vectors := (vectors fs)(v := None)\<rparr>"
    using real(2) by (auto simp: mem_DeleteFile_def split: option.splits)
  have ok: "mem_fs_ok fs" using inv by blast
  have out: "fs_contents fs' q = fs_contents fs q" if "q \<noteq> real" for q
    using that mem_fs_okD(2) [OF ok v(1), of q] by (auto simp: fs_contents_def v(2) split: option.splits)
  have "mem_fs_ok fs'" using DeleteFile_ok [OF ok real(2)] .
  moreover have "\<forall>h\<in>hs. vector h < next_vector fs' \<and> (\<forall>q. files fs' q = Some (vector h) \<longrightarrow> below path_prefix q)"
    using inv by (auto simp: v(2) split: if_splits)
  moreover have "files fs' q = files fs\<^sub>0 q \<and> fs_contents fs' q = fs_contents fs\<^sub>0 q" if "\<not> below path_prefix q" for q
    using that b inv out [of q] by (auto simp: v(2))
  ultimately show ?case unfolding confined_def by blast
next
  case (session_read fs hs h oper x h' fs')
  then show ?case by (intro on_file_confined)
next
  case (session_write fs hs h oper x h' fs')
  then show ?case by (intro on_file_confined)
qed

text \<open>
  C25: Whatever a session below a prefix does, with whatever paths, files outside the prefix keep their
  contents and none appears or disappears there. The real path of an accepted path is the prefix
  followed by its members, of which none is empty, dot, dot-dot or holds a slash, so that it cannot
  lead out again; only absolute paths are accepted, and normalizing a path once more changes nothing.
\<close>

theorem chroot_session_stays_below:
  assumes "mem_fs_ok fs\<^sub>0" and "chroot_session path_prefix fs\<^sub>0 fs hs"
  shows "(\<forall>q. \<not> below path_prefix q \<longrightarrow> fs_contents fs q = fs_contents fs\<^sub>0 q) \<and>
    (\<forall>path real. ChrootToRealPath path_prefix path = Ok real \<longrightarrow>
       take 1 path = ''/'' \<and> below path_prefix real \<and>
       path_members (drop (length path_prefix) real) = normalize_members [] (path_members path) \<and>
       ChrootToRealPath path_prefix (drop (length path_prefix) real) = Ok real)"
proof (intro conjI allI impI)
  fix q assume "\<not> below path_prefix q"
  then show "fs_contents fs q = fs_contents fs\<^sub>0 q" using session_confined [OF assms] by (simp add: confined_def)
next
  fix path real
  assume real: "ChrootToRealPath path_prefix path = Ok real"
  then show "take 1 path = ''/''" by (simp add: ChrootToRealPath_def split: if_splits)
  show "below path_prefix real" by (rule chroot_path_below [OF real])
  obtain ms where ms: "real = path_prefix @ ''/'' @ join_slash ms" "\<forall>m\<in>set ms. clean m"
      "ms = normalize_members [] (path_members path)"
    using real by (rule real_path_clean)
  have members: "path_members (CHR ''/'' # join_slash ms) = ms" by (rule members_of_join [OF ms(2)])
  then show "path_members (drop (length path_prefix) real) = normalize_members [] (path_members path)"
    using ms(1,3) by simp
  have "normalize_members [] ms = ms" using normalize_of_clean [OF ms(2), of "[]"] by simp
  then show "ChrootToRealPath path_prefix (drop (length path_prefix) real) = Ok real"
    using ms(1) members by (simp add: ChrootToRealPath_def)
qed

theorem chroot_session_stays_below_witness:
  "\<exists>h fs. chroot_session ''/d'' InMemoryFilesystem fs {h} \<and> fs_contents fs ''/e'' = None \<and> below ''/d'' ''/d/a'' \<and>
     path_members ''/a'' = normalize_members [] (path_members ''/../b/.././a'')"
proof -
  have real: "ChrootToRealPath ''/d'' ''/../b/.././a'' = Ok ''/d/a''" by (simp add: ChrootToRealPath_def path_members_def)
  obtain h fs where "CreateFile (chroot_ops ''/d'' mem_fs_ops) InMemoryFilesystem ''/../b/.././a'' = Ok (h, fs)"
    using real by (simp add: chroot_ops_def mem_fs_ops_def mem_CreateFile_def InMemoryFilesystem_def Let_def)
  then have session: "chroot_session ''/d'' InMemoryFilesystem fs {h}"
    using session_create [OF session_start] by blast
  have "\<not> below ''/d'' ''/e''" by (auto simp: below_def)
  moreover have "fs_contents InMemoryFilesystem ''/e'' = None" by (simp add: fs_contents_def InMemoryFilesystem_def)
  ultimately show ?thesis
    using chroot_session_stays_below [OF InMemoryFilesystem_ok session] session real by fastforce
qed

text \<open>
  A file that is created below a prefix and filled with \<^verbatim>\<open>Copy\<close> reads back, through every path with
  the same real path, as what was copied, and is gone for all of them after one is deleted. A file
  that is still open then refers to nothing: reading from it is undefined.
\<close>

theorem chroot_file_reads_back:
  assumes "mem_fs_ok fs" and "mem_ok r" and "ChrootToRealPath path_prefix p = Ok real"
    and "ChrootToRealPath path_prefix q = Ok real" and "files fs real = None"
  shows "\<exists>h h' h'' fs' fs'' fs\<^sub>3 r' s.
    CreateFile (chroot_ops path_prefix mem_fs_ops) fs p = Ok (h, fs') \<and>
    Copy (Read mem_ops) file_Write r (h, fs') = Some (Ok (r', h', fs'')) \<and>
    OpenReadOnly (chroot_ops path_prefix mem_fs_ops) fs'' q = Ok h'' \<and>
    ReadToString file_Read (h'', fs'') = Some (Ok (drop (unat (cursor r)) (mem_data r), s)) \<and>
    DeleteFile (chroot_ops path_prefix mem_fs_ops) fs'' q = Ok fs\<^sub>3 \<and>
    OpenReadOnly (chroot_ops path_prefix mem_fs_ops) fs\<^sub>3 p = Err Cf_Error \<and>
    file_Read (h', fs\<^sub>3) 1 = Err Undefined_Behaviour"
proof -
  let ?v = "next_vector fs" and ?d = "drop (unat (cursor r)) (mem_data r)"
  let ?h = "\<lparr>vector = next_vector fs, file_cursor = 0\<rparr>"
  let ?fs = "fs\<lparr>files := (files fs)(real \<mapsto> ?v), vectors := (vectors fs)(?v \<mapsto> []), next_vector := ?v + 1\<rparr>"
  have create: "CreateFile (chroot_ops path_prefix mem_fs_ops) fs p = Ok (?h, ?fs)"
    using assms(3,5) by (simp add: chroot_ops_def mem_fs_ops_def mem_CreateFile_def Let_def)
  have opened: "opened (files ?fs) ?v (?h, ?fs)" by (simp add: opened_def open_ok_def file_bytes_of_def mem_ok_def)
  have len: "length ?d \<le> max_size" using assms(2) by (auto simp: mem_ok_def)
  obtain r' h' fs'' where copy: "Copy (Read mem_ops) file_Write r (?h, ?fs) = Some (Ok (r', h', fs''))"
      "opened (files ?fs) ?v (h', fs'')" "file_bytes_of (h', fs'') = ?d"
    using to_file.Copy_spec [OF assms(2) opened] len by (auto simp: file_bytes_of_def overwrite_def)
  have vec: "vectors fs'' ?v = Some ?d" and names: "files fs'' real = Some ?v" and h': "vector h' = ?v"
    using copy(2,3) by (auto simp: opened_def open_ok_def file_bytes_of_def split: option.splits)
  have "open_ok (?h, fs'')" using vec len by (simp add: open_ok_def file_bytes_of_def mem_ok_def)
  then obtain s where s: "ReadToString file_Read (?h, fs'') = Some (Ok (?d, s))"
    using file_in.ReadToString_all [of "(?h, fs'')"] vec by (auto simp: file_bytes_of_def)
  have reopen: "OpenReadOnly (chroot_ops path_prefix mem_fs_ops) fs'' q = Ok ?h"
    using assms(4) names by (simp add: chroot_ops_def mem_fs_ops_def mem_OpenReadOnly_def mem_OpenReadWrite_def)
  let ?fs3 = "fs''\<lparr>files := (files fs'')(real := None), vectors := (vectors fs'')(?v := None)\<rparr>"
  have delete: "DeleteFile (chroot_ops path_prefix mem_fs_ops) fs'' q = Ok ?fs3"
    using assms(4) names by (simp add: chroot_ops_def mem_fs_ops_def mem_DeleteFile_def)
  have "OpenReadOnly (chroot_ops path_prefix mem_fs_ops) ?fs3 p = Err Cf_Error" "file_Read (h', ?fs3) 1 = Err Undefined_Behaviour"
    using assms(3) h' by (simp_all add: chroot_ops_def mem_fs_ops_def mem_OpenReadOnly_def mem_OpenReadWrite_def file_Read_def on_file_def)
  then show ?thesis using create copy(1) s reopen delete by blast
qed

theorem chroot_file_reads_back_witness:
  "\<exists>h h' h'' fs' fs'' s r'.
    CreateFile (chroot_ops ''/d'' mem_fs_ops) InMemoryFilesystem ''/a'' = Ok (h, fs') \<and>
    Copy (Read mem_ops) file_Write (InMemoryIo ''data'') (h, fs') = Some (Ok (r', h', fs'')) \<and>
    OpenReadOnly (chroot_ops ''/d'' mem_fs_ops) fs'' ''/../.././a'' = Ok h'' \<and>
    ReadToString file_Read (h'', fs'') = Some (Ok (''data'', s))"
proof -
  have "ChrootToRealPath ''/d'' ''/a'' = Ok ''/d/a''" "ChrootToRealPath ''/d'' ''/../.././a'' = Ok ''/d/a''"
    by (simp_all add: ChrootToRealPath_def path_members_def)
  then show ?thesis
    using chroot_file_reads_back [OF InMemoryFilesystem_ok, of "InMemoryIo ''data''" "''/d''" "''/a''" "''/d/a''" "''/../.././a''"]
    by (simp add: mem_ok_def InMemoryIo_def InMemoryFilesystem_def) blast
qed

end
