(* ===== verification/Pdu_Format_Builder.thy ===== *)
theory Pdu_Format_Builder
  imports Pdu_Parser
begin

section \<open>Building the PDU of a message\<close>

text \<open>
  \<^verbatim>\<open>cvd_send_sms/pdu_format_builder.cc\<close>. Two functions of the ICU library are arguments: the UTF-16
  units of a string (\<^verbatim>\<open>UnicodeString\<close>) and the UTF-8 form of one unit, \<open>None\<close> when it has none
  (\<^verbatim>\<open>u_strToUTF8\<close>). The alphabet is the list of UTF-8 strings of the source; runs of single
  characters are written as one string.
\<close>

definition kGSM7BitDefaultAlphabet :: "string list" where
  "kGSM7BitDefaultAlphabet =
    [''@'', [CHR 0xC2, CHR 0xA3], ''$'', [CHR 0xC2, CHR 0xA5], [CHR 0xC3, CHR 0xA8], [CHR 0xC3, CHR 0xA9], [CHR 0xC3, CHR 0xB9], [CHR 0xC3, CHR 0xAC],
     [CHR 0xC3, CHR 0xB2], [CHR 0xC3, CHR 0x87], [CHR 0x0A], [CHR 0xC3, CHR 0x98], [CHR 0xC3, CHR 0xB8], [CHR 0x0D], [CHR 0xC3, CHR 0x85], [CHR 0xC3, CHR 0xA5],
     [CHR 0xCE, CHR 0x94], ''_'', [CHR 0xCE, CHR 0xA6], [CHR 0xCE, CHR 0x93], [CHR 0xCE, CHR 0x9B], [CHR 0xCE, CHR 0xA9], [CHR 0xCE, CHR 0xA0], [CHR 0xCE, CHR 0xA8],
     [CHR 0xCE, CHR 0xA3], [CHR 0xCE, CHR 0x98], [CHR 0xCE, CHR 0x9E], [CHR 0xEF, CHR 0xBF, CHR 0xBF], [CHR 0xC3, CHR 0x86], [CHR 0xC3, CHR 0xA6], [CHR 0xC3, CHR 0x9F], [CHR 0xC3, CHR 0x89],
     '' '', ''!'', [CHR 0x22], ''#'', [CHR 0xC2, CHR 0xA4]] @
    map (\<lambda>c. [c]) (''%&'' @ [CHR 0x27] @ ''()*+,-./0123456789:;<=>?'') @
    [[CHR 0xC2, CHR 0xA1]] @ map (\<lambda>c. [c]) ''ABCDEFGHIJKLMNOPQRSTUVWXYZ'' @
    [[CHR 0xC3, CHR 0x84], [CHR 0xC3, CHR 0x96], [CHR 0xC3, CHR 0x91], [CHR 0xC3, CHR 0x9C], [CHR 0xC2, CHR 0xA7],
     [CHR 0xC2, CHR 0xBF]] @ map (\<lambda>c. [c]) ''abcdefghijklmnopqrstuvwxyz'' @
    [[CHR 0xC3, CHR 0xA4], [CHR 0xC3, CHR 0xB6], [CHR 0xC3, CHR 0xB1], [CHR 0xC3, CHR 0xBC], [CHR 0xC3, CHR 0xA0]]"

fun index_of :: "'a \<Rightarrow> 'a list \<Rightarrow> nat option" where
  "index_of x [] = None"
| "index_of x (y # ys) = (if y = x then Some 0 else map_option Suc (index_of x ys))"

text \<open>
  The loop over the characters: whether there is a character before, the bits that go into the octet
  before, the position of the octet to write and the octets. Writing outside the vector is undefined.
\<close>

fun gsm7_loop ::
  "('u \<Rightarrow> string option) \<Rightarrow> 'u list \<Rightarrow> bool \<Rightarrow> nat \<Rightarrow> nat \<Rightarrow> 8 word list \<Rightarrow> 8 word list option result" where
  "gsm7_loop u_strToUTF8 [] has_previous bits octets_index octets = Ok (Some octets)"
| "gsm7_loop u_strToUTF8 (uchar # us) has_previous bits octets_index octets =
     (case u_strToUTF8 uchar of
        None \<Rightarrow> Ok None
      | Some character \<Rightarrow>
          (case index_of character kGSM7BitDefaultAlphabet of
             None \<Rightarrow> Ok None
           | Some i \<Rightarrow>
               let code = of_nat i :: 8 word
               in if has_previous \<and> (octets_index = 0 \<or> length octets < octets_index) then Err Undefined_Behaviour
                  else let octets = (if has_previous
                         then octets[octets_index - 1 := push_bit (8 - bits) code OR octets ! (octets_index - 1)] else octets)
                       in if bits < 7
                          then if length octets \<le> octets_index then Err Undefined_Behaviour
                               else gsm7_loop u_strToUTF8 us True (bits + 1) (octets_index + 1)
                                      (octets[octets_index := drop_bit bits code])
                          else gsm7_loop u_strToUTF8 us True 0 octets_index octets))"

definition DecimalToHexString :: "int \<Rightarrow> string" where
  "DecimalToHexString number = setw_0 2 (hex_string digit_lower number)"

definition Gsm7bitEncode :: "('u \<Rightarrow> string option) \<Rightarrow> 'u list \<Rightarrow> string result" where
  "Gsm7bitEncode u_strToUTF8 unicode_str =
     (let octets_size = length unicode_str - length unicode_str div 8
      in bind_result (gsm7_loop u_strToUTF8 unicode_str False 0 0 (replicate octets_size 0)) (\<lambda>octets.
           case octets of
             None \<Rightarrow> Ok []
           | Some octets \<Rightarrow> Ok (concat (map (\<lambda>octet. setw_0 2 (hex_string digit_lower (uint octet))) octets))))"

definition IsValidE164PhoneNumber :: "string \<Rightarrow> bool" where
  "IsValidE164PhoneNumber number =
     (let digits = (if number \<noteq> [] \<and> hd number = CHR ''+'' then tl number else number)
      in 2 \<le> length digits \<and> length digits \<le> 15 \<and> list_all (is_digit 10) digits \<and> hd digits \<noteq> CHR ''0'')"

fun SemiOctetsEncode :: "string \<Rightarrow> string" where
  "SemiOctetsEncode [] = []"
| "SemiOctetsEncode [a] = [CHR ''f'', a]"
| "SemiOctetsEncode (a # b # s) = b # a # SemiOctetsEncode s"

record PDUFormatBuilder =
  builder_user_data :: string
  sender_number :: string

definition SetUserData :: "string \<Rightarrow> PDUFormatBuilder \<Rightarrow> PDUFormatBuilder" where
  "SetUserData data b = b\<lparr>builder_user_data := data\<rparr>"

definition SetSenderNumber :: "string \<Rightarrow> PDUFormatBuilder \<Rightarrow> PDUFormatBuilder" where
  "SetSenderNumber number b = b\<lparr>sender_number := number\<rparr>"

definition Build :: "(string \<Rightarrow> 'u list) \<Rightarrow> ('u \<Rightarrow> string option) \<Rightarrow> PDUFormatBuilder \<Rightarrow> string result" where
  "Build UnicodeString u_strToUTF8 b =
     (if builder_user_data b = [] then Ok []
      else if sender_number b = [] then Ok []
      else if \<not> IsValidE164PhoneNumber (sender_number b) then Ok []
      else let sender_number_without_plus =
                 (if hd (sender_number b) = CHR ''+'' then tl (sender_number b) else sender_number b);
               ulength = int (length (UnicodeString (builder_user_data b)))
           in if ulength > 160 then Ok []
              else bind_result (Gsm7bitEncode u_strToUTF8 (UnicodeString (builder_user_data b))) (\<lambda>encoded.
                if encoded = [] then Ok []
                else Ok (''000100'' @ DecimalToHexString (int (length sender_number_without_plus)) @ ''91'' @
                         SemiOctetsEncode sender_number_without_plus @ ''00'' @ ''00'' @ DecimalToHexString ulength @ encoded)))"

subsection \<open>Hexadecimal octets\<close>

lemma hex_octet:
  assumes "0 \<le> i" and "i < 256"
  shows "setw_0 2 (hex_string digit_lower i) = [digit_lower (nat i div 16), digit_lower (nat i mod 16)]"
proof -
  have i: "nat (i mod 2 ^ 32) = nat i" using assms by simp
  show ?thesis
  proof (cases "nat i < 16")
    case True
    then have "digits_of digit_lower 16 (nat i) = [digit_lower (nat i)]" by (simp add: digits_of.simps)
    then show ?thesis using True i by (simp add: hex_string_def setw_0_def)
  next
    case False
    have "nat i div 16 < 16" using assms by simp
    then have "digits_of digit_lower 16 (nat i) = [digit_lower (nat i div 16), digit_lower (nat i mod 16)]"
      using False by (simp add: digits_of.simps [of _ _ "nat i"] digits_of.simps [of _ _ "nat i div 16"])
    then show ?thesis using i by (simp add: hex_string_def setw_0_def)
  qed
qed

lemma HexCharToInt_digit: "d < 16 \<Longrightarrow> HexCharToInt (digit_lower d) = int d"
proof -
  assume d: "d < 16"
  have "of_char (digit_lower d) = int (of_char (digit_lower d))" by (simp add: of_nat_of_char)
  also have "\<dots> = (if d < 10 then 48 + int d else 87 + int d)" using of_char_digit_lower [of d] d by simp
  finally show ?thesis using d by (simp add: HexCharToInt_def Let_def)
qed

lemma Hex2ToByte_octet:
  assumes "0 \<le> i" and "i < 256"
  shows "Hex2ToByte (setw_0 2 (hex_string digit_lower i)) = i"
proof -
  have d: "nat i div 16 < 16" "nat i mod 16 < 16" using assms by auto
  have "16 * int (nat i div 16) + int (nat i mod 16) = i" using assms by (simp add: zdiv_int zmod_int)
  then show ?thesis
    using push_bit_or_low [of "int (nat i div 16)" "int (nat i mod 16)"] d
    by (simp add: Hex2ToByte_def hex_octet [OF assms] HexCharToInt_digit)
qed

lemma uint_octet: "0 \<le> uint (w :: 8 word)" "uint (w :: 8 word) < 256"
  using uint_lt2p [of w] by simp_all

lemma length_hex_octets: "length (concat (map (\<lambda>octet :: 8 word. setw_0 2 (hex_string digit_lower (uint octet))) os)) = 2 * length os"
  by (induction os) (simp_all add: hex_octet uint_octet)

subsection \<open>Packing seven bits into eight\<close>

lemma index_of_Some: "index_of x xs = Some i \<Longrightarrow> i < length xs \<and> xs ! i = x"
  by (induction xs arbitrary: i) (auto split: if_splits)

lemma length_alphabet: "length kGSM7BitDefaultAlphabet = 128"
  by (simp add: kGSM7BitDefaultAlphabet_def)

lemma or_low: "l < 2 ^ k \<Longrightarrow> (m * 2 ^ k) OR l = m * 2 ^ k + (l :: nat)"
proof -
  assume "l < 2 ^ k"
  then have low: "take_bit k l = l" by (simp add: take_bit_nat_eq_self)
  have "push_bit k m AND l = 0"
    by (rule bit_eqI) (metis bit_0_eq bit_and_iff bit_push_bit_iff bit_take_bit_iff bot_apply bot_bool_def low not_le)
  then have "push_bit k m + l = push_bit k m OR l" by (rule disjunctive_add_eq_or)
  then show ?thesis by (simp add: push_bit_eq_mult)
qed

text \<open>Adding the low bits of a code above the bits that an octet has.\<close>

lemma fill_octet:
  fixes l :: "8 word"
  assumes "c < 128" and "b \<le> 7" and "unat l < 2 ^ (8 - b)"
  shows "unat (push_bit (8 - b) (of_nat c) OR l) = (c mod 2 ^ b) * 2 ^ (8 - b) + unat l"
proof -
  have split: "(256 :: nat) = 2 ^ b * 2 ^ (8 - b)" using assms(2) by (simp flip: power_add)
  have "unat (push_bit (8 - b) (of_nat c :: 8 word)) = (c * 2 ^ (8 - b)) mod 256"
    using assms(1) unfolding unsigned_push_bit_eq by (simp add: unat_of_nat take_bit_nat_eq_self push_bit_eq_mult take_bit_eq_mod)
  also have "\<dots> = (c mod 2 ^ b) * 2 ^ (8 - b)" unfolding split by (rule mod_mult_mult2)
  finally show ?thesis using or_low [OF assms(3)] by (simp add: unsigned_or_eq)
qed

lemma new_octet: "c < 128 \<Longrightarrow> unat (drop_bit b (of_nat c :: 8 word)) = c div 2 ^ b"
  unfolding unat_drop_bit_eq by (simp add: unat_of_nat take_bit_nat_eq_self drop_bit_eq_div)

text \<open>The codes of the characters, if all of them are in the alphabet.\<close>

definition gsm7_code :: "('u \<Rightarrow> string option) \<Rightarrow> 'u \<Rightarrow> nat option" where
  "gsm7_code u_strToUTF8 u = Option.bind (u_strToUTF8 u) (\<lambda>c. index_of c kGSM7BitDefaultAlphabet)"

lemma gsm7_code_Some: "gsm7_code f u = Some i \<Longrightarrow> i < 128 \<and> f u = Some (kGSM7BitDefaultAlphabet ! i)"
  using length_alphabet by (auto simp: gsm7_code_def bind_eq_Some_conv dest: index_of_Some)

lemma gsm7_loop_none: "gsm7_code f u = None \<Longrightarrow> gsm7_loop f (u # us) p b i os = Ok None"
  by (auto simp: gsm7_code_def bind_eq_None_conv split: option.splits)

text \<open>
  One step with a code: the octets before the last one, the last one, and those not yet written.
\<close>

lemma gsm7_loop_first:
  "gsm7_code f u = Some c \<Longrightarrow>
     gsm7_loop f (u # us) False 0 0 (0 # zs) = gsm7_loop f us True 1 1 (of_nat c # zs)"
  by (auto simp: gsm7_code_def bind_eq_Some_conv Let_def)

lemma gsm7_loop_step:
  fixes l :: "8 word" and b c :: nat
  assumes "gsm7_code f u = Some c" and "b \<le> 7"
  defines "l' \<equiv> push_bit (8 - b) (of_nat c) OR l"
  shows "b < 7 \<Longrightarrow> gsm7_loop f (u # us) True b (Suc (length w)) (w @ l # z # zs) =
      gsm7_loop f us True (Suc b) (Suc (length (w @ [l']))) ((w @ [l']) @ drop_bit b (of_nat c) # zs)"
    and "b = 7 \<Longrightarrow> gsm7_loop f (u # us) True b (Suc (length w)) (w @ l # zs) =
      gsm7_loop f us True 0 (Suc (length w)) (w @ l' # zs)"
  using assms(1) by (auto simp: gsm7_code_def bind_eq_Some_conv Let_def l'_def nth_append list_update_append)

declare gsm7_loop.simps(2) [simp del]

text \<open>
  The octets are the codes in another radix: as numbers with their lowest place first, the octets to
  base 256 and the codes to base 128 are the same.
\<close>

abbreviation octets_value :: "8 word list \<Rightarrow> nat" where
  "octets_value \<equiv> horner_sum unat 256"

abbreviation septets_value :: "nat list \<Rightarrow> nat" where
  "septets_value \<equiv> horner_sum (\<lambda>c. c) 128"

lemma octets_value_append: "octets_value (xs @ ys) = octets_value xs + 256 ^ length xs * octets_value ys"
  by (induction xs) (simp_all add: algebra_simps)

lemma octets_value_zeros [simp]: "octets_value (replicate n 0) = 0"
  by (induction n) simp_all

lemma gsm7_loop_value:
  assumes "those (map (gsm7_code f) us) = Some cs" and "b \<le> 7" and "unat l < 2 ^ (8 - b)"
  shows "\<exists>os. gsm7_loop f us True b (Suc (length w)) (w @ l # replicate (length us - (length us + b) div 8) 0) = Ok (Some os) \<and>
    length os = Suc (length w) + (length us - (length us + b) div 8) \<and>
    octets_value os = octets_value (w @ [l]) + 2 ^ (8 * Suc (length w) - b) * septets_value cs"
  using assms
proof (induction us arbitrary: cs b l w)
  case Nil
  then show ?case by simp
next
  case (Cons u us)
  let ?m = "length us"
  obtain c ds where c: "gsm7_code f u = Some c" "those (map (gsm7_code f) us) = Some ds" "cs = c # ds"
    using Cons.prems(1) by (auto split: option.splits)
  have c128: "c < 128" using gsm7_code_Some [OF c(1)] by simp
  define l' where "l' = push_bit (8 - b) (of_nat c) OR l"
  have l': "unat l' = (c mod 2 ^ b) * 2 ^ (8 - b) + unat l"
    unfolding l'_def by (rule fill_octet [OF c128 Cons.prems(2,3)])
  define P where "P = (2::nat) ^ (8 * Suc (length w) - b)"
  have "(256::nat) ^ length w = 2 ^ (8 * length w)" by (simp add: power_mult)
  then have place: "P = 256 ^ length w * 2 ^ (8 - b)" using Cons.prems(2) by (simp add: P_def flip: power_add)
  have whole: "256 ^ Suc (length w) = P * 2 ^ b"
  proof -
    have "(2::nat) ^ (8 - b) * 2 ^ b = 256" using Cons.prems(2) by (simp flip: power_add)
    then show ?thesis by (simp add: place mult.assoc)
  qed
  have filled: "octets_value (w @ [l']) = octets_value (w @ [l]) + P * (c mod 2 ^ b)"
    by (simp add: octets_value_append l' place algebra_simps)
  show ?case
  proof (cases "b < 7")
    case True
    let ?n = "drop_bit b (of_nat c) :: 8 word"
    have "(?m + Suc b) div 8 \<le> ?m" using True by auto
    then have zeros: "Suc ?m - (Suc ?m + b) div 8 = Suc (?m - (?m + Suc b) div 8)" by simp
    have n: "unat ?n = c div 2 ^ b" by (rule new_octet [OF c128])
    have "c < 2 ^ (8 - Suc b) * 2 ^ b" using c128 True by (simp flip: power_add)
    then have "unat ?n < 2 ^ (8 - Suc b)" using n by (simp add: less_mult_imp_div_less)
    moreover have "Suc b \<le> 7" using True by simp
    ultimately obtain os where os:
      "gsm7_loop f us True (Suc b) (Suc (length (w @ [l']))) ((w @ [l']) @ ?n # replicate (?m - (?m + Suc b) div 8) 0) = Ok (Some os)"
      "length os = Suc (length (w @ [l'])) + (?m - (?m + Suc b) div 8)"
      "octets_value os = octets_value ((w @ [l']) @ [?n]) + 2 ^ (8 * Suc (length (w @ [l'])) - Suc b) * septets_value ds"
      using Cons.IH [OF c(2), of "Suc b" ?n "w @ [l']"] by blast
    have next_place: "(2::nat) ^ (8 * Suc (length (w @ [l'])) - Suc b) = P * 128"
    proof -
      have "8 * Suc (length (w @ [l'])) - Suc b = (8 * Suc (length w) - b) + 7" using True by simp
      then show ?thesis by (simp only: P_def power_add) simp
    qed
    have last: "octets_value ((w @ [l']) @ [?n]) = octets_value (w @ [l']) + P * (2 ^ b * (c div 2 ^ b))"
      using whole n by (simp only: octets_value_append [of "w @ [l']"] length_append_singleton mult.assoc) simp
    have "octets_value os = octets_value (w @ [l]) + P * (2 ^ b * (c div 2 ^ b) + c mod 2 ^ b) + P * 128 * septets_value ds"
      unfolding os(3) last filled next_place by (simp only: distrib_left add.assoc add.commute [of "P * (c mod 2 ^ b)"])
    then have "octets_value os = octets_value (w @ [l]) + P * septets_value cs"
      by (simp add: c(3) distrib_left)
    then show ?thesis
      using gsm7_loop_step(1) [OF c(1) Cons.prems(2) True, of us w l 0] os(1,2) zeros by (auto simp: l'_def P_def)
  next
    case False
    then have b: "b = 7" using Cons.prems(2) by simp
    have "unat l' < 2 ^ (8 - 0)" using unsigned_less [of l', where ?'a = nat] by simp
    from Cons.IH [OF c(2) _ this, of w] obtain os where os:
      "gsm7_loop f us True 0 (Suc (length w)) (w @ l' # replicate (?m - ?m div 8) 0) = Ok (Some os)"
      "length os = Suc (length w) + (?m - ?m div 8)"
      "octets_value os = octets_value (w @ [l']) + 2 ^ (8 * Suc (length w)) * septets_value ds"
      by auto
    have zeros: "Suc ?m - (Suc ?m + b) div 8 = ?m - ?m div 8" using b by simp
    have "(2::nat) ^ (8 * Suc (length w)) = 256 ^ Suc (length w)" by (simp only: power_mult) simp
    then have "(2::nat) ^ (8 * Suc (length w)) = P * 128" using whole b by simp
    moreover have "c mod 2 ^ b = c" using c128 b by simp
    ultimately have "octets_value os = octets_value (w @ [l]) + P * septets_value cs"
      using os(3) filled by (simp add: c(3) distrib_left)
    then show ?thesis
      using gsm7_loop_step(2) [OF c(1) Cons.prems(2) b, of us w l] os(1,2) zeros by (auto simp: l'_def P_def)
  qed
qed

lemma gsm7_loop_reject:
  assumes "those (map (gsm7_code f) us) = None" and "b \<le> 7"
  shows "gsm7_loop f us True b (Suc (length w)) (w @ l # replicate (length us - (length us + b) div 8) 0) = Ok None"
  using assms
proof (induction us arbitrary: b l w)
  case (Cons u us)
  let ?m = "length us"
  show ?case
  proof (cases "gsm7_code f u")
    case None
    then show ?thesis by (rule gsm7_loop_none)
  next
    case (Some c)
    then have rest: "those (map (gsm7_code f) us) = None" using Cons.prems(1) by simp
    show ?thesis
    proof (cases "b < 7")
      case True
      then have "(?m + Suc b) div 8 \<le> ?m" by auto
      then have zeros: "Suc ?m - (Suc ?m + b) div 8 = Suc (?m - (?m + Suc b) div 8)" by simp
      have "Suc b \<le> 7" using True by simp
      then show ?thesis
        unfolding list.size(4) add_Suc_right add_0_right zeros replicate_Suc gsm7_loop_step(1) [OF Some Cons.prems(2) True]
        using Cons.IH [OF rest, of "Suc b" "w @ [push_bit (8 - b) (of_nat c) OR l]" "drop_bit b (of_nat c)"] by simp
    next
      case False
      then have b: "b = 7" using Cons.prems(2) by simp
      then have zeros: "Suc ?m - (Suc ?m + b) div 8 = ?m - (?m + 0) div 8" by simp
      show ?thesis
        using Cons.IH [OF rest, of 0 w] zeros by (simp add: gsm7_loop_step(2) [OF Some Cons.prems(2) b])
    qed
  qed
qed simp

text \<open>The encoding never leaves its vector; it is refused when a character is not in the alphabet.\<close>

lemma Gsm7bitEncode_codes:
  assumes "those (map (gsm7_code f) us) = Some cs" and "us \<noteq> []"
  shows "\<exists>os. Gsm7bitEncode f us = Ok (concat (map (\<lambda>octet. setw_0 2 (hex_string digit_lower (uint octet))) os)) \<and>
    length os = length us - length us div 8 \<and> octets_value os = septets_value cs"
proof -
  obtain u us' where us: "us = u # us'" using assms(2) by (cases us) auto
  let ?m = "length us'"
  obtain c ds where c: "gsm7_code f u = Some c" "those (map (gsm7_code f) us') = Some ds" "cs = c # ds"
    using assms(1) us by (auto split: option.splits)
  have c128: "c < 128" using gsm7_code_Some [OF c(1)] by simp
  then have l: "unat (of_nat c :: 8 word) = c" by (simp add: unat_of_nat take_bit_nat_eq_self)
  then have "unat (of_nat c :: 8 word) < 2 ^ (8 - 1)" using c128 by simp
  from gsm7_loop_value [OF c(2) _ this, of "[]"] obtain os where os:
    "gsm7_loop f us' True 1 1 (of_nat c # replicate (?m - Suc ?m div 8) 0) = Ok (Some os)"
    "length os = Suc (?m - Suc ?m div 8)" "octets_value os = c + 128 * septets_value ds"
    using l by auto
  have "Suc ?m div 8 \<le> ?m" by auto
  then have zeros: "Suc ?m - Suc ?m div 8 = Suc (?m - Suc ?m div 8)" by simp
  have "gsm7_loop f us False 0 0 (replicate (length us - length us div 8) 0) = Ok (Some os)"
    unfolding us list.size(4) add_Suc_right add_0_right zeros replicate_Suc gsm7_loop_first [OF c(1)] by (rule os(1))
  then show ?thesis using os(2,3) zeros by (intro exI [of _ os]) (simp add: Gsm7bitEncode_def us c(3))
qed

lemma Gsm7bitEncode_reject:
  assumes "those (map (gsm7_code f) us) = None"
  shows "Gsm7bitEncode f us = Ok []"
proof -
  obtain u us' where us: "us = u # us'" using assms by (cases us) auto
  let ?m = "length us'"
  have "Suc ?m div 8 \<le> ?m" by auto
  then have zeros: "Suc ?m - Suc ?m div 8 = Suc (?m - Suc ?m div 8)" by simp
  have "gsm7_loop f us False 0 0 (replicate (length us - length us div 8) 0) = Ok None"
  proof (cases "gsm7_code f u")
    case None
    then show ?thesis unfolding us by (rule gsm7_loop_none)
  next
    case (Some c)
    then have "those (map (gsm7_code f) us') = None" using assms us by simp
    from gsm7_loop_reject [OF this, of 1 "[]"] show ?thesis
      unfolding us list.size(4) add_Suc_right add_0_right zeros replicate_Suc gsm7_loop_first [OF Some] by simp
  qed
  then show ?thesis by (simp add: Gsm7bitEncode_def)
qed

subsection \<open>Reading the message\<close>

text \<open>
  What a phone makes of the user data, after 3GPP TS 23.038: the number of characters, then their codes
  as the digits to base 128 of the octets.
\<close>

fun hex_bytes :: "string \<Rightarrow> int list" where
  "hex_bytes (a # b # s) = Hex2ToByte [a, b] # hex_bytes s"
| "hex_bytes _ = []"

definition septets :: "nat \<Rightarrow> nat \<Rightarrow> nat list" where
  "septets n v = map (\<lambda>i. v div 128 ^ i mod 128) [0..<n]"

definition gsm7_text :: "string \<Rightarrow> string list" where
  "gsm7_text ud =
     (let bs = hex_bytes ud
      in map ((!) kGSM7BitDefaultAlphabet) (septets (nat (hd bs)) (horner_sum nat 256 (tl bs))))"

lemma hex_bytes_octets:
  "hex_bytes (concat (map (\<lambda>octet :: 8 word. setw_0 2 (hex_string digit_lower (uint octet))) os)) = map uint os"
proof (induction os)
  case (Cons w os)
  have "Hex2ToByte [digit_lower (nat (uint w) div 16), digit_lower (nat (uint w) mod 16)] = uint w"
    using Hex2ToByte_octet [OF uint_octet [of w]] by (simp only: hex_octet [OF uint_octet])
  then show ?case using Cons by (simp add: hex_octet uint_octet)
qed simp

lemma octets_value_bytes: "horner_sum nat 256 (map uint os) = octets_value os"
  by (induction os) simp_all

lemma septets_Suc: "septets (Suc n) v = v mod 128 # septets n (v div 128)"
proof -
  have "[0..<Suc n] = 0 # map Suc [0..<n]" by (metis map_Suc_upt upt_conv_Cons zero_less_Suc)
  then show ?thesis by (simp add: septets_def div_mult2_eq comp_def)
qed

lemma septets_of_value: "\<forall>c\<in>set cs. c < 128 \<Longrightarrow> septets (length cs) (septets_value cs) = cs"
  by (induction cs) (simp_all add: septets_Suc, simp add: septets_def)

lemma those_Some_nth: "those (map g xs) = Some ys \<Longrightarrow> map Some ys = map g xs"
  by (induction xs arbitrary: ys) (auto split: option.splits)

subsection \<open>The built PDU\<close>

lemma length_SemiOctets: "length (SemiOctetsEncode s) = length s + length s mod 2"
  by (induction s rule: SemiOctetsEncode.induct) auto

lemma SemiOctets_read: "CHR ''f'' \<notin> set s \<Longrightarrow> takeWhile (\<lambda>c. c \<noteq> CHR ''f'') (swap_pairs (SemiOctetsEncode s)) = s"
  by (induction s rule: SemiOctetsEncode.induct) auto

definition number_digits :: "string \<Rightarrow> string" where
  "number_digits number = (if hd number = CHR ''+'' then tl number else number)"

lemma valid_number:
  assumes "IsValidE164PhoneNumber number"
  shows "number \<noteq> []" and "2 \<le> length (number_digits number)" and "length (number_digits number) \<le> 15"
    and "CHR ''f'' \<notin> set (number_digits number)"
proof -
  show ne: "number \<noteq> []" using assms by (auto simp: IsValidE164PhoneNumber_def)
  show "2 \<le> length (number_digits number)" "length (number_digits number) \<le> 15"
    using assms ne by (simp_all add: IsValidE164PhoneNumber_def number_digits_def Let_def)
  have "list_all (is_digit 10) (number_digits number)"
    using assms ne by (simp add: IsValidE164PhoneNumber_def number_digits_def Let_def)
  moreover have "\<not> is_digit 10 (CHR ''f'')" by code_simp
  ultimately show "CHR ''f'' \<notin> set (number_digits number)" by (auto simp: list_all_iff)
qed

text \<open>The fields of the PDU.\<close>

definition built_pdu :: "string \<Rightarrow> nat \<Rightarrow> string \<Rightarrow> pdu" where
  "built_pdu digits n encoded =
     \<lparr>is_valid_pdu = True, pdu_type = ''01'', message_reference = ''00'',
      originator_address = DecimalToHexString (int (length digits)) @ ''91'' @ SemiOctetsEncode digits,
      protocol_id = ''00'', data_code_scheme = ''00'', user_data = DecimalToHexString (int n) @ encoded\<rparr>"

lemma built_pdu_decodes:
  assumes "length digits \<le> 15" and "n \<le> 160" and "length encoded = 2 * (n - n div 8)"
  shows "DecodePDU (''00'' @ Pdu_Parser.fields (built_pdu digits n encoded)) = built_pdu digits n encoded"
proof (rule DecodePDU_fields)
  let ?d = "int (length digits)" and ?oa = "originator_address (built_pdu digits n encoded)"
  let ?ud = "user_data (built_pdu digits n encoded)"
  have d: "0 \<le> ?d" "?d < 256" and n: "0 \<le> int n" "int n < 256" using assms(1,2) by auto
  have two: "length (DecimalToHexString ?d) = 2" "length (DecimalToHexString (int n)) = 2"
    using d n by (simp_all add: DecimalToHexString_def hex_octet)
  have "Hex2ToByte (take 2 ?oa) = ?d" "Hex2ToByte (take 2 ?ud) = int n"
    using Hex2ToByte_octet [OF d] Hex2ToByte_octet [OF n] two by (simp_all add: built_pdu_def DecimalToHexString_def)
  then have "oa_chars ?oa = ?d + ?d mod 2" "ud_chars ''00'' ?ud = int n * 2 + 2 - int (n div 8) * 2"
    by (simp_all add: oa_chars_def ud_chars_def Let_def and_one_eq int_quot_def zdiv_int sgn_if)
  moreover have "int (length encoded) = 2 * int n - 2 * int (n div 8)" using assms(3) by (simp add: of_nat_diff)
  ultimately show "fields_ok (built_pdu digits n encoded)"
    using two by (simp add: fields_ok_def built_pdu_def length_SemiOctets zmod_int)
qed (simp add: built_pdu_def)

lemma Build_accepts:
  assumes "builder_user_data b \<noteq> []" and "IsValidE164PhoneNumber (sender_number b)"
    and "units = UnicodeString (builder_user_data b)" and "units \<noteq> []" and "length units \<le> 160"
    and "those (map (gsm7_code u_strToUTF8) units) = Some codes"
  shows "\<exists>encoded. Build UnicodeString u_strToUTF8 b =
      Ok (''00'' @ Pdu_Parser.fields (built_pdu (number_digits (sender_number b)) (length units) encoded)) \<and>
    length encoded = 2 * (length units - length units div 8) \<and>
    gsm7_text (DecimalToHexString (int (length units)) @ encoded) = map ((!) kGSM7BitDefaultAlphabet) codes"
proof -
  obtain os where os: "Gsm7bitEncode u_strToUTF8 units = Ok (concat (map (\<lambda>octet. setw_0 2 (hex_string digit_lower (uint octet))) os))"
      "length os = length units - length units div 8" "octets_value os = septets_value codes"
    using Gsm7bitEncode_codes [OF assms(6,4)] by blast
  define encoded where "encoded = concat (map (\<lambda>octet :: 8 word. setw_0 2 (hex_string digit_lower (uint octet))) os)"
  have len: "length encoded = 2 * (length units - length units div 8)"
    unfolding encoded_def length_hex_octets os(2) ..
  have "0 < length units - length units div 8" using assms(4) by (simp add: div_less_dividend)
  then have ne: "encoded \<noteq> []" using len by auto
  have build: "Build UnicodeString u_strToUTF8 b =
      Ok (''00'' @ Pdu_Parser.fields (built_pdu (number_digits (sender_number b)) (length units) encoded))"
    using assms(1-5) valid_number(1) [OF assms(2)] os(1) ne
    by (simp add: Build_def built_pdu_def Pdu_Parser.fields_def number_digits_def Let_def flip: encoded_def)
  have n: "0 \<le> int (length units)" "int (length units) < 256" using assms(5) by auto
  have "hex_bytes (DecimalToHexString (int (length units)) @ encoded) = int (length units) # map uint os"
    using hex_bytes_octets [of os] Hex2ToByte_octet [OF n]
    by (simp add: DecimalToHexString_def encoded_def [symmetric] hex_octet [OF n])
  moreover have "length codes = length units" "\<forall>c\<in>set codes. c < 128"
  proof -
    have some: "map Some codes = map (gsm7_code u_strToUTF8) units" by (rule those_Some_nth [OF assms(6)])
    then show "length codes = length units" by (metis length_map)
    show "\<forall>c\<in>set codes. c < 128"
    proof
      fix c
      assume "c \<in> set codes"
      then have "Some c \<in> set (map Some codes)" by simp
      then have "Some c \<in> gsm7_code u_strToUTF8 ` set units" unfolding some by simp
      then obtain u where "Some c = gsm7_code u_strToUTF8 u" by (rule imageE)
      then show "c < 128" by (intro conjunct1 [OF gsm7_code_Some]) (rule sym)
    qed
  qed
  ultimately have "gsm7_text (DecimalToHexString (int (length units)) @ encoded) = map ((!) kGSM7BitDefaultAlphabet) codes"
    using septets_of_value [of codes] os(3) by (simp add: gsm7_text_def octets_value_bytes Let_def)
  then show ?thesis using build len by blast
qed

text \<open>In all other cases the result is the empty string, and nothing undefined happens.\<close>

lemma Build_rejects:
  assumes "builder_user_data b = [] \<or> \<not> IsValidE164PhoneNumber (sender_number b) \<or>
    160 < length (UnicodeString (builder_user_data b)) \<or> UnicodeString (builder_user_data b) = [] \<or>
    those (map (gsm7_code u_strToUTF8) (UnicodeString (builder_user_data b))) = None"
  shows "Build UnicodeString u_strToUTF8 b = Ok []"
proof -
  have empty: "Gsm7bitEncode u_strToUTF8 [] = Ok []" by (simp add: Gsm7bitEncode_def)
  obtain r where r: "Gsm7bitEncode u_strToUTF8 (UnicodeString (builder_user_data b)) = Ok r"
  proof (cases "UnicodeString (builder_user_data b) = []")
    case True
    then show thesis using that empty by simp
  next
    case False
    then show thesis
      using that Gsm7bitEncode_codes [OF _ False, of u_strToUTF8] Gsm7bitEncode_reject
      by (cases "those (map (gsm7_code u_strToUTF8) (UnicodeString (builder_user_data b)))") blast+
  qed
  have "r = []" if "UnicodeString (builder_user_data b) = [] \<or>
      those (map (gsm7_code u_strToUTF8) (UnicodeString (builder_user_data b))) = None"
    using that r empty Gsm7bitEncode_reject [of u_strToUTF8 "UnicodeString (builder_user_data b)"] by auto
  then show ?thesis using assms r by (auto simp: Build_def Let_def)
qed

end
