(* ===== verification/Sms_Sender.thy ===== *)
theory Sms_Sender
  imports Pdu_Format_Builder Shared_Buf Modem_Properties
begin

section \<open>Programs that send commands to a modem\<close>

text \<open>
  \<^verbatim>\<open>cvd_send_sms/sms_sender.cc\<close>, \<^verbatim>\<open>cvd_send_id_disclosure\<close> and \<^verbatim>\<open>cvd_update_security_algorithm\<close>: programs
  that connect to the socket of a modem simulator, write the name of a modem and one command line, and
  leave. The descriptor is the one of \<open>Shared_Buf\<close>; the simulator at the other end is that of
  \<open>Modem_Simulator\<close>.
\<close>

subsection \<open>The senders\<close>

definition SmsSender_Send ::
  "(string \<Rightarrow> 'u list) \<Rightarrow> ('u \<Rightarrow> string option) \<Rightarrow> ('f \<Rightarrow> bool) \<Rightarrow> 'f write_call \<Rightarrow>
   string \<Rightarrow> string \<Rightarrow> 64 word \<Rightarrow> 'f \<Rightarrow> (bool \<times> 'f) result"
where
  "SmsSender_Send UnicodeString u_strToUTF8 IsOpen wr sms_body from_number modem_id fd =
     (if \<not> IsOpen fd then Ok (False, fd)
      else let builder = \<lparr>builder_user_data = [], sender_number = []\<rparr>;
               builder = SetUserData sms_body builder;
               builder = SetSenderNumber from_number builder
           in bind_result (Build UnicodeString u_strToUTF8 builder) (\<lambda>pdu_format_str.
                if pdu_format_str = [] then Ok (False, fd)
                else let at_command = ''REM'' @ to_string (uint modem_id) @ ''AT+REMOTESMS='' @ pdu_format_str @ [CHR 0x0D];
                         (written, fd) = Shared_Buf.WriteAll wr at_command fd
                     in Ok (written = int (length at_command), fd)))"

text \<open>The integers are \<^verbatim>\<open>int32_t\<close>; \<^verbatim>\<open>{:d}\<close> prints a boolean as a digit.\<close>

definition GetATCommand_disclosure :: "string \<Rightarrow> int \<Rightarrow> int \<Rightarrow> bool \<Rightarrow> string" where
  "GetATCommand_disclosure plmn identifierType protocolMessage isEmergency =
     ''AT+REMOTEIDDISCLOSURE:'' @ [CHR 0x22] @ plmn @ [CHR 0x22] @ '','' @ to_string identifierType @ '','' @
     to_string protocolMessage @ '','' @ to_string (of_bool isEmergency) @ [CHR 0x0D]"

definition GetATCommand_security :: "int \<Rightarrow> int \<Rightarrow> int \<Rightarrow> bool \<Rightarrow> string" where
  "GetATCommand_security connection_event encryption integrity is_unprotected_emergency =
     ''AT+UPDATESECURITYALGORITHM:'' @ to_string connection_event @ '','' @ to_string encryption @ '','' @
     to_string integrity @ '','' @ to_string (of_bool is_unprotected_emergency) @ [CHR 0x0D]"

text \<open>A short write is fatal.\<close>

definition send_remote :: "'f write_call \<Rightarrow> int \<Rightarrow> string \<Rightarrow> 'f \<Rightarrow> 'f result" where
  "send_remote wr modem_num at_command fd =
     (let command = ''REM'' @ to_string modem_num @ at_command;
          (written, fd) = Shared_Buf.WriteAll wr command fd
      in if written \<noteq> int (length command) then Err Check_Failed else Ok fd)"

definition SendDisclosure :: "'f write_call \<Rightarrow> int \<Rightarrow> string \<Rightarrow> int \<Rightarrow> int \<Rightarrow> bool \<Rightarrow> 'f \<Rightarrow> 'f result" where
  "SendDisclosure wr modem_num plmn identifier protocol_message is_emergency =
     send_remote wr modem_num (GetATCommand_disclosure plmn identifier protocol_message is_emergency)"

definition UpdateSecurityAlgorithm :: "'f write_call \<Rightarrow> int \<Rightarrow> int \<Rightarrow> int \<Rightarrow> int \<Rightarrow> bool \<Rightarrow> 'f \<Rightarrow> 'f result" where
  "UpdateSecurityAlgorithm wr modem_num connection_event encryption integrity is_unprotected_emergency =
     send_remote wr modem_num (GetATCommand_security connection_event encryption integrity is_unprotected_emergency)"

subsection \<open>Characters of the lines\<close>

lemma is_digit_chars [simp]:
  "\<not> is_digit 16 (CHR 0x00)" "\<not> is_digit 16 (CHR 0x0A)" "\<not> is_digit 16 (CHR 0x0D)" "\<not> is_digit 16 (CHR ''='')"
  "is_digit 16 (CHR ''0'')" "is_digit 16 (CHR ''1'')" "is_digit 16 (CHR ''9'')" "is_digit 16 (CHR ''f'')"
  by code_simp+

lemma hex_string_chars: "c \<in> set (setw_0 w (hex_string digit_lower i)) \<Longrightarrow> is_digit 16 c"
proof -
  have "is_digit 16 c" if "c \<in> set (digits_of digit_lower 16 n)" for n
    using digits_of_digits [of 16 digit_lower n] that by (auto simp: is_digit_def)
  then show "c \<in> set (setw_0 w (hex_string digit_lower i)) \<Longrightarrow> is_digit 16 c"
    by (auto simp: setw_0_def hex_string_def)
qed

lemma Gsm7bitEncode_chars: "Gsm7bitEncode f us = Ok s \<Longrightarrow> c \<in> set s \<Longrightarrow> is_digit 16 c"
  by (auto simp: Gsm7bitEncode_def Let_def bind_result_Inr_iff hex_string_chars split: option.splits)

lemma SemiOctets_chars: "c \<in> set (SemiOctetsEncode s) \<Longrightarrow> c = CHR ''f'' \<or> c \<in> set s"
  by (induction s rule: SemiOctetsEncode.induct) auto

lemma Build_chars:
  assumes "Build U f b = Ok s" and "c \<in> set s"
  shows "is_digit 16 c"
proof -
  have mono: "is_digit 10 x \<Longrightarrow> is_digit 16 x" for x by (auto simp: is_digit_def split: option.splits)
  have "is_digit 16 x" if "IsValidE164PhoneNumber (sender_number b)" "sender_number b \<noteq> []"
      "x \<in> set (SemiOctetsEncode (number_digits (sender_number b)))" for x
    using SemiOctets_chars [OF that(3)] that(1,2) mono
    by (auto simp: IsValidE164PhoneNumber_def number_digits_def list_all_iff Let_def split: if_splits)
  then show ?thesis
    using assms
    by (auto simp: Build_def number_digits_def Let_def bind_result_Inr_iff DecimalToHexString_def hex_string_chars Gsm7bitEncode_chars
        split: if_splits)
qed

subsection \<open>How the line is served\<close>

text \<open>The modem with the object of the new connection, and what remains to be done after its first line.\<close>

definition remote_created :: "modem \<Rightarrow> modem" where
  "remote_created m =
     m\<lparr>m_env := (m_env m)\<lparr>next_id := next_id (m_env m) + 1,
        objs := (objs (m_env m))(next_id (m_env m) \<mapsto> (new_client REMOTE)\<lparr>first_read_command := True\<rparr>)\<rparr>\<rparr>"

lemma incomplete_remote_created: "incomplete_of (next_id (m_env m)) (m_env (remote_created m)) = Some []"
  by (simp add: incomplete_of_def remote_created_def new_client_def)

lemma clear_remote_created: "sim.clear (next_id (m_env m)) (remote_created m) = remote_created m"
  using set_incomplete_same [OF incomplete_remote_created] by (simp add: sim.clear_def on_env_def)

lemma remote_line_read:
  assumes "\<not> ModemIsWaitingSmsPdu m" and "line \<noteq> []" and "\<forall>c\<in>set line. c \<noteq> CHR 0x00 \<and> c \<noteq> CHR 0x0A \<and> c \<noteq> CHR 0x0D"
    and "length line + 1 < kMaxCommandLength" and "ModemDispatchCommand (next_id (m_env m)) line (remote_created m) = Ok m1"
  shows "ReadCommand simulator (next_id (m_env m)) (Read_Bytes (line @ [CHR 0x0D])) (remote_created m) = Ok m1"
proof -
  let ?c = "next_id (m_env m)"
  have id: "newlines_to_cr (line @ [CHR 0x0D]) = line @ [CHR 0x0D]" by (rule newlines_to_cr_id) (use assms(3) in auto)
  have found: "find_char (CHR 0x0D) (line @ [CHR 0x0D]) = Some (length line)"
    using assms(3) by (induction line) auto
  have wait: "\<not> ModemIsWaitingSmsPdu (remote_created m)"
    using assms(1) by (simp add: remote_created_def ModemIsWaitingSmsPdu_def)
  have lines: "dispatch_lines (IsWaitingSmsPdu simulator) (DispatchCommand simulator ?c) (line @ [CHR 0x0D]) (remote_created m) = Ok ([], m1)"
    using wait assms(2,5) found
    by (simp add: dispatch_lines.simps [of _ _ "line @ _"] dispatch_lines.simps [of _ _ "[]"] simulator_def)
  have "incomplete_of ?c (m_env m1) = Some []"
    using sim.dispatch_keeps [of ?c line "remote_created m" m1] assms(5) incomplete_remote_created [of m]
    by (simp add: simulator_def remote_created_def)
  then have "set_incomplete ?c [] (m_env m1) = m_env m1" by (rule set_incomplete_same)
  then have fin: "on_env simulator (set_incomplete ?c []) m1 = m1" by (simp add: on_env_def)
  have "ReadCommand simulator ?c (Read_Bytes (line @ [CHR 0x0D])) (remote_created m) =
      bind_result (Ok ([], m1)) (\<lambda>(rest, m). Ok (on_env simulator (set_incomplete ?c rest) m))"
    using sim.ReadCommand_bytes [of ?c "remote_created m" "[]" "line @ [CHR 0x0D]",
        unfolded append_Nil id clear_remote_created lines simulator_env, OF incomplete_remote_created] assms(3,4)
    by fastforce
  then show ?thesis by (simp only: bind_result_simps prod.case fin)
qed

text \<open>What the server does with such a request, in terms of what the modem makes of the line.\<close>

lemma remote_request_served:
  assumes "i < length ms" and "i < 10" and "m = ms ! i" and "\<not> ModemIsWaitingSmsPdu m"
    and "line \<noteq> []" and "\<forall>c\<in>set line. c \<noteq> CHR 0x00 \<and> c \<noteq> CHR 0x0A \<and> c \<noteq> CHR 0x0D"
    and "length line + 1 < kMaxCommandLength"
    and "ModemDispatchCommand (next_id (m_env m)) line (remote_created m) = Ok m1"
  shows "\<exists>e'. serve_connection (''REM'' @ to_string (int i)) (Read_Bytes (line @ [CHR 0x0D])) ms = Ok (False, ms[i := m1\<lparr>m_env := e'\<rparr>]) \<and>
    wire e' = wire (m_env m1) \<and> clients e' = clients (m_env m1)"
proof -
  have "digits_of digit_lower 10 i = [digit_lower i]" using assms(2) by (subst digits_of.simps) simp
  then have digit: "to_string (int i) = [digit_lower i]" by (simp add: to_string_def)
  have "in_int (int i)" using assms(2) by (simp add: in_int_def)
  then have stoi: "stoi 10 [digit_lower i] = Ok (int i)" using stoi_to_string [of "int i"] digit by simp
  let ?c = "next_id (m_env m)"
  have created: "on_env simulator (\<lambda>e. e\<lparr>next_id := Suc (next_id e),
      objs := (objs e)(?c \<mapsto> (new_client REMOTE)\<lparr>first_read_command := True\<rparr>)\<rparr>) m = remote_created m"
    by (simp add: on_env_def remote_created_def)
  define e' where "e' = trigger (if is_open ?c (m_env m1)
    then (update_client ?c (\<lambda>cl. cl\<lparr>first_read_command := False\<rparr>) (m_env m1))\<lparr>remote_clients := remote_clients (m_env m1) @ [?c]\<rparr>
    else m_env m1)"
  have "SetRemoteClient_accepted simulator (Read_Bytes (line @ [CHR 0x0D])) m = Ok (?c, m1\<lparr>m_env := e'\<rparr>)"
    using remote_line_read [OF assms(4-8)]
    by (simp add: SetRemoteClient_accepted_def created Let_def) (simp add: e'_def on_env_def)
  then have "serve_connection (''REM'' @ to_string (int i)) (Read_Bytes (line @ [CHR 0x0D])) ms = Ok (False, ms[i := m1\<lparr>m_env := e'\<rparr>])"
    using assms(1,3) stoi by (simp add: serve_connection_def digit)
  moreover have "wire e' = wire (m_env m1)" "clients e' = clients (m_env m1)"
    by (simp_all add: e'_def trigger_def update_client_def)
  ultimately show ?thesis by blast
qed

text \<open>
  A connection that has sent nothing yet, and on which a whole command was written: the server reads
  the name of the modem, the modem the rest.
\<close>

lemma remote_bytes:
  assumes "i < 10" and "bytes = ''REM'' @ to_string (int i) @ line"
  shows "take 4 bytes = ''REM'' @ to_string (int i)" and "drop 4 bytes = line"
proof -
  have "digits_of digit_lower 10 i = [digit_lower i]" using assms(1) by (subst digits_of.simps) simp
  then have "to_string (int i) = [digit_lower i]" by (simp add: to_string_def)
  then show "take 4 bytes = ''REM'' @ to_string (int i)" and "drop 4 bytes = line" using assms(2) by simp_all
qed

lemma remotesms_handler:
  "find (\<lambda>h. matches h (''AT+REMOTESMS='' @ r)) all_handlers = Some (Partial_Match ''+REMOTESMS'' (Sms Cmd_ReceiveRemoteSMS))"
  by (simp add: all_handlers_def modem_services_def sim_handlers_def network_handlers_def data_handlers_def call_handlers_def
      sms_handlers_def matches_def)

lemma dispatch_remote_sms:
  assumes "\<not> ModemIsWaitingSmsPdu m" and "is_valid_pdu (DecodePDU r)"
  shows "ModemDispatchCommand c (''AT+REMOTESMS='' @ r) m =
    Ok (m\<lparr>m_env := announce_sms (CreatePDU (wall (m_env m)) (DecodePDU r)) (m_env m)\<rparr>)"
proof -
  let ?line = "''AT+REMOTESMS='' @ r"
  have "SkipPrefix ?line = r" using SkipPrefix_append [of "''AT+REMOTESMS''" r] by simp
  then have run: "run_modem_command c (Sms Cmd_ReceiveRemoteSMS) ?line m =
      Ok (m\<lparr>m_env := announce_sms (CreatePDU (wall (m_env m)) (DecodePDU r)) (m_env m)\<rparr>)"
    using assms(2) by (simp add: HandleReceiveRemoteSMS_def)
  have "try_services c ?line modem_services m =
      bind_result (run_modem_command c (Sms Cmd_ReceiveRemoteSMS) ?line m) (\<lambda>m. Ok (True, m))"
    using try_services_long [of ?line c modem_services m, folded all_handlers_def]
    unfolding remotesms_handler option.case handler_of.simps by simp
  then show ?thesis
    using assms(1) unfolding run ModemDispatchCommand_def ModemIsWaitingSmsPdu_def by simp
qed

text \<open>When sending succeeds, the message was built and the whole command was accepted.\<close>

lemma Send_true:
  assumes "stream_writer wr accepted wok" and "wok fd"
    and "SmsSender_Send U f IsOpen wr body num modem_id fd = Ok (True, fd')"
  shows "\<exists>pdu. Build U f \<lparr>builder_user_data = body, sender_number = num\<rparr> = Ok pdu \<and> pdu \<noteq> [] \<and>
    accepted fd' = accepted fd @ ''REM'' @ to_string (uint modem_id) @ (''AT+REMOTESMS='' @ pdu) @ [CHR 0x0D]"
proof -
  obtain pdu n where pdu: "Build U f \<lparr>builder_user_data = body, sender_number = num\<rparr> = Ok pdu" "pdu \<noteq> []" and
      n: "Shared_Buf.WriteAll wr (''REM'' @ to_string (uint modem_id) @ ''AT+REMOTESMS='' @ pdu @ [CHR 0x0D]) fd = (n, fd')"
      "n = int (length (''REM'' @ to_string (uint modem_id) @ ''AT+REMOTESMS='' @ pdu @ [CHR 0x0D]))"
    using assms(3)
    by (auto simp: SmsSender_Send_def SetUserData_def SetSenderNumber_def Let_def bind_result_Inr_iff simp del: length_append split: if_splits prod.splits)
  from stream_writer.WriteAll_prefix [OF assms(1,2) n(1)] n(2) show ?thesis
    using pdu by (auto simp: Let_def)
qed

lemma built_pdu_of_message:
  assumes "Build U f \<lparr>builder_user_data = body, sender_number = num\<rparr> = Ok pdu" and "pdu \<noteq> []"
  shows "\<exists>texts. map f (U body) = map Some texts \<and> gsm7_text (user_data (DecodePDU pdu)) = texts \<and> is_valid_pdu (DecodePDU pdu) \<and>
    takeWhile (\<lambda>c. c \<noteq> CHR ''f'') (swap_pairs (drop 4 (originator_address (DecodePDU pdu)))) = number_digits num \<and>
    length pdu \<le> 400"
proof -
  let ?b = "\<lparr>builder_user_data = body, sender_number = num\<rparr>"
  have "\<not> (body = [] \<or> \<not> IsValidE164PhoneNumber num \<or> 160 < length (U body) \<or> U body = [] \<or>
      those (map (gsm7_code f) (U body)) = None)"
    using Build_rejects [of ?b U f] assms by auto
  then have ok: "body \<noteq> []" "IsValidE164PhoneNumber num" "U body \<noteq> []" "length (U body) \<le> 160"
      "those (map (gsm7_code f) (U body)) \<noteq> None"
    by (simp_all add: not_less)
  then obtain codes where codes: "those (map (gsm7_code f) (U body)) = Some codes" by blast
  obtain encoded where enc: "Build U f ?b = Ok (''00'' @ Pdu_Parser.fields (built_pdu (number_digits num) (length (U body)) encoded))"
      "length encoded = 2 * (length (U body) - length (U body) div 8)"
      "gsm7_text (DecimalToHexString (int (length (U body))) @ encoded) = map ((!) kGSM7BitDefaultAlphabet) codes"
    using Build_accepts [of ?b "U body" U f codes] ok codes by auto
  have digits: "length (number_digits num) \<le> 15" "CHR ''f'' \<notin> set (number_digits num)"
    using valid_number [OF ok(2)] by auto
  have dec: "DecodePDU pdu = built_pdu (number_digits num) (length (U body)) encoded"
    using built_pdu_decodes [OF digits(1) ok(4) enc(2)] enc(1) assms(1) by simp
  have two: "length (DecimalToHexString (int k)) = 2" if "k < 256" for k
    using that by (simp add: DecimalToHexString_def hex_octet)
  have "map f (U body) = map Some (map ((!) kGSM7BitDefaultAlphabet) codes)"
  proof (rule nth_equalityI)
    have some: "map Some codes = map (gsm7_code f) (U body)" by (rule those_Some_nth [OF codes])
    then have len: "length codes = length (U body)" by (metis length_map)
    then show "length (map f (U body)) = length (map Some (map ((!) kGSM7BitDefaultAlphabet) codes))" by simp
    fix k
    assume k: "k < length (map f (U body))"
    then have "gsm7_code f (U body ! k) = Some (codes ! k)" using arg_cong [OF some, of "\<lambda>xs. xs ! k"] len by simp
    from gsm7_code_Some [OF this] show "map f (U body) ! k = map Some (map ((!) kGSM7BitDefaultAlphabet) codes) ! k"
      using k len by simp
  qed
  moreover have "length pdu \<le> 400"
    using enc(1,2) assms(1) ok(4) digits(1) two [of "length (number_digits num)"] two [of "length (U body)"]
    by (auto simp: Pdu_Parser.fields_def built_pdu_def length_SemiOctets)
  moreover have "drop 4 (originator_address (DecodePDU pdu)) = SemiOctetsEncode (number_digits num)"
    using two [of "length (number_digits num)"] digits(1) by (simp add: dec built_pdu_def)
  ultimately show ?thesis using enc(3) SemiOctets_read [OF digits(2)] by (auto simp: dec built_pdu_def)
qed

lemma remote_created_env:
  assumes "modem_reach m" and "clients (m_env m) = c # cs" and "is_open c (m_env m)"
  shows "clients (m_env (remote_created m)) = c # cs" and "is_open c (m_env (remote_created m))"
    and "wire (m_env (remote_created m)) = wire (m_env m)" and "wall (m_env (remote_created m)) = wall (m_env m)"
proof -
  have "conns_ok (m_env m)" using modem_reach_inv [OF assms(1)] by (simp add: sim_invariant)
  then have "c < next_id (m_env m)" using assms(2) by (simp add: conns_ok_def typed_def)
  then show "is_open c (m_env (remote_created m))" using assms(3) by (simp add: is_open_def remote_created_def)
qed (simp_all add: remote_created_def assms(2))

text \<open>
  C26: A text sent from the command line reaches the phone. Let the descriptor of \<^verbatim>\<open>cvd_send_sms\<close> be a stream
  on which nothing was written yet, and let sending to one of the first ten modems succeed. Then the
  server of that simulator, given the bytes that the stream accepted, hands them to the modem with
  that number and to no other; if the modem is in any reachable state in which it is not waiting for
  the text of a message and has a client, the first client is told \<^verbatim>\<open>+CMT: 0\<close> and gets a PDU,
  and nothing else is written to anybody. Read as the phone reads a delivered message, the user data of this PDU
  are, as GSM 7-bit text, the text that was sent, character by character, its address has the digits of the
  sender's number, and its time is that of the simulator.
\<close>

theorem sent_message_reaches_phone:
  assumes "stream_writer wr accepted wok" and "wok fd" and "accepted fd = []"
    and "SmsSender_Send UnicodeString u_strToUTF8 IsOpen wr sms_body num modem_id fd = Ok (True, fd')"
    and "unat modem_id < 10" and "unat modem_id < length ms" and "modem_reach (ms ! unat modem_id)"
    and "\<not> ModemIsWaitingSmsPdu (ms ! unat modem_id)"
    and "clients (m_env (ms ! unat modem_id)) = c # cs" and "is_open c (m_env (ms ! unat modem_id))"
    and "valid_time (wall (m_env (ms ! unat modem_id)))"
  shows "\<exists>m' out texts.
    serve_connection (take 4 (accepted fd')) (Read_Bytes (drop 4 (accepted fd'))) ms = Ok (False, ms[unat modem_id := m']) \<and>
    wire (m_env m') = wire (m_env (ms ! unat modem_id)) @
      [(c, line_of ''+CMT: 0''), (c, line_of out)] \<and>
    map u_strToUTF8 (UnicodeString sms_body) = map Some texts \<and> gsm7_text (deliver_data (read_deliver out)) = texts \<and>
    takeWhile (\<lambda>x. x \<noteq> CHR ''f'') (swap_pairs (drop 4 (deliver_address (read_deliver out)))) = number_digits num \<and>
    deliver_time (read_deliver out) = GetCurrentTimeStamp (wall (m_env (ms ! unat modem_id)))"
proof -
  let ?i = "unat modem_id" and ?m = "ms ! unat modem_id"
  obtain pdu where pdu: "Build UnicodeString u_strToUTF8 \<lparr>builder_user_data = sms_body, sender_number = num\<rparr> = Ok pdu" "pdu \<noteq> []"
      and acc: "accepted fd' = ''REM'' @ to_string (int ?i) @ (''AT+REMOTESMS='' @ pdu) @ [CHR 0x0D]"
    using Send_true [OF assms(1,2,4)] assms(3) by (auto simp: nat_uint_eq)
  obtain texts where built: "map u_strToUTF8 (UnicodeString sms_body) = map Some texts" "gsm7_text (user_data (DecodePDU pdu)) = texts"
      "is_valid_pdu (DecodePDU pdu)"
      "takeWhile (\<lambda>x. x \<noteq> CHR ''f'') (swap_pairs (drop 4 (originator_address (DecodePDU pdu)))) = number_digits num"
      "length pdu \<le> 400"
    using built_pdu_of_message [OF pdu] by blast
  let ?line = "''AT+REMOTESMS='' @ pdu" and ?m1 = "remote_created ?m"
  let ?e = "announce_sms (CreatePDU (wall (m_env ?m1)) (DecodePDU pdu)) (m_env ?m1)"
  have wait: "\<not> ModemIsWaitingSmsPdu ?m1" using assms(8) by (simp add: remote_created_def ModemIsWaitingSmsPdu_def)
  have chars: "\<forall>x\<in>set ?line. x \<noteq> CHR 0x00 \<and> x \<noteq> CHR 0x0A \<and> x \<noteq> CHR 0x0D"
    using Build_chars [OF pdu(1)] is_digit_chars(1-3) by fastforce
  have short: "length ?line + 1 < kMaxCommandLength" using built(5) by (simp add: kMaxCommandLength_def)
  obtain e' where served: "serve_connection (''REM'' @ to_string (int ?i)) (Read_Bytes (?line @ [CHR 0x0D])) ms =
      Ok (False, ms[?i := (?m1\<lparr>m_env := ?e\<rparr>)\<lparr>m_env := e'\<rparr>])" and wire: "wire e' = wire ?e"
    using remote_request_served [OF assms(6,5) refl assms(8) _ chars short dispatch_remote_sms [OF wait built(3)]] by auto
  note env = remote_created_env [OF assms(7,9,10)]
  have "wire ?e = wire (m_env ?m) @ [(c, line_of ''+CMT: 0''), (c, line_of (CreatePDU (wall (m_env ?m)) (DecodePDU pdu)))]"
    using CreatePDU_nonempty [OF built(3)] env
    by (simp add: announce_sms_def wire_SendUnsolicitedCommand)
  then show ?thesis
    using served wire built(1,2,4) remote_bytes [OF assms(5) acc] read_deliver_CreatePDU [OF DecodePDU_valid(1) [OF built(3)] built(3) assms(11)]
    by (intro exI [of _ "(?m1\<lparr>m_env := ?e\<rparr>)\<lparr>m_env := e'\<rparr>"] exI [of _ "CreatePDU (wall (m_env ?m)) (DecodePDU pdu)"] exI [of _ texts]) simp
qed

text \<open>The ASCII part of ICU, and a message to the modem of the examples.\<close>

definition ascii_utf8 :: "char \<Rightarrow> string option" where
  "ascii_utf8 u = (if of_char u < (128 :: nat) then Some [u] else None)"

lemma sample_send:
  "\<exists>fd'. SmsSender_Send (\<lambda>s. s) ascii_utf8 (\<lambda>_. True) posix_write_call ''hellohello'' ''+16501234567'' 0
    \<lparr>file_bytes = [], file_offset = 0\<rparr> = Ok (True, fd')"
proof -
  have build: "Build (\<lambda>s. s) ascii_utf8 \<lparr>builder_user_data = ''hellohello'', sender_number = ''+16501234567''\<rparr> =
      Ok ''0001000b916105214365f700000ae8329bfd4697d9ec37''" by code_simp
  have "to_string 0 = ''0''" by (simp add: to_string_def digits_of.simps)
  then show ?thesis
    by (simp add: SmsSender_Send_def SetUserData_def SetSenderNumber_def build posix_write_all Let_def)
qed

theorem sent_message_reaches_phone_witness:
  "\<exists>bytes m' out. serve_connection (take 4 bytes) (Read_Bytes (drop 4 bytes)) [connected_modem] = Ok (False, [m']) \<and>
    wire (m_env m') = wire (m_env connected_modem) @
      [(2, line_of ''+CMT: 0''), (2, line_of out)] \<and>
    concat (gsm7_text (deliver_data (read_deliver out))) = ''hellohello'' \<and>
    takeWhile (\<lambda>x. x \<noteq> CHR ''f'') (swap_pairs (drop 4 (deliver_address (read_deliver out)))) = ''16501234567''"
proof -
  have "clients (m_env connected_modem) = [2]" "is_open 2 (m_env connected_modem)"
    using conn_connected_modem by (simp_all add: conn_def is_open_def new_client_def)
  moreover obtain fd' where "SmsSender_Send (\<lambda>s. s) ascii_utf8 (\<lambda>_. True) posix_write_call ''hellohello'' ''+16501234567'' 0
      \<lparr>file_bytes = [], file_offset = 0\<rparr> = Ok (True, fd')" using sample_send by blast
  moreover have "valid_time (wall (m_env connected_modem))" using connected_modem_wall by (simp add: noon_def valid_time_def)
  ultimately show ?thesis
    using sent_message_reaches_phone [OF posix_append.stream_writer_axioms, of "\<lparr>file_bytes = [], file_offset = 0\<rparr>" "\<lambda>s. s" ascii_utf8
        "\<lambda>_. True" "''hellohello''" "''+16501234567''" 0 fd' "[connected_modem]" 2 "[]"] connected_modem_reach connected_modem_not_waiting
    by (fastforce simp: ascii_utf8_def number_digits_def)
qed

end
