(* ===== verification/Feature_Setup.thy ===== *)
theory Feature_Setup
  imports Prelude "HOL-Library.AList"
begin

section \<open>Features and their dependencies\<close>

text \<open>
  \<^verbatim>\<open>host/libs/feature\<close>: the launcher is a set of features, each of which names the features it depends
  on; they are set up in an order in which dependencies come first. Features are compared as
  pointers: the type \<open>'f\<close>, with \<open>None\<close> for a null pointer. A set is the list of its elements in the
  order in which it is iterated, which the source leaves to \<^verbatim>\<open>std::unordered_set\<close>.
\<close>

datatype Status = UNVISITED | VISITING | VISITED

datatype ('f, 'e) feature_error =
    Not_In_Graph 'f
  | Cycle_Detected 'f
  | Null_Dependency 'f
  | Null_Feature
  | Callback_Error 'f 'e

text \<open>
  The measure of the traversal: how many features have no mark yet. Each nested call has marked one
  more feature. Since the marks are threaded through the calls, this rests on the fact that a call that
  returns leaves no fewer marks.
\<close>

definition unvisited :: "('f \<times> Status) list \<Rightarrow> nat" where
  "unvisited st = length (filter (\<lambda>p. snd p = UNVISITED) st)"

lemma unvisited_mark: "map_of st f = Some UNVISITED \<Longrightarrow> x \<noteq> UNVISITED \<Longrightarrow> Suc (unvisited (AList.update f x st)) = unvisited st"
  by (induction st) (auto simp: unvisited_def split: if_splits)

lemma unvisited_update: "x \<noteq> UNVISITED \<Longrightarrow> unvisited (AList.update f x st) \<le> unvisited st"
  by (induction st) (auto simp: unvisited_def split: if_splits)

text \<open>
  A callback changes a state (it may do so and fail). \<^verbatim>\<open>visit\<close> is the recursive closure of
  \<^verbatim>\<open>TopologicalVisit\<close> and \<open>visit_dependencies\<close> the loop in it; the map of states is an association list.
\<close>

type_synonym ('f, 'e, 's) feature_callback = "'f \<Rightarrow> 's \<Rightarrow> 'e option \<times> 's"
type_synonym ('f, 'e, 's) visit_result = "('f, 'e) feature_error option \<times> ('f \<times> Status) list \<times> 's"

function visit :: "('f \<Rightarrow> 'f option list) \<Rightarrow> ('f, 'e, 's) feature_callback \<Rightarrow> 'f \<Rightarrow> ('f \<times> Status) list \<Rightarrow> 's \<Rightarrow> ('f, 'e, 's) visit_result"
  and visit_dependencies ::
    "('f \<Rightarrow> 'f option list) \<Rightarrow> ('f, 'e, 's) feature_callback \<Rightarrow> 'f \<Rightarrow> 'f option list \<Rightarrow> ('f \<times> Status) list \<Rightarrow> 's \<Rightarrow> ('f, 'e, 's) visit_result"
where
  "visit Dependencies callback feature features_status s =
     (case map_of features_status feature of
        None \<Rightarrow> (Some (Not_In_Graph feature), features_status, s)
      | Some VISITED \<Rightarrow> (None, features_status, s)
      | Some VISITING \<Rightarrow> (Some (Cycle_Detected feature), features_status, s)
      | Some UNVISITED \<Rightarrow>
          (case visit_dependencies Dependencies callback feature (Dependencies feature)
                  (AList.update feature VISITING features_status) s of
             (Some e, features_status, s) \<Rightarrow> (Some e, features_status, s)
           | (None, features_status, s) \<Rightarrow>
               (case callback feature s of
                  (e, s) \<Rightarrow> (map_option (Callback_Error feature) e, AList.update feature VISITED features_status, s))))"
| "visit_dependencies Dependencies callback feature [] features_status s = (None, features_status, s)"
| "visit_dependencies Dependencies callback feature (None # dependencies) features_status s =
     (Some (Null_Dependency feature), features_status, s)"
| "visit_dependencies Dependencies callback feature (Some dependency # dependencies) features_status s =
     (case visit Dependencies callback dependency features_status s of
        (Some e, features_status, s) \<Rightarrow> (Some e, features_status, s)
      | (None, features_status, s) \<Rightarrow> visit_dependencies Dependencies callback feature dependencies features_status s)"
  by pat_completeness auto

termination
proof -
  have marks: "visit_visit_dependencies_dom (Inl (D, cb, f, st, s)) \<Longrightarrow> unvisited (fst (snd (visit D cb f st s))) \<le> unvisited st"
    "visit_visit_dependencies_dom (Inr (D, cb, f, ds, st, s)) \<Longrightarrow> unvisited (fst (snd (visit_dependencies D cb f ds st s))) \<le> unvisited st"
    for D :: "'f \<Rightarrow> 'f option list" and cb :: "('f, 'e, 's) feature_callback" and f ds st s
  proof (induction rule: visit_visit_dependencies.pinduct)
    case (1 D cb f st s)
    show ?case
    proof (cases "map_of st f = Some UNVISITED")
      case True
      have "unvisited (fst (snd (visit_dependencies D cb f (D f) (AList.update f VISITING st) s))) \<le> unvisited st"
        using 1(2) [OF True refl] unvisited_mark [OF True, of VISITING] by simp
      then show ?thesis using True 1(1)
        by (auto simp: visit.psimps split: prod.split option.split intro: order_trans [OF unvisited_update])
    next
      case False
      then show ?thesis using 1(1) by (auto simp: visit.psimps split: option.split Status.split)
    qed
  next
    case (4 D cb f d ds st s)
    then show ?case by (fastforce simp: visit_dependencies.psimps split: prod.split option.split intro: order_trans)
  qed (simp_all add: visit_dependencies.psimps)
  show ?thesis
  proof (relation "measures [\<lambda>x. case x of Inl (_, _, _, st, _) \<Rightarrow> unvisited st | Inr (_, _, _, _, st, _) \<Rightarrow> unvisited st,
      \<lambda>x. case x of Inl _ \<Rightarrow> 0 | Inr (_, _, _, ds, _, _) \<Rightarrow> Suc (length ds)]", goal_cases)
    case (2 D cb f st s)
    then show ?case using unvisited_mark [of st f VISITING] by simp
  next
    case (4 D cb f d ds st s r e a b)
    then have "visit D cb d st s = (None, a, b)" by simp
    then show ?case using marks(1) [of D cb d st s] 4 by (cases "unvisited a = unvisited st") auto
  qed simp_all
qed

declare visit.simps [simp del]

fun visit_features ::
  "('f \<Rightarrow> 'f option list) \<Rightarrow> ('f, 'e, 's) feature_callback \<Rightarrow> 'f list \<Rightarrow> ('f \<times> Status) list \<Rightarrow> 's \<Rightarrow> ('f, 'e, 's) visit_result"
where
  "visit_features Dependencies callback [] features_status s = (None, features_status, s)"
| "visit_features Dependencies callback (feature # features) features_status s =
     (case visit Dependencies callback feature features_status s of
        (Some e, features_status, s) \<Rightarrow> (Some e, features_status, s)
      | (None, features_status, s) \<Rightarrow> visit_features Dependencies callback features features_status s)"

definition TopologicalVisit ::
  "('f \<Rightarrow> 'f option list) \<Rightarrow> ('f, 'e, 's) feature_callback \<Rightarrow> 'f list \<Rightarrow> 's \<Rightarrow> ('f, 'e) feature_error option \<times> 's"
where
  "TopologicalVisit Dependencies callback features s =
     (case visit_features Dependencies callback features (map (\<lambda>feature. (feature, UNVISITED)) features) s of
        (e, _, s) \<Rightarrow> (e, s))"

text \<open>
  \<^verbatim>\<open>RunSetup\<close> and \<^verbatim>\<open>ProcessFlags\<close>. Their sets are iterated in the order \<open>unordered\<close>.
\<close>

fun run_callbacks :: "('f, 'e, 's) feature_callback \<Rightarrow> 'f list \<Rightarrow> 's \<Rightarrow> ('f, 'e) feature_error option \<times> 's" where
  "run_callbacks callback [] s = (None, s)"
| "run_callbacks callback (feature # features) s =
     (case callback feature s of
        (Some e, s) \<Rightarrow> (Some (Callback_Error feature e), s)
      | (None, s) \<Rightarrow> run_callbacks callback features s)"

definition add_feature :: "('f, 'e, 'f list) feature_callback" where
  "add_feature feature ordered_features = (None, ordered_features @ [feature])"

definition RunSetup ::
  "('f list \<Rightarrow> 'f list) \<Rightarrow> ('f \<Rightarrow> 'f option list) \<Rightarrow> ('f \<Rightarrow> bool) \<Rightarrow> ('f, 'e, 's) feature_callback \<Rightarrow> 'f option list \<Rightarrow> 's \<Rightarrow>
   ('f, 'e) feature_error option \<times> 's"
where
  "RunSetup unordered Dependencies Enabled ResultSetup features s =
     (case those features of
        None \<Rightarrow> (Some Null_Feature, s)
      | Some features \<Rightarrow>
          (case TopologicalVisit Dependencies add_feature (unordered (filter Enabled features)) [] of
             (Some e, _) \<Rightarrow> (Some e, s)
           | (None, ordered_features) \<Rightarrow> run_callbacks ResultSetup ordered_features s))"

definition ProcessFlags ::
  "('f list \<Rightarrow> 'f list) \<Rightarrow> ('f \<Rightarrow> 'f option list) \<Rightarrow> ('f, 'e, string list) feature_callback \<Rightarrow> 'f option list \<Rightarrow> string list \<Rightarrow>
   ('f, 'e) feature_error option \<times> string list"
where
  "ProcessFlags unordered Dependencies Process features flags =
     (case those features of
        None \<Rightarrow> (Some Null_Feature, flags)
      | Some features \<Rightarrow> TopologicalVisit Dependencies Process (unordered features) flags)"

text \<open>
  \<^verbatim>\<open>ReturningSetupFeature\<close>: a feature keeps the value that it calculated; reading it before is a failed
  check. A calculation reads other features through \<^verbatim>\<open>operator*\<close>; its own failure is a value of type \<open>'e\<close>.
\<close>

datatype 'e setup_error = Precondition_Violation | Process_Aborted cpp_error | Calculate_Error 'e

definition deref :: "('f \<Rightarrow> 'v option) \<Rightarrow> 'f \<Rightarrow> 'v result" where
  "deref calculated feature = (case calculated feature of None \<Rightarrow> Err Check_Failed | Some v \<Rightarrow> Ok v)"

definition ResultSetup :: "('f \<Rightarrow> ('f \<Rightarrow> 'v result) \<Rightarrow> ('e + 'v) result) \<Rightarrow> ('f, 'e setup_error, 'f \<Rightarrow> 'v option) feature_callback" where
  "ResultSetup Calculate feature calculated =
     (if calculated feature \<noteq> None then (Some Precondition_Violation, calculated)
      else case Calculate feature (deref calculated) of
             Inl abort \<Rightarrow> (Some (Process_Aborted abort), calculated)
           | Inr (Inl e) \<Rightarrow> (Some (Calculate_Error e), calculated)
           | Inr (Inr v) \<Rightarrow> (None, calculated(feature \<mapsto> v)))"

text \<open>The dependencies of a generated feature are those of its arguments that are features.\<close>

definition SetupFeatureDeps :: "('f list \<Rightarrow> 'f list) \<Rightarrow> ('f \<Rightarrow> 'f option list) \<Rightarrow> 'f \<Rightarrow> 'f option list" where
  "SetupFeatureDeps unordered args feature = map Some (unordered (List.map_filter id (args feature)))"

text \<open>The help text of flag features; \<open>fragment\<close> is \<^verbatim>\<open>WriteGflagsCompatHelpXml\<close> and what it writes.\<close>

fun write_fragments :: "('f \<Rightarrow> bool \<times> string) \<Rightarrow> 'f option list \<Rightarrow> bool \<times> string" where
  "write_fragments fragment [] = (True, ''</AllFlags>'')"
| "write_fragments fragment (None # features) = (False, [])"
| "write_fragments fragment (Some f # features) =
     (case fragment f of
        (False, s) \<Rightarrow> (False, s)
      | (True, s) \<Rightarrow> (case write_fragments fragment features of (ok, rest) \<Rightarrow> (ok, s @ rest)))"

definition WriteGflagsHelpXml :: "('f \<Rightarrow> bool \<times> string) \<Rightarrow> 'f option list \<Rightarrow> string \<Rightarrow> bool \<times> string" where
  "WriteGflagsHelpXml fragment features out =
     (case write_fragments fragment features of
        (ok, s) \<Rightarrow> (ok, out @ ''<?xml version=\"1.0\"?>'' @ [CHR 0x0A] @ ''<AllFlags>'' @ [CHR 0x0A] @
          ''  <program>program</program>'' @ [CHR 0x0A] @ ''  <usage>usage</usage>'' @ [CHR 0x0A] @ s))"

subsection \<open>The order does not depend on the callback\<close>

lemma run_callbacks_append:
  "run_callbacks cb (xs @ ys) s = (case run_callbacks cb xs s of (Some e, s) \<Rightarrow> (Some e, s) | (None, s) \<Rightarrow> run_callbacks cb ys s)"
  by (induction xs arbitrary: s) (auto split: prod.split option.split)

text \<open>
  What a visit that only collects gives, and how a visit with another callback follows it: it runs the
  callbacks of the collected features in order, and stops with the first that fails.
\<close>

definition follows ::
  "('f, 'e, 's) feature_callback \<Rightarrow> 's \<Rightarrow> 'f list \<Rightarrow> ('f, 'e, 'f list) visit_result \<Rightarrow> ('f, 'e, 's) visit_result \<Rightarrow> bool"
where
  "follows cb s acc c r \<longleftrightarrow>
     (\<exists>new. snd (snd c) = acc @ new \<and>
        (case run_callbacks cb new s of
           (None, s') \<Rightarrow> r = (fst c, fst (snd c), s')
         | (Some e, s') \<Rightarrow> fst r = Some e \<and> snd (snd r) = s'))"

lemma follows_then:
  assumes "follows cb s acc c r" and "\<And>st acc' s'. c = (None, st, acc') \<Longrightarrow> follows cb s' acc' (k st acc') (l st s')"
  shows "follows cb s acc (case c of (Some e, st, x) \<Rightarrow> (Some e, st, x) | (None, st, x) \<Rightarrow> k st x)
    (case r of (Some e, st, x) \<Rightarrow> (Some e, st, x) | (None, st, x) \<Rightarrow> l st x)"
proof -
  obtain new where new: "snd (snd c) = acc @ new" and
      run: "case run_callbacks cb new s of (None, s') \<Rightarrow> r = (fst c, fst (snd c), s') | (Some e, s') \<Rightarrow> fst r = Some e \<and> snd (snd r) = s'"
    using assms(1) by (auto simp: follows_def)
  obtain x s' where x: "run_callbacks cb new s = (x, s')" by fastforce
  obtain ce cst where c: "c = (ce, cst, acc @ new)" using new by (cases c) auto
  have later: "\<exists>more. snd (snd (k cst (acc @ new))) = acc @ new @ more" if "ce = None"
    using assms(2) [of cst "acc @ new" s'] that c by (auto simp: follows_def)
  show ?thesis
  proof (cases x)
    case None
    then have r: "r = (ce, cst, s')" using run x c by simp
    show ?thesis
    proof (cases ce)
      case ce: None
      from assms(2) [of cst "acc @ new" s'] c ce obtain more where more: "snd (snd (k cst (acc @ new))) = acc @ new @ more"
          "case run_callbacks cb more s' of (None, t) \<Rightarrow> l cst s' = (fst (k cst (acc @ new)), fst (snd (k cst (acc @ new))), t)
            | (Some e, t) \<Rightarrow> fst (l cst s') = Some e \<and> snd (snd (l cst s')) = t"
        by (auto simp: follows_def)
      then show ?thesis using c r ce None x
        by (auto simp: follows_def run_callbacks_append intro!: exI [of _ "new @ more"])
    next
      case (Some e)
      then show ?thesis using c r None x by (auto simp: follows_def)
    qed
  next
    case (Some e)
    then obtain rst where r: "r = (Some e, rst, s')" using run x by (cases r) auto
    then show ?thesis using c later Some x
      by (cases ce) (auto simp: follows_def run_callbacks_append intro: exI [of _ new])
  qed
qed

lemma visit_follows:
  fixes cb :: "('f, 'e, 's) feature_callback"
  shows "follows cb s acc (visit D add_feature f st acc) (visit D cb f st s)"
    and "follows cb s acc (visit_dependencies D add_feature f ds st acc) (visit_dependencies D cb f ds st s)"
proof (induction D "add_feature :: ('f, 'e, 'f list) feature_callback" f st acc and D "add_feature :: ('f, 'e, 'f list) feature_callback" f ds st acc
    arbitrary: s and s rule: visit_visit_dependencies.induct)
  case (1 D f st acc)
  show ?case
  proof (cases "map_of st f = Some UNVISITED")
    case True
    have "follows cb s' acc' (case add_feature f acc' of (e, x) \<Rightarrow> (map_option (Callback_Error f) e, AList.update f VISITED st', x))
        (case cb f s' of (e, x) \<Rightarrow> (map_option (Callback_Error f) e, AList.update f VISITED st', x))" for s' acc' st'
      by (auto simp: follows_def add_feature_def split: prod.split option.split)
    from follows_then [OF 1 [OF True refl, of s] this] show ?thesis
      by (simp add: visit.simps [of _ _ f st] True)
  next
    case False
    then show ?thesis by (auto simp: follows_def visit.simps [of _ _ f st] split: option.split Status.split)
  qed
next
  case (4 D f d ds st acc)
  show ?case unfolding visit_dependencies.simps
    by (rule follows_then [OF 4(1)]) (rule 4(2) [OF sym refl refl])
qed (simp_all add: follows_def)

lemma visit_features_follows:
  fixes cb :: "('f, 'e, 's) feature_callback"
  shows "follows cb s acc (visit_features D (add_feature :: ('f, 'e, 'f list) feature_callback) fs st acc) (visit_features D cb fs st s)"
proof (induction fs arbitrary: s acc st)
  case (Cons f fs)
  show ?case unfolding visit_features.simps by (rule follows_then [OF visit_follows(1) Cons.IH])
qed (simp add: follows_def)

text \<open>So a topological visit finds an order and runs the callbacks in that order.\<close>

lemma TopologicalVisit_collect:
  assumes "TopologicalVisit D (add_feature :: ('f, 'e, 'f list) feature_callback) fs [] = (r, order)"
  shows "TopologicalVisit D cb fs s =
    (case run_callbacks cb order s of (Some e, s') \<Rightarrow> (Some e, s') | (None, s') \<Rightarrow> (r, s'))"
  using visit_features_follows [of cb s "[]" D fs "map (\<lambda>f. (f, UNVISITED)) fs"] assms
  by (auto simp: TopologicalVisit_def follows_def split: prod.splits option.splits)

subsection \<open>The order puts dependencies first\<close>

definition dependencies_first :: "('f \<Rightarrow> 'f option list) \<Rightarrow> 'f list \<Rightarrow> bool" where
  "dependencies_first D fs \<longleftrightarrow> (\<forall>i<length fs. set (D (fs ! i)) \<subseteq> Some ` set (take i fs))"

lemma dependencies_first_snoc:
  "dependencies_first D (fs @ [f]) \<longleftrightarrow> dependencies_first D fs \<and> set (D f) \<subseteq> Some ` set fs"
  by (auto simp: dependencies_first_def less_Suc_eq nth_append)

definition visit_inv :: "('f \<Rightarrow> 'f option list) \<Rightarrow> ('f \<times> Status) list \<Rightarrow> 'f list \<Rightarrow> bool" where
  "visit_inv D st acc \<longleftrightarrow> (\<forall>g. map_of st g = Some VISITED \<longleftrightarrow> g \<in> set acc) \<and> distinct acc \<and> dependencies_first D acc"

definition visiting :: "('f \<times> Status) list \<Rightarrow> 'f set" where
  "visiting st = {g. map_of st g = Some VISITING}"

lemma visiting_update [simp]:
  "visiting (AList.update f VISITING st) = insert f (visiting st)"
  "visiting (AList.update f VISITED st) = visiting st - {f}"
  by (auto simp: visiting_def update_conv')

text \<open>What a visit keeps and establishes, in terms of the marks before and after.\<close>

definition visit_post ::
  "('f \<Rightarrow> 'f option list) \<Rightarrow> ('f \<times> Status) list \<Rightarrow> 'f list \<Rightarrow> 'f option set \<Rightarrow> ('f, 'e, 'f list) visit_result \<Rightarrow> bool"
where
  "visit_post D st acc goals c \<longleftrightarrow>
     (case c of (r, st', acc') \<Rightarrow>
        dom (map_of st') = dom (map_of st) \<and> visit_inv D st' acc' \<and> set acc \<subseteq> set acc' \<and>
        (r = None \<longrightarrow> goals \<subseteq> Some ` set acc' \<and> visiting st' = visiting st))"

lemma visit_post_then:
  assumes "visit_post D st acc G (None, st1, acc1)" and "visit_post D st1 acc1 H c"
  shows "visit_post D st acc (G \<union> H) c"
proof -
  obtain r st' acc' where c: "c = (r, st', acc')" by (cases c) auto
  have "set acc \<subseteq> set acc1" "set acc1 \<subseteq> set acc'" "G \<subseteq> Some ` set acc1" using assms by (simp_all add: visit_post_def c)
  then have "set acc \<subseteq> set acc'" "G \<subseteq> Some ` set acc'" by (blast intro: order_trans)+
  then show ?thesis using assms by (simp add: visit_post_def c)
qed

lemma visit_collects:
  fixes D :: "'f \<Rightarrow> 'f option list"
  shows "visit_inv D st acc \<Longrightarrow> visit_post D st acc {Some f} (visit D (add_feature :: ('f, 'e, 'f list) feature_callback) f st acc)"
    and "visit_inv D st acc \<Longrightarrow> visit_post D st acc (set ds) (visit_dependencies D (add_feature :: ('f, 'e, 'f list) feature_callback) f ds st acc)"
proof (induction D "add_feature :: ('f, 'e, 'f list) feature_callback" f st acc and D "add_feature :: ('f, 'e, 'f list) feature_callback" f ds st acc
    rule: visit_visit_dependencies.induct)
  case (1 D f st acc)
  show ?case
  proof (cases "map_of st f = Some UNVISITED")
    case True
    let ?st = "AList.update f VISITING st"
    have dom: "f \<in> dom (map_of st)" and new: "f \<notin> visiting st" using True by (auto simp: visiting_def)
    have "f \<notin> set acc"
    proof
      assume "f \<in> set acc"
      then have "map_of st f = Some VISITED" using 1(2) by (simp add: visit_inv_def)
      then show False using True by simp
    qed
    then have "visit_inv D ?st acc" using 1(2) by (auto simp: visit_inv_def update_conv')
    note post = 1(1) [OF True refl this]
    have same: "insert f (dom (map_of st)) = dom (map_of st)" using dom by (rule insert_absorb)
    obtain r st1 acc1 where d: "visit_dependencies D (add_feature :: ('f, 'e, 'f list) feature_callback) f (D f) ?st acc = (r, st1, acc1)" by (metis prod_cases3)
    then have deps: "dom (map_of st1) = dom (map_of st)" "visit_inv D st1 acc1" "set acc \<subseteq> set acc1"
        "r = None \<longrightarrow> set (D f) \<subseteq> Some ` set acc1 \<and> visiting st1 = insert f (visiting st)"
      using post by (simp_all add: visit_post_def update_conv' same)
    show ?thesis
    proof (cases r)
      case None
      then have "map_of st1 f = Some VISITING" using deps(4) by (auto simp: visiting_def)
      moreover have "map_of st1 f = Some VISITED" if "f \<in> set acc1" using deps(2) that by (simp add: visit_inv_def)
      ultimately have "f \<notin> set acc1" by auto
      then have "visit_inv D (AList.update f VISITED st1) (acc1 @ [f])"
        using deps(2,4) None by (auto simp: visit_inv_def update_conv' dependencies_first_snoc)
      moreover have "visiting st1 - {f} = visiting st" using deps(4) None new by auto
      ultimately show ?thesis using d deps None same
        by (auto simp: visit_post_def visit.simps [of _ _ f st] True add_feature_def update_conv')
    next
      case (Some e)
      then show ?thesis using d deps by (simp add: visit_post_def visit.simps [of _ _ f st] True)
    qed
  next
    case False
    then show ?thesis using 1(2)
      by (auto simp: visit_post_def visit_inv_def visit.simps [of _ _ f st] split: option.split Status.split)
  qed
next
  case (4 D f d ds st acc)
  obtain r st1 acc1 where v: "visit D (add_feature :: ('f, 'e, 'f list) feature_callback) d st acc = (r, st1, acc1)" by (metis prod_cases3)
  have post: "visit_post D st acc {Some d} (r, st1, acc1)" using 4(1,3) v by simp
  show ?case
  proof (cases r)
    case None
    then have "visit_post D st1 acc1 (set ds) (visit_dependencies D (add_feature :: ('f, 'e, 'f list) feature_callback) f ds st1 acc1)"
      using 4(2) [OF v [symmetric] None refl] post by (simp add: visit_post_def)
    then show ?thesis using visit_post_then post v None by fastforce
  next
    case (Some e)
    then show ?thesis using post v by (simp add: visit_post_def)
  qed
qed (simp_all add: visit_post_def)

lemma visit_features_collects:
  fixes D :: "'f \<Rightarrow> 'f option list"
  shows "visit_inv D st acc \<Longrightarrow> visit_post D st acc (Some ` set fs) (visit_features D (add_feature :: ('f, 'e, 'f list) feature_callback) fs st acc)"
proof (induction fs arbitrary: st acc)
  case (Cons f fs)
  obtain r st1 acc1 where v: "visit D (add_feature :: ('f, 'e, 'f list) feature_callback) f st acc = (r, st1, acc1)" by (metis prod_cases3)
  have post: "visit_post D st acc {Some f} (r, st1, acc1)" using visit_collects(1) [OF Cons.prems] v by metis
  show ?case
  proof (cases r)
    case None
    then have "visit_inv D st1 acc1" using post by (simp add: visit_post_def)
    from visit_post_then [OF post [unfolded None] Cons.IH [OF this]] show ?thesis using v None by simp
  next
    case (Some e)
    then show ?thesis using post v by (simp add: visit_post_def)
  qed
qed (simp add: visit_post_def)

subsection \<open>When there is an order\<close>

text \<open>The dependency graph of a set of features: all dependencies are in the set, and there is no cycle.\<close>

definition dependency :: "('f \<Rightarrow> 'f option list) \<Rightarrow> 'f set \<Rightarrow> ('f \<times> 'f) set" where
  "dependency D S = {(f, d). f \<in> S \<and> Some d \<in> set (D f)}"

definition well_formed_graph :: "('f \<Rightarrow> 'f option list) \<Rightarrow> 'f set \<Rightarrow> bool" where
  "well_formed_graph D S \<longleftrightarrow> (\<forall>f\<in>S. set (D f) \<subseteq> Some ` S) \<and> acyclic (dependency D S)"

text \<open>In such a graph a visit succeeds when the features being visited lead to the one it is for.\<close>

lemma visit_succeeds:
  fixes D :: "'f \<Rightarrow> 'f option list"
  assumes "well_formed_graph D S"
  shows "visit_inv D st acc \<Longrightarrow> dom (map_of st) = S \<Longrightarrow> f \<in> S \<Longrightarrow> \<forall>g\<in>visiting st. (g, f) \<in> (dependency D S)\<^sup>+ \<Longrightarrow>
      fst (visit D (add_feature :: ('f, 'e, 'f list) feature_callback) f st acc) = None"
    and "visit_inv D st acc \<Longrightarrow> dom (map_of st) = S \<Longrightarrow> f \<in> S \<Longrightarrow> set ds \<subseteq> set (D f) \<Longrightarrow> \<forall>g\<in>visiting st. (g, f) \<in> (dependency D S)\<^sup>* \<Longrightarrow>
      fst (visit_dependencies D (add_feature :: ('f, 'e, 'f list) feature_callback) f ds st acc) = None"
  using assms
proof (induction D "add_feature :: ('f, 'e, 'f list) feature_callback" f st acc and D "add_feature :: ('f, 'e, 'f list) feature_callback" f ds st acc
    rule: visit_visit_dependencies.induct)
  case (1 D f st acc)
  have "f \<notin> visiting st" using 1(5,6) by (auto simp: well_formed_graph_def acyclic_def)
  moreover have "map_of st f \<noteq> None" using 1(3,4) by auto
  ultimately consider "map_of st f = Some UNVISITED" | "map_of st f = Some VISITED"
    by (cases "the (map_of st f)") (auto simp: visiting_def)
  then show ?case
  proof cases
    case new: 1
    let ?st = "AList.update f VISITING st"
    have "f \<notin> set acc"
    proof
      assume "f \<in> set acc"
      then have "map_of st f = Some VISITED" using 1(2) by (simp add: visit_inv_def)
      then show False using new by simp
    qed
    then have "visit_inv D ?st acc" using 1(2) by (auto simp: visit_inv_def update_conv')
    moreover have "dom (map_of ?st) = S" using 1(3,4) by (auto simp: update_conv')
    moreover have "\<forall>g\<in>visiting ?st. (g, f) \<in> (dependency D S)\<^sup>*" using 1(5) by auto
    ultimately have "fst (visit_dependencies D (add_feature :: ('f, 'e, 'f list) feature_callback) f (D f) ?st acc) = None"
      using 1(1) [OF new refl] 1(4,6) by auto
    then show ?thesis by (auto simp: visit.simps [of _ _ f st] new add_feature_def split: prod.splits)
  qed (simp add: visit.simps [of _ _ f st])
next
  case (3 D f ds st acc)
  then show ?case by (auto simp: well_formed_graph_def)
next
  case (4 D f d ds st acc)
  have d: "(f, d) \<in> dependency D S" "d \<in> S" using 4(5,6,8) by (auto simp: dependency_def well_formed_graph_def)
  then have "\<forall>g\<in>visiting st. (g, d) \<in> (dependency D S)\<^sup>+" using 4(7) by (blast intro: rtrancl_into_trancl1)
  then have ok: "fst (visit D (add_feature :: ('f, 'e, 'f list) feature_callback) d st acc) = None" using 4(1,3,4,8) d by blast
  then obtain st1 acc1 where v: "visit D (add_feature :: ('f, 'e, 'f list) feature_callback) d st acc = (None, st1, acc1)" by (metis prod.collapse)
  have "visit_post D st acc {Some d} (None :: ('f, 'e) feature_error option, st1, acc1)" using visit_collects(1) [OF 4(3)] v by metis
  then have "visit_inv D st1 acc1" "dom (map_of st1) = S" "visiting st1 = visiting st" using 4(4) by (simp_all add: visit_post_def)
  then have "fst (visit_dependencies D (add_feature :: ('f, 'e, 'f list) feature_callback) f ds st1 acc1) = None"
    using 4(2) [OF v [symmetric] refl refl] 4(5-8) by simp
  then show ?case using v by simp
qed simp

lemma visit_features_succeeds:
  fixes D :: "'f \<Rightarrow> 'f option list"
  assumes "well_formed_graph D S"
  shows "visit_inv D st acc \<Longrightarrow> dom (map_of st) = S \<Longrightarrow> set fs \<subseteq> S \<Longrightarrow> visiting st = {} \<Longrightarrow>
    fst (visit_features D (add_feature :: ('f, 'e, 'f list) feature_callback) fs st acc) = None"
proof (induction fs arbitrary: st acc)
  case (Cons f fs)
  have "fst (visit D (add_feature :: ('f, 'e, 'f list) feature_callback) f st acc) = None"
    by (rule visit_succeeds(1) [OF assms Cons.prems(1,2)]) (use Cons.prems(3,4) in auto)
  then obtain st1 acc1 where v: "visit D (add_feature :: ('f, 'e, 'f list) feature_callback) f st acc = (None, st1, acc1)" by (metis prod.collapse)
  have "visit_post D st acc {Some f} (None :: ('f, 'e) feature_error option, st1, acc1)"
    using visit_collects(1) [OF Cons.prems(1)] v by metis
  then have "fst (visit_features D (add_feature :: ('f, 'e, 'f list) feature_callback) fs st1 acc1) = None"
    using Cons.prems by (intro Cons.IH) (simp_all add: visit_post_def)
  then show ?case using v by simp
qed simp

lemma ordered_acyclic:
  assumes "dependencies_first D order" and "distinct order"
  shows "acyclic (dependency D (set order))"
proof -
  define pos where "pos x = length (takeWhile (\<lambda>y. y \<noteq> x) order)" for x
  have pos: "pos (order ! i) = i" if "i < length order" for i
  proof -
    have "takeWhile (\<lambda>y. y \<noteq> order ! i) order = take i order"
      by (rule takeWhile_eq_take_P_nth) (use that assms(2) in \<open>auto simp: nth_eq_iff_index_eq\<close>)
    then show ?thesis using that by (simp add: pos_def)
  qed
  have "(dependency D (set order))\<inverse> \<subseteq> measure pos"
  proof
    fix p
    assume "p \<in> (dependency D (set order))\<inverse>"
    then obtain d i where p: "p = (d, order ! i)" and i: "i < length order" and "Some d \<in> set (D (order ! i))"
      by (auto simp: dependency_def in_set_conv_nth)
    then have "d \<in> set (take i order)" using assms(1) by (auto simp: dependencies_first_def)
    then obtain j where "j < i" "d = order ! j" by (auto simp: in_set_conv_nth)
    then show "p \<in> measure pos" using p i pos by simp
  qed
  then have "acyclic ((dependency D (set order))\<inverse>)" by (intro wf_acyclic wf_subset [OF wf_measure])
  then show ?thesis by simp
qed

text \<open>The order exists exactly when the graph is well formed, and then contains every feature once.\<close>

lemma collected_order:
  fixes D :: "'f \<Rightarrow> 'f option list"
  assumes "TopologicalVisit D (add_feature :: ('f, 'e, 'f list) feature_callback) fs [] = (r, order)"
  shows "r = None \<longleftrightarrow> well_formed_graph D (set fs)"
    and "r = None \<Longrightarrow> set order = set fs \<and> distinct order \<and> dependencies_first D order"
proof -
  let ?st = "map (\<lambda>f. (f, UNVISITED)) fs"
  have map: "map_of ?st = (\<lambda>g. if g \<in> set fs then Some UNVISITED else None)"
    by (induction fs) auto
  have inv: "visit_inv D ?st []" by (simp add: visit_inv_def map dependencies_first_def)
  obtain st' where st': "visit_features D (add_feature :: ('f, 'e, 'f list) feature_callback) fs ?st [] = (r, st', order)"
    using assms by (auto simp: TopologicalVisit_def split: prod.splits)
  have dom: "dom (map_of ?st) = set fs" unfolding map by (auto split: if_splits)
  from visit_features_collects [OF inv, of fs] st' have post: "visit_post D ?st [] (Some ` set fs) (r, st', order)" by metis
  have ord: "set order = set fs \<and> distinct order \<and> dependencies_first D order" if "r = None"
  proof -
    have "set fs \<subseteq> set order" using post that by (auto simp: visit_post_def)
    moreover have "set order \<subseteq> dom (map_of st')"
    proof
      fix x
      assume "x \<in> set order"
      then have "map_of st' x = Some VISITED" using post by (simp add: visit_post_def visit_inv_def)
      then show "x \<in> dom (map_of st')" by auto
    qed
    moreover have "dom (map_of st') = set fs" using post dom by (simp add: visit_post_def)
    ultimately show ?thesis using post by (simp add: visit_post_def visit_inv_def)
  qed
  then show "r = None \<Longrightarrow> set order = set fs \<and> distinct order \<and> dependencies_first D order" .
  show "r = None \<longleftrightarrow> well_formed_graph D (set fs)"
  proof
    assume "r = None"
    then have o: "set order = set fs" "distinct order" "dependencies_first D order" using ord by auto
    have "set (D f) \<subseteq> Some ` set order" if f: "f \<in> set order" for f
    proof -
      obtain i where "i < length order" "order ! i = f" using f by (auto simp: in_set_conv_nth)
      then have "set (D f) \<subseteq> Some ` set (take i order)" using o(3) by (auto simp: dependencies_first_def)
      then show ?thesis using set_take_subset [of i order] by blast
    qed
    then show "well_formed_graph D (set fs)" using ordered_acyclic [OF o(3,2)] o(1) by (simp add: well_formed_graph_def)
  next
    assume "well_formed_graph D (set fs)"
    moreover have "visiting ?st = {}" unfolding visiting_def map by auto
    ultimately have "fst (visit_features D (add_feature :: ('f, 'e, 'f list) feature_callback) fs ?st []) = None"
      by (intro visit_features_succeeds [OF _ inv dom]) auto
    then show "r = None" using st' by simp
  qed
qed

lemma add_feature_no_error:
  fixes D :: "'f \<Rightarrow> 'f option list"
  shows "fst (visit D (add_feature :: ('f, 'e, 'f list) feature_callback) f st acc) \<noteq> Some (Callback_Error g x)"
    and "fst (visit_dependencies D (add_feature :: ('f, 'e, 'f list) feature_callback) f ds st acc) \<noteq> Some (Callback_Error g x)"
proof (induction D "add_feature :: ('f, 'e, 'f list) feature_callback" f st acc and D "add_feature :: ('f, 'e, 'f list) feature_callback" f ds st acc
    rule: visit_visit_dependencies.induct)
  case (1 D f st acc)
  then show ?case by (auto simp: visit.simps [of _ _ f st] add_feature_def split: option.splits Status.splits prod.splits)
next
  case (4 D f d ds st acc)
  then show ?case by (auto split: option.splits prod.splits)
qed simp_all

lemma visit_features_no_error:
  fixes D :: "'f \<Rightarrow> 'f option list"
  shows "fst (visit_features D (add_feature :: ('f, 'e, 'f list) feature_callback) fs st acc) \<noteq> Some (Callback_Error g x)"
proof (induction fs arbitrary: st acc)
  case (Cons f fs)
  then show ?case using add_feature_no_error(1) [of D f st acc g x] by (auto split: option.splits prod.splits)
qed simp

subsection \<open>What setup does\<close>

text \<open>What the source relies on of a set: its iteration meets every element once.\<close>

definition iterates_set :: "('f list \<Rightarrow> 'f list) \<Rightarrow> bool" where
  "iterates_set unordered \<longleftrightarrow> (\<forall>xs. distinct (unordered xs) \<and> set (unordered xs) = set xs)"

lemma iterates_remdups: "iterates_set remdups"
  by (simp add: iterates_set_def)

lemma RunSetup_ordered:
  fixes do_setup :: "('f, 'e, 's) feature_callback"
  assumes "iterates_set unordered" and "those features = Some fs" and "well_formed_graph D (set (filter Enabled fs))"
  shows "\<exists>order. distinct order \<and> set order = set (filter Enabled fs) \<and> dependencies_first D order \<and>
    RunSetup unordered D Enabled do_setup features s = run_callbacks do_setup order s"
proof -
  obtain r order where v: "TopologicalVisit D (add_feature :: ('f, 'e, 'f list) feature_callback) (unordered (filter Enabled fs)) [] = (r, order)" by fastforce
  have "r = None" using collected_order(1) [OF v] assms(1,3) by (simp add: iterates_set_def)
  then show ?thesis using collected_order(2) [OF v] v assms(1,2) by (auto simp: RunSetup_def iterates_set_def)
qed

lemma RunSetup_refused:
  fixes do_setup :: "('f, 'e, 's) feature_callback"
  assumes "iterates_set unordered" and "those features = Some fs" and "\<not> well_formed_graph D (set (filter Enabled fs))"
  shows "\<exists>e. RunSetup unordered D Enabled do_setup features s = (Some e, s) \<and> (\<forall>f x. e \<noteq> Callback_Error f x)"
proof -
  let ?fs = "unordered (filter Enabled fs)"
  obtain r order where v: "TopologicalVisit D (add_feature :: ('f, 'e, 'f list) feature_callback) ?fs [] = (r, order)" by fastforce
  then obtain e where "r = Some e" using collected_order(1) [OF v] assms(1,3) by (auto simp: iterates_set_def)
  moreover have "r \<noteq> Some (Callback_Error f x)" for f x
    using visit_features_no_error [of D ?fs "map (\<lambda>f. (f, UNVISITED)) ?fs" "[]" f x] v
    by (auto simp: TopologicalVisit_def split: prod.splits)
  ultimately show ?thesis using v assms(2) by (auto simp: RunSetup_def)
qed

lemma those_eq_Some: "None \<notin> set xs \<Longrightarrow> \<exists>ys. those xs = Some ys \<and> xs = map Some ys"
proof (induction xs)
  case (Cons x xs)
  then show ?case by (cases x) auto
qed simp

lemma those_eq_None: "None \<in> set xs \<Longrightarrow> those xs = None"
  by (induction xs) (auto split: option.split)

text \<open>
  C14: Setup runs each enabled feature once, after all features that it depends on, and stops at the first
  that fails, exactly when no feature is null and the enabled features form a graph without cycles
  that names no null, disabled or unregistered feature. In every other case the setup of no
  feature is run at all, and the error that is reported is one of the graph.
\<close>

theorem setup_runs_dependencies_first:
  assumes "iterates_set unordered" and "S = {f. Some f \<in> set features \<and> Enabled f}"
  shows "if None \<notin> set features \<and> well_formed_graph Dependencies S
    then \<exists>order. distinct order \<and> set order = S \<and> dependencies_first Dependencies order \<and>
      RunSetup unordered Dependencies Enabled do_setup features s = run_callbacks do_setup order s
    else \<exists>e. RunSetup unordered Dependencies Enabled do_setup features s = (Some e, s) \<and> (\<forall>f x. e \<noteq> Callback_Error f x)"
proof (cases "None \<in> set features")
  case True
  then show ?thesis by (simp add: RunSetup_def those_eq_None)
next
  case False
  then obtain fs where fs: "those features = Some fs" "features = map Some fs" using those_eq_Some by blast
  have "set (filter Enabled fs) = S" using assms(2) fs(2) by auto
  then show ?thesis
    using False RunSetup_ordered [OF assms(1) fs(1), of Dependencies Enabled do_setup s]
      RunSetup_refused [OF assms(1) fs(1), of Dependencies Enabled do_setup s] by auto
qed

text \<open>A graph of four features, one of them disabled, and the order in which they are set up.\<close>

definition diamond :: "nat \<Rightarrow> nat option list" where
  "diamond f = (if f = 3 then [Some 1, Some 2] else if f = 1 \<or> f = 2 then [Some 0] else [])"

lemma diamond_graph: "well_formed_graph diamond {0, 1, 2, 3}" "\<not> well_formed_graph diamond {1, 2, 3}"
proof -
  have "dependencies_first diamond [0, 1, 2, 3]" by code_simp
  then have "acyclic (dependency diamond (set [0, 1, 2, 3]))" by (rule ordered_acyclic) simp
  then show "well_formed_graph diamond {0, 1, 2, 3}" by (simp add: well_formed_graph_def diamond_def)
qed (simp add: well_formed_graph_def diamond_def)

theorem setup_runs_dependencies_first_witness:
  "(\<exists>order. distinct order \<and> set order = {0, 1, 2, 3} \<and> dependencies_first diamond order \<and>
     RunSetup remdups diamond (\<lambda>_. True) (\<lambda>f s. (None :: unit option, s @ [f])) [Some 3, Some 2, Some 0, Some 1] [] =
       run_callbacks (\<lambda>f s. (None, s @ [f])) order []) \<and>
   (\<exists>e. RunSetup remdups diamond (\<lambda>f. f \<noteq> 0) (\<lambda>f s. (None :: unit option, s @ [f])) [Some 3, Some 2, Some 0, Some 1] [] = (Some e, []))"
proof -
  have "{f. Some f \<in> set [Some 3, Some 2, Some 0, Some (1 :: nat)] \<and> True} = {0, 1, 2, 3}"
    and "{f. Some f \<in> set [Some 3, Some 2, Some 0, Some (1 :: nat)] \<and> f \<noteq> 0} = {1, 2, 3}" by auto
  note sets = this
  show ?thesis
    using setup_runs_dependencies_first [OF iterates_remdups, of _ "[Some 3, Some 2, Some 0, Some 1]" "\<lambda>_. True" diamond
        "\<lambda>f s. (None :: unit option, s @ [f])" "[]", OF sets(1) [symmetric]]
      setup_runs_dependencies_first [OF iterates_remdups, of _ "[Some 3, Some 2, Some 0, Some 1]" "\<lambda>f. f \<noteq> 0" diamond
        "\<lambda>f s. (None :: unit option, s @ [f])" "[]", OF sets(2) [symmetric]] diamond_graph
    by auto
qed

subsection \<open>The values that features calculate\<close>

text \<open>
  The state after some features were set up: exactly these have a value, and each value is what the
  feature calculates from the values that are there.
\<close>

definition calculated_ok :: "('f \<Rightarrow> ('f \<Rightarrow> 'v result) \<Rightarrow> ('e + 'v) result) \<Rightarrow> 'f set \<Rightarrow> ('f \<Rightarrow> 'v option) \<Rightarrow> bool" where
  "calculated_ok Calculate S calculated \<longleftrightarrow>
     dom calculated = S \<and> (\<forall>f\<in>S. \<exists>v. calculated f = Some v \<and> Calculate f (deref calculated) = Ok (Inr v))"

lemma dependencies_first_append:
  assumes "dependencies_first D (xs @ f # ys)"
  shows "set (D f) \<subseteq> Some ` set xs" and "g \<in> set xs \<Longrightarrow> set (D g) \<subseteq> Some ` set xs"
proof -
  show "set (D f) \<subseteq> Some ` set xs"
    using assms by (auto simp: dependencies_first_def dest!: spec [of _ "length xs"])
  assume "g \<in> set xs"
  then obtain i where i: "i < length xs" "xs ! i = g" by (auto simp: in_set_conv_nth)
  then have "set (D g) \<subseteq> Some ` set (take i xs)" using assms by (auto simp: dependencies_first_def nth_append dest!: spec [of _ i])
  then show "set (D g) \<subseteq> Some ` set xs" using set_take_subset [of i xs] by blast
qed

lemma run_setups_values:
  fixes Calculate :: "'f \<Rightarrow> ('f \<Rightarrow> 'v result) \<Rightarrow> ('e + 'v) result"
  assumes reads: "\<And>f g h. \<forall>d. Some d \<in> set (D f) \<longrightarrow> g d = h d \<Longrightarrow> Calculate f g = Calculate f h"
    and returns: "\<And>f g. \<forall>d. Some d \<in> set (D f) \<longrightarrow> (\<exists>v. g d = Ok v) \<Longrightarrow> \<exists>r. Calculate f g = Ok r"
    and "dependencies_first D (xs @ ys)" and "distinct (xs @ ys)" and "calculated_ok Calculate (set xs) calc"
  shows "\<exists>r calc'. run_callbacks (ResultSetup Calculate) ys calc = (r, calc') \<and>
    (case r of None \<Rightarrow> calculated_ok Calculate (set xs \<union> set ys) calc'
     | Some e \<Rightarrow> \<exists>f\<in>set ys. \<exists>x. e = Callback_Error f (Calculate_Error x) \<and> Calculate f (deref calc') = Ok (Inl x))"
  using assms(3-5)
proof (induction ys arbitrary: xs calc)
  case (Cons f ys)
  note first = dependencies_first_append [OF Cons.prems(1)]
  have f: "f \<notin> set xs" "calc f = None" using Cons.prems(2,3) by (auto simp: calculated_ok_def)
  have "\<forall>d. Some d \<in> set (D f) \<longrightarrow> (\<exists>v. deref calc d = Ok v)"
    using first(1) Cons.prems(3) by (fastforce simp: calculated_ok_def deref_def)
  then obtain r where r: "Calculate f (deref calc) = Ok r" using returns by blast
  show ?case
  proof (cases r)
    case (Inl x)
    then show ?thesis using r f(2) by (auto simp: ResultSetup_def)
  next
    case (Inr v)
    let ?calc = "calc(f \<mapsto> v)"
    have same: "Calculate g (deref ?calc) = Calculate g (deref calc)" if "set (D g) \<subseteq> Some ` set xs" for g
      using that f(1) by (intro reads) (auto simp: deref_def)
    have pre: "dependencies_first D ((xs @ [f]) @ ys)" "distinct ((xs @ [f]) @ ys)" using Cons.prems(1,2) by simp_all
    have "calculated_ok Calculate (set (xs @ [f])) ?calc"
      using Cons.prems(3) same first r Inr f(1) by (auto simp: calculated_ok_def)
    from Cons.IH [OF pre this] obtain r' calc' where
      "run_callbacks (ResultSetup Calculate) ys ?calc = (r', calc')"
      "case r' of None \<Rightarrow> calculated_ok Calculate (set (xs @ [f]) \<union> set ys) calc'
       | Some e \<Rightarrow> \<exists>g\<in>set ys. \<exists>x. e = Callback_Error g (Calculate_Error x) \<and> Calculate g (deref calc') = Ok (Inl x)"
      by blast
    moreover have "ResultSetup Calculate f calc = (None, ?calc)" using r Inr f(2) by (simp add: ResultSetup_def)
    ultimately show ?thesis by (auto split: option.splits)
  qed
qed auto

text \<open>
  C27: For generated features, which depend on those of their arguments that are features, setup calculates
  each value from the values of the arguments. Let a calculation read only the features
  among its arguments, and return when these have values. If the graph is well formed, then no
  value is read before it is there and none is calculated twice; when setup succeeds, every feature has
  a value and the values solve all equations at once, and when it fails, the failure is that of a
  calculation.
\<close>

theorem setup_values_solve_equations:
  assumes "iterates_set unordered" and "well_formed_graph (SetupFeatureDeps unordered args) (set fs)"
    and "\<And>f g h. \<forall>d. Some d \<in> set (args f) \<longrightarrow> g d = h d \<Longrightarrow> Calculate f g = Calculate f h"
    and "\<And>f g. \<forall>d. Some d \<in> set (args f) \<longrightarrow> (\<exists>v. g d = Ok v) \<Longrightarrow> \<exists>r. Calculate f g = Ok r"
  shows "\<exists>r calculated.
    RunSetup unordered (SetupFeatureDeps unordered args) (\<lambda>_. True) (ResultSetup Calculate) (map Some fs) (\<lambda>_. None) = (r, calculated) \<and>
    (case r of
       None \<Rightarrow> \<forall>f\<in>set fs. \<exists>v. calculated f = Some v \<and> Calculate f (deref calculated) = Ok (Inr v)
     | Some e \<Rightarrow> \<exists>f\<in>set fs. \<exists>x. e = Callback_Error f (Calculate_Error x) \<and> Calculate f (deref calculated) = Ok (Inl x))"
proof -
  let ?D = "SetupFeatureDeps unordered args"
  have deps: "Some d \<in> set (?D f) \<longleftrightarrow> Some d \<in> set (args f)" for d f
    using assms(1) by (force simp: SetupFeatureDeps_def iterates_set_def List.map_filter_def)
  have those: "those (map Some fs) = Some fs" by (induction fs) simp_all
  have "well_formed_graph ?D (set (filter (\<lambda>_. True) fs))" using assms(2) by simp
  from RunSetup_ordered [OF assms(1) those this, of "ResultSetup Calculate" "\<lambda>_. None"] obtain order where
    order: "distinct order" "set order = set fs" "dependencies_first ?D order"
      "RunSetup unordered ?D (\<lambda>_. True) (ResultSetup Calculate) (map Some fs) (\<lambda>_. None) = run_callbacks (ResultSetup Calculate) order (\<lambda>_. None)"
    by auto
  have "calculated_ok Calculate (set []) (\<lambda>_. None)" by (simp add: calculated_ok_def)
  from run_setups_values [of ?D Calculate "[]" order, OF assms(3,4) _ _ this] order deps show ?thesis
    by (fastforce simp: calculated_ok_def split: option.splits)
qed

definition doubling_args :: "nat \<Rightarrow> nat option list" where
  "doubling_args f = (if f = 0 then [None] else [None, Some (f - 1)])"

definition doubling :: "nat \<Rightarrow> (nat \<Rightarrow> int result) \<Rightarrow> (string + int) result" where
  "doubling f value_of = (if f = 0 then Ok (Inr 1) else bind_result (value_of (f - 1)) (\<lambda>v. Ok (Inr (2 * v))))"

theorem setup_values_solve_equations_witness:
  "\<exists>calculated. RunSetup remdups (SetupFeatureDeps remdups doubling_args) (\<lambda>_. True) (ResultSetup doubling)
      (map Some [2, 1, 0]) (\<lambda>_. None) = (None, calculated) \<and>
    calculated 2 = Some 4 \<and> doubling 2 (deref calculated) = Ok (Inr 4)"
proof -
  have "dependencies_first (SetupFeatureDeps remdups doubling_args) [0, 1, 2]" by code_simp
  then have "acyclic (dependency (SetupFeatureDeps remdups doubling_args) (set [0, 1, 2]))" by (rule ordered_acyclic) simp
  then have graph: "well_formed_graph (SetupFeatureDeps remdups doubling_args) (set [2, 1, 0])"
    by (auto simp: well_formed_graph_def SetupFeatureDeps_def doubling_args_def List.map_filter_def insert_commute)
  have reads: "doubling f g = doubling f h" if "\<forall>d. Some d \<in> set (doubling_args f) \<longrightarrow> g d = h d" for f g h
    using that by (auto simp: doubling_def doubling_args_def)
  have returns: "\<exists>r. doubling f g = Ok r" if "\<forall>d. Some d \<in> set (doubling_args f) \<longrightarrow> (\<exists>v. g d = Ok v)" for f g
    using that by (auto simp: doubling_def doubling_args_def split: if_splits)
  obtain r calculated where run: "RunSetup remdups (SetupFeatureDeps remdups doubling_args) (\<lambda>_. True) (ResultSetup doubling)
      (map Some [2, 1, 0]) (\<lambda>_. None) = (r, calculated)" and
    res: "case r of None \<Rightarrow> \<forall>f\<in>set [2, 1, 0]. \<exists>v. calculated f = Some v \<and> doubling f (deref calculated) = Ok (Inr v)
      | Some e \<Rightarrow> \<exists>f\<in>set [2, 1, 0]. \<exists>x. e = Callback_Error f (Calculate_Error x) \<and> doubling f (deref calculated) = Ok (Inl x)"
    using setup_values_solve_equations [OF iterates_remdups graph, of doubling] reads returns by blast
  have "doubling f g \<noteq> Ok (Inl x)" for f g x by (cases "g (f - 1)") (simp_all add: doubling_def)
  then have "r = None" using res by (cases r) auto
  then have v: "calculated 0 = Some 1" "\<exists>v. calculated 1 = Some v \<and> doubling 1 (deref calculated) = Ok (Inr v)"
      "\<exists>v. calculated 2 = Some v \<and> doubling 2 (deref calculated) = Ok (Inr v)"
    using res by (auto simp: doubling_def)
  then have "calculated 1 = Some 2" by (auto simp: doubling_def deref_def)
  with v have "calculated 2 = Some 4" by (auto simp: doubling_def deref_def)
  then show ?thesis using run \<open>r = None\<close> v(3) by auto
qed

end
