(* ===== verification/Disk_Files.thy ===== *)
theory Disk_Files
  imports Shared_Buf
begin

section \<open>Files by name, descriptors and copying between them\<close>

text \<open>
  The parts of \<^verbatim>\<open>common/libs/fs/shared_fd.cpp\<close> and \<^verbatim>\<open>common/libs/utils/files.cpp\<close> that the programs for disk
  images use. The files of the host are a map from names to contents; a descriptor is a name and an
  offset, and a call on it is the call of \<open>Io_Copy\<close> on that file. Files that are open are not removed.
\<close>

type_synonym files = "string \<Rightarrow> string option"

record disk_file =
  open_path :: string
  open_offset :: nat

definition file_of :: "files \<Rightarrow> disk_file \<Rightarrow> posix_file" where
  "file_of fs fd = \<lparr>file_bytes = (case fs (open_path fd) of None \<Rightarrow> [] | Some b \<Rightarrow> b), file_offset = open_offset fd\<rparr>"

definition write_open :: "(disk_file \<times> files) write_call" where
  "write_open s buf =
     (let (fd, fs) = s; (n, f) = posix_write buf (file_of fs fd)
      in (n, fd\<lparr>open_offset := file_offset f\<rparr>, fs(open_path fd \<mapsto> file_bytes f)))"

text \<open>\<^verbatim>\<open>FileSize\<close> is 0 for a file that does not exist; \<^verbatim>\<open>Creat\<close> truncates.\<close>

definition FileSize :: "files \<Rightarrow> string \<Rightarrow> nat" where
  "FileSize fs path = (case fs path of None \<Rightarrow> 0 | Some b \<Rightarrow> length b)"

definition Creat :: "string \<Rightarrow> files \<Rightarrow> disk_file \<times> files" where
  "Creat path fs = (\<lparr>open_path = path, open_offset = 0\<rparr>, fs(path \<mapsto> []))"

definition OpenRead :: "string \<Rightarrow> files \<Rightarrow> disk_file option" where
  "OpenRead path fs = (case fs path of None \<Rightarrow> None | Some _ \<Rightarrow> Some \<lparr>open_path = path, open_offset = 0\<rparr>)"

subsection \<open>Copying\<close>

text \<open>
  \<^verbatim>\<open>FileInstance::CopyFrom\<close>, over a state that has both descriptors. Whether the wait for the input ends
  well is an argument. The inner loop passes the start of the buffer to every write.
\<close>

definition kPreferredBufferSize :: nat where "kPreferredBufferSize = 8192"

function copy_write_loop :: "'f write_call \<Rightarrow> string \<Rightarrow> nat \<Rightarrow> 'f \<Rightarrow> bool \<times> 'f" where
  "copy_write_loop wr buffer written f =
     (let (res, f') = wr f buffer
      in if res \<le> 0 then (False, f')
         else if written + nat res < length buffer then copy_write_loop wr buffer (written + nat res) f'
         else (True, f'))"
  by pat_completeness auto
termination
  by (relation "measure (\<lambda>(_, buffer, written, _). length buffer - written)") auto

declare copy_write_loop.simps [simp del]

text \<open>A read gives at most as many bytes as were asked for.\<close>

function CopyFrom :: "('f \<Rightarrow> bool) \<Rightarrow> 'f read_call \<Rightarrow> 'f write_call \<Rightarrow> nat \<Rightarrow> 'f \<Rightarrow> bool \<times> 'f" where
  "CopyFrom polled rd wr len f =
     (if len = 0 then (True, f)
      else if \<not> polled f then (False, f)
      else case rd f (min kPreferredBufferSize len) of
             (None, f) \<Rightarrow> (False, f)
           | (Some buffer, f) \<Rightarrow>
               if buffer = [] then (False, f)
               else (case copy_write_loop wr (take len buffer) 0 f of
                       (False, f) \<Rightarrow> (False, f)
                     | (True, f) \<Rightarrow> CopyFrom polled rd wr (len - length buffer) f))"
  by pat_completeness auto
termination
  by (relation "measure (\<lambda>(_, _, _, len, _). len)") (auto simp: length_greater_0_conv [symmetric] simp del: length_greater_0_conv)

declare CopyFrom.simps [simp del]

text \<open>Both descriptors of a copy between files.\<close>

type_synonym copying_files = "disk_file \<times> disk_file \<times> files"

definition read_in :: "copying_files read_call" where
  "read_in s n =
     (let (in_fd, out_fd, fs) = s; (data, f) = posix_read n (file_of fs in_fd)
      in (Some data, in_fd\<lparr>open_offset := file_offset f\<rparr>, out_fd, fs))"

definition write_out :: "copying_files write_call" where
  "write_out s buf = (let (in_fd, out_fd, fs) = s; (n, out_fd, fs) = write_open (out_fd, fs) buf in (n, in_fd, out_fd, fs))"

subsection \<open>Writing at the end of a file\<close>

text \<open>A descriptor at the end of its file, which has the given contents.\<close>

definition at_end :: "string \<Rightarrow> string \<Rightarrow> disk_file \<times> files \<Rightarrow> bool" where
  "at_end path b s \<longleftrightarrow> (case s of (fd, fs) \<Rightarrow> open_path fd = path \<and> fs path = Some b \<and> open_offset fd = length b)"

lemma at_end_Creat: "at_end path [] (Creat path fs)"
  by (simp add: at_end_def Creat_def)

definition out_bytes :: "disk_file \<times> files \<Rightarrow> string" where
  "out_bytes s = (case s of (fd, fs) \<Rightarrow> (case fs (open_path fd) of None \<Rightarrow> [] | Some b \<Rightarrow> b))"

definition out_ok :: "disk_file \<times> files \<Rightarrow> bool" where
  "out_ok s \<longleftrightarrow> open_offset (fst s) = length (out_bytes s)"

interpretation disk_out: stream_writer write_open out_bytes out_ok
proof unfold_locales
  fix s buf n s'
  assume ok: "out_ok s" and w: "write_open s buf = (n, s')"
  obtain fd fs where s: "s = (fd, fs)" by fastforce
  let ?f = "file_of fs fd"
  have off: "file_offset ?f = length (file_bytes ?f)" using ok by (simp add: s out_ok_def out_bytes_def file_of_def)
  have bytes: "out_bytes s = file_bytes ?f" by (simp add: s out_bytes_def file_of_def)
  obtain f where p: "posix_write buf ?f = (n, f)" and
      s': "s' = (fd\<lparr>open_offset := file_offset f\<rparr>, fs(open_path fd \<mapsto> file_bytes f))"
    using w by (auto simp: s write_open_def split: prod.splits)
  have res: "out_bytes s' = file_bytes f" "out_ok s' \<longleftrightarrow> file_offset f = length (file_bytes f)"
    by (simp_all add: s' out_bytes_def out_ok_def)
  show "out_ok s' \<and> nat n \<le> length buf \<and> out_bytes s' = out_bytes s @ take (nat n) buf" if "0 < n"
    using posix_append.write_some [OF off p that] res bytes by simp
  show "out_ok s' \<and> out_bytes s' = out_bytes s" if "n \<le> 0"
    using posix_append.write_none [OF off p that] res bytes by simp
qed

lemma write_open_end:
  assumes "at_end path b (fd, fs)" and "length b + length buf \<le> max_size" and "buf \<noteq> []"
  shows "\<exists>fd' fs'. write_open (fd, fs) buf = (int (length buf), fd', fs') \<and> at_end path (b @ buf) (fd', fs') \<and>
    (\<forall>p. p \<noteq> path \<longrightarrow> fs' p = fs p)"
  using assms
  by (auto simp: write_open_def at_end_def file_of_def posix_write_def posix_pwrite_def Let_def overwrite_end)

lemma WriteAll_end:
  assumes "at_end path b (fd, fs)" and "length b + length buf \<le> max_size"
  shows "\<exists>fd' fs'. Shared_Buf.WriteAll write_open buf (fd, fs) = (int (length buf), fd', fs') \<and> at_end path (b @ buf) (fd', fs') \<and>
    (\<forall>p. p \<noteq> path \<longrightarrow> fs' p = fs p)"
proof (cases "buf = []")
  case True
  have "write_open (fd, fs) [] = (0, fd, fs)"
    using assms(1) by (auto simp: write_open_def at_end_def file_of_def posix_write_def posix_pwrite_def Let_def)
  then show ?thesis using True assms(1) by (simp add: Shared_Buf.WriteAll_def write_all_loop.simps [of _ _ "[]"])
next
  case False
  then show ?thesis using write_open_end [OF assms False]
    by (auto simp: Shared_Buf.WriteAll_def write_all_loop.simps [of _ _ buf])
qed

subsection \<open>What a copy delivers\<close>

lemma copy_write_loop_whole: "wr f buf = (int (length buf), f') \<Longrightarrow> buf \<noteq> [] \<Longrightarrow> copy_write_loop wr buf w f = (True, f')"
  by (simp add: copy_write_loop.simps [of _ buf])

lemma CopyFrom_end:
  assumes "open_path in_fd \<noteq> path" and "fs (open_path in_fd) = Some c" and "open_offset in_fd + len \<le> length c"
    and "at_end path b (out_fd, fs)" and "length b + len \<le> max_size"
  shows "\<exists>in' out' fs'. CopyFrom (\<lambda>_. True) read_in write_out len (in_fd, out_fd, fs) = (True, in', out', fs') \<and>
    at_end path (b @ take len (drop (open_offset in_fd) c)) (out', fs') \<and> (\<forall>p. p \<noteq> path \<longrightarrow> fs' p = fs p)"
  using assms
proof (induction len arbitrary: in_fd out_fd fs b rule: less_induct)
  case (less len)
  show ?case
  proof (cases "len = 0")
    case True
    then show ?thesis using less.prems(4) by (simp add: CopyFrom.simps)
  next
    case False
    let ?n = "min kPreferredBufferSize len" and ?i = "open_offset in_fd"
    let ?d = "take ?n (drop ?i c)" and ?in = "in_fd\<lparr>open_offset := ?i + ?n\<rparr>"
    have n: "0 < ?n" "?n \<le> len" using False by (simp_all add: kPreferredBufferSize_def)
    have d: "length ?d = ?n" using less.prems(3) n(2) by simp
    then have ne: "?d \<noteq> []" using n(1) by (metis length_greater_0_conv)
    have rd: "read_in (in_fd, out_fd, fs) ?n = (Some ?d, ?in, out_fd, fs)"
      using less.prems(2) d by (simp add: read_in_def posix_read_def file_of_def Let_def)
    have whole: "take len ?d = ?d" by (rule take_all) (use d n(2) in simp)
    have room: "length b + length ?d \<le> max_size" using less.prems(5) n(2) unfolding d by linarith
    obtain out1 fs1 where w: "write_open (out_fd, fs) ?d = (int (length ?d), out1, fs1)" "at_end path (b @ ?d) (out1, fs1)"
        "\<forall>p. p \<noteq> path \<longrightarrow> fs1 p = fs p"
      using write_open_end [OF less.prems(4) room ne] by blast
    have "copy_write_loop write_out (take len ?d) 0 (?in, out_fd, fs) = (True, ?in, out1, fs1)"
      unfolding whole using w(1) ne by (intro copy_write_loop_whole) (simp_all only: write_out_def Let_def prod.case simp_thms)
    then have step: "CopyFrom (\<lambda>_. True) read_in write_out len (in_fd, out_fd, fs) =
        CopyFrom (\<lambda>_. True) read_in write_out (len - ?n) (?in, out1, fs1)"
      using False rd ne d n(1) by (subst CopyFrom.simps) (simp del: take_eq_Nil)
    have "len - ?n < len" using n by simp
    moreover have "fs1 (open_path ?in) = Some c" using w(3) less.prems(1,2) by simp
    moreover have "open_offset ?in + (len - ?n) \<le> length c" using less.prems(3) n(2) by simp
    moreover have "length (b @ ?d) + (len - ?n) \<le> max_size" using less.prems(5) n(2) d by simp
    ultimately obtain in' out' fs' where rest:
      "CopyFrom (\<lambda>_. True) read_in write_out (len - ?n) (?in, out1, fs1) = (True, in', out', fs')"
      "at_end path ((b @ ?d) @ take (len - ?n) (drop (?i + ?n) c)) (out', fs')" "\<forall>p. p \<noteq> path \<longrightarrow> fs' p = fs1 p"
      using less.IH [of "len - ?n" ?in fs1 "b @ ?d" out1] less.prems(1) w(2) by auto
    have "take len (drop ?i c) = ?d @ take (len - ?n) (drop (?i + ?n) c)"
      using take_add [of ?n "len - ?n" "drop ?i c"] n(2) by (simp add: add.commute)
    then show ?thesis using step rest w(3) by auto
  qed
qed

text \<open>
  Copying between descriptors delivers the bytes as long as every write accepts the whole buffer. After a
  write that accepts only a part, the next one starts again at the beginning of the buffer: when it
  succeeds, the copy reports success, and the other side has received the first part twice.
\<close>

theorem copy_repeats_after_short_write:
  assumes "stream_writer wr accepted wok" and "wok f" and "buf \<noteq> []"
    and "wr f buf = (int k, f1)" and "0 < k" and "k < length buf" and "wr f1 buf = (int (length buf), f2)"
  shows "copy_write_loop wr buf 0 f = (True, f2) \<and> accepted f2 = accepted f @ take k buf @ buf \<and>
    (\<forall>g g'. wok g \<and> wr g buf = (int (length buf), g') \<longrightarrow> copy_write_loop wr buf 0 g = (True, g') \<and> accepted g' = accepted g @ buf)"
proof -
  have "accepted f1 = accepted f @ take k buf \<and> wok f1"
    using stream_writer.write_some [OF assms(1,2,4)] assms(5) by simp
  moreover from this have "accepted f2 = accepted f1 @ buf"
    using stream_writer.write_some [OF assms(1) _ assms(7)] assms(3) by simp
  moreover have "copy_write_loop wr buf 0 f = (True, f2)"
    using assms(3-7) by (simp add: copy_write_loop.simps [of wr buf 0] copy_write_loop.simps [of wr buf k])
  moreover have "copy_write_loop wr buf 0 g = (True, g') \<and> accepted g' = accepted g @ buf"
    if "wok g" "wr g buf = (int (length buf), g')" for g g'
    using copy_write_loop_whole [of wr g buf g' 0, OF that(2) assms(3)] stream_writer.write_some [OF assms(1) that] assms(3) by simp
  ultimately show ?thesis by simp
qed

text \<open>A socket that accepts as much as there is room for; the room is what its peer leaves at each call.\<close>

record sock =
  sock_bytes :: string
  sock_room :: "nat list"

definition sock_write :: "sock write_call" where
  "sock_write s buf =
     (case sock_room s of
        [] \<Rightarrow> (- 1, s)
      | n # ns \<Rightarrow> (int (min n (length buf)), s\<lparr>sock_bytes := sock_bytes s @ take n buf, sock_room := ns\<rparr>))"

interpretation socket: stream_writer sock_write sock_bytes "\<lambda>_. True"
  by unfold_locales (auto simp: sock_write_def min_def split: list.splits if_splits)

theorem copy_repeats_after_short_write_witness:
  "copy_write_loop sock_write ''abcdef'' 0 \<lparr>sock_bytes = [], sock_room = [2, 9]\<rparr> = (True, \<lparr>sock_bytes = ''ababcdef'', sock_room = []\<rparr>)"
  using copy_repeats_after_short_write [OF socket.stream_writer_axioms, of "''abcdef''" "\<lparr>sock_bytes = [], sock_room = [2, 9]\<rparr>" 2
      "\<lparr>sock_bytes = ''ab'', sock_room = [9]\<rparr>" "\<lparr>sock_bytes = ''ababcdef'', sock_room = []\<rparr>"]
  by (simp add: sock_write_def)

end
