(* ===== verification/Disk_Image.thy ===== *)
theory Disk_Image
  imports Disk_Files
begin

section \<open>Formats of disk images\<close>

text \<open>
  \<^verbatim>\<open>host/libs/image_aggregator\<close>: the formats \<^verbatim>\<open>raw.cc\<close>, \<^verbatim>\<open>qcow2.cc\<close>, \<^verbatim>\<open>sparse_image.cc\<close>,
  \<^verbatim>\<open>composite_disk.cc\<close>, \<^verbatim>\<open>Dirname\<close> and \<^verbatim>\<open>Basename\<close> of \<^verbatim>\<open>libbase/file.cpp\<close>, and how \<^verbatim>\<open>image_from_file.cc\<close> tells them apart; \<^verbatim>\<open>common/libs/utils/size_utils.h\<close>. Code
  that is not part of the repository is in the record \<open>image_libs\<close>: the protobuf encoding of a
  composite disk, the length of an image in the library for sparse images, the program \<^verbatim>\<open>simg2img\<close>
  that expands one, \<^verbatim>\<open>realpath\<close>, whether a directory can be written, \<^verbatim>\<open>crc32\<close> of zlib, and
  the conversion of a \<^verbatim>\<open>char\<close> to 16 bits, which depends on the platform.
\<close>

datatype ReadWriteCapability = READ_ONLY | READ_WRITE

record ComponentDisk =
  file_path :: string
  component_offset :: u64
  read_write_capability :: ReadWriteCapability

record CompositeDisk =
  cdisk_version :: u64
  component_disks :: "ComponentDisk list"
  cdisk_length :: u64

record image_libs =
  ParseFromString :: "string \<Rightarrow> CompositeDisk option"
  SerializeToString :: "CompositeDisk \<Rightarrow> string"
  sparse_len :: "string \<Rightarrow> u64 option"
  simg2img :: "string \<Rightarrow> string option"
  real_path :: "files \<Rightarrow> string \<Rightarrow> string option"
  dir_writable :: "string \<Rightarrow> bool"
  crc32 :: "string \<Rightarrow> 32 word"
  wide_char :: "char \<Rightarrow> 16 word"

subsection \<open>Sizes\<close>

definition AlignToPowerOf2 :: "u64 \<Rightarrow> 8 word \<Rightarrow> u64" where
  "AlignToPowerOf2 val align_log =
     (let align = push_bit (unat align_log) 1 in ((val + (align - 1)) div align) * align)"

definition PARTITION_SIZE_SHIFT :: "8 word" where "PARTITION_SIZE_SHIFT = 12"
definition DISK_SIZE_SHIFT :: "8 word" where "DISK_SIZE_SHIFT = 16"

definition AlignToPartitionSize :: "u64 \<Rightarrow> u64" where
  "AlignToPartitionSize sz = AlignToPowerOf2 sz PARTITION_SIZE_SHIFT"

subsection \<open>The formats\<close>

definition composite_magic :: string where "composite_magic = ''composite_disk'' @ [CHR 0x1D]"
definition qcow2_magic :: string where "qcow2_magic = ''QFI'' @ [CHR 0xFB]"
definition kAndroidSparseImageMagic :: string where "kAndroidSparseImageMagic = [CHR 0x3A, CHR 0xFF, CHR 0x26, CHR 0xED]"

text \<open>Opening a composite disk through a reader of the I/O library; \<open>None\<close> when reading does not end.\<close>

definition CompositeDiskImage_OpenReader ::
  "image_libs \<Rightarrow> ('s \<Rightarrow> u64 \<Rightarrow> (string \<times> 's) result) \<Rightarrow> 's \<Rightarrow> CompositeDisk result option"
where
  "CompositeDiskImage_OpenReader libs rd s =
     (case ReadExact rd (length composite_magic) s of
        Inl e \<Rightarrow> Some (Inl e)
      | Inr (magic, s) \<Rightarrow>
          if magic \<noteq> composite_magic then Some (Err Cf_Error)
          else (case ReadToString rd s of
                  None \<Rightarrow> None
                | Some (Inl e) \<Rightarrow> Some (Inl e)
                | Some (Inr (message, _)) \<Rightarrow>
                    Some (case ParseFromString libs message of None \<Rightarrow> Err Cf_Error | Some cdisk \<Rightarrow> Ok cdisk)))"

definition CompositeDiskImage_OpenExisting :: "image_libs \<Rightarrow> files \<Rightarrow> string \<Rightarrow> CompositeDisk result option" where
  "CompositeDiskImage_OpenExisting libs fs path =
     (case OpenRead path fs of
        None \<Rightarrow> Some (Err Cf_Error)
      | Some fd \<Rightarrow> CompositeDiskImage_OpenReader libs fd_Read (file_of fs fd))"

text \<open>The header of a qcow2 image is big-endian; its size field has the offset 24.\<close>

fun be_value :: "string \<Rightarrow> nat" where
  "be_value [] = 0"
| "be_value (c # cs) = of_char c * 256 ^ length cs + be_value cs"

definition Qcow2Image_OpenExisting :: "files \<Rightarrow> string \<Rightarrow> string result" where
  "Qcow2Image_OpenExisting fs path =
     (case OpenRead path fs of
        None \<Rightarrow> Err Cf_Error
      | Some fd \<Rightarrow>
          (case fd_ReadExact posix_read_call 72 (file_of fs fd) of
             (n, header, _) \<Rightarrow>
               if n \<noteq> 72 then Err Cf_Error else if take 4 header \<noteq> qcow2_magic then Err Cf_Error else Ok header))"

definition AndroidSparseImage_OpenExisting :: "image_libs \<Rightarrow> files \<Rightarrow> string \<Rightarrow> u64 result" where
  "AndroidSparseImage_OpenExisting libs fs path =
     (case fs path of
        None \<Rightarrow> Err Cf_Error
      | Some b \<Rightarrow> (case sparse_len libs b of None \<Rightarrow> Err Cf_Error | Some n \<Rightarrow> Ok n))"

definition RawImage_OpenExisting :: "files \<Rightarrow> string \<Rightarrow> u64 result" where
  "RawImage_OpenExisting fs path = Ok (of_nat (FileSize fs path))"

datatype DiskImage = Composite_Image CompositeDisk | Qcow2_Image string | Sparse_Image u64 | Raw_Image u64

primrec VirtualSizeBytes :: "DiskImage \<Rightarrow> u64" where
  "VirtualSizeBytes (Composite_Image cdisk) = cdisk_length cdisk"
| "VirtualSizeBytes (Qcow2_Image header) = of_nat (be_value (take 8 (drop 24 header)))"
| "VirtualSizeBytes (Sparse_Image n) = n"
| "VirtualSizeBytes (Raw_Image n) = n"

definition MAGIC_BLOCK_SIZE :: nat where "MAGIC_BLOCK_SIZE = 4096"

definition ImageFromFile :: "image_libs \<Rightarrow> files \<Rightarrow> string \<Rightarrow> DiskImage result option" where
  "ImageFromFile libs fs path =
     (case fs path of
        None \<Rightarrow> Some (Err Cf_Error)
      | Some b \<Rightarrow>
          let magic = take (min (FileSize fs path) MAGIC_BLOCK_SIZE) b
          in if take (length composite_magic) magic = composite_magic
             then map_option (\<lambda>r. bind_result r (\<lambda>cdisk. Ok (Composite_Image cdisk))) (CompositeDiskImage_OpenExisting libs fs path)
             else if take (length qcow2_magic) magic = qcow2_magic
             then Some (bind_result (Qcow2Image_OpenExisting fs path) (\<lambda>header. Ok (Qcow2_Image header)))
             else if take (length kAndroidSparseImageMagic) magic = kAndroidSparseImageMagic
             then Some (bind_result (AndroidSparseImage_OpenExisting libs fs path) (\<lambda>n. Ok (Sparse_Image n)))
             else Some (bind_result (RawImage_OpenExisting fs path) (\<lambda>n. Ok (Raw_Image n))))"

definition ExpandedStorageSize :: "image_libs \<Rightarrow> files \<Rightarrow> string \<Rightarrow> u64 result option" where
  "ExpandedStorageSize libs fs path = map_option (\<lambda>r. bind_result r (\<lambda>disk. Ok (VirtualSizeBytes disk))) (ImageFromFile libs fs path)"

subsection \<open>Expanding sparse images\<close>

text \<open>A file shorter than four bytes leaves spaces in the buffer.\<close>

definition IsSparseImage :: "files \<Rightarrow> string \<Rightarrow> bool result" where
  "IsSparseImage fs path =
     (case fs path of
        None \<Rightarrow> Err Cf_Error
      | Some b \<Rightarrow> Ok (take 4 b @ drop (length b) ''    '' = kAndroidSparseImageMagic))"

text \<open>For paths shorter than \<^verbatim>\<open>PATH_MAX\<close>; a longer result would be empty.\<close>

definition Dirname :: "string \<Rightarrow> string" where
  "Dirname path =
     (let d = rev (dropWhile (\<lambda>c. c = CHR ''/'') (dropWhile (\<lambda>c. c \<noteq> CHR ''/'') (dropWhile (\<lambda>c. c = CHR ''/'') (rev path))))
      in if d \<noteq> [] then d else if path \<noteq> [] \<and> hd path = CHR ''/'' then ''/'' else ''.'')"

definition Basename :: "string \<Rightarrow> string" where
  "Basename path =
     (let b = rev (takeWhile (\<lambda>c. c \<noteq> CHR ''/'') (dropWhile (\<lambda>c. c = CHR ''/'') (rev path)))
      in if b \<noteq> [] then b else if path \<noteq> [] then ''/'' else ''.'')"

text \<open>
  The lock is a file beside the image, which stays; the image is looked at again under the lock. A failed conversion leaves no output file here;
  what \<^verbatim>\<open>simg2img\<close> leaves behind is not known. \<^verbatim>\<open>EnsureDirectoryExists\<close> has no effect on files.
\<close>

definition ForceRawImage :: "image_libs \<Rightarrow> string \<Rightarrow> string \<Rightarrow> files \<Rightarrow> string result \<times> files" where
  "ForceRawImage libs image_path output_directory fs =
     (case IsSparseImage fs image_path of
        Inl e \<Rightarrow> (Inl e, fs)
      | Inr sparse \<Rightarrow>
          if \<not> sparse then (Ok image_path, fs)
          else (case real_path libs fs image_path of
                  None \<Rightarrow> (Err Cf_Error, fs)
                | Some image_realpath \<Rightarrow>
                    let lock = image_realpath @ ''.lock'';
                        fs = (if fs lock = None then fs(lock \<mapsto> []) else fs);
                        here = dir_writable libs (Dirname image_path);
                        raw_image_path = (if here then image_path else output_directory @ ''/'' @ Basename image_path @ ''.raw'');
                        tmp_raw_image_path = (if here then image_path @ ''.raw.tmp'' else raw_image_path @ ''.tmp'')
                    in if IsSparseImage fs image_path \<noteq> Ok True
                       then (bind_result (IsSparseImage fs image_path) (\<lambda>_. Ok image_path), fs)
                       else if \<not> here \<and> output_directory = [] then (Err Cf_Error, fs)
                       else (case Option.bind (fs image_path) (simg2img libs) of
                               None \<Rightarrow> (Err Cf_Error, fs)
                             | Some raw \<Rightarrow> (Ok raw_image_path, (fs(tmp_raw_image_path := None))(raw_image_path \<mapsto> raw)))))"

subsection \<open>Rounding up\<close>

definition align_up :: "nat \<Rightarrow> nat \<Rightarrow> nat" where
  "align_up a n = (n + a - 1) div a * a"

lemma align_up_props:
  assumes "0 < a"
  shows "a dvd align_up a n" and "n \<le> align_up a n" and "align_up a n < n + a" and "a dvd n \<Longrightarrow> align_up a n = n"
proof -
  let ?q = "(n + a - 1) div a"
  have split: "?q * a + (n + a - 1) mod a = n + a - 1" by simp
  have m: "(n + a - 1) mod a < a" using assms by simp
  show "a dvd align_up a n" by (simp add: align_up_def)
  show "n \<le> align_up a n" "align_up a n < n + a" unfolding align_up_def using split m assms by linarith+
  show "align_up a n = n" if dvd: "a dvd n"
  proof -
    obtain k where k: "n = a * k" using dvd by blast
    have "n + a - 1 = (a - 1) + k * a" using k assms by (simp add: mult.commute)
    then have "(n + a - 1) div a = (a - 1) div a + k" using assms by (metis div_mult_self1 add.commute less_numeral_extra(3))
    then have "(n + a - 1) div a = k" using assms by simp
    then show ?thesis by (simp add: align_up_def k)
  qed
qed

lemma AlignToPowerOf2_align_up:
  assumes "unat k < 64" and "unat v + 2 ^ unat k \<le> 2 ^ 64"
  shows "unat (AlignToPowerOf2 v k) = align_up (2 ^ unat k) (unat v)"
proof -
  let ?a = "push_bit (unat k) 1 :: u64" and ?n = "2 ^ unat k :: nat"
  have n: "?n < 2 ^ 64" by (rule power_strict_increasing) (use assms(1) in simp_all)
  have pos: "0 < ?n" by simp
  have an: "?a = of_nat ?n" by (simp add: push_bit_eq_mult)
  then have a: "unat ?a = ?n" using n by (simp only: unat_u64)
  have "1 \<le> ?a" using a pos by (simp add: word_le_nat_alt)
  then have "unat (?a - 1) = ?n - 1" using a by (simp add: unat_u64_sub)
  then have x: "unat (v + (?a - 1)) = unat v + ?n - 1"
    using assms(2) pos by (subst unat_u64_add) auto
  have "AlignToPowerOf2 v k = of_nat ((unat v + ?n - 1) div ?n) * of_nat ?n"
    unfolding AlignToPowerOf2_def Let_def by (subst word_arith_nat_div) (simp only: x a, simp only: an)
  then have v: "AlignToPowerOf2 v k = of_nat (align_up ?n (unat v))" by (simp add: align_up_def)
  have "align_up ?n (unat v) < 2 ^ 64" using align_up_props(3) [OF pos, of "unat v"] assms(2) by linarith
  then show ?thesis unfolding v by (rule unat_u64)
qed

lemma shifts [simp]: "unat PARTITION_SIZE_SHIFT = 12" "unat DISK_SIZE_SHIFT = 16"
  by (simp_all add: PARTITION_SIZE_SHIFT_def DISK_SIZE_SHIFT_def)

lemma AlignToPartitionSize_of_nat:
  assumes "n < 2 ^ 63"
  shows "AlignToPartitionSize (of_nat n) = of_nat (align_up 4096 n)"
proof -
  have "unat (of_nat n :: u64) = n" using assms by (intro unat_u64) simp
  then have "unat (AlignToPartitionSize (of_nat n)) = align_up 4096 n"
    using AlignToPowerOf2_align_up [of PARTITION_SIZE_SHIFT "of_nat n"] assms by (simp add: AlignToPartitionSize_def)
  then have "of_nat (unat (AlignToPartitionSize (of_nat n))) = (of_nat (align_up 4096 n) :: u64)" by (rule arg_cong)
  then show ?thesis by simp
qed

subsection \<open>Raw images and images that were written\<close>

definition raw_image :: "string \<Rightarrow> bool" where
  "raw_image b \<longleftrightarrow> take 15 b \<noteq> composite_magic \<and> take 4 b \<noteq> qcow2_magic \<and> take 4 b \<noteq> kAndroidSparseImageMagic"

lemma magic_lengths [simp]: "length composite_magic = 15" "length qcow2_magic = 4" "length kAndroidSparseImageMagic = 4"
  by (simp_all add: composite_magic_def qcow2_magic_def kAndroidSparseImageMagic_def)

lemma take_magic: "k \<le> MAGIC_BLOCK_SIZE \<Longrightarrow> take k (take (min (length b) MAGIC_BLOCK_SIZE) b) = take k b"
  by (simp add: min_def)

lemma ExpandedStorageSize_raw:
  assumes "fs path = Some b" and "raw_image b"
  shows "ExpandedStorageSize libs fs path = Some (Ok (of_nat (length b)))"
proof -
  have size: "FileSize fs path = length b" using assms(1) by (simp add: FileSize_def)
  have "ImageFromFile libs fs path = Some (Ok (Raw_Image (of_nat (length b))))"
    unfolding ImageFromFile_def assms(1) option.case Let_def size magic_lengths
    using assms(2) take_magic [of 15 b] take_magic [of 4 b] size
    by (simp only: raw_image_def MAGIC_BLOCK_SIZE_def) (simp add: RawImage_OpenExisting_def)
  then show ?thesis by (simp add: ExpandedStorageSize_def)
qed

lemma IsSparseImage_raw:
  assumes "fs path = Some b" and "raw_image b"
  shows "IsSparseImage fs path = Ok False"
proof -
  have "take 4 b @ drop (length b) ''    '' \<noteq> kAndroidSparseImageMagic"
  proof (cases "length b < 4")
    case True
    have "last (take 4 b @ drop (length b) ''    '') = CHR '' ''"
      using True by (simp add: less_Suc_eq numeral_eq_Suc) (auto simp: numeral_eq_Suc)
    moreover have "last kAndroidSparseImageMagic \<noteq> CHR '' ''" by (simp add: kAndroidSparseImageMagic_def)
    ultimately show ?thesis by metis
  next
    case False
    then show ?thesis using assms(2) by (simp add: raw_image_def)
  qed
  then show ?thesis using assms(1) by (simp add: IsSparseImage_def)
qed

lemma ForceRawImage_raw: "fs path = Some b \<Longrightarrow> raw_image b \<Longrightarrow> ForceRawImage libs path dir fs = (Ok path, fs)"
  by (simp add: ForceRawImage_def IsSparseImage_raw)

text \<open>A composite disk that was written is read back, by a loop that ends.\<close>

lemma composite_OpenExisting:
  assumes "fs path = Some (composite_magic @ message)" and "length message + 15 \<le> max_size"
  shows "CompositeDiskImage_OpenExisting libs fs path =
    Some (case ParseFromString libs message of None \<Rightarrow> Err Cf_Error | Some cdisk \<Rightarrow> Ok cdisk)"
proof -
  let ?f = "\<lparr>file_bytes = composite_magic @ message, file_offset = 0\<rparr>"
  have ok: "fd_ok ?f" using assms(2) by (simp add: fd_ok_def)
  obtain f1 where f1: "ReadExact fd_Read 15 ?f = Ok (composite_magic, f1)" "fd_ok f1" "drop (file_offset f1) (file_bytes f1) = message"
    using fd.ReadExact_spec [OF ok, of 15] by (auto simp: fd_ops_def)
  obtain f2 where "ReadToString fd_Read f1 = Some (Ok (message, f2))"
    using fd.ReadToString_all [OF f1(2)] f1(3) by (auto simp: fd_ops_def)
  then show ?thesis
    using f1(1) assms(1) by (simp add: CompositeDiskImage_OpenExisting_def CompositeDiskImage_OpenReader_def OpenRead_def file_of_def)
qed

end
