(* ===== verification/Composite_Disk.thy ===== *)
theory Composite_Disk
  imports Disk_Image
begin

unbundle bit_operations_syntax

section \<open>Partition tables and composite disks\<close>

text \<open>
  \<^verbatim>\<open>host/libs/image_aggregator/image_aggregator.cc\<close> with the structures of \<^verbatim>\<open>gpt.h\<close> and \<^verbatim>\<open>mbr.cc\<close>: several
  image files become the partitions of one disk, either in one new file or as a composite disk that
  refers to them. Structures are records; what is written is their memory, with little-endian
  integers. Random bytes are arguments.
\<close>

definition le_bytes :: "nat \<Rightarrow> nat \<Rightarrow> string" where
  "le_bytes n v = map (\<lambda>i. char_of (v div 256 ^ i)) [0..<n]"

abbreviation zeros :: "nat \<Rightarrow> string" where
  "zeros n \<equiv> replicate n (CHR 0x00)"

definition kSectorSize :: u64 where "kSectorSize = 512"
definition GPT_NUM_PARTITIONS :: nat where "GPT_NUM_PARTITIONS = 128"

subsection \<open>Structures\<close>

record MbrPartitionEntry =
  mbr_status :: string
  begin_chs :: string
  partition_type :: string
  end_chs :: string
  mbr_first_lba :: "32 word"
  num_sectors :: "32 word"

record MasterBootRecord =
  bootstrap_code :: string
  mbr_partitions :: "MbrPartitionEntry list"
  boot_signature :: string

record GptHeader =
  signature :: string
  revision :: string
  header_size :: "32 word"
  header_crc32 :: "32 word"
  reserved :: "32 word"
  current_lba :: u64
  backup_lba :: u64
  first_usable_lba :: u64
  last_usable_lba :: u64
  disk_guid :: string
  partition_entries_lba :: u64
  num_partition_entries :: "32 word"
  partition_entry_size :: "32 word"
  partition_entries_crc32 :: "32 word"

record GptPartitionEntry =
  partition_type_guid :: string
  unique_partition_guid :: string
  first_lba :: u64
  last_lba :: u64
  attributes :: u64
  partition_name :: "16 word list"

record GptBeginning =
  protective_mbr :: MasterBootRecord
  header :: GptHeader
  entries :: "GptPartitionEntry list"

text \<open>The padding of the end is not initialised in the source.\<close>

record GptEnd =
  end_entries :: "GptPartitionEntry list"
  footer :: GptHeader
  footer_padding :: string

definition mbr_entry_bytes :: "MbrPartitionEntry \<Rightarrow> string" where
  "mbr_entry_bytes p =
     mbr_status p @ begin_chs p @ partition_type p @ end_chs p @ le_bytes 4 (unat (mbr_first_lba p)) @ le_bytes 4 (unat (num_sectors p))"

definition mbr_bytes :: "MasterBootRecord \<Rightarrow> string" where
  "mbr_bytes m = bootstrap_code m @ concat (map mbr_entry_bytes (mbr_partitions m)) @ boot_signature m"

definition header_bytes :: "GptHeader \<Rightarrow> string" where
  "header_bytes h =
     signature h @ revision h @ le_bytes 4 (unat (header_size h)) @ le_bytes 4 (unat (header_crc32 h)) @
     le_bytes 4 (unat (reserved h)) @ le_bytes 8 (unat (current_lba h)) @ le_bytes 8 (unat (backup_lba h)) @
     le_bytes 8 (unat (first_usable_lba h)) @ le_bytes 8 (unat (last_usable_lba h)) @ disk_guid h @
     le_bytes 8 (unat (partition_entries_lba h)) @ le_bytes 4 (unat (num_partition_entries h)) @
     le_bytes 4 (unat (partition_entry_size h)) @ le_bytes 4 (unat (partition_entries_crc32 h))"

definition entry_bytes :: "GptPartitionEntry \<Rightarrow> string" where
  "entry_bytes e =
     partition_type_guid e @ unique_partition_guid e @ le_bytes 8 (unat (first_lba e)) @ le_bytes 8 (unat (last_lba e)) @
     le_bytes 8 (unat (attributes e)) @ concat (map (\<lambda>c. le_bytes 2 (unat c)) (partition_name e))"

definition beginning_bytes :: "GptBeginning \<Rightarrow> string" where
  "beginning_bytes g =
     mbr_bytes (protective_mbr g) @ header_bytes (header g) @ zeros 420 @ concat (map entry_bytes (entries g)) @ zeros 3072"

definition end_bytes :: "GptEnd \<Rightarrow> string" where
  "end_bytes g = concat (map entry_bytes (end_entries g)) @ header_bytes (footer g) @ footer_padding g"

definition sizeof_GptHeader :: nat where "sizeof_GptHeader = 92"
definition sizeof_GptPartitionEntry :: nat where "sizeof_GptPartitionEntry = 128"
definition sizeof_GptBeginning :: u64 where "sizeof_GptBeginning = 20480"
definition sizeof_GptEnd :: u64 where "sizeof_GptEnd = 16896"
definition sizeof_entries :: u64 where "sizeof_entries = 16384"

text \<open>The cast binds before the division.\<close>

definition ProtectiveMbr :: "u64 \<Rightarrow> MasterBootRecord" where
  "ProtectiveMbr sz =
     (let none = \<lparr>mbr_status = zeros 1, begin_chs = zeros 3, partition_type = zeros 1, end_chs = zeros 3, mbr_first_lba = 0, num_sectors = 0\<rparr>
      in \<lparr>bootstrap_code = zeros 446,
          mbr_partitions = none\<lparr>partition_type := [CHR 0xEE], mbr_first_lba := 1, num_sectors := ucast sz div 512\<rparr> # replicate 3 none,
          boot_signature = [CHR 0x55, CHR 0xAA]\<rparr>)"

subsection \<open>Identifiers and names\<close>

datatype GptPartitionType = kLinuxFilesystem | kEfiSystemPartition

primrec GetPartitionGUID :: "GptPartitionType \<Rightarrow> string" where
  "GetPartitionGUID kLinuxFilesystem =
     [CHR 0xAF, CHR 0x3D, CHR 0xC6, CHR 0x0F, CHR 0x83, CHR 0x84, CHR 0x72, CHR 0x47,
      CHR 0x8E, CHR 0x79, CHR 0x3D, CHR 0x69, CHR 0xD8, CHR 0x47, CHR 0x7D, CHR 0xE4]"
| "GetPartitionGUID kEfiSystemPartition =
     [CHR 0x28, CHR 0x73, CHR 0x2A, CHR 0xC1, CHR 0x1F, CHR 0xF8, CHR 0xD2, CHR 0x11,
      CHR 0xBA, CHR 0x4B, CHR 0x00, CHR 0xA0, CHR 0xC9, CHR 0x3E, CHR 0xC9, CHR 0x3B]"

definition set_bits :: "8 word \<Rightarrow> 8 word \<Rightarrow> char \<Rightarrow> char" where
  "set_bits keep put c = char_of (unat ((of_nat (of_char c) AND keep) OR put))"

definition SetRandomUuid :: "string \<Rightarrow> string" where
  "SetRandomUuid uuid =
     (let uuid = uuid[7 := set_bits 0x0F 0x40 (uuid ! 7)] in uuid[9 := set_bits 0x3F 0x80 (uuid ! 9)])"

text \<open>The source ends with a zero; the destination is never read.\<close>

fun u16cpy :: "16 word list \<Rightarrow> 16 word list \<Rightarrow> nat \<Rightarrow> 16 word list" where
  "u16cpy (d # dest) (s # src) (Suc sz) = (if s \<noteq> 0 then s # u16cpy dest src sz else 0 # dest)"
| "u16cpy dest src sz = dest"

subsection \<open>The builder\<close>

record ImagePartition =
  label :: string
  image_file_path :: string
  image_type :: GptPartitionType

record PartitionInfo =
  source :: ImagePartition
  info_size :: u64
  info_offset :: u64

record CompositeDiskBuilder =
  partitions :: "PartitionInfo list"
  next_disk_offset :: u64
  read_only :: bool

definition AlignedSize :: "PartitionInfo \<Rightarrow> u64" where
  "AlignedSize p = AlignToPartitionSize (info_size p)"

definition new_builder :: "bool \<Rightarrow> CompositeDiskBuilder" where
  "new_builder ro = \<lparr>partitions = [], next_disk_offset = sizeof_GptBeginning, read_only = ro\<rparr>"

text \<open>Reading a file that is a composite disk might not end, hence the option.\<close>

definition AppendPartition ::
  "image_libs \<Rightarrow> files \<Rightarrow> ImagePartition \<Rightarrow> CompositeDiskBuilder \<Rightarrow> CompositeDiskBuilder result option"
where
  "AppendPartition libs fs src b =
     map_option (\<lambda>r. bind_result r (\<lambda>sz.
         let aligned_size = AlignToPartitionSize sz
         in if \<not> (sz = aligned_size \<or> read_only b) then Err Cf_Error
            else Ok (b\<lparr>partitions := partitions b @ [\<lparr>source = src, info_size = sz, info_offset = next_disk_offset b\<rparr>],
                       next_disk_offset := next_disk_offset b + aligned_size\<rparr>)))
       (ExpandedStorageSize libs fs (image_file_path src))"

definition DiskSize :: "CompositeDiskBuilder \<Rightarrow> u64" where
  "DiskSize b = AlignToPowerOf2 (next_disk_offset b + sizeof_GptEnd) DISK_SIZE_SHIFT"

definition bind_run :: "'a result option \<Rightarrow> ('a \<Rightarrow> 'b result option) \<Rightarrow> 'b result option" where
  "bind_run r f = (case r of None \<Rightarrow> None | Some (Inl e) \<Rightarrow> Some (Inl e) | Some (Inr x) \<Rightarrow> f x)"

text \<open>
  The header stands for itself and fills the gap behind a partition whose size is not a multiple of
  the alignment.
\<close>

fun partition_components ::
  "image_libs \<Rightarrow> files \<Rightarrow> bool \<Rightarrow> string \<Rightarrow> PartitionInfo list \<Rightarrow> ComponentDisk list result option"
where
  "partition_components libs fs ro header_file [] = Some (Ok [])"
| "partition_components libs fs ro header_file (p # ps) =
     bind_run (ExpandedStorageSize libs fs (image_file_path (source p))) (\<lambda>sz.
       if info_size p \<noteq> sz then Some (Err Cf_Error)
       else bind_run (partition_components libs fs ro header_file ps) (\<lambda>components.
         Some (Ok (\<lparr>file_path = image_file_path (source p), component_offset = info_offset p,
                    read_write_capability = (if ro then READ_ONLY else READ_WRITE)\<rparr> #
                   (if AlignedSize p \<noteq> info_size p
                    then [\<lparr>file_path = header_file, component_offset = info_offset p + info_size p, read_write_capability = READ_ONLY\<rparr>]
                    else []) @ components))))"

definition MakeCompositeDiskSpec ::
  "image_libs \<Rightarrow> files \<Rightarrow> string \<Rightarrow> string \<Rightarrow> CompositeDiskBuilder \<Rightarrow> CompositeDisk result option"
where
  "MakeCompositeDiskSpec libs fs header_file footer_file b =
     bind_run (partition_components libs fs (read_only b) header_file (partitions b)) (\<lambda>components.
       Some (Ok \<lparr>cdisk_version = 2,
                 component_disks = \<lparr>file_path = header_file, component_offset = 0, read_write_capability = READ_ONLY\<rparr> # components @
                   [\<lparr>file_path = footer_file, component_offset = next_disk_offset b, read_write_capability = READ_ONLY\<rparr>],
                 cdisk_length = DiskSize b\<rparr>))"

definition zero_entry :: GptPartitionEntry where
  "zero_entry = \<lparr>partition_type_guid = zeros 16, unique_partition_guid = zeros 16, first_lba = 0, last_lba = 0, attributes = 0,
     partition_name = replicate 36 0\<rparr>"

definition partition_entry :: "image_libs \<Rightarrow> string \<Rightarrow> PartitionInfo \<Rightarrow> GptPartitionEntry" where
  "partition_entry libs random p =
     zero_entry\<lparr>first_lba := info_offset p div kSectorSize,
                last_lba := (info_offset p + AlignedSize p) div kSectorSize - 1,
                unique_partition_guid := SetRandomUuid random,
                partition_type_guid := GetPartitionGUID (image_type (source p)),
                partition_name := u16cpy (replicate 36 0) (map (wide_char libs) (label (source p)) @ [0]) 36\<rparr>"

text \<open>The checksum of the header is over the header with a checksum of zero.\<close>

definition with_crc :: "image_libs \<Rightarrow> GptHeader \<Rightarrow> GptHeader" where
  "with_crc libs h = h\<lparr>header_crc32 := crc32 libs (header_bytes (h\<lparr>header_crc32 := 0\<rparr>))\<rparr>"

definition Beginning :: "image_libs \<Rightarrow> (nat \<Rightarrow> string) \<Rightarrow> CompositeDiskBuilder \<Rightarrow> GptBeginning result" where
  "Beginning libs random b =
     (if GPT_NUM_PARTITIONS < length (partitions b) then Err Cf_Error
      else let es = map (\<lambda>i. partition_entry libs (random (Suc i)) (partitions b ! i)) [0..<length (partitions b)] @
                    replicate (GPT_NUM_PARTITIONS - length (partitions b)) zero_entry
           in Ok \<lparr>protective_mbr = ProtectiveMbr (DiskSize b),
                  header = with_crc libs
                    \<lparr>signature = ''EFI PART'', revision = [CHR 0x00, CHR 0x00, CHR 0x01, CHR 0x00],
                     header_size = of_nat sizeof_GptHeader, header_crc32 = 0, reserved = 0, current_lba = 1,
                     backup_lba = DiskSize b div kSectorSize - 1, first_usable_lba = sizeof_GptBeginning div kSectorSize,
                     last_usable_lba = next_disk_offset b div kSectorSize - 1, disk_guid = SetRandomUuid (random 0),
                     partition_entries_lba = 2, num_partition_entries = of_nat GPT_NUM_PARTITIONS,
                     partition_entry_size = of_nat sizeof_GptPartitionEntry,
                     partition_entries_crc32 = crc32 libs (concat (map entry_bytes es))\<rparr>,
                  entries = es\<rparr>)"

definition End :: "image_libs \<Rightarrow> string \<Rightarrow> GptBeginning \<Rightarrow> CompositeDiskBuilder \<Rightarrow> GptEnd" where
  "End libs uninitialised head b =
     \<lparr>end_entries = entries head,
      footer = with_crc libs ((header head)
        \<lparr>partition_entries_lba := (DiskSize b - sizeof_entries) div kSectorSize - 1,
         current_lba := backup_lba (header head), backup_lba := current_lba (header head)\<rparr>),
      footer_padding = uninitialised\<rparr>"

subsection \<open>Writing the files\<close>

definition bind_io ::
  "('a result \<times> files) option \<Rightarrow> ('a \<Rightarrow> files \<Rightarrow> ('b result \<times> files) option) \<Rightarrow> ('b result \<times> files) option"
where
  "bind_io r f = (case r of None \<Rightarrow> None | Some (Inl e, fs) \<Rightarrow> Some (Inl e, fs) | Some (Inr x, fs) \<Rightarrow> f x fs)"

definition write_whole :: "disk_file \<Rightarrow> string \<Rightarrow> files \<Rightarrow> disk_file result \<times> files" where
  "write_whole out buf fs =
     (case Shared_Buf.WriteAll write_open buf (out, fs) of
        (n, out, fs) \<Rightarrow> (if n \<noteq> int (length buf) then Err Cf_Error else Ok out, fs))"

definition WriteBeginning :: "disk_file \<Rightarrow> GptBeginning \<Rightarrow> files \<Rightarrow> disk_file result \<times> files" where
  "WriteBeginning out beginning fs = write_whole out (beginning_bytes beginning) fs"

definition WriteEnd :: "disk_file \<Rightarrow> GptEnd \<Rightarrow> files \<Rightarrow> disk_file result \<times> files" where
  "WriteEnd out gpt_end fs =
     (let disk_size = (current_lba (footer gpt_end) + 1) * kSectorSize;
          footer_start = (last_usable_lba (footer gpt_end) + 1) * kSectorSize;
          padding = disk_size - footer_start - sizeof_GptEnd
      in case write_whole out (zeros (unat padding)) fs of
           (Inl e, fs) \<Rightarrow> (Inl e, fs)
         | (Inr out, fs) \<Rightarrow> write_whole out (end_bytes gpt_end) fs)"

fun force_all :: "image_libs \<Rightarrow> string \<Rightarrow> ImagePartition list \<Rightarrow> files \<Rightarrow> ImagePartition list result \<times> files" where
  "force_all libs output_directory [] fs = (Ok [], fs)"
| "force_all libs output_directory (p # ps) fs =
     (case ForceRawImage libs (image_file_path p) output_directory fs of
        (Inl e, fs) \<Rightarrow> (Inl e, fs)
      | (Inr path, fs) \<Rightarrow>
          (case force_all libs output_directory ps fs of
             (Inl e, fs) \<Rightarrow> (Inl e, fs)
           | (Inr ps, fs) \<Rightarrow> (Ok (p\<lparr>image_file_path := path\<rparr> # ps), fs)))"

definition DeAndroidSparseIfNeeded ::
  "image_libs \<Rightarrow> ImagePartition list \<Rightarrow> string \<Rightarrow> bool \<Rightarrow> files \<Rightarrow> ImagePartition list result \<times> files"
where
  "DeAndroidSparseIfNeeded libs ps output_directory ro fs =
     (if ro then (Ok ps, fs) else force_all libs output_directory ps fs)"

text \<open>The loop of both functions below; an error of \<^verbatim>\<open>AppendPartition\<close> is not looked at.\<close>

fun append_partitions :: "image_libs \<Rightarrow> files \<Rightarrow> ImagePartition list \<Rightarrow> CompositeDiskBuilder \<Rightarrow> CompositeDiskBuilder option" where
  "append_partitions libs fs [] b = Some b"
| "append_partitions libs fs (p # ps) b =
     (case AppendPartition libs fs p b of
        None \<Rightarrow> None
      | Some (Inl e) \<Rightarrow> append_partitions libs fs ps b
      | Some (Inr b) \<Rightarrow> append_partitions libs fs ps b)"

fun copy_partitions :: "ImagePartition list \<Rightarrow> disk_file \<Rightarrow> files \<Rightarrow> disk_file result \<times> files" where
  "copy_partitions [] output fs = (Ok output, fs)"
| "copy_partitions (disk # disks) output fs =
     (case OpenRead (image_file_path disk) fs of
        None \<Rightarrow> (Err Cf_Error, fs)
      | Some disk_fd \<Rightarrow>
          let file_size = FileSize fs (image_file_path disk)
          in case CopyFrom (\<lambda>_. True) read_in write_out file_size (disk_fd, output, fs) of
               (False, _, _, fs) \<Rightarrow> (Err Cf_Error, fs)
             | (True, _, output, fs) \<Rightarrow>
                 let padding = AlignToPartitionSize (of_nat file_size) - of_nat file_size
                 in case write_whole output (zeros (unat padding)) fs of
                      (Inl e, fs) \<Rightarrow> (Inl e, fs)
                    | (Inr output, fs) \<Rightarrow> copy_partitions disks output fs)"

definition AggregateImage ::
  "image_libs \<Rightarrow> (nat \<Rightarrow> string) \<Rightarrow> string \<Rightarrow> ImagePartition list \<Rightarrow> string \<Rightarrow> files \<Rightarrow> (unit result \<times> files) option"
where
  "AggregateImage libs random uninitialised ps output_path fs =
     bind_io (Some (DeAndroidSparseIfNeeded libs ps (Dirname output_path) False fs)) (\<lambda>ps fs.
       case append_partitions libs fs ps (new_builder False) of
         None \<Rightarrow> None
       | Some builder \<Rightarrow>
           let (output, fs) = Creat output_path fs
           in case Beginning libs random builder of
                Inl e \<Rightarrow> Some (Inl e, fs)
              | Inr beginning \<Rightarrow>
                  bind_io (Some (WriteBeginning output beginning fs)) (\<lambda>output fs.
                  bind_io (Some (copy_partitions ps output fs)) (\<lambda>output fs.
                  bind_io (Some (WriteEnd output (End libs uninitialised beginning builder) fs)) (\<lambda>_ fs.
                    Some (Ok (), fs)))))"

definition WriteCompositeDiskToFile :: "image_libs \<Rightarrow> CompositeDisk \<Rightarrow> string \<Rightarrow> files \<Rightarrow> files" where
  "WriteCompositeDiskToFile libs composite_proto path fs = fs(path \<mapsto> composite_magic @ SerializeToString libs composite_proto)"

definition CreateOrUpdateCompositeDisk ::
  "image_libs \<Rightarrow> (nat \<Rightarrow> string) \<Rightarrow> string \<Rightarrow> ImagePartition list \<Rightarrow> string \<Rightarrow> string \<Rightarrow> string \<Rightarrow> bool \<Rightarrow> files \<Rightarrow>
   (unit result \<times> files) option"
where
  "CreateOrUpdateCompositeDisk libs random uninitialised ps header_file footer_file output_composite_path ro fs =
     bind_io (Some (DeAndroidSparseIfNeeded libs ps (Dirname output_composite_path) ro fs)) (\<lambda>ps fs.
       case append_partitions libs fs ps (new_builder ro) of
         None \<Rightarrow> None
       | Some builder \<Rightarrow>
           bind_io (map_option (\<lambda>r. (r, fs)) (MakeCompositeDiskSpec libs fs header_file footer_file builder)) (\<lambda>composite_proto fs.
             case CompositeDiskImage_OpenExisting libs fs output_composite_path of
               None \<Rightarrow> None
             | Some existing \<Rightarrow>
                 if existing = Ok composite_proto then Some (Ok (), fs)
                 else let fs = WriteCompositeDiskToFile libs composite_proto output_composite_path fs;
                          (hd, fs) = Creat header_file fs
                      in case Beginning libs random builder of
                           Inl e \<Rightarrow> Some (Inl e, fs)
                         | Inr beginning \<Rightarrow>
                             bind_io (Some (WriteBeginning hd beginning fs)) (\<lambda>_ fs.
                               let (ft, fs) = Creat footer_file fs
                               in bind_io (Some (WriteEnd ft (End libs uninitialised beginning builder) fs)) (\<lambda>_ fs.
                                    Some (Ok (), fs)))))"

subsection \<open>Sizes of the structures\<close>

lemma length_le_bytes [simp]: "length (le_bytes n v) = n"
  by (simp add: le_bytes_def)

lemma length_concat_const: "(\<And>x. x \<in> set xs \<Longrightarrow> length (f x) = k) \<Longrightarrow> length (concat (map f xs)) = k * length xs"
  by (induction xs) auto

definition entry_ok :: "GptPartitionEntry \<Rightarrow> bool" where
  "entry_ok e \<longleftrightarrow> length (partition_type_guid e) = 16 \<and> length (unique_partition_guid e) = 16 \<and> length (partition_name e) = 36"

definition header_ok :: "GptHeader \<Rightarrow> bool" where
  "header_ok h \<longleftrightarrow> length (signature h) = 8 \<and> length (revision h) = 4 \<and> length (disk_guid h) = 16"

lemma length_entry_bytes: "entry_ok e \<Longrightarrow> length (entry_bytes e) = 128"
  using length_concat_const [of "partition_name e" "\<lambda>c. le_bytes 2 (unat c)" 2] by (simp add: entry_ok_def entry_bytes_def)

lemma length_header_bytes: "header_ok h \<Longrightarrow> length (header_bytes h) = 92"
  by (simp add: header_ok_def header_bytes_def)

lemma length_mbr_bytes: "length (mbr_bytes (ProtectiveMbr n)) = 512"
  by (simp add: ProtectiveMbr_def mbr_bytes_def mbr_entry_bytes_def Let_def numeral_eq_Suc)

lemma length_u16cpy: "length (u16cpy dest src n) = length dest"
  by (induction dest src n rule: u16cpy.induct) auto

lemma entry_ok_zero: "entry_ok zero_entry"
  by (simp add: entry_ok_def zero_entry_def)

lemma length_SetRandomUuid: "length (SetRandomUuid u) = length u"
  by (simp add: SetRandomUuid_def Let_def)

lemma entry_ok_partition: "length r = 16 \<Longrightarrow> entry_ok (partition_entry libs r p)"
  by (cases "image_type (source p)") (simp_all add: entry_ok_def partition_entry_def length_SetRandomUuid length_u16cpy)

lemma with_crc_ok [simp]: "header_ok (with_crc libs h) = header_ok h"
  by (simp add: with_crc_def header_ok_def)

lemma header_ok_update [simp]:
  "header_ok (h\<lparr>partition_entries_lba := a, current_lba := b, backup_lba := c\<rparr>) = header_ok h"
  by (simp add: header_ok_def)

text \<open>What the beginning looks like when there are not too many partitions.\<close>

lemma Beginning_ok:
  assumes "Beginning libs random b = Ok g" and "\<And>i. length (random i) = 16"
  shows "header_ok (header g)" and "length (entries g) = 128" and "\<forall>e\<in>set (entries g). entry_ok e"
    and "length (beginning_bytes g) = 20480"
proof -
  have n: "length (partitions b) \<le> 128" using assms(1) by (auto simp: Beginning_def GPT_NUM_PARTITIONS_def split: if_splits)
  show h: "header_ok (header g)"
    using assms by (auto simp: Beginning_def Let_def header_ok_def with_crc_def length_SetRandomUuid split: if_splits)
  show l: "length (entries g) = 128" using assms(1) n by (auto simp: Beginning_def Let_def GPT_NUM_PARTITIONS_def split: if_splits)
  show e: "\<forall>e\<in>set (entries g). entry_ok e"
    using assms by (auto simp: Beginning_def Let_def entry_ok_partition entry_ok_zero split: if_splits)
  have "length (concat (map entry_bytes (entries g))) = 128 * 128"
    using length_concat_const [of "entries g" entry_bytes 128] e l by (simp add: length_entry_bytes)
  moreover have "length (mbr_bytes (protective_mbr g)) = 512"
    using assms(1) by (auto simp: Beginning_def Let_def length_mbr_bytes split: if_splits)
  ultimately show "length (beginning_bytes g) = 20480"
    by (simp add: beginning_bytes_def length_header_bytes [OF h])
qed

lemma length_end_bytes:
  assumes "header_ok (header g)" and "length (entries g) = 128" and "\<forall>e\<in>set (entries g). entry_ok e" and "length pad = 420"
  shows "length (end_bytes (End libs pad g b)) = 16896"
  using assms length_concat_const [of "entries g" entry_bytes 128]
  by (simp add: end_bytes_def End_def length_entry_bytes length_header_bytes)

subsection \<open>The layout of partitions with raw images\<close>

definition part_bytes :: "files \<Rightarrow> ImagePartition \<Rightarrow> string" where
  "part_bytes fs p = the (fs (image_file_path p))"

definition padded_size :: "files \<Rightarrow> ImagePartition \<Rightarrow> nat" where
  "padded_size fs p = align_up 4096 (length (part_bytes fs p))"

definition parts_size :: "files \<Rightarrow> ImagePartition list \<Rightarrow> nat" where
  "parts_size fs ps = sum_list (map (padded_size fs) ps)"

definition raw_parts :: "files \<Rightarrow> ImagePartition list \<Rightarrow> bool" where
  "raw_parts fs ps \<longleftrightarrow> (\<forall>p\<in>set ps. \<exists>b. fs (image_file_path p) = Some b \<and> raw_image b)"

lemma parts_size_simps [simp]: "parts_size fs [] = 0" "parts_size fs (p # ps) = padded_size fs p + parts_size fs ps"
  by (simp_all add: parts_size_def)

lemma parts_size_append: "parts_size fs (ps @ qs) = parts_size fs ps + parts_size fs qs"
  by (simp add: parts_size_def)

lemma raw_parts_Cons: "raw_parts fs (p # ps) \<longleftrightarrow> fs (image_file_path p) = Some (part_bytes fs p) \<and> raw_image (part_bytes fs p) \<and> raw_parts fs ps"
  by (auto simp: raw_parts_def part_bytes_def)

lemma padded_size_bounds:
  "4096 dvd padded_size fs p" "length (part_bytes fs p) \<le> padded_size fs p" "padded_size fs p < length (part_bytes fs p) + 4096"
  using align_up_props [of 4096 "length (part_bytes fs p)"] by (simp_all add: padded_size_def)

lemma parts_size_dvd: "4096 dvd parts_size fs ps"
  by (induction ps) (simp_all add: padded_size_bounds)

definition info_at :: "files \<Rightarrow> nat \<Rightarrow> ImagePartition \<Rightarrow> PartitionInfo" where
  "info_at fs off p = \<lparr>source = p, info_size = of_nat (length (part_bytes fs p)), info_offset = of_nat off\<rparr>"

fun infos :: "files \<Rightarrow> nat \<Rightarrow> ImagePartition list \<Rightarrow> PartitionInfo list" where
  "infos fs off [] = []"
| "infos fs off (p # ps) = info_at fs off p # infos fs (off + padded_size fs p) ps"

lemma length_infos [simp]: "length (infos fs off ps) = length ps"
  by (induction ps arbitrary: off) auto

lemma infos_nth: "i < length ps \<Longrightarrow> infos fs off ps ! i = info_at fs (off + parts_size fs (take i ps)) (ps ! i)"
proof (induction ps arbitrary: off i)
  case (Cons p ps)
  then show ?case by (cases i) (simp_all add: add.assoc)
qed simp

lemma AlignToPartitionSize_part:
  "padded_size fs p < 2 ^ 63 \<Longrightarrow> AlignToPartitionSize (of_nat (length (part_bytes fs p))) = of_nat (padded_size fs p)"
  using padded_size_bounds(2) [of fs p] by (simp add: AlignToPartitionSize_of_nat padded_size_def)

text \<open>Every partition is appended when the disk is read-only or all sizes are multiples of the alignment.\<close>

lemma append_one:
  assumes "fs (image_file_path p) = Some (part_bytes fs p)" and "raw_image (part_bytes fs p)" and "padded_size fs p < 2 ^ 63"
    and "next_disk_offset b = of_nat off" and "read_only b \<or> 4096 dvd length (part_bytes fs p)"
  shows "AppendPartition libs fs p b =
    Some (Ok (b\<lparr>partitions := partitions b @ [info_at fs off p], next_disk_offset := of_nat (off + padded_size fs p)\<rparr>))"
proof -
  let ?sz = "of_nat (length (part_bytes fs p)) :: u64" and ?al = "of_nat (padded_size fs p) :: u64"
  have al: "AlignToPartitionSize ?sz = ?al" using assms(3) by (rule AlignToPartitionSize_part)
  have "?sz = ?al \<or> read_only b" using assms(5) align_up_props(4) [of 4096 "length (part_bytes fs p)"] by (auto simp: padded_size_def)
  then show ?thesis
    using assms(4) by (simp add: AppendPartition_def ExpandedStorageSize_raw [of fs "image_file_path p", OF assms(1,2)] al info_at_def Let_def)
qed

lemma append_raw:
  assumes "raw_parts fs ps" and "next_disk_offset b = of_nat off" and "off + parts_size fs ps < 2 ^ 63"
    and "read_only b \<or> (\<forall>p\<in>set ps. 4096 dvd length (part_bytes fs p))"
  shows "append_partitions libs fs ps b =
    Some (b\<lparr>partitions := partitions b @ infos fs off ps, next_disk_offset := of_nat (off + parts_size fs ps)\<rparr>)"
  using assms
proof (induction ps arbitrary: b off)
  case (Cons p ps)
  let ?b = "b\<lparr>partitions := partitions b @ [info_at fs off p], next_disk_offset := of_nat (off + padded_size fs p)\<rparr>"
  have p: "fs (image_file_path p) = Some (part_bytes fs p)" "raw_image (part_bytes fs p)" "raw_parts fs ps"
    using Cons.prems(1) by (simp_all add: raw_parts_Cons)
  have "AppendPartition libs fs p b = Some (Ok ?b)" using Cons.prems by (intro append_one [OF p(1,2)]) auto
  moreover have "append_partitions libs fs ps ?b =
      Some (?b\<lparr>partitions := partitions ?b @ infos fs (off + padded_size fs p) ps,
               next_disk_offset := of_nat (off + padded_size fs p + parts_size fs ps)\<rparr>)"
    using Cons.prems p(3) by (intro Cons.IH) auto
  ultimately show ?case by (simp add: add.assoc)
qed simp

lemma DiskSize_nat:
  assumes "next_disk_offset b = of_nat n" and "n < 2 ^ 63"
  shows "unat (DiskSize b) = align_up 65536 (n + 16896)"
proof -
  have "next_disk_offset b + sizeof_GptEnd = of_nat (n + 16896)" using assms(1) by (simp add: sizeof_GptEnd_def)
  moreover have "unat (of_nat (n + 16896) :: u64) = n + 16896" using assms(2) by (intro unat_u64) simp
  ultimately show ?thesis
    using AlignToPowerOf2_align_up [of DISK_SIZE_SHIFT "of_nat (n + 16896)"] assms(2) by (simp add: DiskSize_def)
qed

subsection \<open>What is written\<close>

definition padded_bytes :: "files \<Rightarrow> ImagePartition \<Rightarrow> string" where
  "padded_bytes fs p = part_bytes fs p @ zeros (padded_size fs p - length (part_bytes fs p))"

definition parts_bytes :: "files \<Rightarrow> ImagePartition list \<Rightarrow> string" where
  "parts_bytes fs ps = concat (map (padded_bytes fs) ps)"

lemma length_padded_bytes [simp]: "length (padded_bytes fs p) = padded_size fs p"
  using padded_size_bounds(2) by (simp add: padded_bytes_def)

lemma length_parts_bytes [simp]: "length (parts_bytes fs ps) = parts_size fs ps"
  by (simp add: parts_bytes_def parts_size_def length_concat comp_def)

lemma parts_bytes_simps [simp]: "parts_bytes fs [] = []" "parts_bytes fs (p # ps) = padded_bytes fs p @ parts_bytes fs ps"
  by (simp_all add: parts_bytes_def)

lemma write_whole_end:
  assumes "at_end path b (out, fs)" and "length b + length buf \<le> max_size"
  shows "\<exists>out' fs'. write_whole out buf fs = (Ok out', fs') \<and> at_end path (b @ buf) (out', fs') \<and> (\<forall>p. p \<noteq> path \<longrightarrow> fs' p = fs p)"
  using WriteAll_end [OF assms] by (auto simp: write_whole_def)

lemma part_bytes_cong: "fs' (image_file_path p) = fs (image_file_path p) \<Longrightarrow> part_bytes fs' p = part_bytes fs p"
  by (simp add: part_bytes_def)

lemma parts_cong:
  assumes "\<forall>p\<in>set ps. fs' (image_file_path p) = fs (image_file_path p)"
  shows "parts_bytes fs' ps = parts_bytes fs ps" and "parts_size fs' ps = parts_size fs ps" and "raw_parts fs' ps = raw_parts fs ps"
proof -
  have "padded_size fs' p = padded_size fs p" "padded_bytes fs' p = padded_bytes fs p" if "p \<in> set ps" for p
    using assms that by (simp_all add: padded_size_def padded_bytes_def part_bytes_def)
  then show "parts_bytes fs' ps = parts_bytes fs ps" "parts_size fs' ps = parts_size fs ps"
    by (simp_all add: parts_bytes_def parts_size_def cong: map_cong)
  show "raw_parts fs' ps = raw_parts fs ps" using assms by (simp add: raw_parts_def)
qed

lemma copy_partitions_end:
  assumes "at_end path b (out, fs)" and "raw_parts fs ps" and "path \<notin> image_file_path ` set ps"
    and "length b + parts_size fs ps < 2 ^ 63"
  shows "\<exists>out' fs'. copy_partitions ps out fs = (Ok out', fs') \<and> at_end path (b @ parts_bytes fs ps) (out', fs') \<and>
    (\<forall>p. p \<noteq> path \<longrightarrow> fs' p = fs p)"
  using assms
proof (induction ps arbitrary: b out fs)
  case (Cons p ps)
  let ?c = "part_bytes fs p" and ?fd = "\<lparr>open_path = image_file_path p, open_offset = 0\<rparr>"
  have p: "fs (image_file_path p) = Some ?c" "raw_parts fs ps" using Cons.prems(2) by (simp_all add: raw_parts_Cons)
  have room: "length b + length ?c \<le> max_size" "length (b @ ?c) + (padded_size fs p - length ?c) \<le> max_size"
    using Cons.prems(4) padded_size_bounds(2) [of fs p] by simp_all
  obtain in1 out1 fs1 where c1: "CopyFrom (\<lambda>_. True) read_in write_out (length ?c) (?fd, out, fs) = (True, in1, out1, fs1)"
      "at_end path (b @ ?c) (out1, fs1)" "\<forall>q. q \<noteq> path \<longrightarrow> fs1 q = fs q"
    using CopyFrom_end [of ?fd path fs ?c "length ?c" b out] Cons.prems(1,3) p(1) room(1) by auto
  have pad: "unat (AlignToPartitionSize (of_nat (length ?c)) - of_nat (length ?c)) = padded_size fs p - length ?c"
  proof -
    have u: "unat (of_nat (padded_size fs p) :: u64) = padded_size fs p" "unat (of_nat (length ?c) :: u64) = length ?c"
      using Cons.prems(4) padded_size_bounds(2) [of fs p] by (intro unat_u64; simp)+
    have "(of_nat (length ?c) :: u64) \<le> of_nat (padded_size fs p)"
      using u padded_size_bounds(2) [of fs p] by (simp add: word_le_nat_alt)
    then show ?thesis using u Cons.prems(4) by (simp add: AlignToPartitionSize_part unat_u64_sub)
  qed
  obtain out2 fs2 where c2: "write_whole out1 (zeros (padded_size fs p - length ?c)) fs1 = (Ok out2, fs2)"
      "at_end path ((b @ ?c) @ zeros (padded_size fs p - length ?c)) (out2, fs2)" "\<forall>q. q \<noteq> path \<longrightarrow> fs2 q = fs1 q"
    using write_whole_end [OF c1(2), of "zeros (padded_size fs p - length ?c)"] room(2) by auto
  have same: "\<forall>q\<in>set ps. fs2 (image_file_path q) = fs (image_file_path q)"
    using c1(3) c2(3) Cons.prems(3) by auto
  note cong = parts_cong [OF same]
  have end2: "at_end path (b @ padded_bytes fs p) (out2, fs2)" using c2(2) by (simp add: padded_bytes_def)
  obtain out3 fs3 where c3: "copy_partitions ps out2 fs2 = (Ok out3, fs3)"
      "at_end path ((b @ padded_bytes fs p) @ parts_bytes fs ps) (out3, fs3)" "\<forall>q. q \<noteq> path \<longrightarrow> fs3 q = fs2 q"
    using Cons.IH [OF end2, unfolded cong] p(2) Cons.prems(3,4) by auto
  have "copy_partitions (p # ps) out fs = (Ok out3, fs3)"
    using c1(1) c2(1) c3(1) pad p(1) by (simp add: OpenRead_def FileSize_def)
  then show ?case using c3(2,3) c2(3) c1(3) by auto
qed simp

lemma div_sector:
  assumes "n < 2 ^ 64"
  shows "(of_nat n :: u64) div kSectorSize = of_nat (n div 512)"
  using assms by (subst word_arith_nat_div) (simp add: kSectorSize_def)

lemma whole_sectors:
  assumes "n < 2 ^ 64" and "512 dvd n"
  shows "(of_nat n div kSectorSize - 1 + 1) * kSectorSize = (of_nat n :: u64)"
proof -
  have "n div 512 * 512 = n" using assms(2) by simp
  then have "(of_nat (n div 512) :: u64) * of_nat 512 = of_nat n" by (metis of_nat_mult)
  then show ?thesis by (simp only: div_sector [OF assms(1)]) (simp add: kSectorSize_def)
qed

lemma WriteEnd_end:
  assumes "Beginning libs random b = Ok g" and "\<And>i. length (random i) = 16" and "length pad = 420"
    and "next_disk_offset b = of_nat n" and "n < 2 ^ 62" and "512 dvd n"
    and "at_end path x (out, fs)" and "length x < 2 ^ 62"
  shows "\<exists>out' fs'. WriteEnd out (End libs pad g b) fs = (Ok out', fs') \<and>
    at_end path (x @ zeros (align_up 65536 (n + 16896) - n - 16896) @ end_bytes (End libs pad g b)) (out', fs') \<and>
    (\<forall>p. p \<noteq> path \<longrightarrow> fs' p = fs p)"
proof -
  let ?d = "align_up 65536 (n + 16896)" and ?e = "End libs pad g b"
  have d: "n + 16896 \<le> ?d" "?d < n + 16896 + 65536" "65536 dvd ?d" using align_up_props [of 65536 "n + 16896"] by simp_all
  have "unat (DiskSize b) = ?d" using assms(4,5) by (intro DiskSize_nat) auto
  then have disk: "DiskSize b = of_nat ?d" by (metis word_of_nat_eq_iff of_nat_unat unsigned_of_nat ucast_id)
  have lbas: "current_lba (footer ?e) = of_nat ?d div kSectorSize - 1" "last_usable_lba (footer ?e) = of_nat n div kSectorSize - 1"
    using assms(1,4) by (auto simp: End_def with_crc_def Beginning_def Let_def disk split: if_splits)
  have "512 dvd ?d" using d(3) by (rule dvd_trans [rotated]) simp
  then have sizes: "(current_lba (footer ?e) + 1) * kSectorSize = of_nat ?d" "(last_usable_lba (footer ?e) + 1) * kSectorSize = of_nat n"
    unfolding lbas using assms(5,6) d(2) by (intro whole_sectors; simp)+
  have padding: "unat (of_nat ?d - of_nat n - sizeof_GptEnd :: u64) = ?d - n - 16896"
  proof -
    have "(of_nat ?d - of_nat n - sizeof_GptEnd :: u64) = of_nat (?d - n - 16896)"
      using d(1) by (simp add: sizeof_GptEnd_def of_nat_diff)
    moreover have "?d - n - 16896 < 2 ^ 64" using d(2) by simp
    ultimately show ?thesis using unat_u64 by metis
  qed
  note ok = Beginning_ok [OF assms(1,2)]
  have len: "length (end_bytes ?e) = 16896" by (rule length_end_bytes [OF ok(1-3) assms(3)])
  have small: "?d - n - 16896 \<le> 65536" using d(2) by arith
  have room: "length x + k \<le> max_size" if "k \<le> 65536 + 16896" for k using assms(8) that by simp
  have r1: "length x + length (zeros (?d - n - 16896)) \<le> max_size"
    and r2: "length (x @ zeros (?d - n - 16896)) + length (end_bytes ?e) \<le> max_size"
    unfolding len length_append length_replicate add.assoc using small by (intro room; linarith)+
  obtain out1 fs1 where w1: "write_whole out (zeros (?d - n - 16896)) fs = (Ok out1, fs1)"
      "at_end path (x @ zeros (?d - n - 16896)) (out1, fs1)" "\<forall>p. p \<noteq> path \<longrightarrow> fs1 p = fs p"
    using write_whole_end [OF assms(7) r1] by blast
  obtain out2 fs2 where w2: "write_whole out1 (end_bytes ?e) fs1 = (Ok out2, fs2)"
      "at_end path ((x @ zeros (?d - n - 16896)) @ end_bytes ?e) (out2, fs2)" "\<forall>p. p \<noteq> path \<longrightarrow> fs2 p = fs1 p"
    using write_whole_end [OF w1(2) r2] by blast
  show ?thesis using w1 w2 by (auto simp: WriteEnd_def sizes padding Let_def)
qed

lemma force_all_raw: "raw_parts fs ps \<Longrightarrow> force_all libs dir ps fs = (Ok ps, fs)"
proof (induction ps)
  case (Cons p ps)
  then have "ForceRawImage libs (image_file_path p) dir fs = (Ok (image_file_path p), fs)"
    by (auto simp: raw_parts_Cons intro: ForceRawImage_raw)
  then show ?case using Cons by (simp add: raw_parts_Cons)
qed simp

lemma bind_io_simps [simp]: "bind_io (Some (Inr x, fs)) f = f x fs" "bind_io (Some (Inl e, fs)) f = Some (Inl e, fs)"
  by (simp_all add: bind_io_def)

text \<open>The file that is written for raw images, in terms of what the builder has made of them.\<close>

definition disk_bytes :: "image_libs \<Rightarrow> string \<Rightarrow> GptBeginning \<Rightarrow> CompositeDiskBuilder \<Rightarrow> nat \<Rightarrow> string \<Rightarrow> string" where
  "disk_bytes libs pad g b n contents =
     beginning_bytes g @ contents @ zeros (align_up 65536 (n + 16896) - n - 16896) @ end_bytes (End libs pad g b)"

lemma AggregateImage_writes:
  assumes "raw_parts fs ps" and "output \<notin> image_file_path ` set ps" and "parts_size fs ps < 2 ^ 61"
    and "append_partitions libs fs ps (new_builder False) = Some b" and "length (partitions b) \<le> 128"
    and "next_disk_offset b = of_nat n" and "n < 2 ^ 62" and "512 dvd n"
    and "\<And>i. length (random i) = 16" and "length pad = 420"
  shows "\<exists>g fs'. Beginning libs random b = Ok g \<and> AggregateImage libs random pad ps output fs = Some (Ok (), fs') \<and>
    fs' output = Some (disk_bytes libs pad g b n (parts_bytes fs ps)) \<and> (\<forall>p. p \<noteq> output \<longrightarrow> fs' p = fs p)"
proof -
  obtain g where g: "Beginning libs random b = Ok g" using assms(5) by (simp add: Beginning_def GPT_NUM_PARTITIONS_def Let_def)
  have len: "length (beginning_bytes g) = 20480" by (rule Beginning_ok(4) [OF g assms(9)])
  let ?fs0 = "fs(output \<mapsto> [])" and ?fd = "\<lparr>open_path = output, open_offset = 0\<rparr>"
  have creat: "Creat output fs = (?fd, ?fs0)" by (simp add: Creat_def)
  obtain out1 fs1 where w1: "write_whole ?fd (beginning_bytes g) ?fs0 = (Ok out1, fs1)" "at_end output (beginning_bytes g) (out1, fs1)"
      "\<forall>p. p \<noteq> output \<longrightarrow> fs1 p = ?fs0 p"
    using write_whole_end [of "output" "[]" ?fd ?fs0 "beginning_bytes g"] len by (auto simp: at_end_def)
  have same: "\<forall>p\<in>set ps. fs1 (image_file_path p) = fs (image_file_path p)" using w1(3) assms(2) by auto
  note cong = parts_cong [OF same]
  obtain out2 fs2 where w2: "copy_partitions ps out1 fs1 = (Ok out2, fs2)"
      "at_end output (beginning_bytes g @ parts_bytes fs ps) (out2, fs2)" "\<forall>p. p \<noteq> output \<longrightarrow> fs2 p = fs1 p"
    using copy_partitions_end [OF w1(2), of ps, unfolded cong] assms(1-3) len by auto
  have "length (beginning_bytes g @ parts_bytes fs ps) < 2 ^ 62" using len assms(3) by simp
  from WriteEnd_end [OF g assms(9,10,6-8) w2(2) this] obtain out3 fs3 where
    w3: "WriteEnd out2 (End libs pad g b) fs2 = (Ok out3, fs3)"
      "at_end output (disk_bytes libs pad g b n (parts_bytes fs ps)) (out3, fs3)" "\<forall>p. p \<noteq> output \<longrightarrow> fs3 p = fs2 p"
    by (auto simp: disk_bytes_def)
  have "AggregateImage libs random pad ps output fs = Some (Ok (), fs3)"
    using w1(1) w2(1) w3(1) creat assms(1,4) g
    by (simp add: AggregateImage_def DeAndroidSparseIfNeeded_def force_all_raw WriteBeginning_def)
  moreover have "fs3 output = Some (disk_bytes libs pad g b n (parts_bytes fs ps))" using w3(2) by (simp add: at_end_def)
  moreover have "\<forall>p. p \<noteq> output \<longrightarrow> fs3 p = fs p" using w1(3) w2(3) w3(3) by simp
  ultimately show ?thesis using g by blast
qed

subsection \<open>Reading the table\<close>

text \<open>The bytes of a disk that an entry describes.\<close>

definition entry_sectors :: "GptPartitionEntry \<Rightarrow> string \<Rightarrow> string" where
  "entry_sectors e disk =
     take ((unat (last_lba e) + 1 - unat (first_lba e)) * 512) (drop (unat (first_lba e) * 512) disk)"

lemma parts_bytes_split:
  assumes "i < length ps"
  shows "parts_bytes fs ps = parts_bytes fs (take i ps) @ padded_bytes fs (ps ! i) @ parts_bytes fs (drop (Suc i) ps)"
proof -
  have "ps = take i ps @ ps ! i # drop (Suc i) ps" using assms by (rule id_take_nth_drop)
  then have "parts_bytes fs ps = parts_bytes fs (take i ps @ ps ! i # drop (Suc i) ps)" by simp
  then show ?thesis by (simp add: parts_bytes_def)
qed

lemma parts_size_split:
  assumes "i < length ps"
  shows "parts_size fs ps = parts_size fs (take i ps) + padded_size fs (ps ! i) + parts_size fs (drop (Suc i) ps)"
  using parts_bytes_split [OF assms, of fs] length_parts_bytes [of fs] by (metis length_append length_padded_bytes add.assoc)

text \<open>The sectors of a partition in the table, as numbers.\<close>

lemma partition_entry_sectors:
  assumes "512 dvd off" and "0 < off" and "off + padded_size fs p < 2 ^ 63"
  shows "unat (first_lba (partition_entry libs r (info_at fs off p))) * 512 = off"
    and "(unat (last_lba (partition_entry libs r (info_at fs off p))) + 1) * 512 = off + padded_size fs p"
proof -
  let ?k = "padded_size fs p"
  have k: "512 dvd ?k" using padded_size_bounds(1) [of fs p] by (rule dvd_trans [rotated]) simp
  have al: "AlignedSize (info_at fs off p) = of_nat ?k"
    using assms(3) by (simp add: AlignedSize_def info_at_def AlignToPartitionSize_part)
  have "first_lba (partition_entry libs r (info_at fs off p)) = of_nat (off div 512)"
    using assms(3) by (simp add: partition_entry_def info_at_def div_sector)
  moreover have "unat (of_nat (off div 512) :: u64) = off div 512" using assms(3) by (intro unat_u64) simp
  ultimately show "unat (first_lba (partition_entry libs r (info_at fs off p))) * 512 = off" using assms(1) by simp
  let ?m = "(off + ?k) div 512"
  have m: "0 < ?m" "?m < 2 ^ 63" "?m * 512 = off + ?k" using assms k by (auto simp: div_greater_zero_iff dvd_imp_le)
  have "last_lba (partition_entry libs r (info_at fs off p)) = (of_nat off + of_nat ?k) div kSectorSize - 1"
    by (simp add: partition_entry_def al) (simp add: info_at_def)
  also have "\<dots> = of_nat ?m - 1" using assms(3) div_sector [of "off + ?k"] by simp
  also have "\<dots> = of_nat (?m - 1)" using m(1) by (simp add: of_nat_diff)
  finally have "unat (last_lba (partition_entry libs r (info_at fs off p))) = ?m - 1"
    using m(2) unat_u64 [of "?m - 1"] by simp
  then show "(unat (last_lba (partition_entry libs r (info_at fs off p))) + 1) * 512 = off + ?k" using m by simp
qed

text \<open>
  The backup at the end of a disk: the header in the last sector, with the two positions exchanged, and
  the same entries where it says.
\<close>

definition backup_ok :: "image_libs \<Rightarrow> GptBeginning \<Rightarrow> string \<Rightarrow> bool" where
  "backup_ok libs g disk \<longleftrightarrow>
     length disk = (unat (backup_lba (header g)) + 1) * 512 \<and>
     (\<exists>f. take 92 (drop (length disk - 512) disk) = header_bytes f \<and> current_lba f = backup_lba (header g) \<and>
          backup_lba f = current_lba (header g) \<and> header_crc32 f = crc32 libs (header_bytes (f\<lparr>header_crc32 := 0\<rparr>)) \<and>
          take 16384 (drop (unat (partition_entries_lba f) * 512) disk) = concat (map entry_bytes (entries g)))"

lemma disk_backup_ok:
  assumes "Beginning libs random b = Ok g" and "\<And>i. length (random i) = 16" and "length pad = 420"
    and "next_disk_offset b = of_nat (20480 + length contents)" and "20480 + length contents < 2 ^ 62"
    and "disk = disk_bytes libs pad g b (20480 + length contents) contents"
  shows "backup_ok libs g disk" and "length disk = align_up 65536 (20480 + length contents + 16896)"
proof -
  let ?n = "20480 + length contents"
  let ?d = "align_up 65536 (?n + 16896)" and ?f = "footer (End libs pad g b)" and ?es = "concat (map entry_bytes (entries g))"
  note ok = Beginning_ok [OF assms(1,2)]
  have d: "?n + 16896 \<le> ?d" "?d < ?n + 16896 + 65536" "65536 dvd ?d" using align_up_props [of 65536 "?n + 16896"] by simp_all
  have len: "length (end_bytes (End libs pad g b)) = 16896" by (rule length_end_bytes [OF ok(1-3) assms(3)])
  show dl: "length disk = ?d" using d(1) ok(4) len by (simp add: assms(6) disk_bytes_def)
  have "unat (DiskSize b) = ?d" using assms(4,5) by (intro DiskSize_nat) auto
  then have disk: "DiskSize b = of_nat ?d" by (metis word_of_nat_eq_iff of_nat_unat unsigned_of_nat ucast_id)
  have dm: "?d div 512 * 512 = ?d" "1 \<le> ?d div 512" using d(1,3) dvd_trans [of 512 65536 ?d] by auto
  have "backup_lba (header g) = of_nat ?d div kSectorSize - 1"
    using assms(1) by (auto simp: with_crc_def Beginning_def Let_def disk split: if_splits)
  also have "\<dots> = of_nat (?d div 512 - 1)" using d(2) assms(5) dm(2) by (simp add: div_sector of_nat_diff)
  finally have backup: "unat (backup_lba (header g)) = ?d div 512 - 1" using d(2) assms(5) by (simp add: unat_u64)
  have "partition_entries_lba ?f = (of_nat ?d - sizeof_entries) div kSectorSize - 1"
    by (simp add: End_def with_crc_def disk)
  also have "(of_nat ?d - sizeof_entries) div kSectorSize - 1 = of_nat ((?d - 16384) div 512 - 1)"
  proof -
    have e: "(of_nat ?d - sizeof_entries :: u64) = of_nat (?d - 16384)" using d(1) by (simp add: sizeof_entries_def of_nat_diff)
    have "?d - 16384 < 2 ^ 64" using d(2) assms(5) by simp
    then have "(of_nat ?d - sizeof_entries) div kSectorSize = (of_nat ((?d - 16384) div 512) :: u64)" unfolding e by (rule div_sector)
    moreover have "1 \<le> (?d - 16384) div 512" using d(1) by (simp add: div_greater_zero_iff Suc_le_eq)
    ultimately show ?thesis by (simp only: of_nat_diff of_nat_1)
  qed
  finally have "unat (partition_entries_lba ?f) = (?d - 16384) div 512 - 1" using d(2) assms(5) by (simp add: unat_u64)
  moreover have "((?d - 16384) div 512 - 1) * 512 = ?d - 16896"
  proof -
    have "512 dvd ?d" using d(3) by (rule dvd_trans [rotated]) simp
    then have "512 dvd ?d - 16384" by (rule dvd_diff_nat) simp
    then have "(?d - 16384) div 512 * 512 = ?d - 16384" by (rule dvd_div_mult_self)
    then show ?thesis by (simp add: diff_mult_distrib)
  qed
  ultimately have at: "unat (partition_entries_lba ?f) * 512 = ?d - 16896" by simp
  have es: "length ?es = 16384" using length_concat_const [of "entries g" entry_bytes 128] ok(2,3) by (simp add: length_entry_bytes)
  have hd: "header_ok ?f" using ok(1) by (simp add: End_def)
  have tail: "drop (?d - 16896) disk = ?es @ header_bytes ?f @ pad"
    using d(1) ok(4) by (simp add: assms(6) disk_bytes_def end_bytes_def End_def)
  have "drop (?d - 512) disk = drop 16384 (drop (?d - 16896) disk)" using d(1) by simp
  then have last: "take 92 (drop (length disk - 512) disk) = header_bytes ?f"
    unfolding dl tail using es length_header_bytes [OF hd] by simp
  have "take 16384 (drop (unat (partition_entries_lba ?f) * 512) disk) = ?es" unfolding at tail using es by simp
  moreover have "current_lba ?f = backup_lba (header g)" "backup_lba ?f = current_lba (header g)"
      "header_crc32 ?f = crc32 libs (header_bytes (?f\<lparr>header_crc32 := 0\<rparr>))"
    by (simp_all add: End_def with_crc_def)
  ultimately show "backup_ok libs g disk" unfolding backup_ok_def using last dl backup dm by auto
qed

text \<open>The builder after raw images were appended, and its table.\<close>

definition raw_builder :: "bool \<Rightarrow> files \<Rightarrow> ImagePartition list \<Rightarrow> CompositeDiskBuilder" where
  "raw_builder ro fs ps = (new_builder ro)\<lparr>partitions := infos fs 20480 ps, next_disk_offset := of_nat (20480 + parts_size fs ps)\<rparr>"

lemma raw_builder_appended:
  assumes "raw_parts fs ps" and "parts_size fs ps < 2 ^ 62" and "ro \<or> (\<forall>p\<in>set ps. 4096 dvd length (part_bytes fs p))"
  shows "append_partitions libs fs ps (new_builder ro) = Some (raw_builder ro fs ps)"
  using append_raw [OF assms(1), of "new_builder ro" 20480 libs] assms(2,3)
  by (simp add: raw_builder_def new_builder_def sizeof_GptBeginning_def)

lemma sectors_dvd: "512 dvd 20480 + parts_size fs ps"
proof -
  have "512 dvd parts_size fs ps" using parts_size_dvd [of fs ps] by (rule dvd_trans [rotated]) simp
  then show ?thesis by (intro dvd_add) simp_all
qed

lemma table_lba:
  assumes "Beginning libs random (raw_builder ro fs ps) = Ok g" and "parts_size fs ps < 2 ^ 62" and "i < length ps"
  shows "unat (first_lba (entries g ! i)) * 512 = 20480 + parts_size fs (take i ps)"
    and "(unat (last_lba (entries g ! i)) + 1) * 512 = 20480 + parts_size fs (take i ps) + padded_size fs (ps ! i)"
proof -
  let ?off = "20480 + parts_size fs (take i ps)"
  have entry: "entries g ! i = partition_entry libs (random (Suc i)) (info_at fs ?off (ps ! i))"
    using assms(1,3) by (auto simp: Beginning_def raw_builder_def Let_def nth_append infos_nth split: if_splits)
  have "?off + padded_size fs (ps ! i) < 2 ^ 63" using parts_size_split [OF assms(3), of fs] assms(2) by simp
  then show "unat (first_lba (entries g ! i)) * 512 = ?off" "(unat (last_lba (entries g ! i)) + 1) * 512 = ?off + padded_size fs (ps ! i)"
    unfolding entry by (intro partition_entry_sectors sectors_dvd; simp)+
qed

lemma table_apart:
  assumes "Beginning libs random (raw_builder ro fs ps) = Ok g" and "parts_size fs ps < 2 ^ 62" and "j < length ps" and "i < j"
  shows "unat (last_lba (entries g ! i)) < unat (first_lba (entries g ! j))"
proof -
  have "take j ps = take i ps @ ps ! i # drop (Suc i) (take j ps)"
    using id_take_nth_drop [of i "take j ps"] assms(3,4) by simp
  then have "parts_size fs (take j ps) = parts_size fs (take i ps @ ps ! i # drop (Suc i) (take j ps))" by (rule arg_cong)
  then have "(unat (last_lba (entries g ! i)) + 1) * 512 \<le> unat (first_lba (entries g ! j)) * 512"
    using table_lba(2) [OF assms(1,2), of i] table_lba(1) [OF assms(1-3)] assms(3,4) by (simp add: parts_size_append)
  then show ?thesis by simp
qed

lemma table_usable:
  assumes "Beginning libs random (raw_builder ro fs ps) = Ok g" and "parts_size fs ps < 2 ^ 62" and "i < length ps"
  shows "unat (first_usable_lba (header g)) \<le> unat (first_lba (entries g ! i))"
    and "unat (last_lba (entries g ! i)) \<le> unat (last_usable_lba (header g))"
proof -
  let ?n = "20480 + parts_size fs ps"
  have h: "last_usable_lba (header g) = of_nat ?n div kSectorSize - 1" "first_usable_lba (header g) = sizeof_GptBeginning div kSectorSize"
    using assms(1) by (auto simp: with_crc_def Beginning_def raw_builder_def Let_def split: if_splits)
  have "?n < 2 ^ 64" "?n div 512 < 2 ^ 64" "1 \<le> ?n div 512" using assms(2) by simp_all
  then have "of_nat ?n div kSectorSize - 1 = (of_nat (?n div 512 - 1) :: u64)" by (simp only: div_sector of_nat_diff of_nat_1)
  then have "last_usable_lba (header g) = of_nat (?n div 512 - 1)" using h(1) by (rule trans [rotated])
  moreover have "?n div 512 - 1 < 2 ^ 64" using assms(2) by simp
  ultimately have last: "unat (last_usable_lba (header g)) = ?n div 512 - 1" by (simp only: unat_u64)
  have "unat (last_lba (entries g ! i)) + 1 \<le> ?n div 512"
  proof -
    have "(unat (last_lba (entries g ! i)) + 1) * 512 \<le> ?n"
      using table_lba(2) [OF assms] parts_size_split [OF assms(3), of fs] by simp
    then show ?thesis by (simp add: less_eq_div_iff_mult_less_eq)
  qed
  then show "unat (last_lba (entries g ! i)) \<le> unat (last_usable_lba (header g))" using last by simp
  have "unat (first_usable_lba (header g)) = 40" by (simp add: h(2) sizeof_GptBeginning_def kSectorSize_def)
  then show "unat (first_usable_lba (header g)) \<le> unat (first_lba (entries g ! i))" using table_lba(1) [OF assms] by simp
qed

lemma table_sectors:
  assumes "Beginning libs random (raw_builder ro fs ps) = Ok g" and "parts_size fs ps < 2 ^ 62" and "i < length ps"
    and "length (beginning_bytes g) = 20480" and "\<And>p. length (f p) = padded_size fs p"
  shows "entry_sectors (entries g ! i) (beginning_bytes g @ concat (map f ps) @ rest) = f (ps ! i)"
proof -
  note lba = table_lba [OF assms(1-3)]
  have k: "(unat (last_lba (entries g ! i)) + 1 - unat (first_lba (entries g ! i))) * 512 = padded_size fs (ps ! i)"
    using lba by (simp add: diff_mult_distrib)
  have "ps = take i ps @ ps ! i # drop (Suc i) ps" using assms(3) by (rule id_take_nth_drop)
  then have "concat (map f ps) = concat (map f (take i ps @ ps ! i # drop (Suc i) ps))" by (rule arg_cong)
  moreover have "length (concat (map f (take i ps))) = parts_size fs (take i ps)"
    by (simp add: length_concat parts_size_def comp_def assms(5))
  ultimately show ?thesis unfolding entry_sectors_def k lba(1) using assms(4,5) by simp
qed

text \<open>
  C12: The disk that is aggregated from raw images, all with a size that is a multiple of 4096, has each image
  in the sectors that the partition table gives for it. The function returns, and changes no
  other file. The file starts with the table; the entries are in the order of the images, do
  not overlap and lie in the usable range; the file is a multiple of 64 KiB long and ends with a backup
  of the table whose checksum is that of its header, at the position that the main header names.
\<close>

theorem aggregated_disk_holds_partitions:
  assumes "raw_parts fs ps" and "\<forall>p\<in>set ps. 4096 dvd length (part_bytes fs p)" and "output \<notin> image_file_path ` set ps"
    and "length ps \<le> 128" and "parts_size fs ps < 2 ^ 61" and "\<forall>i. length (random i) = 16" and "length pad = 420"
  shows "\<exists>g fs' disk. AggregateImage libs random pad ps output fs = Some (Ok (), fs') \<and> fs' output = Some disk \<and>
    (\<forall>path. path \<noteq> output \<longrightarrow> fs' path = fs path) \<and> take 20480 disk = beginning_bytes g \<and>
    (\<forall>i<length ps. entry_sectors (entries g ! i) disk = part_bytes fs (ps ! i) \<and>
       unat (first_usable_lba (header g)) \<le> unat (first_lba (entries g ! i)) \<and>
       unat (last_lba (entries g ! i)) \<le> unat (last_usable_lba (header g))) \<and>
    (\<forall>j<length ps. \<forall>i<j. unat (last_lba (entries g ! i)) < unat (first_lba (entries g ! j))) \<and>
    65536 dvd length disk \<and> backup_ok libs g disk"
proof -
  let ?n = "20480 + parts_size fs ps" and ?b = "raw_builder False fs ps"
  have size: "parts_size fs ps < 2 ^ 62" using assms(5) by simp
  have rnd: "length (random i) = 16" for i using assms(6) by simp
  have b: "length (partitions ?b) \<le> 128" "next_disk_offset ?b = of_nat ?n" "?n < 2 ^ 62"
    using assms(4,5) by (simp_all add: raw_builder_def)
  have app: "append_partitions libs fs ps (new_builder False) = Some ?b" using raw_builder_appended [OF assms(1) size] assms(2) by simp
  obtain g fs' where g: "Beginning libs random ?b = Ok g" and agg: "AggregateImage libs random pad ps output fs = Some (Ok (), fs')"
      and disk: "fs' output = Some (disk_bytes libs pad g ?b ?n (parts_bytes fs ps))" and others: "\<forall>p. p \<noteq> output \<longrightarrow> fs' p = fs p"
    using AggregateImage_writes [where random = random, OF assms(1,3,5) app b sectors_dvd rnd assms(7)] by blast
  define d where "d = disk_bytes libs pad g ?b ?n (parts_bytes fs ps)"
  have bk: "backup_ok libs g d" "length d = align_up 65536 (?n + 16896)"
    using disk_backup_ok [OF g rnd assms(7), of "parts_bytes fs ps" d] b(2,3) unfolding length_parts_bytes d_def by blast+
  have len: "length (beginning_bytes g) = 20480" by (rule Beginning_ok(4) [OF g rnd])
  have "padded_bytes fs (ps ! i) = part_bytes fs (ps ! i)" if "i < length ps" for i
    using assms(2) that align_up_props(4) [of 4096 "length (part_bytes fs (ps ! i))"] by (simp add: padded_bytes_def padded_size_def)
  then have sectors: "entry_sectors (entries g ! i) d = part_bytes fs (ps ! i)" if "i < length ps" for i
    using table_sectors [OF g size that len, of "padded_bytes fs"] that by (simp add: d_def disk_bytes_def parts_bytes_def)
  have "take 20480 d = beginning_bytes g" using len by (simp add: d_def disk_bytes_def)
  moreover have "65536 dvd length d" unfolding bk(2) by (rule align_up_props) simp
  ultimately show ?thesis
    using agg disk others sectors table_usable [OF g size] table_apart [OF g size] bk(1) unfolding d_def by blast
qed

definition sample_libs :: image_libs where
  "sample_libs = \<lparr>ParseFromString = (\<lambda>_. None), SerializeToString = (\<lambda>_. []), sparse_len = (\<lambda>_. None), simg2img = (\<lambda>_. None),
     real_path = (\<lambda>_ p. Some p), dir_writable = (\<lambda>_. True), crc32 = (\<lambda>s. of_nat (length s)), wide_char = (\<lambda>c. of_nat (of_char c))\<rparr>"

definition sample_files :: files where
  "sample_files = [''boot.img'' \<mapsto> replicate 4096 (CHR ''b''), ''misc.img'' \<mapsto> replicate 8192 (CHR ''m'')]"

definition sample_parts :: "ImagePartition list" where
  "sample_parts =
     [\<lparr>label = ''boot'', image_file_path = ''boot.img'', image_type = kEfiSystemPartition\<rparr>,
      \<lparr>label = ''misc'', image_file_path = ''misc.img'', image_type = kLinuxFilesystem\<rparr>]"

lemma sample_raw: "raw_parts sample_files sample_parts" "\<forall>p\<in>set sample_parts. 4096 dvd length (part_bytes sample_files p)"
    "parts_size sample_files sample_parts = 12288"
proof -
  have "take k (replicate n c) \<noteq> d # s" if "c \<noteq> d" for k n c d and s :: string using that by (cases k; cases n) simp_all
  then have "raw_image (replicate n c)" if "c = CHR ''b'' \<or> c = CHR ''m''" for n c
    using that by (auto simp: raw_image_def composite_magic_def qcow2_magic_def kAndroidSparseImageMagic_def simp del: take_replicate)
  then show "raw_parts sample_files sample_parts" by (simp add: raw_parts_def sample_files_def sample_parts_def)
  show "\<forall>p\<in>set sample_parts. 4096 dvd length (part_bytes sample_files p)" "parts_size sample_files sample_parts = 12288"
    by (simp_all add: sample_files_def sample_parts_def part_bytes_def padded_size_def align_up_def)
qed

theorem aggregated_disk_holds_partitions_witness:
  "\<exists>g fs' disk. AggregateImage sample_libs (\<lambda>_. zeros 16) (zeros 420) sample_parts ''disk.img'' sample_files = Some (Ok (), fs') \<and>
    fs' ''disk.img'' = Some disk \<and> take 20480 disk = beginning_bytes g \<and>
    entry_sectors (entries g ! 1) disk = replicate 8192 (CHR ''m'') \<and> backup_ok sample_libs g disk"
proof -
  have out: "''disk.img'' \<notin> image_file_path ` set sample_parts" by (simp add: sample_parts_def)
  have two: "length sample_parts = 2" "part_bytes sample_files (sample_parts ! 1) = replicate 8192 (CHR ''m'')"
    by (simp_all add: sample_parts_def part_bytes_def sample_files_def)
  obtain g fs' disk where r: "AggregateImage sample_libs (\<lambda>_. zeros 16) (zeros 420) sample_parts ''disk.img'' sample_files = Some (Ok (), fs')"
      "fs' ''disk.img'' = Some disk" "take 20480 disk = beginning_bytes g"
      "\<forall>i<length sample_parts. entry_sectors (entries g ! i) disk = part_bytes sample_files (sample_parts ! i)" "backup_ok sample_libs g disk"
    using aggregated_disk_holds_partitions [where random = "\<lambda>_. zeros 16" and pad = "zeros 420" and libs = sample_libs, OF sample_raw(1,2) out]
      two(1) sample_raw(3) by fastforce
  then have "entry_sectors (entries g ! 1) disk = replicate 8192 (CHR ''m'')" using two by simp
  then show ?thesis using r by blast
qed

subsection \<open>Images with another size\<close>

definition aligned_part :: "files \<Rightarrow> ImagePartition \<Rightarrow> bool" where
  "aligned_part fs p \<longleftrightarrow> 4096 dvd length (part_bytes fs p)"

text \<open>A read-write builder refuses the others, and its caller does not notice.\<close>

lemma append_unaligned:
  assumes "fs (image_file_path p) = Some (part_bytes fs p)" and "raw_image (part_bytes fs p)" and "padded_size fs p < 2 ^ 63"
    and "\<not> aligned_part fs p" and "\<not> read_only b"
  shows "AppendPartition libs fs p b = Some (Err Cf_Error)"
proof -
  let ?n = "length (part_bytes fs p)"
  have ne: "padded_size fs p \<noteq> ?n" using assms(4) padded_size_bounds(1) [of fs p] by (metis aligned_part_def)
  have u: "unat (of_nat ?n :: u64) = ?n" "unat (of_nat (padded_size fs p) :: u64) = padded_size fs p"
    using assms(3) padded_size_bounds(2) [of fs p] by (intro unat_u64; simp)+
  have "(of_nat ?n :: u64) \<noteq> of_nat (padded_size fs p)" using ne u by metis
  then have "(of_nat ?n :: u64) \<noteq> AlignToPartitionSize (of_nat ?n)" by (simp add: AlignToPartitionSize_part [OF assms(3)])
  then show ?thesis using assms(5) by (simp add: AppendPartition_def ExpandedStorageSize_raw [of fs "image_file_path p", OF assms(1,2)] Let_def)
qed

lemma append_read_write:
  assumes "raw_parts fs ps" and "next_disk_offset b = of_nat off" and "off + parts_size fs ps < 2 ^ 63" and "\<not> read_only b"
  shows "append_partitions libs fs ps b = append_partitions libs fs (filter (aligned_part fs) ps) b"
  using assms
proof (induction ps arbitrary: b off)
  case (Cons p ps)
  have p: "fs (image_file_path p) = Some (part_bytes fs p)" "raw_image (part_bytes fs p)" "raw_parts fs ps" "padded_size fs p < 2 ^ 63"
    using Cons.prems(1,3) by (simp_all add: raw_parts_Cons)
  show ?case
  proof (cases "aligned_part fs p")
    case True
    let ?b = "b\<lparr>partitions := partitions b @ [info_at fs off p], next_disk_offset := of_nat (off + padded_size fs p)\<rparr>"
    have "AppendPartition libs fs p b = Some (Ok ?b)"
      using True Cons.prems(2) by (intro append_one [OF p(1,2,4)]) (simp_all add: aligned_part_def)
    moreover have "append_partitions libs fs ps ?b = append_partitions libs fs (filter (aligned_part fs) ps) ?b"
      using Cons.prems(3,4) by (intro Cons.IH [OF p(3), of _ "off + padded_size fs p"]) simp_all
    ultimately show ?thesis using True by simp
  next
    case False
    then show ?thesis using append_unaligned [OF p(1,2,4) False Cons.prems(4)] Cons.IH [OF p(3)] Cons.prems(2-4) by auto
  qed
qed simp

lemma parts_size_filter: "parts_size fs (filter P ps) \<le> parts_size fs ps"
  by (induction ps) auto

lemma raw_parts_filter: "raw_parts fs ps \<Longrightarrow> raw_parts fs (filter P ps)"
  by (auto simp: raw_parts_def)

text \<open>
  A raw image whose size is not a multiple of 4096 breaks an aggregated disk without an error. Only the
  other images get an entry, as if these were all; but the data of all images is written, so that
  every entry behind the first such image describes sectors that hold something else.
\<close>

theorem unaligned_images_shift_the_disk:
  assumes "raw_parts fs ps" and "output \<notin> image_file_path ` set ps" and "qs = filter (aligned_part fs) ps"
    and "length ps \<le> 128" and "parts_size fs ps < 2 ^ 61" and "\<forall>i. length (random i) = 16" and "length pad = 420"
  shows "\<exists>g fs' rest. AggregateImage libs random pad ps output fs = Some (Ok (), fs') \<and>
    fs' output = Some (beginning_bytes g @ parts_bytes fs ps @ rest) \<and> length (beginning_bytes g) = 20480 \<and>
    (\<forall>i<length qs. unat (first_lba (entries g ! i)) * 512 = 20480 + parts_size fs (take i qs) \<and>
       (unat (last_lba (entries g ! i)) + 1) * 512 = 20480 + parts_size fs (take (Suc i) qs) \<and>
       partition_name (entries g ! i) = u16cpy (replicate 36 0) (map (wide_char libs) (label (qs ! i)) @ [0]) 36) \<and>
    (\<forall>i<128. length qs \<le> i \<longrightarrow> entries g ! i = zero_entry)"
proof -
  let ?n = "20480 + parts_size fs qs" and ?b = "raw_builder False fs qs"
  have size: "parts_size fs qs < 2 ^ 62" using parts_size_filter [of fs "aligned_part fs" ps] assms(3,5) by simp
  have len: "length qs \<le> 128" unfolding assms(3) using assms(4) length_filter_le order_trans by blast
  have rnd: "length (random i) = 16" for i using assms(6) by simp
  have "\<forall>p\<in>set qs. 4096 dvd length (part_bytes fs p)" using assms(3) by (simp add: aligned_part_def)
  then have "append_partitions libs fs qs (new_builder False) = Some ?b"
    using raw_builder_appended [OF _ size] raw_parts_filter [OF assms(1)] assms(3) by simp
  then have app: "append_partitions libs fs ps (new_builder False) = Some ?b"
    using append_read_write [OF assms(1), of "new_builder False" 20480 libs] assms(3,5) by (simp add: new_builder_def sizeof_GptBeginning_def)
  have b: "length (partitions ?b) \<le> 128" "next_disk_offset ?b = of_nat ?n" "?n < 2 ^ 62"
    using len size parts_size_filter [of fs "aligned_part fs" ps] assms(3,5) by (simp_all add: raw_builder_def)
  obtain g fs' where g: "Beginning libs random ?b = Ok g" and agg: "AggregateImage libs random pad ps output fs = Some (Ok (), fs')"
      and disk: "fs' output = Some (disk_bytes libs pad g ?b ?n (parts_bytes fs ps))"
    using AggregateImage_writes [where random = random, OF assms(1,2,5) app b sectors_dvd rnd assms(7)] by blast
  have entry: "entries g ! i = partition_entry libs (random (Suc i)) (info_at fs (20480 + parts_size fs (take i qs)) (qs ! i))" if "i < length qs" for i
    using g that by (auto simp: Beginning_def raw_builder_def Let_def nth_append infos_nth split: if_splits)
  have "partition_name (entries g ! i) = u16cpy (replicate 36 0) (map (wide_char libs) (label (qs ! i)) @ [0]) 36" if "i < length qs" for i
    unfolding entry [OF that] by (simp add: partition_entry_def info_at_def)
  moreover have "entries g ! i = zero_entry" if "i < 128" "length qs \<le> i" for i
    using g that by (auto simp: Beginning_def raw_builder_def Let_def nth_append GPT_NUM_PARTITIONS_def split: if_splits)
  moreover have "parts_size fs (take (Suc i) qs) = parts_size fs (take i qs) + padded_size fs (qs ! i)" if "i < length qs" for i
    using that by (simp add: take_Suc_conv_app_nth parts_size_append)
  ultimately show ?thesis
    using agg disk table_lba [OF g size] Beginning_ok(4) [OF g rnd] unfolding disk_bytes_def
    by (intro exI [of _ g] exI [of _ fs'] exI conjI) (simp_all add: add.assoc)
qed

definition odd_files :: files where
  "odd_files = [''boot.img'' \<mapsto> ''b'', ''misc.img'' \<mapsto> replicate 8192 (CHR ''m'')]"

lemma odd_raw: "raw_image ''b''" "raw_parts odd_files sample_parts" "parts_size odd_files sample_parts = 12288"
proof -
  show b: "raw_image ''b''" by code_simp
  have "raw_image (replicate 8192 (CHR ''m''))"
    using sample_raw(1) by (simp add: raw_parts_def sample_parts_def sample_files_def)
  then show "raw_parts odd_files sample_parts" using b by (simp add: raw_parts_def sample_parts_def odd_files_def)
  show "parts_size odd_files sample_parts = 12288"
    by (simp add: odd_files_def sample_parts_def part_bytes_def padded_size_def align_up_def)
qed

theorem unaligned_images_shift_the_disk_witness:
  "\<exists>g fs' rest. AggregateImage sample_libs (\<lambda>_. zeros 16) (zeros 420) sample_parts ''disk.img'' odd_files = Some (Ok (), fs') \<and>
    fs' ''disk.img'' = Some (beginning_bytes g @ (CHR ''b'' # zeros 4095) @ replicate 8192 (CHR ''m'') @ rest) \<and>
    length (beginning_bytes g) = 20480 \<and> unat (first_lba (entries g ! 0)) * 512 = 20480 \<and>
    take 5 (partition_name (entries g ! 0)) = [109, 105, 115, 99, 0] \<and> entries g ! 1 = zero_entry"
proof -
  have out: "''disk.img'' \<notin> image_file_path ` set sample_parts" by (simp add: sample_parts_def)
  have parts: "part_bytes odd_files (sample_parts ! 0) = ''b''" "part_bytes odd_files (sample_parts ! Suc 0) = replicate 8192 (CHR ''m'')"
    by (simp_all add: sample_parts_def part_bytes_def odd_files_def)
  have two: "sample_parts = [sample_parts ! 0, sample_parts ! Suc 0]" by (simp add: sample_parts_def)
  have padded: "padded_size odd_files (sample_parts ! 0) = 4096" "padded_size odd_files (sample_parts ! Suc 0) = 8192"
    by (simp_all add: padded_size_def parts align_up_def)
  have qs: "[sample_parts ! Suc 0] = filter (aligned_part odd_files) sample_parts"
    using parts by (subst (2) two) (simp add: aligned_part_def)
  note raw = odd_raw(2)
  have size: "parts_size odd_files sample_parts < 2 ^ 61" by (simp add: odd_raw(3))
  have bytes: "parts_bytes odd_files sample_parts = (CHR ''b'' # zeros 4095) @ replicate 8192 (CHR ''m'')"
    by (subst two) (simp add: padded_bytes_def parts padded)
  have name: "take 5 (u16cpy (replicate 36 0) (map (wide_char sample_libs) (label (sample_parts ! Suc 0)) @ [0]) 36) = [109, 105, 115, 99, 0]"
    by code_simp
  have "length sample_parts \<le> 128" "\<forall>i. length ((\<lambda>_. zeros 16) (i :: nat)) = 16" "length (zeros 420) = 420" by (simp_all add: sample_parts_def)
  from unaligned_images_shift_the_disk [where libs = sample_libs, OF raw out qs this(1) size this(2,3)] obtain g fs' rest where
    "AggregateImage sample_libs (\<lambda>_. zeros 16) (zeros 420) sample_parts ''disk.img'' odd_files = Some (Ok (), fs')"
    "fs' ''disk.img'' = Some (beginning_bytes g @ parts_bytes odd_files sample_parts @ rest)" "length (beginning_bytes g) = 20480"
    "unat (first_lba (entries g ! 0)) * 512 = 20480" "entries g ! Suc 0 = zero_entry"
    "partition_name (entries g ! 0) = u16cpy (replicate 36 0) (map (wide_char sample_libs) (label (sample_parts ! Suc 0)) @ [0]) 36"
    by auto
  then show ?thesis using name bytes by (intro exI [of _ g] exI [of _ fs'] exI [of _ rest]) simp
qed

end
