(* ===== verification/Composite_Spec.thy ===== *)
theory Composite_Spec
  imports Composite_Disk
begin

section \<open>Composite disks\<close>

text \<open>
  What \<^verbatim>\<open>CreateOrUpdateCompositeDisk\<close> of \<^verbatim>\<open>image_aggregator.cc\<close> leaves behind: a description of the disk by
  pieces of other files, and a header and a footer with the partition table. The reference is
  the disk that a virtual machine sees, the pieces one after another (\<open>composite_bytes\<close>); it has the
  layout of an aggregated disk. The second part is about calls that are repeated.
\<close>

subsection \<open>The disk that a description stands for\<close>

text \<open>
  A component reaches to the offset of the next one, the last to the length of the disk; a file
  that is missing or too short for this makes the disk unreadable.
\<close>

fun next_offset :: "nat \<Rightarrow> ComponentDisk list \<Rightarrow> nat" where
  "next_offset stop [] = stop"
| "next_offset stop (c # cs) = unat (component_offset c)"

fun composite_bytes :: "files \<Rightarrow> nat \<Rightarrow> ComponentDisk list \<Rightarrow> string option" where
  "composite_bytes fs stop [] = Some []"
| "composite_bytes fs stop (c # cs) =
     (case fs (file_path c) of
        None \<Rightarrow> None
      | Some b \<Rightarrow>
          let n = next_offset stop cs - unat (component_offset c)
          in if length b < n then None else map_option (\<lambda>rest. take n b @ rest) (composite_bytes fs stop cs))"

subsection \<open>The description of raw images\<close>

fun raw_components :: "bool \<Rightarrow> string \<Rightarrow> files \<Rightarrow> nat \<Rightarrow> ImagePartition list \<Rightarrow> ComponentDisk list" where
  "raw_components ro hdr fs off [] = []"
| "raw_components ro hdr fs off (p # ps) =
     \<lparr>file_path = image_file_path p, component_offset = of_nat off, read_write_capability = (if ro then READ_ONLY else READ_WRITE)\<rparr> #
     (if padded_size fs p \<noteq> length (part_bytes fs p)
      then [\<lparr>file_path = hdr, component_offset = of_nat (off + length (part_bytes fs p)), read_write_capability = READ_ONLY\<rparr>]
      else []) @ raw_components ro hdr fs (off + padded_size fs p) ps"

definition raw_spec :: "bool \<Rightarrow> files \<Rightarrow> ImagePartition list \<Rightarrow> string \<Rightarrow> string \<Rightarrow> CompositeDisk" where
  "raw_spec ro fs ps hdr ft =
     \<lparr>cdisk_version = 2,
      component_disks = \<lparr>file_path = hdr, component_offset = 0, read_write_capability = READ_ONLY\<rparr> # raw_components ro hdr fs 20480 ps @
        [\<lparr>file_path = ft, component_offset = of_nat (20480 + parts_size fs ps), read_write_capability = READ_ONLY\<rparr>],
      cdisk_length = DiskSize (raw_builder ro fs ps)\<rparr>"

lemma bind_run_simps [simp]: "bind_run (Some (Inr x)) f = f x" "bind_run (Some (Inl e)) f = Some (Inl e)"
  by (simp_all add: bind_run_def)

lemma partition_components_raw:
  assumes "raw_parts fs ps" and "off + parts_size fs ps < 2 ^ 63"
  shows "partition_components libs fs ro hdr (infos fs off ps) = Some (Ok (raw_components ro hdr fs off ps))"
  using assms
proof (induction ps arbitrary: off)
  case (Cons p ps)
  have p: "fs (image_file_path p) = Some (part_bytes fs p)" "raw_image (part_bytes fs p)" "raw_parts fs ps" "padded_size fs p < 2 ^ 63"
    using Cons.prems by (simp_all add: raw_parts_Cons)
  have u: "unat (of_nat (length (part_bytes fs p)) :: u64) = length (part_bytes fs p)" "unat (of_nat (padded_size fs p) :: u64) = padded_size fs p"
    using p(4) padded_size_bounds(2) [of fs p] by (intro unat_u64; simp)+
  have "AlignedSize (info_at fs off p) = of_nat (padded_size fs p)"
    using p(4) by (simp add: AlignedSize_def info_at_def AlignToPartitionSize_part)
  moreover have "(of_nat (padded_size fs p) :: u64) = of_nat (length (part_bytes fs p)) \<longleftrightarrow> padded_size fs p = length (part_bytes fs p)"
    using u by metis
  moreover have "partition_components libs fs ro hdr (infos fs (off + padded_size fs p) ps) = Some (Ok (raw_components ro hdr fs (off + padded_size fs p) ps))"
    using Cons.prems(2) by (intro Cons.IH [OF p(3)]) simp
  ultimately show ?case
    using ExpandedStorageSize_raw [of fs "image_file_path p", OF p(1,2)] by (simp add: info_at_def)
qed simp

lemma MakeCompositeDiskSpec_raw:
  assumes "raw_parts fs ps" and "parts_size fs ps < 2 ^ 62"
  shows "MakeCompositeDiskSpec libs fs hdr ft (raw_builder ro fs ps) = Some (Ok (raw_spec ro fs ps hdr ft))"
  using partition_components_raw [OF assms(1), of 20480 libs ro hdr] assms(2)
  by (simp add: MakeCompositeDiskSpec_def raw_spec_def) (simp add: raw_builder_def new_builder_def)

subsection \<open>Reading the description\<close>

text \<open>The gap behind an image is filled with the first bytes of the header file.\<close>

definition filled_bytes :: "string \<Rightarrow> files \<Rightarrow> ImagePartition \<Rightarrow> string" where
  "filled_bytes fill fs p = part_bytes fs p @ take (padded_size fs p - length (part_bytes fs p)) fill"

lemma length_filled_bytes [simp]: "4096 \<le> length fill \<Longrightarrow> length (filled_bytes fill fs p) = padded_size fs p"
  using padded_size_bounds(2,3) [of fs p] by (simp add: filled_bytes_def)

lemma next_offset_raw:
  assumes "next_offset stop cs = off + parts_size fs ps" and "off + parts_size fs ps < 2 ^ 63"
  shows "next_offset stop (raw_components ro hdr fs off ps @ cs) = off"
  using assms by (cases ps) (simp_all add: unat_u64)

lemma composite_bytes_raw:
  assumes "\<forall>p\<in>set ps. fs' (image_file_path p) = Some (part_bytes fs p)" and "fs' hdr = Some fill" and "4096 \<le> length fill"
    and "next_offset stop cs = off + parts_size fs ps" and "off + parts_size fs ps < 2 ^ 63" and "composite_bytes fs' stop cs = Some rest"
  shows "composite_bytes fs' stop (raw_components ro hdr fs off ps @ cs) = Some (concat (map (filled_bytes fill fs) ps) @ rest)"
  using assms
proof (induction ps arbitrary: off)
  case (Cons p ps)
  let ?n = "length (part_bytes fs p)" and ?k = "padded_size fs p"
  have k: "?n \<le> ?k" "?k - ?n < 4096" using padded_size_bounds(2,3) [of fs p] by simp_all
  have ih: "composite_bytes fs' stop (raw_components ro hdr fs (off + ?k) ps @ cs) = Some (concat (map (filled_bytes fill fs) ps) @ rest)"
    using Cons.prems by (intro Cons.IH) simp_all
  have nx: "next_offset stop (raw_components ro hdr fs (off + ?k) ps @ cs) = off + ?k"
    using Cons.prems(4,5) by (intro next_offset_raw) simp_all
  have u: "unat (of_nat off :: u64) = off" "unat (of_nat off + of_nat ?n :: u64) = off + ?n"
    using Cons.prems(5) k(1) unat_u64 [of off] unat_u64 [of "off + ?n"] by simp_all
  show ?case
    using Cons.prems(1-3) ih nx u k by (auto simp: filled_bytes_def [of _ _ p] Let_def)
qed simp

lemma composite_bytes_spec:
  assumes "\<forall>p\<in>set ps. fs' (image_file_path p) = Some (part_bytes fs p)" and "n = 20480 + parts_size fs ps" and "n < 2 ^ 63"
    and "fs' hdr = Some head" and "length head = 20480" and "fs' ft = Some foot" and "n + length foot = stop"
  shows "composite_bytes fs' stop (component_disks (raw_spec ro fs ps hdr ft)) = Some (head @ concat (map (filled_bytes head fs) ps) @ foot)"
proof -
  let ?tail = "[\<lparr>file_path = ft, component_offset = of_nat n, read_write_capability = READ_ONLY\<rparr>]"
  have n: "unat (of_nat n :: u64) = n" using assms(3) by (intro unat_u64) simp
  have "composite_bytes fs' stop ?tail = Some foot" using n assms(6,7) by (simp add: Let_def)
  moreover have tail: "next_offset stop ?tail = 20480 + parts_size fs ps" using n assms(2) by simp
  ultimately have "composite_bytes fs' stop (raw_components ro hdr fs 20480 ps @ ?tail) = Some (concat (map (filled_bytes head fs) ps) @ foot)"
    using assms(2,3,5) by (intro composite_bytes_raw [OF assms(1,4)]) simp_all
  moreover have "next_offset stop (raw_components ro hdr fs 20480 ps @ ?tail) = 20480"
    using assms(2,3) by (intro next_offset_raw [OF tail]) simp
  ultimately show ?thesis using assms(4,5) unfolding raw_spec_def CompositeDisk.simps assms(2) [symmetric] by (simp add: Let_def)
qed

subsection \<open>What is written\<close>

text \<open>The three files that a call writes are different from each other and from the images.\<close>

definition files_apart :: "ImagePartition list \<Rightarrow> string \<Rightarrow> string \<Rightarrow> string \<Rightarrow> bool" where
  "files_apart ps hdr ft out \<longleftrightarrow> distinct [hdr, ft, out] \<and> {hdr, ft, out} \<inter> image_file_path ` set ps = {}"

lemma files_apart_images: "files_apart ps hdr ft out \<Longrightarrow> p \<in> set ps \<Longrightarrow> image_file_path p \<notin> {hdr, ft, out}"
  by (auto simp: files_apart_def)

lemma DeAndroidSparse_raw: "raw_parts fs ps \<Longrightarrow> DeAndroidSparseIfNeeded libs ps dir ro fs = (Ok ps, fs)"
  by (simp add: DeAndroidSparseIfNeeded_def force_all_raw)

text \<open>The call as far as the comparison with the file that is there.\<close>

lemma CreateOrUpdate_raw:
  assumes "raw_parts fs ps" and "ro \<or> (\<forall>p\<in>set ps. 4096 dvd length (part_bytes fs p))" and "parts_size fs ps < 2 ^ 62"
    and "CompositeDiskImage_OpenExisting libs fs out = Some old" and "b = raw_builder ro fs ps" and "spec = raw_spec ro fs ps hdr ft"
  shows "CreateOrUpdateCompositeDisk libs random pad ps hdr ft out ro fs =
    (if old = Ok spec then Some (Ok (), fs)
     else let (fd, fs) = Creat hdr (WriteCompositeDiskToFile libs spec out fs)
          in case Beginning libs random b of
               Inl e \<Rightarrow> Some (Inl e, fs)
             | Inr g \<Rightarrow> bind_io (Some (WriteBeginning fd g fs)) (\<lambda>_ fs.
                 let (fd, fs) = Creat ft fs
                 in bind_io (Some (WriteEnd fd (End libs pad g b) fs)) (\<lambda>_ fs. Some (Ok (), fs))))"
  unfolding CreateOrUpdateCompositeDisk_def DeAndroidSparse_raw [OF assms(1)] bind_io_simps raw_builder_appended [OF assms(1,3,2)]
    option.case MakeCompositeDiskSpec_raw [OF assms(1,3)] option.map assms(4-6) Let_def ..

text \<open>A call with the same images finds what an earlier one has described, and does nothing.\<close>

lemma CreateOrUpdate_again:
  assumes "raw_parts fs ps" and "ro \<or> (\<forall>p\<in>set ps. 4096 dvd length (part_bytes fs p))" and "parts_size fs ps < 2 ^ 62"
    and "spec = raw_spec ro fs ps hdr ft" and "ParseFromString libs (SerializeToString libs spec) = Some spec"
    and "length (SerializeToString libs spec) + 15 \<le> max_size"
    and "\<forall>p\<in>set ps. fs' (image_file_path p) = fs (image_file_path p)" and "fs' out = Some (composite_magic @ SerializeToString libs spec)"
  shows "CreateOrUpdateCompositeDisk libs random' pad' ps hdr ft out ro fs' = Some (Ok (), fs')"
proof -
  note cong = parts_cong [OF assms(7)]
  have bytes: "part_bytes fs' p = part_bytes fs p" if "p \<in> set ps" for p using assms(7) that by (simp add: part_bytes_def)
  have comps: "raw_components ro hdr fs' off qs = raw_components ro hdr fs off qs" if "set qs \<subseteq> set ps" for off qs
    using that by (induction qs arbitrary: off) (simp_all add: bytes padded_size_def)
  have inf: "infos fs' off qs = infos fs off qs" if "set qs \<subseteq> set ps" for off qs
    using that by (induction qs arbitrary: off) (simp_all add: bytes padded_size_def info_at_def)
  have spec: "raw_spec ro fs' ps hdr ft = spec" by (simp add: assms(4) raw_spec_def raw_builder_def cong comps inf)
  have "CompositeDiskImage_OpenExisting libs fs' out = Some (Ok spec)"
    using composite_OpenExisting [of fs' out, OF assms(8,6)] assms(5) by simp
  moreover have "raw_parts fs' ps" "ro \<or> (\<forall>p\<in>set ps. 4096 dvd length (part_bytes fs' p))" "parts_size fs' ps < 2 ^ 62"
    using assms(1-3) bytes cong by auto
  ultimately show ?thesis using CreateOrUpdate_raw [of fs' ps ro libs out "Ok spec"] spec by simp
qed

lemma CreateOrUpdate_writes:
  assumes "raw_parts fs ps" and "ro \<or> (\<forall>p\<in>set ps. 4096 dvd length (part_bytes fs p))" and "parts_size fs ps < 2 ^ 61"
    and "CompositeDiskImage_OpenExisting libs fs out = Some old" and "b = raw_builder ro fs ps" and "spec = raw_spec ro fs ps hdr ft"
    and "old \<noteq> Ok spec" and "Beginning libs random b = Ok g" and "\<And>i. length (random i) = 16" and "length pad = 420"
    and "files_apart ps hdr ft out" and "n = 20480 + parts_size fs ps"
  shows "\<exists>fs'. CreateOrUpdateCompositeDisk libs random pad ps hdr ft out ro fs = Some (Ok (), fs') \<and>
    fs' out = Some (composite_magic @ SerializeToString libs spec) \<and> fs' hdr = Some (beginning_bytes g) \<and>
    fs' ft = Some (zeros (align_up 65536 (n + 16896) - n - 16896) @ end_bytes (End libs pad g b)) \<and>
    (\<forall>p. p \<notin> {hdr, ft, out} \<longrightarrow> fs' p = fs p)"
proof -
  have size: "parts_size fs ps < 2 ^ 62" using assms(3) by simp
  have apart: "hdr \<noteq> ft" "hdr \<noteq> out" "ft \<noteq> out" using assms(11) by (auto simp: files_apart_def)
  let ?fs0 = "fs(out \<mapsto> composite_magic @ SerializeToString libs spec)"
  obtain fd1 fs1 where c1: "Creat hdr ?fs0 = (fd1, fs1)" by fastforce
  have at1: "at_end hdr [] (fd1, fs1)" "\<forall>p. p \<noteq> hdr \<longrightarrow> fs1 p = ?fs0 p" using at_end_Creat [of hdr ?fs0] c1 by (auto simp: Creat_def)
  have len: "length (beginning_bytes g) = 20480" by (rule Beginning_ok(4) [OF assms(8,9)])
  obtain out1 fs2 where w1: "write_whole fd1 (beginning_bytes g) fs1 = (Ok out1, fs2)" "at_end hdr (beginning_bytes g) (out1, fs2)"
      "\<forall>p. p \<noteq> hdr \<longrightarrow> fs2 p = fs1 p"
    using write_whole_end [OF at1(1), of "beginning_bytes g"] len by auto
  obtain fd2 fs3 where c2: "Creat ft fs2 = (fd2, fs3)" by fastforce
  have at2: "at_end ft [] (fd2, fs3)" "\<forall>p. p \<noteq> ft \<longrightarrow> fs3 p = fs2 p" using at_end_Creat [of ft fs2] c2 by (auto simp: Creat_def)
  have "next_disk_offset b = of_nat n" "n < 2 ^ 62" "512 dvd n"
    using assms(3,5,12) sectors_dvd by (simp_all add: raw_builder_def)
  from WriteEnd_end [OF assms(8-10) this at2(1)] obtain out2 fs4 where w2: "WriteEnd fd2 (End libs pad g b) fs3 = (Ok out2, fs4)"
      "at_end ft (zeros (align_up 65536 (n + 16896) - n - 16896) @ end_bytes (End libs pad g b)) (out2, fs4)" "\<forall>p. p \<noteq> ft \<longrightarrow> fs4 p = fs3 p"
    by auto
  have "CreateOrUpdateCompositeDisk libs random pad ps hdr ft out ro fs = Some (Ok (), fs4)"
    using c1 w1(1) c2 w2(1) assms(7,8)
    by (simp add: CreateOrUpdate_raw [OF assms(1,2) size assms(4-6)] WriteCompositeDiskToFile_def WriteBeginning_def)
  moreover have "fs4 hdr = Some (beginning_bytes g)" using w1(2) at2(2) w2(3) apart by (simp add: at_end_def)
  moreover have "fs4 ft = Some (zeros (align_up 65536 (n + 16896) - n - 16896) @ end_bytes (End libs pad g b))" using w2(2) by (simp add: at_end_def)
  moreover have "fs4 p = ?fs0 p" if "p \<noteq> hdr" "p \<noteq> ft" for p using that at1(2) w1(3) at2(2) w2(3) by simp
  ultimately show ?thesis using apart by auto
qed

subsection \<open>The disk that the machine sees\<close>

text \<open>
  C13: A composite disk over raw images, of any size when it is read-only and of multiples of 4096 otherwise,
  reads as a disk with each image in the sectors that its partition entry names. The call
  returns and writes only the description, the header and the footer; no component is too short, the disk starts
  with the table, has the length that the description says and ends with a backup of the table. A
  call for the same images then succeeds and changes no file, whatever random numbers it would draw. The
  encoding has to give back this description, the old file must not have it already.
\<close>

theorem composite_disk_reads_as_partitions:
  assumes "raw_parts fs ps" and "ro \<or> (\<forall>p\<in>set ps. 4096 dvd length (part_bytes fs p))"
    and "length ps \<le> 128" and "parts_size fs ps < 2 ^ 61" and "\<forall>i. length (random i) = 16" and "length pad = 420"
    and "files_apart ps hdr ft out" and "spec = raw_spec ro fs ps hdr ft"
    and "CompositeDiskImage_OpenExisting libs fs out = Some old" and "old \<noteq> Ok spec"
    and "ParseFromString libs (SerializeToString libs spec) = Some spec" and "length (SerializeToString libs spec) + 15 \<le> max_size"
  shows "\<exists>g fs' disk. CreateOrUpdateCompositeDisk libs random pad ps hdr ft out ro fs = Some (Ok (), fs') \<and>
    (\<forall>path. path \<notin> {hdr, ft, out} \<longrightarrow> fs' path = fs path) \<and>
    CompositeDiskImage_OpenExisting libs fs' out = Some (Ok spec) \<and>
    composite_bytes fs' (unat (cdisk_length spec)) (component_disks spec) = Some disk \<and> length disk = unat (cdisk_length spec) \<and>
    take 20480 disk = beginning_bytes g \<and> backup_ok libs g disk \<and>
    (\<forall>i<length ps. take (length (part_bytes fs (ps ! i))) (entry_sectors (entries g ! i) disk) = part_bytes fs (ps ! i)) \<and>
    CreateOrUpdateCompositeDisk libs random' pad' ps hdr ft out ro fs' = Some (Ok (), fs')"
proof -
  let ?b = "raw_builder ro fs ps" and ?n = "20480 + parts_size fs ps"
  have size: "parts_size fs ps < 2 ^ 62" using assms(4) by simp
  have rnd: "length (random i) = 16" for i using assms(5) by simp
  have b: "next_disk_offset ?b = of_nat ?n" "?n < 2 ^ 62" "length (partitions ?b) \<le> 128" using assms(3,4) by (simp_all add: raw_builder_def)
  then obtain g where g: "Beginning libs random ?b = Ok g" by (simp add: Beginning_def GPT_NUM_PARTITIONS_def Let_def)
  have len: "length (beginning_bytes g) = 20480" by (rule Beginning_ok(4) [OF g rnd])
  obtain fs' where run: "CreateOrUpdateCompositeDisk libs random pad ps hdr ft out ro fs = Some (Ok (), fs')"
      and out: "fs' out = Some (composite_magic @ SerializeToString libs spec)" and hdr: "fs' hdr = Some (beginning_bytes g)"
      and ft: "fs' ft = Some (zeros (align_up 65536 (?n + 16896) - ?n - 16896) @ end_bytes (End libs pad g ?b))"
      and others: "\<forall>p. p \<notin> {hdr, ft, out} \<longrightarrow> fs' p = fs p"
    using CreateOrUpdate_writes [OF assms(1,2,4,9) refl assms(8,10) g rnd assms(6,7) refl]
    by (elim exE conjE) (rule that, assumption+)
  have same: "\<forall>p\<in>set ps. fs' (image_file_path p) = fs (image_file_path p)" 
    using others files_apart_images [OF assms(7)] by blast
  have "CreateOrUpdateCompositeDisk libs random' pad' ps hdr ft out ro fs' = Some (Ok (), fs')"
    by (rule CreateOrUpdate_again [OF assms(1,2) size assms(8,11,12) same out])
  moreover have "CompositeDiskImage_OpenExisting libs fs' out = Some (Ok spec)"
    using composite_OpenExisting [of fs' out, OF out assms(12)] assms(11) by simp
  moreover define contents where "contents = concat (map (filled_bytes (beginning_bytes g) fs) ps)"
  moreover define disk where "disk = disk_bytes libs pad g ?b ?n contents"
  have lc: "length contents = parts_size fs ps" using len by (simp add: contents_def parts_size_def length_concat comp_def)
  have bk: "backup_ok libs g disk" "length disk = align_up 65536 (?n + 16896)"
    using disk_backup_ok [OF g rnd assms(6), of contents disk] b(1,2) unfolding lc disk_def by blast+
  have dl: "unat (cdisk_length spec) = align_up 65536 (?n + 16896)"
    using DiskSize_nat [of ?b ?n] b(1,2) assms(8) by (simp add: raw_spec_def)
  have "composite_bytes fs' (unat (cdisk_length spec)) (component_disks spec) = Some disk"
  proof -
    have "\<forall>p\<in>set ps. fs' (image_file_path p) = Some (part_bytes fs p)" using same assms(1) by (auto simp: raw_parts_def part_bytes_def)
    moreover have "?n + length (zeros (align_up 65536 (?n + 16896) - ?n - 16896) @ end_bytes (End libs pad g ?b)) = unat (cdisk_length spec)"
      using align_up_props(2) [of 65536 "?n + 16896"] length_end_bytes [OF Beginning_ok(1-3) [OF g rnd] assms(6)] dl by simp
    moreover have "?n < 2 ^ 63" using b(2) by simp
    ultimately show ?thesis unfolding assms(8) disk_def disk_bytes_def contents_def
      by (intro composite_bytes_spec [OF _ refl _ hdr len ft])
  qed
  moreover have "take (length (part_bytes fs (ps ! i))) (entry_sectors (entries g ! i) disk) = part_bytes fs (ps ! i)" if "i < length ps" for i
    using table_sectors [OF g size that len, of "filled_bytes (beginning_bytes g) fs"] len
    by (simp add: disk_def disk_bytes_def contents_def filled_bytes_def [of _ _ "ps ! i"])
  moreover have "take 20480 disk = beginning_bytes g" using len by (simp add: disk_def disk_bytes_def)
  ultimately show ?thesis using run others bk dl by (intro exI [of _ g] exI [of _ fs'] exI [of _ disk]) simp
qed

text \<open>An encoding that is good for one description.\<close>

definition encoding_of :: "CompositeDisk \<Rightarrow> image_libs" where
  "encoding_of spec = sample_libs\<lparr>ParseFromString := (\<lambda>s. if s = ''spec'' then Some spec else None), SerializeToString := (\<lambda>_. ''spec'')\<rparr>"

theorem composite_disk_reads_as_partitions_witness:
  "\<exists>spec (g :: GptBeginning) fs' disk.
    CreateOrUpdateCompositeDisk (encoding_of spec) (\<lambda>_. zeros 16) (zeros 420) sample_parts ''h'' ''f'' ''d'' True odd_files = Some (Ok (), fs') \<and>
    composite_bytes fs' (unat (cdisk_length spec)) (component_disks spec) = Some disk \<and>
    take 1 (entry_sectors (entries g ! 0) disk) = ''b'' \<and> take 8192 (entry_sectors (entries g ! 1) disk) = replicate 8192 (CHR ''m'')"
proof -
  define spec where "spec = raw_spec True odd_files sample_parts ''h'' ''f''"
  have two: "length sample_parts = 2" "part_bytes odd_files (sample_parts ! 0) = ''b''"
      "part_bytes odd_files (sample_parts ! 1) = replicate 8192 (CHR ''m'')"
    by (simp_all add: sample_parts_def part_bytes_def odd_files_def)
  have apart: "files_apart sample_parts ''h'' ''f'' ''d''" by (simp add: files_apart_def sample_parts_def)
  have old: "CompositeDiskImage_OpenExisting (encoding_of spec) odd_files ''d'' = Some (Err Cf_Error)" "Err Cf_Error \<noteq> Ok spec"
    by (simp_all add: CompositeDiskImage_OpenExisting_def OpenRead_def odd_files_def)
  have "length sample_parts \<le> 128" "parts_size odd_files sample_parts < 2 ^ 61" "\<forall>i. length ((\<lambda>_. zeros 16) (i :: nat)) = 16"
      "length (zeros 420) = 420" "ParseFromString (encoding_of spec) (SerializeToString (encoding_of spec) spec) = Some spec"
      "length (SerializeToString (encoding_of spec) spec) + 15 \<le> max_size"
    using two(1) odd_raw(3) by (simp_all add: encoding_of_def)
  note law = this
  obtain g :: GptBeginning and fs' disk where
    run: "CreateOrUpdateCompositeDisk (encoding_of spec) (\<lambda>_. zeros 16) (zeros 420) sample_parts ''h'' ''f'' ''d'' True odd_files = Some (Ok (), fs')"
      "composite_bytes fs' (unat (cdisk_length spec)) (component_disks spec) = Some disk"
    and parts: "\<forall>i<length sample_parts. take (length (part_bytes odd_files (sample_parts ! i))) (entry_sectors (entries g ! i) disk) =
      part_bytes odd_files (sample_parts ! i)"
    using composite_disk_reads_as_partitions [where random = "\<lambda>_. zeros 16" and random' = "\<lambda>_. []" and pad' = "[]" and ro = True,
      OF odd_raw(2) disjI1 [OF TrueI] law(1-4) apart spec_def old law(5,6)]
    by (elim exE conjE) (rule that)
  show ?thesis using run parts [rule_format, of 0] parts [rule_format, of 1] two
    by (intro exI [of _ spec] exI [of _ g] exI [of _ fs'] exI [of _ disk]) simp
qed

text \<open>
  C34: More than 128 images are refused, but only once: the error comes when the description has been
  written, and the next call for the same images takes the description for a sign that nothing is left to do. It
  reports success over an empty header file and whatever the footer file was.
\<close>

theorem refused_composite_disk_accepted_next_time:
  assumes "raw_parts fs ps" and "ro \<or> (\<forall>p\<in>set ps. 4096 dvd length (part_bytes fs p))"
    and "128 < length ps" and "parts_size fs ps < 2 ^ 62" and "files_apart ps hdr ft out" and "spec = raw_spec ro fs ps hdr ft"
    and "CompositeDiskImage_OpenExisting libs fs out = Some old" and "old \<noteq> Ok spec"
    and "ParseFromString libs (SerializeToString libs spec) = Some spec" and "length (SerializeToString libs spec) + 15 \<le> max_size"
  shows "\<exists>fs'. CreateOrUpdateCompositeDisk libs random pad ps hdr ft out ro fs = Some (Err Cf_Error, fs') \<and>
    fs' hdr = Some [] \<and> fs' ft = fs ft \<and>
    CreateOrUpdateCompositeDisk libs random' pad' ps hdr ft out ro fs' = Some (Ok (), fs')"
proof -
  let ?fs = "fs(out \<mapsto> composite_magic @ SerializeToString libs spec, hdr \<mapsto> [])"
  have apart: "hdr \<noteq> ft" "hdr \<noteq> out" "ft \<noteq> out" using assms(5) by (auto simp: files_apart_def)
  have "Beginning libs random (raw_builder ro fs ps) = Err Cf_Error"
    using assms(3) by (simp add: Beginning_def raw_builder_def GPT_NUM_PARTITIONS_def)
  then have "CreateOrUpdateCompositeDisk libs random pad ps hdr ft out ro fs = Some (Err Cf_Error, ?fs)"
    using assms(8) by (simp add: CreateOrUpdate_raw [OF assms(1,2,4,7) refl assms(6)] WriteCompositeDiskToFile_def Creat_def)
  moreover have "CreateOrUpdateCompositeDisk libs random' pad' ps hdr ft out ro ?fs = Some (Ok (), ?fs)"
    using files_apart_images [OF assms(5)] apart
    by (intro CreateOrUpdate_again [OF assms(1,2,4,6,9,10)]) auto
  ultimately show ?thesis using apart by (intro exI [of _ ?fs]) simp
qed

theorem refused_composite_disk_accepted_next_time_witness:
  "\<exists>spec fs'. CreateOrUpdateCompositeDisk (encoding_of spec) (\<lambda>_. []) [] (replicate 129 (sample_parts ! 0)) ''h'' ''f'' ''d'' True odd_files =
      Some (Err Cf_Error, fs') \<and> fs' ''h'' = Some [] \<and> fs' ''f'' = None \<and>
    CreateOrUpdateCompositeDisk (encoding_of spec) (\<lambda>_. []) [] (replicate 129 (sample_parts ! 0)) ''h'' ''f'' ''d'' True fs' = Some (Ok (), fs')"
proof -
  let ?ps = "replicate 129 (sample_parts ! 0)"
  define spec where "spec = raw_spec True odd_files ?ps ''h'' ''f''"
  have raw: "raw_parts odd_files ?ps" using odd_raw(1) by (simp add: raw_parts_def odd_files_def sample_parts_def)
  have apart: "files_apart ?ps ''h'' ''f'' ''d''" by (simp add: files_apart_def sample_parts_def)
  have old: "CompositeDiskImage_OpenExisting (encoding_of spec) odd_files ''d'' = Some (Err Cf_Error)" "Err Cf_Error \<noteq> Ok spec"
    by (simp_all add: CompositeDiskImage_OpenExisting_def OpenRead_def odd_files_def)
  have "128 < length ?ps" "parts_size odd_files ?ps < 2 ^ 62"
      "ParseFromString (encoding_of spec) (SerializeToString (encoding_of spec) spec) = Some spec"
      "length (SerializeToString (encoding_of spec) spec) + 15 \<le> max_size"
    by (simp_all add: encoding_of_def parts_size_def sum_list_replicate sample_parts_def padded_size_def part_bytes_def odd_files_def align_up_def)
  from refused_composite_disk_accepted_next_time [where random = "\<lambda>_. []" and pad = "[]" and random' = "\<lambda>_. []" and pad' = "[]" and ro = True,
      OF raw disjI1 [OF TrueI] this(1,2) apart spec_def old this(3,4)] obtain fs' where
    "CreateOrUpdateCompositeDisk (encoding_of spec) (\<lambda>_. []) [] ?ps ''h'' ''f'' ''d'' True odd_files = Some (Err Cf_Error, fs')"
    "fs' ''h'' = Some []" "fs' ''f'' = odd_files ''f''"
    "CreateOrUpdateCompositeDisk (encoding_of spec) (\<lambda>_. []) [] ?ps ''h'' ''f'' ''d'' True fs' = Some (Ok (), fs')"
    by (elim exE conjE) (rule that)
  moreover have "odd_files ''f'' = None" by (simp add: odd_files_def)
  ultimately show ?thesis by (intro exI [of _ spec] exI [of _ fs'] conjI) simp_all
qed

end
