(* ===== verification/Instance_Group.thy ===== *)
theory Instance_Group
  imports Disk_Image Cpp_String
begin

section \<open>Groups of instances\<close>

text \<open>
  The command line program keeps the virtual devices of a user in groups
  (\<^verbatim>\<open>host/commands/cvd/instances\<close>). This theory has the messages of \<^verbatim>\<open>cvd_persistent_data.proto\<close>, the class
  \<^verbatim>\<open>LocalInstanceGroup\<close> with its builder, the parts of \<^verbatim>\<open>LocalInstance\<close> that need no running device, and
  the syntax of names (\<^verbatim>\<open>device_name.cpp\<close>). A \<^verbatim>\<open>LocalInstanceGroup\<close> is its message: instances point into
  it.
\<close>

type_synonym u32 = "32 word"

datatype InstanceState =
    INSTANCE_STATE_UNSPECIFIED
  | INSTANCE_STATE_PREPARING
  | INSTANCE_STATE_STARTING
  | INSTANCE_STATE_RUNNING
  | INSTANCE_STATE_STOPPING
  | INSTANCE_STATE_STOPPED
  | INSTANCE_STATE_PREPARE_FAILED
  | INSTANCE_STATE_BOOT_FAILED
  | INSTANCE_STATE_UNREACHABLE
  | INSTANCE_STATE_CANCELLED

record Instance =
  instance_id :: u32
  instance_name :: string
  instance_state :: InstanceState
  webrtc_device_id :: string

record InstanceGroup =
  group_name :: string
  home_directory :: string
  host_artifacts_path :: string
  product_out_path :: string
  start_time_sec :: int
  instances :: "Instance list"

type_synonym PersistentData = "InstanceGroup list"

subsection \<open>Names\<close>

definition name_char :: "char \<Rightarrow> bool" where
  "name_char c \<longleftrightarrow> (let n = of_char c :: nat in 65 \<le> n \<and> n \<le> 90 \<or> 97 \<le> n \<and> n \<le> 122 \<or> n = 95 \<or> 48 \<le> n \<and> n \<le> 57)"

definition IsValidGroupName :: "string \<Rightarrow> bool" where
  "IsValidGroupName token \<longleftrightarrow> token \<noteq> [] \<and> list_all name_char token \<and> \<not> is_digit 10 (hd token)"

fun StrSplit :: "char \<Rightarrow> string \<Rightarrow> string list" where
  "StrSplit d [] = [[]]"
| "StrSplit d (c # s) =
     (if c = d then [] # StrSplit d s
      else case StrSplit d s of [] \<Rightarrow> [[c]] | piece # pieces \<Rightarrow> (c # piece) # pieces)"

definition IsValidInstanceName :: "string \<Rightarrow> bool" where
  "IsValidInstanceName token \<longleftrightarrow> token = [] \<or> list_all (\<lambda>piece. piece \<noteq> [] \<and> list_all name_char piece) (StrSplit (CHR ''-'') token)"

definition BreakDeviceName :: "string \<Rightarrow> (string \<times> string) result" where
  "BreakDeviceName device_name =
     (if device_name = [] then Err Cf_Error
      else case find_char (CHR ''-'') device_name of
             None \<Rightarrow> Err Cf_Error
           | Some dash_pos \<Rightarrow>
               if dash_pos = 0 \<or> dash_pos = length device_name - 1 then Err Cf_Error
               else Ok (take dash_pos device_name, drop (dash_pos + 1) device_name))"

definition IsValidDeviceName :: "string \<Rightarrow> bool" where
  "IsValidDeviceName token \<longleftrightarrow>
     (case BreakDeviceName token of
        Inl e \<Rightarrow> False
      | Inr (gname, iname) \<Rightarrow> IsValidGroupName gname \<and> IsValidInstanceName iname)"

subsection \<open>Instances\<close>

primrec state_active :: "InstanceState \<Rightarrow> bool" where
  "state_active INSTANCE_STATE_UNSPECIFIED = False"
| "state_active INSTANCE_STATE_PREPARING = True"
| "state_active INSTANCE_STATE_STARTING = True"
| "state_active INSTANCE_STATE_RUNNING = True"
| "state_active INSTANCE_STATE_STOPPING = True"
| "state_active INSTANCE_STATE_STOPPED = False"
| "state_active INSTANCE_STATE_PREPARE_FAILED = False"
| "state_active INSTANCE_STATE_BOOT_FAILED = False"
| "state_active INSTANCE_STATE_UNREACHABLE = True"
| "state_active INSTANCE_STATE_CANCELLED = False"

definition IsActive :: "Instance \<Rightarrow> bool" where
  "IsActive i = state_active (instance_state i)"

definition instance_dir :: "InstanceGroup \<Rightarrow> Instance \<Rightarrow> string" where
  "instance_dir g i = home_directory g @ ''/cuttlefish/instances/cvd-'' @ to_string (uint (instance_id i))"

definition adb_port :: "Instance \<Rightarrow> int" where
  "adb_port i = (if instance_id i = 0 then 0 else sint (6520 + instance_id i - 1))"

definition set_state :: "InstanceState \<Rightarrow> Instance \<Rightarrow> Instance" where
  "set_state s i = i\<lparr>instance_state := s\<rparr>"

subsection \<open>Groups\<close>

fun check_instances :: "u32 list \<Rightarrow> string list \<Rightarrow> Instance list \<Rightarrow> bool" where
  "check_instances ids names [] = True"
| "check_instances ids names (i # is) =
     (if instance_id i < 1 then False
      else if instance_id i \<in> set ids then False
      else if instance_name i \<in> set names then False
      else check_instances (instance_id i # ids) (instance_name i # names) is)"

definition LocalInstanceGroup_Create :: "InstanceGroup \<Rightarrow> InstanceGroup result" where
  "LocalInstanceGroup_Create g =
     (if instances g = [] then Err Cf_Error else if check_instances [] [] (instances g) then Ok g else Err Cf_Error)"

text \<open>The builder has the base directory, which is made of the user's directory and the time.\<close>

definition HomeDirFromBase :: "string \<Rightarrow> string" where
  "HomeDirFromBase base_dir = base_dir @ ''/home''"

definition ArtifactsDirFromBase :: "string \<Rightarrow> string" where
  "ArtifactsDirFromBase base_dir = base_dir @ ''/artifacts''"

definition HostArtifactsDirFromBase :: "string \<Rightarrow> string" where
  "HostArtifactsDirFromBase base_dir = ArtifactsDirFromBase base_dir @ ''/host_tools''"

definition ProductDirFromBase :: "string \<Rightarrow> nat \<Rightarrow> string" where
  "ProductDirFromBase base_dir index = ArtifactsDirFromBase base_dir @ ''/'' @ to_string (int index)"

definition DefaultBaseDir :: "string \<Rightarrow> int \<Rightarrow> string" where
  "DefaultBaseDir PerUserDir time = PerUserDir @ ''/'' @ to_string time"

record Builder =
  base_dir :: string
  group_proto :: InstanceGroup

definition new_group_builder :: "string \<Rightarrow> string \<Rightarrow> Builder" where
  "new_group_builder base gname =
     \<lparr>base_dir = base,
      group_proto = \<lparr>group_name = gname, home_directory = HomeDirFromBase base,
        host_artifacts_path = HostArtifactsDirFromBase base, product_out_path = [], start_time_sec = 0, instances = []\<rparr>\<rparr>"

definition AddInstance_named :: "u32 \<Rightarrow> string \<Rightarrow> Builder \<Rightarrow> Builder" where
  "AddInstance_named i iname b =
     b\<lparr>group_proto := (group_proto b)
         \<lparr>instances := instances (group_proto b) @
            [\<lparr>instance_id = i, instance_name = iname, instance_state = INSTANCE_STATE_PREPARING, webrtc_device_id = []\<rparr>]\<rparr>\<rparr>"

definition AddInstance :: "u32 \<Rightarrow> Builder \<Rightarrow> Builder" where
  "AddInstance i b = AddInstance_named i (to_string (uint i)) b"

fun StrJoin :: "string \<Rightarrow> string list \<Rightarrow> string" where
  "StrJoin sep [] = []"
| "StrJoin sep [s] = s"
| "StrJoin sep (s # t # ss) = s @ sep @ StrJoin sep (t # ss)"

definition Build_group :: "Builder \<Rightarrow> InstanceGroup result" where
  "Build_group b =
     LocalInstanceGroup_Create ((group_proto b)
       \<lparr>product_out_path := StrJoin '','' (map (ProductDirFromBase (base_dir b)) [0..<length (instances (group_proto b))])\<rparr>)"

definition HasActiveInstances :: "InstanceGroup \<Rightarrow> bool" where
  "HasActiveInstances g = list_ex IsActive (instances g)"

definition SetAllStates :: "InstanceState \<Rightarrow> InstanceGroup \<Rightarrow> InstanceGroup" where
  "SetAllStates s g = g\<lparr>instances := map (set_state s) (instances g)\<rparr>"

definition SetStartTime :: "int \<Rightarrow> InstanceGroup \<Rightarrow> InstanceGroup" where
  "SetStartTime time g = g\<lparr>start_time_sec := time\<rparr>"

definition FindInstanceById :: "u32 \<Rightarrow> InstanceGroup \<Rightarrow> Instance result" where
  "FindInstanceById i g = (case find (\<lambda>x. instance_id x = i) (instances g) of None \<Rightarrow> Err Cf_Error | Some x \<Rightarrow> Ok x)"

definition FindByInstanceName :: "string \<Rightarrow> InstanceGroup \<Rightarrow> Instance list" where
  "FindByInstanceName iname g = filter (\<lambda>x. instance_name x = iname) (instances g)"

definition BaseDir :: "InstanceGroup \<Rightarrow> string" where
  "BaseDir g = Dirname (home_directory g)"

definition MetricsDir :: "InstanceGroup \<Rightarrow> string" where
  "MetricsDir g = home_directory g @ ''/metrics''"

definition ArtifactsDir :: "InstanceGroup \<Rightarrow> string" where
  "ArtifactsDir g = BaseDir g @ ''/artifacts''"

definition ProductDir :: "nat \<Rightarrow> InstanceGroup \<Rightarrow> string" where
  "ProductDir index g = ArtifactsDir g @ ''/'' @ to_string (int index)"

subsection \<open>Splitting and joining\<close>

lemma StrSplit_no_delimiter: "d \<notin> set s \<Longrightarrow> StrSplit d s = [s]"
  by (induction s) auto

lemma StrSplit_delimiter: "d \<notin> set s \<Longrightarrow> StrSplit d (s @ d # r) = s # StrSplit d r"
  by (induction s) auto

lemma StrSplit_StrJoin: "ss \<noteq> [] \<Longrightarrow> \<forall>s\<in>set ss. d \<notin> set s \<Longrightarrow> StrSplit d (StrJoin [d] ss) = ss"
  by (induction "[d]" ss rule: StrJoin.induct) (auto simp: StrSplit_no_delimiter StrSplit_delimiter)

subsection \<open>What the checks amount to\<close>

lemma check_instances_iff:
  "check_instances ids names is \<longleftrightarrow>
     0 \<notin> instance_id ` set is \<and> distinct (map instance_id is) \<and> set ids \<inter> instance_id ` set is = {} \<and>
     distinct (map instance_name is) \<and> set names \<inter> instance_name ` set is = {}"
proof (induction "is" arbitrary: ids names)
  case (Cons i "is")
  have "instance_id i < 1 \<longleftrightarrow> instance_id i = 0" by (metis word_gt_0 not_less_iff_gr_or_eq word_less_1 zero_neq_one)
  then show ?case by (auto simp: Cons.IH)
qed simp

definition group_ok :: "InstanceGroup \<Rightarrow> bool" where
  "group_ok g \<longleftrightarrow> instances g \<noteq> [] \<and> 0 \<notin> instance_id ` set (instances g) \<and> distinct (map instance_id (instances g)) \<and>
     distinct (map instance_name (instances g))"

lemma Create_iff: "LocalInstanceGroup_Create g = (if group_ok g then Ok g else Err Cf_Error)"
  by (simp add: LocalInstanceGroup_Create_def group_ok_def check_instances_iff)

subsection \<open>Device names\<close>

lemma dash_not_name_char [simp]: "\<not> name_char (CHR ''-'')"
  by (simp add: name_char_def)

lemma valid_group_no_dash: "IsValidGroupName g \<Longrightarrow> CHR ''-'' \<notin> set g"
  by (auto simp: IsValidGroupName_def list_all_iff)

lemma BreakDeviceName_pair:
  assumes "CHR ''-'' \<notin> set g" and "g \<noteq> []" and "i \<noteq> []"
  shows "BreakDeviceName (g @ CHR ''-'' # i) = Ok (g, i)"
  using assms by (cases i) (auto simp: BreakDeviceName_def)

lemma BreakDeviceName_okD:
  assumes "BreakDeviceName s = Ok (g, i)"
  shows "s = g @ CHR ''-'' # i \<and> CHR ''-'' \<notin> set g \<and> g \<noteq> [] \<and> i \<noteq> []"
proof -
  obtain n where n: "find_char (CHR ''-'') s = Some n" "n \<noteq> 0" "n \<noteq> length s - 1" and gi: "g = take n s" "i = drop (n + 1) s"
    using assms by (auto simp: BreakDeviceName_def split: if_splits option.splits)
  then show ?thesis using find_char_Some [OF n(1)] id_take_nth_drop [of n s] by auto
qed

text \<open>
  C36: The names of devices and the pairs of a group name and an instance name correspond: a valid group
  name and a valid instance name that is not empty, joined by a dash, form a valid device name, which
  is taken apart into the same two names although instance names may contain dashes; and every valid
  device name is such a join, of exactly one pair.
\<close>

theorem device_names_are_pairs:
  "(IsValidGroupName g \<and> IsValidInstanceName i \<and> i \<noteq> [] \<longleftrightarrow> IsValidDeviceName (g @ CHR ''-'' # i) \<and> BreakDeviceName (g @ CHR ''-'' # i) = Ok (g, i)) \<and>
   (IsValidDeviceName s \<longleftrightarrow> (\<exists>!p. IsValidGroupName (fst p) \<and> IsValidInstanceName (snd p) \<and> snd p \<noteq> [] \<and> s = fst p @ CHR ''-'' # snd p))"
proof
  have brk: "BreakDeviceName (g @ CHR ''-'' # i) = Ok (g, i)" if "IsValidGroupName g" "i \<noteq> []" for g i
    using that by (intro BreakDeviceName_pair valid_group_no_dash) (auto simp: IsValidGroupName_def)
  show "IsValidGroupName g \<and> IsValidInstanceName i \<and> i \<noteq> [] \<longleftrightarrow> IsValidDeviceName (g @ CHR ''-'' # i) \<and> BreakDeviceName (g @ CHR ''-'' # i) = Ok (g, i)"
    using brk BreakDeviceName_okD [of "g @ CHR ''-'' # i" g i] by (auto simp: IsValidDeviceName_def)
  show "IsValidDeviceName s \<longleftrightarrow> (\<exists>!p. IsValidGroupName (fst p) \<and> IsValidInstanceName (snd p) \<and> snd p \<noteq> [] \<and> s = fst p @ CHR ''-'' # snd p)"
  proof
    assume "IsValidDeviceName s"
    then obtain g i where b: "BreakDeviceName s = Ok (g, i)" and v: "IsValidGroupName g" "IsValidInstanceName i"
      by (auto simp: IsValidDeviceName_def split: sum.splits)
    show "\<exists>!p. IsValidGroupName (fst p) \<and> IsValidInstanceName (snd p) \<and> snd p \<noteq> [] \<and> s = fst p @ CHR ''-'' # snd p"
    proof (rule ex1I [of _ "(g, i)"])
      show "IsValidGroupName (fst (g, i)) \<and> IsValidInstanceName (snd (g, i)) \<and> snd (g, i) \<noteq> [] \<and> s = fst (g, i) @ CHR ''-'' # snd (g, i)"
        using v BreakDeviceName_okD [OF b] by simp
      show "p = (g, i)" if "IsValidGroupName (fst p) \<and> IsValidInstanceName (snd p) \<and> snd p \<noteq> [] \<and> s = fst p @ CHR ''-'' # snd p" for p
      proof -
        have "BreakDeviceName s = Ok (fst p, snd p)" using that brk by metis
        then show ?thesis using b by simp
      qed
    qed
  next
    assume "\<exists>!p. IsValidGroupName (fst p) \<and> IsValidInstanceName (snd p) \<and> snd p \<noteq> [] \<and> s = fst p @ CHR ''-'' # snd p"
    then obtain p where p: "IsValidGroupName (fst p)" "IsValidInstanceName (snd p)" "snd p \<noteq> []" "s = fst p @ CHR ''-'' # snd p" by blast
    then have "BreakDeviceName s = Ok (fst p, snd p)" using brk by metis
    then show "IsValidDeviceName s" using p(1,2) by (simp add: IsValidDeviceName_def split_beta)
  qed
qed

end
