(* ===== verification/Data_Viewer.thy ===== *)
theory Data_Viewer
  imports Shared_Buf
begin

section \<open>A message kept in a locked file\<close>

text \<open>
  \<^verbatim>\<open>host/commands/cvd/instances/data_viewer.h\<close> and \<^verbatim>\<open>data_viewer.cpp\<close>: every process reads the message from a file,
  runs a task on it and writes it back, under a lock on the file. The encoding of the message is a
  record of two functions; \<open>parse\<close> gives what the message holds after \<^verbatim>\<open>ParseFromString\<close>, whose result the
  source does not look at. A task returns its result and the data it leaves.
\<close>

record 'd codec =
  parse :: "string \<Rightarrow> 'd"
  serialize :: "'d \<Rightarrow> string"

type_synonym ('d, 'r) viewer_task = "'d \<Rightarrow> 'r result \<times> 'd"

definition LoadData :: "'d codec \<Rightarrow> posix_file \<Rightarrow> ('d result \<times> posix_file) option" where
  "LoadData codec fd =
     (case ReadAll posix_read_call [] fd of
        None \<Rightarrow> None
      | Some (read_size, str, fd) \<Rightarrow> Some (if read_size < 0 then Err Cf_Error else Ok (parse codec str), fd))"

definition StoreData :: "'d codec \<Rightarrow> 'd \<Rightarrow> posix_file \<Rightarrow> unit result \<times> posix_file" where
  "StoreData codec data fd =
     (case WriteAll posix_write_call (serialize codec data) fd of
        (write_size, fd) \<Rightarrow> (if write_size \<noteq> int (length (serialize codec data)) then Err Cf_Error else Ok (), fd))"

definition empty_file :: "posix_file \<Rightarrow> unit result \<times> posix_file" where
  "empty_file fd =
     (case posix_ftruncate 0 fd of
        (r, fd) \<Rightarrow> if r < 0 then (Err Cf_Error, fd)
                   else case posix_lseek 0 fd of (r, fd) \<Rightarrow> (if r < 0 then Err Cf_Error else Ok (), fd))"

definition opened_at_start :: "string \<Rightarrow> posix_file" where
  "opened_at_start bytes = \<lparr>file_bytes = bytes, file_offset = 0\<rparr>"

text \<open>
  A call that nothing interrupts, on the bytes of the file; opening creates an empty file when there is none.
\<close>

definition WithSharedLock :: "'d codec \<Rightarrow> ('d \<Rightarrow> 'r result) \<Rightarrow> string \<Rightarrow> 'r result option" where
  "WithSharedLock codec run bytes =
     map_option (\<lambda>(data, _). bind_result data run) (LoadData codec (opened_at_start bytes))"

definition WithExclusiveLock :: "'d codec \<Rightarrow> ('d, 'r) viewer_task \<Rightarrow> string \<Rightarrow> ('r result \<times> string) option" where
  "WithExclusiveLock codec run bytes =
     (case LoadData codec (opened_at_start bytes) of
        None \<Rightarrow> None
      | Some (Inl e, fd) \<Rightarrow> Some (Inl e, file_bytes fd)
      | Some (Inr data, fd) \<Rightarrow>
          (case run data of
             (Inl e, _) \<Rightarrow> Some (Inl e, file_bytes fd)
           | (Inr r, data) \<Rightarrow>
               (case empty_file fd of
                  (Inl e, fd) \<Rightarrow> Some (Inl e, file_bytes fd)
                | (Inr _, fd) \<Rightarrow>
                    (case StoreData codec data fd of
                       (Inl e, fd) \<Rightarrow> Some (Inl e, file_bytes fd)
                     | (Inr _, fd) \<Rightarrow> Some (Ok r, file_bytes fd)))))"

subsection \<open>Calls one after another\<close>

definition storable :: "'d codec \<Rightarrow> 'd \<Rightarrow> bool" where
  "storable codec data \<longleftrightarrow> parse codec (serialize codec data) = data \<and> length (serialize codec data) \<le> max_size"

lemma LoadData_bytes: "\<exists>fd. LoadData codec (opened_at_start bytes) = Some (Ok (parse codec bytes), fd) \<and> file_bytes fd = bytes"
  using posix_read_all [of "[]" "opened_at_start bytes"] by (auto simp: LoadData_def opened_at_start_def)

lemma empty_file_eq: "empty_file fd = (Ok (), opened_at_start [])"
  by (simp add: empty_file_def posix_ftruncate_def posix_lseek_def opened_at_start_def)

lemma StoreData_at_start:
  assumes "length (serialize codec data) \<le> max_size"
  shows "\<exists>fd. StoreData codec data (opened_at_start bytes) = (Ok (), fd) \<and> file_bytes fd = overwrite 0 (serialize codec data) bytes"
  using posix_write_all [of "opened_at_start bytes" "serialize codec data"] assms
  by (auto simp: StoreData_def opened_at_start_def overwrite_def)

lemma overwrite_empty [simp]: "overwrite 0 b [] = b"
  by (simp add: overwrite_def)

text \<open>A task that fails leaves the file alone; the result of another is what the next call reads.\<close>

lemma WithSharedLock_eq [simp]: "WithSharedLock codec run bytes = Some (run (parse codec bytes))"
  using LoadData_bytes [of codec bytes] by (auto simp: WithSharedLock_def)

lemma WithExclusiveLock_error:
  "run (parse codec bytes) = (Inl e, d) \<Longrightarrow> WithExclusiveLock codec run bytes = Some (Inl e, bytes)"
  using LoadData_bytes [of codec bytes] by (auto simp: WithExclusiveLock_def)

lemma WithExclusiveLock_ok:
  assumes "run (parse codec bytes) = (Inr r, d)" and "storable codec d"
  shows "WithExclusiveLock codec run bytes = Some (Ok r, serialize codec d)"
  using LoadData_bytes [of codec bytes] StoreData_at_start [of codec d "[]"] assms
  by (auto simp: WithExclusiveLock_def empty_file_eq storable_def)

subsection \<open>Calls of several processes\<close>

text \<open>
  What \<^verbatim>\<open>flock\<close> allows, and the phases of a call. Waiting for the lock is one step, loading another; the task
  does not touch the file. A process can be killed at any point before it empties the file (the
  signals are masked after that); closing the file releases the lock.
\<close>

datatype lock_op = LOCK_SH | LOCK_EX

definition compatible :: "lock_op \<Rightarrow> lock_op \<Rightarrow> bool" where
  "compatible a b \<longleftrightarrow> a = LOCK_SH \<and> b = LOCK_SH"

text \<open>The argument of \<^verbatim>\<open>LockBackingFile\<close> in \<^verbatim>\<open>WithExclusiveLock\<close>.\<close>

definition exclusive_lock_op :: lock_op where
  "exclusive_lock_op = LOCK_SH"

datatype ('d, 'r) phase =
    Waiting
  | Locked
  | Loaded 'd
  | Changed 'd 'r
  | Emptied 'd 'r
  | Finished "'r result"
  | Killed

record ('d, 'r) viewers =
  content :: string
  lock_of :: "nat \<Rightarrow> lock_op option"
  phase_of :: "nat \<Rightarrow> ('d, 'r) phase"

definition move :: "nat \<Rightarrow> ('d, 'r) phase \<Rightarrow> ('d, 'r) viewers \<Rightarrow> ('d, 'r) viewers" where
  "move p ph s = s\<lparr>phase_of := (phase_of s)(p := ph)\<rparr>"

definition leave :: "nat \<Rightarrow> ('d, 'r) phase \<Rightarrow> ('d, 'r) viewers \<Rightarrow> ('d, 'r) viewers" where
  "leave p ph s = (move p ph s)\<lparr>lock_of := (lock_of s)(p := None)\<rparr>"

definition may_lock :: "lock_op \<Rightarrow> nat \<Rightarrow> ('d, 'r) viewers \<Rightarrow> bool" where
  "may_lock l p s \<longleftrightarrow> (\<forall>q l'. q \<noteq> p \<and> lock_of s q = Some l' \<longrightarrow> compatible l l')"

inductive viewer_step :: "lock_op \<Rightarrow> 'd codec \<Rightarrow> (nat \<Rightarrow> ('d, 'r) viewer_task) \<Rightarrow> ('d, 'r) viewers \<Rightarrow> ('d, 'r) viewers \<Rightarrow> bool"
  for l codec run
where
  lock: "phase_of s p = Waiting \<Longrightarrow> may_lock l p s \<Longrightarrow>
    viewer_step l codec run s ((move p Locked s)\<lparr>lock_of := (lock_of s)(p := Some l)\<rparr>)"
| load: "phase_of s p = Locked \<Longrightarrow> LoadData codec (opened_at_start (content s)) = Some (Ok d, fd) \<Longrightarrow>
    viewer_step l codec run s (move p (Loaded d) s)"
| fail: "phase_of s p = Loaded d \<Longrightarrow> run p d = (Inl e, d') \<Longrightarrow> viewer_step l codec run s (leave p (Finished (Inl e)) s)"
| change: "phase_of s p = Loaded d \<Longrightarrow> run p d = (Inr r, d') \<Longrightarrow> viewer_step l codec run s (move p (Changed d' r) s)"
| empty: "phase_of s p = Changed d r \<Longrightarrow> empty_file (opened_at_start (content s)) = (Ok (), fd) \<Longrightarrow>
    viewer_step l codec run s ((move p (Emptied d r) s)\<lparr>content := file_bytes fd\<rparr>)"
| store: "phase_of s p = Emptied d r \<Longrightarrow> StoreData codec d (opened_at_start (content s)) = (Ok (), fd) \<Longrightarrow>
    viewer_step l codec run s ((leave p (Finished (Inr r)) s)\<lparr>content := file_bytes fd\<rparr>)"
| kill: "phase_of s p \<in> {Waiting, Locked, Loaded d, Changed d r} \<Longrightarrow> viewer_step l codec run s (leave p Killed s)"

definition viewers_start :: "string \<Rightarrow> ('d, 'r) viewers" where
  "viewers_start bytes = \<lparr>content = bytes, lock_of = (\<lambda>_. None), phase_of = (\<lambda>_. Waiting)\<rparr>"

lemmas viewer_defs = move_def leave_def

lemma StoreData_okD:
  assumes "StoreData codec d (opened_at_start []) = (Ok (), fd)"
  shows "file_bytes fd = serialize codec d"
proof -
  obtain n fd' where w: "WriteAll posix_write_call (serialize codec d) (opened_at_start []) = (n, fd')" by fastforce
  then have n: "n = int (length (serialize codec d))" and fd: "fd = fd'" using assms by (auto simp: StoreData_def split: if_splits)
  obtain k where "k \<le> length (serialize codec d)" "file_bytes fd' = take k (serialize codec d)" "n < 0 \<or> n = int k"
    using posix_append.WriteAll_prefix [OF _ w] by (auto simp: opened_at_start_def)
  then show ?thesis using n fd by auto
qed

subsection \<open>With an exclusive lock the calls are serialised\<close>

text \<open>The tasks one after another, in the order of a list of processes.\<close>

fun run_serial :: "(nat \<Rightarrow> ('d, 'r) viewer_task) \<Rightarrow> nat list \<Rightarrow> 'd \<Rightarrow> 'd" where
  "run_serial run [] d = d"
| "run_serial run (p # ps) d = run_serial run ps (case run p d of (Inl _, _) \<Rightarrow> d | (Inr _, d') \<Rightarrow> d')"

lemma run_serial_append: "run_serial run (ps @ qs) d = run_serial run qs (run_serial run ps d)"
  by (induction ps arbitrary: d) auto

text \<open>
  The processes of the list have finished, each with the result that its task has when it runs after those before it.
\<close>

definition finished_in_order :: "(nat \<Rightarrow> ('d, 'r) viewer_task) \<Rightarrow> nat list \<Rightarrow> 'd \<Rightarrow> ('d, 'r) viewers \<Rightarrow> bool" where
  "finished_in_order run ps d s \<longleftrightarrow>
     distinct ps \<and> (\<forall>p. p \<in> set ps \<longleftrightarrow> (\<exists>r. phase_of s p = Finished r)) \<and>
     (\<forall>i<length ps. phase_of s (ps ! i) = Finished (fst (run (ps ! i) (run_serial run (take i ps) d))))"

lemma finished_in_order_keep:
  assumes "finished_in_order run ps d s" and "phase_of s' = (phase_of s)(p := ph)"
    and "\<forall>r. phase_of s p \<noteq> Finished r" and "\<forall>r. ph \<noteq> Finished r"
  shows "finished_in_order run ps d s'"
  using assms nth_mem by (fastforce simp: finished_in_order_def)

lemma finished_in_order_snoc:
  assumes "finished_in_order run ps d s" and "phase_of s' = (phase_of s)(p := Finished (fst (run p (run_serial run ps d))))"
    and "\<forall>r. phase_of s p \<noteq> Finished r"
  shows "finished_in_order run (ps @ [p]) d s'"
proof -
  have p: "p \<notin> set ps" using assms(1,3) by (auto simp: finished_in_order_def)
  have "phase_of s' ((ps @ [p]) ! i) = Finished (fst (run ((ps @ [p]) ! i) (run_serial run (take i (ps @ [p])) d)))" if "i < length (ps @ [p])" for i
  proof (cases "i < length ps")
    case True
    then have "ps ! i \<noteq> p" using p nth_mem by metis
    then show ?thesis using True assms(1,2) by (simp add: finished_in_order_def nth_append)
  next
    case False
    then have "i = length ps" using that by simp
    then show ?thesis by (simp add: assms(2))
  qed
  then show ?thesis using assms p unfolding finished_in_order_def by auto
qed

text \<open>
  Who is inside, and what the one that is inside has seen. The list of processes that have finished is
  the order.
\<close>

primrec inside :: "('d, 'r) phase \<Rightarrow> bool" where
  "inside Waiting = False"
| "inside Locked = True"
| "inside (Loaded d) = True"
| "inside (Changed d r) = True"
| "inside (Emptied d r) = True"
| "inside (Finished r) = False"
| "inside Killed = False"

primrec current :: "'d codec \<Rightarrow> ('d, 'r) viewer_task \<Rightarrow> 'd \<Rightarrow> string \<Rightarrow> ('d, 'r) phase \<Rightarrow> bool" where
  "current codec run d c Waiting = (parse codec c = d)"
| "current codec run d c Locked = (parse codec c = d)"
| "current codec run d c (Loaded x) = (parse codec c = d \<and> x = d)"
| "current codec run d c (Changed x r) = (parse codec c = d \<and> run d = (Inr r, x))"
| "current codec run d c (Emptied x r) = (c = [] \<and> run d = (Inr r, x))"
| "current codec run d c (Finished r) = (parse codec c = d)"
| "current codec run d c Killed = (parse codec c = d)"

definition alone_inside :: "('d, 'r) viewers \<Rightarrow> bool" where
  "alone_inside s \<longleftrightarrow> (\<forall>p. lock_of s p = (if inside (phase_of s p) then Some LOCK_EX else None)) \<and>
     (\<forall>p q. inside (phase_of s p) \<longrightarrow> inside (phase_of s q) \<longrightarrow> p = q)"

definition serial_inv :: "'d codec \<Rightarrow> (nat \<Rightarrow> ('d, 'r) viewer_task) \<Rightarrow> 'd \<Rightarrow> ('d, 'r) viewers \<Rightarrow> bool" where
  "serial_inv codec run d0 s \<longleftrightarrow>
     alone_inside s \<and>
     (\<exists>ps. finished_in_order run ps d0 s \<and>
        ((\<forall>p. \<not> inside (phase_of s p)) \<longrightarrow> parse codec (content s) = run_serial run ps d0) \<and>
        (\<forall>p. inside (phase_of s p) \<longrightarrow> current codec (run p) (run_serial run ps d0) (content s) (phase_of s p)))"

lemma alone_inside_move:
  assumes "alone_inside s" and "inside (phase_of s p)" and "inside ph" and "phase_of s' = (phase_of s)(p := ph)" and "lock_of s' = lock_of s"
  shows "alone_inside s'"
  using assms unfolding alone_inside_def by auto

lemma alone_inside_leave:
  assumes "alone_inside s" and "\<not> inside ph" and "phase_of s' = (phase_of s)(p := ph)" and "lock_of s' = (lock_of s)(p := None)"
  shows "alone_inside s'"
  using assms unfolding alone_inside_def by auto

lemma alone_inside_lock:
  assumes "alone_inside s" and "may_lock LOCK_EX p s" and "\<not> inside (phase_of s p)"
  shows "\<not> inside (phase_of s q)"
  using assms unfolding alone_inside_def may_lock_def compatible_def by (metis lock_op.distinct(1))

text \<open>What a step of the process that is inside has to keep.\<close>

lemma serial_inv_inside:
  assumes "alone_inside s" and "finished_in_order run ps d0 s" and "inside (phase_of s p)" and "inside ph"
    and "phase_of s' = (phase_of s)(p := ph)" and "lock_of s' = lock_of s"
    and "current codec (run p) (run_serial run ps d0) (content s') ph"
  shows "serial_inv codec run d0 s'"
proof -
  have "\<forall>r. phase_of s p \<noteq> Finished r" "\<forall>r. ph \<noteq> Finished r" using assms(3,4) by auto
  then have "finished_in_order run ps d0 s'" by (rule finished_in_order_keep [OF assms(2,5)])
  moreover have "inside (phase_of s' q) \<longleftrightarrow> q = p" for q using assms(1,3-5) by (auto simp: alone_inside_def)
  ultimately show ?thesis unfolding serial_inv_def
    using alone_inside_move [OF assms(1,3-6)] assms(4,5,7) by (intro conjI exI [of _ ps]) auto
qed

lemma serial_inv_leave:
  assumes "alone_inside s" and "finished_in_order run ps d0 s'" and "\<forall>q. q \<noteq> p \<longrightarrow> \<not> inside (phase_of s q)" and "\<not> inside ph"
    and "phase_of s' = (phase_of s)(p := ph)" and "lock_of s' = (lock_of s)(p := None)"
    and "parse codec (content s') = run_serial run ps d0"
  shows "serial_inv codec run d0 s'"
proof -
  have "\<not> inside (phase_of s' q)" for q using assms(3-5) by auto
  then show ?thesis unfolding serial_inv_def
    using alone_inside_leave [OF assms(1,4-6)] assms(2,7) by (intro conjI exI [of _ ps]) auto
qed

lemma serial_inv_step:
  assumes "viewer_step LOCK_EX codec run s s'" and "serial_inv codec run d0 s" and "\<forall>d. parse codec (serialize codec d) = d"
  shows "serial_inv codec run d0 s'"
proof -
  obtain ps where al: "alone_inside s" and fin: "finished_in_order run ps d0 s"
      and idle: "(\<forall>p. \<not> inside (phase_of s p)) \<longrightarrow> parse codec (content s) = run_serial run ps d0"
      and cur: "\<forall>p. inside (phase_of s p) \<longrightarrow> current codec (run p) (run_serial run ps d0) (content s) (phase_of s p)"
    using assms(2) by (auto simp: serial_inv_def)
  have one: "\<forall>q. q \<noteq> p \<longrightarrow> \<not> inside (phase_of s q)" if "inside (phase_of s p)" for p
    using al that by (auto simp: alone_inside_def)
  show ?thesis
    using assms(1)
  proof cases
    case (lock p)
    have none: "\<not> inside (phase_of s q)" for q using alone_inside_lock [OF al lock(3)] lock(2) by simp
    have "finished_in_order run ps d0 s'" by (rule finished_in_order_keep [OF fin, of s' p Locked]) (simp_all add: lock viewer_defs)
    moreover have "alone_inside s'" using al none by (auto simp: lock(1) alone_inside_def viewer_defs)
    moreover have "parse codec (content s) = run_serial run ps d0" using idle none by simp
    ultimately show ?thesis using none unfolding serial_inv_def
      by (intro conjI exI [of _ ps]) (auto simp: lock(1) viewer_defs)
  next
    case (load p d fd)
    have "d = parse codec (content s)" using load(3) LoadData_bytes [of codec "content s"] by auto
    then show ?thesis using load(2) cur [rule_format, of p]
      by (intro serial_inv_inside [OF al fin, of p "Loaded d"]) (auto simp: load(1) viewer_defs)
  next
    case (fail p d e d')
    have d: "d = run_serial run ps d0" "parse codec (content s) = run_serial run ps d0" using fail(2) cur [rule_format, of p] by auto
    have "finished_in_order run (ps @ [p]) d0 s'" using fail d by (intro finished_in_order_snoc [OF fin]) (auto simp: viewer_defs)
    then show ?thesis using fail one [of p] d
      by (intro serial_inv_leave [OF al, of run "ps @ [p]" d0 s' p "Finished (Inl e)"]) (auto simp: viewer_defs run_serial_append)
  next
    case (change p d r d')
    then show ?thesis using cur [rule_format, of p]
      by (intro serial_inv_inside [OF al fin, of p "Changed d' r"]) (auto simp: viewer_defs)
  next
    case (empty p d r fd)
    then show ?thesis using cur [rule_format, of p]
      by (intro serial_inv_inside [OF al fin, of p "Emptied d r"]) (auto simp: viewer_defs empty_file_eq opened_at_start_def)
  next
    case (store p d r fd)
    have d: "run p (run_serial run ps d0) = (Inr r, d)" "content s = []" using store(2) cur [rule_format, of p] by auto
    have "file_bytes fd = serialize codec d" using store(3) d(2) by (auto intro: StoreData_okD)
    moreover have "finished_in_order run (ps @ [p]) d0 s'" using store d by (intro finished_in_order_snoc [OF fin]) (auto simp: viewer_defs)
    ultimately show ?thesis using store one [of p] d assms(3)
      by (intro serial_inv_leave [OF al, of run "ps @ [p]" d0 s' p "Finished (Inr r)"]) (auto simp: viewer_defs run_serial_append)
  next
    case (kill p d r)
    have fin': "finished_in_order run ps d0 s'" by (rule finished_in_order_keep [OF fin, of s' p Killed]) (use kill in \<open>auto simp: viewer_defs\<close>)
    show ?thesis
    proof (cases "inside (phase_of s p)")
      case True
      then show ?thesis using kill cur [rule_format, of p] one [of p]
        by (intro serial_inv_leave [OF al fin', of p Killed]) (auto simp: viewer_defs)
    next
      case False
      have "inside (phase_of s' q) \<longleftrightarrow> inside (phase_of s q)" "inside (phase_of s q) \<Longrightarrow> phase_of s' q = phase_of s q" for q
        using False by (auto simp: kill(1) viewer_defs)
      moreover have "alone_inside s'" by (rule alone_inside_leave [OF al, of Killed s' p]) (simp_all add: kill(1) viewer_defs)
      moreover have "content s' = content s" by (simp add: kill(1) viewer_defs)
      ultimately show ?thesis using fin' idle cur unfolding serial_inv_def by (intro conjI exI [of _ ps]) auto
    qed
  qed
qed

lemma serial_inv_start: "serial_inv codec run (parse codec bytes) (viewers_start bytes)"
  unfolding serial_inv_def
  by (intro conjI exI [of _ "[]"]) (auto simp: viewers_start_def alone_inside_def finished_in_order_def)

lemma serial_inv_steps:
  assumes "(viewer_step LOCK_EX codec run)\<^sup>*\<^sup>* s s'" and "serial_inv codec run d0 s" and "\<forall>d. parse codec (serialize codec d) = d"
  shows "serial_inv codec run d0 s'"
  using assms by (induction rule: rtranclp_induct) (auto intro: serial_inv_step)

subsection \<open>Parts of a call\<close>

text \<open>From waiting to the changed data, and from there to the end, without another process in between.\<close>

lemma steps_to_changed:
  assumes "phase_of s p = Waiting" and "may_lock l p s" and "run p (parse codec (content s)) = (Inr r, d)"
  shows "(viewer_step l codec run)\<^sup>*\<^sup>* s ((move p (Changed d r) s)\<lparr>lock_of := (lock_of s)(p := Some l)\<rparr>)"
proof -
  let ?d = "parse codec (content s)"
  let ?s1 = "(move p Locked s)\<lparr>lock_of := (lock_of s)(p := Some l)\<rparr>"
  let ?s2 = "move p (Loaded ?d) ?s1"
  have "viewer_step l codec run s ?s1" using assms(1,2) by (rule viewer_step.lock)
  moreover have "viewer_step l codec run ?s1 ?s2"
  proof -
    obtain fd where "LoadData codec (opened_at_start (content s)) = Some (Ok ?d, fd)" using LoadData_bytes by metis
    then show ?thesis by (intro viewer_step.load [of ?s1 p codec ?d fd]) (simp_all add: move_def)
  qed
  moreover have "viewer_step l codec run ?s2 (move p (Changed d r) ?s2)"
    using assms(3) by (intro viewer_step.change) (auto simp: move_def)
  moreover have "move p (Changed d r) ?s2 = (move p (Changed d r) s)\<lparr>lock_of := (lock_of s)(p := Some l)\<rparr>" by (simp add: move_def)
  ultimately show ?thesis by (metis (no_types, lifting) converse_rtranclp_into_rtranclp r_into_rtranclp)
qed

lemma steps_to_finished:
  assumes "phase_of s p = Changed d r" and "length (serialize codec d) \<le> max_size"
  shows "(viewer_step l codec run)\<^sup>*\<^sup>* s ((leave p (Finished (Inr r)) s)\<lparr>content := serialize codec d\<rparr>)"
proof -
  let ?s1 = "(move p (Emptied d r) s)\<lparr>content := []\<rparr>"
  obtain fd where fd: "StoreData codec d (opened_at_start []) = (Ok (), fd)" "file_bytes fd = serialize codec d"
    using StoreData_at_start [OF assms(2), of "[]"] by auto
  have "viewer_step l codec run s ?s1"
    using viewer_step.empty [OF assms(1) empty_file_eq, of l codec run] by (simp add: opened_at_start_def)
  moreover have "viewer_step l codec run ?s1 ((leave p (Finished (Inr r)) ?s1)\<lparr>content := file_bytes fd\<rparr>)"
    using fd(1) by (intro viewer_step.store) (auto simp: move_def)
  moreover have "(leave p (Finished (Inr r)) ?s1)\<lparr>content := file_bytes fd\<rparr> = (leave p (Finished (Inr r)) s)\<lparr>content := serialize codec d\<rparr>"
    by (simp add: viewer_defs fd(2))
  ultimately show ?thesis by (metis (no_types, lifting) converse_rtranclp_into_rtranclp r_into_rtranclp)
qed

subsection \<open>What the lock of the source allows\<close>

text \<open>
  Two processes that both change the data end with what the second has made of the data it read before the
  first wrote; both succeed.
\<close>

lemma update_lost:
  fixes run :: "nat \<Rightarrow> ('d, 'r) viewer_task"
  assumes "run p (parse codec bytes) = (Inr r, d)" and "run q (parse codec bytes) = (Inr r', d')" and "p \<noteq> q"
    and "length (serialize codec d) \<le> max_size" and "length (serialize codec d') \<le> max_size"
  shows "\<exists>s. (viewer_step exclusive_lock_op codec run)\<^sup>*\<^sup>* (viewers_start bytes) s \<and> phase_of s p = Finished (Inr r) \<and>
    phase_of s q = Finished (Inr r') \<and> content s = serialize codec d'"
proof -
  let ?s0 = "viewers_start bytes :: ('d, 'r) viewers" and ?step = "viewer_step exclusive_lock_op codec run"
  let ?s1 = "(move p (Changed d r) ?s0)\<lparr>lock_of := (lock_of ?s0)(p := Some LOCK_SH)\<rparr>"
  let ?s2 = "(move q (Changed d' r') ?s1)\<lparr>lock_of := (lock_of ?s1)(q := Some LOCK_SH)\<rparr>"
  let ?s3 = "(leave p (Finished (Inr r)) ?s2)\<lparr>content := serialize codec d\<rparr>"
  let ?s4 = "(leave q (Finished (Inr r')) ?s3)\<lparr>content := serialize codec d'\<rparr>"
  note sh = exclusive_lock_op_def
  have a: "?step\<^sup>*\<^sup>* ?s0 ?s1" unfolding sh
    using assms(1) by (intro steps_to_changed) (auto simp: viewers_start_def may_lock_def)
  have b: "?step\<^sup>*\<^sup>* ?s1 ?s2" unfolding sh
    using assms(2,3) by (intro steps_to_changed) (auto simp: viewers_start_def may_lock_def compatible_def move_def)
  have c: "?step\<^sup>*\<^sup>* ?s2 ?s3" using assms(3,4) by (intro steps_to_finished) (auto simp: move_def)
  have d: "?step\<^sup>*\<^sup>* ?s3 ?s4" using assms(3,5) by (intro steps_to_finished) (auto simp: viewer_defs)
  have "?step\<^sup>*\<^sup>* ?s0 ?s4" by (rule rtranclp_trans [OF rtranclp_trans [OF a b] rtranclp_trans [OF c d]])
  then show ?thesis using assms(3) by (intro exI [of _ ?s4] conjI) (auto simp: viewer_defs)
qed

text \<open>
  If the lock that \<^verbatim>\<open>WithExclusiveLock\<close> takes were exclusive, as its name and its comment say, concurrent
  calls would be serialised: in every reachable state the calls that have ended have the results of the
  tasks run one after another in some order, processes that were killed before writing leave no trace,
  and while no process is between emptying and writing the file, the file has the data that this order
  leaves. That the encoding is inverted by parsing is assumed.
\<close>

theorem exclusive_lock_serializes:
  assumes "(viewer_step LOCK_EX codec run)\<^sup>*\<^sup>* (viewers_start bytes) s" and "\<forall>d. parse codec (serialize codec d) = d"
  shows "\<exists>ps. distinct ps \<and> (\<forall>p. p \<in> set ps \<longleftrightarrow> (\<exists>r. phase_of s p = Finished r)) \<and>
    (\<forall>i<length ps. phase_of s (ps ! i) = Finished (fst (run (ps ! i) (run_serial run (take i ps) (parse codec bytes))))) \<and>
    ((\<forall>p d r. phase_of s p \<noteq> Emptied d r) \<longrightarrow> parse codec (content s) = run_serial run ps (parse codec bytes))"
proof -
  have "serial_inv codec run (parse codec bytes) s" by (rule serial_inv_steps [OF assms(1) serial_inv_start assms(2)])
  then obtain ps where fin: "finished_in_order run ps (parse codec bytes) s"
      and idle: "(\<forall>p. \<not> inside (phase_of s p)) \<longrightarrow> parse codec (content s) = run_serial run ps (parse codec bytes)"
      and cur: "\<forall>p. inside (phase_of s p) \<longrightarrow> current codec (run p) (run_serial run ps (parse codec bytes)) (content s) (phase_of s p)"
    by (auto simp: serial_inv_def)
  have "parse codec (content s) = run_serial run ps (parse codec bytes)" if no: "\<forall>p d r. phase_of s p \<noteq> Emptied d r"
  proof (cases "\<exists>p. inside (phase_of s p)")
    case True
    then obtain p where p: "inside (phase_of s p)" by blast
    then show ?thesis using cur [rule_format, OF p] no by (cases "phase_of s p") auto
  qed (use idle in blast)
  then show ?thesis using fin unfolding finished_in_order_def by blast
qed

definition plain_codec :: "string codec" where
  "plain_codec = \<lparr>parse = id, serialize = id\<rparr>"

definition append_char :: "nat \<Rightarrow> (string, nat) viewer_task" where
  "append_char p d = (Ok (length d), d @ [if p = 0 then CHR ''x'' else CHR ''y''])"

theorem exclusive_lock_serializes_witness:
  "\<exists>s. (viewer_step LOCK_EX plain_codec append_char)\<^sup>*\<^sup>* (viewers_start []) s \<and> phase_of s 0 = Finished (Ok 0) \<and> content s = ''x'' \<and>
    (\<exists>ps. distinct ps \<and> (\<forall>p. p \<in> set ps \<longleftrightarrow> (\<exists>r. phase_of s p = Finished r)) \<and> content s = run_serial append_char ps [])"
proof -
  let ?s0 = "viewers_start [] :: (string, nat) viewers" and ?step = "viewer_step LOCK_EX plain_codec append_char"
  let ?s1 = "(move 0 (Changed ''x'' 0) ?s0)\<lparr>lock_of := (lock_of ?s0)(0 := Some LOCK_EX)\<rparr>"
  let ?s2 = "(leave 0 (Finished (Inr 0)) ?s1)\<lparr>content := serialize plain_codec ''x''\<rparr>"
  have a: "?step\<^sup>*\<^sup>* ?s0 ?s1"
    by (intro steps_to_changed) (auto simp: viewers_start_def may_lock_def plain_codec_def append_char_def)
  have b: "?step\<^sup>*\<^sup>* ?s1 ?s2" by (intro steps_to_finished) (auto simp: move_def plain_codec_def)
  have run: "?step\<^sup>*\<^sup>* ?s0 ?s2" by (rule rtranclp_trans [OF a b])
  have "phase_of ?s2 0 = Finished (Ok 0)" "content ?s2 = ''x''" "\<forall>p d r. phase_of ?s2 p \<noteq> Emptied d r"
    by (auto simp: viewer_defs viewers_start_def plain_codec_def)
  then show ?thesis using run exclusive_lock_serializes [OF run] by (intro exI [of _ ?s2] conjI) (auto simp: plain_codec_def)
qed

end
