(* ===== verification/Instance_Database.thy ===== *)
theory Instance_Database
  imports Instance_Group Data_Viewer
begin

section \<open>The database of instance groups\<close>

text \<open>
  \<^verbatim>\<open>host/commands/cvd/instances/instance_database.cpp\<close>. Each operation is a task on the message, run under the
  lock of the data viewer; a failed \<^verbatim>\<open>CHECK\<close> ends the process before anything is written, like an error.
\<close>

record Filter =
  filter_instance_id :: "u32 option"
  filter_group_name :: "string option"
  filter_instance_names :: "string list"

definition Filter_Empty :: "Filter \<Rightarrow> bool" where
  "Filter_Empty f \<longleftrightarrow> filter_instance_id f = None \<and> filter_group_name f = None \<and> filter_instance_names f = []"

definition no_filter :: Filter where
  "no_filter = \<lparr>filter_instance_id = None, filter_group_name = None, filter_instance_names = []\<rparr>"

definition InstanceMatches :: "Instance \<Rightarrow> Filter \<Rightarrow> bool" where
  "InstanceMatches i f \<longleftrightarrow>
     (case filter_instance_id f of None \<Rightarrow> True | Some n \<Rightarrow> n = instance_id i) \<and>
     (filter_instance_names f = [] \<or> instance_name i \<in> set (filter_instance_names f))"

definition GroupMatches :: "InstanceGroup \<Rightarrow> Filter \<Rightarrow> bool" where
  "GroupMatches g f \<longleftrightarrow>
     (case filter_group_name f of None \<Rightarrow> True | Some n \<Rightarrow> n = group_name g) \<and>
     (case filter_instance_id f of None \<Rightarrow> True | Some n \<Rightarrow> n \<in> instance_id ` set (instances g)) \<and>
     set (filter_instance_names f) \<subseteq> instance_name ` set (instances g)"

definition kInternalGroupName :: string where "kInternalGroupName = ''cvd''"

definition GenUniqueGroupName :: "PersistentData \<Rightarrow> string result" where
  "GenUniqueGroupName data =
     (let group_names = remdups (map group_name data)
      in case find (\<lambda>n. n \<notin> set group_names) (map (\<lambda>i. kInternalGroupName @ ''_'' @ to_string (int i)) [1..<length group_names + 2]) of
           None \<Rightarrow> Err Cf_Error
         | Some n \<Rightarrow> Ok n)"

fun find_groups :: "PersistentData \<Rightarrow> Filter \<Rightarrow> InstanceGroup list result" where
  "find_groups [] f = Ok []"
| "find_groups (g # gs) f =
     (if \<not> GroupMatches g f then find_groups gs f
      else case LocalInstanceGroup_Create g of
             Inl e \<Rightarrow> Err Check_Failed
           | Inr g \<Rightarrow> bind_result (find_groups gs f) (\<lambda>ret. Ok (g # ret)))"

subsection \<open>The tasks\<close>

definition existing_ids :: "PersistentData \<Rightarrow> u32 set" where
  "existing_ids data = {i \<in> instance_id ` (\<Union>g\<in>set data. set (instances g)). i \<noteq> 0}"

text \<open>
  The result of adding is the group with its name: the caller shares the message, in which a name
  that was generated is set.
\<close>

definition add_group :: "InstanceGroup \<Rightarrow> (PersistentData, InstanceGroup) viewer_task" where
  "add_group grp data =
     (case (if group_name grp = [] then GenUniqueGroupName data else Ok (group_name grp)) of
        Inl e \<Rightarrow> (Inl e, data)
      | Inr n \<Rightarrow>
          (let grp = grp\<lparr>group_name := n\<rparr>
           in case find_groups data (no_filter\<lparr>filter_group_name := Some n\<rparr>) of
                Inl e \<Rightarrow> (Inl e, data)
              | Inr found \<Rightarrow>
                  if found \<noteq> [] then (Err Cf_Error, data)
                  else if home_directory grp \<in> home_directory ` set data then (Err Cf_Error, data)
                  else if \<exists>i\<in>set (instances grp). instance_id i \<noteq> 0 \<and> instance_id i \<in> existing_ids data then (Err Cf_Error, data)
                  else (Ok grp, data @ [grp])))"

fun update_group :: "InstanceGroup \<Rightarrow> (PersistentData, unit) viewer_task" where
  "update_group grp [] = (Err Cf_Error, [])"
| "update_group grp (g # gs) =
     (if group_name g = group_name grp then (Ok (), grp # gs)
      else case update_group grp gs of (r, gs) \<Rightarrow> (r, g # gs))"

fun remove_group :: "string \<Rightarrow> (PersistentData, bool) viewer_task" where
  "remove_group gname [] = (Ok False, [])"
| "remove_group gname (g # gs) =
     (if group_name g = gname then (Ok True, gs)
      else case remove_group gname gs of (r, gs) \<Rightarrow> (r, g # gs))"

fun create_all :: "PersistentData \<Rightarrow> InstanceGroup list result" where
  "create_all [] = Ok []"
| "create_all (g # gs) = bind_result (LocalInstanceGroup_Create g) (\<lambda>g. bind_result (create_all gs) (\<lambda>gs. Ok (g # gs)))"

definition clear_groups :: "(PersistentData, InstanceGroup list) viewer_task" where
  "clear_groups data = (create_all data, [])"

fun find_instances :: "Filter \<Rightarrow> PersistentData \<Rightarrow> (Instance \<times> InstanceGroup) option \<Rightarrow> (Instance \<times> InstanceGroup) option result" where
  "find_instances f [] found = Ok found"
| "find_instances f (g # gs) found =
     (if \<not> GroupMatches g f then find_instances f gs found
      else case filter (\<lambda>i. InstanceMatches i f) (instances g) of
             [] \<Rightarrow> find_instances f gs found
           | i # is \<Rightarrow>
               if found \<noteq> None then Err Cf_Error
               else case LocalInstanceGroup_Create g of
                      Inl e \<Rightarrow> Inl e
                    | Inr g \<Rightarrow> if is \<noteq> [] then Err Cf_Error else find_instances f gs (Some (i, g)))"

subsection \<open>The operations\<close>

type_synonym db_codec = "PersistentData codec"

definition AddInstanceGroup :: "db_codec \<Rightarrow> InstanceGroup \<Rightarrow> string \<Rightarrow> (InstanceGroup result \<times> string) option" where
  "AddInstanceGroup codec grp bytes =
     (if \<not> (group_name grp = [] \<or> IsValidGroupName (group_name grp)) then Some (Err Cf_Error, bytes)
      else if \<not> list_all (\<lambda>i. IsValidInstanceName (instance_name i)) (instances grp) then Some (Err Cf_Error, bytes)
      else WithExclusiveLock codec (add_group grp) bytes)"

definition UpdateInstanceGroup :: "db_codec \<Rightarrow> InstanceGroup \<Rightarrow> string \<Rightarrow> (unit result \<times> string) option" where
  "UpdateInstanceGroup codec grp bytes = WithExclusiveLock codec (update_group grp) bytes"

definition RemoveInstanceGroup :: "db_codec \<Rightarrow> string \<Rightarrow> string \<Rightarrow> (bool result \<times> string) option" where
  "RemoveInstanceGroup codec gname bytes = WithExclusiveLock codec (remove_group gname) bytes"

definition Clear :: "db_codec \<Rightarrow> string \<Rightarrow> (InstanceGroup list result \<times> string) option" where
  "Clear codec bytes = WithExclusiveLock codec clear_groups bytes"

definition IsEmpty :: "db_codec \<Rightarrow> string \<Rightarrow> bool result option" where
  "IsEmpty codec bytes = WithSharedLock codec (\<lambda>data. Ok (data = [])) bytes"

definition FindGroups :: "db_codec \<Rightarrow> Filter \<Rightarrow> string \<Rightarrow> InstanceGroup list result option" where
  "FindGroups codec f bytes = WithSharedLock codec (\<lambda>data. find_groups data f) bytes"

definition FindGroup :: "db_codec \<Rightarrow> Filter \<Rightarrow> string \<Rightarrow> InstanceGroup result option" where
  "FindGroup codec f bytes =
     map_option (\<lambda>r. bind_result r (\<lambda>gs. case gs of [g] \<Rightarrow> Ok g | _ \<Rightarrow> Err Cf_Error)) (FindGroups codec f bytes)"

definition FindInstanceWithGroup :: "db_codec \<Rightarrow> Filter \<Rightarrow> string \<Rightarrow> (Instance \<times> InstanceGroup) result option" where
  "FindInstanceWithGroup codec f bytes =
     (if 1 < length (remdups (filter_instance_names f)) then Some (Err Cf_Error)
      else WithSharedLock codec (\<lambda>data. bind_result (find_instances f data None)
             (\<lambda>found. case found of None \<Rightarrow> Err Cf_Error | Some r \<Rightarrow> Ok r)) bytes)"

definition InstanceGroups :: "db_codec \<Rightarrow> string \<Rightarrow> InstanceGroup list result option" where
  "InstanceGroups codec bytes = WithSharedLock codec create_all bytes"

subsection \<open>The state of the database\<close>

definition all_ids :: "PersistentData \<Rightarrow> u32 list" where
  "all_ids data = concat (map (\<lambda>g. map instance_id (instances g)) data)"

definition names_ok :: "InstanceGroup \<Rightarrow> bool" where
  "names_ok g \<longleftrightarrow> IsValidGroupName (group_name g) \<and> (\<forall>n\<in>set (map instance_name (instances g)). IsValidInstanceName n)"

definition db_ok :: "PersistentData \<Rightarrow> bool" where
  "db_ok data \<longleftrightarrow> (\<forall>g\<in>set data. group_ok g \<and> names_ok g) \<and> distinct (map group_name data) \<and> distinct (map home_directory data) \<and> distinct (all_ids data)"

lemma db_ok_Nil [simp]: "db_ok []"
  by (simp add: db_ok_def all_ids_def)

lemma all_ids_simps [simp]:
  "all_ids [] = []" "all_ids (g # gs) = map instance_id (instances g) @ all_ids gs" "all_ids (gs @ hs) = all_ids gs @ all_ids hs"
  by (simp_all add: all_ids_def)

lemma existing_ids_eq: "db_ok data \<Longrightarrow> existing_ids data = set (all_ids data)"
  by (fastforce simp: existing_ids_def all_ids_def db_ok_def group_ok_def)

text \<open>A name is always found: among one more candidates than there are names, one is free.\<close>

lemma to_string_inj [simp]: "to_string i = to_string j \<longleftrightarrow> i = j"
  using strtol_value_to_string [of "[]" i] strtol_value_to_string [of "[]" j] by (metis option.inject)

lemma to_string_name_chars: "list_all name_char (to_string (int n))"
proof -
  have "name_char c" if "is_digit 10 c" for c using that by (auto simp: is_digit_def digit_value_def name_char_def Let_def split: if_splits)
  then show ?thesis using dec_digits_is_digit by (auto simp: to_string_def list_all_iff)
qed

lemma GenUniqueGroupName_fresh:
  obtains n where "GenUniqueGroupName data = Ok n" and "n \<notin> group_name ` set data" and "IsValidGroupName n"
proof -
  let ?names = "remdups (map group_name data)"
  let ?cand = "map (\<lambda>i. kInternalGroupName @ ''_'' @ to_string (int i)) [1..<length ?names + 2]"
  have "distinct ?cand" unfolding distinct_map by (simp add: inj_on_def del: upt_Suc)
  then have "card (set ?cand) = length ?names + 1" by (simp add: distinct_card del: upt_Suc set_map set_upt)
  moreover have "card (set ?names) \<le> length ?names" by (rule card_length)
  ultimately have "\<not> set ?cand \<subseteq> set ?names" using card_mono [OF finite_set, of "set ?cand" ?names] by linarith
  then have "find (\<lambda>n. n \<notin> set ?names) ?cand \<noteq> None" unfolding find_None_iff by blast
  then obtain n where n: "find (\<lambda>n. n \<notin> set ?names) ?cand = Some n" by blast
  then have "n \<in> set ?cand" "n \<notin> set ?names" unfolding find_Some_iff using nth_mem by (metis (no_types, lifting))+
  moreover have "IsValidGroupName m" if "m \<in> set ?cand" for m
    using that to_string_name_chars by (auto simp: IsValidGroupName_def kInternalGroupName_def name_char_def is_digit_def digit_value_def simp del: upt_Suc)
  ultimately show ?thesis using n by (intro that [of n]) (simp_all add: GenUniqueGroupName_def Let_def del: upt_Suc)
qed

subsection \<open>An encoding\<close>

text \<open>
  An encoding that parsing inverts, on which the laws that are assumed of protobuf hold: strings are marked character by
  character, lists have their length first.
\<close>

definition put_string :: "string \<Rightarrow> string" where
  "put_string s = concat (map (\<lambda>c. [CHR ''+'', c]) s) @ ''.''"

fun get_string :: "string \<Rightarrow> string \<times> string" where
  "get_string (m # c # r) = (if m = CHR ''+'' then case get_string r of (s, r) \<Rightarrow> (c # s, r) else ([], c # r))"
| "get_string r = ([], [])"

lemma get_put_string [simp]: "get_string (put_string s @ r) = (s, r)"
  by (induction s) (cases r; simp add: put_string_def)+

primrec get_list :: "(string \<Rightarrow> 'a \<times> string) \<Rightarrow> nat \<Rightarrow> string \<Rightarrow> 'a list \<times> string" where
  "get_list get 0 r = ([], r)"
| "get_list get (Suc n) r = (case get r of (x, r) \<Rightarrow> case get_list get n r of (xs, r) \<Rightarrow> (x # xs, r))"

lemma get_list_put:
  "(\<And>x r. get (put x @ r) = (x, r)) \<Longrightarrow> get_list get (length xs) (concat (map put xs) @ r) = (xs, r)"
  by (induction xs) auto

definition put_int :: "int \<Rightarrow> string" where
  "put_int i = put_string (to_string i)"

definition get_int :: "string \<Rightarrow> int \<times> string" where
  "get_int r = (case get_string r of (s, r) \<Rightarrow> (case strtol_value 10 s of None \<Rightarrow> 0 | Some i \<Rightarrow> i, r))"

lemma get_put_int [simp]: "get_int (put_int i @ r) = (i, r)"
  using strtol_value_to_string [of "[]" i] by (simp add: put_int_def get_int_def)

definition put_list :: "('a \<Rightarrow> string) \<Rightarrow> 'a list \<Rightarrow> string" where
  "put_list put xs = put_int (int (length xs)) @ concat (map put xs)"

definition get_counted :: "(string \<Rightarrow> 'a \<times> string) \<Rightarrow> string \<Rightarrow> 'a list \<times> string" where
  "get_counted get r = (case get_int r of (n, r) \<Rightarrow> get_list get (nat n) r)"

lemma get_counted_put [simp]: "(\<And>x r. get (put x @ r) = (x, r)) \<Longrightarrow> get_counted get (put_list put xs @ r) = (xs, r)"
  by (simp add: get_counted_def put_list_def get_list_put)

definition all_states :: "InstanceState list" where
  "all_states = [INSTANCE_STATE_UNSPECIFIED, INSTANCE_STATE_PREPARING, INSTANCE_STATE_STARTING, INSTANCE_STATE_RUNNING,
     INSTANCE_STATE_STOPPING, INSTANCE_STATE_STOPPED, INSTANCE_STATE_PREPARE_FAILED, INSTANCE_STATE_BOOT_FAILED,
     INSTANCE_STATE_UNREACHABLE, INSTANCE_STATE_CANCELLED]"

definition put_instance :: "Instance \<Rightarrow> string" where
  "put_instance i = put_int (uint (instance_id i)) @ put_string (instance_name i) @
     put_int (int (length (takeWhile (\<lambda>s. s \<noteq> instance_state i) all_states))) @ put_string (webrtc_device_id i)"

definition get_instance :: "string \<Rightarrow> Instance \<times> string" where
  "get_instance r =
     (case get_int r of (i, r) \<Rightarrow> case get_string r of (n, r) \<Rightarrow> case get_int r of (s, r) \<Rightarrow> case get_string r of (w, r) \<Rightarrow>
        (\<lparr>instance_id = word_of_int i, instance_name = n, instance_state = all_states ! nat s, webrtc_device_id = w\<rparr>, r))"

lemma get_put_instance [simp]: "get_instance (put_instance i @ r) = (i, r)"
proof -
  have "all_states ! length (takeWhile (\<lambda>s. s \<noteq> instance_state i) all_states) = instance_state i"
    by (cases "instance_state i") (simp_all add: all_states_def)
  then show ?thesis by (simp add: get_instance_def put_instance_def)
qed

definition put_group :: "InstanceGroup \<Rightarrow> string" where
  "put_group g = put_string (group_name g) @ put_string (home_directory g) @ put_string (host_artifacts_path g) @
     put_string (product_out_path g) @ put_int (start_time_sec g) @ put_list put_instance (instances g)"

definition get_group :: "string \<Rightarrow> InstanceGroup \<times> string" where
  "get_group r =
     (case get_string r of (n, r) \<Rightarrow> case get_string r of (h, r) \<Rightarrow> case get_string r of (a, r) \<Rightarrow> case get_string r of (p, r) \<Rightarrow>
      case get_int r of (t, r) \<Rightarrow> case get_counted get_instance r of (is, r) \<Rightarrow>
        (\<lparr>group_name = n, home_directory = h, host_artifacts_path = a, product_out_path = p, start_time_sec = t, instances = is\<rparr>, r))"

lemma get_put_group [simp]: "get_group (put_group g @ r) = (g, r)"
  by (simp add: get_group_def put_group_def)

definition plain_db_codec :: db_codec where
  "plain_db_codec = \<lparr>parse = (\<lambda>s. fst (get_counted get_group s)), serialize = put_list put_group\<rparr>"

lemma plain_db_codec_inverse [simp]: "parse plain_db_codec (serialize plain_db_codec data) = data"
  using get_counted_put [of get_group put_group data "[]"] by (simp add: plain_db_codec_def)

lemma plain_db_codec_empty [simp]: "parse plain_db_codec [] = []"
  by code_simp

subsection \<open>Lookups\<close>

lemma find_groups_ok: "\<forall>g\<in>set data. group_ok g \<Longrightarrow> find_groups data f = Ok (filter (\<lambda>g. GroupMatches g f) data)"
  by (induction data) (auto simp: Create_iff)

lemma create_all_ok: "\<forall>g\<in>set data. group_ok g \<Longrightarrow> create_all data = Ok data"
  by (induction data) (auto simp: Create_iff)

lemma GroupMatches_name: "GroupMatches g (no_filter\<lparr>filter_group_name := Some n\<rparr>) \<longleftrightarrow> group_name g = n"
  by (auto simp: GroupMatches_def no_filter_def)

lemma one_group_by_name:
  assumes "distinct (map group_name data)" and "filter_group_name f = Some n"
  shows "length (filter (\<lambda>g. GroupMatches g f) data) \<le> 1"
  using assms by (induction data) (auto simp: GroupMatches_def filter_empty_conv)

lemma one_group_by_id:
  assumes "distinct (all_ids data)" and "filter_instance_id f = Some n"
  shows "length (filter (\<lambda>g. GroupMatches g f) data) \<le> 1"
  using assms
proof (induction data)
  case (Cons g data)
  have "\<not> GroupMatches h f" if "GroupMatches g f" "h \<in> set data" for h
    using Cons(2,3) that by (fastforce simp: GroupMatches_def all_ids_def)
  then show ?case using Cons by (auto simp: filter_empty_conv)
qed simp

text \<open>Looking for one instance: the pairs of the groups and instances that the filter matches.\<close>

definition matching :: "Filter \<Rightarrow> PersistentData \<Rightarrow> (Instance \<times> InstanceGroup) list" where
  "matching f data = concat (map (\<lambda>g. map (\<lambda>i. (i, g)) (filter (\<lambda>i. InstanceMatches i f) (instances g)))
     (filter (\<lambda>g. GroupMatches g f) data))"

lemma find_instances_ok:
  assumes "\<forall>g\<in>set data. group_ok g"
  shows "find_instances f data found =
    (case (found, matching f data) of
       (_, []) \<Rightarrow> Ok found
     | (None, [m]) \<Rightarrow> Ok (Some m)
     | _ \<Rightarrow> Err Cf_Error)"
  using assms
proof (induction data arbitrary: found)
  case (Cons g data)
  let ?is = "filter (\<lambda>i. InstanceMatches i f) (instances g)"
  have m: "matching f (g # data) = (if GroupMatches g f then map (\<lambda>i. (i, g)) ?is else []) @ matching f data" by (simp add: matching_def)
  have "LocalInstanceGroup_Create g = Ok g" using Cons.prems by (simp add: Create_iff)
  with Cons m show ?case
    by (cases ?is; cases "tl ?is"; cases found; cases "matching f data") simp_all
qed (simp add: matching_def split: option.splits)

subsection \<open>What a successful change leaves\<close>

definition same_identity :: "InstanceGroup \<Rightarrow> InstanceGroup \<Rightarrow> bool" where
  "same_identity g h \<longleftrightarrow> group_name g = group_name h \<and> home_directory g = home_directory h \<and>
     map instance_id (instances g) = map instance_id (instances h) \<and> map instance_name (instances g) = map instance_name (instances h)"

lemma same_identity_ok: "same_identity g h \<Longrightarrow> group_ok g \<longleftrightarrow> group_ok h"
  unfolding same_identity_def group_ok_def by (metis image_set map_is_Nil_conv)

lemma same_identity_names: "same_identity g h \<Longrightarrow> names_ok g \<longleftrightarrow> names_ok h"
  unfolding same_identity_def names_ok_def by metis

lemma update_group_eq:
  "update_group grp data =
     (if group_name grp \<in> group_name ` set data
      then (Ok (), takeWhile (\<lambda>g. group_name g \<noteq> group_name grp) data @ grp # tl (dropWhile (\<lambda>g. group_name g \<noteq> group_name grp) data))
      else (Err Cf_Error, data))"
  by (induction data) auto

lemma remove_group_eq:
  "remove_group n data = (Ok (n \<in> group_name ` set data),
     takeWhile (\<lambda>g. group_name g \<noteq> n) data @ tl (dropWhile (\<lambda>g. group_name g \<noteq> n) data))"
  by (induction data) auto

lemma update_group_identity:
  assumes "update_group grp data = (Ok r, data')" and "\<forall>g\<in>set data. group_name g = group_name grp \<longrightarrow> same_identity g grp"
  shows "list_all2 same_identity data data'"
  using assms by (induction data arbitrary: data') (auto simp: same_identity_def list_all2_refl split: if_splits prod.splits)

lemma db_ok_identity:
  assumes "list_all2 same_identity data data'" and "db_ok data"
  shows "db_ok data'"
proof -
  have "map group_name data' = map group_name data \<and> map home_directory data' = map home_directory data \<and> all_ids data' = all_ids data"
    using assms(1) by (induction rule: list_all2_induct) (simp_all add: same_identity_def)
  moreover have "(\<forall>g\<in>set data. group_ok g \<and> names_ok g) \<longrightarrow> (\<forall>g\<in>set data'. group_ok g \<and> names_ok g)"
    using assms(1) by (induction rule: list_all2_induct) (simp, metis same_identity_ok same_identity_names set_ConsD list.set_intros)
  ultimately show ?thesis using assms(2) unfolding db_ok_def by simp
qed

lemma db_ok_drop_one:
  assumes "db_ok (xs @ ys)"
  shows "db_ok (xs @ tl ys)"
  using assms by (cases ys) (auto simp: db_ok_def)

lemma db_ok_remove:
  assumes "db_ok data" and "remove_group n data = (r, data')"
  shows "db_ok data'"
  using assms db_ok_drop_one [of "takeWhile (\<lambda>g. group_name g \<noteq> n) data" "dropWhile (\<lambda>g. group_name g \<noteq> n) data"]
  by (auto simp: remove_group_eq)

text \<open>The group that adding stores, and when it does.\<close>

definition named :: "PersistentData \<Rightarrow> InstanceGroup \<Rightarrow> InstanceGroup" where
  "named data grp =
     (if group_name grp = [] then case GenUniqueGroupName data of Inl e \<Rightarrow> grp | Inr n \<Rightarrow> grp\<lparr>group_name := n\<rparr> else grp)"

definition may_add :: "InstanceGroup \<Rightarrow> PersistentData \<Rightarrow> bool" where
  "may_add grp data \<longleftrightarrow> group_name grp \<notin> group_name ` set data \<and> home_directory grp \<notin> home_directory ` set data \<and>
     set (map instance_id (instances grp)) \<inter> set (all_ids data) = {}"

lemma add_group_eq:
  assumes "db_ok data" and "group_ok grp"
  shows "add_group grp data = (if may_add grp data then (Ok (named data grp), data @ [named data grp]) else (Err Cf_Error, data))"
proof -
  obtain n where n: "GenUniqueGroupName data = Ok n" "n \<notin> group_name ` set data" by (rule GenUniqueGroupName_fresh [of data])
  let ?name = "if group_name grp = [] then n else group_name grp"
  have ok: "\<forall>g\<in>set data. group_ok g" "[] \<notin> group_name ` set data" using assms(1) by (auto simp: db_ok_def names_ok_def IsValidGroupName_def)
  have "find_groups data (no_filter\<lparr>filter_group_name := Some ?name\<rparr>) = Ok (filter (\<lambda>g. group_name g = ?name) data)"
    by (simp add: find_groups_ok [OF ok(1)] GroupMatches_name)
  moreover have "filter (\<lambda>g. group_name g = ?name) data \<noteq> [] \<longleftrightarrow> group_name grp \<in> group_name ` set data"
    using n(2) ok(2) by (cases "group_name grp = []") (auto simp: filter_empty_conv image_iff, metis)
  moreover have "named data grp = grp\<lparr>group_name := ?name\<rparr>" using n(1) by (simp add: named_def)
  moreover have "(\<exists>i\<in>set (instances grp). instance_id i \<noteq> 0 \<and> instance_id i \<in> existing_ids data) \<longleftrightarrow>
      set (map instance_id (instances grp)) \<inter> set (all_ids data) \<noteq> {}"
    using assms(2) by (auto simp: existing_ids_eq [OF assms(1)] group_ok_def, metis image_eqI)
  moreover have "(if group_name grp = [] then GenUniqueGroupName data else Ok (group_name grp)) = Ok ?name" using n(1) by simp
  ultimately show ?thesis unfolding add_group_def may_add_def by (simp add: Let_def)
qed

lemma db_ok_add:
  assumes "db_ok data" and "group_ok grp" and "may_add grp data" and "group_name grp = [] \<or> IsValidGroupName (group_name grp)"
    and "list_all (\<lambda>i. IsValidInstanceName (instance_name i)) (instances grp)"
  shows "db_ok (data @ [named data grp])"
proof -
  obtain n where n: "GenUniqueGroupName data = Ok n" "n \<notin> group_name ` set data" "IsValidGroupName n" by (rule GenUniqueGroupName_fresh [of data])
  define g where "g = named data grp"
  have g: "home_directory g = home_directory grp" "instances g = instances grp" "group_name g \<notin> group_name ` set data" "IsValidGroupName (group_name g)"
    using n assms(3,4) by (auto simp: g_def named_def may_add_def)
  have "group_ok g" "names_ok g" using assms(2,5) g by (auto simp: group_ok_def names_ok_def list_all_iff)
  then show ?thesis using assms(1-3) g unfolding g_def [symmetric]
    by (simp add: db_ok_def may_add_def group_ok_def Int_commute)
qed

subsection \<open>Calls one after another\<close>

lemma WithExclusiveLock_okD:
  assumes "WithExclusiveLock codec run bytes = Some (Ok r, bytes')"
  obtains d where "run (parse codec bytes) = (Ok r, d)" and "bytes' = serialize codec d"
proof -
  obtain fd where fd: "LoadData codec (opened_at_start bytes) = Some (Ok (parse codec bytes), fd)" using LoadData_bytes by metis
  obtain q d where run: "run (parse codec bytes) = (q, d)" by fastforce
  obtain w fd' where w: "StoreData codec d (opened_at_start []) = (w, fd')" by fastforce
  have "q = Ok r \<and> w = Ok () \<and> bytes' = file_bytes fd'"
    using assms by (cases q; cases w) (auto simp: WithExclusiveLock_def fd run empty_file_eq w)
  then show ?thesis using run w by (intro that [of d]) (auto dest: StoreData_okD)
qed

text \<open>
  The files that successful changes leave, from no file. A group comes from \<^verbatim>\<open>LocalInstanceGroup::Create\<close>; the
  setters of its class and of \<^verbatim>\<open>LocalInstance\<close> change states, the start time and the identifiers of the
  streaming service, so a group that is stored again has the identity it was read with, and the group
  of its name is still the one that was read.
\<close>

inductive db_reach :: "db_codec \<Rightarrow> string \<Rightarrow> bool"
  for codec
where
  created: "db_reach codec []"
| added: "db_reach codec bytes \<Longrightarrow> LocalInstanceGroup_Create grp = Ok grp \<Longrightarrow>
    AddInstanceGroup codec grp bytes = Some (Ok grp', bytes') \<Longrightarrow> db_reach codec bytes'"
| updated: "db_reach codec bytes \<Longrightarrow> \<forall>g\<in>set (parse codec bytes). group_name g = group_name grp \<longrightarrow> same_identity g grp \<Longrightarrow>
    UpdateInstanceGroup codec grp bytes = Some (Ok (), bytes') \<Longrightarrow> db_reach codec bytes'"
| removed: "db_reach codec bytes \<Longrightarrow> RemoveInstanceGroup codec n bytes = Some (Ok r, bytes') \<Longrightarrow> db_reach codec bytes'"
| cleared: "db_reach codec bytes \<Longrightarrow> Clear codec bytes = Some (Ok gs, bytes') \<Longrightarrow> db_reach codec bytes'"

lemma db_reach_ok:
  assumes "db_reach codec bytes" and "\<forall>d. parse codec (serialize codec d) = d" and "parse codec [] = []"
  shows "db_ok (parse codec bytes)"
  using assms(1)
proof induction
  case created
  then show ?case by (simp add: assms(3))
next
  case (added bytes grp grp' bytes')
  have names: "group_name grp = [] \<or> IsValidGroupName (group_name grp)" "list_all (\<lambda>i. IsValidInstanceName (instance_name i)) (instances grp)"
      and w: "WithExclusiveLock codec (add_group grp) bytes = Some (Ok grp', bytes')"
    using added(3) by (auto simp: AddInstanceGroup_def split: if_splits)
  have ok: "group_ok grp" using added(2) by (simp add: Create_iff split: if_splits)
  from w obtain d where d: "add_group grp (parse codec bytes) = (Ok grp', d)" "bytes' = serialize codec d" by (rule WithExclusiveLock_okD)
  then have "may_add grp (parse codec bytes)" "d = parse codec bytes @ [named (parse codec bytes) grp]"
    by (auto simp: add_group_eq [OF added.IH ok] split: if_splits)
  then show ?case using db_ok_add [OF added.IH ok _ names] d(2) assms(2) by simp
next
  case (updated bytes grp bytes')
  from updated(3) obtain d where "update_group grp (parse codec bytes) = (Ok (), d)" "bytes' = serialize codec d"
    unfolding UpdateInstanceGroup_def by (rule WithExclusiveLock_okD)
  then show ?case using db_ok_identity [OF update_group_identity updated.IH] updated(2) assms(2) by simp
next
  case (removed bytes n r bytes')
  from removed(2) obtain d where "remove_group n (parse codec bytes) = (Ok r, d)" "bytes' = serialize codec d"
    unfolding RemoveInstanceGroup_def by (rule WithExclusiveLock_okD)
  then show ?case using db_ok_remove [OF removed.IH] assms(2) by simp
next
  case (cleared bytes gs bytes')
  from cleared(2) obtain d where "clear_groups (parse codec bytes) = (Ok gs, d)" "bytes' = serialize codec d"
    unfolding Clear_def by (rule WithExclusiveLock_okD)
  then show ?case using assms(2) by (auto simp: clear_groups_def)
qed


lemma add_outcome:
  assumes "db_ok (parse codec bytes)" and "group_ok grp" and "storable codec (parse codec bytes @ [named (parse codec bytes) grp])"
  shows "AddInstanceGroup codec grp bytes =
    (if (group_name grp = [] \<or> IsValidGroupName (group_name grp)) \<and> (\<forall>i\<in>set (instances grp). IsValidInstanceName (instance_name i)) \<and>
        may_add grp (parse codec bytes)
     then Some (Ok (named (parse codec bytes) grp), serialize codec (parse codec bytes @ [named (parse codec bytes) grp]))
     else Some (Err Cf_Error, bytes))"
  using WithExclusiveLock_ok [OF _ assms(3), of "add_group grp" bytes] WithExclusiveLock_error [of "add_group grp" codec bytes]
    add_group_eq [OF assms(1,2)]
  by (auto simp: AddInstanceGroup_def list_all_iff)

lemma filter_key: "distinct (map k xs) \<Longrightarrow> x \<in> set xs \<Longrightarrow> filter (\<lambda>y. k y = k x) xs = [x]"
  by (induction xs) (auto simp: filter_empty_conv image_iff)

lemma found_by_name:
  assumes "db_ok (parse codec bytes)" and "g \<in> set (parse codec bytes)"
  shows "FindGroup codec (no_filter\<lparr>filter_group_name := Some (group_name g)\<rparr>) bytes = Some (Ok g)"
proof -
  have "\<forall>g\<in>set (parse codec bytes). group_ok g" "distinct (map group_name (parse codec bytes))" using assms(1) by (auto simp: db_ok_def)
  then show ?thesis using assms(2)
    by (simp add: FindGroup_def FindGroups_def find_groups_ok GroupMatches_name filter_key)
qed

lemma matching_by_id:
  assumes "distinct (all_ids data)" and "g \<in> set data" and "i \<in> set (instances g)"
  shows "matching (no_filter\<lparr>filter_instance_id := Some (instance_id i)\<rparr>) data = [(i, g)]"
  using assms(1,2)
proof (induction data)
  case (Cons h data)
  let ?f = "no_filter\<lparr>filter_instance_id := Some (instance_id i)\<rparr>"
  have m: "GroupMatches x ?f \<longleftrightarrow> instance_id i \<in> instance_id ` set (instances x)" for x
    by (auto simp: GroupMatches_def no_filter_def)
  have e: "InstanceMatches x ?f \<longleftrightarrow> instance_id x = instance_id i" for x by (auto simp: InstanceMatches_def no_filter_def)
  have step: "matching ?f (h # data) = (if GroupMatches h ?f then map (\<lambda>i. (i, h)) (filter (\<lambda>i. InstanceMatches i ?f) (instances h)) else []) @ matching ?f data"
    by (simp add: matching_def)
  show ?case
  proof (cases "instance_id i \<in> instance_id ` set (instances h)")
    case True
    then have "instance_id i \<notin> set (all_ids data)" using Cons.prems(1) by auto
    then have "matching ?f data = []" "g \<notin> set data" using assms(3) by (auto simp: matching_def m filter_empty_conv all_ids_def)
    then show ?thesis using Cons.prems True assms(3) by (simp add: step m e filter_key)
  next
    case False
    then have "g \<in> set data" using Cons.prems(2) assms(3) by auto
    then show ?thesis using Cons.IH Cons.prems(1) False by (simp add: step m)
  qed
qed simp

lemma found_by_id:
  assumes "db_ok (parse codec bytes)" and "g \<in> set (parse codec bytes)" and "i \<in> set (instances g)"
  shows "FindInstanceWithGroup codec (no_filter\<lparr>filter_instance_id := Some (instance_id i)\<rparr>) bytes = Some (Ok (i, g))"
proof -
  have ok: "\<forall>g\<in>set (parse codec bytes). group_ok g" and "distinct (all_ids (parse codec bytes))" using assms(1) by (auto simp: db_ok_def)
  then show ?thesis using matching_by_id [OF _ assms(2,3)]
    by (simp add: FindInstanceWithGroup_def find_instances_ok [OF ok] no_filter_def)
qed

definition one_instance :: "string \<Rightarrow> u32 \<Rightarrow> InstanceGroup" where
  "one_instance n i = \<lparr>group_name = n, home_directory = ''/tmp/'' @ n, host_artifacts_path = [], product_out_path = [], start_time_sec = 0,
     instances = [\<lparr>instance_id = i, instance_name = ''1'', instance_state = INSTANCE_STATE_RUNNING, webrtc_device_id = []\<rparr>]\<rparr>"

lemma length_put_string [simp]: "length (put_string s) = 2 * length s + 1"
  by (induction s) (auto simp: put_string_def)

lemma plain_db_codec_length: "length (serialize plain_db_codec data) = length (put_int (int (length data))) + sum_list (map (length \<circ> put_group) data)"
  by (simp add: plain_db_codec_def put_list_def length_concat comp_def)

lemma one_instance_length: "length (put_group (one_instance n i)) \<le> 4 * length n + 2 * length (to_string (uint i)) + 100"
  by (simp add: put_group_def one_instance_def put_list_def put_instance_def put_int_def all_states_def to_string_def digits_of.simps)

lemmas small_db_length = plain_db_codec_length put_int_def to_string_def digits_of.simps

lemma add_one_instance:
  "LocalInstanceGroup_Create (one_instance ''cvd_1'' 1) = Ok (one_instance ''cvd_1'' 1)"
  "AddInstanceGroup plain_db_codec (one_instance ''cvd_1'' 1) [] =
     Some (Ok (one_instance ''cvd_1'' 1), serialize plain_db_codec [one_instance ''cvd_1'' 1])"
proof -
  let ?g = "one_instance ''cvd_1'' 1"
  show "LocalInstanceGroup_Create ?g = Ok ?g" by code_simp
  have "add_group ?g (parse plain_db_codec []) = (Ok ?g, [?g])" by code_simp
  moreover have "length (serialize plain_db_codec [?g]) \<le> max_size"
    using one_instance_length [of "''cvd_1''" 1] by (simp add: small_db_length)
  ultimately have "WithExclusiveLock plain_db_codec (add_group ?g) [] = Some (Ok ?g, serialize plain_db_codec [?g])"
    by (intro WithExclusiveLock_ok) (simp_all add: storable_def)
  moreover have "IsValidGroupName (group_name ?g)" "list_all (\<lambda>i. IsValidInstanceName (instance_name i)) (instances ?g)" by code_simp+
  ultimately show "AddInstanceGroup plain_db_codec ?g [] = Some (Ok ?g, serialize plain_db_codec [?g])" by (simp add: AddInstanceGroup_def)
qed




subsection \<open>Calls of several processes\<close>

text \<open>
  C35: Two processes that add groups at the same time to the same well-formed database can both succeed, whatever the groups:
  each passes the checks against what the file had when it was read, and the file ends with the
  second's group only. So a group whose addition succeeded can be missing, and even groups with the
  same name, home directory or instance ids are not told apart: \<^verbatim>\<open>WithExclusiveLock\<close> takes a shared lock.
\<close>

theorem concurrent_adds_can_lose_a_group:
  fixes codec :: db_codec
  assumes "db_ok (parse codec bytes)" and "LocalInstanceGroup_Create grp = Ok grp" and "LocalInstanceGroup_Create grp' = Ok grp'"
    and "may_add grp (parse codec bytes)" and "may_add grp' (parse codec bytes)"
    and "storable codec (parse codec bytes @ [named (parse codec bytes) grp])"
    and "storable codec (parse codec bytes @ [named (parse codec bytes) grp'])"
  shows "\<exists>s. (viewer_step exclusive_lock_op codec (\<lambda>p. add_group (if p = 0 then grp else grp')))\<^sup>*\<^sup>* (viewers_start bytes) s \<and>
    phase_of s 0 = Finished (Ok (named (parse codec bytes) grp)) \<and> phase_of s 1 = Finished (Ok (named (parse codec bytes) grp')) \<and>
    parse codec (content s) = parse codec bytes @ [named (parse codec bytes) grp']"
proof -
  let ?d = "parse codec bytes"
  have "group_ok grp" "group_ok grp'" using assms(2,3) by (auto simp: Create_iff split: if_splits)
  then have "add_group grp ?d = (Ok (named ?d grp), ?d @ [named ?d grp])" "add_group grp' ?d = (Ok (named ?d grp'), ?d @ [named ?d grp'])"
    using assms(1,4,5) by (simp_all add: add_group_eq)
  then show ?thesis
    using update_lost [of "\<lambda>p. add_group (if p = 0 then grp else grp')" 0 codec bytes "named ?d grp" "?d @ [named ?d grp]" 1
      "named ?d grp'" "?d @ [named ?d grp']"] assms(6,7) by (simp add: storable_def) metis
qed

theorem concurrent_adds_can_lose_a_group_witness:
  "\<exists>s. (viewer_step exclusive_lock_op plain_db_codec (\<lambda>p. add_group (if p = 0 then one_instance ''cvd_1'' 1 else one_instance ''cvd_2'' 1)))\<^sup>*\<^sup>*
      (viewers_start []) s \<and>
    phase_of s 0 = Finished (Ok (one_instance ''cvd_1'' 1)) \<and> phase_of s 1 = Finished (Ok (one_instance ''cvd_2'' 1)) \<and>
    parse plain_db_codec (content s) = [one_instance ''cvd_2'' 1]"
proof -
  let ?g = "one_instance ''cvd_1'' 1" and ?h = "one_instance ''cvd_2'' 1"
  have "LocalInstanceGroup_Create ?g = Ok ?g" "LocalInstanceGroup_Create ?h = Ok ?h" "may_add ?g []" "may_add ?h []" by code_simp+
  moreover have "length (serialize plain_db_codec [?g]) \<le> max_size" "length (serialize plain_db_codec [?h]) \<le> max_size"
    using one_instance_length [of "''cvd_1''" 1] one_instance_length [of "''cvd_2''" 1] by (simp_all add: small_db_length)
  moreover have "named [] ?g = ?g" "named [] ?h = ?h" by code_simp+
  ultimately show ?thesis using concurrent_adds_can_lose_a_group [of plain_db_codec "[]" ?g ?h] by (simp add: storable_def)
qed

end
