(* ===== verification/Instance_Locks.thy ===== *)
theory Instance_Locks
  imports Instance_Group
begin

section \<open>Lock files of instance ids\<close>

text \<open>
  \<^verbatim>\<open>host/commands/cvd/instances/lock\<close>: every instance id has a lock file; the process that holds a lock on
  it may use the id, and the first byte of the file says whether a device uses it. The state has the
  bytes of the lock files, by id, and the ids whose file is locked by this process and by others. A
  lock belongs to an open file, so a second attempt of the same process meets its own lock.
\<close>

record locks =
  lock_file :: "u32 \<Rightarrow> string option"
  mine :: "u32 set"
  others :: "u32 set"

datatype InUseState = kInUse | kNotInUse

primrec state_char :: "InUseState \<Rightarrow> char" where
  "state_char kInUse = CHR ''I''"
| "state_char kNotInUse = CHR ''N''"

text \<open>Reading and writing the byte, at position zero.\<close>

definition LockFile_Status :: "string \<Rightarrow> InUseState result" where
  "LockFile_Status bytes =
     (let c = (case bytes of [] \<Rightarrow> state_char kNotInUse | c # _ \<Rightarrow> c)
      in if c = state_char kInUse then Ok kInUse
         else if c = state_char kNotInUse then Ok kNotInUse
         else Err Cf_Error)"

definition SetStatus :: "InUseState \<Rightarrow> string \<Rightarrow> string" where
  "SetStatus state bytes = state_char state # drop 1 bytes"

definition lock_bytes :: "u32 \<Rightarrow> locks \<Rightarrow> string" where
  "lock_bytes i ls = (case lock_file ls i of None \<Rightarrow> [] | Some b \<Rightarrow> b)"

definition OpenLockFile :: "u32 \<Rightarrow> locks \<Rightarrow> locks" where
  "OpenLockFile i ls = ls\<lparr>lock_file := (lock_file ls)(i \<mapsto> lock_bytes i ls)\<rparr>"

definition locked :: "u32 \<Rightarrow> locks \<Rightarrow> bool" where
  "locked i ls \<longleftrightarrow> i \<in> mine ls \<union> others ls"

text \<open>\<open>None\<close>: waiting for a lock that is not released.\<close>

definition AcquireLock :: "u32 \<Rightarrow> locks \<Rightarrow> locks option" where
  "AcquireLock i ls = (let ls = OpenLockFile i ls in if locked i ls then None else Some (ls\<lparr>mine := insert i (mine ls)\<rparr>))"

definition TryAcquireLock :: "u32 \<Rightarrow> locks \<Rightarrow> bool \<times> locks" where
  "TryAcquireLock i ls = (let ls = OpenLockFile i ls in if locked i ls then (False, ls) else (True, ls\<lparr>mine := insert i (mine ls)\<rparr>))"

text \<open>The destructor of the last copy.\<close>

definition release :: "u32 \<Rightarrow> locks \<Rightarrow> locks" where
  "release i ls = ls\<lparr>mine := mine ls - {i}\<rparr>"

definition InstanceLock_Status :: "u32 \<Rightarrow> locks \<Rightarrow> InUseState result" where
  "InstanceLock_Status i ls = LockFile_Status (lock_bytes i ls)"

definition InstanceLock_SetStatus :: "InUseState \<Rightarrow> u32 \<Rightarrow> locks \<Rightarrow> locks" where
  "InstanceLock_SetStatus state i ls = ls\<lparr>lock_file := (lock_file ls)(i \<mapsto> SetStatus state (lock_bytes i ls))\<rparr>"

text \<open>The loop has no bound; the counter is \<^verbatim>\<open>unsigned\<close>.\<close>

partial_function (option) AcquireUnusedLock_from :: "u32 \<Rightarrow> locks \<Rightarrow> (u32 result \<times> locks) option" where
  "AcquireUnusedLock_from i ls =
     (case TryAcquireLock i ls of
        (acquired, ls) \<Rightarrow>
          if \<not> acquired then AcquireUnusedLock_from (i + 1) ls
          else (case InstanceLock_Status i ls of
                  Inl e \<Rightarrow> Some (Inl e, release i ls)
                | Inr s \<Rightarrow> if s = kNotInUse then Some (Ok i, ls) else AcquireUnusedLock_from (i + 1) (release i ls)))"

definition AcquireUnusedLock :: "locks \<Rightarrow> (u32 result \<times> locks) option" where
  "AcquireUnusedLock ls = AcquireUnusedLock_from 1 ls"

text \<open>
  Removing unlinks the file. A lock that another process holds is on the file without a name from then on,
  so the id can be locked again.
\<close>

definition RemoveLockFile :: "u32 \<Rightarrow> locks \<Rightarrow> unit result \<times> locks" where
  "RemoveLockFile i ls =
     (if lock_file ls i = None then (Err Cf_Error, ls)
      else (Ok (), ls\<lparr>lock_file := (lock_file ls)(i := None), mine := mine ls - {i}, others := others ls - {i}\<rparr>))"

subsection \<open>Choosing an unused id\<close>

definition lock_ok :: "locks \<Rightarrow> bool" where
  "lock_ok ls \<longleftrightarrow> (\<forall>i b. lock_file ls i = Some b \<longrightarrow> b = [] \<or> hd b \<in> {CHR ''I'', CHR ''N''})"

definition in_use :: "u32 \<Rightarrow> locks \<Rightarrow> bool" where
  "in_use i ls \<longleftrightarrow> take 1 (lock_bytes i ls) = ''I''"

definition free_id :: "u32 \<Rightarrow> locks \<Rightarrow> bool" where
  "free_id i ls \<longleftrightarrow> \<not> locked i ls \<and> \<not> in_use i ls"

text \<open>Lock files that were opened exist; nothing else changes.\<close>

definition opened_ids :: "u32 set \<Rightarrow> locks \<Rightarrow> locks" where
  "opened_ids I ls = ls\<lparr>lock_file := (\<lambda>i. if i \<in> I then Some (lock_bytes i ls) else lock_file ls i)\<rparr>"

lemma lock_bytes_opened [simp]: "lock_bytes i (opened_ids I ls) = lock_bytes i ls"
  by (simp add: opened_ids_def lock_bytes_def)

lemma lock_bytes_mine [simp]: "lock_bytes i (ls\<lparr>mine := m\<rparr>) = lock_bytes i ls"
  by (simp add: lock_bytes_def)

lemma opened_opened [simp]: "opened_ids I (opened_ids J ls) = opened_ids (I \<union> J) ls"
  by (cases ls) (auto simp: opened_ids_def lock_bytes_def fun_eq_iff)

lemma opened_ids_fields [simp]: "mine (opened_ids I ls) = mine ls" "others (opened_ids I ls) = others ls" "locked i (opened_ids I ls) = locked i ls"
  by (auto simp: opened_ids_def locked_def)

lemma OpenLockFile_eq: "OpenLockFile i ls = opened_ids {i} ls"
  by (cases ls) (auto simp: OpenLockFile_def opened_ids_def lock_bytes_def fun_eq_iff)

lemma Status_eq:
  assumes "lock_ok ls"
  shows "InstanceLock_Status i ls = Ok (if in_use i ls then kInUse else kNotInUse)"
proof (cases "lock_bytes i ls")
  case (Cons c b)
  then have "c \<in> {CHR ''I'', CHR ''N''}"
    using assms [unfolded lock_ok_def, rule_format, of i "c # b"] by (simp add: lock_bytes_def split: option.splits)
  then show ?thesis using Cons by (auto simp: InstanceLock_Status_def LockFile_Status_def in_use_def)
qed (simp add: InstanceLock_Status_def LockFile_Status_def in_use_def)

lemma lock_ok_opened [simp]: "lock_ok (opened_ids I ls) = lock_ok ls"
  by (auto simp: lock_ok_def opened_ids_def lock_bytes_def split: option.splits)

lemma lock_ok_mine [simp]: "lock_ok (ls\<lparr>mine := m\<rparr>) = lock_ok ls"
  by (simp add: lock_ok_def)

lemma in_use_simps [simp]: "in_use i (opened_ids I ls) = in_use i ls" "in_use i (ls\<lparr>mine := m\<rparr>) = in_use i ls"
  by (simp_all add: in_use_def)

text \<open>One turn of the loop.\<close>

lemma AcquireUnusedLock_step:
  assumes "lock_ok ls"
  shows "AcquireUnusedLock_from i ls =
    (if free_id i ls then Some (Ok i, (opened_ids {i} ls)\<lparr>mine := insert i (mine ls)\<rparr>)
     else AcquireUnusedLock_from (i + 1) (opened_ids {i} ls))"
proof (cases "locked i ls")
  case True
  then show ?thesis by (subst AcquireUnusedLock_from.simps) (simp add: TryAcquireLock_def OpenLockFile_eq free_id_def)
next
  case False
  have s: "InstanceLock_Status i ((opened_ids {i} ls)\<lparr>mine := insert i (mine ls)\<rparr>) = Ok (if in_use i ls then kInUse else kNotInUse)"
    using assms by (subst Status_eq) simp_all
  have r: "release i ((opened_ids {i} ls)\<lparr>mine := insert i (mine ls)\<rparr>) = opened_ids {i} ls"
    using False by (simp add: release_def locked_def)
  show ?thesis using False s r
    by (subst AcquireUnusedLock_from.simps) (simp add: TryAcquireLock_def OpenLockFile_eq free_id_def)
qed

lemma AcquireUnusedLock_first:
  assumes "lock_ok ls" and "free_id (i + of_nat n) ls" and "\<forall>m<n. \<not> free_id (i + of_nat m) ls"
  shows "AcquireUnusedLock_from i ls =
    Some (Ok (i + of_nat n), (opened_ids ((\<lambda>m. i + of_nat m) ` {..n}) ls)\<lparr>mine := insert (i + of_nat n) (mine ls)\<rparr>)"
  using assms
proof (induction n arbitrary: i ls)
  case 0
  then show ?case by (simp add: AcquireUnusedLock_step)
next
  case (Suc n)
  let ?ls = "opened_ids {i} ls"
  have free: "free_id j ?ls = free_id j ls" for j by (simp add: free_id_def)
  have shift: "i + 1 + of_nat m = i + of_nat (Suc m)" for m by (simp add: algebra_simps)
  have "AcquireUnusedLock_from i ls = AcquireUnusedLock_from (i + 1) ?ls"
    using Suc.prems(1,3) by (subst AcquireUnusedLock_step) (auto dest: spec [of _ 0])
  also have "\<dots> = Some (Ok (i + 1 + of_nat n), (opened_ids ((\<lambda>m. i + 1 + of_nat m) ` {..n}) ?ls)\<lparr>mine := insert (i + 1 + of_nat n) (mine ?ls)\<rparr>)"
    using Suc.prems by (intro Suc.IH) (auto simp: free shift simp del: of_nat_Suc)
  finally have "AcquireUnusedLock_from i ls = \<dots>" .
  moreover have "(\<lambda>m. i + 1 + of_nat m) ` {..n} \<union> {i} = (\<lambda>m. i + of_nat m) ` {..Suc n}"
    unfolding shift by (auto simp: atMost_Suc_eq_insert_0 image_image simp del: of_nat_Suc)
  ultimately show ?case by (simp add: shift del: of_nat_Suc)
qed

lemma unat_id_of_count: "m + 1 < 2 ^ 32 \<Longrightarrow> unat (1 + of_nat m :: u32) = m + 1"
  using unat_of_nat [of "m + 1", where 'a = 32] by simp

lemma id_of_count: "k \<noteq> 0 \<Longrightarrow> 1 + of_nat (unat k - Suc 0) = (k :: u32)"
proof -
  assume "k \<noteq> 0"
  then have "(of_nat (unat k - 1 + 1) :: u32) = k" by (simp add: unat_gt_0 Suc_leI)
  then show ?thesis by simp
qed

lemma unat_u32: "unat (k :: u32) < 2 ^ 32"
  by (rule order_less_le_trans [OF unsigned_less]) simp

lemma AcquireUnusedLock_least:
  assumes "lock_ok ls" and "free_id j ls" and "j \<noteq> 0"
  obtains n where "n + 1 < 2 ^ 32" and "free_id (1 + of_nat n) ls" and "\<forall>m<n. \<not> free_id (1 + of_nat m) ls"
    and "AcquireUnusedLock ls = Some (Ok (1 + of_nat n), (opened_ids ((\<lambda>m. 1 + of_nat m) ` {..n}) ls)\<lparr>mine := insert (1 + of_nat n) (mine ls)\<rparr>)"
proof -
  let ?P = "\<lambda>n. free_id (1 + of_nat n) ls"
  define n where "n = (LEAST n. ?P n)"
  have j: "?P (unat j - 1)" using assms(2,3) by (simp add: id_of_count)
  have least: "\<forall>m<n. \<not> ?P m" using not_less_Least [of _ ?P] by (simp add: n_def)
  have free: "?P n" unfolding n_def by (rule LeastI [of ?P, OF j])
  have "n \<le> unat j - 1" unfolding n_def by (rule Least_le) (rule j)
  moreover have "0 < unat j" using assms(3) by (simp add: unat_gt_0)
  ultimately have "n + 1 < 2 ^ 32" using unat_u32 [of j] by linarith
  then show ?thesis using that [OF _ free least] AcquireUnusedLock_first [OF assms(1) free least] unfolding AcquireUnusedLock_def by blast
qed

text \<open>
  C18: When an id other than zero is free, that is, neither locked nor marked as in use, the search for an
  unused id returns with the least such id, locked by this process; no other lock changes, and no
  mark. The id is at most one more than the number of ids that are locked or in use.
\<close>

theorem unused_id_is_least:
  assumes "lock_ok ls" and "free_id j ls" and "j \<noteq> 0"
  shows "\<exists>i ls'. AcquireUnusedLock ls = Some (Ok i, ls') \<and> i \<noteq> 0 \<and> free_id i ls \<and> {k. 0 < k \<and> k < i \<and> free_id k ls} = {} \<and>
    unat i \<le> card {k. k \<noteq> 0 \<and> \<not> free_id k ls} + 1 \<and>
    mine ls' = insert i (mine ls) \<and> others ls' = others ls \<and> lock_ok ls' \<and> (\<lambda>k. lock_bytes k ls') = (\<lambda>k. lock_bytes k ls)"
proof -
  let ?id = "\<lambda>n. 1 + of_nat n :: u32" and ?busy = "{k. k \<noteq> 0 \<and> \<not> free_id k ls}"
  obtain n where n32: "n + 1 < 2 ^ 32" and free: "free_id (?id n) ls" and least: "\<forall>m<n. \<not> free_id (?id m) ls"
      and run: "AcquireUnusedLock ls = Some (Ok (?id n), (opened_ids (?id ` {..n}) ls)\<lparr>mine := insert (?id n) (mine ls)\<rparr>)"
    by (rule AcquireUnusedLock_least [OF assms])
  have un: "unat (?id m) = m + 1" if "m \<le> n" for m using that n32 by (intro unat_id_of_count) linarith
  have below: False if "0 < k" "k < ?id n" "free_id k ls" for k
  proof -
    have "0 < unat k" "unat k < n + 1" using that(1,2) un [of n] by (simp_all add: word_less_nat_alt unat_gt_0)
    then have "unat k - 1 < n" by linarith
    then show False using least [rule_format, of "unat k - 1"] that(1,3) by (simp add: id_of_count)
  qed
  have "inj_on ?id {..<n}" by (rule inj_onI) (metis un add_right_cancel lessThan_iff less_imp_le)
  moreover have "?id ` {..<n} \<subseteq> ?busy"
    using least un by (auto simp: unat_gt_0 [symmetric] dest: less_imp_le)
  ultimately have "n \<le> card ?busy" using card_mono [of ?busy "?id ` {..<n}"] by (simp add: card_image)
  then have "unat (?id n) \<le> card ?busy + 1" using un [of n] by simp
  moreover have "?id n \<noteq> 0" using un [of n] by (metis unat_0 add_is_0 one_neq_zero order_refl)
  ultimately show ?thesis using run below free assms(1)
    by (intro exI [of _ "?id n"] exI [of _ "(opened_ids (?id ` {..n}) ls)\<lparr>mine := insert (?id n) (mine ls)\<rparr>"]) (auto simp: fun_eq_iff)
qed

definition some_locks :: locks where
  "some_locks = \<lparr>lock_file = [1 \<mapsto> ''I'', 2 \<mapsto> ''''], mine = {}, others = {2}\<rparr>"

theorem unused_id_is_least_witness:
  "free_id 3 some_locks \<and> (\<exists>i ls'. AcquireUnusedLock some_locks = Some (Ok i, ls') \<and> i \<noteq> 0 \<and> free_id i some_locks \<and> mine ls' = {i})"
proof -
  have ok: "lock_ok some_locks" by (auto simp: lock_ok_def some_locks_def split: if_splits)
  have free: "free_id 3 some_locks" by (simp add: free_id_def locked_def in_use_def lock_bytes_def some_locks_def)
  show ?thesis using free unused_id_is_least [OF ok free] by (auto simp: some_locks_def)
qed

end
