(* ===== verification/Instance_Manager.thy ===== *)
theory Instance_Manager
  imports Instance_Database Instance_Locks
begin

section \<open>Creating and removing groups\<close>

text \<open>
  \<^verbatim>\<open>host/commands/cvd/instances/instance_manager.cpp\<close>: the manager puts the lock files, the database and the
  directories of groups together. The functions on directories are a record; so are the program that
  stops devices and the search for it, whose effect is on running machines and on directories. \<open>None\<close> is waiting
  for a lock that is not released.
\<close>

record 'd dir_ops =
  DirectoryExists :: "string \<Rightarrow> 'd \<Rightarrow> bool"
  Symlink :: "string \<Rightarrow> string \<Rightarrow> 'd \<Rightarrow> unit result \<times> 'd"
  EnsureDirectoryExists :: "string \<Rightarrow> 'd \<Rightarrow> unit result \<times> 'd"
  RecursivelyRemoveDirectory :: "string \<Rightarrow> 'd \<Rightarrow> unit result \<times> 'd"
  RemoveFile :: "string \<Rightarrow> 'd \<Rightarrow> unit result \<times> 'd"
  StopBin :: "string \<Rightarrow> 'd \<Rightarrow> string result"
  RunStopCvd :: "string \<Rightarrow> string \<Rightarrow> int \<Rightarrow> bool \<Rightarrow> 'd \<Rightarrow> unit result \<times> 'd"

record 'd manager_env =
  db_encoding :: db_codec
  dir_funs :: "'d dir_ops"
  PerUserDir :: string
  now :: int

record 'd manager =
  lock_files :: locks
  db :: string
  dirs :: 'd

record InstanceParams =
  params_id :: "u32 option"
  params_name :: "string option"

record GroupDirectories =
  base_directory :: "string option"
  home :: "string option"
  host_artifacts :: "string option"
  product_out_paths :: "string option list"

subsection \<open>Directories\<close>

definition and_then :: "('d \<Rightarrow> unit result \<times> 'd) \<Rightarrow> ('d \<Rightarrow> unit result \<times> 'd) \<Rightarrow> 'd \<Rightarrow> unit result \<times> 'd" where
  "and_then a b d = (case a d of (Inl e, d) \<Rightarrow> (Inl e, d) | (Inr _, d) \<Rightarrow> b d)"

definition LinkOrMakeDir :: "'d dir_ops \<Rightarrow> string option \<Rightarrow> string \<Rightarrow> 'd \<Rightarrow> unit result \<times> 'd" where
  "LinkOrMakeDir ops target path d =
     (case target of
        Some t \<Rightarrow> if \<not> DirectoryExists ops t d then (Err Cf_Error, d) else Symlink ops t path d
      | None \<Rightarrow> EnsureDirectoryExists ops path d)"

fun link_products :: "'d dir_ops \<Rightarrow> InstanceGroup \<Rightarrow> nat \<Rightarrow> string option list \<Rightarrow> 'd \<Rightarrow> unit result \<times> 'd" where
  "link_products ops g i [] d = (Ok (), d)"
| "link_products ops g i (p # ps) d = and_then (LinkOrMakeDir ops p (ProductDir i g)) (link_products ops g (i + 1) ps) d"

definition CreateOrLinkGroupDirectories :: "'d dir_ops \<Rightarrow> InstanceGroup \<Rightarrow> GroupDirectories \<Rightarrow> 'd \<Rightarrow> unit result \<times> 'd" where
  "CreateOrLinkGroupDirectories ops g ds =
     and_then (LinkOrMakeDir ops (base_directory ds) (BaseDir g))
    (and_then (LinkOrMakeDir ops (home ds) (home_directory g))
    (and_then (EnsureDirectoryExists ops (ArtifactsDir g))
    (and_then (LinkOrMakeDir ops (host_artifacts ds) (host_artifacts_path g))
       (link_products ops g 0 (product_out_paths ds)))))"

definition GroupDirFromHome :: "string \<Rightarrow> string result" where
  "GroupDirFromHome dir =
     (let dir = rev (dropWhile (\<lambda>c. c = CHR ''/'') (rev dir))
      in if drop (length dir - 5) dir = ''/home'' then Ok (take (length dir - 5) dir) else Err Cf_Error)"

definition RemoveGroupDirectory :: "'d manager_env \<Rightarrow> InstanceGroup \<Rightarrow> 'd \<Rightarrow> unit result \<times> 'd" where
  "RemoveGroupDirectory env g d =
     (if take (length (PerUserDir env)) (home_directory g) \<noteq> PerUserDir env then (Ok (), d)
      else case GroupDirFromHome (home_directory g) of
             Inl e \<Rightarrow> (Inl e, d)
           | Inr dir \<Rightarrow> if DirectoryExists (dir_funs env) dir d then RecursivelyRemoveDirectory (dir_funs env) dir d else (Ok (), d))"

subsection \<open>Instance ids\<close>

fun acquire_requested :: "InstanceParams list \<Rightarrow> u32 list \<Rightarrow> locks \<Rightarrow> (unit result \<times> locks) option" where
  "acquire_requested [] requested ls = Some (Ok (), ls)"
| "acquire_requested (p # ps) requested ls =
     (case params_id p of
        None \<Rightarrow> acquire_requested ps requested ls
      | Some i \<Rightarrow>
          if i \<in> set requested then Some (Err Cf_Error, ls)
          else case AcquireLock i ls of
                 None \<Rightarrow> None
               | Some ls \<Rightarrow> acquire_requested ps (i # requested) ls)"

fun allocate :: "InstanceParams list \<Rightarrow> locks \<Rightarrow> ((u32 \<times> string option) list result \<times> locks) option" where
  "allocate [] ls = Some (Ok [], ls)"
| "allocate (p # ps) ls =
     (case (case params_id p of Some i \<Rightarrow> Some (Ok i, ls) | None \<Rightarrow> AcquireUnusedLock ls) of
        None \<Rightarrow> None
      | Some (Inl e, ls) \<Rightarrow> Some (Inl e, ls)
      | Some (Inr i, ls) \<Rightarrow>
          (case allocate ps ls of
             None \<Rightarrow> None
           | Some (Inl e, ls) \<Rightarrow> Some (Inl e, ls)
           | Some (Inr descs, ls) \<Rightarrow> Some (Ok ((i, params_name p) # descs), ls)))"

definition AllocateAndLockInstanceIds :: "InstanceParams list \<Rightarrow> locks \<Rightarrow> ((u32 \<times> string option) list result \<times> locks) option" where
  "AllocateAndLockInstanceIds ps ls =
     (case acquire_requested ps [] ls of
        None \<Rightarrow> None
      | Some (Inl e, ls) \<Rightarrow> Some (Inl e, ls)
      | Some (Inr _, ls) \<Rightarrow> allocate ps ls)"

subsection \<open>Operations\<close>

definition add_desc :: "u32 \<times> string option \<Rightarrow> Builder \<Rightarrow> Builder" where
  "add_desc desc b = (case snd desc of Some n \<Rightarrow> AddInstance_named (fst desc) n b | None \<Rightarrow> AddInstance (fst desc) b)"

text \<open>Locks that were taken in a call are released when it returns.\<close>

definition returning :: "locks \<Rightarrow> 'r result \<times> 'd manager \<Rightarrow> ('r result \<times> 'd manager) option" where
  "returning before r = Some (fst r, (snd r)\<lparr>lock_files := (lock_files (snd r))\<lparr>mine := mine before\<rparr>\<rparr>)"

definition CreateInstanceGroup ::
  "'d manager_env \<Rightarrow> string \<Rightarrow> InstanceParams list \<Rightarrow> GroupDirectories \<Rightarrow> 'd manager \<Rightarrow> (InstanceGroup result \<times> 'd manager) option" where
  "CreateInstanceGroup env gname ps ds m =
     (if length ps \<noteq> length (product_out_paths ds) then Some (Err Cf_Error, m)
      else case AllocateAndLockInstanceIds ps (lock_files m) of
             None \<Rightarrow> None
           | Some (Inl e, ls) \<Rightarrow> returning (lock_files m) (Inl e, m\<lparr>lock_files := ls\<rparr>)
           | Some (Inr descs, ls) \<Rightarrow>
               (case Build_group (fold add_desc descs (new_group_builder (DefaultBaseDir (PerUserDir env) (now env)) gname)) of
                  Inl e \<Rightarrow> returning (lock_files m) (Inl e, m\<lparr>lock_files := ls\<rparr>)
                | Inr grp \<Rightarrow>
                    (case CreateOrLinkGroupDirectories (dir_funs env) grp ds (dirs m) of
                       (Inl e, d) \<Rightarrow> returning (lock_files m) (Inl e, m\<lparr>lock_files := ls, dirs := d\<rparr>)
                     | (Inr _, d) \<Rightarrow>
                         (case AddInstanceGroup (db_encoding env) grp (db m) of
                            None \<Rightarrow> None
                          | Some (Inl e, bytes) \<Rightarrow> returning (lock_files m) (Inl e, m\<lparr>lock_files := ls, db := bytes, dirs := d\<rparr>)
                          | Some (Inr grp, bytes) \<Rightarrow>
                              returning (lock_files m)
                                (Ok grp, m\<lparr>lock_files := fold (InstanceLock_SetStatus kInUse) (map fst descs) ls, db := bytes, dirs := d\<rparr>)))))"

definition remove_lock :: "Instance \<Rightarrow> locks \<Rightarrow> locks" where
  "remove_lock i ls = (if instance_id i = 0 then ls else snd (RemoveLockFile (instance_id i) ls))"

definition RemoveInstanceGroup_all :: "'d manager_env \<Rightarrow> InstanceGroup \<Rightarrow> 'd manager \<Rightarrow> (bool result \<times> 'd manager) option" where
  "RemoveInstanceGroup_all env grp m =
     (if HasActiveInstances grp then Some (Err Cf_Error, m)
      else let m = m\<lparr>lock_files := fold remove_lock (instances grp) (lock_files m)\<rparr>
           in case RemoveGroupDirectory env grp (dirs m) of
                (Inl e, d) \<Rightarrow> Some (Inl e, m\<lparr>dirs := d\<rparr>)
              | (Inr _, d) \<Rightarrow>
                  map_option (\<lambda>(r, bytes). (r, m\<lparr>dirs := d, db := bytes\<rparr>)) (RemoveInstanceGroup (db_encoding env) (group_name grp) (db m)))"

definition StopInstanceGroup :: "'d manager_env \<Rightarrow> int option \<Rightarrow> bool \<Rightarrow> InstanceGroup \<Rightarrow> 'd manager \<Rightarrow> (unit result \<times> InstanceGroup \<times> 'd manager) option" where
  "StopInstanceGroup env launcher_timeout clear_dirs grp m =
     (case StopBin (dir_funs env) (host_artifacts_path grp) (dirs m) of
        Inl e \<Rightarrow> Some (Inl e, grp, m)
      | Inr bin \<Rightarrow>
          (let d = snd (RunStopCvd (dir_funs env) (host_artifacts_path grp @ ''/bin/'' @ bin) (home_directory grp)
                     (case launcher_timeout of None \<Rightarrow> 0 | Some t \<Rightarrow> t) clear_dirs (dirs m));
               grp = SetAllStates INSTANCE_STATE_STOPPED grp
           in map_option (\<lambda>(_, bytes). (Ok (), grp, m\<lparr>dirs := d, db := bytes\<rparr>)) (UpdateInstanceGroup (db_encoding env) grp (db m))))"

text \<open>The name of the configuration file is put after the home directory without a slash.\<close>

definition clear_group :: "'d manager_env \<Rightarrow> InstanceGroup \<Rightarrow> 'd manager \<Rightarrow> 'd manager option" where
  "clear_group env grp m =
     map_option
       (\<lambda>m. let m = m\<lparr>lock_files := fold remove_lock (instances grp) (lock_files m)\<rparr>;
                d = snd (RemoveFile (dir_funs env) (home_directory grp @ ''/cuttlefish_runtime'') (dirs m));
                d = snd (RemoveFile (dir_funs env) (home_directory grp @ ''.cuttlefish_config.json'') d)
            in m\<lparr>dirs := snd (RemoveGroupDirectory env grp d)\<rparr>)
       (if HasActiveInstances grp then map_option (\<lambda>(_, _, m). m) (StopInstanceGroup env (Some 5) True grp m) else Some m)"

fun clear_each :: "'d manager_env \<Rightarrow> InstanceGroup list \<Rightarrow> 'd manager \<Rightarrow> 'd manager option" where
  "clear_each env [] m = Some m"
| "clear_each env (g # gs) m = (case clear_group env g m of None \<Rightarrow> None | Some m \<Rightarrow> clear_each env gs m)"

definition Clear_all :: "'d manager_env \<Rightarrow> 'd manager \<Rightarrow> (unit result \<times> 'd manager) option" where
  "Clear_all env m =
     (case Clear (db_encoding env) (db m) of
        None \<Rightarrow> None
      | Some (Inl e, bytes) \<Rightarrow> Some (Inl e, m\<lparr>db := bytes\<rparr>)
      | Some (Inr groups, bytes) \<Rightarrow> map_option (\<lambda>m. (Ok (), m)) (clear_each env groups (m\<lparr>db := bytes\<rparr>)))"

definition HasInstanceGroups :: "'d manager_env \<Rightarrow> 'd manager \<Rightarrow> bool result option" where
  "HasInstanceGroups env m = map_option (map_sum id Not) (IsEmpty (db_encoding env) (db m))"

subsection \<open>Allocation of ids\<close>

definition requested :: "InstanceParams list \<Rightarrow> u32 list" where
  "requested ps = concat (map (\<lambda>p. case params_id p of None \<Rightarrow> [] | Some i \<Rightarrow> [i]) ps)"

definition unrequested :: "InstanceParams list \<Rightarrow> nat" where
  "unrequested ps = length (filter (\<lambda>p. params_id p = None) ps)"

lemma requested_simps [simp]:
  "requested [] = []"
  "requested (p # ps) = (case params_id p of None \<Rightarrow> requested ps | Some i \<Rightarrow> i # requested ps)"
  "unrequested [] = 0"
  "unrequested (p # ps) = (case params_id p of None \<Rightarrow> Suc (unrequested ps) | Some i \<Rightarrow> unrequested ps)"
  by (auto simp: requested_def unrequested_def split: option.splits)

lemma opened_mine: "opened_ids I (ls\<lparr>mine := M\<rparr>) = (opened_ids I ls)\<lparr>mine := M\<rparr>"
  by (cases ls) (simp add: opened_ids_def lock_bytes_def fun_eq_iff)

lemma locked_mine: "locked i (ls\<lparr>mine := M\<rparr>) \<longleftrightarrow> i \<in> M \<or> i \<in> others ls"
  by (simp add: locked_def)

lemma acquire_requested_ok:
  assumes "distinct (requested ps)" and "set R \<inter> set (requested ps) = {}" and "\<forall>i\<in>set (requested ps). \<not> locked i ls"
  shows "acquire_requested ps R ls = Some (Ok (), (opened_ids (set (requested ps)) ls)\<lparr>mine := mine ls \<union> set (requested ps)\<rparr>)"
  using assms
proof (induction ps arbitrary: R ls)
  case Nil
  then show ?case by (simp add: opened_ids_def)
next
  case (Cons p ps)
  show ?case
  proof (cases "params_id p")
    case None
    then show ?thesis using Cons by simp
  next
    case (Some i)
    let ?ls = "(opened_ids {i} ls)\<lparr>mine := insert i (mine ls)\<rparr>"
    have "AcquireLock i ls = Some ?ls" using Cons.prems(3) Some by (simp add: AcquireLock_def OpenLockFile_eq)
    moreover have "acquire_requested ps (i # R) ?ls = Some (Ok (), (opened_ids (set (requested ps)) ?ls)\<lparr>mine := mine ?ls \<union> set (requested ps)\<rparr>)"
      using Cons.prems Some by (intro Cons.IH) (auto simp: locked_mine locked_def)
    ultimately show ?thesis using Cons.prems(2) Some by (simp add: opened_mine)
  qed
qed

text \<open>An acquired id is no longer free; everything else stays.\<close>

definition extends :: "u32 set \<Rightarrow> locks \<Rightarrow> locks \<Rightarrow> bool" where
  "extends I ls ls' \<longleftrightarrow> mine ls' = mine ls \<union> I \<and> others ls' = others ls \<and> (\<forall>k. lock_bytes k ls' = lock_bytes k ls) \<and> lock_ok ls'"

lemma extends_free: "extends I ls ls' \<Longrightarrow> free_id k ls' \<longleftrightarrow> free_id k ls \<and> k \<notin> I"
  by (auto simp: extends_def free_id_def locked_def in_use_def)

lemma extends_trans: "extends I ls ls' \<Longrightarrow> extends J ls' ls'' \<Longrightarrow> extends (I \<union> J) ls ls''"
  by (auto simp: extends_def)

lemma AcquireUnusedLock_extends:
  assumes "lock_ok ls" and "free_id j ls" and "j \<noteq> 0"
  obtains i ls' where "AcquireUnusedLock ls = Some (Ok i, ls')" and "i \<noteq> 0" and "free_id i ls" and "extends {i} ls ls'"
proof -
  obtain n where n: "n + 1 < 2 ^ 32" "free_id (1 + of_nat n) ls"
      and run: "AcquireUnusedLock ls = Some (Ok (1 + of_nat n), (opened_ids ((\<lambda>m. 1 + of_nat m) ` {..n}) ls)\<lparr>mine := insert (1 + of_nat n) (mine ls)\<rparr>)"
    by (rule AcquireUnusedLock_least [OF assms])
  have "(1 + of_nat n :: u32) \<noteq> 0" using unat_id_of_count [OF n(1)] by (metis unat_0 add_is_0 one_neq_zero)
  then show ?thesis using assms(1) by (intro that [OF run _ n(2)]) (auto simp: extends_def)
qed

lemma requested_member: "p \<in> set ps \<Longrightarrow> params_id p = Some i \<Longrightarrow> i \<in> set (requested ps)"
  by (force simp: requested_def)

lemma list_all2_set2: "list_all2 P xs ys \<Longrightarrow> y \<in> set ys \<Longrightarrow> \<exists>x\<in>set xs. P x y"
  by (metis in_set_conv_nth list_all2_conv_all_nth)

lemma allocate_ok:
  assumes "lock_ok ls" and "unrequested ps \<le> card {j. j \<noteq> 0 \<and> free_id j ls}" and "distinct (requested ps)" and "set (requested ps) \<subseteq> mine ls"
  shows "\<exists>descs ls'. allocate ps ls = Some (Ok descs, ls') \<and> extends (fst ` set descs) ls ls' \<and> distinct (map fst descs) \<and>
    list_all2 (\<lambda>p d. snd d = params_name p \<and> (case params_id p of Some i \<Rightarrow> fst d = i | None \<Rightarrow> fst d \<noteq> 0 \<and> free_id (fst d) ls)) ps descs"
  using assms
proof (induction ps arbitrary: ls)
  case Nil
  then show ?case by (simp add: extends_def)
next
  case (Cons p ps)
  have "\<exists>i ls1. (case params_id p of Some i \<Rightarrow> Some (Ok i, ls) | None \<Rightarrow> AcquireUnusedLock ls) = Some (Ok i, ls1) \<and> extends {i} ls ls1 \<and>
      (case params_id p of Some r \<Rightarrow> i = r | None \<Rightarrow> i \<noteq> 0 \<and> free_id i ls)"
  proof (cases "params_id p")
    case None
    then have "0 < card {j. j \<noteq> 0 \<and> free_id j ls}" using Cons.prems(2) by simp
    then have "{j. j \<noteq> 0 \<and> free_id j ls} \<noteq> {}" unfolding card_gt_0_iff by blast
    then obtain j where "free_id j ls" "j \<noteq> 0" by blast
    then obtain i ls1 where "AcquireUnusedLock ls = Some (Ok i, ls1)" "i \<noteq> 0" "free_id i ls" "extends {i} ls ls1"
      using AcquireUnusedLock_extends [OF Cons.prems(1)] by blast
    then show ?thesis using None by auto
  next
    case (Some r)
    then show ?thesis using Cons.prems(1,4) by (auto simp: extends_def)
  qed
  then obtain i ls1 where first: "(case params_id p of Some i \<Rightarrow> Some (Ok i, ls) | None \<Rightarrow> AcquireUnusedLock ls) = Some (Ok i, ls1)"
      and ext: "extends {i} ls ls1" and i: "case params_id p of Some r \<Rightarrow> i = r | None \<Rightarrow> i \<noteq> 0 \<and> free_id i ls" by blast
  have "unrequested ps \<le> card {j. j \<noteq> 0 \<and> free_id j ls1}"
  proof -
    have "{j. j \<noteq> 0 \<and> free_id j ls1} = {j. j \<noteq> 0 \<and> free_id j ls} - {i}" using extends_free [OF ext] by auto
    moreover have "\<not> free_id i ls" if "params_id p = Some i" using Cons.prems(4) that by (simp add: free_id_def locked_def)
    ultimately show ?thesis using Cons.prems(2) i by (auto split: option.splits)
  qed
  moreover have "distinct (requested ps)" "set (requested ps) \<subseteq> mine ls1" "lock_ok ls1"
    using Cons.prems(3,4) ext by (auto simp: extends_def split: option.splits)
  ultimately obtain descs ls2 where rest: "allocate ps ls1 = Some (Ok descs, ls2)" "extends (fst ` set descs) ls1 ls2" "distinct (map fst descs)"
      and ids: "list_all2 (\<lambda>p d. snd d = params_name p \<and> (case params_id p of Some i \<Rightarrow> fst d = i | None \<Rightarrow> fst d \<noteq> 0 \<and> free_id (fst d) ls1)) ps descs"
    using Cons.IH [of ls1] by blast
  have "i \<noteq> fst d" if d: "d \<in> set descs" for d
  proof -
    obtain q where q: "q \<in> set ps" "case params_id q of Some r \<Rightarrow> fst d = r | None \<Rightarrow> fst d \<noteq> 0 \<and> free_id (fst d) ls1"
      using list_all2_set2 [OF ids d] by blast
    show ?thesis
    proof (cases "params_id q")
      case None
      then show ?thesis using q(2) extends_free [OF ext, of "fst d"] by auto
    next
      case (Some r)
      then have "fst d \<in> set (requested ps)" using q by (simp add: requested_member)
      then show ?thesis using Cons.prems(3,4) i by (auto simp: free_id_def locked_def split: option.splits)
    qed
  qed
  then have "i \<notin> fst ` set descs" by blast
  moreover have "list_all2 (\<lambda>p d. snd d = params_name p \<and> (case params_id p of Some i \<Rightarrow> fst d = i | None \<Rightarrow> fst d \<noteq> 0 \<and> free_id (fst d) ls)) ps descs"
    using ids by (rule list_all2_mono) (auto simp: extends_free [OF ext] split: option.splits)
  ultimately show ?case using first rest i extends_trans [OF ext rest(2)] by (auto split: option.splits)
qed

subsection \<open>The group that is built\<close>

definition desc_instance :: "u32 \<times> string option \<Rightarrow> Instance" where
  "desc_instance d = \<lparr>instance_id = fst d, instance_name = (case snd d of Some n \<Rightarrow> n | None \<Rightarrow> to_string (uint (fst d))),
     instance_state = INSTANCE_STATE_PREPARING, webrtc_device_id = []\<rparr>"

lemma fold_add_desc:
  "base_dir (fold add_desc ds b) = base_dir b \<and>
   group_proto (fold add_desc ds b) = (group_proto b)\<lparr>instances := instances (group_proto b) @ map desc_instance ds\<rparr>"
  by (induction ds arbitrary: b) (auto simp: add_desc_def AddInstance_def AddInstance_named_def desc_instance_def split: option.splits)

definition built :: "'d manager_env \<Rightarrow> string \<Rightarrow> (u32 \<times> string option) list \<Rightarrow> InstanceGroup" where
  "built env gname ds =
     (let base = DefaultBaseDir (PerUserDir env) (now env)
      in \<lparr>group_name = gname, home_directory = HomeDirFromBase base, host_artifacts_path = HostArtifactsDirFromBase base,
          product_out_path = StrJoin '','' (map (ProductDirFromBase base) [0..<length ds]), start_time_sec = 0, instances = map desc_instance ds\<rparr>)"

lemma Build_group_eq:
  "Build_group (fold add_desc ds (new_group_builder (DefaultBaseDir (PerUserDir env) (now env)) gname)) = LocalInstanceGroup_Create (built env gname ds)"
  by (simp add: Build_group_def built_def fold_add_desc new_group_builder_def Let_def)

text \<open>Names: all defaults, which are the ids, or all chosen.\<close>

definition names_fine :: "InstanceParams list \<Rightarrow> bool" where
  "names_fine ps \<longleftrightarrow> list_all (\<lambda>p. params_name p = None) ps \<or>
     distinct (map params_name ps) \<and> list_all (\<lambda>p. case params_name p of None \<Rightarrow> False | Some n \<Rightarrow> IsValidInstanceName n) ps"

lemma to_string_valid: "IsValidInstanceName (to_string (uint i))" for i :: u32
proof -
  have chars: "list_all name_char (to_string (uint i))" using to_string_name_chars [of "nat (uint i)"] by simp
  then have "CHR ''-'' \<notin> set (to_string (uint i))" by (auto simp: list_all_iff)
  then show ?thesis using chars by (auto simp: IsValidInstanceName_def StrSplit_no_delimiter)
qed

lemma built_names:
  assumes "names_fine ps" and "map snd ds = map params_name ps" and "distinct (map fst ds)"
  shows "distinct (map instance_name (map desc_instance ds)) \<and> (\<forall>i\<in>set (map desc_instance ds). IsValidInstanceName (instance_name i))"
proof -
  have param: "\<exists>p\<in>set ps. snd d = params_name p" if "d \<in> set ds" for d
  proof -
    have "snd d \<in> set (map snd ds)" using that by simp
    then show ?thesis unfolding assms(2) by auto
  qed
  show ?thesis
    using assms(1) [unfolded names_fine_def]
  proof
    assume "list_all (\<lambda>p. params_name p = None) ps"
    then have none: "snd d = None" if "d \<in> set ds" for d using param [OF that] by (auto simp: list_all_iff)
    then have eq: "map instance_name (map desc_instance ds) = map ((\<lambda>i. to_string (uint i)) \<circ> fst) ds" by (simp add: desc_instance_def)
    have "distinct (map ((\<lambda>i. to_string (uint i)) \<circ> fst) ds)"
      using assms(3) by (simp add: distinct_map inj_on_def word_uint_eq_iff [symmetric])
    then show ?thesis using none unfolding eq by (simp add: to_string_valid desc_instance_def)
  next
    assume given: "distinct (map params_name ps) \<and> list_all (\<lambda>p. case params_name p of None \<Rightarrow> False | Some n \<Rightarrow> IsValidInstanceName n) ps"
    then have some: "\<exists>n. snd d = Some n \<and> IsValidInstanceName n" if "d \<in> set ds" for d
      using param [OF that] by (fastforce simp: list_all_iff split: option.splits)
    then have "map (Some \<circ> instance_name \<circ> desc_instance) ds = map snd ds" by (force simp: desc_instance_def)
    then have "distinct (map (Some \<circ> instance_name \<circ> desc_instance) ds)" using given assms(2) by simp
    then have "distinct (map instance_name (map desc_instance ds))" by (metis distinct_map map_map comp_assoc)
    moreover have "\<forall>i\<in>set (map desc_instance ds). IsValidInstanceName (instance_name i)" using some by (force simp: desc_instance_def)
    ultimately show ?thesis by blast
  qed
qed

lemma built_ok:
  assumes "names_fine ps" and "map snd ds = map params_name ps" and "distinct (map fst ds)" and "0 \<notin> fst ` set ds" and "ps \<noteq> []"
  shows "group_ok (built env gname ds)" and "\<forall>i\<in>set (instances (built env gname ds)). IsValidInstanceName (instance_name i)"
proof -
  have "ds \<noteq> []" using assms(2,5) by auto
  then show "group_ok (built env gname ds)" using assms(3,4) built_names [OF assms(1-3)]
    by (auto simp: group_ok_def built_def Let_def desc_instance_def comp_def, metis fst_conv image_eqI)
  show "\<forall>i\<in>set (instances (built env gname ds)). IsValidInstanceName (instance_name i)"
    using built_names [OF assms(1-3)] by (simp add: built_def Let_def)
qed

subsection \<open>The marks follow the database\<close>

text \<open>The database is well formed, lock files have a mark or none, and every id of the database is marked as in use.\<close>

definition manager_ok :: "'d manager_env \<Rightarrow> 'd manager \<Rightarrow> bool" where
  "manager_ok env m \<longleftrightarrow> db_ok (parse (db_encoding env) (db m)) \<and> lock_ok (lock_files m) \<and>
     (\<forall>i\<in>set (all_ids (parse (db_encoding env) (db m))). in_use i (lock_files m))"

lemma SetStatus_bytes: "lock_bytes k (InstanceLock_SetStatus st i ls) = (if k = i then SetStatus st (lock_bytes i ls) else lock_bytes k ls)"
  by (simp add: InstanceLock_SetStatus_def lock_bytes_def)

lemma set_status_fold:
  "mine (fold (InstanceLock_SetStatus kInUse) ids ls) = mine ls"
  "others (fold (InstanceLock_SetStatus kInUse) ids ls) = others ls"
  "lock_ok ls \<Longrightarrow> lock_ok (fold (InstanceLock_SetStatus kInUse) ids ls)"
  "in_use k (fold (InstanceLock_SetStatus kInUse) ids ls) \<longleftrightarrow> k \<in> set ids \<or> in_use k ls"
proof (induction ids arbitrary: ls)
  case (Cons i ids)
  have ok: "lock_ok (InstanceLock_SetStatus kInUse i ls)" if "lock_ok ls" for ls
    using that by (auto simp: lock_ok_def InstanceLock_SetStatus_def SetStatus_def)
  have use: "in_use k (InstanceLock_SetStatus kInUse i ls) \<longleftrightarrow> k = i \<or> in_use k ls" for k ls
    by (simp add: in_use_def SetStatus_bytes) (simp add: SetStatus_def)
  { case 1 then show ?case using Cons.IH(1) by (simp add: InstanceLock_SetStatus_def) }
  { case 2 then show ?case using Cons.IH(2) by (simp add: InstanceLock_SetStatus_def) }
  { case 3 then have "lock_ok (InstanceLock_SetStatus kInUse i ls)" by (rule ok) then show ?case by (simp add: Cons.IH(3)) }
  { case 4 then show ?case using Cons.IH(4) use by auto }
qed simp_all

text \<open>What a request has to satisfy.\<close>

definition good_request :: "'d manager_env \<Rightarrow> string \<Rightarrow> InstanceParams list \<Rightarrow> 'd manager \<Rightarrow> bool" where
  "good_request env gname ps m \<longleftrightarrow>
     ps \<noteq> [] \<and> names_fine ps \<and> distinct (requested ps) \<and> 0 \<notin> set (requested ps) \<and>
     (\<forall>i\<in>set (requested ps). \<not> locked i (lock_files m) \<and> i \<notin> set (all_ids (parse (db_encoding env) (db m)))) \<and>
     unrequested ps \<le> card ({j. j \<noteq> 0 \<and> free_id j (lock_files m)} - set (requested ps)) \<and>
     (gname = [] \<or> IsValidGroupName gname) \<and> gname \<notin> group_name ` set (parse (db_encoding env) (db m)) \<and>
     HomeDirFromBase (DefaultBaseDir (PerUserDir env) (now env)) \<notin> home_directory ` set (parse (db_encoding env) (db m))"

lemma allocate_request:
  assumes "lock_ok ls" and "distinct (requested ps)" and "\<forall>i\<in>set (requested ps). \<not> locked i ls"
    and "unrequested ps \<le> card ({j. j \<noteq> 0 \<and> free_id j ls} - set (requested ps))"
  obtains descs ls' where "AllocateAndLockInstanceIds ps ls = Some (Ok descs, ls')" and "extends (fst ` set descs) ls ls'" and "distinct (map fst descs)"
    and "list_all2 (\<lambda>p d. snd d = params_name p \<and> (case params_id p of Some i \<Rightarrow> fst d = i | None \<Rightarrow> fst d \<noteq> 0 \<and> free_id (fst d) ls)) ps descs"
proof -
  let ?R = "set (requested ps)"
  define ls1 where "ls1 = (opened_ids ?R ls)\<lparr>mine := mine ls \<union> ?R\<rparr>"
  have acq: "acquire_requested ps [] ls = Some (Ok (), ls1)"
    using acquire_requested_ok [OF assms(2), of "[]" ls] assms(3) by (simp add: ls1_def)
  have ext: "extends ?R ls ls1" using assms(1) by (simp add: extends_def ls1_def)
  have "{j. j \<noteq> 0 \<and> free_id j ls1} = {j. j \<noteq> 0 \<and> free_id j ls} - ?R" using extends_free [OF ext] by auto
  then have "unrequested ps \<le> card {j. j \<noteq> 0 \<and> free_id j ls1}" using assms(4) by simp
  moreover have "lock_ok ls1" "?R \<subseteq> mine ls1" using assms(1) by (auto simp: ls1_def)
  ultimately obtain descs ls' where all: "allocate ps ls1 = Some (Ok descs, ls')" "extends (fst ` set descs) ls1 ls'" "distinct (map fst descs)"
      and ids: "list_all2 (\<lambda>p d. snd d = params_name p \<and> (case params_id p of Some i \<Rightarrow> fst d = i | None \<Rightarrow> fst d \<noteq> 0 \<and> free_id (fst d) ls1)) ps descs"
    using allocate_ok [of ls1 ps] assms(2) by blast
  have "?R \<subseteq> fst ` set descs"
    using ids by (induction rule: list_all2_induct) (auto split: option.splits)
  then have "?R \<union> fst ` set descs = fst ` set descs" by blast
  then have "extends (fst ` set descs) ls ls'" using extends_trans [OF ext all(2)] by simp
  moreover have "list_all2 (\<lambda>p d. snd d = params_name p \<and> (case params_id p of Some i \<Rightarrow> fst d = i | None \<Rightarrow> fst d \<noteq> 0 \<and> free_id (fst d) ls)) ps descs"
    using ids by (rule list_all2_mono) (auto simp: extends_free [OF ext] split: option.splits)
  moreover have "AllocateAndLockInstanceIds ps ls = Some (Ok descs, ls')" using acq all(1) by (simp add: AllocateAndLockInstanceIds_def)
  ultimately show ?thesis using that all(3) by blast
qed

text \<open>
  C16: Creating a group succeeds whenever the request can be met: the requested ids are distinct, not zero,
  not locked and not in the database, enough other ids are free, the names are valid and unused, and
  the directories can be made. The instances then have the requested ids in their places, and for the
  others ids that no process had locked and no device used; the group is the new last entry of the
  database, all of its ids are marked as in use, no lock is kept, and every id of the database is
  again marked. In particular a group without requested ids never collides with an existing one.
\<close>

theorem create_group_allocates_ids:
  fixes env :: "'d manager_env" and m :: "'d manager"
  assumes "manager_ok env m" and "good_request env gname ps m" and "length (product_out_paths ds) = length ps"
    and "\<forall>descs ls. AllocateAndLockInstanceIds ps (lock_files m) = Some (Ok descs, ls) \<longrightarrow>
      fst (CreateOrLinkGroupDirectories (dir_funs env) (built env gname descs) ds (dirs m)) = Ok () \<and>
      storable (db_encoding env) (parse (db_encoding env) (db m) @ [named (parse (db_encoding env) (db m)) (built env gname descs)])"
  shows "\<exists>g m'. CreateInstanceGroup env gname ps ds m = Some (Ok g, m') \<and> manager_ok env m' \<and>
    parse (db_encoding env) (db m') = parse (db_encoding env) (db m) @ [g] \<and>
    list_all2 (\<lambda>p i. case params_id p of Some r \<Rightarrow> instance_id i = r | None \<Rightarrow> free_id (instance_id i) (lock_files m)) ps (instances g) \<and>
    mine (lock_files m') = mine (lock_files m) \<and> others (lock_files m') = others (lock_files m)"
proof -
  let ?ls = "lock_files m" and ?c = "db_encoding env" let ?data = "parse ?c (db m)"
  note req = assms(2) [unfolded good_request_def]
  have ok: "db_ok ?data" "lock_ok ?ls" "\<forall>i\<in>set (all_ids ?data). in_use i ?ls" using assms(1) by (auto simp: manager_ok_def)
  obtain descs ls where alloc: "AllocateAndLockInstanceIds ps ?ls = Some (Ok descs, ls)" and ext: "extends (fst ` set descs) ?ls ls"
      and dist: "distinct (map fst descs)"
      and ids: "list_all2 (\<lambda>p d. snd d = params_name p \<and> (case params_id p of Some i \<Rightarrow> fst d = i | None \<Rightarrow> fst d \<noteq> 0 \<and> free_id (fst d) ?ls)) ps descs"
    using allocate_request [OF ok(2), of ps] req by blast
  have names: "map snd descs = map params_name ps" using ids by (induction rule: list_all2_induct) simp_all
  have each: "fst d \<in> set (requested ps) \<or> fst d \<noteq> 0 \<and> free_id (fst d) ?ls" if "d \<in> set descs" for d
    using list_all2_set2 [OF ids that] requested_member by (fastforce split: option.splits)
  define grp where "grp = built env gname descs"
  have grp_ids: "map instance_id (instances grp) = map fst descs" by (simp add: grp_def built_def Let_def desc_instance_def)
  have "0 \<notin> fst ` set descs" using each req by force
  then have gok: "group_ok grp" and valid: "\<forall>i\<in>set (instances grp). IsValidInstanceName (instance_name i)"
    using built_ok [OF _ names dist] req unfolding grp_def by blast+
  have "fst d \<notin> set (all_ids ?data)" if "d \<in> set descs" for d
    using each [OF that] req ok(3) by (auto simp: free_id_def)
  then have may: "may_add grp ?data" using req grp_ids
    by (auto simp: may_add_def grp_def built_def Let_def simp del: set_map) (auto simp: desc_instance_def)
  let ?g = "named ?data grp"
  have stored: "storable ?c (?data @ [?g])" and made: "fst (CreateOrLinkGroupDirectories (dir_funs env) grp ds (dirs m)) = Ok ()"
    using assms(4) alloc by (auto simp: grp_def)
  then obtain d where dirs: "CreateOrLinkGroupDirectories (dir_funs env) grp ds (dirs m) = (Ok (), d)" by (metis prod.collapse)
  have add: "AddInstanceGroup ?c grp (db m) = Some (Ok ?g, serialize ?c (?data @ [?g]))"
    using add_outcome [OF ok(1) gok stored] may valid req by (auto simp: grp_def built_def Let_def)
  have g_ids: "instances ?g = instances grp" by (simp add: named_def split: sum.splits)
  have insts: "instances ?g = map desc_instance descs" unfolding g_ids by (simp add: grp_def built_def Let_def)
  let ?ls' = "(fold (InstanceLock_SetStatus kInUse) (map fst descs) ls)\<lparr>mine := mine ?ls\<rparr>"
  let ?m = "m\<lparr>lock_files := ?ls', db := serialize ?c (?data @ [?g]), dirs := d\<rparr>"
  have run: "CreateInstanceGroup env gname ps ds m = Some (Ok ?g, ?m)"
    using assms(3) alloc dirs add gok unfolding grp_def
    by (simp add: CreateInstanceGroup_def Build_group_eq Create_iff returning_def)
  have data: "parse ?c (db ?m) = ?data @ [?g]" using stored by (simp add: storable_def)
  have lsok: "lock_ok ls" "others ls = others ?ls" "in_use k ls = in_use k ?ls" for k using ext by (auto simp: extends_def in_use_def)
  have "db_ok (?data @ [?g])"
    using db_ok_add [OF ok(1) gok may] valid req by (auto simp: grp_def built_def Let_def list_all_iff)
  moreover have "lock_ok ?ls'" using lsok(1) set_status_fold(3) by simp
  moreover have "in_use i ?ls'" if "i \<in> set (all_ids (?data @ [?g]))" for i
    using that ok(3) lsok(3) by (auto simp: g_ids grp_ids set_status_fold(4) simp del: set_map) 
  ultimately have mok: "manager_ok env ?m" unfolding manager_ok_def data by simp
  have "list_all2 (\<lambda>p i. case params_id p of Some r \<Rightarrow> instance_id i = r | None \<Rightarrow> free_id (instance_id i) ?ls) ps (instances ?g)"
    unfolding insts list_all2_map2 using ids by (rule list_all2_mono) (auto simp: desc_instance_def split: option.splits)
  then show ?thesis using run mok data lsok(2) by (intro exI [of _ ?g] exI [of _ ?m]) (simp add: set_status_fold(2))
qed

definition easy_dirs :: "unit dir_ops" where
  "easy_dirs = \<lparr>DirectoryExists = (\<lambda>_ _. True), Symlink = (\<lambda>_ _ d. (Ok (), d)), EnsureDirectoryExists = (\<lambda>_ d. (Ok (), d)),
     RecursivelyRemoveDirectory = (\<lambda>_ d. (Ok (), d)), RemoveFile = (\<lambda>_ d. (Ok (), d)), StopBin = (\<lambda>_ _. Ok ''stop_cvd''),
     RunStopCvd = (\<lambda>_ _ _ _ d. (Ok (), d))\<rparr>"

definition easy_env :: "unit manager_env" where
  "easy_env = \<lparr>db_encoding = plain_db_codec, dir_funs = easy_dirs, PerUserDir = ''/tmp/cvd/1'', now = 7\<rparr>"

definition easy_manager :: "unit manager" where
  "easy_manager = \<lparr>lock_files = \<lparr>lock_file = (\<lambda>_. None), mine = {}, others = {}\<rparr>, db = [], dirs = ()\<rparr>"

definition one_param :: InstanceParams where
  "one_param = \<lparr>params_id = None, params_name = None\<rparr>"

definition no_directories :: GroupDirectories where
  "no_directories = \<lparr>base_directory = None, home = None, host_artifacts = None, product_out_paths = [None]\<rparr>"

lemma easy_allocation:
  "AllocateAndLockInstanceIds [one_param] (lock_files easy_manager) =
     Some (Ok [(1, None)], (opened_ids {1} (lock_files easy_manager))\<lparr>mine := {1}\<rparr>)"
proof -
  have ok: "lock_ok (lock_files easy_manager)" by (simp add: lock_ok_def easy_manager_def)
  have free: "free_id 1 (lock_files easy_manager)" by (simp add: free_id_def locked_def in_use_def lock_bytes_def easy_manager_def)
  have "mine (lock_files easy_manager) = {}" by (simp add: easy_manager_def)
  then have "AcquireUnusedLock (lock_files easy_manager) = Some (Ok 1, (opened_ids {1} (lock_files easy_manager))\<lparr>mine := {1}\<rparr>)"
    by (simp only: AcquireUnusedLock_def AcquireUnusedLock_step [OF ok, of 1] free if_True)
  then show ?thesis by (simp add: AllocateAndLockInstanceIds_def one_param_def)
qed

theorem create_group_allocates_ids_witness:
  "\<exists>g m'. CreateInstanceGroup easy_env [] [one_param] no_directories easy_manager = Some (Ok g, m') \<and> manager_ok easy_env m'"
proof -
  let ?g = "built easy_env [] [(1, None)]"
  have "manager_ok easy_env easy_manager" by (simp add: manager_ok_def easy_env_def easy_manager_def lock_ok_def)
  moreover have "free_id k (lock_files easy_manager)" for k by (simp add: free_id_def locked_def in_use_def lock_bytes_def easy_manager_def)
  then have "card {1 :: u32} \<le> card {j. j \<noteq> 0 \<and> free_id j (lock_files easy_manager)}" by (intro card_mono) simp_all
  then have "good_request easy_env [] [one_param] easy_manager"
    by (simp add: good_request_def names_fine_def one_param_def easy_env_def) (simp add: easy_manager_def)
  moreover have "length (serialize plain_db_codec [named [] ?g]) \<le> 1000" by code_simp
  then have "length (serialize plain_db_codec [named [] ?g]) \<le> max_size" by (rule order_trans) simp
  then have "storable (db_encoding easy_env) (parse (db_encoding easy_env) (db easy_manager) @ [named (parse (db_encoding easy_env) (db easy_manager)) ?g])"
    by (simp add: storable_def easy_manager_def) (simp add: easy_env_def)
  moreover have "fst (CreateOrLinkGroupDirectories (dir_funs easy_env) ?g no_directories (dirs easy_manager)) = Ok ()"
    by (simp add: CreateOrLinkGroupDirectories_def and_then_def LinkOrMakeDir_def easy_env_def easy_dirs_def no_directories_def)
  ultimately show ?thesis
    using create_group_allocates_ids [of easy_env easy_manager "[]" "[one_param]" no_directories]
    by (simp add: easy_allocation no_directories_def) metis
qed

subsection \<open>Removal\<close>

definition unlinked :: "u32 set \<Rightarrow> locks \<Rightarrow> locks" where
  "unlinked I ls = ls\<lparr>lock_file := (\<lambda>k. if k \<in> I then None else lock_file ls k), mine := mine ls - I, others := others ls - I\<rparr>"

lemma remove_locks:
  assumes "0 \<notin> instance_id ` set is" and "distinct (map instance_id is)" and "\<forall>i\<in>set is. lock_file ls (instance_id i) \<noteq> None"
  shows "fold remove_lock is ls = unlinked (instance_id ` set is) ls"
  using assms
proof (induction "is" arbitrary: ls)
  case Nil
  then show ?case by (cases ls) (simp add: unlinked_def)
next
  case (Cons i "is")
  let ?ls = "unlinked {instance_id i} ls"
  have "remove_lock i ls = ?ls"
    using Cons.prems(1,3) by (cases ls) (auto simp: remove_lock_def RemoveLockFile_def unlinked_def fun_eq_iff)
  moreover have "\<forall>j\<in>set is. lock_file ?ls (instance_id j) \<noteq> None"
    using Cons.prems(2,3) by (auto simp: unlinked_def image_iff; metis)
  then have "fold remove_lock is ?ls = unlinked (instance_id ` set is) ?ls" using Cons.prems by (intro Cons.IH) auto
  moreover have "unlinked (instance_id ` set is) ?ls = unlinked (instance_id ` set (i # is)) ls"
    by (cases ls) (auto simp: unlinked_def fun_eq_iff)
  ultimately show ?case by simp
qed

lemma unlinked_facts:
  "lock_bytes k (unlinked I ls) = (if k \<in> I then [] else lock_bytes k ls)"
  "lock_ok ls \<Longrightarrow> lock_ok (unlinked I ls)"
  "k \<in> I \<Longrightarrow> free_id k (unlinked I ls)"
  "k \<notin> I \<Longrightarrow> free_id k (unlinked I ls) \<longleftrightarrow> free_id k ls"
  by (auto simp: unlinked_def lock_bytes_def lock_ok_def free_id_def locked_def in_use_def)

text \<open>The locks after removing a group of the database: its ids are marked, so their files exist.\<close>

lemma remove_group_locks:
  assumes "manager_ok env m" and "g \<in> set (parse (db_encoding env) (db m))"
  shows "fold remove_lock (instances g) (lock_files m) = unlinked (instance_id ` set (instances g)) (lock_files m)"
proof (rule remove_locks)
  have "group_ok g" using assms by (auto simp: manager_ok_def db_ok_def)
  then show "0 \<notin> instance_id ` set (instances g)" "distinct (map instance_id (instances g))" by (auto simp: group_ok_def)
  have "in_use (instance_id i) (lock_files m)" if "i \<in> set (instances g)" for i
    using assms that by (auto simp: manager_ok_def all_ids_def)
  then show "\<forall>i\<in>set (instances g). lock_file (lock_files m) (instance_id i) \<noteq> None"
    by (fastforce simp: in_use_def lock_bytes_def split: option.splits)
qed

lemma remove_group_filter:
  "distinct (map group_name data) \<Longrightarrow> remove_group n data = (Ok (n \<in> group_name ` set data), filter (\<lambda>g. group_name g \<noteq> n) data)"
proof (induction data)
  case (Cons g data)
  then have "filter (\<lambda>h. group_name h \<noteq> group_name g) data = data" by (auto simp: filter_id_conv image_iff; metis)
  then show ?case using Cons by auto
qed simp

lemma other_group_ids:
  assumes "db_ok data" and "g \<in> set data" and "i \<in> set (all_ids (filter (\<lambda>h. group_name h \<noteq> group_name g) data))"
  shows "i \<in> set (all_ids data)" and "i \<notin> instance_id ` set (instances g)"
proof -
  obtain h j where h: "h \<in> set data" "group_name h \<noteq> group_name g" "j \<in> set (instances h)" "i = instance_id j"
    using assms(3) by (auto simp: all_ids_def)
  then show "i \<in> set (all_ids data)" by (auto simp: all_ids_def)
  show "i \<notin> instance_id ` set (instances g)"
  proof
    assume "i \<in> instance_id ` set (instances g)"
    then obtain k where k: "k \<in> set (instances g)" "instance_id k = i" by auto
    have dist: "distinct (all_ids data)" using assms(1) by (simp add: db_ok_def)
    have "(k, g) = (j, h)"
      by (metis matching_by_id [OF dist assms(2) k(1)] matching_by_id [OF dist h(1,3)] k(2) h(4) list.inject)
    then show False using h(2) by simp
  qed
qed

text \<open>
  C19: Removing a group without active instances, when its directory can be removed, deletes exactly this
  group from the database and the lock files of its ids, which are free again, even for locks that
  were held; every other id is as free as before, and every id of the database is still marked.
\<close>

theorem remove_group_frees_ids:
  fixes env :: "'d manager_env" and m :: "'d manager"
  assumes "manager_ok env m" and "g \<in> set (parse (db_encoding env) (db m))" and "\<not> HasActiveInstances g"
    and "fst (RemoveGroupDirectory env g (dirs m)) = Ok ()"
    and "storable (db_encoding env) (filter (\<lambda>h. group_name h \<noteq> group_name g) (parse (db_encoding env) (db m)))"
  shows "\<exists>m'. RemoveInstanceGroup_all env g m = Some (Ok True, m') \<and> manager_ok env m' \<and>
    parse (db_encoding env) (db m') = filter (\<lambda>h. group_name h \<noteq> group_name g) (parse (db_encoding env) (db m)) \<and>
    {k. free_id k (lock_files m')} = {k. free_id k (lock_files m)} \<union> instance_id ` set (instances g)"
proof -
  let ?c = "db_encoding env" let ?data = "parse ?c (db m)" and ?I = "instance_id ` set (instances g)"
  let ?rest = "filter (\<lambda>h. group_name h \<noteq> group_name g) ?data"
  obtain d where d: "RemoveGroupDirectory env g (dirs m) = (Ok (), d)" using assms(4) by (metis prod.collapse)
  have ok: "db_ok ?data" "lock_ok (lock_files m)" "\<forall>i\<in>set (all_ids ?data). in_use i (lock_files m)" using assms(1) by (auto simp: manager_ok_def)
  then have rem: "remove_group (group_name g) ?data = (Ok True, ?rest)" using assms(2) remove_group_filter by (auto simp: db_ok_def)
  then have del: "RemoveInstanceGroup ?c (group_name g) (db m) = Some (Ok True, serialize ?c ?rest)"
    unfolding RemoveInstanceGroup_def using assms(5) by (rule WithExclusiveLock_ok)
  let ?m = "m\<lparr>lock_files := unlinked ?I (lock_files m), dirs := d, db := serialize ?c ?rest\<rparr>"
  have run: "RemoveInstanceGroup_all env g m = Some (Ok True, ?m)"
    using assms(3) d del remove_group_locks [OF assms(1,2)] by (simp add: RemoveInstanceGroup_all_def Let_def)
  have data: "parse ?c (db ?m) = ?rest" using assms(5) by (simp add: storable_def)
  have "i \<notin> ?I \<and> i \<in> set (all_ids ?data)" if "i \<in> set (all_ids ?rest)" for i
    using other_group_ids [OF ok(1) assms(2) that] by simp
  then have "in_use i (unlinked ?I (lock_files m))" if "i \<in> set (all_ids ?rest)" for i
    using that ok(3) by (simp add: in_use_def unlinked_facts(1))
  then have "manager_ok env ?m" unfolding manager_ok_def data
    using db_ok_remove [OF ok(1) rem] unlinked_facts(2) [OF ok(2)] by simp
  moreover have "free_id k (unlinked ?I (lock_files m)) \<longleftrightarrow> free_id k (lock_files m) \<or> k \<in> ?I" for k
    by (cases "k \<in> ?I") (simp_all add: unlinked_facts)
  then have "{k. free_id k (lock_files ?m)} = {k. free_id k (lock_files m)} \<union> ?I" by auto
  ultimately show ?thesis using run data by (intro exI [of _ ?m]) simp
qed

definition stopped_group :: InstanceGroup where
  "stopped_group = SetAllStates INSTANCE_STATE_STOPPED (one_instance ''cvd_1'' 1)"

definition stopped_manager :: "unit manager" where
  "stopped_manager = \<lparr>lock_files = \<lparr>lock_file = [1 \<mapsto> ''I''], mine = {}, others = {}\<rparr>, db = serialize plain_db_codec [stopped_group], dirs = ()\<rparr>"

lemma stopped_manager_ok: "manager_ok easy_env stopped_manager" "parse (db_encoding easy_env) (db stopped_manager) = [stopped_group]"
proof -
  show p: "parse (db_encoding easy_env) (db stopped_manager) = [stopped_group]" by (simp add: easy_env_def stopped_manager_def)
  have "db_ok [stopped_group]" by code_simp
  moreover have "lock_ok (lock_files stopped_manager)" by (auto simp: lock_ok_def stopped_manager_def split: if_splits)
  moreover have "in_use i (lock_files stopped_manager)" if "i \<in> set (all_ids [stopped_group])" for i
    using that by (simp add: stopped_group_def SetAllStates_def set_state_def one_instance_def in_use_def lock_bytes_def stopped_manager_def)
  ultimately show "manager_ok easy_env stopped_manager" unfolding manager_ok_def p by blast
qed

theorem remove_group_frees_ids_witness:
  "\<exists>m'. RemoveInstanceGroup_all easy_env stopped_group stopped_manager = Some (Ok True, m') \<and> parse plain_db_codec (db m') = [] \<and>
    free_id 1 (lock_files m')"
proof -
  have dir: "fst (RemoveGroupDirectory easy_env stopped_group (dirs stopped_manager)) = Ok ()" and idle: "\<not> HasActiveInstances stopped_group"
    by code_simp+
  have "length (serialize plain_db_codec []) \<le> max_size" by (simp add: small_db_length)
  then have "storable (db_encoding easy_env) (filter (\<lambda>h. group_name h \<noteq> group_name stopped_group) [stopped_group])"
    by (simp add: storable_def) (simp add: easy_env_def)
  moreover have "1 \<in> instance_id ` set (instances stopped_group)" by code_simp
  moreover have "db_encoding easy_env = plain_db_codec" by (simp add: easy_env_def)
  ultimately show ?thesis
    using remove_group_frees_ids [of easy_env stopped_manager stopped_group] stopped_manager_ok dir idle by auto
qed

text \<open>The lock files go first, so that a removal that fails leaves ids in the database that look unused.\<close>

lemma add_refused:
  assumes "db_ok (parse codec bytes)" and "group_ok grp" and "\<not> may_add grp (parse codec bytes)"
  shows "AddInstanceGroup codec grp bytes = Some (Err Cf_Error, bytes)"
  using WithExclusiveLock_error [of "add_group grp" codec bytes] add_group_eq [OF assms(1,2)] assms(3) by (simp add: AddInstanceGroup_def)

lemma least_unused_id:
  assumes "lock_ok ls" and "free_id i ls" and "i \<noteq> 0"
  obtains k ls' where "AcquireUnusedLock ls = Some (Ok k, ls')" and "0 < k" and "k \<le> i" and "free_id k ls"
proof -
  obtain n where n: "n + 1 < 2 ^ 32" and free: "free_id (1 + of_nat n) ls" and least: "\<forall>m<n. \<not> free_id (1 + of_nat m) ls"
      and run: "AcquireUnusedLock ls = Some (Ok (1 + of_nat n), (opened_ids ((\<lambda>m. 1 + of_nat m) ` {..n}) ls)\<lparr>mine := insert (1 + of_nat n) (mine ls)\<rparr>)"
    by (rule AcquireUnusedLock_least [OF assms])
  have "n \<le> unat i - 1" using least [rule_format, of "unat i - 1"] assms(2,3) by (auto simp: id_of_count not_less [symmetric])
  moreover have "0 < unat i" using assms(3) by (simp add: unat_gt_0)
  ultimately have "unat (1 + of_nat n :: u32) \<le> unat i" "0 < unat (1 + of_nat n :: u32)" using unat_id_of_count [OF n] by linarith+
  then show ?thesis using that [OF run _ _ free] by (simp add: word_le_nat_alt unat_gt_0 word_gt_0)
qed

text \<open>
  C37: When the directory of a group cannot be removed, removing the group fails after its lock files are gone
  but before its entry is. If no smaller id is free, every later request for a group with one
  instance and no particular id then fails, whatever its name and directories: the id that is
  chosen is one of the group that is still in the database.
\<close>

theorem failed_removal_blocks_creation:
  fixes env :: "'d manager_env" and m :: "'d manager"
  assumes "manager_ok env m" and "g \<in> set (parse (db_encoding env) (db m))" and "\<not> HasActiveInstances g"
    and "RemoveGroupDirectory env g (dirs m) = (Inl e, d)"
    and "i \<in> instance_id ` set (instances g)" and "{k. 0 < k \<and> k < i \<and> free_id k (lock_files m)} = {}" and "params_id p = None"
  shows "\<exists>m'. RemoveInstanceGroup_all env g m = Some (Inl e, m') \<and> db m' = db m \<and>
    (\<exists>e' m''. CreateInstanceGroup env gname [p] ds m' = Some (Inl e', m'') \<and> db m'' = db m)"
proof -
  let ?I = "instance_id ` set (instances g)" and ?data = "parse (db_encoding env) (db m)"
  let ?ls = "unlinked ?I (lock_files m)"
  let ?m = "m\<lparr>lock_files := ?ls, dirs := d\<rparr>"
  have run: "RemoveInstanceGroup_all env g m = Some (Inl e, ?m)"
    using assms(3,4) remove_group_locks [OF assms(1,2)] by (simp add: RemoveInstanceGroup_all_def Let_def)
  have ok: "db_ok ?data" "lock_ok ?ls" using assms(1) unlinked_facts(2) by (auto simp: manager_ok_def)
  then have "group_ok g" using assms(2) by (simp add: db_ok_def)
  then have "i \<noteq> 0" using assms(5) by (auto simp: group_ok_def)
  moreover have "free_id i ?ls" using assms(5) by (rule unlinked_facts(3))
  ultimately obtain k ls' where acq: "AcquireUnusedLock ?ls = Some (Ok k, ls')" and k: "0 < k" "k \<le> i" "free_id k ?ls"
    using least_unused_id [OF ok(2)] by metis
  have "k \<in> ?I"
  proof (rule ccontr)
    assume "k \<notin> ?I"
    then have "free_id k (lock_files m)" "k \<noteq> i" using k(3) assms(5) unlinked_facts(4) by auto
    then show False using k(1,2) assms(6) by auto
  qed
  then have "k \<in> set (all_ids ?data)" using assms(2) by (auto simp: all_ids_def)
  then have taken: "\<not> may_add (built env gname [(k, params_name p)]) ?data"
    by (simp add: may_add_def built_def Let_def desc_instance_def)
  have alloc: "AllocateAndLockInstanceIds [p] ?ls = Some (Ok [(k, params_name p)], ls')"
    using acq assms(7) by (simp add: AllocateAndLockInstanceIds_def)
  let ?g = "built env gname [(k, params_name p)]"
  obtain r d' where dirs: "CreateOrLinkGroupDirectories (dir_funs env) ?g ds d = (r, d')" by fastforce
  have build: "Build_group (add_desc (k, params_name p) (new_group_builder (DefaultBaseDir (PerUserDir env) (now env)) gname)) =
      (if group_ok ?g then Ok ?g else Err Cf_Error)"
    using Build_group_eq [of "[(k, params_name p)]" env gname] by (simp add: Create_iff)
  have "\<exists>e' m''. CreateInstanceGroup env gname [p] ds ?m = Some (Inl e', m'') \<and> db m'' = db m"
    using add_refused [OF ok(1) _ taken] dirs by (cases r) (auto simp: CreateInstanceGroup_def alloc build returning_def)
  then show ?thesis using run by (intro exI [of _ ?m]) simp
qed

definition stubborn_env :: "unit manager_env" where
  "stubborn_env = easy_env\<lparr>dir_funs := easy_dirs\<lparr>RecursivelyRemoveDirectory := (\<lambda>_ d. (Err Cf_Error, d))\<rparr>, PerUserDir := ''/tmp''\<rparr>"

theorem failed_removal_blocks_creation_witness:
  "\<exists>m'. RemoveInstanceGroup_all stubborn_env stopped_group stopped_manager = Some (Err Cf_Error, m') \<and>
    (\<exists>e' m''. CreateInstanceGroup stubborn_env ''mine'' [one_param] no_directories m' = Some (Inl e', m''))"
proof -
  have env: "db_encoding stubborn_env = db_encoding easy_env" by (simp add: stubborn_env_def)
  have "manager_ok stubborn_env stopped_manager" using stopped_manager_ok(1) by (simp add: manager_ok_def env)
  moreover have "RemoveGroupDirectory stubborn_env stopped_group (dirs stopped_manager) = (Err Cf_Error, ())" and idle: "\<not> HasActiveInstances stopped_group"
    by code_simp+
  moreover have "1 \<in> instance_id ` set (instances stopped_group)" by code_simp
  moreover have "params_id one_param = None" by (simp add: one_param_def)
  moreover have "{k :: u32. 0 < k \<and> k < 1 \<and> free_id k (lock_files stopped_manager)} = {}" by (auto simp: word_less_1)
  ultimately show ?thesis
    using failed_removal_blocks_creation [of stubborn_env stopped_manager stopped_group "Cf_Error" "()" 1 one_param "''mine''" no_directories]
      stopped_manager_ok(2) by (auto simp: env)
qed

end
