(* ===== verification/Flag_Parser.thy ===== *)
theory Flag_Parser
  imports Instance_Group "HOL-Library.Sublist"
begin

section \<open>Command line flags\<close>

text \<open>
  \<^verbatim>\<open>common/libs/utils/flag_parser.h\<close> and \<^verbatim>\<open>flag_parser.cpp\<close>: a flag is a list of aliases and a setter, which the host programs use
  to take flags out of their arguments. The variables that the setters refer to are the state \<open>'v\<close>. A
  setter that fails may have changed it.
\<close>

datatype FlagAliasMode = kFlagPrefix | kFlagExact | kFlagConsumesFollowing | kFlagConsumesArbitrary

record FlagAlias =
  alias_mode :: FlagAliasMode
  alias_name :: string

record FlagMatch =
  match_key :: string
  match_value :: string

record 'v Flag =
  aliases :: "FlagAlias list"
  help_text :: "string option"
  getter :: "('v \<Rightarrow> string) option"
  setter :: "(FlagMatch \<Rightarrow> 'v \<Rightarrow> unit result \<times> 'v) option"

datatype FlagProcessResult = kFlagSkip | kFlagConsumed | kFlagConsumedWithFollowing | kFlagConsumedOnlyFollowing

definition new_flag :: "'v Flag" where
  "new_flag = \<lparr>aliases = [], help_text = None, getter = None, setter = None\<rparr>"

subsection \<open>Aliases\<close>

definition HasAlias :: "FlagAlias \<Rightarrow> 'v Flag \<Rightarrow> bool" where
  "HasAlias test f = list_ex (\<lambda>a. alias_mode a = alias_mode test \<and> alias_name a = alias_name test) (aliases f)"

definition mk_alias :: "FlagAliasMode \<Rightarrow> string \<Rightarrow> FlagAlias" where
  "mk_alias md n = \<lparr>alias_mode = md, alias_name = n\<rparr>"

definition ValidateAlias :: "FlagAlias \<Rightarrow> 'v Flag \<Rightarrow> bool" where
  "ValidateAlias a f \<longleftrightarrow>
     take 1 (alias_name a) = ''-'' \<and>
     (alias_mode a = kFlagPrefix \<longrightarrow> alias_name a \<noteq> [] \<and> last (alias_name a) = CHR ''='') \<and>
     \<not> HasAlias a f \<and>
     (case alias_mode a of
        kFlagConsumesFollowing \<Rightarrow> \<not> HasAlias (mk_alias kFlagExact (alias_name a)) f \<and> \<not> HasAlias (mk_alias kFlagConsumesArbitrary (alias_name a)) f
      | kFlagExact \<Rightarrow> \<not> HasAlias (mk_alias kFlagConsumesFollowing (alias_name a)) f \<and> \<not> HasAlias (mk_alias kFlagConsumesArbitrary (alias_name a)) f
      | kFlagConsumesArbitrary \<Rightarrow> \<not> HasAlias (mk_alias kFlagExact (alias_name a)) f \<and> \<not> HasAlias (mk_alias kFlagConsumesFollowing (alias_name a)) f
      | kFlagPrefix \<Rightarrow> True)"

definition UnvalidatedAlias :: "FlagAlias \<Rightarrow> 'v Flag \<Rightarrow> 'v Flag" where
  "UnvalidatedAlias a f = f\<lparr>aliases := aliases f @ [a]\<rparr>"

text \<open>A failed check ends the program.\<close>

definition Alias :: "FlagAlias \<Rightarrow> 'v Flag \<Rightarrow> 'v Flag result" where
  "Alias a f = (if ValidateAlias a f then Ok (UnvalidatedAlias a f) else Err Check_Failed)"

fun add_aliases :: "FlagAlias list \<Rightarrow> 'v Flag \<Rightarrow> 'v Flag result" where
  "add_aliases [] f = Ok f"
| "add_aliases (a # as) f = bind_result (Alias a f) (add_aliases as)"

definition Help :: "string \<Rightarrow> 'v Flag \<Rightarrow> 'v Flag" where
  "Help h f = f\<lparr>help_text := Some h\<rparr>"

definition Getter :: "('v \<Rightarrow> string) \<Rightarrow> 'v Flag \<Rightarrow> 'v Flag" where
  "Getter fn f = f\<lparr>getter := Some fn\<rparr>"

definition Setter :: "(FlagMatch \<Rightarrow> 'v \<Rightarrow> unit result \<times> 'v) \<Rightarrow> 'v Flag \<Rightarrow> 'v Flag" where
  "Setter fn f = f\<lparr>setter := Some fn\<rparr>"

subsection \<open>Matching one argument\<close>

definition LikelyFlag :: "string \<Rightarrow> bool" where
  "LikelyFlag next_arg \<longleftrightarrow> take 1 next_arg = ''-''"

definition normalized :: "string \<Rightarrow> string" where
  "normalized s = map (\<lambda>c. if c = CHR ''-'' then CHR ''_'' else c) s"

definition calling :: "(FlagMatch \<Rightarrow> 'v \<Rightarrow> unit result \<times> 'v) \<Rightarrow> string \<Rightarrow> string \<Rightarrow> FlagProcessResult \<Rightarrow> 'v \<Rightarrow> FlagProcessResult result \<times> 'v" where
  "calling sf key val r v = (case sf \<lparr>match_key = key, match_value = val\<rparr> v of (Inl e, v) \<Rightarrow> (Inl e, v) | (Inr _, v) \<Rightarrow> (Ok r, v))"

fun process_aliases ::
  "(FlagMatch \<Rightarrow> 'v \<Rightarrow> unit result \<times> 'v) \<Rightarrow> FlagAlias list \<Rightarrow> string \<Rightarrow> string option \<Rightarrow> 'v \<Rightarrow> FlagProcessResult result \<times> 'v" where
  "process_aliases sf [] arg next_arg v = (Ok kFlagSkip, v)"
| "process_aliases sf (a # as) arg next_arg v =
     (case alias_mode a of
        kFlagConsumesArbitrary \<Rightarrow>
          if normalized arg \<noteq> normalized (alias_name a) then process_aliases sf as arg next_arg v
          else (case next_arg of
                  None \<Rightarrow> calling sf arg [] kFlagConsumed v
                | Some n \<Rightarrow> if LikelyFlag n then calling sf arg [] kFlagConsumed v else calling sf arg n kFlagConsumedOnlyFollowing v)
      | kFlagConsumesFollowing \<Rightarrow>
          if normalized arg \<noteq> normalized (alias_name a) then process_aliases sf as arg next_arg v
          else (case next_arg of
                  None \<Rightarrow> (Err Cf_Error, v)
                | Some n \<Rightarrow> calling sf arg n kFlagConsumedWithFollowing v)
      | kFlagExact \<Rightarrow>
          if normalized arg \<noteq> normalized (alias_name a) then process_aliases sf as arg next_arg v
          else calling sf arg arg kFlagConsumed v
      | kFlagPrefix \<Rightarrow>
          if take (length (alias_name a)) (normalized arg) \<noteq> normalized (alias_name a) then process_aliases sf as arg next_arg v
          else calling sf (alias_name a) (drop (length (alias_name a)) arg) kFlagConsumed v)"

definition Process :: "'v Flag \<Rightarrow> string \<Rightarrow> string option \<Rightarrow> 'v \<Rightarrow> FlagProcessResult result \<times> 'v" where
  "Process f arg next_arg v =
     (case setter f of
        None \<Rightarrow> if aliases f \<noteq> [] then (Err Cf_Error, v) else (Ok kFlagSkip, v)
      | Some sf \<Rightarrow> process_aliases sf (aliases f) arg next_arg v)"

subsection \<open>Lists of arguments\<close>

definition next_of :: "string list \<Rightarrow> string option" where
  "next_of rest = (case rest of [] \<Rightarrow> None | n # _ \<Rightarrow> Some n)"

text \<open>
  The loop of \<^verbatim>\<open>Flag::Parse\<close> from position \<open>i\<close> on; erasing past the end does not happen, since only an argument that
  exists is reported as consumed.
\<close>

function Parse :: "'v Flag \<Rightarrow> string list \<Rightarrow> 'v \<Rightarrow> unit result \<times> string list \<times> 'v" where
  "Parse f [] v = (Ok (), [], v)"
| "Parse f (arg # rest) v =
     (case Process f arg (next_of rest) v of
        (Inl e, v) \<Rightarrow> (Inl e, arg # rest, v)
      | (Inr kFlagSkip, v) \<Rightarrow> (case Parse f rest v of (r, args, v) \<Rightarrow> (r, arg # args, v))
      | (Inr kFlagConsumed, v) \<Rightarrow> Parse f rest v
      | (Inr kFlagConsumedWithFollowing, v) \<Rightarrow>
          (case rest of [] \<Rightarrow> (Err Undefined_Behaviour, arg # rest, v) | _ # rest \<Rightarrow> Parse f rest v)
      | (Inr kFlagConsumedOnlyFollowing, v) \<Rightarrow>
          (case rest of [] \<Rightarrow> (Err Undefined_Behaviour, arg # rest, v) | _ # rest \<Rightarrow> Parse f (arg # rest) v))"
  by pat_completeness auto
termination
  by (relation "measure (\<lambda>(f, args, v). length args)") auto

fun ConsumeFlagsImpl :: "'v Flag list \<Rightarrow> string list \<Rightarrow> 'v \<Rightarrow> unit result \<times> string list \<times> 'v" where
  "ConsumeFlagsImpl [] args v = (Ok (), args, v)"
| "ConsumeFlagsImpl (f # fs) args v =
     (case Parse f args v of
        (Inl e, args, v) \<Rightarrow> (Inl e, args, v)
      | (Inr _, args, v) \<Rightarrow> ConsumeFlagsImpl fs args v)"

definition SeparateByEndOfOptionMark :: "string list \<Rightarrow> string list \<times> string list" where
  "SeparateByEndOfOptionMark args = (takeWhile (\<lambda>a. a \<noteq> ''--'') args, tl (dropWhile (\<lambda>a. a \<noteq> ''--'') args))"

definition ConsumeFlags :: "'v Flag list \<Rightarrow> bool \<Rightarrow> string list \<Rightarrow> 'v \<Rightarrow> unit result \<times> string list \<times> 'v" where
  "ConsumeFlags fs recognize_mark args v =
     (if \<not> recognize_mark then ConsumeFlagsImpl fs args v
      else case SeparateByEndOfOptionMark args of
             (before, after) \<Rightarrow> (case ConsumeFlagsImpl fs before v of (r, args, v) \<Rightarrow> (r, args @ after, v)))"

fun process_all :: "'v Flag list \<Rightarrow> string \<Rightarrow> string option \<Rightarrow> FlagProcessResult \<Rightarrow> 'v \<Rightarrow> FlagProcessResult result \<times> 'v" where
  "process_all [] arg next_arg outcome v = (Ok outcome, v)"
| "process_all (f # fs) arg next_arg outcome v =
     (case Process f arg next_arg v of
        (Inl e, v) \<Rightarrow> (Inl e, v)
      | (Inr r, v) \<Rightarrow>
          if r = kFlagSkip then process_all fs arg next_arg outcome v
          else if outcome \<noteq> kFlagSkip then (Err Cf_Error, v)
          else process_all fs arg next_arg r v)"

function ConsumeFlagsConstrained :: "'v Flag list \<Rightarrow> string list \<Rightarrow> 'v \<Rightarrow> unit result \<times> string list \<times> 'v" where
  "ConsumeFlagsConstrained fs [] v = (Ok (), [], v)"
| "ConsumeFlagsConstrained fs (arg # rest) v =
     (case process_all fs arg (next_of rest) kFlagSkip v of
        (Inl e, v) \<Rightarrow> (Inl e, arg # rest, v)
      | (Inr kFlagSkip, v) \<Rightarrow> (Ok (), arg # rest, v)
      | (Inr kFlagConsumed, v) \<Rightarrow> ConsumeFlagsConstrained fs rest v
      | (Inr kFlagConsumedWithFollowing, v) \<Rightarrow>
          (case rest of [] \<Rightarrow> (Err Undefined_Behaviour, arg # rest, v) | _ # rest \<Rightarrow> ConsumeFlagsConstrained fs rest v)
      | (Inr kFlagConsumedOnlyFollowing, v) \<Rightarrow>
          (case rest of [] \<Rightarrow> (Err Undefined_Behaviour, arg # rest, v) | _ # rest \<Rightarrow> ConsumeFlagsConstrained fs (arg # rest) v))"
  by pat_completeness auto
termination
  by (relation "measure (\<lambda>(f, args, v). length args)") auto

subsection \<open>Flags of the usual types\<close>

text \<open>The checks of the aliases of these flags cannot fail, so that they are lists here.\<close>

definition GflagsCompatFlag_aliases :: "string \<Rightarrow> FlagAlias list" where
  "GflagsCompatFlag_aliases n =
     [mk_alias kFlagPrefix (''-'' @ n @ ''=''), mk_alias kFlagPrefix (''--'' @ n @ ''=''),
      mk_alias kFlagConsumesFollowing (''-'' @ n), mk_alias kFlagConsumesFollowing (''--'' @ n)]"

definition GflagsCompatBoolFlagBase_aliases :: "string \<Rightarrow> FlagAlias list" where
  "GflagsCompatBoolFlagBase_aliases n =
     [mk_alias kFlagPrefix (''-'' @ n @ ''=''), mk_alias kFlagPrefix (''--'' @ n @ ''=''),
      mk_alias kFlagExact (''-'' @ n), mk_alias kFlagExact (''--'' @ n),
      mk_alias kFlagExact (''-no'' @ n), mk_alias kFlagExact (''--no'' @ n)]"

definition typed_flag :: "FlagAlias list \<Rightarrow> ('a \<Rightarrow> string) \<Rightarrow> (FlagMatch \<Rightarrow> 'a \<Rightarrow> unit result \<times> 'a) \<Rightarrow> 'a Flag" where
  "typed_flag as get sf = Setter sf (Getter get (new_flag\<lparr>aliases := as\<rparr>))"

definition fmt_bool :: "bool \<Rightarrow> string" where
  "fmt_bool b = (if b then ''true'' else ''false'')"

definition string_flag :: "string \<Rightarrow> string Flag" where
  "string_flag n = typed_flag (GflagsCompatFlag_aliases n) id (\<lambda>m _. (Ok (), match_value m))"

text \<open>\<^verbatim>\<open>strtoll\<close> with base 0: the base is that of the notation of the literal.\<close>

definition literal_base :: "string \<Rightarrow> nat \<times> string" where
  "literal_base s =
     (case s of
        z # x # d # r \<Rightarrow>
          if z = CHR ''0'' \<and> (x = CHR ''x'' \<or> x = CHR ''X'') \<and> is_digit 16 d then (16, d # r)
          else if z = CHR ''0'' then (8, s) else (10, s)
      | z # r \<Rightarrow> if z = CHR ''0'' then (8, s) else (10, s)
      | [] \<Rightarrow> (10, s))"

definition ParseInteger_int32 :: "string \<Rightarrow> int option" where
  "ParseInteger_int32 s =
     (if s = [] then None
      else case sign_split (dropWhile isspace s) of
             (neg, r) \<Rightarrow>
               (case literal_base r of
                  (b, ds) \<Rightarrow>
                    if ds = [] \<or> \<not> list_all (is_digit b) ds then None
                    else let v = (if neg then - int (digits_value b ds) else int (digits_value b ds))
                         in if \<not> in_long v then None else if to_int32 v \<noteq> v then None else Some v))"

definition int32_flag :: "string \<Rightarrow> int Flag" where
  "int32_flag n = typed_flag (GflagsCompatFlag_aliases n) to_string
     (\<lambda>m v. case ParseInteger_int32 (match_value m) of None \<Rightarrow> (Err Cf_Error, v) | Some r \<Rightarrow> (Ok (), r))"

text \<open>\<^verbatim>\<open>absl::SimpleAtoi\<close> and \<^verbatim>\<open>absl::SimpleAtob\<close> are parameters.\<close>

definition size_flag :: "(string \<Rightarrow> nat option) \<Rightarrow> string \<Rightarrow> nat Flag" where
  "size_flag SimpleAtoi n = typed_flag (GflagsCompatFlag_aliases n) (\<lambda>v. to_string (int v))
     (\<lambda>m v. case SimpleAtoi (match_value m) of None \<Rightarrow> (Err Cf_Error, v) | Some r \<Rightarrow> (Ok (), r))"

definition GflagsCompatBoolFlagSetter :: "string \<Rightarrow> FlagMatch \<Rightarrow> bool \<Rightarrow> unit result \<times> bool" where
  "GflagsCompatBoolFlagSetter n m v =
     (let key = match_key m
      in if key = ''-'' @ n \<or> key = ''--'' @ n then (Ok (), True)
         else if key = ''-no'' @ n \<or> key = ''--no'' @ n then (Ok (), False)
         else if key = ''-'' @ n @ ''='' \<or> key = ''--'' @ n @ ''=''
         then (if match_value m = ''true'' then (Ok (), True) else if match_value m = ''false'' then (Ok (), False) else (Err Cf_Error, v))
         else (Err Cf_Error, v))"

definition bool_flag :: "string \<Rightarrow> bool Flag" where
  "bool_flag n = typed_flag (GflagsCompatBoolFlagBase_aliases n) fmt_bool (GflagsCompatBoolFlagSetter n)"

definition strings_flag :: "string \<Rightarrow> string list Flag" where
  "strings_flag n = typed_flag (GflagsCompatFlag_aliases n) (StrJoin '','')
     (\<lambda>m v. (Ok (), if match_value m = [] then [] else StrSplit (CHR '','') (match_value m)))"

fun parse_bools :: "(string \<Rightarrow> bool option) \<Rightarrow> bool \<Rightarrow> string list \<Rightarrow> bool list option" where
  "parse_bools SimpleAtob default_value [] = Some []"
| "parse_bools SimpleAtob default_value (s # ss) =
     (case (if s = [] then Some default_value else SimpleAtob s) of
        None \<Rightarrow> None
      | Some b \<Rightarrow> map_option (\<lambda>bs. b # bs) (parse_bools SimpleAtob default_value ss))"

definition bools_flag :: "(string \<Rightarrow> bool option) \<Rightarrow> string \<Rightarrow> bool \<Rightarrow> bool list Flag" where
  "bools_flag SimpleAtob n default_value = typed_flag (GflagsCompatFlag_aliases n) (\<lambda>v. StrJoin '','' (map fmt_bool v))
     (\<lambda>m v. if match_value m = [] then (Ok (), [])
            else case parse_bools SimpleAtob default_value (StrSplit (CHR '','') (match_value m)) of
                   None \<Rightarrow> (Err Cf_Error, [])
                 | Some bs \<Rightarrow> (Ok (), bs))"

definition InvalidFlagGuard :: "'v Flag" where
  "InvalidFlagGuard =
     Setter (\<lambda>_ v. (Err Cf_Error, v))
       (Help ''This executable only supports the flags in `-help`. Positional arguments may be supported.''
         (UnvalidatedAlias (mk_alias kFlagPrefix ''-'') new_flag))"

definition UnexpectedArgumentGuard :: "'v Flag" where
  "UnexpectedArgumentGuard =
     Setter (\<lambda>_ v. (Err Cf_Error, v))
       (Help ''This executable only supports the flags in `-help`. Positional arguments are not supported.''
         (UnvalidatedAlias (mk_alias kFlagPrefix []) new_flag))"

text \<open>Flags over one variable as flags over a larger state.\<close>

definition lift_flag :: "('v \<Rightarrow> 'a) \<Rightarrow> ('a \<Rightarrow> 'v \<Rightarrow> 'v) \<Rightarrow> 'a Flag \<Rightarrow> 'v Flag" where
  "lift_flag get put f =
     \<lparr>aliases = aliases f, help_text = help_text f, getter = map_option (\<lambda>g v. g (get v)) (getter f),
      setter = map_option (\<lambda>sf m v. case sf m (get v) of (r, a) \<Rightarrow> (r, put a v)) (setter f)\<rparr>"

subsection \<open>Descriptions\<close>

text \<open>The stream operators, and the description in XML. The order in which a hash set is iterated is a parameter.\<close>

definition show_alias :: "FlagAlias \<Rightarrow> string result" where
  "show_alias a =
     (case alias_mode a of
        kFlagExact \<Rightarrow> Ok (alias_name a)
      | kFlagPrefix \<Rightarrow> Ok (alias_name a @ ''*'')
      | kFlagConsumesFollowing \<Rightarrow> Ok (alias_name a @ '' *'')
      | kFlagConsumesArbitrary \<Rightarrow> Err Check_Failed)"

fun show_aliases :: "FlagAlias list \<Rightarrow> string list result" where
  "show_aliases [] = Ok []"
| "show_aliases (a # as) = bind_result (show_alias a) (\<lambda>s. bind_result (show_aliases as) (\<lambda>ss. Ok (s # ss)))"

definition show_flag :: "'v Flag \<Rightarrow> 'v \<Rightarrow> string result" where
  "show_flag f v =
     bind_result (show_aliases (aliases f)) (\<lambda>names.
       Ok (''['' @ StrJoin '', '' names @ '']'' @ [CHR 0x0A] @
           (case help_text f of None \<Rightarrow> [] | Some h \<Rightarrow> ''('' @ h @ '')'' @ [CHR 0x0A]) @
           (case getter f of None \<Rightarrow> [] | Some g \<Rightarrow> ''(Current value: '' @ [CHR 0x22] @ g v @ [CHR 0x22] @ '')'' @ [CHR 0x0A])))"

definition XmlEscape :: "string \<Rightarrow> string" where
  "XmlEscape s = concat (map (\<lambda>c. if c = CHR ''<'' then ''&lt;'' else if c = CHR ''>'' then ''&gt;'' else [c]) s)"

definition ConsumePrefix :: "string \<Rightarrow> string \<Rightarrow> string" where
  "ConsumePrefix pfx s = (if take (length pfx) s = pfx then drop (length pfx) s else s)"

definition name_guess :: "FlagAlias \<Rightarrow> string option" where
  "name_guess a =
     (if take 1 (alias_name a) \<noteq> ''-'' then None
      else let n = ConsumePrefix ''-'' (drop 1 (alias_name a))
           in case alias_mode a of
                kFlagExact \<Rightarrow> Some (ConsumePrefix ''no'' n)
              | kFlagConsumesFollowing \<Rightarrow> Some n
              | kFlagPrefix \<Rightarrow> if n \<noteq> [] \<and> last n = CHR ''='' then Some (butlast n) else None
              | kFlagConsumesArbitrary \<Rightarrow> None)"

definition has_bool_aliases :: "'v Flag \<Rightarrow> string \<Rightarrow> bool" where
  "has_bool_aliases f n = list_all (\<lambda>a. HasAlias a f) (GflagsCompatBoolFlagBase_aliases n)"

definition has_other_aliases :: "'v Flag \<Rightarrow> string \<Rightarrow> bool" where
  "has_other_aliases f n = list_all (\<lambda>a. HasAlias a f) (GflagsCompatFlag_aliases n)"

definition has_help_aliases :: "'v Flag \<Rightarrow> bool" where
  "has_help_aliases f \<longleftrightarrow> HasAlias (mk_alias kFlagExact ''-help'') f \<and> HasAlias (mk_alias kFlagExact ''--help'') f"

definition xml_line :: "string \<Rightarrow> string \<Rightarrow> string" where
  "xml_line tag text = ''  <'' @ tag @ ''>'' @ text @ ''</'' @ tag @ ''>'' @ [CHR 0x0A]"

definition xml_element :: "'v Flag \<Rightarrow> string \<Rightarrow> 'v \<Rightarrow> string" where
  "xml_element f n v =
     (let val = (case getter f of None \<Rightarrow> [] | Some g \<Rightarrow> XmlEscape (g v))
      in ''<flag>'' @ [CHR 0x0A] @ xml_line ''file'' ''file.cc'' @ xml_line ''name'' (XmlEscape n) @
         xml_line ''meaning'' (case help_text f of None \<Rightarrow> [] | Some h \<Rightarrow> XmlEscape h) @
         xml_line ''default'' val @ xml_line ''current'' val @
         xml_line ''type'' (if has_bool_aliases f n \<or> has_help_aliases f then ''bool'' else ''string'') @ ''</flag>'' @ [CHR 0x0A])"

fun write_names :: "'v Flag \<Rightarrow> 'v \<Rightarrow> string list \<Rightarrow> bool \<Rightarrow> string \<Rightarrow> bool \<times> string" where
  "write_names f v [] found out = (found, out)"
| "write_names f v (n # ns) found out =
     (let true_count = length (filter id [has_bool_aliases f n, has_other_aliases f n, has_help_aliases f])
      in if true_count > 1 then (False, out)
         else if true_count = 0 then write_names f v ns found out
         else write_names f v ns True (out @ xml_element f n v))"

definition WriteGflagsCompatXml :: "(string set \<Rightarrow> string list) \<Rightarrow> 'v Flag \<Rightarrow> 'v \<Rightarrow> string \<Rightarrow> bool \<times> string" where
  "WriteGflagsCompatXml order f v out =
     write_names f v (order {n. Some n \<in> name_guess ` set (aliases f)}) False out"

fun WriteGflagsCompatXml_all :: "(string set \<Rightarrow> string list) \<Rightarrow> 'v Flag list \<Rightarrow> 'v \<Rightarrow> string \<Rightarrow> bool \<times> string" where
  "WriteGflagsCompatXml_all order [] v out = (True, out)"
| "WriteGflagsCompatXml_all order (f # fs) v out =
     (case WriteGflagsCompatXml order f v out of (ok, out) \<Rightarrow> if \<not> ok then (False, out) else WriteGflagsCompatXml_all order fs v out)"

subsection \<open>Asking for help\<close>

definition help_bool_opts :: "string list" where
  "help_bool_opts = [''help'', ''helpfull'', ''helpshort'', ''helppackage'', ''helpxml'', ''version'', ''h'']"

definition help_str_opts :: "string list" where
  "help_str_opts = [''helpon'', ''helpmatch'']"

definition HasHelpFlag :: "string list \<Rightarrow> bool result" where
  "HasHelpFlag args =
     (let flags = map (\<lambda>n. lift_flag fst (\<lambda>b v. (b, snd v)) (bool_flag n)) help_bool_opts @
                  map (\<lambda>n. lift_flag snd (\<lambda>s v. (fst v, s)) (string_flag n)) help_str_opts
      in case ConsumeFlags flags False args (False, []) of
           (Inl e, _) \<Rightarrow> Inl e
         | (Inr _, copied_args, _) \<Rightarrow> Ok (length args \<noteq> length copied_args))"

lemma Gflags_aliases_valid:
  "add_aliases (GflagsCompatFlag_aliases n) new_flag = Ok (new_flag\<lparr>aliases := GflagsCompatFlag_aliases n\<rparr> :: 'v Flag)"
  "add_aliases (GflagsCompatBoolFlagBase_aliases n) new_flag = Ok (new_flag\<lparr>aliases := GflagsCompatBoolFlagBase_aliases n\<rparr> :: 'v Flag)"
proof -
  have len: "a \<noteq> b" if "length a \<noteq> length b" for a b :: string using that by auto
  show "add_aliases (GflagsCompatFlag_aliases n) new_flag = Ok (new_flag\<lparr>aliases := GflagsCompatFlag_aliases n\<rparr> :: 'v Flag)"
    by (simp add: GflagsCompatFlag_aliases_def Alias_def ValidateAlias_def UnvalidatedAlias_def HasAlias_def mk_alias_def new_flag_def len)
  show "add_aliases (GflagsCompatBoolFlagBase_aliases n) new_flag = Ok (new_flag\<lparr>aliases := GflagsCompatBoolFlagBase_aliases n\<rparr> :: 'v Flag)"
    by (simp add: GflagsCompatBoolFlagBase_aliases_def Alias_def ValidateAlias_def UnvalidatedAlias_def HasAlias_def mk_alias_def new_flag_def len)
qed

subsection \<open>What is consumed\<close>

definition alias_matches :: "FlagAlias \<Rightarrow> string \<Rightarrow> bool" where
  "alias_matches a arg \<longleftrightarrow>
     (if alias_mode a = kFlagPrefix then take (length (alias_name a)) (normalized arg) = normalized (alias_name a)
      else normalized arg = normalized (alias_name a))"

lemma alias_matches_simps:
  "alias_mode a = kFlagPrefix \<Longrightarrow> alias_matches a arg \<longleftrightarrow> take (length (alias_name a)) (normalized arg) = normalized (alias_name a)"
  "alias_mode a \<noteq> kFlagPrefix \<Longrightarrow> alias_matches a arg \<longleftrightarrow> normalized arg = normalized (alias_name a)"
  by (simp_all add: alias_matches_def)

definition matches :: "'v Flag \<Rightarrow> string \<Rightarrow> bool" where
  "matches f arg \<longleftrightarrow> list_ex (\<lambda>a. alias_matches a arg) (aliases f)"

lemma calling_skip: "calling sf k x r v = (Ok kFlagSkip, v') \<Longrightarrow> r = kFlagSkip"
  by (auto simp: calling_def split: prod.splits sum.splits)

lemma process_aliases_skip:
  "process_aliases sf as arg nx v = (Ok kFlagSkip, v') \<Longrightarrow> \<not> list_ex (\<lambda>a. alias_matches a arg) as \<and> v' = v"
  by (induction sf as arg nx v rule: process_aliases.induct)
     (auto simp: alias_matches_simps dest!: calling_skip split: FlagAliasMode.splits if_splits option.splits)

lemma process_aliases_unmatched:
  "\<not> list_ex (\<lambda>a. alias_matches a arg) as \<Longrightarrow> process_aliases sf as arg nx v = (Ok kFlagSkip, v)"
  by (induction sf as arg nx v rule: process_aliases.induct) (auto simp: alias_matches_simps split: FlagAliasMode.splits if_splits)

lemma Process_skip: "Process f arg nx v = (Ok kFlagSkip, v') \<Longrightarrow> \<not> matches f arg \<and> v' = v"
  by (auto simp: Process_def matches_def dest!: process_aliases_skip split: option.splits if_splits)

lemma Process_unmatched: "\<not> matches f arg \<Longrightarrow> setter f \<noteq> None \<Longrightarrow> Process f arg nx v = (Ok kFlagSkip, v)"
  by (auto simp: Process_def matches_def process_aliases_unmatched)

lemma Parse_left:
  assumes "Parse f args v = (Ok u, args', v')"
  shows "subseq args' args \<and> (\<forall>a\<in>set args'. \<not> matches f a)"
  using assms
proof (induction f args v arbitrary: args' rule: Parse.induct)
  case (2 f arg rest v)
  show ?case
  proof (cases "Process f arg (next_of rest) v")
    case (Pair r w)
    show ?thesis
    proof (cases r)
      case (Inl e)
      then show ?thesis using "2.prems" Pair by simp
    next
      case (Inr x)
      note p = Pair [unfolded Inr]
      show ?thesis
      proof (cases x)
        case kFlagSkip
        then obtain q where q: "Parse f rest w = (Ok u, q, v')" "args' = arg # q"
          using "2.prems" p by (auto split: prod.splits)
        moreover have "\<not> matches f arg" using Process_skip [OF p [unfolded kFlagSkip]] by simp
        ultimately show ?thesis using "2.IH"(1) [OF p [symmetric]] kFlagSkip by auto
      next
        case kFlagConsumed
        then show ?thesis using "2.IH"(2) [OF p [symmetric]] "2.prems" p by (auto intro: subseq_Cons')
      next
        case kFlagConsumedWithFollowing
        then obtain y ys where "rest = y # ys" "Parse f ys w = (Ok u, args', v')" using "2.prems" p by (auto split: list.splits)
        then show ?thesis using "2.IH"(3) [OF p [symmetric]] kFlagConsumedWithFollowing by (auto intro!: list_emb_Cons)
      next
        case kFlagConsumedOnlyFollowing
        then obtain y ys where y: "rest = y # ys" "Parse f (arg # ys) w = (Ok u, args', v')" using "2.prems" p by (auto split: list.splits)
        then have "subseq args' (arg # ys) \<and> (\<forall>a\<in>set args'. \<not> matches f a)" using "2.IH"(4) [OF p [symmetric]] kFlagConsumedOnlyFollowing by auto
        moreover have "subseq (arg # ys) (arg # rest)" using y(1) by (simp add: list_emb_Cons)
        ultimately show ?thesis by (metis subseq_order.order_trans)
      qed
    qed
  qed
qed simp

lemma ConsumeFlagsImpl_left:
  assumes "ConsumeFlagsImpl fs args v = (Ok u, args', v')"
  shows "subseq args' args \<and> (\<forall>a\<in>set args'. \<forall>f\<in>set fs. \<not> matches f a)"
  using assms
proof (induction fs args v rule: ConsumeFlagsImpl.induct)
  case (2 f fs args v)
  obtain q w where q: "Parse f args v = (Ok (), q, w)" "ConsumeFlagsImpl fs q w = (Ok u, args', v')"
    using "2.prems" by (auto split: prod.splits sum.splits)
  then have left: "subseq q args" "\<forall>a\<in>set q. \<not> matches f a" using Parse_left [OF q(1)] by auto
  have rest: "subseq args' q" "\<forall>a\<in>set args'. \<forall>f\<in>set fs. \<not> matches f a" using "2.IH" [OF q(1) [symmetric]] q(2) by auto
  then have "set args' \<subseteq> set q" by (auto elim: list_emb_set)
  then show ?case using left rest subseq_order.order_trans [of args' q args] by auto
qed simp

lemma process_all_skip:
  "process_all fs arg nx kFlagSkip v = (Ok kFlagSkip, v') \<Longrightarrow> (\<forall>f\<in>set fs. \<not> matches f arg) \<and> v' = v"
proof (induction fs arbitrary: v)
  case (Cons f fs)
  have stays: "process_all fs arg nx r v = (Ok kFlagSkip, v') \<Longrightarrow> r = kFlagSkip" for r v and fs :: "'a Flag list"
    by (induction fs arbitrary: r v) (auto split: prod.splits sum.splits if_splits)
  obtain w where w: "Process f arg nx v = (Ok kFlagSkip, w)" "process_all fs arg nx kFlagSkip w = (Ok kFlagSkip, v')"
    using Cons.prems by (auto split: prod.splits sum.splits if_splits dest: stays)
  then show ?case using Process_skip [OF w(1)] Cons.IH by auto
qed simp

lemma ConsumeFlagsConstrained_left:
  assumes "ConsumeFlagsConstrained fs args v = (Ok u, args', v')" and "args' \<noteq> []"
  shows "\<forall>f\<in>set fs. \<not> matches f (hd args')"
  using assms(1)
proof (induction fs args v rule: ConsumeFlagsConstrained.induct)
  case (1 fs v)
  then show ?case using assms(2) by simp
next
  case (2 fs arg rest v)
  obtain r w where p: "process_all fs arg (next_of rest) kFlagSkip v = (r, w)" by fastforce
  show ?case
  proof (cases r)
    case (Inl e)
    then show ?thesis using "2.prems" p by simp
  next
    case (Inr x)
    then show ?thesis using "2.prems" "2.IH" [OF p [unfolded Inr, symmetric]] p
      by (cases x) (auto dest: process_all_skip split: list.splits)
  qed
qed

lemma unmatched_by_guard: "\<not> matches InvalidFlagGuard a \<Longrightarrow> \<not> LikelyFlag a"
  by (cases a) (auto simp: matches_def InvalidFlagGuard_def Setter_def Help_def UnvalidatedAlias_def new_flag_def mk_alias_def alias_matches_def normalized_def
    LikelyFlag_def split: if_splits)

lemma unmatched_by_argument_guard: "matches UnexpectedArgumentGuard a"
  by (simp add: matches_def UnexpectedArgumentGuard_def Setter_def Help_def UnvalidatedAlias_def new_flag_def mk_alias_def alias_matches_def normalized_def)

text \<open>
  C21: Consuming flags always ends. When it succeeds, what is left of the arguments (of those before the mark, when the mark is
  recognised) is a subsequence of them in which no flag matches any argument, and what follows the mark is
  untouched. So after the guard against unknown flags no argument that looks like a flag is left, and after the
  guard against arguments none at all. When flags are taken from the front only, the first argument that is
  left matches no flag.
\<close>

theorem consumed_flags_leave_nothing_matching:
  assumes "ConsumeFlags fs mark args v = (Ok u, args', v')"
  shows "(\<exists>left. args' = left @ (if mark then tl (dropWhile (\<lambda>a. a \<noteq> ''--'') args) else []) \<and>
      subseq left (if mark then takeWhile (\<lambda>a. a \<noteq> ''--'') args else args) \<and>
      list_all (\<lambda>a. list_all (\<lambda>f. \<not> matches f a) fs) left \<and>
      (InvalidFlagGuard \<notin> set fs \<or> \<not> list_ex LikelyFlag left) \<and> (UnexpectedArgumentGuard \<notin> set fs \<or> left = [])) \<and>
    (case ConsumeFlagsConstrained fs args v of
       (Inr _, a # _, _) \<Rightarrow> list_all (\<lambda>f. \<not> matches f a) fs
     | _ \<Rightarrow> True)"
proof
  let ?before = "if mark then takeWhile (\<lambda>a. a \<noteq> ''--'') args else args"
  let ?after = "if mark then tl (dropWhile (\<lambda>a. a \<noteq> ''--'') args) else []"
  obtain left where run: "ConsumeFlagsImpl fs ?before v = (Ok u, left, v')" and args': "args' = left @ ?after"
    using assms by (auto simp: ConsumeFlags_def SeparateByEndOfOptionMark_def split: if_splits prod.splits)
  have left: "subseq left ?before" "\<forall>a\<in>set left. \<forall>f\<in>set fs. \<not> matches f a" using ConsumeFlagsImpl_left [OF run] by auto
  have "InvalidFlagGuard \<notin> set fs \<or> \<not> list_ex LikelyFlag left" using left(2) unmatched_by_guard by (fastforce simp: list_ex_iff)
  moreover have "UnexpectedArgumentGuard \<notin> set fs \<or> left = []" using left(2) unmatched_by_argument_guard by (metis list.set_sel(1))
  ultimately show "\<exists>left. args' = left @ ?after \<and> subseq left ?before \<and> list_all (\<lambda>a. list_all (\<lambda>f. \<not> matches f a) fs) left \<and>
      (InvalidFlagGuard \<notin> set fs \<or> \<not> list_ex LikelyFlag left) \<and> (UnexpectedArgumentGuard \<notin> set fs \<or> left = [])"
    using args' left by (intro exI [of _ left]) (simp add: list_all_iff)
  show "case ConsumeFlagsConstrained fs args v of (Inr _, a # _, _) \<Rightarrow> list_all (\<lambda>f. \<not> matches f a) fs | _ \<Rightarrow> True"
    using ConsumeFlagsConstrained_left [of fs args v] by (fastforce simp: list_all_iff split: prod.splits sum.splits list.splits)
qed

theorem consumed_flags_leave_nothing_matching_witness:
  "ConsumeFlags [string_flag ''name'', InvalidFlagGuard] True [''start'', ''--name=x'', ''--'', ''-y''] [] = (Ok (), [''start'', ''-y''], ''x'') \<and>
   list_all (\<lambda>f. \<not> matches f ''start'') [string_flag ''name'', InvalidFlagGuard]"
proof -
  have run: "ConsumeFlags [string_flag ''name'', InvalidFlagGuard] True [''start'', ''--name=x'', ''--'', ''-y''] [] = (Ok (), [''start'', ''-y''], ''x'')"
    by code_simp
  then show ?thesis using consumed_flags_leave_nothing_matching [OF run] by auto
qed

subsection \<open>Values that are printed are read back\<close>

text \<open>What a flag of one of the usual types promises.\<close>

locale printed_flag =
  fixes f :: "'a Flag" and n :: string and shown :: "'a \<Rightarrow> string" and ok :: "'a \<Rightarrow> bool"
  assumes shows_value: "getter f = Some shown"
    and has_setter: "setter f \<noteq> None"
    and prefixes: "take 2 (aliases f) = [mk_alias kFlagPrefix (''-'' @ n @ ''=''), mk_alias kFlagPrefix (''--'' @ n @ ''='')]"
    and reads_shown: "ok w \<Longrightarrow> k \<in> {''-'' @ n @ ''='', ''--'' @ n @ ''=''} \<Longrightarrow> the (setter f) \<lparr>match_key = k, match_value = shown w\<rparr> v = (Ok (), w)"

lemma shifted_name: "c \<noteq> d \<Longrightarrow> take (Suc (length N)) (c # N @ t) \<noteq> N @ [d]"
  by (induction N arbitrary: c t) auto

lemma normalized_append [simp]: "normalized (a @ b) = normalized a @ normalized b" "length (normalized a) = length a"
  by (simp_all add: normalized_def)

lemma normalized_chars [simp]: "normalized [] = []" "normalized (c # s) = (if c = CHR ''-'' then CHR ''_'' else c) # normalized s"
  by (simp_all add: normalized_def)

context printed_flag
begin

lemma aliases_eq: "\<exists>as. aliases f = mk_alias kFlagPrefix (''-'' @ n @ ''='') # mk_alias kFlagPrefix (''--'' @ n @ ''='') # as"
  using prefixes by (cases "aliases f"; cases "tl (aliases f)") auto

lemma Process_shown:
  assumes "ok w" and "dashes \<in> {''-'', ''--''}"
  shows "Process f (dashes @ n @ ''='' @ shown w) nx v = (Ok kFlagConsumed, w)"
proof -
  obtain sf where sf: "setter f = Some sf" using has_setter by blast
  obtain as where as: "aliases f = mk_alias kFlagPrefix (''-'' @ n @ ''='') # mk_alias kFlagPrefix (''--'' @ n @ ''='') # as"
    using aliases_eq by blast
  have shift: "take (Suc (length n)) (CHR ''_'' # normalized n @ t) \<noteq> normalized n @ ''=''" for t
    using shifted_name [of "CHR ''_''" "CHR ''=''" "normalized n" t] by simp
  have key: "sf \<lparr>match_key = k, match_value = shown w\<rparr> v = (Ok (), w)" if "k \<in> {''-'' @ n @ ''='', ''--'' @ n @ ''=''}" for k
    using reads_shown [OF assms(1) that, of v] sf by simp
  consider "dashes = ''-''" | "dashes = ''--''" using assms(2) by blast
  then show ?thesis
  proof cases
    case 1
    then show ?thesis using key [of "''-'' @ n @ ''=''"] by (simp add: Process_def sf as mk_alias_def calling_def)
  next
    case 2
    then show ?thesis using key [of "''--'' @ n @ ''=''"] shift [of "''='' @ normalized (shown w)"]
      by (simp add: Process_def sf as mk_alias_def calling_def)
  qed
qed

lemma Parse_unmatched: "\<forall>a\<in>set args. \<not> matches f a \<Longrightarrow> Parse f args v = (Ok (), args, v)"
  using has_setter by (induction args) (auto simp: Process_unmatched)

text \<open>Among other arguments the value is found and its argument removed.\<close>

lemma Parse_shown:
  assumes "ok w" and "dashes \<in> {''-'', ''--''}" and "\<forall>a\<in>set (pre @ post). \<not> matches f a"
  shows "Parse f (pre @ (dashes @ n @ ''='' @ shown w) # post) v = (Ok (), pre @ post, w)"
  using assms(3)
proof (induction pre)
  case Nil
  then show ?case using Process_shown [OF assms(1,2)] Parse_unmatched [of post] by simp
next
  case (Cons a pre)
  then show ?case using has_setter by (simp add: Process_unmatched)
qed

end

lemmas flag_defs = typed_flag_def Setter_def Getter_def new_flag_def GflagsCompatFlag_aliases_def GflagsCompatBoolFlagBase_aliases_def

interpretation string_f: printed_flag "string_flag n" n id "\<lambda>_. True" for n
  by unfold_locales (simp_all add: string_flag_def flag_defs)

lemma name_not_shifted: "n @ ''='' \<noteq> CHR ''-'' # n"
  using shifted_name [of "CHR ''-''" "CHR ''=''" n "[]"] by auto

interpretation bool_f: printed_flag "bool_flag n" n fmt_bool "\<lambda>_. True" for n
  by unfold_locales (auto simp: bool_flag_def flag_defs GflagsCompatBoolFlagSetter_def fmt_bool_def name_not_shifted dest: arg_cong [of _ _ length])

interpretation strings_f: printed_flag "strings_flag n" n "StrJoin '',''" "\<lambda>w. w \<noteq> [[]] \<and> (\<forall>s\<in>set w. CHR '','' \<notin> set s)" for n
proof unfold_locales
  fix w :: "string list" and k v
  assume w: "w \<noteq> [[]] \<and> (\<forall>s\<in>set w. CHR '','' \<notin> set s)"
  have "StrJoin '','' w = [] \<Longrightarrow> w = []" using w by (cases w; cases "tl w") auto
  then show "the (setter (strings_flag n)) \<lparr>match_key = k, match_value = StrJoin '','' w\<rparr> v = (Ok (), w)"
    using w StrSplit_StrJoin [of w "CHR '',''"] by (cases "w = []") (auto simp: strings_flag_def flag_defs)
qed (simp_all add: strings_flag_def flag_defs)

lemma first_digit: "n > 0 \<Longrightarrow> hd (digits_of digit_lower 10 n) \<noteq> CHR ''0''"
proof (induction n rule: less_induct)
  case (less n)
  show ?case
  proof (cases "n < 10")
    case True
    have "of_char (digit_lower n) = (48 + n :: nat)" using True by (simp add: digit_lower_dec)
    moreover have "of_char (CHR ''0'') = (48 :: nat)" by simp
    ultimately have "digit_lower n \<noteq> CHR ''0''" using less.prems by auto
    then show ?thesis using True by (subst digits_of.simps) simp
  next
    case False
    then have "hd (digits_of digit_lower 10 n) = hd (digits_of digit_lower 10 (n div 10))" by (subst digits_of.simps) simp
    then show ?thesis using less.IH [of "n div 10"] False by simp
  qed
qed

lemma literal_base_decimal: "s \<noteq> [] \<Longrightarrow> hd s \<noteq> CHR ''0'' \<Longrightarrow> literal_base s = (10, s)"
  by (auto simp: literal_base_def split: list.splits)

lemma ParseInteger_to_string:
  assumes "in_int i"
  shows "ParseInteger_int32 (to_string i) = Some i"
proof -
  have digits: "list_all (is_digit 10) (digits_of digit_lower 10 k)" "digits_value 10 (digits_of digit_lower 10 k) = k" for k
    using dec_digits_is_digit by (auto simp: list_all_iff digits_value_digits_of)
  have no_space: "dropWhile isspace (digits_of digit_lower 10 k) = digits_of digit_lower 10 k" for k
  proof -
    have "is_digit 10 (hd (digits_of digit_lower 10 k))" using digits(1) [of k] by (cases "digits_of digit_lower 10 k") auto
    then have "\<not> isspace (hd (digits_of digit_lower 10 k))" by (auto simp: isspace_def is_digit_def digit_value_def Let_def split: if_splits)
    then show ?thesis by (cases "digits_of digit_lower 10 k") auto
  qed
  have no_sign: "sign_split (digits_of digit_lower 10 k) = (False, digits_of digit_lower 10 k)" for k
  proof -
    have "is_digit 10 (hd (digits_of digit_lower 10 k))" using digits(1) [of k] by (cases "digits_of digit_lower 10 k") auto
    then show ?thesis by (cases "digits_of digit_lower 10 k") (auto simp: sign_split_def is_digit_def digit_value_def)
  qed
  note long = in_int_in_long [OF assms] to_int32_id [OF assms]
  consider "i < 0" | "i = 0" | "i > 0" by linarith
  then show ?thesis
  proof cases
    case 1
    then have "literal_base (digits_of digit_lower 10 (nat (- i))) = (10, digits_of digit_lower 10 (nat (- i)))"
      by (intro literal_base_decimal) (simp_all add: first_digit)
    then show ?thesis using 1 long digits [of "nat (- i)"] by (simp add: ParseInteger_int32_def to_string_def sign_split_def isspace_def)
  next
    case 2
    have "ParseInteger_int32 (to_string 0) = Some 0" by code_simp
    then show ?thesis using 2 by simp
  next
    case 3
    then have "literal_base (digits_of digit_lower 10 (nat i)) = (10, digits_of digit_lower 10 (nat i))"
      by (intro literal_base_decimal) (simp_all add: first_digit)
    then show ?thesis using 3 long digits [of "nat i"] by (simp add: ParseInteger_int32_def to_string_def no_space no_sign)
  qed
qed

interpretation int32_f: printed_flag "int32_flag n" n to_string in_int for n
  by unfold_locales (auto simp: int32_flag_def flag_defs ParseInteger_to_string)

lemma size_flag_printed:
  assumes "\<forall>w < 2 ^ 64. SimpleAtoi (to_string (int w)) = Some w"
  shows "printed_flag (size_flag SimpleAtoi n) n (\<lambda>v. to_string (int v)) (\<lambda>w. w < 2 ^ 64)"
  using assms by unfold_locales (auto simp: size_flag_def flag_defs)

lemma bools_flag_printed:
  assumes "SimpleAtob ''true'' = Some True" and "SimpleAtob ''false'' = Some False"
  shows "printed_flag (bools_flag SimpleAtob n d) n (\<lambda>v. StrJoin '','' (map fmt_bool v)) (\<lambda>_. True)"
proof unfold_locales
  fix w k v
  have parse: "parse_bools SimpleAtob d (map fmt_bool w) = Some w" using assms by (induction w) (auto simp: fmt_bool_def)
  have ne: "StrJoin '','' (map fmt_bool w) = [] \<longleftrightarrow> w = []" by (cases w; cases "tl w") (auto simp: fmt_bool_def)
  have "\<forall>s\<in>set (map fmt_bool w). CHR '','' \<notin> set s" by (auto simp: fmt_bool_def)
  then show "the (setter (bools_flag SimpleAtob n d)) \<lparr>match_key = k, match_value = StrJoin '','' (map fmt_bool w)\<rparr> v = (Ok (), w)"
    using StrSplit_StrJoin [of "map fmt_bool w" "CHR '',''"] parse by (cases "w = []") (simp_all add: bools_flag_def flag_defs ne)
qed (simp_all add: bools_flag_def flag_defs)

text \<open>
  C22: For every type of flag, the text that the help output shows for a value sets the flag to that value: in any arguments of
  which none else matches the flag, the argument made of the name, with one dash or two, and the shown
  text is removed, and the variable has the value. This holds for all strings, all 32-bit integers
  (although literals with a leading zero are octal), all 64-bit sizes, all booleans, all lists of booleans, and lists of
  strings without commas other than the list of one empty string, which reads back as the empty list. For
  \<^verbatim>\<open>absl::SimpleAtoi\<close> and \<^verbatim>\<open>absl::SimpleAtob\<close> it is assumed that they read decimal numbers, true and false.
\<close>

theorem shown_flag_values_are_read_back:
  assumes "dashes \<in> {''-'', ''--''}" and "\<forall>w < 2 ^ 64. SimpleAtoi (to_string (int w)) = Some w"
    and "SimpleAtob ''true'' = Some True" and "SimpleAtob ''false'' = Some False"
  shows "(list_ex (matches (string_flag n)) (pre @ post) \<or>
      Parse (string_flag n) (pre @ (dashes @ n @ ''='' @ s) # post) va = (Ok (), pre @ post, s)) \<and>
    (list_ex (matches (int32_flag n)) (pre @ post) \<or> \<not> in_int i \<or>
      Parse (int32_flag n) (pre @ (dashes @ n @ ''='' @ to_string i) # post) vb = (Ok (), pre @ post, i)) \<and>
    (list_ex (matches (size_flag SimpleAtoi n)) (pre @ post) \<or> \<not> z < 2 ^ 64 \<or>
      Parse (size_flag SimpleAtoi n) (pre @ (dashes @ n @ ''='' @ to_string (int z)) # post) vc = (Ok (), pre @ post, z)) \<and>
    (list_ex (matches (bool_flag n)) (pre @ post) \<or>
      Parse (bool_flag n) (pre @ (dashes @ n @ ''='' @ fmt_bool b) # post) vd = (Ok (), pre @ post, b)) \<and>
    (list_ex (matches (strings_flag n)) (pre @ post) \<or> ss = [[]] \<or> list_ex (\<lambda>s. CHR '','' \<in> set s) ss \<or>
      Parse (strings_flag n) (pre @ (dashes @ n @ ''='' @ StrJoin '','' ss) # post) ve = (Ok (), pre @ post, ss)) \<and>
    (list_ex (matches (bools_flag SimpleAtob n d)) (pre @ post) \<or>
      Parse (bools_flag SimpleAtob n d) (pre @ (dashes @ n @ ''='' @ StrJoin '','' (map fmt_bool bs)) # post) vf = (Ok (), pre @ post, bs))"
  using string_f.Parse_shown [where dashes = dashes and pre = pre and post = post and n = n and w = s and v = va]
    int32_f.Parse_shown [where dashes = dashes and pre = pre and post = post and n = n and w = i and v = vb]
    printed_flag.Parse_shown [OF size_flag_printed [OF assms(2), of n], where dashes = dashes and pre = pre and post = post and w = z and v = vc]
    bool_f.Parse_shown [where dashes = dashes and pre = pre and post = post and n = n and w = b and v = vd]
    strings_f.Parse_shown [where dashes = dashes and pre = pre and post = post and n = n and w = ss and v = ve]
    printed_flag.Parse_shown [OF bools_flag_printed [OF assms(3,4), of n d], where dashes = dashes and pre = pre and post = post and w = bs and v = vf]
    assms(1)
  by (auto simp: list_ex_iff)

definition decimal_atoi :: "string \<Rightarrow> nat option" where
  "decimal_atoi s = map_option nat (strtol_value 10 s)"

definition word_atob :: "string \<Rightarrow> bool option" where
  "word_atob s = (if s = ''true'' then Some True else if s = ''false'' then Some False else None)"

theorem shown_flag_values_are_read_back_witness:
  "Parse (int32_flag ''cpus'') [''start'', ''--cpus=4'', ''x''] 2 = (Ok (), [''start'', ''x''], 4) \<and>
   Parse (strings_flag ''cpus'') [''start'', ''--cpus=a,,b'', ''x''] [] = (Ok (), [''start'', ''x''], [''a'', [], ''b'']) \<and>
   Parse (bools_flag word_atob ''cpus'' False) [''start'', ''--cpus=true,false'', ''x''] [] = (Ok (), [''start'', ''x''], [True, False])"
proof -
  have atoi: "\<forall>w < 2 ^ 64. decimal_atoi (to_string (int w)) = Some w"
    using strtol_value_to_string [of "[]"] by (simp add: decimal_atoi_def)
  have atob: "word_atob ''true'' = Some True" "word_atob ''false'' = Some False" by (simp_all add: word_atob_def)
  have none: "\<not> list_ex (matches (int32_flag ''cpus'')) ([''start''] @ [''x''])" "\<not> list_ex (matches (strings_flag ''cpus'')) ([''start''] @ [''x''])"
      "\<not> list_ex (matches (bools_flag word_atob ''cpus'' False)) ([''start''] @ [''x''])" "in_int 4"
    by code_simp+
  have args: "[''start''] @ (''--'' @ ''cpus'' @ ''='' @ to_string 4) # [''x''] = [''start'', ''--cpus=4'', ''x'']"
      "[''start''] @ (''--'' @ ''cpus'' @ ''='' @ StrJoin '','' [''a'', [], ''b'']) # [''x''] = [''start'', ''--cpus=a,,b'', ''x'']"
      "[''start''] @ (''--'' @ ''cpus'' @ ''='' @ StrJoin '','' (map fmt_bool [True, False])) # [''x''] = [''start'', ''--cpus=true,false'', ''x'']"
      "[''start''] @ [''x''] = [''start'', ''x'']"
    by code_simp+
  have two: "''--'' \<in> {''-'', ''--''}" by simp
  note again = shown_flag_values_are_read_back [OF two atoi atob, where n = "''cpus''" and pre = "[''start'']" and post = "[''x'']" and i = "4" and vb = "2" and
    ss = "[''a'', [], ''b'']" and ve = "[]" and d = "False" and bs = "[True, False]" and vf = "[]"]
  have "Parse (int32_flag ''cpus'') ([''start''] @ (''--'' @ ''cpus'' @ ''='' @ to_string 4) # [''x'']) 2 = (Ok (), [''start''] @ [''x''], 4)"
    using again none(1,4) by blast
  moreover have "\<not> list_ex (\<lambda>s. CHR '','' \<in> set s) [''a'', [], ''b'']" "[''a'', [], ''b''] \<noteq> [[]]" by simp_all
  then have "Parse (strings_flag ''cpus'') ([''start''] @ (''--'' @ ''cpus'' @ ''='' @ StrJoin '','' [''a'', [], ''b'']) # [''x'']) [] =
      (Ok (), [''start''] @ [''x''], [''a'', [], ''b''])"
    using again none(2) by blast
  moreover have "Parse (bools_flag word_atob ''cpus'' False) ([''start''] @ (''--'' @ ''cpus'' @ ''='' @ StrJoin '','' (map fmt_bool [True, False])) # [''x'']) [] =
      (Ok (), [''start''] @ [''x''], [True, False])"
    using again none(3) by blast
  ultimately show ?thesis unfolding args by blast
qed

text \<open>
  C39: Flags are matched with dashes and underscores exchanged, but a boolean flag is only set when it is spelled with the
  characters of its name: with any other spelling of the name after two dashes the argument is
  matched and then refused, although the same spelling with a value after an equals sign is accepted, and a flag of
  another type with the same name accepts it.
\<close>

theorem other_spellings_of_boolean_flags_are_refused:
  assumes "normalized a = normalized (''--'' @ n)" and "a \<noteq> ''--'' @ n"
  shows "Process (bool_flag n) a nx v = (Err Cf_Error, v) \<and>
    Process (bool_flag n) (a @ ''=true'') nx v = (Ok kFlagConsumed, True) \<and>
    Process (string_flag n) a (Some w) s = (Ok kFlagConsumedWithFollowing, w)"
proof -
  let ?N = "normalized n"
  have len: "length a = length n + 2" using arg_cong [OF assms(1), of length] by simp
  have a: "normalized a = CHR ''_'' # CHR ''_'' # ?N" using assms(1) by simp
  have shift: "take (Suc (length n)) (CHR ''_'' # ?N @ t) \<noteq> ?N @ ''=''" for t
    using shifted_name [of "CHR ''_''" "CHR ''=''" ?N t] by simp
  have s0: "CHR ''_'' # ?N \<noteq> ?N @ ''=''" using shift [of "[]"] by (simp add: take_Cons')
  have "a \<noteq> ''-'' @ n @ ''=''" using a s0 by auto
  moreover have "a \<noteq> ''-'' @ n" "a \<noteq> ''-no'' @ n" "a \<noteq> ''--no'' @ n" "a \<noteq> ''--'' @ n @ ''=''" using len by auto
  ultimately have refused: "GflagsCompatBoolFlagSetter n \<lparr>match_key = a, match_value = a\<rparr> v = (Err Cf_Error, v)"
    using assms(2) by (simp add: GflagsCompatBoolFlagSetter_def)
  have "Process (bool_flag n) a nx v = (Err Cf_Error, v)"
    using shift [of "[]"] by (simp add: Process_def bool_flag_def flag_defs mk_alias_def a calling_def refused)
  moreover have "GflagsCompatBoolFlagSetter n \<lparr>match_key = ''--'' @ n @ ''='', match_value = ''true''\<rparr> v = (Ok (), True)"
    using bool_f.reads_shown [of "''--'' @ n @ ''=''" n True v] by (simp add: bool_flag_def flag_defs fmt_bool_def)
  then have "Process (bool_flag n) (a @ ''=true'') nx v = (Ok kFlagConsumed, True)"
    using shift [of "''=true''"] len by (simp add: Process_def bool_flag_def flag_defs mk_alias_def a calling_def)
  moreover have "Process (string_flag n) a (Some w) s = (Ok kFlagConsumedWithFollowing, w)"
    using shift [of "[]"] by (simp add: Process_def string_flag_def flag_defs mk_alias_def a calling_def)
  ultimately show ?thesis by blast
qed

theorem other_spellings_of_boolean_flags_are_refused_witness:
  "Process (bool_flag ''use_sdcard'') ''--use-sdcard'' None False = (Err Cf_Error, False) \<and>
   Process (bool_flag ''use_sdcard'') ''--use-sdcard=true'' None False = (Ok kFlagConsumed, True)"
  using other_spellings_of_boolean_flags_are_refused [of "''--use-sdcard''" "''use_sdcard''" None False "[]" "[]"] by simp

text \<open>The description of a flag with a value is one element, with its name and its value.\<close>

lemma xml_of_string_flag:
  assumes "\<forall>S. finite S \<longrightarrow> set (order S) = S \<and> distinct (order S)" and "take 1 n \<noteq> ''-''"
  shows "WriteGflagsCompatXml order (string_flag n) v out = (True, out @ xml_element (string_flag n) n v)"
proof -
  have strip: "ConsumePrefix ''-'' n = n" "ConsumePrefix ''-'' (n @ ''='') = n @ ''=''"
    using assms(2) by (cases n; simp add: ConsumePrefix_def)+
  have two: "ConsumePrefix ''-'' (CHR ''-'' # s) = s" for s by (simp add: ConsumePrefix_def)
  have "name_guess ` set (aliases (string_flag n)) = {Some n}"
    using strip two by (simp add: string_flag_def flag_defs name_guess_def mk_alias_def)
  then have names: "{k. Some k \<in> name_guess ` set (aliases (string_flag n))} = {n}" by auto
  have "set (order {n}) = {n}" "distinct (order {n})" using assms(1) by auto
  then have "order {n} = [n]" by (cases "order {n}"; cases "tl (order {n})") auto
  moreover have "has_other_aliases (string_flag n) n" "\<not> has_bool_aliases (string_flag n) n" "\<not> has_help_aliases (string_flag n)"
    by (auto simp: has_other_aliases_def has_bool_aliases_def has_help_aliases_def HasAlias_def string_flag_def flag_defs mk_alias_def)
  ultimately show ?thesis by (simp add: WriteGflagsCompatXml_def names)
qed

end
