(* ===== verification/Instance_Selection.thy ===== *)
theory Instance_Selection
  imports Instance_Manager Flag_Parser
begin

section \<open>From arguments to groups\<close>

text \<open>
  \<^verbatim>\<open>host/commands/cvd/cli/selector\<close> and \<^verbatim>\<open>host/libs/config/instance_nums.cpp\<close>: how the arguments and the environment of a
  command name a group to create or to find. \<^verbatim>\<open>absl::SimpleAtoi\<close> is a parameter, as are the system's notion of the home directory
  and of a directory with host tools.
\<close>

type_synonym envs = "string \<rightharpoonup> string"

record SelectorOptions =
  sel_group_name :: "string option"
  sel_instance_names :: "string list option"

subsection \<open>Selector arguments\<close>

definition AsArgs :: "SelectorOptions \<Rightarrow> string list" where
  "AsArgs s =
     (case sel_group_name s of None \<Rightarrow> [] | Some g \<Rightarrow> [''--group_name='' @ g]) @
     (case sel_instance_names s of None \<Rightarrow> [] | Some ns \<Rightarrow> [''--instance_name='' @ StrJoin '','' ns])"

definition HandleGroupName :: "string \<Rightarrow> string result" where
  "HandleGroupName g = (if IsValidGroupName g then Ok g else Err Cf_Error)"

fun check_names :: "string list \<Rightarrow> string list \<Rightarrow> bool" where
  "check_names [] seen = True"
| "check_names (n # ns) seen =
     (if \<not> IsValidInstanceName n then False
      else if \<not> (n = [] \<or> n \<notin> set seen) then False
      else check_names ns (n # seen))"

definition HandleInstanceNames :: "string \<Rightarrow> string list result" where
  "HandleInstanceNames s = (let ns = StrSplit (CHR '','') s in if check_names ns [] then Ok ns else Err Cf_Error)"

definition HandleNameOpts :: "string option \<Rightarrow> string option \<Rightarrow> SelectorOptions result" where
  "HandleNameOpts g i =
     bind_result (case g of None \<Rightarrow> Ok None | Some g \<Rightarrow> map_sum id Some (HandleGroupName g)) (\<lambda>gname.
     bind_result (case i of None \<Rightarrow> Ok None | Some i \<Rightarrow> map_sum id Some (HandleInstanceNames i)) (\<lambda>inames.
       Ok \<lparr>sel_group_name = gname, sel_instance_names = inames\<rparr>))"

text \<open>The state of the two flags is a pair.\<close>

definition selector_flags :: "(string option \<times> string option) Flag list" where
  "selector_flags =
     [Setter (\<lambda>m v. (Ok (), (Some (match_value m), snd v))) (new_flag\<lparr>aliases := GflagsCompatFlag_aliases ''group_name''\<rparr>),
      Setter (\<lambda>m v. (Ok (), (fst v, Some (match_value m)))) (new_flag\<lparr>aliases := GflagsCompatFlag_aliases ''instance_name''\<rparr>)]"

definition ParseCommonSelectorArguments :: "string list \<Rightarrow> SelectorOptions result \<times> string list" where
  "ParseCommonSelectorArguments args =
     (case ConsumeFlagsConstrained selector_flags args (None, None) of
        (Inl e, args, _) \<Rightarrow> (Inl e, args)
      | (Inr _, args, (g, i)) \<Rightarrow> (HandleNameOpts g i, args))"

record SeparatedArguments =
  prog_path :: string
  cvd_args :: "string list"
  sub_cmd :: "string option"
  sub_cmd_args :: "string list"

definition SeparateArguments :: "string list \<Rightarrow> SeparatedArguments result" where
  "SeparateArguments input_args =
     (case input_args of
        [] \<Rightarrow> Err Cf_Error
      | prog # args \<Rightarrow>
          (case ParseCommonSelectorArguments args of
             (Inl e, _) \<Rightarrow> Inl e
           | (Inr selectors, args) \<Rightarrow>
               Ok \<lparr>prog_path = prog, cvd_args = AsArgs selectors, sub_cmd = (case args of [] \<Rightarrow> None | c # _ \<Rightarrow> Some c), sub_cmd_args = tl args\<rparr>))"

definition ExtractCvdArgs :: "string list \<Rightarrow> string list result \<times> string list" where
  "ExtractCvdArgs args =
     (case SeparateArguments args of
        Inl e \<Rightarrow> (Inl e, args)
      | Inr s \<Rightarrow> (Ok (cvd_args s), prog_path s # (case sub_cmd s of None \<Rightarrow> [] | Some c \<Rightarrow> [c]) @ sub_cmd_args s))"

subsection \<open>Instance numbers\<close>

record InstanceNumsCalculator =
  base_instance_num :: "int option"
  num_instances :: "int option"
  instance_nums :: "int list"

definition NumInstances :: "int \<Rightarrow> InstanceNumsCalculator \<Rightarrow> InstanceNumsCalculator" where
  "NumInstances k c = c\<lparr>num_instances := Some k\<rparr>"

definition BaseInstanceNum :: "int \<Rightarrow> InstanceNumsCalculator \<Rightarrow> InstanceNumsCalculator" where
  "BaseInstanceNum k c = c\<lparr>base_instance_num := Some k\<rparr>"

definition InstanceNums :: "int list \<Rightarrow> InstanceNumsCalculator \<Rightarrow> InstanceNumsCalculator" where
  "InstanceNums ks c = c\<lparr>instance_nums := ks\<rparr>"

text \<open>The loop that counts up from a base, in \<^verbatim>\<open>int\<close>; overflow is undefined.\<close>

definition count_from :: "int \<Rightarrow> int \<Rightarrow> int list result" where
  "count_from base k =
     (if k \<le> 0 then Ok [] else if \<not> in_int (base + k - 1) then Err Undefined_Behaviour else Ok (map (\<lambda>i. int i + base) [0..<nat k]))"

definition CalculateFromFlags :: "InstanceNumsCalculator \<Rightarrow> int list result" where
  "CalculateFromFlags c =
     (if instance_nums c \<noteq> [] \<and> base_instance_num c \<noteq> None then Err Cf_Error
      else if instance_nums c = [] \<and> base_instance_num c = None then Err Cf_Error
      else if instance_nums c \<noteq> []
      then (case num_instances c of
              Some k \<Rightarrow> if int (length (instance_nums c)) = k then Ok (instance_nums c) else Err Cf_Error
            | None \<Rightarrow> Ok (instance_nums c))
      else count_from (the (base_instance_num c)) (case num_instances c of None \<Rightarrow> 1 | Some k \<Rightarrow> k))"

definition Calculate :: "int \<Rightarrow> InstanceNumsCalculator \<Rightarrow> int list result" where
  "Calculate GetInstance c =
     (if instance_nums c \<noteq> [] \<or> base_instance_num c \<noteq> None then CalculateFromFlags c
      else bind_result (count_from GetInstance (case num_instances c of None \<Rightarrow> 1 | Some k \<Rightarrow> k))
             (\<lambda>ks. if ks = [] then Err Cf_Error else Ok ks))"

subsection \<open>Arguments of start\<close>

definition FilterSelectorFlag :: "string list \<Rightarrow> string \<Rightarrow> string option result \<times> string list" where
  "FilterSelectorFlag args flag_name =
     (if args = [] then (Ok None, args)
      else case ConsumeFlags [string_flag flag_name] False args [] of
             (Inl e, left, _) \<Rightarrow> (Inl e, left)
           | (Inr _, left, val) \<Rightarrow> (Ok (if length left = length args then None else Some val), left))"

definition FilterSelectorFlag_bool :: "string list \<Rightarrow> string \<Rightarrow> bool option result \<times> string list" where
  "FilterSelectorFlag_bool args flag_name =
     (if args = [] then (Ok None, args)
      else case ConsumeFlags [bool_flag flag_name] False args False of
             (Inl e, left, _) \<Rightarrow> (Inl e, left)
           | (Inr _, left, val) \<Rightarrow> (Ok (if length left = length args then None else Some val), left))"

definition ParsePositiveNumber :: "(string \<Rightarrow> u32 option) \<Rightarrow> string \<Rightarrow> u32 result" where
  "ParsePositiveNumber SimpleAtoi token =
     (case SimpleAtoi token of None \<Rightarrow> Err Cf_Error | Some k \<Rightarrow> if k > 0 then Ok k else Err Cf_Error)"

definition TryFromCuttlefishInstance :: "(string \<Rightarrow> u32 option) \<Rightarrow> envs \<Rightarrow> u32 option" where
  "TryFromCuttlefishInstance SimpleAtoi es =
     (case es ''CUTTLEFISH_INSTANCE'' of
        None \<Rightarrow> None
      | Some s \<Rightarrow> if s = [] then None else case ParsePositiveNumber SimpleAtoi s of Inl _ \<Rightarrow> None | Inr k \<Rightarrow> Some k)"

definition InstanceFromEnvironment :: "u32 option \<Rightarrow> u32 option \<Rightarrow> u32 \<Rightarrow> u32 list option" where
  "InstanceFromEnvironment cuttlefish_instance_env vsoc_suffix k =
     (case (if cuttlefish_instance_env \<noteq> None then cuttlefish_instance_env else vsoc_suffix) of
        None \<Rightarrow> None
      | Some base \<Rightarrow> Some (map (\<lambda>i. base + of_nat i) [0..<unat k]))"

fun all_positive :: "(string \<Rightarrow> u32 option) \<Rightarrow> string list \<Rightarrow> u32 list result" where
  "all_positive SimpleAtoi [] = Ok []"
| "all_positive SimpleAtoi (t # ts) =
     bind_result (ParsePositiveNumber SimpleAtoi t) (\<lambda>k. bind_result (all_positive SimpleAtoi ts) (\<lambda>ks. Ok (k # ks)))"

definition VerifyNumOfInstances :: "(string \<Rightarrow> u32 option) \<Rightarrow> string option \<Rightarrow> string list option \<Rightarrow> string option \<Rightarrow> u32 result" where
  "VerifyNumOfInstances SimpleAtoi num_flag names nums_flag =
     bind_result (case num_flag of None \<Rightarrow> Ok None | Some s \<Rightarrow> map_sum id Some (ParsePositiveNumber SimpleAtoi s)) (\<lambda>k.
     bind_result
       (case names of
          None \<Rightarrow> Ok k
        | Some ns \<Rightarrow>
            if ns = [] then Ok k
            else if k \<noteq> None \<and> k \<noteq> Some (of_nat (length ns)) then Err Cf_Error
            else Ok (Some (of_nat (length ns)))) (\<lambda>k.
     bind_result
       (case nums_flag of
          None \<Rightarrow> Ok k
        | Some s \<Rightarrow>
            (let tokens = StrSplit (CHR '','') s
             in bind_result (all_positive SimpleAtoi tokens) (\<lambda>_.
                  let k = (case k of None \<Rightarrow> of_nat (length tokens) | Some k \<Rightarrow> k)
                  in if unat k \<noteq> length tokens then Err Cf_Error else Ok (Some k)))) (\<lambda>k.
       Ok (case k of None \<Rightarrow> 1 | Some k \<Rightarrow> k))))"

definition ParseInstanceNums :: "(string \<Rightarrow> u32 option) \<Rightarrow> string \<Rightarrow> u32 list result" where
  "ParseInstanceNums SimpleAtoi s =
     bind_result (all_positive SimpleAtoi (StrSplit (CHR '','') s)) (\<lambda>ks. if distinct ks then Ok ks else Err Cf_Error)"

record InstanceIdsParams =
  p_num_instances :: "string option"
  p_instance_nums :: "string option"
  p_base_instance_num :: "string option"
  p_cuttlefish_instance_env :: "u32 option"
  p_vsoc_suffix :: "u32 option"

text \<open>The result has the ids, if any, and the number of instances.\<close>

definition with_ids :: "u32 list \<Rightarrow> u32 list \<times> u32" where
  "with_ids ids = (ids, of_nat (length ids))"

definition HandleInstanceIds :: "(string \<Rightarrow> u32 option) \<Rightarrow> string list option \<Rightarrow> InstanceIdsParams \<Rightarrow> (u32 list \<times> u32) result" where
  "HandleInstanceIds SimpleAtoi names q =
     bind_result (VerifyNumOfInstances SimpleAtoi (p_num_instances q) names (p_instance_nums q)) (\<lambda>k.
       if p_instance_nums q = None \<and> p_base_instance_num q = None
       then (case InstanceFromEnvironment (p_cuttlefish_instance_env q) (p_vsoc_suffix q) k of
               Some ids \<Rightarrow> Ok (with_ids ids)
             | None \<Rightarrow> Ok ([], k))
       else let calculator = NumInstances (sint k) \<lparr>base_instance_num = None, num_instances = None, instance_nums = []\<rparr>
            in case p_instance_nums q of
                 Some s \<Rightarrow>
                   if p_base_instance_num q \<noteq> None then Err Cf_Error
                   else map_sum id with_ids (ParseInstanceNums SimpleAtoi s)
               | None \<Rightarrow>
                   bind_result (ParsePositiveNumber SimpleAtoi (the (p_base_instance_num q))) (\<lambda>base.
                   bind_result (CalculateFromFlags (BaseInstanceNum (sint base) calculator)) (\<lambda>ids.
                     if ids = [] then Err Cf_Error else Ok (with_ids (map word_of_int ids)))))"

record StartSelector =
  requested_num_instances :: u32
  start_instance_ids :: "u32 list"
  use_cvdalloc :: bool

definition ParseOptions :: "(string \<Rightarrow> u32 option) \<Rightarrow> SelectorOptions \<Rightarrow> string list \<Rightarrow> envs \<Rightarrow> StartSelector result" where
  "ParseOptions SimpleAtoi s args es =
     (case FilterSelectorFlag_bool args ''use_cvdalloc'' of
        (Inl e, _) \<Rightarrow> Inl e
      | (Inr cvdalloc, args) \<Rightarrow>
     (case FilterSelectorFlag args ''num_instances'' of
        (Inl e, _) \<Rightarrow> Inl e
      | (Inr num, args) \<Rightarrow>
     (case FilterSelectorFlag args ''instance_nums'' of
        (Inl e, _) \<Rightarrow> Inl e
      | (Inr nums, args) \<Rightarrow>
     (case FilterSelectorFlag args ''base_instance_num'' of
        (Inl e, _) \<Rightarrow> Inl e
      | (Inr base, args) \<Rightarrow>
          bind_result (HandleInstanceIds SimpleAtoi (sel_instance_names s)
              \<lparr>p_num_instances = num, p_instance_nums = nums, p_base_instance_num = base,
               p_cuttlefish_instance_env = TryFromCuttlefishInstance SimpleAtoi es, p_vsoc_suffix = None\<rparr>)
            (\<lambda>(ids, k). Ok \<lparr>requested_num_instances = k, start_instance_ids = ids, use_cvdalloc = (cvdalloc = Some True)\<rparr>)))))"

subsection \<open>The group to create\<close>

definition AnalyzeInstances :: "StartSelector \<Rightarrow> SelectorOptions \<Rightarrow> InstanceParams list result" where
  "AnalyzeInstances p s =
     (let k = unat (requested_num_instances p); ids = start_instance_ids p;
          ps = map (\<lambda>i. \<lparr>params_id = (if i < length ids then Some (ids ! i) else None), params_name = None\<rparr>) [0..<k]
      in case sel_instance_names s of
           None \<Rightarrow> Ok ps
         | Some ns \<Rightarrow>
             if length ns \<noteq> k then Err Cf_Error
             else Ok (map (\<lambda>i. (ps ! i)\<lparr>params_name := Some (ns ! i)\<rparr>) [0..<k]))"

definition AndroidHostPath :: "(string \<Rightarrow> bool) \<Rightarrow> string \<Rightarrow> envs \<Rightarrow> string result" where
  "AndroidHostPath IsValidAndroidHostOutPath CurrentDirectory es =
     (case find (\<lambda>v. case es v of None \<Rightarrow> False | Some d \<Rightarrow> IsValidAndroidHostOutPath d) [''ANDROID_HOST_OUT'', ''ANDROID_SOONG_HOST_OUT'', ''HOME''] of
        Some v \<Rightarrow> Ok (the (es v))
      | None \<Rightarrow> if IsValidAndroidHostOutPath CurrentDirectory then Ok CurrentDirectory else Err Cf_Error)"

definition AnalyzeHome :: "string result \<Rightarrow> (string \<Rightarrow> unit result) \<Rightarrow> envs \<Rightarrow> string option result" where
  "AnalyzeHome SystemWideUserHome make_directory es =
     (case es ''HOME'' of
        None \<Rightarrow> Ok None
      | Some h \<Rightarrow>
          bind_result SystemWideUserHome (\<lambda>system.
            if h = system then Ok None else bind_result (make_directory h) (\<lambda>_. Ok (Some h))))"

definition product_paths :: "envs \<Rightarrow> string \<Rightarrow> nat \<Rightarrow> string option list" where
  "product_paths es host k =
     (let given = (case es ''ANDROID_PRODUCT_OUT'' of Some s \<Rightarrow> take k (StrSplit (CHR '','') s) | None \<Rightarrow> [host])
      in map Some (given @ replicate (k - length given) (given ! 0)))"

definition ExtractGroupInfo ::
  "string result \<Rightarrow> (string \<Rightarrow> unit result) \<Rightarrow> (string \<Rightarrow> bool) \<Rightarrow> string \<Rightarrow> StartSelector \<Rightarrow> SelectorOptions \<Rightarrow> envs \<Rightarrow>
     (string \<times> InstanceParams list \<times> GroupDirectories) result" where
  "ExtractGroupInfo SystemWideUserHome make_directory valid_host cwd p s es =
     bind_result (AnalyzeInstances p s) (\<lambda>ps.
     bind_result (AnalyzeHome SystemWideUserHome make_directory es) (\<lambda>h.
     bind_result (AndroidHostPath valid_host cwd es) (\<lambda>host.
       Ok (case sel_group_name s of None \<Rightarrow> [] | Some g \<Rightarrow> g, ps,
           \<lparr>base_directory = None, home = h, host_artifacts = Some host, product_out_paths = product_paths es host (length ps)\<rparr>))))"

definition AnalyzeCreation ::
  "(string \<Rightarrow> u32 option) \<Rightarrow> string result \<Rightarrow> (string \<Rightarrow> unit result) \<Rightarrow> (string \<Rightarrow> bool) \<Rightarrow> string \<Rightarrow> string list \<Rightarrow> envs \<Rightarrow> SelectorOptions \<Rightarrow>
     (string \<times> InstanceParams list \<times> GroupDirectories) result" where
  "AnalyzeCreation SimpleAtoi SystemWideUserHome make_directory valid_host cwd cmd_args es s =
     bind_result SystemWideUserHome (\<lambda>_.
     bind_result (ParseOptions SimpleAtoi s cmd_args es) (\<lambda>p.
       ExtractGroupInfo SystemWideUserHome make_directory valid_host cwd p s es))"

subsection \<open>The group or instance to use\<close>

definition GetDefaultGroup :: "db_codec \<Rightarrow> string \<Rightarrow> InstanceGroup result option" where
  "GetDefaultGroup codec bytes =
     map_option (\<lambda>r. bind_result r (\<lambda>gs. if length gs = 1 then Ok (hd gs) else Err Cf_Error)) (FindGroups codec no_filter bytes)"

text \<open>The number of the environment is parsed but not put into the filter. The names are a set in the source.\<close>

definition BuildFilterFromSelectors :: "(string \<Rightarrow> u32 option) \<Rightarrow> SelectorOptions \<Rightarrow> envs \<Rightarrow> Filter result" where
  "BuildFilterFromSelectors SimpleAtoi s es =
     (let f = no_filter\<lparr>filter_group_name := sel_group_name s,
                        filter_instance_names := (case sel_instance_names s of None \<Rightarrow> [] | Some ns \<Rightarrow> remdups ns)\<rparr>
      in case es ''CUTTLEFISH_INSTANCE'' of
           None \<Rightarrow> Ok f
         | Some v \<Rightarrow> (case SimpleAtoi v of None \<Rightarrow> Err Cf_Error | Some _ \<Rightarrow> Ok f))"

definition FindGroupOrDefault :: "db_codec \<Rightarrow> Filter \<Rightarrow> string \<Rightarrow> InstanceGroup result option" where
  "FindGroupOrDefault codec f bytes =
     (if Filter_Empty f then GetDefaultGroup codec bytes
      else map_option (\<lambda>r. bind_result r (\<lambda>gs. if length gs = 1 then Ok (hd gs) else Err Cf_Error)) (FindGroups codec f bytes))"

definition FindDefaultInstance :: "db_codec \<Rightarrow> string \<Rightarrow> (Instance \<times> InstanceGroup) result option" where
  "FindDefaultInstance codec bytes =
     map_option (\<lambda>r. bind_result r (\<lambda>g. if length (instances g) = 1 then Ok (hd (instances g), g) else Err Cf_Error)) (GetDefaultGroup codec bytes)"

text \<open>The dialogue, over the lines that are typed; the end of the input is an error.\<close>

fun PromptUserForGroup :: "(string \<Rightarrow> int option) \<Rightarrow> db_codec \<Rightarrow> string \<Rightarrow> InstanceGroup list \<Rightarrow> Filter \<Rightarrow> string list \<Rightarrow> InstanceGroup result" where
  "PromptUserForGroup atoi codec bytes groups f [] = Err Cf_Error"
| "PromptUserForGroup atoi codec bytes groups f (line # input) =
     (let trimmed = rev (dropWhile isspace (rev (dropWhile isspace line)))
      in case atoi line of
           Some k \<Rightarrow>
             if int (length groups) \<le> k \<or> k < 0 then PromptUserForGroup atoi codec bytes groups f input
             else (case FindGroup codec (f\<lparr>filter_group_name := Some (group_name (groups ! nat k))\<rparr>) bytes of
                     Some (Inr g) \<Rightarrow> Ok g
                   | _ \<Rightarrow> PromptUserForGroup atoi codec bytes groups f input)
         | None \<Rightarrow>
             (case FindGroup codec (f\<lparr>filter_group_name := Some trimmed\<rparr>) bytes of
                Some (Inr g) \<Rightarrow> Ok g
              | _ \<Rightarrow> PromptUserForGroup atoi codec bytes groups f input))"

definition SelectGroup ::
  "(string \<Rightarrow> u32 option) \<Rightarrow> (string \<Rightarrow> int option) \<Rightarrow> bool \<Rightarrow> string list \<Rightarrow> db_codec \<Rightarrow> string \<Rightarrow> SelectorOptions \<Rightarrow> envs \<Rightarrow> InstanceGroup result" where
  "SelectGroup SimpleAtoi atoi tty input codec bytes s es =
     (case IsEmpty codec bytes of
        None \<Rightarrow> Err Cf_Error
      | Some (Inl e) \<Rightarrow> Inl e
      | Some (Inr True) \<Rightarrow> Err Cf_Error
      | Some (Inr False) \<Rightarrow>
          bind_result (BuildFilterFromSelectors SimpleAtoi s es) (\<lambda>f.
            case FindGroupOrDefault codec f bytes of
              Some (Inr g) \<Rightarrow> Ok g
            | _ \<Rightarrow>
                if \<not> tty then Err Cf_Error
                else case FindGroups codec no_filter bytes of
                       Some (Inr groups) \<Rightarrow> PromptUserForGroup atoi codec bytes groups f input
                     | Some (Inl e) \<Rightarrow> Inl e
                     | None \<Rightarrow> Err Cf_Error))"

definition SelectInstance :: "(string \<Rightarrow> u32 option) \<Rightarrow> db_codec \<Rightarrow> string \<Rightarrow> SelectorOptions \<Rightarrow> envs \<Rightarrow> (Instance \<times> InstanceGroup) result option" where
  "SelectInstance SimpleAtoi codec bytes s es =
     (case BuildFilterFromSelectors SimpleAtoi s es of
        Inl e \<Rightarrow> Some (Inl e)
      | Inr f \<Rightarrow> if Filter_Empty f then FindDefaultInstance codec bytes else FindInstanceWithGroup codec f bytes)"

subsection \<open>Selector arguments are read back\<close>

lemma check_names_valid: "check_names ns seen \<Longrightarrow> \<forall>n\<in>set ns. IsValidInstanceName n"
  by (induction ns arbitrary: seen) (auto split: if_splits)

lemma StrSplit_chars: "c \<in> set s \<Longrightarrow> c \<noteq> d \<Longrightarrow> \<exists>p\<in>set (StrSplit d s). c \<in> set p"
  by (induction s) (auto split: list.splits)

lemma valid_instance_name_no_comma: "IsValidInstanceName n \<Longrightarrow> CHR '','' \<notin> set n"
proof
  assume v: "IsValidInstanceName n" and c: "CHR '','' \<in> set n"
  obtain p where "p \<in> set (StrSplit (CHR ''-'') n)" "CHR '','' \<in> set p" using StrSplit_chars [OF c, of "CHR ''-''"] by auto
  moreover have "n \<noteq> []" using c by auto
  ultimately have "name_char (CHR '','')" using v by (fastforce simp: IsValidInstanceName_def list_all_iff)
  then show False by (simp add: name_char_def)
qed

lemmas selector_defs = selector_flags_def Setter_def new_flag_def GflagsCompatFlag_aliases_def mk_alias_def

lemma group_argument:
  "process_all selector_flags (''--group_name='' @ g) nx kFlagSkip v = (Ok kFlagConsumed, (Some g, snd v))"
  by (simp add: selector_defs Process_def calling_def)

lemma instance_argument:
  "process_all selector_flags (''--instance_name='' @ i) nx kFlagSkip v = (Ok kFlagConsumed, (fst v, Some i))"
  by (simp add: selector_defs Process_def calling_def)

lemma process_all_unmatched:
  "\<forall>f\<in>set fs. \<not> matches f a \<and> setter f \<noteq> None \<Longrightarrow> process_all fs a nx r v = (Ok r, v)"
  by (induction fs) (auto simp: Process_unmatched)

lemma constrained_stops:
  assumes "rest = [] \<or> list_all (\<lambda>f. \<not> matches f (hd rest)) selector_flags"
  shows "ConsumeFlagsConstrained selector_flags rest v = (Ok (), rest, v)"
proof (cases rest)
  case (Cons a as)
  have "\<forall>f\<in>set selector_flags. setter f \<noteq> None" by (simp add: selector_defs)
  then have "process_all selector_flags a (next_of as) kFlagSkip v = (Ok kFlagSkip, v)"
    using assms Cons by (intro process_all_unmatched) (auto simp: list_all_iff)
  then show ?thesis using Cons by simp
qed simp

definition valid_selectors :: "SelectorOptions \<Rightarrow> bool" where
  "valid_selectors s \<longleftrightarrow> (case sel_group_name s of None \<Rightarrow> True | Some g \<Rightarrow> IsValidGroupName g) \<and>
     (case sel_instance_names s of None \<Rightarrow> True | Some ns \<Rightarrow> ns \<noteq> [] \<and> check_names ns [])"

text \<open>
  C38: Selectors that were accepted, printed as arguments again and followed by a command that starts with no
  selector, are parsed to the same selectors and the same rest: group name and instance names, also
  empty ones. So the program hands its own selectors on unchanged when it runs itself.
\<close>

theorem selector_arguments_are_read_back:
  assumes "valid_selectors s" and "rest = [] \<or> list_all (\<lambda>f. \<not> matches f (hd rest)) selector_flags"
  shows "ParseCommonSelectorArguments (AsArgs s @ rest) = (Ok s, rest) \<and> ExtractCvdArgs (prog # AsArgs s @ rest) = (Ok (AsArgs s), prog # rest)"
proof -
  obtain g ns where s: "s = \<lparr>sel_group_name = g, sel_instance_names = ns\<rparr>" by (cases s) auto
  have names: "HandleInstanceNames (StrJoin '','' l) = Ok l" if "ns = Some l" for l
  proof -
    have l: "l \<noteq> []" "check_names l []" using assms(1) that by (auto simp: valid_selectors_def s)
    then have "\<forall>n\<in>set l. CHR '','' \<notin> set n" using check_names_valid valid_instance_name_no_comma by blast
    then show ?thesis using l StrSplit_StrJoin [of l "CHR '',''"] by (simp add: HandleInstanceNames_def)
  qed
  have run: "ConsumeFlagsConstrained selector_flags (AsArgs s @ rest) (None, None) = (Ok (), rest, (g, map_option (StrJoin '','') ns))"
    using constrained_stops [OF assms(2)]
    by (cases g; cases ns) (simp_all add: AsArgs_def s group_argument [simplified] instance_argument [simplified])
  have "HandleNameOpts g (map_option (StrJoin '','') ns) = Ok s"
    using assms(1) names by (cases g; cases ns) (simp_all add: HandleNameOpts_def HandleGroupName_def valid_selectors_def s)
  then have parse: "ParseCommonSelectorArguments (AsArgs s @ rest) = (Ok s, rest)" by (simp add: ParseCommonSelectorArguments_def run)
  then show ?thesis by (cases rest) (simp_all add: ExtractCvdArgs_def SeparateArguments_def)
qed

theorem selector_arguments_are_read_back_witness:
  "ParseCommonSelectorArguments [''--group_name=cvd_1'', ''--instance_name=a,b'', ''start''] =
     (Ok \<lparr>sel_group_name = Some ''cvd_1'', sel_instance_names = Some [''a'', ''b'']\<rparr>, [''start''])"
proof -
  let ?s = "\<lparr>sel_group_name = Some ''cvd_1'', sel_instance_names = Some [''a'', ''b'']\<rparr>"
  have "valid_selectors ?s" "list_all (\<lambda>f. \<not> matches f (hd [''start''])) selector_flags" "AsArgs ?s = [''--group_name=cvd_1'', ''--instance_name=a,b'']"
    by code_simp+
  then show ?thesis using selector_arguments_are_read_back [of ?s "[''start'']" "''cvd''"] by simp
qed


subsection \<open>What is asked of the manager\<close>

lemma all_positive_ok: "all_positive A ts = Ok ks \<Longrightarrow> length ks = length ts \<and> 0 \<notin> set ks"
  by (induction ts arbitrary: ks) (auto simp: bind_result_def ParsePositiveNumber_def split: sum.splits option.splits if_splits)

lemma ParsePositiveNumber_ok: "ParsePositiveNumber A t = Ok k \<Longrightarrow> k \<noteq> 0"
  by (auto simp: ParsePositiveNumber_def split: option.splits if_splits)

lemma map_sum_ok: "map_sum id f r = Ok y \<longleftrightarrow> (\<exists>x. r = Ok x \<and> y = f x)"
  by (cases r) auto

lemma StrSplit_nonempty: "StrSplit d s \<noteq> []"
  by (induction s) (auto split: list.splits)

lemma of_nat_u32_less: "n < 4294967296 \<Longrightarrow> unat (of_nat n :: u32) = n"
  by (simp add: unat_of_nat)

lemma VerifyNumOfInstances_ok:
  assumes "VerifyNumOfInstances A num names nums = Ok k" and "\<forall>ns. names = Some ns \<longrightarrow> length ns < 4294967296"
  shows "k \<noteq> 0" and "nums = Some s \<Longrightarrow> unat k = length (StrSplit (CHR '','') s)"
proof -
  have "k \<noteq> 0 \<and> (\<forall>s. nums = Some s \<longrightarrow> unat k = length (StrSplit (CHR '','') s))"
  proof (cases nums)
    case None
    have l: "(of_nat (length ns) :: u32) \<noteq> 0" if "names = Some ns" "ns \<noteq> []" for ns
      using of_nat_u32_less [of "length ns"] assms(2) that by (metis length_0_conv unat_0)
    show ?thesis using None assms(1) l
      by (auto simp: VerifyNumOfInstances_def bind_result_def map_sum_ok split: sum.splits option.splits if_splits dest: ParsePositiveNumber_ok)
  next
    case (Some s)
    then have "unat k = length (StrSplit (CHR '','') s)" using assms(1)
      by (auto simp: VerifyNumOfInstances_def bind_result_def Let_def split: sum.splits option.splits if_splits)
    then show ?thesis using Some StrSplit_nonempty by auto
  qed
  then show "k \<noteq> 0" and "nums = Some s \<Longrightarrow> unat k = length (StrSplit (CHR '','') s)" by auto
qed


lemma consecutive_distinct:
  assumes "m \<le> 4294967296"
  shows "distinct (map (\<lambda>i. base + of_nat i :: u32) [0..<m])"
proof -
  have "i = j" if "i < m" "j < m" "(of_nat i :: u32) = of_nat j" for i j
    using arg_cong [OF that(3), of unat] that(1,2) assms by (simp only: of_nat_u32_less less_le_trans)
  then have "inj_on (\<lambda>i. base + of_nat i :: u32) {0..<m}" by (intro inj_onI) (simp only: add_left_cancel atLeastLessThan_iff)
  then show ?thesis by (simp only: distinct_map distinct_upt set_upt simp_thms)
qed

lemma consecutive_wrap:
  assumes "(0 :: u32) \<in> set (map (\<lambda>i. base + of_nat i) [0..<m])" and "base \<noteq> 0"
  shows "4294967296 < unat base + m"
proof -
  obtain i where i: "i < m" "base + of_nat i = 0" using assms(1) by auto
  have "unat base \<noteq> 0" using assms(2) by (simp add: unat_eq_zero)
  moreover have "(of_nat (unat base + i) :: u32) = 0" using i(2) by simp
  then have "\<not> unat base + i < 4294967296" using of_nat_u32_less [of "unat base + i"] calculation by auto
  ultimately show ?thesis using i(1) by simp
qed


text \<open>What the ids have in common, however they were given: the environment, a list or a first number.\<close>

definition ids_fine :: "u32 list \<Rightarrow> bool" where
  "ids_fine ids \<longleftrightarrow> distinct ids \<and> (0 \<in> set ids \<longrightarrow> 4294967296 < unat (hd ids) + length ids)"

lemma consecutive_fine:
  assumes "base \<noteq> 0" and "0 < m" and "m \<le> 4294967296"
  shows "ids_fine (map (\<lambda>i. base + of_nat i) [0..<m])"
proof -
  have "hd (map (\<lambda>i. base + of_nat i) [0..<m]) = base" using assms(2) by (simp add: hd_map)
  moreover have "length (map (\<lambda>i. base + of_nat i :: u32) [0..<m]) = m" by simp
  ultimately show ?thesis using consecutive_distinct [OF assms(3)] consecutive_wrap [OF _ assms(1)] unfolding ids_fine_def by presburger
qed

lemma count_from_words:
  assumes "count_from (sint base) k = Ok ids" and "ids \<noteq> []"
  shows "0 < k" and "map word_of_int ids = map (\<lambda>i. base + of_nat i) [0..<nat k]"
  using assms by (auto simp: count_from_def split: if_splits)

lemma with_ids_fine:
  assumes "ids_fine ids" and "ids \<noteq> []" and "length ids < 4294967296" and "with_ids ids = (ids', k)"
  shows "k \<noteq> 0 \<and> ids_fine ids' \<and> (ids' = [] \<or> length ids' = unat k)"
proof -
  have "unat (of_nat (length ids) :: u32) = length ids" by (rule of_nat_u32_less [OF assms(3)])
  then show ?thesis using assms by (auto simp: with_ids_def)
qed

lemma HandleInstanceIds_fine:
  assumes "HandleInstanceIds A names q = Ok (ids, k)" and "\<forall>ns. names = Some ns \<longrightarrow> length ns < 4294967296"
    and "p_cuttlefish_instance_env q \<noteq> Some 0" and "p_vsoc_suffix q = None"
  shows "k \<noteq> 0 \<and> ids_fine ids \<and> (ids = [] \<or> length ids = unat k)"
proof -
  obtain n where n: "VerifyNumOfInstances A (p_num_instances q) names (p_instance_nums q) = Ok n"
    using assms(1) by (auto simp: HandleInstanceIds_def bind_result_def split: sum.splits)
  note n_ok = VerifyNumOfInstances_ok [OF n assms(2)]
  have bound: "0 < unat n" "unat n < 4294967296" using n_ok(1) unsigned_less [of n] by (simp_all add: unat_gt_0)
  have pos: "base \<noteq> 0" if "p_cuttlefish_instance_env q = Some base" for base using assms(3) that by auto
  show ?thesis
  proof (cases "p_instance_nums q")
    case nums: (Some s)
    then obtain l where l: "ParseInstanceNums A s = Ok l" "with_ids l = (ids, k)"
      using assms(1) n by (auto simp: HandleInstanceIds_def bind_result_def map_sum_ok Let_def split: if_splits)
    then have "length l = unat n" "ids_fine l" using n_ok(2) [OF nums]
      by (auto simp: ParseInstanceNums_def bind_result_def ids_fine_def dest!: all_positive_ok split: sum.splits if_splits)
    then show ?thesis using with_ids_fine [OF _ _ _ l(2)] bound by fastforce
  next
    case nums: None
    show ?thesis
    proof (cases "p_base_instance_num q")
      case None
      show ?thesis
      proof (cases "p_cuttlefish_instance_env q")
        case (Some base)
        then have "with_ids (map (\<lambda>i. base + of_nat i) [0..<unat n]) = (ids, k)"
          using assms(1) n nums None by (simp add: HandleInstanceIds_def bind_result_def InstanceFromEnvironment_def)
        then show ?thesis using with_ids_fine [OF consecutive_fine [OF pos [OF Some]]] bound by simp
      qed (use assms(1,4) n n_ok(1) nums None in \<open>simp add: HandleInstanceIds_def bind_result_def InstanceFromEnvironment_def ids_fine_def\<close>)
    next
      case (Some t)
      then obtain base l where l: "ParsePositiveNumber A t = Ok base" "count_from (sint base) (sint n) = Ok l" "l \<noteq> []" "with_ids (map word_of_int l) = (ids, k)"
        using assms(1) n nums by (auto simp: HandleInstanceIds_def bind_result_def CalculateFromFlags_def BaseInstanceNum_def NumInstances_def Let_def
            split: sum.splits if_splits)
      have "nat (sint n) < 4294967296" using sint_lt [of n] by simp
      then show ?thesis using l(4) count_from_words [OF l(2,3)] consecutive_fine [OF ParsePositiveNumber_ok [OF l(1)], of "nat (sint n)"]
          with_ids_fine [of "map word_of_int l"] l(3) by fastforce
    qed
  qed
qed


lemma requested_all: "length ids = k \<Longrightarrow> requested (map (\<lambda>i. \<lparr>params_id = Some (ids ! i), params_name = f i\<rparr>) [0..<k]) = ids"
  by (simp add: requested_def comp_def) (metis concat_map_singleton map_nth)

lemma requested_none: "requested (map (\<lambda>i. \<lparr>params_id = None, params_name = f i\<rparr>) is) = []"
  by (simp add: requested_def)

lemma AnalyzeInstances_ok:
  assumes "AnalyzeInstances p s = Ok ps" and "start_instance_ids p = [] \<or> length (start_instance_ids p) = unat (requested_num_instances p)"
  shows "length ps = unat (requested_num_instances p)" and "requested ps = start_instance_ids p"
    and "map params_name ps = (case sel_instance_names s of None \<Rightarrow> replicate (length ps) None | Some ns \<Rightarrow> map Some ns)"
proof -
  let ?k = "unat (requested_num_instances p)" and ?ids = "start_instance_ids p"
  define f where "f i = (case sel_instance_names s of None \<Rightarrow> None | Some ns \<Rightarrow> Some (ns ! i))" for i
  have ps: "ps = map (\<lambda>i. \<lparr>params_id = (if i < length ?ids then Some (?ids ! i) else None), params_name = f i\<rparr>) [0..<?k]"
    using assms(1) by (auto simp: AnalyzeInstances_def f_def Let_def split: option.splits if_splits)
  then show len: "length ps = ?k" by simp
  show "requested ps = ?ids" using assms(2)
  proof
    assume "length ?ids = ?k"
    then have "ps = map (\<lambda>i. \<lparr>params_id = Some (?ids ! i), params_name = f i\<rparr>) [0..<?k]" by (simp add: ps)
    then show ?thesis using \<open>length ?ids = ?k\<close> by (simp only: requested_all)
  qed (simp add: ps requested_none)
  have names: "length ns = ?k" if "sel_instance_names s = Some ns" for ns
    using assms(1) that by (auto simp: AnalyzeInstances_def Let_def split: if_splits)
  have "map params_name ps = map f [0..<?k]" by (simp add: ps comp_def)
  also have "\<dots> = (case sel_instance_names s of None \<Rightarrow> replicate ?k None | Some ns \<Rightarrow> map Some ns)"
    using names by (auto simp: f_def map_replicate_const intro!: nth_equalityI split: option.splits)
  finally show "map params_name ps = (case sel_instance_names s of None \<Rightarrow> replicate (length ps) None | Some ns \<Rightarrow> map Some ns)"
    unfolding len .
qed

lemma product_paths_length: "0 < k \<Longrightarrow> length (product_paths es host k) = k"
  using StrSplit_nonempty [of "CHR '',''"] by (auto simp: product_paths_def Let_def split: option.splits)

lemma TryFromCuttlefishInstance_pos: "TryFromCuttlefishInstance A es \<noteq> Some 0"
  by (auto simp: TryFromCuttlefishInstance_def dest: ParsePositiveNumber_ok split: option.splits sum.splits)

lemma ParseOptions_fine:
  assumes "ParseOptions A s args es = Ok p" and "\<forall>ns. sel_instance_names s = Some ns \<longrightarrow> length ns < 4294967296"
  shows "requested_num_instances p \<noteq> 0 \<and> ids_fine (start_instance_ids p) \<and>
    (start_instance_ids p = [] \<or> length (start_instance_ids p) = unat (requested_num_instances p))"
proof -
  obtain num nums base ids k where "HandleInstanceIds A (sel_instance_names s)
      \<lparr>p_num_instances = num, p_instance_nums = nums, p_base_instance_num = base,
       p_cuttlefish_instance_env = TryFromCuttlefishInstance A es, p_vsoc_suffix = None\<rparr> = Ok (ids, k)"
      "requested_num_instances p = k" "start_instance_ids p = ids"
    using assms(1) by (auto simp: ParseOptions_def bind_result_def split: prod.splits sum.splits)
  then show ?thesis using HandleInstanceIds_fine [OF _ assms(2)] TryFromCuttlefishInstance_pos [of A es] by simp
qed

text \<open>
  C20: A request that is accepted has the shape that the creation of a group relies on: at least one instance, a
  product directory for each, the given names in their places, and ids for all of the instances or for none;
  the ids differ. None is zero, unless counting up from the first one passes the largest number: the
  sum is not checked, so a first number close to the largest gives an instance 0, which is refused
  only when the group is built, after its locks are taken.
\<close>

theorem accepted_request_is_well_formed:
  assumes "AnalyzeCreation SimpleAtoi SystemWideUserHome make_directory valid_host cwd cmd_args es s = Ok (g, ps, ds)"
    and "\<forall>ns. sel_instance_names s = Some ns \<longrightarrow> length ns < 2 ^ 32"
  shows "ps \<noteq> [] \<and> length (product_out_paths ds) = length ps \<and>
    map params_name ps = (case sel_instance_names s of None \<Rightarrow> replicate (length ps) None | Some ns \<Rightarrow> map Some ns) \<and>
    (requested ps = [] \<or> length (requested ps) = length ps) \<and> distinct (requested ps) \<and>
    (0 \<in> set (requested ps) \<longrightarrow> 2 ^ 32 < unat (hd (requested ps)) + length ps)"
proof -
  obtain p host where p: "ParseOptions SimpleAtoi s cmd_args es = Ok p" and ps: "AnalyzeInstances p s = Ok ps"
      and paths: "product_out_paths ds = product_paths es host (length ps)"
    using assms(1) by (auto simp: AnalyzeCreation_def ExtractGroupInfo_def bind_result_def split: sum.splits)
  have fine: "requested_num_instances p \<noteq> 0" "ids_fine (start_instance_ids p)"
      and len: "start_instance_ids p = [] \<or> length (start_instance_ids p) = unat (requested_num_instances p)"
    using ParseOptions_fine [OF p] assms(2) by simp_all
  note an = AnalyzeInstances_ok [OF ps len]
  have "0 < length ps" using fine(1) by (simp add: an(1) unat_gt_0)
  then have ne: "ps \<noteq> []" and "length (product_out_paths ds) = length ps" unfolding paths by (auto intro!: product_paths_length)
  moreover have "length ps = length (start_instance_ids p)" if "0 \<in> set (start_instance_ids p)" using len that an(1) by auto
  ultimately show ?thesis using ne an(3) len [folded an(1)] fine(2) unfolding ids_fine_def an(2) by auto
qed

theorem accepted_request_is_well_formed_witness:
  "AnalyzeCreation (\<lambda>t. if t = ''2'' then Some 2 else if t = ''4294967295'' then Some 4294967295 else None) (Ok ''/home/u'') (\<lambda>_. Ok ())
     (\<lambda>d. d = ''/host'') ''/host'' [''--num_instances=2'', ''--base_instance_num=4294967295''] Map.empty
     \<lparr>sel_group_name = None, sel_instance_names = None\<rparr> =
   Ok ([], [\<lparr>params_id = Some 4294967295, params_name = None\<rparr>, \<lparr>params_id = Some 0, params_name = None\<rparr>],
       \<lparr>base_directory = None, home = None, host_artifacts = Some ''/host'', product_out_paths = [Some ''/host'', Some ''/host'']\<rparr>) \<and>
   (2 :: nat) ^ 32 < unat (4294967295 :: u32) + 2"
proof (intro conjI)
  let ?ps = "[\<lparr>params_id = Some 4294967295, params_name = None\<rparr>, \<lparr>params_id = Some 0, params_name = None\<rparr>] :: InstanceParams list"
  show run: "AnalyzeCreation (\<lambda>t. if t = ''2'' then Some 2 else if t = ''4294967295'' then Some 4294967295 else None) (Ok ''/home/u'') (\<lambda>_. Ok ())
     (\<lambda>d. d = ''/host'') ''/host'' [''--num_instances=2'', ''--base_instance_num=4294967295''] Map.empty
     \<lparr>sel_group_name = None, sel_instance_names = None\<rparr> =
   Ok ([], ?ps, \<lparr>base_directory = None, home = None, host_artifacts = Some ''/host'', product_out_paths = [Some ''/host'', Some ''/host'']\<rparr>)"
    by code_simp
  show "(2 :: nat) ^ 32 < unat (4294967295 :: u32) + 2"
    using accepted_request_is_well_formed [OF run] by (simp add: requested_def)
qed


subsection \<open>The instance of the environment\<close>

definition no_selectors :: SelectorOptions where
  "no_selectors = \<lparr>sel_group_name = None, sel_instance_names = None\<rparr>"

lemma GroupMatches_no_filter [simp]: "GroupMatches g no_filter"
  by (simp add: GroupMatches_def no_filter_def)

lemma several_groups_no_default:
  assumes "db_ok (parse codec bytes)" and "length (parse codec bytes) \<noteq> 1"
  shows "FindDefaultInstance codec bytes = Some (Err Cf_Error)"
proof -
  have "\<forall>g\<in>set (parse codec bytes). group_ok g" using assms(1) by (simp add: db_ok_def)
  then show ?thesis using assms(2) by (simp add: FindDefaultInstance_def GetDefaultGroup_def FindGroups_def find_groups_ok bind_result_def)
qed

text \<open>
  C40: The variable \<^verbatim>\<open>CUTTLEFISH_INSTANCE\<close> selects nothing: when its value is a number, the instance and the group that are
  chosen are the ones chosen without it. In particular, with several groups and no selector the
  choice fails, although the database has an instance with that number and finds it when asked.
\<close>

theorem environment_number_selects_nothing:
  assumes "es ''CUTTLEFISH_INSTANCE'' = Some v" and "SimpleAtoi v = Some (instance_id i)"
    and "db_ok (parse codec bytes)" and "length (parse codec bytes) \<noteq> 1" and "g \<in> set (parse codec bytes)" and "i \<in> set (instances g)"
  shows "SelectInstance SimpleAtoi codec bytes s es = SelectInstance SimpleAtoi codec bytes s (es(''CUTTLEFISH_INSTANCE'' := None)) \<and>
    SelectGroup SimpleAtoi atoi tty input codec bytes s es =
      SelectGroup SimpleAtoi atoi tty input codec bytes s (es(''CUTTLEFISH_INSTANCE'' := None)) \<and>
    SelectInstance SimpleAtoi codec bytes no_selectors es = Some (Err Cf_Error) \<and>
    FindInstanceWithGroup codec (no_filter\<lparr>filter_instance_id := Some (instance_id i)\<rparr>) bytes = Some (Ok (i, g))"
proof -
  have f: "BuildFilterFromSelectors SimpleAtoi t es = BuildFilterFromSelectors SimpleAtoi t (es(''CUTTLEFISH_INSTANCE'' := None))" for t
    using assms(1,2) by (simp add: BuildFilterFromSelectors_def)
  have "BuildFilterFromSelectors SimpleAtoi no_selectors es = Ok no_filter"
    using assms(1,2) by (simp add: BuildFilterFromSelectors_def no_selectors_def no_filter_def)
  then have "SelectInstance SimpleAtoi codec bytes no_selectors es = Some (Err Cf_Error)"
    using several_groups_no_default [OF assms(3,4)] by (simp add: SelectInstance_def Filter_Empty_def no_filter_def)
  moreover have "SelectGroup SimpleAtoi atoi tty input codec bytes s es =
      SelectGroup SimpleAtoi atoi tty input codec bytes s (es(''CUTTLEFISH_INSTANCE'' := None))"
    unfolding SelectGroup_def by (subst f) (rule refl)
  ultimately show ?thesis using f [of s] found_by_id [OF assms(3,5,6)] by (simp add: SelectInstance_def)
qed

theorem environment_number_selects_nothing_witness:
  "SelectInstance (\<lambda>v. if v = ''2'' then Some 2 else None) plain_db_codec
     (serialize plain_db_codec [one_instance ''cvd_1'' 1, one_instance ''cvd_2'' 2]) no_selectors [''CUTTLEFISH_INSTANCE'' \<mapsto> ''2''] = Some (Err Cf_Error)"
proof -
  let ?d = "[one_instance ''cvd_1'' 1, one_instance ''cvd_2'' 2]"
  let ?i = "hd (instances (one_instance ''cvd_2'' 2))" and ?atoi = "\<lambda>v. if v = ''2'' then Some 2 else None :: u32 option"
  have "db_ok ?d" by code_simp
  moreover have "?i \<in> set (instances (one_instance ''cvd_2'' 2))" "?atoi ''2'' = Some (instance_id ?i)" by (simp_all add: one_instance_def)
  ultimately show ?thesis
    by (intro environment_number_selects_nothing [where s = no_selectors and v = "''2''" and i = ?i and g = "one_instance ''cvd_2'' 2",
        THEN conjunct2, THEN conjunct2, THEN conjunct1]) simp_all
qed

end
