(* ===== verification/Spec2Isabelle.thy ===== *)
theory Spec2Isabelle
  imports Modem_Properties Lazily_Loaded_File Lz4_Legacy Chroot_Filesystem Sms_Sender Feature_Setup Composite_Spec Instance_Selection
begin

text \<open>
  \<^bold>\<open>Android Cuttlefish: modem simulator, I/O library, features, disk images, flags and instance management.\<close>

  Cuttlefish runs Android devices as virtual machines; its host programs are C++ under
  \<^verbatim>\<open>src/base/cvd/cuttlefish\<close>. This development models the parts of it that carry state and logic of their
  own and do not depend on a running machine: the modem simulator (\<^verbatim>\<open>host/commands/modem_simulator\<close>), a
  process that answers AT commands of the radio interface layer and exchanges calls and messages with
  the simulators of other instances; the programs that send commands to it (\<^verbatim>\<open>host/commands/cvd_send_sms\<close>,
  \<^verbatim>\<open>cvd_send_id_disclosure\<close>, \<^verbatim>\<open>cvd_update_security_algorithm\<close>); the I/O library (\<^verbatim>\<open>io\<close>) with the
  whole-buffer transfers of \<^verbatim>\<open>common/libs/fs\<close>; the set-up of the features of which the launcher consists
  (\<^verbatim>\<open>host/libs/feature\<close>); the construction of partitioned disks (\<^verbatim>\<open>host/libs/image_aggregator\<close>); how the
  command line program keeps track of virtual devices (\<^verbatim>\<open>host/commands/cvd/instances\<close>) and how its arguments name
  them (\<^verbatim>\<open>host/commands/cvd/cli/selector\<close>); and the flag parser of all host programs (\<^verbatim>\<open>common/libs/utils/flag_parser.cpp\<close>).

  \<^bold>\<open>How the parts work together.\<close> The channel monitor accepts clients, reads bytes from them, splits
  these into command lines and hands each line to the modem. The modem gives the line to the first of
  its eight services that has a matching handler; a handler changes its service, sends answers
  through the client, unsolicited lines through the monitor, and may post a callback to the looper,
  which runs it later. Calls and messages to other instances open connections through which the
  other simulator receives command lines of its own; the sending programs use the same connections.
  In the I/O library everything is a reader or a writer, with or without a position; copying, windows,
  concatenation, LZ4 frames and files are such objects made of others, and the lazily loaded file
  combines a local file, a slow source and the set of ranges that are already local. Disks are written
  through descriptors and whole-buffer transfers, and composite disks are read back through the readers.
  The instance manager gives ids to the devices of a group through lock files, builds the group, makes
  its directories, and stores it in a database, which is a message in a file that each process reads,
  changes and writes back under a lock. What it is asked to create, and which group or instance a command uses,
  is found from the arguments by the flag parser and from the environment by the selectors.

  \<^bold>\<open>Theories and sources.\<close>
  \<^item> \<open>Prelude\<close>: results (\<open>Inl\<close> an error: a failed check, a C++ exception, undefined behaviour), the
    collections of facts, generic lemmas. \<open>Cpp_String\<close>: \<^verbatim>\<open>std::string\<close>, \<^verbatim>\<open>std::to_string\<close>, \<^verbatim>\<open>std::stoi\<close>,
    \<^verbatim>\<open>strtol\<close>. \<open>Cpp_Map\<close>: \<^verbatim>\<open>std::map\<close> with integer keys, as a sorted association list; its laws are the
    locale \<open>keyed_store\<close>. \<open>Xml_Dom\<close>: what is used of tinyxml2, as a record of functions with their laws in the
    locale \<open>xml_document\<close>, and documents as stores of elements, which have these laws.
  \<^item> \<open>Disjoint_Range_Set\<close>: \<^verbatim>\<open>io/disjoint_range_set.cc\<close> and its serialisation.
  \<^item> \<open>Io_Interface\<close>: the classes of \<^verbatim>\<open>io/io.h\<close> as records of functions over the state of an object, and
    the functions over them (\<^verbatim>\<open>length.cc\<close>, \<^verbatim>\<open>read_exact.cc\<close>, \<^verbatim>\<open>write_exact.cc\<close>, \<^verbatim>\<open>string.cc\<close>,
    \<^verbatim>\<open>fake_pread_pwrite.cc\<close>); locales state what a reader or writer promises. \<open>In_Memory_Io\<close>: \<^verbatim>\<open>in_memory.cc\<close>.
    \<open>Io_Copy\<close>: \<^verbatim>\<open>copy.cc\<close>, and \<^verbatim>\<open>shared_fd.cc\<close> over a POSIX file. \<open>Io_Views\<close>: \<^verbatim>\<open>fake_seek.cc\<close>,
    \<^verbatim>\<open>read_window_view.cc\<close>, \<^verbatim>\<open>concat.cc\<close>. \<open>Shared_Buf\<close>: \<^verbatim>\<open>common/libs/fs/shared_buf.cc\<close>.
    \<open>Lazily_Loaded_File\<close>: \<^verbatim>\<open>lazily_loaded_file.cc\<close>. \<open>Lz4_Legacy\<close>: \<^verbatim>\<open>lz4_legacy.cc\<close> and the ramdisk functions of
    \<^verbatim>\<open>assemble_cvd/boot_image_utils.cc\<close>. \<open>Chroot_Filesystem\<close>: the filesystem of \<^verbatim>\<open>in_memory.cc\<close>,
    \<^verbatim>\<open>filesystem.h\<close> and \<^verbatim>\<open>chroot.cc\<close>.
  \<^item> \<open>Command_Parser\<close>, \<open>Pdu_Parser\<close>, \<open>Thread_Looper\<close>: \<^verbatim>\<open>command_parser.cpp\<close>, \<^verbatim>\<open>pdu_parser.cpp\<close>,
    \<^verbatim>\<open>thread_looper.cpp\<close>.
  \<^item> \<open>Modem_Service\<close>: \<^verbatim>\<open>client.cc\<close>, \<^verbatim>\<open>modem_service.cpp\<close>, \<^verbatim>\<open>nvram_config.cpp\<close> and the sending half of
    \<^verbatim>\<open>channel_monitor.cpp\<close>. The record \<open>env\<close> is what the services share: the clients as objects in a
    store, the two vectors of clients, what was written to whom, the pipe, the looper, the clocks and
    the saved settings.
  \<^item> \<open>Call_Service\<close>, \<open>Call_Properties\<close>; \<open>Misc_Service\<close>; \<open>Data_Service\<close>; \<open>Sup_Service\<close>; \<open>Network_Service\<close>,
    \<open>Network_Properties\<close>; \<open>Sms_Service\<close>; \<open>Sim_Service\<close>, \<open>Sim_Profile\<close>, \<open>Sim_Properties\<close>; \<open>Stk_Service\<close>: one
    record per service, one function per handler with the name of the method, one datatype and one
    table of command handlers per service, and the function that runs a handler.
  \<^item> \<open>Channel_Monitor\<close>: the receiving half of \<^verbatim>\<open>channel_monitor.cpp\<close> and the event loop, over the results
    of \<^verbatim>\<open>Select\<close> and \<^verbatim>\<open>Read\<close>. It sees the modem through the record \<open>virtual_modem\<close>, the abstract class
    \<^verbatim>\<open>VirtualModemSimulator\<close>; the locale \<open>modem_client\<close> states what it relies on.
  \<^item> \<open>Modem_Simulator\<close>: \<^verbatim>\<open>modem_simulator.cpp\<close> and the server connections of \<^verbatim>\<open>main.cpp\<close>: the services in
    one record, dispatch, callbacks, saving.
  \<^item> \<open>Client_Frame\<close>, \<open>Modem_Properties\<close>: what a command can do to the connections, the interpretation of
    the monitor's interface by the simulator, and the properties of the whole.
  \<^item> \<open>Pdu_Format_Builder\<close>, \<open>Sms_Sender\<close>: \<^verbatim>\<open>cvd_send_sms\<close>, from the text of a message to the command
    that the simulator serves, and the other sending programs.
  \<^item> \<open>Feature_Setup\<close>: \<^verbatim>\<open>feature.h\<close> and \<^verbatim>\<open>feature.cpp\<close>: the traversal of dependencies (a nested recursion whose
    termination is proved from the marks it leaves), \<^verbatim>\<open>RunSetup\<close>, \<^verbatim>\<open>ProcessFlags\<close> and the values of features.
  \<^item> \<open>Disk_Files\<close>: named files, \<^verbatim>\<open>SharedFD::Creat\<close> and \<^verbatim>\<open>CopyFrom\<close>. \<open>Disk_Image\<close>: the image formats and how
    they are told apart. \<open>Composite_Disk\<close>: partition tables byte by byte (\<^verbatim>\<open>gpt.h\<close>, \<^verbatim>\<open>mbr.h\<close>) and the functions
    of \<^verbatim>\<open>image_aggregator.cc\<close>, with the aggregated disk. \<open>Composite_Spec\<close>: the composite disk.
  \<^item> \<open>Instance_Group\<close>: the messages, groups and their builder, names (\<^verbatim>\<open>local_instance_group.cpp\<close>,
    \<^verbatim>\<open>local_instance.cpp\<close>, \<^verbatim>\<open>device_name.cpp\<close>). \<open>Data_Viewer\<close>: \<^verbatim>\<open>data_viewer.h\<close> and \<^verbatim>\<open>data_viewer.cpp\<close>, as one call on
    the bytes of the file and as a step relation of several processes with their locks.
    \<open>Instance_Database\<close>: \<^verbatim>\<open>instance_database.cpp\<close>. \<open>Instance_Locks\<close>: the lock files (\<^verbatim>\<open>lock/\<close>).
    \<open>Instance_Manager\<close>: \<^verbatim>\<open>instance_manager.cpp\<close>, over the database, the locks and a record of functions on
    directories.
  \<^item> \<open>Flag_Parser\<close>: \<^verbatim>\<open>flag_parser.cpp\<close>: aliases, matching and consuming arguments, over the state that the setters change,
    flags of each type and their descriptions; the locale \<open>printed_flag\<close> states that a flag reads what it shows.
    \<open>Instance_Selection\<close>: the selectors, the arguments of start and the choice of a group (\<^verbatim>\<open>cli/selector\<close>,
    \<^verbatim>\<open>frontline_parser.cpp\<close>), with the calculation of \<^verbatim>\<open>host/libs/config/instance_nums.cpp\<close>.

  \<^bold>\<open>What is shown.\<close> The range set keeps its canonical form and covers exactly what was inserted, and
  serialisation is inverted by parsing. Numbers, PDUs, semi-octets and settings that are printed are
  read back. The looper runs each callback once, when it is due, in order, and never after it was
  cancelled, although a serial, the clock and the place in the queue are taken in three steps between which others
  can post. Every service has an invariant that all of its commands and callbacks keep; the call
  table refines transitions of call states, with what the other sides are told; two instances complete a call; a message arrives at the
  other instance; wrong PINs and PUKs lock the SIM as counted, or not, on every branch. For the whole
  simulator: the outcome of reading does not depend on how the byte stream is cut, a command runs
  exactly the first matching handler, and in every reachable state the invariants of all services and
  of the connections hold together. A text given to \<^verbatim>\<open>cvd_send_sms\<close> reaches the phone with all of its
  characters, the number of the sender and the time, read from the PDU that is delivered (\<open>read_deliver\<close>), through the
  7-bit packing, the descriptor, the server and the dispatch. The PIN state that is saved in the profile is read back, for
  every library with the laws of \<open>xml_document\<close>.

  For the I/O library: copying, with holes for zeros or without, gives a new file the bytes of the
  reader; a concatenation of windows reads as the concatenation of their contents, from every position to which
  it is sought; reading a lazily loaded file gives the bytes of its source over any number of runs, including
  runs that are killed, asks the source only at positions that are not recorded, and a run that ends in order hands
  the record to the next; what is packed in LZ4 frames is unpacked again, and the runs of \<^verbatim>\<open>cpio\<close> on it end; no path leads a session out of the directory to
  which its filesystem is confined, and what is written below it is read back.

  For features and disks: the traversal ends for every graph, and sets up each feature once, after those it
  depends on, or nothing; the values then satisfy the equations of all features, whatever order the
  sets have. An aggregated disk, and what the components of a composite disk amount to, have every
  image in the sectors that the partition table names, inside the usable range and apart from each other, with a
  valid backup table at the end; a repeated call changes nothing.

  For instance management: every database that successful calls leave has unique group names, home
  directories and instance ids, so that lookups are exact and never abort; the least free id is found,
  and is bounded by the number of ids taken; a request that can be met is met, and the ids of groups
  are marked in their lock files from creation to removal; device names and pairs of names correspond.
  Calls of several processes would be serialised by an exclusive lock; the lock of the source is
  shared, and an addition can be lost. Consuming flags leaves exactly what no flag matches, each type of flag
  reads the text that it shows, and selectors that are passed on are read back; a request that the
  analysis of arguments accepts has the shape that the creation of a group needs, up to a wrap-around.

  Several theorems state behaviour that the code does not mean to have (an exit request that is not
  seen, a time-out that outlives its call, counters saved under the wrong name, old bytes that survive
  a sparse copy, bytes repeated after a short write, images that shift a disk, a refused disk that is
  accepted the next time, a group that is lost or cannot be created again, a
  spelling of flags that is matched and refused, an environment variable that selects nothing); the others show the intended behaviour.

  \<^bold>\<open>Bounds and termination.\<close> No fuel is used. Loops are recursions over lists or have a termination
  proof, except those that end only when a reader reports the end of its data (copying, reading a
  whole stream), the runs of \<^verbatim>\<open>cpio\<close> and the search for a free id: these are partial functions into options, where \<open>None\<close> is not
  returning, and are proved to return for readers over finitely many bytes, for a \<^verbatim>\<open>cpio\<close> that reads on when it succeeds, and when an id is free. Machine integers are words or integers
  reduced to their width where overflow can occur; counters that cannot reach their limit in a run are
  integers.

  \<^bold>\<open>Not modelled.\<close> Threads and mutexes: the monitor and the looper take turns, each event and callback
  is one step, and calls of the I/O objects are steps; only posting to the looper is cut into the steps between which
  other threads can come. Regular files have no device errors and no limit but that of an offset. Sockets are the bytes read and written; time and
  randomness are values of the environment. The JSON form of the saved settings, tinyxml2 with its files,
  the program \<^verbatim>\<open>cpio\<close>, the protobuf encoding, the LZ4 block codec, the conversions of ICU, the checksum of zlib, the
  library and the program for sparse images, and the iteration order of unordered sets are parameters with
  their documented behaviour; logging and the configuration of the host are left out, as are the files of
  the operating system (\<^verbatim>\<open>native_filesystem.cc\<close>), which only forward to system calls, and the visitors of
  reader classes. The number parsers of absl are parameters too. Of the command line program only
  the selection and the management of instances are modelled: its commands, downloads and what talks to
  running devices are not; directories are changed through a record of functions. Of the flags only those
  for help and verbosity are left out, which print and exit. The other host programs of the repository (launcher, streaming, secure environment)
  and vendored code are outside the development.
\<close>

end
